(* ===== verification/Prelude.thy ===== *)
theory Prelude
  imports Main "HOL-Library.AList" "HOL-Library.Char_ord" "HOL-Library.List_Lexorder"
    "HOL-Library.Product_Lexorder"
begin

text \<open>
  The shared layer of the development: results of fallible Python code, Python
  dictionaries as association lists in insertion order, the fragment of SQL the
  repositories use (\<open>UPDATE ... WHERE\<close> with its row count, \<open>ORDER BY\<close>), decimal
  notation, and the lemma collections the component theories extend.

  Conventions.
  \<^item> A string is a \<^typ>\<open>string\<close>: one \<^typ>\<open>char\<close> per Python code point, so the
    model ranges over the code points below 256; lengths count code points, as
    \<open>len\<close> does.
  \<^item> A time stamp is a natural number; \<open>utc_now()\<close> is an argument of the operation
    that calls it.
  \<^item> Python's \<open>x or y\<close> on an optional string treats \<open>None\<close> and the empty string
    alike (\<open>opt_or\<close>).
\<close>

named_theorems repo_simps "unfolding rules of the repository operations"
named_theorems sql_simps "rewriting with the SQL fragment"

subsection \<open>Errors\<close>

datatype py_error =
    ValueError string
  | KeyError string
  | IntegrityError
  | RuntimeError string
  | RecursionError
  | MultipleResultsFound
  | TypeError string
  | AttributeError string
  | OperationalError

type_synonym 'a res = "py_error + 'a"

definition bind_res :: "'a res \<Rightarrow> ('a \<Rightarrow> 'b res) \<Rightarrow> 'b res" where
  "bind_res r f = (case r of Inl e \<Rightarrow> Inl e | Inr x \<Rightarrow> f x)"

lemma bind_res_simps [simp]:
  "bind_res (Inl e) f = Inl e"
  "bind_res (Inr x) f = f x"
  by (simp_all add: bind_res_def)

lemma bind_res_Inr_iff:
  "bind_res r f = Inr y \<longleftrightarrow> (\<exists>x. r = Inr x \<and> f x = Inr y)"
  by (cases r) simp_all

subsection \<open>Optional values\<close>

definition opt_or :: "string option \<Rightarrow> string \<Rightarrow> string" where
  "opt_or x d = (case x of None \<Rightarrow> d | Some s \<Rightarrow> if s = [] then d else s)"

lemma opt_or_simps [simp]:
  "opt_or None d = d"
  "opt_or (Some []) d = d"
  "s \<noteq> [] \<Longrightarrow> opt_or (Some s) d = s"
  by (simp_all add: opt_or_def)

text \<open>SQL's \<open>COALESCE(x, d)\<close>: only \<open>NULL\<close> gives way.\<close>

definition coalesce :: "'a option \<Rightarrow> 'a \<Rightarrow> 'a" where
  "coalesce x d = (case x of None \<Rightarrow> d | Some v \<Rightarrow> v)"

lemma coalesce_simps [simp]:
  "coalesce None d = d"
  "coalesce (Some v) d = v"
  by (simp_all add: coalesce_def)

text \<open>On the empty default the two agree: the reason the Python side of a dedupe key
  (\<open>x or ""\<close>) and its index expression (\<open>COALESCE(x, '')\<close>) compare equal.\<close>

lemma coalesce_empty: "coalesce x [] = opt_or x []"
  by (auto simp: coalesce_def opt_or_def split: option.splits)

subsection \<open>SQL over a table kept as a list of rows\<close>

text \<open>
  A table is a list of rows in insertion order. \<open>UPDATE ... WHERE P\<close> rewrites the
  matching rows in place, its \<open>rowcount\<close> is the number of matching rows, and
  \<open>ORDER BY\<close> is a stable sort, so rows that tie keep the insertion order.
\<close>

definition update_where :: "('a \<Rightarrow> bool) \<Rightarrow> ('a \<Rightarrow> 'a) \<Rightarrow> 'a list \<Rightarrow> 'a list" where
  "update_where P f xs = map (\<lambda>x. if P x then f x else x) xs"

definition count_where :: "('a \<Rightarrow> bool) \<Rightarrow> 'a list \<Rightarrow> nat" where
  "count_where P xs = length (filter P xs)"

lemma update_where_Nil [simp]: "update_where P f [] = []"
  by (simp add: update_where_def)

lemma update_where_Cons [simp]:
  "update_where P f (x # xs) = (if P x then f x else x) # update_where P f xs"
  by (simp add: update_where_def)

lemma update_where_append [simp]:
  "update_where P f (xs @ ys) = update_where P f xs @ update_where P f ys"
  by (simp add: update_where_def)

lemma length_update_where [simp]: "length (update_where P f xs) = length xs"
  by (simp add: update_where_def)

lemma set_update_where:
  "set (update_where P f xs) = f ` {x \<in> set xs. P x} \<union> {x \<in> set xs. \<not> P x}"
  by (auto simp: update_where_def)

lemma in_update_whereE:
  assumes "y \<in> set (update_where P f xs)"
  obtains x where "x \<in> set xs" "P x" "y = f x" | "y \<in> set xs" "\<not> P y"
  using assms by (auto simp: set_update_where)

lemma map_update_where_eq:
  "(\<And>x. P x \<Longrightarrow> g (f x) = g x) \<Longrightarrow> map g (update_where P f xs) = map g xs"
  by (simp add: update_where_def)

lemma update_where_no_match:
  "(\<And>x. x \<in> set xs \<Longrightarrow> \<not> P x) \<Longrightarrow> update_where P f xs = xs"
  by (induction xs) auto

lemma count_where_0_iff: "count_where P xs = 0 \<longleftrightarrow> (\<forall>x \<in> set xs. \<not> P x)"
  by (auto simp: count_where_def filter_empty_conv)

lemma count_where_0_update: "count_where P xs = 0 \<Longrightarrow> update_where P f xs = xs"
  by (auto simp: count_where_0_iff intro: update_where_no_match)

lemma count_where_simps [simp]:
  "count_where P [] = 0"
  "count_where P (x # xs) = (if P x then 1 else 0) + count_where P xs"
  "count_where P (xs @ ys) = count_where P xs + count_where P ys"
  by (simp_all add: count_where_def)

lemma count_where_le: "count_where P xs \<le> length xs"
  by (simp add: count_where_def)

text \<open>A key that no row repeats selects at most one row.\<close>

lemma filter_key_distinct:
  assumes "distinct (map k xs)" "x \<in> set xs"
  shows "filter (\<lambda>y. k y = k x) xs = [x]"
  using assms by (induction xs) (auto simp: filter_empty_conv, metis image_eqI)

lemma count_where_key_le_1:
  assumes "distinct (map k xs)"
  shows "count_where (\<lambda>y. k y = v \<and> Q y) xs \<le> 1"
proof -
  have "count_where (\<lambda>y. k y = v \<and> Q y) xs \<le> length (filter (\<lambda>y. k y = v) xs)"
    unfolding count_where_def by (induction xs) auto
  also have "\<dots> \<le> 1"
    using assms by (induction xs) (auto simp: filter_empty_conv, metis image_eqI)
  finally show ?thesis .
qed

lemma find_key_distinct:
  assumes "distinct (map k xs)" "x \<in> set xs"
  shows "find (\<lambda>y. k y = k x) xs = Some x"
  using assms by (induction xs) auto

lemma find_SomeD: "find P xs = Some x \<Longrightarrow> x \<in> set xs \<and> P x"
  by (auto simp: find_Some_iff)

lemma set_sort_key_filter [simp]: "set (sort_key k (filter P xs)) = {x \<in> set xs. P x}"
  by simp

text \<open>Rewriting one row of a table strictly lowers the number of rows with a property
  the rewrite destroys: the measure of the cascades.\<close>

lemma filter_update_where_le:
  assumes "\<And>x. P x \<Longrightarrow> \<not> Q (f x)"
  shows "length (filter Q (update_where P f xs)) \<le> length (filter Q xs)"
  using assms by (induction xs) auto

lemma filter_update_where_less:
  assumes "x \<in> set xs" "P x" "Q x" "\<And>x. P x \<Longrightarrow> \<not> Q (f x)"
  shows "length (filter Q (update_where P f xs)) < length (filter Q xs)"
  using assms(1-3)
proof (induction xs)
  case (Cons y xs)
  show ?case
  proof (cases "x = y")
    case True
    then show ?thesis
      using Cons.prems assms(4) filter_update_where_le [of P Q f xs] by auto
  next
    case False
    then have "length (filter Q (update_where P f xs)) < length (filter Q xs)"
      using Cons by auto
    then show ?thesis using assms(4) by auto
  qed
qed simp

subsection \<open>Python dictionaries in insertion order\<close>

text \<open>\<^const>\<open>AList.update\<close> overwrites in place or appends, as \<open>d[k] = v\<close> does.\<close>

abbreviation dict_get :: "('k \<times> 'v) list \<Rightarrow> 'k \<Rightarrow> 'v option" where
  "dict_get d k \<equiv> map_of d k"

abbreviation dict_put :: "'k \<Rightarrow> 'v \<Rightarrow> ('k \<times> 'v) list \<Rightarrow> ('k \<times> 'v) list" where
  "dict_put k v d \<equiv> AList.update k v d"

definition dict_get_default :: "('k \<times> 'v) list \<Rightarrow> 'k \<Rightarrow> 'v \<Rightarrow> 'v" where
  "dict_get_default d k v = (case dict_get d k of None \<Rightarrow> v | Some x \<Rightarrow> x)"

definition dict_keys :: "('k \<times> 'v) list \<Rightarrow> 'k list" where
  "dict_keys d = map fst d"

definition dict_ok :: "('k \<times> 'v) list \<Rightarrow> bool" where
  "dict_ok d \<longleftrightarrow> distinct (map fst d)"

definition dict_del :: "'k \<Rightarrow> ('k \<times> 'v) list \<Rightarrow> ('k \<times> 'v) list" where
  "dict_del k d = filter (\<lambda>p. fst p \<noteq> k) d"

lemma dict_get_put: "dict_get (dict_put k v d) k' = (if k' = k then Some v else dict_get d k')"
  by (simp add: update_conv')

lemma dict_get_del: "dict_get (dict_del k d) k' = (if k' = k then None else dict_get d k')"
  by (induction d) (auto simp: dict_del_def)

lemma dict_ok_put: "dict_ok d \<Longrightarrow> dict_ok (dict_put k v d)"
  by (simp add: dict_ok_def distinct_update)

lemma dict_ok_del: "dict_ok d \<Longrightarrow> dict_ok (dict_del k d)"
  by (simp add: dict_ok_def dict_del_def distinct_map_filter)

lemma keys_put_mem: "k \<in> fst ` set d \<Longrightarrow> map fst (dict_put k v d) = map fst d"
  by (induction d) auto

lemma dict_ok_Nil [simp]: "dict_ok []"
  by (simp add: dict_ok_def)

text \<open>\<open>d.setdefault(k, []).append(v)\<close>: the grouping loops of the program.\<close>

definition dict_append :: "'k \<Rightarrow> 'v \<Rightarrow> ('k \<times> 'v list) list \<Rightarrow> ('k \<times> 'v list) list" where
  "dict_append k v d = dict_put k (dict_get_default d k [] @ [v]) d"

lemma dict_get_append:
  "dict_get_default (dict_append k v d) k' [] =
     dict_get_default d k' [] @ (if k' = k then [v] else [])"
  by (simp add: dict_append_def dict_get_default_def dict_get_put)

definition group_by :: "('a \<Rightarrow> 'k) \<Rightarrow> 'a list \<Rightarrow> ('k \<times> 'a list) list" where
  "group_by k xs = fold (\<lambda>x d. dict_append (k x) x d) xs []"

lemma group_by_aux:
  "dict_get_default (fold (\<lambda>x d. dict_append (k x) x d) xs d) v [] =
     dict_get_default d v [] @ filter (\<lambda>x. k x = v) xs"
  by (induction xs arbitrary: d) (auto simp: dict_get_append)

lemma group_by_lookup: "dict_get_default (group_by k xs) v [] = filter (\<lambda>x. k x = v) xs"
  by (simp add: group_by_def group_by_aux dict_get_default_def [of "[]"])

lemma group_by_ok_aux:
  "dict_ok d \<Longrightarrow> dict_ok (fold (\<lambda>x d. dict_append (k x) x d) xs d)"
  by (induction xs arbitrary: d) (auto simp: dict_append_def intro: dict_ok_put)

lemma group_by_ok: "dict_ok (group_by k xs)"
  by (simp add: group_by_def group_by_ok_aux)

lemma group_by_keys_aux:
  "fst ` set (fold (\<lambda>x d. dict_append (k x) x d) xs d) = fst ` set d \<union> k ` set xs"
  by (induction xs arbitrary: d) (auto simp: dict_append_def dom_update)

lemma group_by_keys: "fst ` set (group_by k xs) = k ` set xs"
  by (simp add: group_by_def group_by_keys_aux)

lemma dict_ok_get_default: "dict_ok d \<Longrightarrow> (k, v) \<in> set d \<Longrightarrow> dict_get_default d k w = v"
  by (simp add: dict_ok_def dict_get_default_def)

lemma group_by_member: "(v, ys) \<in> set (group_by k xs) \<Longrightarrow> ys = filter (\<lambda>x. k x = v) xs"
  using dict_ok_get_default [OF group_by_ok] group_by_lookup by metis

subsection \<open>Decimal notation\<close>

definition is_digit :: "char \<Rightarrow> bool" where
  "is_digit c \<longleftrightarrow> CHR ''0'' \<le> c \<and> c \<le> CHR ''9''"

definition digit_char :: "nat \<Rightarrow> char" where
  "digit_char d = char_of (48 + d)"

definition digit_val :: "char \<Rightarrow> nat" where
  "digit_val c = of_char c - 48"

fun show_nat :: "nat \<Rightarrow> string" where
  "show_nat n = (if n < 10 then [digit_char n] else show_nat (n div 10) @ [digit_char (n mod 10)])"

declare show_nat.simps [simp del]

definition read_nat :: "string \<Rightarrow> nat" where
  "read_nat s = fold (\<lambda>c n. 10 * n + digit_val c) s 0"

definition show_int :: "int \<Rightarrow> string" where
  "show_int i = (if i < 0 then CHR ''-'' # show_nat (nat (- i)) else show_nat (nat i))"

lemma digit_val_char [simp]: "d < 10 \<Longrightarrow> digit_val (digit_char d) = d"
  by (simp add: digit_val_def digit_char_def)

lemma digit_char_0 [simp]: "digit_char 0 = CHR ''0''"
  by code_simp

lemma is_digit_char [simp]: "d < 10 \<Longrightarrow> is_digit (digit_char d)"
  by (simp add: is_digit_def digit_char_def less_eq_char_def)

lemma read_nat_snoc [simp]: "read_nat (s @ [c]) = 10 * read_nat s + digit_val c"
  by (simp add: read_nat_def)

lemma read_show_nat [simp]: "read_nat (show_nat n) = n"
proof (induction n rule: show_nat.induct)
  case (1 n)
  show ?case
  proof (cases "n < 10")
    case True
    then show ?thesis by (simp add: show_nat.simps [of n] read_nat_def)
  next
    case False
    with 1 show ?thesis by (simp add: show_nat.simps [of n])
  qed
qed

lemma show_nat_digits: "\<forall>c \<in> set (show_nat n). is_digit c"
proof (induction n rule: show_nat.induct)
  case (1 n)
  then show ?case by (cases "n < 10") (auto simp: show_nat.simps [of n])
qed

lemma show_nat_nonempty [simp]: "show_nat n \<noteq> []"
  by (simp add: show_nat.simps [of n])

lemma show_nat_leading: "n \<noteq> 0 \<Longrightarrow> hd (show_nat n) \<noteq> CHR ''0''"
proof (induction n rule: show_nat.induct)
  case (1 n)
  show ?case
  proof (cases "n < 10")
    case True
    then have "digit_val (digit_char n) = n" by simp
    moreover have "digit_val CHR ''0'' = 0" by (simp add: digit_val_def)
    ultimately have "digit_char n \<noteq> CHR ''0''" using 1 by metis
    then show ?thesis using True by (simp add: show_nat.simps [of n])
  next
    case False
    then show ?thesis using 1 by (simp add: show_nat.simps [of n])
  qed
qed

subsection \<open>Text\<close>

text \<open>\<open>sep.join(xs)\<close>.\<close>

fun join :: "string \<Rightarrow> string list \<Rightarrow> string" where
  "join sep [] = []"
| "join sep [x] = x"
| "join sep (x # y # xs) = x @ sep @ join sep (y # xs)"

definition strip_prefix :: "string \<Rightarrow> string \<Rightarrow> string option" where
  "strip_prefix p s = (if take (length p) s = p then Some (drop (length p) s) else None)"

lemma strip_prefix_append [simp]: "strip_prefix p (p @ s) = Some s"
  by (simp add: strip_prefix_def)

lemma strip_prefix_Some: "strip_prefix p s = Some r \<Longrightarrow> s = p @ r"
  by (auto simp: strip_prefix_def split: if_splits) (metis append_take_drop_id)

lemma strip_prefix_mismatch: "c \<noteq> d \<Longrightarrow> strip_prefix (c # p) (d # s) = None"
  by (simp add: strip_prefix_def)

lemma join_Cons: "xs \<noteq> [] \<Longrightarrow> join sep (x # xs) = x @ sep @ join sep xs"
  by (cases xs) simp_all

end
