(* ===== verification/PyText.thy ===== *)
theory PyText
  imports Prelude
begin

text \<open>
  The operations on Python's \<open>str\<close> that several components use: \<open>strip\<close>, \<open>lower\<close>,
  \<open>split\<close> at a separator, and \<open>int\<close> applied to text. Characters are code points up to 255.
\<close>

definition is_space :: "char \<Rightarrow> bool" where
  "is_space c \<longleftrightarrow> (of_char c :: nat) \<in> {9, 10, 11, 12, 13, 28, 29, 30, 31, 32, 133, 160}"

definition strip :: "string \<Rightarrow> string" where
  "strip s = rev (dropWhile is_space (rev (dropWhile is_space s)))"

text \<open>Digits with single underscores between them, at most 4300 digits.\<close>

fun int_digits :: "string \<Rightarrow> bool" where
  "int_digits [] = False"
| "int_digits [c] = is_digit c"
| "int_digits (c # d # s) = (is_digit c \<and> (if d = CHR ''_'' then int_digits s else int_digits (d # s)))"

definition py_int :: "string \<Rightarrow> int option" where
  "py_int raw =
     (let s = strip raw;
          body = (case s of [] \<Rightarrow> [] | c # r \<Rightarrow> if c = CHR ''-'' \<or> c = CHR ''+'' then r else s);
          digits = filter (\<lambda>c. c \<noteq> CHR ''_'') body; v = int (read_nat digits)
      in if \<not> int_digits body \<or> 4300 < length digits then None
         else if s \<noteq> [] \<and> hd s = CHR ''-'' then Some (- v) else Some v)"

text \<open>\<open>s.split(sep)\<close> at every character that satisfies \<open>sep\<close>.\<close>

fun split_at :: "(char \<Rightarrow> bool) \<Rightarrow> string \<Rightarrow> string list" where
  "split_at sep [] = [[]]"
| "split_at sep (c # s) =
     (if sep c then [] # split_at sep s
      else (case split_at sep s of [] \<Rightarrow> [[c]] | w # ws \<Rightarrow> (c # w) # ws))"

text \<open>Lower case: \<open>A-Z\<close> and the Latin-1 capitals.\<close>

definition lower_char :: "char \<Rightarrow> char" where
  "lower_char c = (let n = (of_char c :: nat) in
     if 65 \<le> n \<and> n \<le> 90 \<or> 192 \<le> n \<and> n \<le> 222 \<and> n \<noteq> 215 then char_of (n + 32) else c)"

definition lower :: "string \<Rightarrow> string" where
  "lower s = map lower_char s"

text \<open>\<open>casefold\<close>: the sharp s becomes two letters; the micro sign, whose folding is no code point up to 255,
  is kept.\<close>

definition casefold :: "string \<Rightarrow> string" where
  "casefold s = concat (map (\<lambda>c. if c = CHR 0xDF then ''ss'' else [lower_char c]) s)"

definition upper_char :: "char \<Rightarrow> char" where
  "upper_char c = (let n = (of_char c :: nat) in if 97 \<le> n \<and> n \<le> 122 then char_of (n - 32) else c)"

fun is_infix :: "string \<Rightarrow> string \<Rightarrow> bool" where
  "is_infix p [] = (p = [])"
| "is_infix p (c # s) = (take (length p) (c # s) = p \<or> is_infix p s)"

lemma is_infix_iff: "is_infix p s \<longleftrightarrow> (\<exists>a b. s = a @ p @ b)"
proof (induction s)
  case (Cons c s)
  have "take (length p) (c # s) = p \<longleftrightarrow> (\<exists>b. c # s = p @ b)"
    by (metis append_eq_conv_conj)
  moreover have "(\<exists>a b. c # s = a @ p @ b) \<longleftrightarrow> (\<exists>b. c # s = p @ b) \<or> (\<exists>a b. s = a @ p @ b)"
    by (metis append_Cons append_Nil neq_Nil_conv list.inject)
  ultimately show ?case using Cons.IH by simp
qed simp

lemma strip_right_keeps_left:
  assumes "dropWhile P t = t"
  shows "dropWhile P (rev (dropWhile P (rev t))) = rev (dropWhile P (rev t))"
proof (cases "rev (dropWhile P (rev t))")
  case Nil
  show ?thesis unfolding Nil by simp
next
  case (Cons c r)
  have "\<exists>u. t = rev (dropWhile P (rev t)) @ u"
    by (metis rev_append rev_rev_ident takeWhile_dropWhile_id)
  then have "t \<noteq> []" "hd t = c" using Cons by auto
  then have "\<not> P c" using assms by (cases t) (auto simp: dropWhile_eq_Cons_conv split: if_splits)
  then show ?thesis using Cons by simp
qed

lemma strip_idem: "strip (strip s) = strip s"
  using strip_right_keeps_left [of is_space "dropWhile is_space s"] by (simp add: strip_def)

subsection \<open>Splitting, joining and folding\<close>

lemma casefold_append [simp]: "casefold (s @ t) = casefold s @ casefold t"
  by (simp add: casefold_def)

lemma casefold_Nil [simp]: "casefold [] = []"
  by (simp add: casefold_def)

lemma casefold_join: "casefold (join sep xs) = join (casefold sep) (map casefold xs)"
  by (induction sep xs rule: join.induct) simp_all

lemma join_append: "xs \<noteq> [] \<Longrightarrow> ys \<noteq> [] \<Longrightarrow> join sep (xs @ ys) = join sep xs @ sep @ join sep ys"
proof (induction xs)
  case (Cons x xs)
  then show ?case by (cases "xs = []") (simp_all add: join_Cons)
qed simp

lemma split_at_plain: "\<forall>c \<in> set w. \<not> sep c \<Longrightarrow> split_at sep w = [w]"
  by (induction w) simp_all

lemma split_at_word: "\<forall>c \<in> set w. \<not> sep c \<Longrightarrow> sep c \<Longrightarrow> split_at sep (w @ c # s) = w # split_at sep s"
  by (induction w) simp_all

lemma split_at_nonempty [simp]: "split_at sep s \<noteq> []"
  by (induction s) (auto split: list.split)

lemma split_at_or: "split_at (\<lambda>c. P c \<or> Q c) s = concat (map (split_at Q) (split_at P s))"
proof (induction s)
  case (Cons c s)
  obtain w ws where w: "split_at P s = w # ws" using split_at_nonempty by (metis list.exhaust)
  obtain v vs where v: "split_at Q w = v # vs" using split_at_nonempty by (metis list.exhaust)
  show ?case using Cons.IH by (simp add: w v)
qed simp

lemma split_at_chars: "w \<in> set (split_at sep s) \<Longrightarrow> set w \<subseteq> set s"
proof (induction s arbitrary: w)
  case (Cons c s)
  obtain v vs where v: "split_at sep s = v # vs" using split_at_nonempty by (metis list.exhaust)
  have "w = [] \<or> w = c # v \<or> w \<in> set (split_at sep s)"
    using Cons.prems v by (auto split: if_splits)
  moreover have "set v \<subseteq> set s" using Cons.IH [of v] v by simp
  ultimately show ?case using Cons.IH [of w] by auto
qed simp

lemma split_at_cong: "\<forall>c \<in> set s. P c = Q c \<Longrightarrow> split_at P s = split_at Q s"
  by (induction s) simp_all

lemma split_at_no_sep: "w \<in> set (split_at sep s) \<Longrightarrow> c \<in> set w \<Longrightarrow> \<not> sep c"
proof (induction s arbitrary: w)
  case (Cons d s)
  obtain v vs where v: "split_at sep s = v # vs" using split_at_nonempty by (metis list.exhaust)
  have "w = [] \<or> \<not> sep d \<and> w = d # v \<or> w \<in> set (split_at sep s)"
    using Cons.prems(1) v by (auto split: if_splits)
  moreover have "\<not> sep c" if "c \<in> set v" using Cons.IH [of v] v that by simp
  ultimately show ?case using Cons.IH [of w] Cons.prems(2) by auto
qed simp

lemma join_split: "join [c] (split_at (\<lambda>d. d = c) s) = s"
proof (induction s)
  case (Cons d s)
  obtain v vs where v: "split_at (\<lambda>d. d = c) s = v # vs" using split_at_nonempty by (metis list.exhaust)
  then show ?case using Cons.IH by (cases vs) (auto simp: join_Cons)
qed simp

lemma strip_keeps_head: "\<not> is_space c \<Longrightarrow> \<exists>r. strip (c # s) = c # r"
  by (simp add: strip_def dropWhile_append3)

end
