(* ===== verification/AccessPolicy.thy ===== *)
theory AccessPolicy
  imports PyText "HOL-Library.Sublist"
begin

text \<open>
  What an agent may touch: \<open>server/agent_runtime/agent_access_policy.py\<close>, the variable names of
  \<open>lib/config/env_keys.py\<close>, and the callbacks that apply the rules
  (\<open>_file_access_hook\<close> and \<open>_bash_env_scrub_hook\<close> in \<open>server/agent_runtime/options_assembler.py\<close>,
  \<open>_can_use_tool\<close> in \<open>server/agent_runtime/session_manager.py\<close>).

  Paths are POSIX paths as \<open>Path.parts\<close> gives them: the root, \<open>/\<close> or \<open>//\<close>, and the components. The
  file system is an argument: resolving symbolic links (\<open>None\<close> when \<open>Path.resolve\<close> raises an \<open>OSError\<close>; the \<open>RuntimeError\<close> that
  Python 3.12 raises on a loop of links is not modelled), the
  directories, the files, the entries of a directory and the directory for temporary files. Unicode
  normalization does nothing in the character range of the model. Refusals carry a reason of the type
  \<open>deny\<close> in place of the translated text.
\<close>

subsection \<open>Paths\<close>

type_synonym path = "string list"

fun path_str :: "path \<Rightarrow> string" where
  "path_str [] = []"
| "path_str (root # ps) = root @ join ''/'' ps"

abbreviation slash :: char where "slash \<equiv> CHR ''/''"
abbreviation bslash :: char where "bslash \<equiv> CHR 0x5C"

definition starts_with :: "string \<Rightarrow> string \<Rightarrow> bool" where
  "starts_with p s \<longleftrightarrow> take (length p) s = p"

text \<open>\<open>Path(s)\<close>: its root, empty for a relative path, and its components.\<close>

definition parse_path :: "string \<Rightarrow> string \<times> string list" where
  "parse_path s =
     (if starts_with ''///'' s then ''/'' else if starts_with ''//'' s then ''//'' else if starts_with ''/'' s then ''/'' else [],
      filter (\<lambda>c. c \<noteq> [] \<and> c \<noteq> ''.'') (split_at (\<lambda>c. c = slash) s))"

definition logical_path :: "path \<Rightarrow> string \<Rightarrow> path" where
  "logical_path cwd file_path = (case parse_path file_path of (root, ps) \<Rightarrow> if root = [] then cwd @ ps else root # ps)"

text \<open>\<open>os.path.normpath\<close> on an absolute path.\<close>

definition norm_parts :: "string list \<Rightarrow> string list" where
  "norm_parts ps = rev (fold (\<lambda>c acc. if c = ''..'' then tl acc else c # acc) ps [])"

fun normpath :: "path \<Rightarrow> path" where
  "normpath [] = []"
| "normpath (root # ps) = root # norm_parts ps"

definition path_parent :: "path \<Rightarrow> path" where
  "path_parent p = (if length p \<le> 1 then p else butlast p)"

definition path_name :: "path \<Rightarrow> string" where
  "path_name p = (if length p \<le> 1 then [] else last p)"

definition path_suffix :: "path \<Rightarrow> string" where
  "path_suffix p = (let nm = path_name p; ext = rev (takeWhile (\<lambda>c. c \<noteq> CHR ''.'') (rev nm)) in
     if CHR ''.'' \<in> set nm \<and> length ext < length nm - 1 \<and> ext \<noteq> [] then CHR ''.'' # ext else [])"

record fs =
  fs_resolve :: "path \<Rightarrow> path option"
  fs_is_dir :: "path \<Rightarrow> bool"
  fs_exists :: "path \<Rightarrow> bool"
  fs_children :: "path \<Rightarrow> string list"
  fs_tempdir :: path
  fs_tempdir_resolved :: path

subsection \<open>The policy\<close>

record access_policy =
  project_root :: path
  projects_root :: path
  agent_profile_root :: path
  log_dir :: path
  sandbox_enabled :: bool
  in_docker :: bool
  claude_projects_dir :: path

definition BASH_TOOLS :: "string list" where "BASH_TOOLS = [''Bash'', ''BashOutput'', ''KillBash'']"

definition DEFAULT_SANDBOX_ALLOWED_DOMAINS :: "string list" where
  "DEFAULT_SANDBOX_ALLOWED_DOMAINS = [''anthropic.com'', ''*.anthropic.com'', ''code.claude.com'', ''github.com'', ''*.github.com'',
     ''*.githubusercontent.com'', ''pypi.org'', ''*.pypi.org'', ''*.npmjs.org'', ''registry.yarnpkg.com'', ''example.com'']"

definition PYTHON_SKILLS_PREFIX :: string where "PYTHON_SKILLS_PREFIX = ''python .claude/skills/''"

definition WINDOWS_BASH_PREFIX_WHITELIST :: "string list" where
  "WINDOWS_BASH_PREFIX_WHITELIST = [PYTHON_SKILLS_PREFIX, ''ffmpeg'', ''ffprobe'']"

definition SECRET_ENV_NAME_PATTERNS :: "string list" where
  "SECRET_ENV_NAME_PATTERNS = [''API_KEY'', ''AUTH_TOKEN'', ''ACCESS_KEY'', ''ACCESS_TOKEN'', ''SECRET_KEY'', ''CREDENTIAL'', ''CLIENT_SECRET'']"

definition PATH_TOOLS :: "(string \<times> string) list" where
  "PATH_TOOLS = [(''Read'', ''file_path''), (''Write'', ''file_path''), (''Edit'', ''file_path''), (''Glob'', ''path''), (''Grep'', ''path'')]"

definition WRITE_TOOLS :: "string list" where "WRITE_TOOLS = [''Write'', ''Edit'']"

definition CODE_EXTENSIONS_FORBIDDEN :: "string list" where
  "CODE_EXTENSIONS_FORBIDDEN = [''.py'', ''.js'', ''.ts'', ''.tsx'', ''.sh'', ''.yaml'', ''.yml'', ''.toml'']"

definition sensitive_files :: "access_policy \<Rightarrow> path list" where
  "sensitive_files po = [project_root po @ [''.env''], projects_root po @ [''.arcreel.db''], projects_root po @ [''.system_config.json''],
     projects_root po @ [''.system_config.json.bak''], agent_profile_root po @ [''.claude'', ''settings.json'']]"

definition sensitive_prefixes :: "access_policy \<Rightarrow> path list" where
  "sensitive_prefixes po = [path_parent (projects_root po) @ [''vertex_keys''], log_dir po]"

text \<open>The two patterns end in a star: the text before it.\<close>

definition sensitive_globs :: "access_policy \<Rightarrow> (path \<times> string) list" where
  "sensitive_globs po = [(project_root po, ''.env.''), (projects_root po, ''.arcreel.db-'')]"

definition glob_hit :: "path \<times> string \<Rightarrow> path \<Rightarrow> bool" where
  "glob_hit g p \<longleftrightarrow> p \<noteq> [] \<and> butlast p = fst g \<and> starts_with (snd g) (last p)"

definition is_sensitive_path :: "access_policy \<Rightarrow> path \<Rightarrow> bool" where
  "is_sensitive_path po p \<longleftrightarrow> p \<in> set (sensitive_files po) \<or> (\<exists>q \<in> set (sensitive_prefixes po). prefix q p)
     \<or> (\<exists>g \<in> set (sensitive_globs po). glob_hit g p)"

subsection \<open>Protected files\<close>

definition enumerate_cwd_bases :: "fs \<Rightarrow> path \<Rightarrow> path list" where
  "enumerate_cwd_bases f cwd = cwd # (case fs_resolve f cwd of Some r \<Rightarrow> if r \<noteq> cwd then [r] else [] | None \<Rightarrow> [])"

definition strip_extended :: "string \<Rightarrow> string" where
  "strip_extended s =
     (if starts_with [bslash, bslash, CHR ''?'', bslash] s
      then let rest = drop 4 s in if casefold (take 4 rest) = ''unc'' @ [bslash] then [bslash, bslash] @ drop 4 rest else rest
      else s)"

definition protected_key :: "path \<Rightarrow> string" where
  "protected_key p = casefold (strip_extended (path_str p))"

definition REFERENCE_VIDEO_STEP1_FILENAME :: string where "REFERENCE_VIDEO_STEP1_FILENAME = ''step1_reference_units.json''"

definition is_protected_project_json :: "path \<Rightarrow> path list \<Rightarrow> bool" where
  "is_protected_project_json target bases \<longleftrightarrow>
     (let t = protected_key target in
      \<exists>base \<in> set bases. t = protected_key (base @ [''project.json'']) \<or> t = protected_key (base @ [''scripts''])
        \<or> starts_with (protected_key (base @ [''scripts'']) @ ''/'') t)"

definition is_protected_reference_step1 :: "path \<Rightarrow> path list \<Rightarrow> bool" where
  "is_protected_reference_step1 target bases \<longleftrightarrow>
     (let t = protected_key target; filename = casefold REFERENCE_VIDEO_STEP1_FILENAME in
      \<exists>base \<in> set bases. let drafts = protected_key (base @ [''drafts'']) in
        starts_with (drafts @ ''/'') t
        \<and> (case split_at (\<lambda>c. c = slash) (drop (length drafts + 1) t) of [e, n] \<Rightarrow> starts_with ''episode_'' e \<and> n = filename | _ \<Rightarrow> False))"

record protected_rule =
  ru_name :: string
  ru_matches :: "path \<Rightarrow> path list \<Rightarrow> bool"
  ru_sandbox_subpaths :: "string list"

definition PROTECTED_WRITE_RULES :: "protected_rule list" where
  "PROTECTED_WRITE_RULES =
     [\<lparr>ru_name = ''project_json'', ru_matches = is_protected_project_json, ru_sandbox_subpaths = [''scripts'', ''project.json'']\<rparr>,
      \<lparr>ru_name = ''reference_step1'', ru_matches = is_protected_reference_step1, ru_sandbox_subpaths = [''drafts'']\<rparr>]"

subsection \<open>Decisions\<close>

datatype deny = Invalid_path | Sensitive path | Outside_cwd path | Protected string | Code_file string | Cross_project path path | Outside_root path

definition encode_sdk_project_path :: "path \<Rightarrow> string" where
  "encode_sdk_project_path cwd = map (\<lambda>c. if c = slash \<or> c = CHR ''.'' then CHR ''-'' else c) (path_str cwd)"

definition sdk_tmp_prefixes :: "fs \<Rightarrow> string list" where
  "sdk_tmp_prefixes f = [path_str (fs_tempdir f @ [''claude-'']), path_str (fs_tempdir_resolved f @ [''claude-'']), ''/tmp/claude-'', ''/private/tmp/claude-'']"

definition sdk_tool_result :: "access_policy \<Rightarrow> fs \<Rightarrow> path \<Rightarrow> path \<Rightarrow> bool" where
  "sdk_tool_result po f cwd p \<longleftrightarrow>
     (case fs_resolve f (claude_projects_dir po) of None \<Rightarrow> False
      | Some d \<Rightarrow> prefix (d @ [encode_sdk_project_path cwd]) p \<and> ''tool-results'' \<in> set p)"

definition sdk_task_output :: "fs \<Rightarrow> path \<Rightarrow> bool" where
  "sdk_task_output f p \<longleftrightarrow> (\<exists>t \<in> set (sdk_tmp_prefixes f). starts_with t (path_str p)) \<and> ''tasks'' \<in> set p"

definition check_read_access :: "access_policy \<Rightarrow> fs \<Rightarrow> path \<Rightarrow> path \<Rightarrow> deny option" where
  "check_read_access po f resolved cwd =
     (if prefix cwd resolved then None
      else if sdk_tool_result po f cwd resolved then None
      else if sdk_task_output f resolved then None
      else if prefix (projects_root po) resolved then
        (case drop (length (projects_root po)) resolved of [] \<Rightarrow> None
         | e # _ \<Rightarrow> if fs_is_dir f (projects_root po @ [e]) \<and> e \<noteq> path_name cwd then Some (Cross_project resolved cwd) else None)
      else if prefix (project_root po) resolved then None
      else Some (Outside_root resolved))"

definition check_write_access :: "fs \<Rightarrow> path \<Rightarrow> path \<Rightarrow> path \<Rightarrow> deny option" where
  "check_write_access f resolved cwd logical_norm =
     (let bases = enumerate_cwd_bases f cwd in
      if \<not> (\<exists>base \<in> set bases. prefix base resolved) then Some (Outside_cwd resolved)
      else case find (\<lambda>ru. ru_matches ru resolved bases \<or> ru_matches ru logical_norm bases) PROTECTED_WRITE_RULES of
          Some ru \<Rightarrow> Some (Protected (ru_name ru))
        | None \<Rightarrow> (let ext = lower (path_suffix resolved) in if ext \<in> set CODE_EXTENSIONS_FORBIDDEN then Some (Code_file ext) else None))"

definition check_path_access :: "access_policy \<Rightarrow> fs \<Rightarrow> string \<Rightarrow> string \<Rightarrow> path \<Rightarrow> deny option" where
  "check_path_access po f file_path tool cwd =
     (let logical = logical_path cwd file_path in
      case fs_resolve f logical of None \<Rightarrow> Some Invalid_path
      | Some resolved \<Rightarrow>
          if is_sensitive_path po resolved then Some (Sensitive resolved)
          else if tool \<in> set WRITE_TOOLS then check_write_access f resolved cwd (normpath logical)
          else check_read_access po f resolved cwd)"

text \<open>\<open>_file_access_hook\<close>: the arguments of the tool are a dictionary of texts.\<close>

definition file_access_hook :: "access_policy \<Rightarrow> fs \<Rightarrow> path \<Rightarrow> string \<Rightarrow> (string \<times> string) list \<Rightarrow> deny option" where
  "file_access_hook po f cwd tool args =
     (case dict_get PATH_TOOLS tool of None \<Rightarrow> None
      | Some key \<Rightarrow> (case dict_get args key of None \<Rightarrow> None
          | Some file_path \<Rightarrow> if file_path = [] then None else check_path_access po f file_path tool cwd))"

subsection \<open>The kernel sandbox\<close>

definition build_protected_write_abs_paths :: "fs \<Rightarrow> path \<Rightarrow> string list" where
  "build_protected_write_abs_paths f cwd =
     fold (\<lambda>p acc. if p \<in> set acc then acc else acc @ [p])
       [path_str (base @ [sub]). base \<leftarrow> enumerate_cwd_bases f cwd, ru \<leftarrow> PROTECTED_WRITE_RULES, sub \<leftarrow> ru_sandbox_subpaths ru] []"

definition build_sensitive_abs_paths :: "access_policy \<Rightarrow> fs \<Rightarrow> string list" where
  "build_sensitive_abs_paths po f =
     map path_str (filter (fs_exists f)
       (sensitive_files po @ sensitive_prefixes po @
        concat (map (\<lambda>(p, pat). if fs_exists f p then map (\<lambda>c. p @ [c]) (filter (starts_with pat) (fs_children f p)) else []) (sensitive_globs po))))"

record sandbox_settings =
  ss_auto_allow_bash :: bool
  ss_allow_unsandboxed :: bool
  ss_allowed_domains :: "string list"
  ss_weaker_nested :: bool
  ss_deny_read :: "string list"
  ss_deny_write :: "string list"

definition build_sandbox_settings :: "access_policy \<Rightarrow> fs \<Rightarrow> path \<Rightarrow> sandbox_settings option" where
  "build_sandbox_settings po f cwd =
     (if \<not> sandbox_enabled po then None
      else Some \<lparr>ss_auto_allow_bash = True, ss_allow_unsandboxed = False, ss_allowed_domains = DEFAULT_SANDBOX_ALLOWED_DOMAINS,
        ss_weaker_nested = in_docker po, ss_deny_read = build_sensitive_abs_paths po f, ss_deny_write = build_protected_write_abs_paths f cwd\<rparr>)"

subsection \<open>Commands\<close>

definition ANTHROPIC_ENV_KEYS :: "string list" where
  "ANTHROPIC_ENV_KEYS = [''ANTHROPIC_API_KEY'', ''ANTHROPIC_BASE_URL'', ''ANTHROPIC_MODEL'', ''ANTHROPIC_DEFAULT_HAIKU_MODEL'',
     ''ANTHROPIC_DEFAULT_SONNET_MODEL'', ''ANTHROPIC_DEFAULT_OPUS_MODEL'', ''CLAUDE_CODE_SUBAGENT_MODEL'']"

definition OTHER_PROVIDER_ENV_KEYS :: "string list" where
  "OTHER_PROVIDER_ENV_KEYS = [''ARK_API_KEY'', ''XAI_API_KEY'', ''GEMINI_API_KEY'', ''VIDU_API_KEY'', ''DASHSCOPE_API_KEY'', ''MINIMAX_API_KEY'',
     ''AGNES_API_KEY'', ''OPENAI_API_KEY'', ''GOOGLE_APPLICATION_CREDENTIALS'', ''OPENAI_BASE_URL'', ''OPENAI_ORG_ID'', ''OPENAI_PROJECT_ID'',
     ''OPENAI_CUSTOM_HEADERS'', ''GEMINI_BASE_URL'', ''GEMINI_IMAGE_MODEL'', ''GEMINI_VIDEO_MODEL'', ''GEMINI_IMAGE_BACKEND'', ''GEMINI_VIDEO_BACKEND'',
     ''VERTEX_GCS_BUCKET'', ''FILE_SERVICE_BASE_URL'', ''DEFAULT_VIDEO_PROVIDER'']"

definition is_provider_env_key :: "string \<Rightarrow> bool" where
  "is_provider_env_key nm \<longleftrightarrow> nm \<in> set ANTHROPIC_ENV_KEYS \<or> nm \<in> set OTHER_PROVIDER_ENV_KEYS"

definition secret_name :: "string \<Rightarrow> bool" where
  "secret_name nm \<longleftrightarrow> (\<exists>pat \<in> set SECRET_ENV_NAME_PATTERNS. is_infix pat (concat (map (\<lambda>c. if c = CHR 0xDF then ''SS'' else [upper_char c]) nm)))"

definition collect_env_keys_to_scrub :: "string list \<Rightarrow> string list" where
  "collect_env_keys_to_scrub environ = remdups (sort (ANTHROPIC_ENV_KEYS @ OTHER_PROVIDER_ENV_KEYS @ filter secret_name environ))"

definition env_scrub_wrap_prefix :: "string list \<Rightarrow> string" where
  "env_scrub_wrap_prefix environ = ''env '' @ join '' '' (map (\<lambda>k. ''-u '' @ k) (collect_env_keys_to_scrub environ)) @ '' sh -c ''"

text \<open>\<open>shlex.quote\<close>\<close>

definition safe_char :: "char \<Rightarrow> bool" where
  "safe_char c = (is_digit c \<or> c \<in> set ''_@%+=:,./-''
     \<or> (let n = (of_char c :: nat) in (65 \<le> n \<and> n < 91) \<or> (97 \<le> n \<and> n < 123)))"

definition shlex_quote :: "string \<Rightarrow> string" where
  "shlex_quote s =
     (if s = [] then [CHR 0x27, CHR 0x27]
      else if list_all safe_char s then s
      else [CHR 0x27] @ concat (map (\<lambda>c. if c = CHR 0x27 then [CHR 0x27, CHR 0x22, CHR 0x27, CHR 0x22, CHR 0x27] else [c]) s) @ [CHR 0x27])"

definition wrap_bash_command_for_env_scrub :: "access_policy \<Rightarrow> string list \<Rightarrow> string option \<Rightarrow> string option" where
  "wrap_bash_command_for_env_scrub po environ command =
     (case command of None \<Rightarrow> None
      | Some c \<Rightarrow> if strip c = [] then None else if \<not> sandbox_enabled po then None
          else Some (env_scrub_wrap_prefix environ @ shlex_quote c))"

definition metachar :: "char \<Rightarrow> bool" where
  "metachar c \<longleftrightarrow> c \<in> {CHR '';'', CHR ''&'', CHR ''|'', CHR ''<'', CHR ''>'', CHR 0x60, CHR ''$'', CHR 0x0D, CHR 0x0A}"

text \<open>The pattern finds two dots between separators: a segment that is \<open>..\<close>.\<close>

definition path_traversal :: "string \<Rightarrow> bool" where
  "path_traversal s \<longleftrightarrow> ''..'' \<in> set (split_at (\<lambda>c. is_space c \<or> c = slash \<or> c = bslash) s)"

definition unquote :: "string \<Rightarrow> string" where
  "unquote s = filter (\<lambda>c. c \<noteq> CHR 0x22 \<and> c \<noteq> CHR 0x27) s"

definition forward_slashes :: "string \<Rightarrow> string" where
  "forward_slashes s = map (\<lambda>c. if c = bslash then slash else c) s"

text \<open>The second word of a command line, and the script pattern.\<close>

definition second_word :: "string \<Rightarrow> string option" where
  "second_word s = (case filter (\<lambda>w. w \<noteq> []) (split_at is_space s) of a # b # _ \<Rightarrow> Some b | _ \<Rightarrow> None)"

definition skill_script :: "string \<Rightarrow> bool" where
  "skill_script w \<longleftrightarrow>
     (case split_at (\<lambda>c. c = slash) w of
        [a, b, skill, d, file] \<Rightarrow> a = ''.claude'' \<and> b = ''skills'' \<and> skill \<noteq> [] \<and> d = ''scripts'' \<and> 3 < length file \<and> drop (length file - 3) file = ''.py''
      | _ \<Rightarrow> False)"

definition is_allowed_python_skill_command :: "string \<Rightarrow> bool" where
  "is_allowed_python_skill_command normalized = (case second_word normalized of None \<Rightarrow> False | Some w \<Rightarrow> skill_script w)"

definition prefix_allows :: "string \<Rightarrow> string \<Rightarrow> bool" where
  "prefix_allows normalized p \<longleftrightarrow>
     (if p = PYTHON_SKILLS_PREFIX then starts_with p normalized \<and> is_allowed_python_skill_command normalized
      else if CHR '' '' \<in> set p then starts_with p normalized
      else normalized = p \<or> starts_with (p @ '' '') normalized)"

definition is_bash_command_whitelisted :: "string \<Rightarrow> bool" where
  "is_bash_command_whitelisted command =
     (let cmd = strip command; unquoted = unquote cmd in
      cmd \<noteq> [] \<and> \<not> (\<exists>c \<in> set cmd. metachar c)
      \<and> \<not> path_traversal cmd \<and> \<not> path_traversal (forward_slashes unquoted) \<and> \<not> path_traversal (filter (\<lambda>c. c \<noteq> bslash) unquoted)
      \<and> (\<exists>p \<in> set WINDOWS_BASH_PREFIX_WHITELIST. prefix_allows (forward_slashes unquoted) p))"

definition filter_allowed_tools :: "access_policy \<Rightarrow> string list \<Rightarrow> string list" where
  "filter_allowed_tools po tools = (if sandbox_enabled po then tools else filter (\<lambda>t. t \<notin> set BASH_TOOLS) tools)"

datatype permission = Ask_user | Allow | Deny

definition can_use_tool :: "access_policy \<Rightarrow> string \<Rightarrow> string option \<Rightarrow> permission" where
  "can_use_tool po tool command =
     (if lower (strip tool) = ''askuserquestion'' then Ask_user
      else if \<not> sandbox_enabled po \<and> tool = ''Bash'' then
        (if is_bash_command_whitelisted (strip (case command of None \<Rightarrow> [] | Some c \<Rightarrow> c)) then Allow else Deny)
      else if \<not> sandbox_enabled po \<and> tool \<in> {''BashOutput'', ''KillBash''} then Allow
      else Deny)"

subsection \<open>Folding and absolute paths\<close>

definition absolute :: "path \<Rightarrow> bool" where
  "absolute p \<longleftrightarrow> p \<noteq> [] \<and> (hd p = ''/'' \<or> hd p = ''//'')"

text \<open>Two spellings of one file on a volume that ignores case.\<close>

abbreviation folded :: "path \<Rightarrow> path" where "folded \<equiv> map casefold"

lemma starts_with_append [simp]: "starts_with p (p @ s)"
  by (simp add: starts_with_def)

lemma starts_with_iff: "starts_with p s \<longleftrightarrow> (\<exists>r. s = p @ r)"
  unfolding starts_with_def by (metis append_eq_conv_conj)

lemma lower_char_slash: "lower_char c = slash \<longleftrightarrow> c = slash"
proof
  assume l: "lower_char c = slash"
  then have n: "(of_char (lower_char c) :: nat) = 47" by simp
  show "c = slash"
  proof (cases "65 \<le> (of_char c :: nat) \<and> (of_char c :: nat) \<le> 90 \<or> 192 \<le> (of_char c :: nat) \<and> (of_char c :: nat) \<le> 222 \<and> (of_char c :: nat) \<noteq> 215")
    case True
    then have "(of_char (lower_char c) :: nat) = of_char c + 32"
      by (auto simp: lower_char_def Let_def)
    then show ?thesis using n True by arith
  next
    case False
    then have "lower_char c = c" unfolding lower_char_def Let_def by (rule if_not_P)
    then show ?thesis using l by simp
  qed
next
  assume "c = slash"
  then show "lower_char c = slash" by (simp add: lower_char_def Let_def)
qed

lemma casefold_slash [simp]: "casefold ''/'' = ''/''"
  by (simp add: casefold_def lower_char_def)

lemma casefold_slashes [simp]: "casefold ''//'' = ''//''"
  by (simp add: casefold_def lower_char_def)

lemma slash_in_casefold: "slash \<in> set (casefold s) \<longleftrightarrow> slash \<in> set s"
proof (induction s)
  case (Cons c s)
  have "slash \<in> set (casefold [c]) \<longleftrightarrow> c = slash"
    using lower_char_slash [of c] by (auto simp: casefold_def)
  then show ?case using Cons.IH casefold_append [of "[c]" s] by auto
qed simp

lemma absolute_append [simp]: "absolute p \<Longrightarrow> absolute (p @ q)"
  by (simp add: absolute_def)

lemma strip_extended_absolute: "absolute p \<Longrightarrow> strip_extended (path_str p) = path_str p"
  by (cases p) (auto simp: absolute_def strip_extended_def starts_with_def)

text \<open>The comparison key of an absolute path is the path with every component folded.\<close>

lemma protected_key_absolute: "absolute p \<Longrightarrow> protected_key p = path_str (folded p)"
  unfolding protected_key_def by (subst strip_extended_absolute) (cases p; auto simp: absolute_def casefold_join)+

lemma path_str_below:
  "base \<noteq> [] \<Longrightarrow> rest \<noteq> [] \<Longrightarrow> path_str (base @ [d] @ rest) = path_str (base @ [d]) @ ''/'' @ join ''/'' rest"
  using join_append [of "tl base @ [d]" rest "''/''"] by (cases base) simp_all

subsection \<open>Writes\<close>

text \<open>The files that only the tools of the server write, whatever the case they are spelled in.\<close>

definition guarded :: "path \<Rightarrow> path \<Rightarrow> bool" where
  "guarded base q \<longleftrightarrow> folded q = folded (base @ [''project.json'']) \<or> prefix (folded (base @ [''scripts''])) (folded q)
     \<or> (\<exists>e. starts_with ''episode_'' e \<and> slash \<notin> set e \<and> folded q = folded (base @ [''drafts'', e, REFERENCE_VIDEO_STEP1_FILENAME]))"

lemma project_json_guard:
  assumes "base \<in> set bases" "absolute base" "absolute q"
    and g: "folded q = folded (base @ [''project.json'']) \<or> prefix (folded (base @ [''scripts''])) (folded q)"
  shows "is_protected_project_json q bases"
proof -
  have key: "protected_key (base @ [d]) = path_str (folded (base @ [d]))" for d
    using assms(2) by (intro protected_key_absolute absolute_append)
  consider "folded q = folded (base @ [''project.json''])"
    | rest where "folded q = folded (base @ [''scripts'']) @ rest"
    using g by (auto simp: prefix_def)
  then have "protected_key q = protected_key (base @ [''project.json'']) \<or> protected_key q = protected_key (base @ [''scripts''])
      \<or> starts_with (protected_key (base @ [''scripts'']) @ ''/'') (protected_key q)"
  proof cases
    case 1
    then show ?thesis by (simp only: key protected_key_absolute [OF assms(3)] simp_thms)
  next
    case (2 rest)
    have below: "path_str (folded (base @ [''scripts'']) @ rest) = path_str (folded (base @ [''scripts''])) @ ''/'' @ join ''/'' rest"
      if "rest \<noteq> []"
      using path_str_below [of "folded base" rest "casefold ''scripts''"] that assms(2) by (simp add: absolute_def)
    show ?thesis
      by (cases "rest = []") (simp_all only: key protected_key_absolute [OF assms(3)] 2 below append_Nil2 starts_with_append simp_thms flip: append_assoc)
  qed
  then show ?thesis using assms(1) unfolding is_protected_project_json_def Let_def by blast
qed

lemma reference_step1_guard:
  assumes "base \<in> set bases" "absolute base" "absolute q"
    and e: "starts_with ''episode_'' e" "slash \<notin> set e"
    and q: "folded q = folded (base @ [''drafts'', e, REFERENCE_VIDEO_STEP1_FILENAME])"
  shows "is_protected_reference_step1 q bases"
proof -
  let ?d = "protected_key (base @ [''drafts''])"
  let ?n = "casefold REFERENCE_VIDEO_STEP1_FILENAME"
  have "path_str (folded base @ [casefold ''drafts''] @ [casefold e, ?n])
      = path_str (folded base @ [casefold ''drafts'']) @ ''/'' @ join ''/'' [casefold e, ?n]"
    by (rule path_str_below) (use assms(2) in \<open>simp_all add: absolute_def\<close>)
  then have t: "protected_key q = ?d @ ''/'' @ casefold e @ slash # ?n"
    by (simp add: protected_key_absolute [OF assms(3)] protected_key_absolute [OF absolute_append [OF assms(2)]] q)
  have "slash \<notin> set ?n" by (simp add: slash_in_casefold REFERENCE_VIDEO_STEP1_FILENAME_def)
  then have n: "\<forall>c \<in> set ?n. c \<noteq> slash" by metis
  have e': "\<forall>c \<in> set (casefold e). c \<noteq> slash" using e(2) slash_in_casefold by metis
  have split: "split_at (\<lambda>c. c = slash) (casefold e @ slash # ?n) = [casefold e, ?n]"
    using split_at_word [OF e', of slash] split_at_plain [OF n] by simp
  have ep: "starts_with ''episode_'' (casefold e)"
  proof -
    obtain r where "e = ''episode_'' @ r" using e(1) by (auto simp: starts_with_iff)
    moreover have "casefold ''episode_'' = ''episode_''" by code_simp
    ultimately show ?thesis by (metis casefold_append starts_with_append)
  qed
  have drop: "drop (length ?d + 1) (protected_key q) = casefold e @ slash # ?n" by (simp add: t)
  have sw: "starts_with (?d @ ''/'') (protected_key q)" by (simp add: t starts_with_def)
  show ?thesis
    unfolding is_protected_reference_step1_def Let_def
    by (rule bexI [OF _ assms(1)]) (simp only: sw drop split ep list.case simp_thms)
qed

lemma guarded_refused:
  assumes "base \<in> set (enumerate_cwd_bases f cwd)" "absolute base" "absolute resolved" "absolute logical"
    and "guarded base resolved \<or> guarded base logical"
  shows "check_write_access f resolved cwd logical \<noteq> None"
proof -
  let ?bs = "enumerate_cwd_bases f cwd"
  obtain q where q: "q = resolved \<or> q = logical" "absolute q" "guarded base q" using assms by blast
  then have "is_protected_project_json q ?bs \<or> is_protected_reference_step1 q ?bs"
    using project_json_guard [OF assms(1,2)] reference_step1_guard [OF assms(1,2)] unfolding guarded_def by blast
  then have "find (\<lambda>ru. ru_matches ru resolved ?bs \<or> ru_matches ru logical ?bs) PROTECTED_WRITE_RULES \<noteq> None"
    using q(1) by (auto simp: PROTECTED_WRITE_RULES_def)
  then show ?thesis unfolding check_write_access_def Let_def by (auto split: option.splits)
qed

lemma absolute_logical: "absolute cwd \<Longrightarrow> absolute (logical_path cwd file_path)"
  by (auto simp: logical_path_def parse_path_def absolute_def)

lemma absolute_normpath: "absolute p \<Longrightarrow> absolute (normpath p)"
  by (cases p) (simp_all add: absolute_def)

lemma bases_absolute:
  assumes "absolute cwd" "\<forall>p r. fs_resolve f p = Some r \<longrightarrow> absolute r" "base \<in> set (enumerate_cwd_bases f cwd)"
  shows "absolute base"
  using assms by (auto simp: enumerate_cwd_bases_def split: option.splits if_splits)

lemma check_write_access_None:
  assumes "check_write_access f resolved cwd logical = None"
  shows "(\<exists>base \<in> set (enumerate_cwd_bases f cwd). prefix base resolved) \<and> lower (path_suffix resolved) \<notin> set CODE_EXTENSIONS_FORBIDDEN"
  using assms unfolding check_write_access_def Let_def by (auto split: if_splits option.splits)

text \<open>
  (C28) Confinement of writes. A \<open>Write\<close> or \<open>Edit\<close> that the hook lets through has a target that resolves, is no
  sensitive file, lies in the project's directory (as the session names it or with its links resolved) and
  has no extension of a code file; and neither the target as written, with the dots collapsed, nor the
  resolved target is the project file, anything below the scripts, or the step 1 file of an episode, in
  any case it may be spelled, below either form of the directory. The paths are absolute ones.
\<close>

theorem writes_confined:
  assumes abs: "absolute cwd" "\<forall>p r. fs_resolve f p = Some r \<longrightarrow> absolute r"
    and allowed: "file_access_hook po f cwd tool args = None" "tool \<in> {''Write'', ''Edit''}"
    and arg: "dict_get args ''file_path'' = Some file_path" "file_path \<noteq> []"
  shows "\<exists>resolved. fs_resolve f (logical_path cwd file_path) = Some resolved
      \<and> \<not> is_sensitive_path po resolved
      \<and> (\<exists>base \<in> set (enumerate_cwd_bases f cwd). prefix base resolved)
      \<and> lower (path_suffix resolved) \<notin> set CODE_EXTENSIONS_FORBIDDEN
      \<and> \<not> (\<exists>base \<in> set (enumerate_cwd_bases f cwd).
            guarded base resolved \<or> guarded base (normpath (logical_path cwd file_path)))"
proof -
  let ?l = "logical_path cwd file_path"
  have "dict_get PATH_TOOLS tool = Some ''file_path''" using allowed(2) by (auto simp: PATH_TOOLS_def)
  then have "check_path_access po f file_path tool cwd = None"
    using allowed(1) arg by (simp add: file_access_hook_def)
  then obtain resolved where r: "fs_resolve f ?l = Some resolved" "\<not> is_sensitive_path po resolved"
      "check_write_access f resolved cwd (normpath ?l) = None"
    using allowed(2) by (auto simp: check_path_access_def Let_def WRITE_TOOLS_def split: option.splits if_splits)
  have "absolute (normpath ?l)" using abs(1) by (intro absolute_normpath absolute_logical)
  then have "\<not> (guarded base resolved \<or> guarded base (normpath ?l))" if "base \<in> set (enumerate_cwd_bases f cwd)" for base
    using guarded_refused [OF that bases_absolute [OF abs that]] abs(2) r(1,3) by blast
  then show ?thesis using r(1,2) check_write_access_None [OF r(3)] by blast
qed

definition ex_fs :: fs where
  "ex_fs = \<lparr>fs_resolve = (\<lambda>p. if absolute p then Some (normpath p) else None),
     fs_is_dir = (\<lambda>p. p \<in> {[''/'', ''data'', ''own''], [''/'', ''data'', ''other'']}), fs_exists = (\<lambda>p. False),
     fs_children = (\<lambda>p. []), fs_tempdir = [''/'', ''tmp''], fs_tempdir_resolved = [''/'', ''tmp'']\<rparr>"

definition ex_policy :: "bool \<Rightarrow> access_policy" where
  "ex_policy sb = \<lparr>project_root = [''/'', ''repo''], projects_root = [''/'', ''data''], agent_profile_root = [''/'', ''repo'', ''profile''],
     log_dir = [''/'', ''repo'', ''logs''], sandbox_enabled = sb, in_docker = False, claude_projects_dir = [''/'', ''home'', ''.claude'', ''projects'']\<rparr>"

lemma ex_fs_absolute: "\<forall>p r. fs_resolve ex_fs p = Some r \<longrightarrow> absolute r"
  by (auto simp: ex_fs_def absolute_normpath split: if_splits)

theorem writes_confined_witness:
  "\<exists>resolved. fs_resolve ex_fs (logical_path [''/'', ''data'', ''own''] ''notes/../drafts/a.md'') = Some resolved
      \<and> \<not> is_sensitive_path (ex_policy True) resolved
      \<and> (\<exists>base \<in> set (enumerate_cwd_bases ex_fs [''/'', ''data'', ''own'']). prefix base resolved)
      \<and> lower (path_suffix resolved) \<notin> set CODE_EXTENSIONS_FORBIDDEN
      \<and> \<not> (\<exists>base \<in> set (enumerate_cwd_bases ex_fs [''/'', ''data'', ''own'']).
            guarded base resolved \<or> guarded base (normpath (logical_path [''/'', ''data'', ''own''] ''notes/../drafts/a.md'')))"
proof (rule writes_confined [where tool = "''Write''" and args = "[(''file_path'', ''notes/../drafts/a.md'')]"])
  show "absolute [''/'', ''data'', ''own'']" by (simp add: absolute_def)
  show "\<forall>p r. fs_resolve ex_fs p = Some r \<longrightarrow> absolute r" by (rule ex_fs_absolute)
  show "file_access_hook (ex_policy True) ex_fs [''/'', ''data'', ''own''] ''Write'' [(''file_path'', ''notes/../drafts/a.md'')] = None"
    by code_simp
qed simp_all

lemma set_fold_new: "set (fold (\<lambda>p acc. if p \<in> set acc then acc else acc @ [p]) xs acc) = set acc \<union> set xs"
  by (induction xs arbitrary: acc) auto

lemma rule_covered:
  assumes "ru \<in> set PROTECTED_WRITE_RULES" "ru_matches ru t bases"
  shows "\<exists>base \<in> set bases. \<exists>sub \<in> set (ru_sandbox_subpaths ru).
      protected_key t = protected_key (base @ [sub]) \<or> starts_with (protected_key (base @ [sub]) @ ''/'') (protected_key t)"
proof -
  consider (json) "is_protected_project_json t bases" "ru_sandbox_subpaths ru = [''scripts'', ''project.json'']"
    | (step1) "is_protected_reference_step1 t bases" "ru_sandbox_subpaths ru = [''drafts'']"
    using assms by (auto simp: PROTECTED_WRITE_RULES_def)
  then show ?thesis
  proof cases
    case json
    then show ?thesis unfolding is_protected_project_json_def Let_def by auto
  next
    case step1
    then show ?thesis unfolding is_protected_reference_step1_def Let_def by auto
  qed
qed

text \<open>The contract of the rule table: whatever a rule of the hook matches lies at or below a path the rule gives to
  the sandbox.\<close>

locale protected_rules =
  fixes rules :: "protected_rule list"
  assumes covered: "ru \<in> set rules \<Longrightarrow> ru_matches ru t bases \<Longrightarrow> \<exists>base \<in> set bases. \<exists>sub \<in> set (ru_sandbox_subpaths ru).
      protected_key t = protected_key (base @ [sub]) \<or> starts_with (protected_key (base @ [sub]) @ ''/'') (protected_key t)"
begin

lemma hit_projected:
  assumes "find (\<lambda>ru. ru_matches ru a bases \<or> ru_matches ru b bases) rules = Some ru"
  obtains base sub t where "ru \<in> set rules" "base \<in> set bases" "sub \<in> set (ru_sandbox_subpaths ru)" "t \<in> {a, b}"
    "protected_key t = protected_key (base @ [sub]) \<or> starts_with (protected_key (base @ [sub]) @ ''/'') (protected_key t)"
proof -
  have ru: "ru \<in> set rules" "ru_matches ru a bases \<or> ru_matches ru b bases"
    using assms by (auto simp: find_Some_iff)
  then obtain t where "t \<in> {a, b}" "ru_matches ru t bases" by blast
  then show thesis using covered [OF ru(1)] ru(1) that by blast
qed

end

interpretation write_rules: protected_rules PROTECTED_WRITE_RULES
  by unfold_locales (rule rule_covered)

text \<open>
  The two layers agree. What the hook refuses to \<open>Write\<close> or \<open>Edit\<close> as a protected file, seen as it is
  written or resolved, is a path of the list the kernel sandbox refuses to the commands, or lies below one,
  under the normal form both compare.
\<close>

theorem protected_in_both_layers:
  assumes "check_write_access f resolved cwd logical = Some (Protected name)"
  shows "\<exists>p \<in> set (build_protected_write_abs_paths f cwd). \<exists>target \<in> {resolved, logical}.
      protected_key target = casefold (strip_extended p) \<or> starts_with (casefold (strip_extended p) @ ''/'') (protected_key target)"
proof -
  let ?bs = "enumerate_cwd_bases f cwd"
  obtain ru where "find (\<lambda>ru. ru_matches ru resolved ?bs \<or> ru_matches ru logical ?bs) PROTECTED_WRITE_RULES = Some ru"
    using assms unfolding check_write_access_def Let_def by (auto split: if_splits option.splits)
  then obtain base sub target where ru: "ru \<in> set PROTECTED_WRITE_RULES" "target \<in> {resolved, logical}"
    and b: "base \<in> set ?bs" "sub \<in> set (ru_sandbox_subpaths ru)"
      "protected_key target = protected_key (base @ [sub]) \<or> starts_with (protected_key (base @ [sub]) @ ''/'') (protected_key target)"
    by (rule write_rules.hit_projected)
  have "path_str (base @ [sub]) \<in> set (build_protected_write_abs_paths f cwd)"
    unfolding build_protected_write_abs_paths_def set_fold_new using ru(1) b(1,2) by auto
  then show ?thesis using b(3) ru(2) unfolding protected_key_def by blast
qed

theorem protected_in_both_layers_witness:
  "\<exists>p \<in> set (build_protected_write_abs_paths ex_fs [''/'', ''data'', ''own'']).
     \<exists>target \<in> {[''/'', ''data'', ''own'', ''Scripts'', ''a.json''], [''/'', ''data'', ''own'', ''link.json'']}.
      protected_key target = casefold (strip_extended p) \<or> starts_with (casefold (strip_extended p) @ ''/'') (protected_key target)"
  by (rule protected_in_both_layers [where name = "''project_json''"]) code_simp

subsection \<open>Reads\<close>

lemma check_read_access_None:
  assumes "check_read_access po f resolved cwd = None"
  shows "prefix cwd resolved \<or> sdk_tool_result po f cwd resolved \<or> sdk_task_output f resolved
    \<or> (prefix (projects_root po) resolved \<or> prefix (project_root po) resolved)
      \<and> (\<forall>e. prefix (projects_root po @ [e]) resolved \<longrightarrow> fs_is_dir f (projects_root po @ [e]) \<longrightarrow> e = path_name cwd)"
proof -
  have drop: "\<exists>rest. drop (length (projects_root po)) resolved = e # rest" if "prefix (projects_root po @ [e]) resolved" for e
    using that by (auto simp: prefix_def)
  have "prefix (projects_root po) resolved" if "prefix (projects_root po @ [e]) resolved" for e
    using that by (metis append_prefixD)
  then show ?thesis
    using assms drop unfolding check_read_access_def by (fastforce split: if_splits list.splits)
qed

lemma not_sensitive:
  assumes "\<not> is_sensitive_path po p"
  shows "p \<noteq> project_root po @ [''.env''] \<and> \<not> (\<exists>x. p = project_root po @ [''.env.'' @ x])
      \<and> p \<noteq> projects_root po @ [''.arcreel.db''] \<and> \<not> (\<exists>x. p = projects_root po @ [''.arcreel.db-'' @ x])
      \<and> p \<noteq> projects_root po @ [''.system_config.json''] \<and> p \<noteq> projects_root po @ [''.system_config.json.bak'']
      \<and> \<not> prefix (path_parent (projects_root po) @ [''vertex_keys'']) p \<and> \<not> prefix (log_dir po) p"
proof -
  have f: "p \<notin> set (sensitive_files po)" and q: "\<not> (\<exists>q \<in> set (sensitive_prefixes po). prefix q p)"
    and g: "\<not> (\<exists>g \<in> set (sensitive_globs po). glob_hit g p)"
    using assms unfolding is_sensitive_path_def by blast+
  have "p \<noteq> d @ [pat @ x]" if "(d, pat) \<in> set (sensitive_globs po)" for d pat x
  proof
    assume "p = d @ [pat @ x]"
    then have "glob_hit (d, pat) p" by (simp add: glob_hit_def)
    then show False using g that by blast
  qed
  then have "\<not> (\<exists>x. p = project_root po @ [''.env.'' @ x])" "\<not> (\<exists>x. p = projects_root po @ [''.arcreel.db-'' @ x])"
    unfolding sensitive_globs_def by (metis list.set_intros)+
  moreover have "p \<noteq> project_root po @ [''.env'']" "p \<noteq> projects_root po @ [''.arcreel.db'']" "p \<noteq> projects_root po @ [''.system_config.json'']"
      "p \<noteq> projects_root po @ [''.system_config.json.bak'']"
    using f unfolding sensitive_files_def by simp_all
  moreover have "\<not> prefix (path_parent (projects_root po) @ [''vertex_keys'']) p" "\<not> prefix (log_dir po) p"
    using q unfolding sensitive_prefixes_def by simp_all
  ultimately show ?thesis by blast
qed

text \<open>
  (C29) Isolation of projects. For a session in the project directory \<open>own\<close>, a \<open>Read\<close>, \<open>Glob\<close> or \<open>Grep\<close> that the
  hook lets through has a target that resolves and is no sensitive file: not the environment file of the repository
  or a variant of it, not the database or a file beside it, not the system configuration, no key and no log. The target
  is output the agent's own tools left (a tool result of this project, a background task), or it lies in the
  project, the data directory or the repository, and then not in the directory of another project.
\<close>

theorem reads_isolated:
  assumes allowed: "file_access_hook po f cwd tool args = None" "tool \<in> {''Read'', ''Glob'', ''Grep''}"
    and arg: "dict_get args (if tool = ''Read'' then ''file_path'' else ''path'') = Some file_path" "file_path \<noteq> []"
    and cwd: "cwd = projects_root po @ [own]" "projects_root po \<noteq> []"
  shows "\<exists>resolved. fs_resolve f (logical_path cwd file_path) = Some resolved
      \<and> resolved \<noteq> project_root po @ [''.env''] \<and> \<not> (\<exists>x. resolved = project_root po @ [''.env.'' @ x])
      \<and> resolved \<noteq> projects_root po @ [''.arcreel.db''] \<and> \<not> (\<exists>x. resolved = projects_root po @ [''.arcreel.db-'' @ x])
      \<and> resolved \<noteq> projects_root po @ [''.system_config.json''] \<and> resolved \<noteq> projects_root po @ [''.system_config.json.bak'']
      \<and> \<not> prefix (path_parent (projects_root po) @ [''vertex_keys'']) resolved \<and> \<not> prefix (log_dir po) resolved
      \<and> (sdk_tool_result po f cwd resolved \<or> sdk_task_output f resolved
         \<or> (prefix (projects_root po) resolved \<or> prefix (project_root po) resolved)
           \<and> (\<forall>e. e \<noteq> own \<longrightarrow> fs_is_dir f (projects_root po @ [e]) \<longrightarrow> \<not> prefix (projects_root po @ [e]) resolved))"
proof -
  have "dict_get PATH_TOOLS tool = Some (if tool = ''Read'' then ''file_path'' else ''path'')"
    using allowed(2) by (auto simp: PATH_TOOLS_def)
  then have "check_path_access po f file_path tool cwd = None"
    using allowed(1) arg by (simp add: file_access_hook_def)
  moreover have "tool \<notin> set WRITE_TOOLS" using allowed(2) by (auto simp: WRITE_TOOLS_def)
  ultimately obtain resolved where r: "fs_resolve f (logical_path cwd file_path) = Some resolved"
      "\<not> is_sensitive_path po resolved" "check_read_access po f resolved cwd = None"
    by (auto simp: check_path_access_def Let_def split: option.splits if_splits)
  have name: "path_name cwd = own" using cwd by (cases "projects_root po") (simp_all add: path_name_def)
  have own: "e = own" if "prefix cwd resolved" "prefix (projects_root po @ [e]) resolved" for e
    using that cwd(1) by (auto simp: prefix_def)
  have "prefix (projects_root po) resolved" if "prefix cwd resolved"
    using that cwd(1) by (metis append_prefixD)
  then have "sdk_tool_result po f cwd resolved \<or> sdk_task_output f resolved
      \<or> (prefix (projects_root po) resolved \<or> prefix (project_root po) resolved)
        \<and> (\<forall>e. e \<noteq> own \<longrightarrow> fs_is_dir f (projects_root po @ [e]) \<longrightarrow> \<not> prefix (projects_root po @ [e]) resolved)"
    using check_read_access_None [OF r(3)] own unfolding name by blast
  then show ?thesis using r(1) not_sensitive [OF r(2)] by blast
qed

definition ex_cwd :: path where "ex_cwd = [''/'', ''data'', ''own'']"

theorem reads_isolated_witness:
  "\<exists>resolved. fs_resolve ex_fs (logical_path ex_cwd ''../notes.txt'') = Some resolved
      \<and> resolved \<noteq> project_root (ex_policy True) @ [''.env''] \<and> \<not> (\<exists>x. resolved = project_root (ex_policy True) @ [''.env.'' @ x])
      \<and> resolved \<noteq> projects_root (ex_policy True) @ [''.arcreel.db''] \<and> \<not> (\<exists>x. resolved = projects_root (ex_policy True) @ [''.arcreel.db-'' @ x])
      \<and> resolved \<noteq> projects_root (ex_policy True) @ [''.system_config.json''] \<and> resolved \<noteq> projects_root (ex_policy True) @ [''.system_config.json.bak'']
      \<and> \<not> prefix (path_parent (projects_root (ex_policy True)) @ [''vertex_keys'']) resolved \<and> \<not> prefix (log_dir (ex_policy True)) resolved
      \<and> (sdk_tool_result (ex_policy True) ex_fs ex_cwd resolved \<or> sdk_task_output ex_fs resolved
         \<or> (prefix (projects_root (ex_policy True)) resolved \<or> prefix (project_root (ex_policy True)) resolved)
           \<and> (\<forall>e. e \<noteq> ''own'' \<longrightarrow> fs_is_dir ex_fs (projects_root (ex_policy True) @ [e]) \<longrightarrow> \<not> prefix (projects_root (ex_policy True) @ [e]) resolved))"
proof (rule reads_isolated [where tool = "''Read''" and args = "[(''file_path'', ''../notes.txt'')]"])
  show "file_access_hook (ex_policy True) ex_fs ex_cwd ''Read'' [(''file_path'', ''../notes.txt'')] = None" by code_simp
  show "ex_cwd = projects_root (ex_policy True) @ [''own'']" by (simp add: ex_cwd_def ex_policy_def)
  show "projects_root (ex_policy True) \<noteq> []" by (simp add: ex_policy_def)
qed simp_all

subsection \<open>The whitelist of commands\<close>

lemma skill_script_form:
  assumes "skill_script w"
  obtains skill stem where "w = ''.claude/skills/'' @ skill @ ''/scripts/'' @ stem @ ''.py''" "skill \<noteq> []" "stem \<noteq> []"
    "slash \<notin> set skill" "slash \<notin> set stem" "skill \<in> set (split_at (\<lambda>c. c = slash) w)"
proof -
  let ?ps = "split_at (\<lambda>c. c = slash) w"
  obtain skill full where ps: "?ps = [''.claude'', ''skills'', skill, ''scripts'', full]"
    and h: "skill \<noteq> []" "3 < length full" "drop (length full - 3) full = ''.py''"
    using assms unfolding skill_script_def by (auto split: list.splits)
  define stem where "stem = take (length full - 3) full"
  have full: "full = stem @ ''.py''" using h(3) unfolding stem_def by (metis append_take_drop_id)
  have "w = ''.claude/skills/'' @ skill @ ''/scripts/'' @ stem @ ''.py''"
    using join_split [of slash w] ps full by simp
  moreover have "stem \<noteq> []" using h(2) full by auto
  moreover have "slash \<notin> set skill" "slash \<notin> set stem"
    using split_at_no_sep [of skill "\<lambda>c. c = slash" w] split_at_no_sep [of full "\<lambda>c. c = slash" w] ps full by auto
  ultimately show thesis using that h(1) ps by simp
qed

lemma first_word:
  assumes "n = p \<or> starts_with (p @ '' '') n" "p \<noteq> []" "\<forall>c \<in> set p. \<not> is_space c"
  shows "\<exists>ws. filter (\<lambda>w. w \<noteq> []) (split_at is_space n) = p # ws"
proof -
  have sp: "is_space (CHR '' '')" by (simp add: is_space_def)
  consider "n = p" | r where "n = p @ CHR '' '' # r" using assms(1) by (auto simp: starts_with_iff)
  then show ?thesis
    using split_at_plain [OF assms(3)] split_at_word [OF assms(3) sp] assms(2) by cases auto
qed

text \<open>A path segment of a word of the command is a segment of the command.\<close>

lemma segment_of_word:
  assumes "w \<in> set (split_at is_space (forward_slashes s))" "seg \<in> set (split_at (\<lambda>c. c = slash) w)"
  shows "seg \<in> set (split_at (\<lambda>c. is_space c \<or> c = slash \<or> c = bslash) (forward_slashes s))"
proof -
  have "bslash \<notin> set (forward_slashes s)" by (auto simp: forward_slashes_def)
  then have "bslash \<notin> set w" using split_at_chars [OF assms(1)] by blast
  then have "split_at (\<lambda>c. c = slash \<or> c = bslash) w = split_at (\<lambda>c. c = slash) w"
    by (intro split_at_cong) auto
  then have "seg \<in> set (split_at (\<lambda>c. c = slash \<or> c = bslash) w)" using assms(2) by simp
  then show ?thesis
    using assms(1) split_at_or [of is_space "\<lambda>c. c = slash \<or> c = bslash" "forward_slashes s"] by auto
qed

definition runs_allowed :: "string list \<Rightarrow> bool" where
  "runs_allowed words \<longleftrightarrow> (\<exists>w ws. words = w # ws
     \<and> (w = ''ffmpeg'' \<or> w = ''ffprobe''
        \<or> w = ''python'' \<and> (\<exists>skill stem rest. ws = (''.claude/skills/'' @ skill @ ''/scripts/'' @ stem @ ''.py'') # rest
            \<and> skill \<noteq> [] \<and> skill \<noteq> ''..'' \<and> slash \<notin> set skill \<and> stem \<noteq> [] \<and> slash \<notin> set stem)))"

definition words :: "string \<Rightarrow> string list" where
  "words s = filter (\<lambda>w. w \<noteq> []) (split_at is_space s)"

lemma python_command_runs:
  assumes n: "starts_with PYTHON_SKILLS_PREFIX (forward_slashes s)" "is_allowed_python_skill_command (forward_slashes s)"
    and t: "\<not> path_traversal (forward_slashes s)"
  shows "runs_allowed (words (forward_slashes s))"
proof -
  have "starts_with (''python'' @ '' '') (forward_slashes s)"
    using n(1) by (auto simp: PYTHON_SKILLS_PREFIX_def starts_with_iff)
  then obtain ws where ws: "words (forward_slashes s) = ''python'' # ws"
    using first_word [of "forward_slashes s" "''python''"] by (auto simp: is_space_def words_def)
  then obtain w rest where w: "ws = w # rest" "skill_script w"
    using n(2) by (auto simp: is_allowed_python_skill_command_def second_word_def words_def split: option.splits list.splits)
  obtain skill stem where f: "w = ''.claude/skills/'' @ skill @ ''/scripts/'' @ stem @ ''.py''" "skill \<noteq> []" "stem \<noteq> []"
      "slash \<notin> set skill" "slash \<notin> set stem" "skill \<in> set (split_at (\<lambda>c. c = slash) w)"
    using skill_script_form [OF w(2)] by metis
  have "w \<in> set (words (forward_slashes s))" using ws w(1) by simp
  then have "w \<in> set (split_at is_space (forward_slashes s))" by (simp add: words_def)
  then have "skill \<noteq> ''..''" using segment_of_word [OF _ f(6)] t unfolding path_traversal_def by metis
  then show ?thesis using ws w(1) f(1-5) unfolding runs_allowed_def by blast
qed

lemma prefix_allows_runs:
  assumes "p \<in> set WINDOWS_BASH_PREFIX_WHITELIST" "prefix_allows (forward_slashes s) p" "\<not> path_traversal (forward_slashes s)"
  shows "runs_allowed (words (forward_slashes s))"
proof -
  consider (py) "p = PYTHON_SKILLS_PREFIX" | (tool) "p = ''ffmpeg'' \<or> p = ''ffprobe''"
    using assms(1) by (auto simp: WINDOWS_BASH_PREFIX_WHITELIST_def)
  then show ?thesis
  proof cases
    case py
    then show ?thesis using python_command_runs assms(2,3) by (simp add: prefix_allows_def)
  next
    case tool
    then have "p \<noteq> PYTHON_SKILLS_PREFIX" "CHR '' '' \<notin> set p" by (auto simp: PYTHON_SKILLS_PREFIX_def)
    then have "forward_slashes s = p \<or> starts_with (p @ '' '') (forward_slashes s)"
      using assms(2) by (simp add: prefix_allows_def)
    moreover have "\<forall>c \<in> set p. \<not> is_space c" using tool by (auto simp: is_space_def)
    ultimately show ?thesis
      using first_word [of "forward_slashes s" p] tool unfolding runs_allowed_def words_def by auto
  qed
qed

text \<open>A command wrapped to remove secrets starts with \<open>env\<close>, which no allowed command does.\<close>

lemma wrapped_not_allowed:
  assumes "wrap_bash_command_for_env_scrub po environ c = Some w"
  shows "\<not> runs_allowed (words (forward_slashes (unquote (strip w))))"
proof -
  obtain r where "w = CHR ''e'' # r"
    using assms by (auto simp: wrap_bash_command_for_env_scrub_def env_scrub_wrap_prefix_def split: option.splits if_splits)
  then obtain r where "strip w = CHR ''e'' # r" using strip_keeps_head [of "CHR ''e''"] by (auto simp: is_space_def)
  then obtain r where n: "forward_slashes (unquote (strip w)) = CHR ''e'' # r" by (auto simp: unquote_def forward_slashes_def)
  obtain v vs where "split_at is_space r = v # vs" using split_at_nonempty by (metis list.exhaust)
  then have "words (forward_slashes (unquote (strip w))) = (CHR ''e'' # v) # filter (\<lambda>w. w \<noteq> []) vs"
    unfolding n words_def by (simp add: is_space_def)
  then show ?thesis unfolding runs_allowed_def by auto
qed

text \<open>
  (C30) The command whitelist without a sandbox. A command that is let through holds no character that chains, pipes,
  redirects or substitutes commands, none of its path segments is \<open>..\<close>, with the quotes removed and the backslashes
  read as separators or as escapes, and its first word is \<open>ffmpeg\<close> or \<open>ffprobe\<close> as a whole, or it
  is \<open>python\<close> followed by a script \<open>.claude/skills/<skill>/scripts/<script>.py\<close> of a skill that is a
  proper name. And no command that was wrapped to remove secrets from its environment passes it.
\<close>

theorem whitelist_sound:
  assumes "is_bash_command_whitelisted command"
  shows "\<not> (\<exists>c \<in> set (strip command). metachar c)
    \<and> \<not> path_traversal (strip command) \<and> \<not> path_traversal (forward_slashes (unquote (strip command)))
    \<and> \<not> path_traversal (filter (\<lambda>c. c \<noteq> bslash) (unquote (strip command)))
    \<and> runs_allowed (words (forward_slashes (unquote (strip command))))
    \<and> (\<forall>po environ c. wrap_bash_command_for_env_scrub po environ c \<noteq> Some command)"
proof -
  let ?n = "forward_slashes (unquote (strip command))"
  have safe: "\<not> (\<exists>c \<in> set (strip command). metachar c)" "\<not> path_traversal (strip command)" "\<not> path_traversal ?n"
      "\<not> path_traversal (filter (\<lambda>c. c \<noteq> bslash) (unquote (strip command)))"
    and pre: "\<exists>p \<in> set WINDOWS_BASH_PREFIX_WHITELIST. prefix_allows ?n p"
    using assms unfolding is_bash_command_whitelisted_def Let_def by blast+
  then have "runs_allowed (words ?n)" using prefix_allows_runs by blast
  then show ?thesis using safe wrapped_not_allowed by blast
qed

theorem whitelist_sound_witness:
  "runs_allowed (words (forward_slashes (unquote (strip ''python .claude/skills/cut/scripts/cut.py --in a.mp4''))))"
proof -
  have "is_bash_command_whitelisted ''python .claude/skills/cut/scripts/cut.py --in a.mp4''" by code_simp
  from whitelist_sound [OF this] show ?thesis by (elim conjE)
qed

end
