(* ===== verification/Json.thy ===== *)
theory Json
  imports Prelude "HOL-Library.Multiset"
begin

text \<open>
  The part of Python's \<open>json\<close> module the program uses: \<open>json.dumps\<close> with
  \<open>ensure_ascii=False\<close> and the default separators (optionally \<open>sort_keys=True\<close>),
  and \<open>json.loads\<close>, which reports malformed text by \<^const>\<open>None\<close>.

  A Python dictionary is an association list with distinct keys in insertion order.
  A float is kept as the literal it is written with. An escape \<open>\u\<close> beyond the
  character range of the model is refused, and CPython's recursion limit is not
  modelled: the parser runs on fuel that grows with the text, and \<open>parse_value_enough\<close>
  shows that the fuel given by \<open>json_loads\<close> never runs out.
\<close>

datatype json =
    JNull
  | JBool bool
  | JInt int
  | JFloat string
  | JStr string
  | JList "json list"
  | JObj "(string \<times> json) list"

subsection \<open>Writing\<close>

abbreviation quote :: char where "quote \<equiv> CHR 0x22"
abbreviation backslash :: char where "backslash \<equiv> CHR 0x5C"

definition hex_char :: "nat \<Rightarrow> char" where
  "hex_char d = (if d < 10 then char_of (48 + d) else char_of (87 + d))"

definition esc_char :: "char \<Rightarrow> string" where
  "esc_char c =
     (if c = quote then [backslash, quote]
      else if c = backslash then [backslash, backslash]
      else if c = CHR 0x0A then [backslash, CHR ''n'']
      else if c = CHR 0x0D then [backslash, CHR ''r'']
      else if c = CHR 0x09 then [backslash, CHR ''t'']
      else if c = CHR 0x0C then [backslash, CHR ''f'']
      else if c = CHR 0x08 then [backslash, CHR ''b'']
      else if of_char c < (32::nat)
        then [backslash, CHR ''u'', CHR ''0'', CHR ''0'',
              hex_char (of_char c div 16), hex_char (of_char c mod 16)]
      else [c])"

definition dumps_str :: "string \<Rightarrow> string" where
  "dumps_str s = quote # concat (map esc_char s) @ [quote]"

fun json_dumps :: "json \<Rightarrow> string" where
  "json_dumps JNull = ''null''"
| "json_dumps (JBool b) = (if b then ''true'' else ''false'')"
| "json_dumps (JInt i) = show_int i"
| "json_dumps (JFloat l) = l"
| "json_dumps (JStr s) = dumps_str s"
| "json_dumps (JList xs) = ''['' @ join '', '' (map json_dumps xs) @ '']''"
| "json_dumps (JObj kvs) =
     ''{'' @ join '', '' (map (\<lambda>kv. dumps_str (fst kv) @ '': '' @ json_dumps (snd kv)) kvs) @ ''}''"

text \<open>\<open>sort_keys=True\<close> sorts the keys of every object, nested ones included.\<close>

fun sort_json :: "json \<Rightarrow> json" where
  "sort_json (JList xs) = JList (map sort_json xs)"
| "sort_json (JObj kvs) = JObj (sort_key fst (map (\<lambda>kv. (fst kv, sort_json (snd kv))) kvs))"
| "sort_json v = v"

definition json_dumps_sorted :: "json \<Rightarrow> string" where
  "json_dumps_sorted v = json_dumps (sort_json v)"

subsection \<open>Reading\<close>

definition is_ws :: "char \<Rightarrow> bool" where
  "is_ws c \<longleftrightarrow> c = CHR 0x20 \<or> c = CHR 0x09 \<or> c = CHR 0x0A \<or> c = CHR 0x0D"

definition skip_ws :: "string \<Rightarrow> string" where
  "skip_ws s = dropWhile is_ws s"

definition hex_val :: "char \<Rightarrow> nat option" where
  "hex_val c =
     (let n = of_char c in
      if 48 \<le> n \<and> n \<le> 57 then Some (n - 48)
      else if 97 \<le> n \<and> n \<le> 102 then Some (n - 87)
      else if 65 \<le> n \<and> n \<le> 70 then Some (n - 55)
      else None)"

definition parse_u :: "string \<Rightarrow> (char \<times> string) option" where
  "parse_u s =
     (case s of a # b # c # d # r \<Rightarrow>
        (case (hex_val a, hex_val b, hex_val c, hex_val d) of
           (Some w, Some x, Some y, Some z) \<Rightarrow>
             (let n = ((w * 16 + x) * 16 + y) * 16 + z
              in if n < 256 then Some (char_of n, r) else None)
         | _ \<Rightarrow> None)
      | _ \<Rightarrow> None)"

definition parse_esc :: "string \<Rightarrow> (char \<times> string) option" where
  "parse_esc s =
     (case s of [] \<Rightarrow> None
      | e # r \<Rightarrow>
          if e = quote then Some (quote, r)
          else if e = backslash then Some (backslash, r)
          else if e = CHR ''/'' then Some (CHR ''/'', r)
          else if e = CHR ''b'' then Some (CHR 0x08, r)
          else if e = CHR ''f'' then Some (CHR 0x0C, r)
          else if e = CHR ''n'' then Some (CHR 0x0A, r)
          else if e = CHR ''r'' then Some (CHR 0x0D, r)
          else if e = CHR ''t'' then Some (CHR 0x09, r)
          else if e = CHR ''u'' then parse_u r
          else None)"

lemma parse_u_length: "parse_u s = Some (c, r) \<Longrightarrow> length r < length s"
  by (auto simp: parse_u_def Let_def split: list.splits option.splits if_splits)

lemma parse_esc_length: "parse_esc s = Some (c, r) \<Longrightarrow> length r < length s"
  by (auto simp: parse_esc_def split: list.splits if_splits dest: parse_u_length)

text \<open>\<open>parse_str\<close> reads the text after an opening quote up to its closing quote.\<close>

function parse_str :: "string \<Rightarrow> (string \<times> string) option" where
  "parse_str [] = None"
| "parse_str (c # s) =
     (if c = quote then Some ([], s)
      else if c = backslash then
        (case parse_esc s of None \<Rightarrow> None
         | Some (d, r) \<Rightarrow> map_option (\<lambda>(t, r'). (d # t, r')) (parse_str r))
      else if of_char c < (32::nat) then None
      else map_option (\<lambda>(t, r'). (c # t, r')) (parse_str s))"
  by pat_completeness auto
termination
  by (relation "measure length") (auto dest: parse_esc_length)

text \<open>Numbers: an optional sign, an integer part without a leading zero, an optional
  fraction, an optional exponent; the last two make a float.\<close>

definition split_int :: "string \<Rightarrow> (string \<times> string) option" where
  "split_int s =
     (case s of [] \<Rightarrow> None
      | c # r \<Rightarrow> if c = CHR ''0'' then Some (''0'', r)
                 else if is_digit c then Some (takeWhile is_digit s, dropWhile is_digit s)
                 else None)"

definition split_frac :: "string \<Rightarrow> string \<times> string" where
  "split_frac s =
     (case s of c # r \<Rightarrow>
        if c = CHR ''.'' \<and> takeWhile is_digit r \<noteq> []
        then (c # takeWhile is_digit r, dropWhile is_digit r) else ([], s)
      | [] \<Rightarrow> ([], s))"

definition split_sign :: "string \<Rightarrow> string \<times> string" where
  "split_sign s =
     (case s of c # r \<Rightarrow> if c = CHR ''-'' \<or> c = CHR ''+'' then ([c], r) else ([], s) | [] \<Rightarrow> ([], s))"

definition split_exp :: "string \<Rightarrow> string \<times> string" where
  "split_exp s =
     (case s of c # r \<Rightarrow>
        (let (sg, r') = split_sign r in
         if (c = CHR ''e'' \<or> c = CHR ''E'') \<and> takeWhile is_digit r' \<noteq> []
         then (c # sg @ takeWhile is_digit r', dropWhile is_digit r') else ([], s))
      | [] \<Rightarrow> ([], s))"

definition parse_num :: "string \<Rightarrow> (json \<times> string) option" where
  "parse_num s =
     (let (sg, s1) = (case s of c # r \<Rightarrow> if c = CHR ''-'' then (''-'', r) else ([], s) | [] \<Rightarrow> ([], s))
      in case split_int s1 of None \<Rightarrow> None
         | Some (i, s2) \<Rightarrow>
             (let (f, s3) = split_frac s2; (e, s4) = split_exp s3
              in if f = [] \<and> e = []
                 then Some (JInt (if sg = [] then int (read_nat i) else - int (read_nat i)), s4)
                 else Some (JFloat (sg @ i @ f @ e), s4)))"

definition parse_literal :: "string \<Rightarrow> (json \<times> string) option" where
  "parse_literal s =
     (case strip_prefix ''null'' s of Some r \<Rightarrow> Some (JNull, r) | None \<Rightarrow>
     (case strip_prefix ''true'' s of Some r \<Rightarrow> Some (JBool True, r) | None \<Rightarrow>
     (case strip_prefix ''false'' s of Some r \<Rightarrow> Some (JBool False, r) | None \<Rightarrow>
     (case parse_num s of Some x \<Rightarrow> Some x | None \<Rightarrow>
     (case strip_prefix ''NaN'' s of Some r \<Rightarrow> Some (JFloat ''NaN'', r) | None \<Rightarrow>
     (case strip_prefix ''Infinity'' s of Some r \<Rightarrow> Some (JFloat ''Infinity'', r) | None \<Rightarrow>
     (case strip_prefix ''-Infinity'' s of Some r \<Rightarrow> Some (JFloat ''-Infinity'', r) | None \<Rightarrow> None)))))))"

definition dict_of :: "('k \<times> 'v) list \<Rightarrow> ('k \<times> 'v) list" where
  "dict_of kvs = fold (\<lambda>kv d. dict_put (fst kv) (snd kv) d) kvs []"

fun parse_value :: "nat \<Rightarrow> string \<Rightarrow> (json \<times> string) option"
and parse_elems :: "nat \<Rightarrow> string \<Rightarrow> (json list \<times> string) option"
and parse_members :: "nat \<Rightarrow> string \<Rightarrow> ((string \<times> json) list \<times> string) option" where
  "parse_value 0 s = None"
| "parse_value (Suc n) s =
     (case s of [] \<Rightarrow> None
      | c # r \<Rightarrow>
          if c = quote then map_option (\<lambda>(t, r'). (JStr t, r')) (parse_str r)
          else if c = CHR ''{'' then
            (case skip_ws r of [] \<Rightarrow> None
             | d # r1 \<Rightarrow> if d = CHR ''}'' then Some (JObj [], r1)
                 else map_option (\<lambda>(kvs, r'). (JObj (dict_of kvs), r')) (parse_members n (d # r1)))
          else if c = CHR ''['' then
            (case skip_ws r of [] \<Rightarrow> None
             | d # r1 \<Rightarrow> if d = CHR '']'' then Some (JList [], r1)
                 else map_option (\<lambda>(vs, r'). (JList vs, r')) (parse_elems n (d # r1)))
          else parse_literal s)"
| "parse_elems 0 s = None"
| "parse_elems (Suc n) s =
     (case parse_value n s of None \<Rightarrow> None
      | Some (v, r) \<Rightarrow>
          (case skip_ws r of [] \<Rightarrow> None
           | d # r1 \<Rightarrow>
               if d = CHR '']'' then Some ([v], r1)
               else if d = CHR '','' then
                 map_option (\<lambda>(vs, r'). (v # vs, r')) (parse_elems n (skip_ws r1))
               else None))"
| "parse_members 0 s = None"
| "parse_members (Suc n) s =
     (case s of [] \<Rightarrow> None
      | c # r \<Rightarrow>
          if c \<noteq> quote then None
          else (case parse_str r of None \<Rightarrow> None
            | Some (k, r1) \<Rightarrow>
                (case skip_ws r1 of [] \<Rightarrow> None
                 | d # r2 \<Rightarrow>
                     if d \<noteq> CHR '':'' then None
                     else (case parse_value n (skip_ws r2) of None \<Rightarrow> None
                       | Some (v, r3) \<Rightarrow>
                           (case skip_ws r3 of [] \<Rightarrow> None
                            | e # r4 \<Rightarrow>
                                if e = CHR ''}'' then Some ([(k, v)], r4)
                                else if e = CHR '','' then
                                  map_option (\<lambda>(kvs, r'). ((k, v) # kvs, r'))
                                    (parse_members n (skip_ws r4))
                                else None)))))"

definition json_loads :: "string \<Rightarrow> json option" where
  "json_loads s =
     (case parse_value (2 * length s + 2) (skip_ws s) of None \<Rightarrow> None
      | Some (v, r) \<Rightarrow> if skip_ws r = [] then Some v else None)"

subsection \<open>Strings survive a round trip\<close>

lemma hex_val_char [simp]: "d < 16 \<Longrightarrow> hex_val (hex_char d) = Some d"
  by (simp add: hex_val_def hex_char_def Let_def)

lemma hex_val_0 [simp]: "hex_val CHR ''0'' = Some 0"
  by (simp add: hex_val_def)

lemma char_hex_split: "of_char c < (32::nat) \<Longrightarrow>
   char_of ((of_char c div 16) * 16 + of_char c mod 16) = (c :: char)"
  by simp

lemma parse_str_esc:
  "parse_str (esc_char c @ s) = map_option (\<lambda>(t, r). (c # t, r)) (parse_str s)"
proof (cases "of_char c < (32::nat)")
  case True
  then have "parse_u (CHR ''0'' # CHR ''0'' # hex_char (of_char c div 16)
      # hex_char (of_char c mod 16) # s) = Some (c, s)"
    by (simp add: parse_u_def Let_def)
  with True show ?thesis
    by (auto simp: esc_char_def parse_esc_def)
next
  case False
  then show ?thesis by (auto simp: esc_char_def parse_esc_def)
qed

lemma parse_dumps_str: "parse_str (concat (map esc_char s) @ quote # r) = Some (s, r)"
  by (induction s) (simp_all add: parse_str_esc)

subsection \<open>Numbers survive a round trip\<close>

text \<open>What may follow a number without being read into it.\<close>

definition num_stop :: "string \<Rightarrow> bool" where
  "num_stop r \<longleftrightarrow> (case r of [] \<Rightarrow> True
     | c # _ \<Rightarrow> \<not> is_digit c \<and> c \<notin> set ''.eE+-'')"

lemma num_stop_simps [simp]:
  "num_stop []"
  "num_stop (CHR '','' # r)" "num_stop (CHR '']'' # r)" "num_stop (CHR ''}'' # r)"
  by (simp_all add: num_stop_def is_digit_def less_eq_char_def)

lemma takeWhile_stop: "num_stop r \<Longrightarrow> \<forall>c \<in> set ds. is_digit c \<Longrightarrow>
   takeWhile is_digit (ds @ r) = ds \<and> dropWhile is_digit (ds @ r) = r"
  by (cases r) (auto simp: num_stop_def takeWhile_append dropWhile_append)

lemma split_int_show_nat: "num_stop r \<Longrightarrow> split_int (show_nat n @ r) = Some (show_nat n, r)"
proof -
  assume r: "num_stop r"
  show ?thesis
  proof (cases "n = 0")
    case True
    then show ?thesis by (simp add: show_nat.simps [of 0] split_int_def)
  next
    case False
    obtain c cs where s: "show_nat n = c # cs"
      using show_nat_nonempty by (cases "show_nat n") auto
    have "c \<noteq> CHR ''0''" using show_nat_leading [OF False] s by simp
    moreover have "is_digit c" using show_nat_digits [of n] s by simp
    moreover have "takeWhile is_digit (show_nat n @ r) = show_nat n"
      "dropWhile is_digit (show_nat n @ r) = r"
      using takeWhile_stop [OF r show_nat_digits [of n]] by auto
    ultimately show ?thesis using s by (simp add: split_int_def)
  qed
qed

lemma split_stop: "num_stop r \<Longrightarrow> split_frac r = ([], r) \<and> split_exp r = ([], r)"
  by (cases r) (auto simp: num_stop_def split_frac_def split_exp_def Let_def split: prod.splits)

lemma show_nat_no_sign: "show_nat n @ r = c # cs \<Longrightarrow> c \<noteq> CHR ''-''"
proof -
  assume "show_nat n @ r = c # cs"
  then have "c \<in> set (show_nat n)"
    using show_nat_nonempty [of n] by (cases "show_nat n") auto
  then have "is_digit c" using show_nat_digits by auto
  then show ?thesis by (auto simp: is_digit_def less_eq_char_def)
qed

lemma parse_num_show_int: "num_stop r \<Longrightarrow> parse_num (show_int i @ r) = Some (JInt i, r)"
proof (cases "i < 0")
  case True
  assume r: "num_stop r"
  then show ?thesis using True
    by (simp add: parse_num_def show_int_def split_int_show_nat split_stop)
next
  case False
  assume r: "num_stop r"
  obtain c cs where s: "show_nat (nat i) @ r = c # cs"
    using show_nat_nonempty by (cases "show_nat (nat i)") auto
  have "c \<noteq> CHR ''-''" using show_nat_no_sign [OF s] .
  then have "(case show_nat (nat i) @ r of [] \<Rightarrow> ([], show_nat (nat i) @ r)
      | c # ra \<Rightarrow> if c = CHR ''-'' then (''-'', ra) else ([], show_nat (nat i) @ r))
      = ([], show_nat (nat i) @ r)"
    using s by (simp split: list.split)
  then show ?thesis using False r
    by (simp add: parse_num_def show_int_def split_int_show_nat split_stop)
qed

lemma show_int_head: "\<exists>c cs. show_int i = c # cs \<and> (is_digit c \<or> c = CHR ''-'')"
proof (cases "i < 0")
  case False
  obtain c cs where s: "show_nat (nat i) = c # cs"
    using show_nat_nonempty by (cases "show_nat (nat i)") auto
  then have "is_digit c" using show_nat_digits [of "nat i"] by simp
  with s False show ?thesis by (simp add: show_int_def)
qed (simp add: show_int_def)

lemma parse_literal_int: "num_stop r \<Longrightarrow> parse_literal (show_int i @ r) = Some (JInt i, r)"
proof -
  assume r: "num_stop r"
  obtain c cs where s: "show_int i = c # cs" and c: "is_digit c \<or> c = CHR ''-''"
    using show_int_head by blast
  have "CHR ''n'' \<noteq> c" "CHR ''t'' \<noteq> c" "CHR ''f'' \<noteq> c"
    using c by (auto simp: is_digit_def less_eq_char_def)
  then show ?thesis
    using parse_num_show_int [OF r, of i] s
    by (simp add: parse_literal_def strip_prefix_mismatch)
qed

subsection \<open>Fuel\<close>

lemma parse_num_length: "parse_num s = Some (v, r) \<Longrightarrow> length r < length s"
proof -
  have i: "split_int s1 = Some (i, s2) \<Longrightarrow> length s2 < length s1" for s1 i s2
    by (auto simp: split_int_def length_dropWhile_le le_imp_less_Suc split: list.splits if_splits)
  have f: "split_frac s2 = (f, s3) \<Longrightarrow> length s3 \<le> length s2" for s2 f s3
    by (auto simp: split_frac_def le_SucI length_dropWhile_le split: list.splits if_splits)
  have sg: "split_sign s3 = (g, s4) \<Longrightarrow> length s4 \<le> length s3" for s3 g s4
    by (auto simp: split_sign_def split: list.splits if_splits)
  have e: "split_exp s3 = (e, s4) \<Longrightarrow> length s4 \<le> length s3" for s3 e s4
  proof (cases s3)
    case (Cons c r)
    obtain g r' where g: "split_sign r = (g, r')" by force
    have "length (dropWhile is_digit r') \<le> Suc (length r)"
      using sg [OF g] length_dropWhile_le [of is_digit r'] by linarith
    then show "split_exp s3 = (e, s4) \<Longrightarrow> length s4 \<le> length s3"
      using Cons g by (auto simp: split_exp_def split: if_splits)
  qed (simp add: split_exp_def)
  assume "parse_num s = Some (v, r)"
  then obtain sg s1 i s2 g s3 h where *:
    "(case s of [] \<Rightarrow> ([], s) | c # r \<Rightarrow> if c = CHR ''-'' then (''-'', r) else ([], s)) = (sg, s1)"
    "split_int s1 = Some (i, s2)" "split_frac s2 = (g, s3)" "split_exp s3 = (h, r)"
    by (auto simp: parse_num_def Let_def split: prod.splits option.splits if_splits)
  have "length s1 \<le> length s" using *(1) by (auto split: list.splits if_splits)
  then show ?thesis using i [OF *(2)] f [OF *(3)] e [OF *(4)] by linarith
qed

lemma parse_literal_length: "parse_literal s = Some (v, r) \<Longrightarrow> length r < length s"
  by (auto simp: parse_literal_def split: option.splits dest!: strip_prefix_Some parse_num_length)

lemma parse_str_length: "parse_str s = Some (t, r) \<Longrightarrow> length r < length s"
proof (induction s arbitrary: t rule: parse_str.induct)
  case (2 c s)
  show ?case
  proof (cases "c = backslash")
    case True
    with "2.prems" obtain d r' t' where e: "parse_esc s = Some (d, r')" and p: "parse_str r' = Some (t', r)"
      by (auto split: option.splits)
    have "length r < length r'" using "2.IH"(1) [of "(d, r')"] True e p by auto
    then show ?thesis using parse_esc_length [OF e] by simp
  next
    case False
    show ?thesis
    proof (cases "c = quote")
      case True
      with "2.prems" show ?thesis by simp
    next
      case q: False
      with False "2.prems" obtain t' where "\<not> of_char c < (32::nat)" "parse_str s = Some (t', r)"
        by (auto split: if_splits)
      then show ?thesis using "2.IH"(2) False q by fastforce
    qed
  qed
qed simp

lemma skip_ws_length: "length (skip_ws s) \<le> length s"
  by (simp add: skip_ws_def length_dropWhile_le)

lemma skip_ws_Cons_length: "skip_ws s = c # r \<Longrightarrow> length r < length s"
  using skip_ws_length [of s] by simp

lemma parse_length:
  "parse_value n s = Some (v, r) \<Longrightarrow> length r < length s"
  "parse_elems n s = Some (vs, r) \<Longrightarrow> length r < length s"
  "parse_members n s = Some (kvs, r) \<Longrightarrow> length r < length s"
proof (induction n s and n s and n s arbitrary: v r and vs r and kvs r
    rule: parse_value_parse_elems_parse_members.induct)
  case (2 n s)
  then show ?case
    by (fastforce split: list.splits if_splits dest: parse_str_length parse_literal_length
        skip_ws_Cons_length)
next
  case (4 n s)
  from 4(3) obtain v r1 d r2 where v: "parse_value n s = Some (v, r1)" and d: "skip_ws r1 = d # r2"
    by (auto split: option.splits list.splits)
  have "length r1 < length s" by (rule 4(1) [OF v])
  moreover have "length r2 < length r1" by (rule skip_ws_Cons_length [OF d])
  moreover have "length (skip_ws r2) \<le> length r2" by (rule skip_ws_length)
  ultimately show ?case using 4(3) v d 4(2)
    by (fastforce split: if_splits)
next
  case (6 n s)
  from 6(3) obtain c r0 k r1 d r2 v r3 e r4 where *: "s = c # r0" "c = quote"
    "parse_str r0 = Some (k, r1)" "skip_ws r1 = d # r2" "d = CHR '':''"
    "parse_value n (skip_ws r2) = Some (v, r3)" "skip_ws r3 = e # r4"
    by (auto split: option.splits list.splits if_splits)
  have "length r1 < length r0" by (rule parse_str_length [OF *(3)])
  moreover have "length r2 < length r1" by (rule skip_ws_Cons_length [OF *(4)])
  moreover have "length r3 < length (skip_ws r2)" using 6(1) * by blast
  moreover have "length r4 < length r3" by (rule skip_ws_Cons_length [OF *(7)])
  moreover have "length (skip_ws r2) \<le> length r2" "length (skip_ws r4) \<le> length r4"
    by (rule skip_ws_length)+
  ultimately show ?case using 6(3) * 6(2)
    by (fastforce split: if_splits)
qed simp_all

text \<open>The fuel \<open>json_loads\<close> gives is enough: more never changes the result.\<close>

lemmas parse_simps = parse_value.simps parse_elems.simps parse_members.simps

declare parse_simps [simp del]

definition fuel_ok :: "nat \<Rightarrow> bool" where
  "fuel_ok n \<longleftrightarrow>
     (\<forall>s. 2 * length s + 2 \<le> n \<longrightarrow> parse_value (Suc n) s = parse_value n s) \<and>
     (\<forall>s. 2 * length s + 3 \<le> n \<longrightarrow> parse_elems (Suc n) s = parse_elems n s) \<and>
     (\<forall>s. 2 * length s + 2 \<le> n \<longrightarrow> parse_members (Suc n) s = parse_members n s)"

lemma fuel_value_step:
  assumes "fuel_ok n" "2 * length s + 2 \<le> Suc n"
  shows "parse_value (Suc (Suc n)) s = parse_value (Suc n) s"
proof (cases s)
  case (Cons c r)
  have len: "2 * length (d # r1) + 3 \<le> n" if "skip_ws r = d # r1" for d r1
    using skip_ws_length [of r] that assms(2) Cons by simp
  have "parse_members (Suc n) (d # r1) = parse_members n (d # r1)"
    "parse_elems (Suc n) (d # r1) = parse_elems n (d # r1)" if "skip_ws r = d # r1" for d r1
    using assms(1) len [OF that] unfolding fuel_ok_def by auto
  then show ?thesis using Cons
    by (simp add: parse_value.simps split: list.split)
qed (simp add: parse_value.simps)

lemma fuel_elems_step:
  assumes "fuel_ok n" "2 * length s + 3 \<le> Suc n"
  shows "parse_elems (Suc (Suc n)) s = parse_elems (Suc n) s"
proof -
  have v: "parse_value (Suc n) s = parse_value n s"
    using assms unfolding fuel_ok_def by auto
  have "parse_elems (Suc n) (skip_ws r1) = parse_elems n (skip_ws r1)"
    if "parse_value n s = Some (w, r)" "skip_ws r = d # r1" for w r d r1
  proof -
    have "2 * length (skip_ws r1) + 3 \<le> n"
      using parse_length(1) [OF that(1)] skip_ws_Cons_length [OF that(2)] skip_ws_length [of r1] assms(2)
      by linarith
    then show ?thesis using assms(1) unfolding fuel_ok_def by auto
  qed
  then show ?thesis using v
    by (simp add: parse_elems.simps split: option.split list.split)
qed

lemma fuel_members_step:
  assumes "fuel_ok n" "2 * length s + 2 \<le> Suc n"
  shows "parse_members (Suc (Suc n)) s = parse_members (Suc n) s"
proof (cases s)
  case (Cons c r)
  have v: "parse_value (Suc n) (skip_ws r2) = parse_value n (skip_ws r2)"
    if "parse_str r = Some (k, r1)" "skip_ws r1 = d # r2" for k r1 d r2
    using parse_str_length [OF that(1)] skip_ws_Cons_length [OF that(2)] skip_ws_length [of r2]
      assms Cons unfolding fuel_ok_def by auto
  have m: "parse_members (Suc n) (skip_ws r4) = parse_members n (skip_ws r4)"
    if "parse_str r = Some (k, r1)" "skip_ws r1 = d # r2"
      "parse_value n (skip_ws r2) = Some (w, r3)" "skip_ws r3 = e # r4" for k r1 d r2 w r3 e r4
    using parse_str_length [OF that(1)] skip_ws_Cons_length [OF that(2)] skip_ws_length [of r2]
      parse_length(1) [OF that(3)] skip_ws_Cons_length [OF that(4)] skip_ws_length [of r4]
      assms Cons unfolding fuel_ok_def by auto
  show ?thesis using Cons v m
    by (simp add: parse_members.simps split: option.split list.split)
qed (simp add: parse_members.simps)

lemma fuel_ok: "fuel_ok n"
proof (induction n)
  case (Suc n)
  then show ?case
    using fuel_value_step fuel_elems_step fuel_members_step
    by (subst fuel_ok_def) blast
qed (simp add: fuel_ok_def)

lemma parse_value_enough:
  assumes "2 * length s + 2 \<le> n"
  shows "parse_value n s = parse_value (2 * length s + 2) s"
  using assms
proof (induction n rule: dec_induct)
  case (step m)
  then show ?case using fuel_ok [of m] unfolding fuel_ok_def by metis
qed simp

subsection \<open>Values survive a round trip\<close>

definition float_lit :: "string \<Rightarrow> bool" where
  "float_lit l \<longleftrightarrow> l \<in> {''NaN'', ''Infinity'', ''-Infinity''} \<or> parse_num l = Some (JFloat l, [])"

text \<open>A value as Python builds it: dictionaries have distinct keys, floats are float literals.\<close>

fun wf_json :: "json \<Rightarrow> bool" where
  "wf_json (JFloat l) \<longleftrightarrow> float_lit l"
| "wf_json (JList xs) \<longleftrightarrow> (\<forall>x \<in> set xs. wf_json x)"
| "wf_json (JObj kvs) \<longleftrightarrow> dict_ok kvs \<and> (\<forall>kv \<in> set kvs. wf_json (snd kv))"
| "wf_json _ \<longleftrightarrow> True"

lemma digits_append:
  assumes "num_stop r"
  shows "takeWhile is_digit (u @ r) = takeWhile is_digit u"
    and "dropWhile is_digit (u @ r) = dropWhile is_digit u @ r"
proof -
  have "takeWhile is_digit r = []" "dropWhile is_digit r = r"
    using assms by (auto simp: num_stop_def split: list.splits)
  then show "takeWhile is_digit (u @ r) = takeWhile is_digit u"
    and "dropWhile is_digit (u @ r) = dropWhile is_digit u @ r"
    by (induction u) auto
qed

lemma split_int_append:
  "split_int s = Some (i, t) \<Longrightarrow> num_stop r \<Longrightarrow> split_int (s @ r) = Some (i, t @ r)"
  by (cases s) (auto simp: split_int_def digits_append split: if_splits)

lemma split_frac_append: "split_frac s = (f, t) \<Longrightarrow> num_stop r \<Longrightarrow> split_frac (s @ r) = (f, t @ r)"
proof (cases s)
  case Nil
  assume "split_frac s = (f, t)" "num_stop r"
  then show ?thesis using Nil split_stop [of r] by (simp add: split_frac_def)
next
  case (Cons c u)
  assume "split_frac s = (f, t)" "num_stop r"
  then show ?thesis using Cons by (auto simp: split_frac_def digits_append split: if_splits)
qed

lemma split_sign_append: "split_sign s = (g, t) \<Longrightarrow> num_stop r \<Longrightarrow> split_sign (s @ r) = (g, t @ r)"
  by (cases s; cases r) (auto simp: split_sign_def num_stop_def split: if_splits)

lemma split_exp_append: "split_exp s = (e, t) \<Longrightarrow> num_stop r \<Longrightarrow> split_exp (s @ r) = (e, t @ r)"
proof (cases s)
  case Nil
  assume "split_exp s = (e, t)" "num_stop r"
  then show ?thesis using Nil split_stop [of r] by (simp add: split_exp_def)
next
  case (Cons c u)
  assume a: "split_exp s = (e, t)" "num_stop r"
  obtain g v where g: "split_sign u = (g, v)" by force
  have "split_sign (u @ r) = (g, v @ r)" by (rule split_sign_append [OF g a(2)])
  then show ?thesis using Cons a g by (auto simp: split_exp_def digits_append split: if_splits)
qed

lemma parse_num_append:
  assumes "parse_num l = Some (v, [])" "num_stop r"
  shows "parse_num (l @ r) = Some (v, r)"
proof -
  define sgn where "sgn s = (case s of c # r \<Rightarrow> if c = CHR ''-'' then (''-'', r) else ([], s)
      | [] \<Rightarrow> ([], s))" for s :: string
  obtain sg s1 i s2 f s3 e where *: "sgn l = (sg, s1)" "split_int s1 = Some (i, s2)"
    "split_frac s2 = (f, s3)" "split_exp s3 = (e, [])"
    using assms(1) by (auto simp: parse_num_def sgn_def Let_def split: prod.splits option.splits if_splits)
  have "l \<noteq> []" using *(1,2) by (auto simp: sgn_def split_int_def)
  then have "sgn (l @ r) = (sg, s1 @ r)"
    using *(1) by (cases l) (auto simp: sgn_def split: if_splits)
  moreover have "split_int (s1 @ r) = Some (i, s2 @ r)" "split_frac (s2 @ r) = (f, s3 @ r)"
    "split_exp (s3 @ r) = (e, r)"
    using split_int_append [OF *(2) assms(2)] split_frac_append [OF *(3) assms(2)]
      split_exp_append [OF *(4) assms(2)] by simp_all
  ultimately show ?thesis using assms(1) *
    unfolding parse_num_def sgn_def [symmetric] by (auto simp: Let_def split: if_splits)
qed

text \<open>The first character of a value tells what it is; it is never white space and never
  closes a bracket.\<close>

definition value_head :: "string \<Rightarrow> bool" where
  "value_head s \<longleftrightarrow> (\<exists>c r. s = c # r \<and> \<not> is_ws c \<and> c \<noteq> CHR '']'' \<and> c \<noteq> CHR ''}'')"

definition literal_head :: "string \<Rightarrow> bool" where
  "literal_head s \<longleftrightarrow> (\<exists>c r. s = c # r \<and> \<not> is_ws c \<and> c \<notin> {quote, CHR ''['', CHR '']'', CHR ''{'', CHR ''}''})"

lemma parse_num_head: "parse_num s = Some x \<Longrightarrow> literal_head s"
proof (cases s)
  case (Cons c r)
  assume "parse_num s = Some x"
  then have "c = CHR ''-'' \<or> is_digit c"
    using Cons by (auto simp: parse_num_def split_int_def is_digit_def less_eq_char_def split: if_splits option.splits)
  then show ?thesis using Cons
    by (auto simp: literal_head_def is_digit_def is_ws_def less_eq_char_def)
qed (simp add: parse_num_def split_int_def)

lemma float_lit_head: "float_lit l \<Longrightarrow> literal_head l"
  by (auto simp: float_lit_def dest: parse_num_head) (auto simp: literal_head_def is_ws_def)

lemma show_int_literal_head: "literal_head (show_int i)"
  using show_int_head [of i] by (auto simp: literal_head_def is_digit_def is_ws_def less_eq_char_def)

lemma literal_value_head: "literal_head s \<Longrightarrow> value_head s"
  by (auto simp: literal_head_def value_head_def)

lemma value_head_Cons:
  "value_head (c # r) \<longleftrightarrow> \<not> is_ws c \<and> c \<noteq> CHR '']'' \<and> c \<noteq> CHR ''}''"
  by (simp add: value_head_def)

lemma dumps_head: "wf_json v \<Longrightarrow> value_head (json_dumps v)"
  by (cases v) (auto simp: value_head_Cons is_ws_def dumps_str_def dest: float_lit_head
      intro: literal_value_head show_int_literal_head)

lemma skip_ws_head: "value_head s \<Longrightarrow> skip_ws (s @ r) = s @ r"
  by (auto simp: value_head_def skip_ws_def)

lemma parse_value_literal: "literal_head s \<Longrightarrow> parse_value (Suc n) s = parse_literal s"
  by (auto simp: literal_head_def parse_value.simps)

lemma literal_head_append: "literal_head s \<Longrightarrow> literal_head (s @ r)"
  by (auto simp: literal_head_def)

lemma skip_ws_Cons [simp]: "skip_ws (c # r) = (if is_ws c then skip_ws r else c # r)"
  by (simp add: skip_ws_def)

lemma is_ws_punct [simp]:
  "is_ws CHR '' ''" "\<not> is_ws CHR '',''" "\<not> is_ws CHR '':''" "\<not> is_ws CHR '']''"
  "\<not> is_ws CHR ''}''" "\<not> is_ws quote"
  by (simp_all add: is_ws_def)

lemma parse_literal_float:
  assumes "float_lit l" "num_stop r"
  shows "parse_literal (l @ r) = Some (JFloat l, r)"
proof (cases "parse_num l = Some (JFloat l, [])")
  case True
  then obtain c s where l: "l = c # s" and c: "c = CHR ''-'' \<or> is_digit c"
    by (cases l) (auto simp: parse_num_def split_int_def is_digit_def less_eq_char_def
        split: if_splits option.splits)
  have "CHR ''n'' \<noteq> c" "CHR ''t'' \<noteq> c" "CHR ''f'' \<noteq> c"
    using c by (auto simp: is_digit_def less_eq_char_def)
  then show ?thesis using parse_num_append [OF True assms(2)] l
    by (simp add: parse_literal_def strip_prefix_mismatch)
next
  case False
  have num: "parse_num (''NaN'' @ r) = None" "parse_num (''Infinity'' @ r) = None"
    "parse_num (''-Infinity'' @ r) = None"
    by (simp_all add: parse_num_def split_int_def is_digit_def less_eq_char_def)
  have "l \<in> {''NaN'', ''Infinity'', ''-Infinity''}"
    using False assms(1) by (simp add: float_lit_def)
  then show ?thesis using num
    by (auto simp: parse_literal_def strip_prefix_def)
qed

definition reads :: "json \<Rightarrow> bool" where
  "reads v \<longleftrightarrow> (\<forall>r. num_stop r \<longrightarrow>
     (\<exists>n0. \<forall>n \<ge> n0. parse_value n (json_dumps v @ r) = Some (v, r)))"

lemma reads_literal:
  assumes "literal_head (json_dumps v)" "\<And>r. num_stop r \<Longrightarrow> parse_literal (json_dumps v @ r) = Some (v, r)"
  shows "reads v"
  unfolding reads_def
proof (intro allI impI)
  fix r assume r: "num_stop r"
  have "parse_value n (json_dumps v @ r) = Some (v, r)" if "1 \<le> n" for n
    using that parse_value_literal [OF literal_head_append [OF assms(1)]] assms(2) [OF r]
    by (cases n) auto
  then show "\<exists>n0. \<forall>n \<ge> n0. parse_value n (json_dumps v @ r) = Some (v, r)" by blast
qed

lemma skip_ws_blanks: "\<forall>c \<in> set ws. is_ws c \<Longrightarrow> skip_ws (ws @ s) = skip_ws s"
  by (induction ws) auto

lemma value_head_join:
  "xs \<noteq> [] \<Longrightarrow> value_head (json_dumps (hd xs)) \<Longrightarrow> value_head (join sep (map json_dumps xs))"
  by (cases xs; cases "tl xs") (auto simp: value_head_def)

text \<open>The elements of a list read back whatever blanks follow the commas, so the lemma covers
  the default separators and the compact ones.\<close>

lemma parse_elems_dumps:
  assumes "xs \<noteq> []" "\<And>x. x \<in> set xs \<Longrightarrow> reads x \<and> wf_json x" "\<forall>c \<in> set ws. is_ws c"
  shows "\<exists>n0. \<forall>n \<ge> n0. parse_elems n (join (CHR '','' # ws) (map json_dumps xs) @ CHR '']'' # r) = Some (xs, r)"
  using assms(1,2)
proof (induction xs)
  case (Cons x xs)
  let ?sep = "CHR '','' # ws"
  let ?more = "join ?sep (map json_dumps xs) @ CHR '']'' # r"
  let ?tl = "if xs = [] then CHR '']'' # r else ?sep @ ?more"
  have whole: "join ?sep (map json_dumps (x # xs)) @ CHR '']'' # r = json_dumps x @ ?tl"
    by (cases xs) (simp_all add: join_Cons)
  have "num_stop ?tl" by simp
  then obtain n1 where n1: "\<forall>n \<ge> n1. parse_value n (json_dumps x @ ?tl) = Some (x, ?tl)"
    using Cons.prems(2) [of x] unfolding reads_def by (meson list.set_intros(1))
  show ?case
  proof (cases "xs = []")
    case True
    have "parse_elems n (json_dumps x @ ?tl) = Some ([x], r)" if "Suc n1 \<le> n" for n
      using that n1 True by (cases n) (auto simp: parse_elems.simps)
    then show ?thesis unfolding whole using True by blast
  next
    case False
    then obtain n2 where n2: "\<forall>n \<ge> n2. parse_elems n ?more = Some (xs, r)"
      using Cons by auto
    have "value_head (json_dumps (hd xs))" using Cons.prems(2) False dumps_head by simp
    then have "skip_ws ?more = ?more" using False by (intro skip_ws_head value_head_join)
    then have ws: "skip_ws (ws @ ?more) = ?more" by (simp add: skip_ws_blanks [OF assms(3)])
    have "parse_elems n (json_dumps x @ ?tl) = Some (x # xs, r)" if "Suc (max n1 n2) \<le> n" for n
      using that n1 n2 False ws by (cases n) (auto simp: parse_elems.simps)
    then show ?thesis unfolding whole by blast
  qed
qed simp

abbreviation dumps_member :: "string \<times> json \<Rightarrow> string" where
  "dumps_member \<equiv> \<lambda>kv. dumps_str (fst kv) @ '': '' @ json_dumps (snd kv)"

lemma parse_members_dumps:
  assumes "kvs \<noteq> []" "\<And>kv. kv \<in> set kvs \<Longrightarrow> reads (snd kv) \<and> wf_json (snd kv)"
  shows "\<exists>n0. \<forall>n \<ge> n0. parse_members n (join '', '' (map dumps_member kvs) @ CHR ''}'' # r) = Some (kvs, r)"
  using assms
proof (induction kvs)
  case (Cons kv kvs)
  obtain k v where kv: "kv = (k, v)" by force
  let ?tl = "if kvs = [] then CHR ''}'' # r else '', '' @ join '', '' (map dumps_member kvs) @ CHR ''}'' # r"
  have whole: "join '', '' (map dumps_member (kv # kvs)) @ CHR ''}'' # r
      = quote # concat (map esc_char k) @ quote # '': '' @ json_dumps v @ ?tl"
    using kv by (cases kvs) (simp_all add: join_Cons dumps_str_def)
  have v: "reads v" "wf_json v" using Cons.prems(2) [of kv] kv by auto
  have "num_stop ?tl" by simp
  then obtain n1 where n1: "\<forall>n \<ge> n1. parse_value n (json_dumps v @ ?tl) = Some (v, ?tl)"
    using v unfolding reads_def by meson
  have ws: "skip_ws (json_dumps v @ ?tl) = json_dumps v @ ?tl"
    by (rule skip_ws_head [OF dumps_head [OF v(2)]])
  show ?case
  proof (cases "kvs = []")
    case True
    have "parse_members n (quote # concat (map esc_char k) @ quote # '': '' @ json_dumps v @ ?tl)
        = Some ([(k, v)], r)" if "Suc n1 \<le> n" for n
      using that n1 ws True by (cases n) (auto simp: parse_members.simps parse_dumps_str)
    then show ?thesis unfolding whole using True kv by blast
  next
    case False
    then obtain n2 where n2: "\<forall>n \<ge> n2. parse_members n (join '', '' (map dumps_member kvs) @ CHR ''}'' # r) = Some (kvs, r)"
      using Cons by auto
    have "value_head (join '', '' (map dumps_member kvs))"
      using False by (cases kvs; cases "tl kvs") (auto simp: value_head_Cons dumps_str_def)
    then have ws': "skip_ws (join '', '' (map dumps_member kvs) @ CHR ''}'' # r)
        = join '', '' (map dumps_member kvs) @ CHR ''}'' # r" by (rule skip_ws_head)
    have "parse_members n (quote # concat (map esc_char k) @ quote # '': '' @ json_dumps v @ ?tl)
        = Some ((k, v) # kvs, r)" if "Suc (max n1 n2) \<le> n" for n
      using that n1 n2 ws ws' False by (cases n) (auto simp: parse_members.simps parse_dumps_str)
    then show ?thesis unfolding whole using kv by blast
  qed
qed simp

lemma dict_put_fresh: "k \<notin> fst ` set d \<Longrightarrow> dict_put k v d = d @ [(k, v)]"
  by (induction d) auto

lemma dict_of_aux:
  "distinct (map fst (d @ kvs)) \<Longrightarrow> fold (\<lambda>kv d. dict_put (fst kv) (snd kv) d) kvs d = d @ kvs"
  by (induction kvs arbitrary: d) (auto simp: dict_put_fresh)

lemma dict_of_ok: "dict_ok kvs \<Longrightarrow> dict_of kvs = kvs"
  using dict_of_aux [of "[]" kvs] by (simp add: dict_of_def dict_ok_def)

lemma parse_list_text:
  assumes "\<And>x. x \<in> set xs \<Longrightarrow> reads x \<and> wf_json x" "\<forall>c \<in> set ws. is_ws c"
  shows "\<exists>n0. \<forall>n \<ge> n0. parse_value n (''['' @ join (CHR '','' # ws) (map json_dumps xs) @ CHR '']'' # r) = Some (JList xs, r)"
proof (cases "xs = []")
  case True
  have "parse_value n (''['' @ join (CHR '','' # ws) (map json_dumps xs) @ CHR '']'' # r) = Some (JList xs, r)" if "1 \<le> n" for n
    using that True by (cases n) (auto simp: parse_value.simps)
  then show ?thesis by blast
next
  case False
  let ?elems = "join (CHR '','' # ws) (map json_dumps xs)"
  obtain n1 where n1: "\<forall>n \<ge> n1. parse_elems n (?elems @ CHR '']'' # r) = Some (xs, r)"
    using parse_elems_dumps [OF False] assms by blast
  have "value_head (json_dumps (hd xs))" using assms(1) False dumps_head by simp
  then have "value_head ?elems" using False by (intro value_head_join)
  then obtain c s where c: "?elems = c # s" "\<not> is_ws c" "c \<noteq> CHR '']''"
    by (auto simp: value_head_def)
  have "parse_value n (''['' @ ?elems @ CHR '']'' # r) = Some (JList xs, r)" if "Suc n1 \<le> n" for n
    using that c n1 by (cases n) (auto simp: parse_value.simps)
  then show ?thesis by blast
qed

lemma reads_list:
  assumes "\<And>x. x \<in> set xs \<Longrightarrow> reads x \<and> wf_json x"
  shows "reads (JList xs)"
  unfolding reads_def
proof (intro allI impI)
  fix r
  have "\<forall>c \<in> set '' ''. is_ws c" by (simp add: is_ws_def)
  from parse_list_text [OF assms this]
  show "\<exists>n0. \<forall>n \<ge> n0. parse_value n (json_dumps (JList xs) @ r) = Some (JList xs, r)"
    by simp
qed

lemma reads_obj:
  assumes "dict_ok kvs" "\<And>kv. kv \<in> set kvs \<Longrightarrow> reads (snd kv) \<and> wf_json (snd kv)"
  shows "reads (JObj kvs)"
  unfolding reads_def
proof (intro allI impI)
  fix r assume "num_stop r"
  show "\<exists>n0. \<forall>n \<ge> n0. parse_value n (json_dumps (JObj kvs) @ r) = Some (JObj kvs, r)"
  proof (cases "kvs = []")
    case True
    have "parse_value n (json_dumps (JObj kvs) @ r) = Some (JObj kvs, r)" if "1 \<le> n" for n
      using that True by (cases n) (auto simp: parse_value.simps)
    then show ?thesis by blast
  next
    case False
    obtain n1 where n1: "\<forall>n \<ge> n1. parse_members n (join '', '' (map dumps_member kvs) @ CHR ''}'' # r) = Some (kvs, r)"
      using parse_members_dumps [OF False] assms(2) by blast
    obtain s where c: "join '', '' (map dumps_member kvs) = quote # s"
      using False by (cases kvs; cases "tl kvs") (auto simp: dumps_str_def)
    have "parse_value n (json_dumps (JObj kvs) @ r) = Some (JObj kvs, r)" if "Suc n1 \<le> n" for n
      using that c n1 dict_of_ok [OF assms(1)] by (cases n) (auto simp: parse_value.simps)
    then show ?thesis by blast
  qed
qed

lemma reads_str: "reads (JStr s)"
  unfolding reads_def
proof (intro allI impI exI)
  fix r n assume "Suc 0 \<le> n"
  then show "parse_value n (json_dumps (JStr s) @ r) = Some (JStr s, r)"
    by (cases n) (simp_all add: parse_value.simps dumps_str_def parse_dumps_str)
qed

lemma reads_constants: "reads JNull" "reads (JBool b)"
  by (rule reads_literal; auto simp: literal_head_def is_ws_def parse_literal_def strip_prefix_def)+

lemma wf_json_reads: "wf_json v \<Longrightarrow> reads v"
proof (induction v)
  case (JObj kvs)
  have "reads (snd kv) \<and> wf_json (snd kv)" if "kv \<in> set kvs" for kv
    using JObj.IH [OF that, of "snd kv"] JObj.prems that by (cases kv) auto
  then show ?case using JObj.prems by (intro reads_obj) auto
next
  case (JList xs)
  then show ?case by (intro reads_list) auto
next
  case (JInt i)
  show ?case by (rule reads_literal) (simp_all add: show_int_literal_head parse_literal_int)
next
  case (JFloat l)
  then show ?case by (intro reads_literal) (simp_all add: float_lit_head parse_literal_float)
qed (simp_all add: reads_constants reads_str)

lemma json_loads_text:
  assumes "\<exists>n0. \<forall>n \<ge> n0. parse_value n s = Some (v, [])" "skip_ws s = s"
  shows "json_loads s = Some v"
proof -
  obtain n0 where "\<forall>n \<ge> n0. parse_value n s = Some (v, [])" using assms(1) by blast
  then have "parse_value (max n0 (2 * length s + 2)) s = Some (v, [])" by simp
  then have "parse_value (2 * length s + 2) s = Some (v, [])"
    using parse_value_enough [of s "max n0 (2 * length s + 2)"] by simp
  then show ?thesis using assms(2) by (simp add: json_loads_def skip_ws_def)
qed

theorem json_round_trip: "wf_json v \<Longrightarrow> json_loads (json_dumps v) = Some v"
proof (rule json_loads_text)
  assume wf: "wf_json v"
  have "\<exists>n0. \<forall>n \<ge> n0. parse_value n (json_dumps v @ []) = Some (v, [])"
    using wf_json_reads [OF wf] unfolding reads_def by (meson num_stop_simps(1))
  then show "\<exists>n0. \<forall>n \<ge> n0. parse_value n (json_dumps v) = Some (v, [])" by simp
  show "skip_ws (json_dumps v) = json_dumps v"
    using skip_ws_head [OF dumps_head [OF wf], of "[]"] by simp
qed

text \<open>\<open>json.dumps(xs, separators=(",", ":"))\<close> of a list of scalars.\<close>

definition json_dumps_compact :: "json list \<Rightarrow> string" where
  "json_dumps_compact xs = ''['' @ join '','' (map json_dumps xs) @ '']''"

lemma json_compact_round_trip:
  assumes "\<And>x. x \<in> set xs \<Longrightarrow> wf_json x"
  shows "json_loads (json_dumps_compact xs) = Some (JList xs)"
proof (rule json_loads_text)
  have "\<And>x. x \<in> set xs \<Longrightarrow> reads x \<and> wf_json x" using assms wf_json_reads by blast
  from parse_list_text [of xs "[]" "[]", OF this]
  show "\<exists>n0. \<forall>n \<ge> n0. parse_value n (json_dumps_compact xs) = Some (JList xs, [])"
    by (simp add: json_dumps_compact_def)
  show "skip_ws (json_dumps_compact xs) = json_dumps_compact xs"
    by (simp add: json_dumps_compact_def is_ws_def)
qed

lemma map_fst_sort: "map fst (sort_key fst xs) = sort (map fst (xs :: (string \<times> 'a) list))"
proof -
  have "sorted (map fst (sort_key fst xs))" by simp
  moreover have "mset (map fst (sort_key fst xs)) = mset (map fst xs)"
    by (metis mset_map mset_sort)
  ultimately show ?thesis by (metis properties_for_sort)
qed

lemma wf_sort_json: "wf_json v \<Longrightarrow> wf_json (sort_json v)"
proof (induction v)
  case (JObj kvs)
  have "distinct (map fst kvs)" using JObj.prems by (simp add: dict_ok_def)
  then have "distinct (map fst (map (\<lambda>kv. (fst kv, sort_json (snd kv))) kvs))"
    by (simp add: comp_def)
  then have "dict_ok (sort_key fst (map (\<lambda>kv. (fst kv, sort_json (snd kv))) kvs))"
    unfolding dict_ok_def map_fst_sort by simp
  moreover have "wf_json (sort_json (snd kv))" if "kv \<in> set kvs" for kv
    using JObj that by (cases kv) auto
  ultimately show ?case by auto
qed auto

lemma json_round_trip_sorted: "wf_json v \<Longrightarrow> json_loads (json_dumps_sorted v) = Some (sort_json v)"
  by (simp add: json_dumps_sorted_def json_round_trip wf_sort_json)

lemma dict_get_sort:
  assumes "dict_ok kvs"
  shows "dict_get (sort_key fst kvs) k = dict_get kvs (k :: string)"
proof -
  have "distinct (map fst (sort_key fst kvs))"
    using assms by (simp add: map_fst_sort dict_ok_def)
  then have "map_of (sort_key fst kvs) = map_of kvs"
    using assms by (simp add: map_of_inject_set dict_ok_def)
  then show ?thesis by simp
qed

lemma sort_json_flat:
  assumes "dict_ok kvs" "\<forall>kv \<in> set kvs. sort_json (snd kv) = snd kv"
  shows "sort_json (JObj kvs) = JObj (sort_key fst kvs)"
proof -
  have "map (\<lambda>kv. (fst kv, sort_json (snd kv))) kvs = kvs"
    using assms(2) by (induction kvs) auto
  then show ?thesis by simp
qed

subsection \<open>What the reader returns is well formed\<close>

lemma split_int_lexeme:
  assumes "split_int s = Some (i, t)"
  shows "s = i @ t" and "i \<noteq> []"
    and "(case u of [] \<Rightarrow> True | c # _ \<Rightarrow> \<not> is_digit c) \<Longrightarrow> split_int (i @ u) = Some (i, u)"
proof -
  obtain c r where s: "s = c # r" using assms by (cases s) (auto simp: split_int_def)
  show "s = i @ t" "i \<noteq> []" using assms s by (auto simp: split_int_def split: if_splits)
  assume u: "case u of [] \<Rightarrow> True | c # _ \<Rightarrow> \<not> is_digit c"
  have tw: "takeWhile is_digit u = []" "dropWhile is_digit u = u"
    using u by (auto split: list.splits)
  show "split_int (i @ u) = Some (i, u)"
  proof (cases "c = CHR ''0''")
    case True
    then show ?thesis using assms s by (auto simp: split_int_def)
  next
    case False
    then have c: "is_digit c" "i = c # takeWhile is_digit r"
      using assms s by (auto simp: split_int_def split: if_splits)
    have "takeWhile is_digit (takeWhile is_digit r @ u) = takeWhile is_digit r"
      "dropWhile is_digit (takeWhile is_digit r @ u) = u"
      using tw by (auto simp: takeWhile_append dropWhile_append dest: set_takeWhileD)
    then show ?thesis using c False by (simp add: split_int_def)
  qed
qed

lemma split_frac_lexeme:
  assumes "split_frac s = (f, t)"
  shows "s = f @ t"
    and "(case u of [] \<Rightarrow> True | c # _ \<Rightarrow> \<not> is_digit c) \<Longrightarrow> f \<noteq> [] \<Longrightarrow> split_frac (f @ u) = (f, u)"
    and "case f of [] \<Rightarrow> True | c # _ \<Rightarrow> \<not> is_digit c"
proof -
  show "s = f @ t" "case f of [] \<Rightarrow> True | c # _ \<Rightarrow> \<not> is_digit c"
    using assms by (auto simp: split_frac_def is_digit_def less_eq_char_def split: list.splits if_splits)
  assume u: "case u of [] \<Rightarrow> True | c # _ \<Rightarrow> \<not> is_digit c" and f: "f \<noteq> []"
  have tw: "takeWhile is_digit u = []" "dropWhile is_digit u = u"
    using u by (auto split: list.splits)
  obtain r where r: "s = CHR ''.'' # r" "f = CHR ''.'' # takeWhile is_digit r" "takeWhile is_digit r \<noteq> []"
    using assms f by (auto simp: split_frac_def split: list.splits if_splits)
  have "takeWhile is_digit (takeWhile is_digit r @ u) = takeWhile is_digit r"
    "dropWhile is_digit (takeWhile is_digit r @ u) = u"
    using tw by (auto simp: takeWhile_append dropWhile_append dest: set_takeWhileD)
  then show "split_frac (f @ u) = (f, u)" using r by (simp add: split_frac_def)
qed

lemma split_sign_lexeme:
  assumes "split_sign s = (g, t)"
  shows "s = g @ t" and "(case t of [] \<Rightarrow> True | c # _ \<Rightarrow> c \<noteq> CHR ''-'' \<and> c \<noteq> CHR ''+'') \<or> g \<noteq> []"
    and "(case u of [] \<Rightarrow> True | c # _ \<Rightarrow> c \<noteq> CHR ''-'' \<and> c \<noteq> CHR ''+'') \<or> g \<noteq> [] \<Longrightarrow> split_sign (g @ u) = (g, u)"
  using assms by (auto simp: split_sign_def split: list.splits if_splits)

lemma split_exp_lexeme:
  assumes "split_exp s = (e, t)"
  shows "s = e @ t" and "split_exp e = (e, [])" and "case e of [] \<Rightarrow> True | c # _ \<Rightarrow> \<not> is_digit c \<and> c \<noteq> CHR ''.''"
proof -
  consider (no) "e = []" "t = s" | (yes) c r g r' where "s = c # r" "c = CHR ''e'' \<or> c = CHR ''E''"
    "split_sign r = (g, r')" "takeWhile is_digit r' \<noteq> []" "e = c # g @ takeWhile is_digit r'"
    "t = dropWhile is_digit r'"
    using assms by (auto simp: split_exp_def split: list.splits if_splits prod.splits)
  then have "s = e @ t \<and> split_exp e = (e, []) \<and> (case e of [] \<Rightarrow> True | c # _ \<Rightarrow> \<not> is_digit c \<and> c \<noteq> CHR ''.'')"
  proof cases
    case no
    then show ?thesis by (simp add: split_exp_def)
  next
    case yes
    obtain d ds where d: "takeWhile is_digit r' = d # ds" "is_digit d"
      using yes(4) by (cases r') (auto split: if_splits)
    have "d \<noteq> CHR ''-''" "d \<noteq> CHR ''+''" using d(2) by (auto simp: is_digit_def less_eq_char_def)
    then have "split_sign (g @ takeWhile is_digit r') = (g, takeWhile is_digit r')"
      using split_sign_lexeme(3) [OF yes(3), of "takeWhile is_digit r'"] d by simp
    moreover have "takeWhile is_digit (takeWhile is_digit r') = takeWhile is_digit r'"
      "dropWhile is_digit (takeWhile is_digit r') = []"
      by (simp_all add: takeWhile_eq_all_conv dropWhile_eq_Nil_conv) (auto dest: set_takeWhileD)
    ultimately show ?thesis
      using yes split_sign_lexeme(1) [OF yes(3)]
      by (auto simp: split_exp_def is_digit_def less_eq_char_def)
  qed
  then show "s = e @ t" "split_exp e = (e, [])"
    "case e of [] \<Rightarrow> True | c # _ \<Rightarrow> \<not> is_digit c \<and> c \<noteq> CHR ''.''" by auto
qed

lemma parse_num_lexeme:
  assumes "parse_num s = Some (JFloat l, r)"
  shows "parse_num l = Some (JFloat l, [])"
proof -
  define sgn where "sgn s = (case s of c # r \<Rightarrow> if c = CHR ''-'' then (''-'', r) else ([], s)
      | [] \<Rightarrow> ([], s))" for s :: string
  obtain sg s1 i s2 f s3 e where *: "sgn s = (sg, s1)" "split_int s1 = Some (i, s2)"
    "split_frac s2 = (f, s3)" "split_exp s3 = (e, r)" "l = sg @ i @ f @ e" "f \<noteq> [] \<or> e \<noteq> []"
    using assms by (auto simp: parse_num_def sgn_def Let_def split: prod.splits option.splits if_splits)
  note fr = split_frac_lexeme [OF *(3)] and ex = split_exp_lexeme [OF *(4)]
  have fe: "case f @ e of [] \<Rightarrow> True | c # _ \<Rightarrow> \<not> is_digit c"
    using fr(3) ex(3) by (cases f; cases e) auto
  have "split_frac (f @ e) = (f, e)"
  proof (cases "f = []")
    case True
    then show ?thesis using ex(3) by (cases e) (auto simp: split_frac_def)
  next
    case False
    then show ?thesis using fr(2) [of e] ex(3) by (cases e) auto
  qed
  moreover have "split_int (i @ f @ e) = Some (i, f @ e)"
    by (rule split_int_lexeme(3) [OF *(2) fe])
  moreover have "sgn l = (sg, i @ f @ e)"
  proof (cases "sg = []")
    case True
    then have "s = s1" "case s of [] \<Rightarrow> True | c # _ \<Rightarrow> c \<noteq> CHR ''-''"
      using *(1) by (auto simp: sgn_def split: list.splits if_splits)
    then show ?thesis
      using True *(5) split_int_lexeme(1,2) [OF *(2)] by (cases i) (auto simp: sgn_def)
  next
    case False
    then have "sg = ''-''" using *(1) by (auto simp: sgn_def split: list.splits if_splits)
    then show ?thesis using *(5) by (simp add: sgn_def)
  qed
  ultimately show ?thesis using *(5,6) ex(2)
    unfolding parse_num_def sgn_def [symmetric] by (auto simp: Let_def)
qed

lemma parse_literal_wf: "parse_literal s = Some (v, r) \<Longrightarrow> wf_json v"
proof -
  have num: "parse_num s = Some (v, r) \<Longrightarrow> wf_json v"
    using parse_num_lexeme [of s _ r]
    by (cases v) (auto simp: float_lit_def parse_num_def Let_def split: option.splits prod.splits if_splits)
  assume "parse_literal s = Some (v, r)"
  then show ?thesis using num
    by (auto simp: parse_literal_def float_lit_def split: option.splits)
qed

lemma dict_of_wf_aux:
  "dict_ok d \<Longrightarrow> dict_ok (fold (\<lambda>kv d. dict_put (fst kv) (snd kv) d) kvs d) \<and>
   set (fold (\<lambda>kv d. dict_put (fst kv) (snd kv) d) kvs d) \<subseteq> set d \<union> set kvs"
proof (induction kvs arbitrary: d)
  case (Cons kv kvs)
  have "set (dict_put (fst kv) (snd kv) d) \<subseteq> insert kv (set d)"
    by (induction d) auto
  then show ?case using Cons.IH [OF dict_ok_put [OF Cons.prems]] by auto
qed simp

lemma dict_of_wf: "dict_ok (dict_of kvs)" "set (dict_of kvs) \<subseteq> set kvs"
  using dict_of_wf_aux [of "[]" kvs] by (simp_all add: dict_of_def)

lemma parse_wf:
  "(\<forall>s v r. parse_value n s = Some (v, r) \<longrightarrow> wf_json v) \<and>
   (\<forall>s vs r. parse_elems n s = Some (vs, r) \<longrightarrow> (\<forall>v \<in> set vs. wf_json v)) \<and>
   (\<forall>s kvs r. parse_members n s = Some (kvs, r) \<longrightarrow> (\<forall>kv \<in> set kvs. wf_json (snd kv)))"
proof (induction n)
  case (Suc n)
  have v: "wf_json v" if "parse_value (Suc n) s = Some (v, r)" for s v r
    using that Suc dict_of_wf parse_literal_wf
    by (fastforce simp: parse_value.simps split: list.splits if_splits)
  have e: "\<forall>v \<in> set vs. wf_json v" if "parse_elems (Suc n) s = Some (vs, r)" for s vs r
    using that Suc by (fastforce simp: parse_elems.simps split: list.splits if_splits option.splits)
  have m: "\<forall>kv \<in> set kvs. wf_json (snd kv)" if "parse_members (Suc n) s = Some (kvs, r)" for s kvs r
    using that Suc by (fastforce simp: parse_members.simps split: list.splits if_splits option.splits)
  show ?case using v e m by blast
qed (simp add: parse_simps)

lemma json_loads_wf: "json_loads s = Some v \<Longrightarrow> wf_json v"
proof -
  assume "json_loads s = Some v"
  then obtain r where "parse_value (2 * length s + 2) (skip_ws s) = Some (v, r)"
    by (auto simp: json_loads_def split: option.splits if_splits)
  then show ?thesis using parse_wf by blast
qed

text \<open>A string inside a parsed object is shorter than the text it was read from: the reason
  the unwrapping of nested envelopes ends.\<close>

lemma parse_str_shorter: "parse_str s = Some (t, r) \<Longrightarrow> length t + length r < length s"
proof (induction s arbitrary: t rule: parse_str.induct)
  case (2 c s)
  consider (q) "c = quote" | (b) "c = backslash" "c \<noteq> quote" | (o) "c \<noteq> quote" "c \<noteq> backslash" by blast
  then show ?case
  proof cases
    case q
    then show ?thesis using "2.prems" by auto
  next
    case b
    with "2.prems" obtain d r' t' where e: "parse_esc s = Some (d, r')" and p: "parse_str r' = Some (t', r)"
      and t: "t = d # t'" by (auto split: option.splits)
    have "length t' + length r < length r'" using "2.IH"(1) [of "(d, r')"] b e p by auto
    then show ?thesis using parse_esc_length [OF e] t by simp
  next
    case o
    with "2.prems" obtain t' where "\<not> of_char c < (32::nat)" "parse_str s = Some (t', r)" "t = c # t'"
      by (auto split: if_splits)
    then show ?thesis using "2.IH"(2) [of t'] o by fastforce
  qed
qed simp

lemma parse_value_str_shorter:
  "parse_value n s = Some (JStr t, r) \<Longrightarrow> length t < length s"
  by (cases n; cases s) (auto simp: parse_value.simps parse_literal_def parse_num_def Let_def
      split: if_splits list.splits option.splits prod.splits dest: parse_str_shorter)

lemma parse_members_str_shorter:
  "parse_members n s = Some (kvs, r) \<Longrightarrow> (k, JStr t) \<in> set kvs \<Longrightarrow> length t < length s"
proof (induction n arbitrary: s kvs r)
  case (Suc n)
  from Suc.prems(1) obtain c r0 k1 r1 d r2 v r3 e r4 where *: "s = c # r0"
    "parse_str r0 = Some (k1, r1)" "skip_ws r1 = d # r2"
    "parse_value n (skip_ws r2) = Some (v, r3)" "skip_ws r3 = e # r4"
    "kvs = [(k1, v)] \<or> (\<exists>ks r5. kvs = (k1, v) # ks \<and> parse_members n (skip_ws r4) = Some (ks, r5))"
    by (auto simp: parse_members.simps split: option.splits list.splits if_splits)
  have len: "length (skip_ws r2) < length s" "length (skip_ws r4) < length s"
    using parse_str_length [OF *(2)] skip_ws_Cons_length [OF *(3)] parse_length(1) [OF *(4)]
      skip_ws_Cons_length [OF *(5)] skip_ws_length [of r2] skip_ws_length [of r4] *(1) by auto
  show ?case
  proof (cases "(k, JStr t) = (k1, v)")
    case True
    then show ?thesis using parse_value_str_shorter *(4) len(1) by fastforce
  next
    case False
    then obtain ks r5 where "kvs = (k1, v) # ks" "parse_members n (skip_ws r4) = Some (ks, r5)"
      using *(6) Suc.prems(2) by auto
    then show ?thesis using Suc.IH [of "skip_ws r4" ks r5] Suc.prems(2) False len(2) by auto
  qed
qed (simp add: parse_simps)

lemma json_loads_member_shorter:
  assumes "json_loads s = Some (JObj kvs)" "dict_get kvs k = Some (JStr t)"
  shows "length t < length s"
proof -
  obtain n r where p: "parse_value n (skip_ws s) = Some (JObj kvs, r)"
    using assms(1) by (auto simp: json_loads_def split: option.splits if_splits)
  have mem: "(k, JStr t) \<in> set kvs" using assms(2) by (rule map_of_SomeD)
  obtain m c r0 d r1 kvs' where "n = Suc m" "skip_ws s = c # r0" "skip_ws r0 = d # r1"
    and m: "parse_members m (d # r1) = Some (kvs', r)" and "kvs = dict_of kvs'"
    using p mem by (cases n) (auto simp: parse_value.simps parse_literal_def parse_num_def Let_def
      split: if_splits list.splits option.splits prod.splits)
  then have "length t < length (d # r1)"
    using parse_members_str_shorter [OF m] mem dict_of_wf(2) by blast
  also have "\<dots> \<le> length s"
    using skip_ws_length [of r0] skip_ws_length [of s] \<open>skip_ws s = c # r0\<close> \<open>skip_ws r0 = d # r1\<close>
    by simp
  finally show ?thesis .
qed

text \<open>Truth of a JSON value. A float is written with a digit other than zero before its exponent
  unless it is zero; literals so small that they round to zero are left aside.\<close>

definition truthy :: "json \<Rightarrow> bool" where
  "truthy v = (case v of JNull \<Rightarrow> False | JBool b \<Rightarrow> b | JInt i \<Rightarrow> i \<noteq> 0 | JStr t \<Rightarrow> t \<noteq> [] | JList xs \<Rightarrow> xs \<noteq> [] | JObj kvs \<Rightarrow> kvs \<noteq> []
     | JFloat l \<Rightarrow> \<exists>c \<in> set (takeWhile (\<lambda>c. c \<noteq> CHR ''e'' \<and> c \<noteq> CHR ''E'') l). c \<notin> set ''-0.'')"

end
