(* ===== verification/AssetTypes.thy ===== *)
theory AssetTypes
  imports Json PyText
begin

text \<open>
  The four kinds of project assets and their shared name space: \<open>lib/asset_types.py\<close>, and the
  operations of \<open>lib/project_manager.py\<close> that add, merge, delete and rename assets inside one
  project document.

  Two names are the same asset name when they agree after stripping blanks and Unicode NFC. NFC
  is \<open>unicodedata.normalize\<close>, an argument \<open>nfc\<close> of the definitions. The Chinese display labels
  of the specifications and the wording of error messages are left out; which exception is
  raised is kept. A project document is a JSON object.
\<close>

subsection \<open>Specifications\<close>

record asset_spec =
  sp_asset_type :: string
  sp_bucket_key :: string
  sp_sheet_field :: string
  sp_subdir :: string
  sp_namespace_priority :: nat
  sp_reference_list_fields :: "string list"
  sp_extra_string_fields :: "string list"
  sp_extra_list_fields :: "string list"
  sp_agent_editable_extra_fields :: "string list"
  sp_in_global_library :: bool

definition character_spec :: asset_spec where
  "character_spec = \<lparr>sp_asset_type = ''character'', sp_bucket_key = ''characters'', sp_sheet_field = ''character_sheet'',
     sp_subdir = ''characters'', sp_namespace_priority = 0,
     sp_reference_list_fields = [''characters_in_segment'', ''characters_in_scene'', ''characters_in_shot''],
     sp_extra_string_fields = [''voice_style'', ''reference_image'', ''reference_audio'', ''voice_notice_dismissed_at''],
     sp_extra_list_fields = [], sp_agent_editable_extra_fields = [''voice_style''], sp_in_global_library = True\<rparr>"

definition scene_spec :: asset_spec where
  "scene_spec = \<lparr>sp_asset_type = ''scene'', sp_bucket_key = ''scenes'', sp_sheet_field = ''scene_sheet'',
     sp_subdir = ''scenes'', sp_namespace_priority = 1, sp_reference_list_fields = [''scenes''],
     sp_extra_string_fields = [], sp_extra_list_fields = [], sp_agent_editable_extra_fields = [], sp_in_global_library = True\<rparr>"

definition prop_spec :: asset_spec where
  "prop_spec = \<lparr>sp_asset_type = ''prop'', sp_bucket_key = ''props'', sp_sheet_field = ''prop_sheet'',
     sp_subdir = ''props'', sp_namespace_priority = 2, sp_reference_list_fields = [''props''],
     sp_extra_string_fields = [], sp_extra_list_fields = [], sp_agent_editable_extra_fields = [], sp_in_global_library = True\<rparr>"

definition product_spec :: asset_spec where
  "product_spec = \<lparr>sp_asset_type = ''product'', sp_bucket_key = ''products'', sp_sheet_field = ''product_sheet'',
     sp_subdir = ''products'', sp_namespace_priority = 3, sp_reference_list_fields = [''products_in_shot''],
     sp_extra_string_fields = [''brand''], sp_extra_list_fields = [''reference_images'', ''selling_points''],
     sp_agent_editable_extra_fields = [''selling_points''], sp_in_global_library = False\<rparr>"

definition ASSET_SPECS :: "(string \<times> asset_spec) list" where
  "ASSET_SPECS = [(''character'', character_spec), (''scene'', scene_spec), (''prop'', prop_spec), (''product'', product_spec)]"

definition ASSET_TYPES :: "string list" where
  "ASSET_TYPES = map fst ASSET_SPECS"

definition BUCKET_KEY :: "(string \<times> string) list" where
  "BUCKET_KEY = map (\<lambda>(t, s). (t, sp_bucket_key s)) ASSET_SPECS"

definition SHEET_KEY :: "(string \<times> string) list" where
  "SHEET_KEY = map (\<lambda>(t, s). (t, sp_sheet_field s)) ASSET_SPECS"

definition GLOBAL_LIBRARY_ASSET_TYPES :: "string list" where
  "GLOBAL_LIBRARY_ASSET_TYPES = map fst (filter (\<lambda>(t, s). sp_in_global_library s) ASSET_SPECS)"

record name_match =
  nm_asset_type :: string
  nm_bucket_key :: string
  nm_name :: string

definition ILLEGAL_ASSET_NAME_CHARS :: "char list" where
  "ILLEGAL_ASSET_NAME_CHARS = [CHR ''/'', CHR 0x5C, CHR 0x00, CHR '':'', CHR ''*'', CHR ''?'', CHR 0x22, CHR ''<'', CHR ''>'', CHR ''|'', CHR '']'']"

definition WINDOWS_RESERVED_BASENAMES :: "string list" where
  "WINDOWS_RESERVED_BASENAMES = [''CON'', ''PRN'', ''AUX'', ''NUL'']
     @ map (\<lambda>i. ''COM'' @ show_nat i) [1..<10] @ map (\<lambda>i. ''LPT'' @ show_nat i) [1..<10]"

definition localize_asset_type :: "string \<Rightarrow> (string \<Rightarrow> string) \<Rightarrow> string" where
  "localize_asset_type v translate = (if v \<in> set (map fst ASSET_SPECS) then translate (''asset_type_'' @ v) else v)"

subsection \<open>Names\<close>

definition normalize_asset_name :: "(string \<Rightarrow> string) \<Rightarrow> string \<Rightarrow> string" where
  "normalize_asset_name nfc name = nfc name"

definition asset_name_comparison_key :: "(string \<Rightarrow> string) \<Rightarrow> string \<Rightarrow> string" where
  "asset_name_comparison_key nfc name = normalize_asset_name nfc (strip name)"

definition validate_asset_name :: "(string \<Rightarrow> string) \<Rightarrow> json \<Rightarrow> string res" where
  "validate_asset_name nfc name =
     (case name of JStr raw \<Rightarrow>
        (let cleaned = normalize_asset_name nfc (strip raw) in
         if cleaned = [] then Inl (ValueError ''asset name is blank'')
         else if is_infix ''..'' cleaned \<or> (\<exists>c \<in> set ILLEGAL_ASSET_NAME_CHARS. c \<in> set cleaned)
             \<or> (\<exists>c \<in> set cleaned. of_char c < (32::nat) \<or> of_char c = (127::nat))
           then Inl (ValueError ''asset name has illegal characters'')
         else if last cleaned = CHR ''.'' then Inl (ValueError ''asset name ends in a dot'')
         else if map upper_char (takeWhile (\<lambda>c. c \<noteq> CHR ''.'') cleaned) \<in> set WINDOWS_RESERVED_BASENAMES
           then Inl (ValueError ''asset name is reserved on Windows'')
         else Inr cleaned)
      | _ \<Rightarrow> Inl (ValueError ''asset name must be a string''))"

subsection \<open>The shared name space\<close>

text \<open>A bucket that is missing or no object counts as empty.\<close>

definition asset_bucket :: "json \<Rightarrow> string \<Rightarrow> (string \<times> json) list" where
  "asset_bucket project bk = (case project of JObj kvs \<Rightarrow> (case dict_get kvs bk of Some (JObj b) \<Rightarrow> b | _ \<Rightarrow> []) | _ \<Rightarrow> [])"

definition sorted_specs :: "asset_spec list" where
  "sorted_specs = sort_key sp_namespace_priority (map snd ASSET_SPECS)"

text \<open>The entries the two nested loops visit, in their order.\<close>

definition project_entries :: "json \<Rightarrow> name_match list" where
  "project_entries project = concat (map (\<lambda>s. map (\<lambda>kv.
     \<lparr>nm_asset_type = sp_asset_type s, nm_bucket_key = sp_bucket_key s, nm_name = fst kv\<rparr>) (asset_bucket project (sp_bucket_key s))) sorted_specs)"

definition find_project_asset_name ::
  "(string \<Rightarrow> string) \<Rightarrow> json \<Rightarrow> string \<Rightarrow> string option \<Rightarrow> string option \<Rightarrow> name_match option" where
  "find_project_asset_name nfc project name exclude_asset_type exclude_name =
     find (\<lambda>m. \<not> (Some (nm_asset_type m) = exclude_asset_type \<and> Some (nm_name m) = exclude_name)
        \<and> asset_name_comparison_key nfc (nm_name m) = asset_name_comparison_key nfc name) (project_entries project)"

definition ensure_project_asset_name_available ::
  "(string \<Rightarrow> string) \<Rightarrow> json \<Rightarrow> string \<Rightarrow> string option \<Rightarrow> string option \<Rightarrow> unit res" where
  "ensure_project_asset_name_available nfc project name exclude_asset_type exclude_name =
     (case find_project_asset_name nfc project name exclude_asset_type exclude_name of
        None \<Rightarrow> Inr () | Some m \<Rightarrow> Inl (ValueError ''asset name conflict''))"

fun conflicts_loop ::
  "(string \<Rightarrow> string) \<Rightarrow> name_match list \<Rightarrow> (string \<times> name_match) list \<Rightarrow> (name_match \<times> name_match) list" where
  "conflicts_loop nfc [] firsts = []"
| "conflicts_loop nfc (m # ms) firsts =
     (let key = asset_name_comparison_key nfc (nm_name m) in
      case dict_get firsts key of
        None \<Rightarrow> conflicts_loop nfc ms (dict_put key m firsts)
      | Some first \<Rightarrow> (first, m) # conflicts_loop nfc ms firsts)"

definition project_asset_name_conflicts :: "(string \<Rightarrow> string) \<Rightarrow> json \<Rightarrow> (name_match \<times> name_match) list" where
  "project_asset_name_conflicts nfc project = conflicts_loop nfc (project_entries project) []"

definition ensure_project_asset_namespace :: "(string \<Rightarrow> string) \<Rightarrow> json \<Rightarrow> unit res" where
  "ensure_project_asset_namespace nfc project =
     (if project_asset_name_conflicts nfc project = [] then Inr () else Inl (ValueError ''asset name conflict''))"

definition normalize_asset_bucket :: "(string \<Rightarrow> string) \<Rightarrow> json \<Rightarrow> (string \<times> json) list" where
  "normalize_asset_bucket nfc bucket =
     (case bucket of JObj kvs \<Rightarrow> dict_of (map (\<lambda>kv. (normalize_asset_name nfc (fst kv), snd kv)) kvs) | _ \<Rightarrow> [])"

definition resolve_asset_key :: "(string \<Rightarrow> string) \<Rightarrow> json \<Rightarrow> string \<Rightarrow> string option" where
  "resolve_asset_key nfc bucket name =
     (case bucket of JObj kvs \<Rightarrow>
        fold (\<lambda>kv found. if normalize_asset_name nfc (fst kv) = normalize_asset_name nfc name then Some (fst kv) else found) kvs None
      | _ \<Rightarrow> None)"

definition rekey_equivalent_entries ::
  "(string \<Rightarrow> string) \<Rightarrow> (string \<times> json) list \<Rightarrow> string \<Rightarrow> string \<Rightarrow> (string \<times> json) list \<times> json option" where
  "rekey_equivalent_entries nfc bucket old_name new_name =
     (if resolve_asset_key nfc (JObj bucket) old_name = None then (bucket, None)
      else let rekeyed = dict_of (map (\<lambda>kv.
             (if normalize_asset_name nfc (fst kv) = normalize_asset_name nfc old_name then new_name else fst kv, snd kv)) bucket)
           in (rekeyed, dict_get rekeyed new_name))"

subsection \<open>Writing assets into a project document\<close>

type_synonym doc = "(string \<times> json) list"

text \<open>\<open>d.get(k)\<close>.\<close>

definition jget :: "string \<Rightarrow> doc \<Rightarrow> json" where
  "jget k d = dict_get_default d k JNull"

definition resolve_asset_type :: "string \<Rightarrow> string res" where
  "resolve_asset_type table =
     (case find (\<lambda>(t, s). sp_bucket_key s = table) ASSET_SPECS of
        Some (t, s) \<Rightarrow> Inr t | None \<Rightarrow> Inl (ValueError ''unknown asset table''))"

definition LEGACY_ASSET_FIELDS :: "string list" where
  "LEGACY_ASSET_FIELDS = [''type'', ''importance'']"

definition strip_legacy_asset_fields :: "doc \<Rightarrow> doc" where
  "strip_legacy_asset_fields attrs = filter (\<lambda>kv. fst kv \<notin> set LEGACY_ASSET_FIELDS) attrs"

definition asset_spec_of :: "string \<Rightarrow> asset_spec res" where
  "asset_spec_of t = (case dict_get ASSET_SPECS t of Some s \<Rightarrow> Inr s | None \<Rightarrow> Inl (KeyError t))"

definition build_asset_entry :: "asset_spec \<Rightarrow> json \<Rightarrow> doc \<Rightarrow> doc" where
  "build_asset_entry spec description source =
     (let entry = dict_put (sp_sheet_field spec) (dict_get_default source (sp_sheet_field spec) (JStr []))
            [(''description'', description)];
          entry = fold (\<lambda>f e. dict_put f (dict_get_default source f (JStr [])) e) (sp_extra_string_fields spec) entry
      in fold (\<lambda>f e. dict_put f (case dict_get source f of None \<Rightarrow> JList [] | Some JNull \<Rightarrow> JList [] | Some v \<Rightarrow> v) e)
           (sp_extra_list_fields spec) entry)"

text \<open>\<open>bucket = project.setdefault(key, {})\<close> and \<open>bucket[name] = entry\<close>.\<close>

definition setdefault_bucket :: "string \<Rightarrow> doc \<Rightarrow> doc" where
  "setdefault_bucket bk project = (case dict_get project bk of None \<Rightarrow> dict_put bk (JObj []) project | Some v \<Rightarrow> project)"

definition put_in_bucket :: "string \<Rightarrow> string \<Rightarrow> json \<Rightarrow> doc \<Rightarrow> doc res" where
  "put_in_bucket bk name entry project =
     (case dict_get project bk of Some (JObj b) \<Rightarrow> Inr (dict_put bk (JObj (dict_put name entry b)) project)
      | _ \<Rightarrow> Inl (TypeError ''bucket does not support item assignment''))"

text \<open>One turn of the mutation shared by \<open>_add_asset\<close> and \<open>_add_assets_batch\<close>.\<close>

definition add_one :: "(string \<Rightarrow> string) \<Rightarrow> asset_spec \<Rightarrow> string \<Rightarrow> json \<Rightarrow> doc \<Rightarrow> (doc \<times> bool) res" where
  "add_one nfc spec name entry project =
     (let bk = sp_bucket_key spec; bucket = (case dict_get project bk of Some b \<Rightarrow> b | None \<Rightarrow> JNull) in
      if resolve_asset_key nfc bucket name \<noteq> None then Inr (project, False)
      else bind_res (ensure_project_asset_name_available nfc (JObj project) name None None) (\<lambda>_.
        bind_res (put_in_bucket bk name entry project) (\<lambda>p. Inr (p, True))))"

definition add_asset :: "(string \<Rightarrow> string) \<Rightarrow> string \<Rightarrow> json \<Rightarrow> json \<Rightarrow> doc \<Rightarrow> (doc \<times> bool) res" where
  "add_asset nfc asset_type name entry project =
     bind_res (validate_asset_name nfc name) (\<lambda>clean.
       bind_res (asset_spec_of asset_type) (\<lambda>spec.
         add_one nfc spec clean entry (setdefault_bucket (sp_bucket_key spec) project)))"

fun normalize_entries :: "(string \<Rightarrow> string) \<Rightarrow> doc \<Rightarrow> doc \<Rightarrow> doc res" where
  "normalize_entries nfc [] acc = Inr acc"
| "normalize_entries nfc ((raw, entry) # es) acc =
     bind_res (validate_asset_name nfc (JStr raw)) (\<lambda>name.
       if name \<in> fst ` set acc then Inl (ValueError ''colliding names'')
       else normalize_entries nfc es (dict_put name entry acc))"

fun add_all :: "(string \<Rightarrow> string) \<Rightarrow> asset_spec \<Rightarrow> doc \<Rightarrow> doc \<Rightarrow> nat \<Rightarrow> (doc \<times> nat) res" where
  "add_all nfc spec [] project added = Inr (project, added)"
| "add_all nfc spec ((name, entry) # es) project added =
     bind_res (add_one nfc spec name entry project) (\<lambda>(p, b). add_all nfc spec es p (if b then added + 1 else added))"

definition add_assets_batch :: "(string \<Rightarrow> string) \<Rightarrow> string \<Rightarrow> doc \<Rightarrow> doc \<Rightarrow> (doc \<times> nat) res" where
  "add_assets_batch nfc asset_type entries project =
     bind_res (asset_spec_of asset_type) (\<lambda>spec.
       bind_res (normalize_entries nfc entries []) (\<lambda>es.
         if es = [] then Inr (project, 0)
         else add_all nfc spec es (setdefault_bucket (sp_bucket_key spec) project) 0))"

record upsert_report =
  ur_added :: "string list"
  ur_merged :: "string list"
  ur_noop :: "string list"
  ur_dropped_fields :: "(string \<times> string list) list"
  ur_dropped_legacy :: "(string \<times> string list) list"

fun normalize_upserts :: "(string \<Rightarrow> string) \<Rightarrow> doc \<Rightarrow> (string \<times> doc) list \<Rightarrow> (string \<times> doc) list res" where
  "normalize_upserts nfc [] acc = Inr acc"
| "normalize_upserts nfc ((raw, attrs) # es) acc =
     bind_res (validate_asset_name nfc (JStr raw)) (\<lambda>name.
       case attrs of JObj kvs \<Rightarrow>
         if name \<in> fst ` set acc then Inl (ValueError ''colliding names'')
         else normalize_upserts nfc es (dict_put name kvs acc)
       | _ \<Rightarrow> Inl (ValueError ''attributes must be an object''))"

definition allowed_fields :: "asset_spec \<Rightarrow> string list" where
  "allowed_fields spec = ''description'' # sp_agent_editable_extra_fields spec"

definition upsert_clean :: "asset_spec \<Rightarrow> doc \<Rightarrow> doc" where
  "upsert_clean spec attrs = filter (\<lambda>kv. fst kv \<in> set (allowed_fields spec)) (strip_legacy_asset_fields attrs)"

definition dropped_fields_of :: "asset_spec \<Rightarrow> doc \<Rightarrow> string list" where
  "dropped_fields_of spec attrs =
     sort (map fst (filter (\<lambda>kv. fst kv \<notin> set (allowed_fields spec)) (strip_legacy_asset_fields attrs)))"

definition dropped_legacy_of :: "doc \<Rightarrow> string list" where
  "dropped_legacy_of attrs = sort (map fst (filter (\<lambda>kv. fst kv \<in> set LEGACY_ASSET_FIELDS) attrs))"

text \<open>One turn of the loop over the cleaned entries.\<close>

definition upsert_one :: "(string \<Rightarrow> string) \<Rightarrow> asset_spec \<Rightarrow> string \<Rightarrow> doc \<Rightarrow> doc \<Rightarrow> upsert_report \<Rightarrow> (doc \<times> upsert_report) res" where
  "upsert_one nfc spec name attrs project rep =
     (let m = find_project_asset_name nfc (JObj project) name None None;
          bk = sp_bucket_key spec;
          key = (case m of Some n \<Rightarrow> nm_name n | None \<Rightarrow> name) in
      if (case m of Some n \<Rightarrow> nm_asset_type n \<noteq> sp_asset_type spec | None \<Rightarrow> False) then Inl (ValueError ''asset name conflict'')
      else case dict_get (asset_bucket (JObj project) bk) key of
        Some (JObj old) \<Rightarrow>
          if attrs = [] then Inr (project, rep\<lparr>ur_noop := ur_noop rep @ [name]\<rparr>)
          else bind_res (put_in_bucket bk key (JObj (fold (\<lambda>kv d. dict_put (fst kv) (snd kv) d) attrs old)) project)
            (\<lambda>p. Inr (p, rep\<lparr>ur_merged := ur_merged rep @ [name]\<rparr>))
      | _ \<Rightarrow> bind_res (put_in_bucket bk key (JObj (build_asset_entry spec (dict_get_default attrs ''description'' (JStr [])) attrs)) project)
            (\<lambda>p. Inr (p, rep\<lparr>ur_added := ur_added rep @ [name]\<rparr>)))"

fun upsert_loop :: "(string \<Rightarrow> string) \<Rightarrow> asset_spec \<Rightarrow> (string \<times> doc) list \<Rightarrow> doc \<Rightarrow> upsert_report \<Rightarrow> (doc \<times> upsert_report) res" where
  "upsert_loop nfc spec [] project rep = Inr (project, rep)"
| "upsert_loop nfc spec ((name, attrs) # es) project rep =
     bind_res (upsert_one nfc spec name attrs project rep) (\<lambda>(p, r). upsert_loop nfc spec es p r)"

text \<open>The structural validation of a project document is the argument \<open>errors\<close>.\<close>

definition upsert_mutate ::
  "(string \<Rightarrow> string) \<Rightarrow> (json \<Rightarrow> string list) \<Rightarrow> asset_spec \<Rightarrow> (string \<times> doc) list \<Rightarrow> upsert_report \<Rightarrow> doc \<Rightarrow> (doc \<times> upsert_report) res" where
  "upsert_mutate nfc errors spec cleaned rep project =
     (let p = setdefault_bucket (sp_bucket_key spec) project in
      case dict_get p (sp_bucket_key spec) of
        Some (JObj b) \<Rightarrow> bind_res (upsert_loop nfc spec cleaned p rep) (\<lambda>(q, r).
          if set (errors (JObj q)) \<subseteq> set (errors (JObj project)) then Inr (q, r)
          else Inl (ValueError ''project structure validation failed''))
      | _ \<Rightarrow> Inl (ValueError ''bucket must be an object''))"

definition upsert_assets ::
  "(string \<Rightarrow> string) \<Rightarrow> (json \<Rightarrow> string list) \<Rightarrow> string \<Rightarrow> json \<Rightarrow> doc \<Rightarrow> (doc \<times> upsert_report) res" where
  "upsert_assets nfc errors table entries project =
     bind_res (resolve_asset_type table) (\<lambda>asset_type.
       case entries of
         JObj [] \<Rightarrow> Inl (ValueError ''entries must not be empty'')
       | JObj es \<Rightarrow>
           bind_res (normalize_upserts nfc es []) (\<lambda>named. bind_res (asset_spec_of asset_type) (\<lambda>spec.
             upsert_mutate nfc errors spec (map (\<lambda>(n, a). (n, upsert_clean spec a)) named)
               \<lparr>ur_added = [], ur_merged = [], ur_noop = [],
                ur_dropped_fields = filter (\<lambda>x. snd x \<noteq> []) (map (\<lambda>(n, a). (n, dropped_fields_of spec a)) named),
                ur_dropped_legacy = filter (\<lambda>x. snd x \<noteq> []) (map (\<lambda>(n, a). (n, dropped_legacy_of a)) named)\<rparr> project))
       | _ \<Rightarrow> Inl (ValueError ''entries must be an object''))"

definition delete_asset :: "(string \<Rightarrow> string) \<Rightarrow> string \<Rightarrow> string \<Rightarrow> doc \<Rightarrow> (doc \<times> string) res" where
  "delete_asset nfc table name project =
     bind_res (resolve_asset_type table) (\<lambda>asset_type. bind_res (asset_spec_of asset_type) (\<lambda>spec.
       case dict_get project (sp_bucket_key spec) of
         Some (JObj b) \<Rightarrow>
           (case resolve_asset_key nfc (JObj b) name of
              Some key \<Rightarrow> Inr (dict_put (sp_bucket_key spec) (JObj (dict_del key b)) project, key)
            | None \<Rightarrow> Inl (KeyError name))
       | _ \<Rightarrow> Inl (KeyError name)))"

text \<open>What a cascading rename does to the project document. The rewriting of the paths inside the
  entry is the argument \<open>rewrite\<close>; the guards are the ones before any file is touched.\<close>

definition renamed_bucket :: "(string \<Rightarrow> string) \<Rightarrow> (json \<Rightarrow> json) \<Rightarrow> (string \<times> json) list \<Rightarrow> string \<Rightarrow> string \<Rightarrow> (string \<times> json) list" where
  "renamed_bucket nfc rewrite b old_key new_clean =
     (case rekey_equivalent_entries nfc b old_key new_clean of
        (r, Some (JObj e)) \<Rightarrow> dict_put new_clean (rewrite (JObj e)) r
      | (r, _) \<Rightarrow> r)"

definition rename_entry ::
  "(string \<Rightarrow> string) \<Rightarrow> (string \<Rightarrow> string \<Rightarrow> json \<Rightarrow> json) \<Rightarrow> string \<Rightarrow> string \<Rightarrow> json \<Rightarrow> doc \<Rightarrow> (doc \<times> string) res" where
  "rename_entry nfc rewrite table old_name new_name project =
     bind_res (resolve_asset_type table) (\<lambda>asset_type. bind_res (asset_spec_of asset_type) (\<lambda>spec.
       bind_res (validate_asset_name nfc new_name) (\<lambda>new_clean.
         case dict_get project (sp_bucket_key spec) of
           Some (JObj b) \<Rightarrow>
             (case resolve_asset_key nfc (JObj b) old_name of
                None \<Rightarrow> Inl (KeyError old_name)
              | Some old_key \<Rightarrow>
                  if resolve_asset_key nfc (JObj b) new_clean \<notin> {None, Some old_key} then Inl (ValueError ''rename conflict'')
                  else bind_res (ensure_project_asset_name_available nfc (JObj project) new_clean (Some asset_type) (Some old_key)) (\<lambda>_.
                    Inr (dict_put (sp_bucket_key spec) (JObj (renamed_bucket nfc (rewrite old_key new_clean) b old_key new_clean)) project, old_key)))
         | _ \<Rightarrow> Inl (KeyError old_name))))"

text \<open>The canonical save sequence of \<open>update_project\<close>: the name space is checked before and after the
  mutation. The schema version decides whether it is checked at all.\<close>

definition apply_project_mutation ::
  "(string \<Rightarrow> string) \<Rightarrow> (doc \<Rightarrow> bool) \<Rightarrow> (doc \<Rightarrow> (doc \<times> 'r) res) \<Rightarrow> doc \<Rightarrow> (doc \<times> 'r) res" where
  "apply_project_mutation nfc required mutate project =
     (let guard = (\<lambda>p. if required p then ensure_project_asset_namespace nfc (JObj p) else Inr ()) in
      bind_res (guard project) (\<lambda>_. bind_res (mutate project) (\<lambda>(p, r). bind_res (guard p) (\<lambda>_. Inr (p, r)))))"

subsection \<open>The name space as an invariant\<close>

definition keys_in :: "(string \<Rightarrow> string) \<Rightarrow> doc \<Rightarrow> string \<Rightarrow> string list" where
  "keys_in nfc project bk = map (\<lambda>kv. asset_name_comparison_key nfc (fst kv)) (asset_bucket (JObj project) bk)"

definition bucket_keys :: "string list" where
  "bucket_keys = [''characters'', ''scenes'', ''props'', ''products'']"

definition namespace_ok :: "(string \<Rightarrow> string) \<Rightarrow> doc \<Rightarrow> bool" where
  "namespace_ok nfc project \<longleftrightarrow> distinct (concat (map (keys_in nfc project) bucket_keys))"

lemmas spec_defs = character_spec_def scene_spec_def prop_spec_def product_spec_def

lemma sorted_specs_eval: "sorted_specs = [character_spec, scene_spec, prop_spec, product_spec]"
  by (simp add: sorted_specs_def ASSET_SPECS_def spec_defs)

lemma entries_keys:
  "map (\<lambda>m. asset_name_comparison_key nfc (nm_name m)) (project_entries (JObj project))
     = concat (map (keys_in nfc project) bucket_keys)"
  by (simp add: project_entries_def sorted_specs_eval bucket_keys_def keys_in_def spec_defs)

lemma conflicts_loop_Nil:
  "conflicts_loop nfc ms firsts = [] \<longleftrightarrow>
     distinct (map (\<lambda>m. asset_name_comparison_key nfc (nm_name m)) ms)
     \<and> fst ` set firsts \<inter> (\<lambda>m. asset_name_comparison_key nfc (nm_name m)) ` set ms = {}"
proof (induction ms arbitrary: firsts)
  case (Cons m ms)
  show ?case
  proof (cases "dict_get firsts (asset_name_comparison_key nfc (nm_name m))")
    case None
    then have "asset_name_comparison_key nfc (nm_name m) \<notin> fst ` set firsts" by (simp add: map_of_eq_None_iff)
    then show ?thesis using Cons None by (auto simp: Let_def dom_update)
  next
    case (Some f)
    then have "asset_name_comparison_key nfc (nm_name m) \<in> fst ` set firsts"
      by (metis map_of_eq_None_iff option.distinct(1))
    then show ?thesis using Some by (auto simp: Let_def)
  qed
qed simp

lemma ensure_namespace_iff: "ensure_project_asset_namespace nfc (JObj project) = Inr () \<longleftrightarrow> namespace_ok nfc project"
  by (simp add: ensure_project_asset_namespace_def project_asset_name_conflicts_def conflicts_loop_Nil namespace_ok_def entries_keys)

lemma find_name_None:
  "find_project_asset_name nfc (JObj project) name None None = None \<longleftrightarrow>
     asset_name_comparison_key nfc name \<notin> set (concat (map (keys_in nfc project) bucket_keys))"
  unfolding entries_keys [symmetric] by (fastforce simp: find_project_asset_name_def find_None_iff image_iff)

text \<open>Changing one bucket keeps the name space when the new keys are distinct and foreign to the
  other buckets.\<close>

lemma distinct_replace:
  assumes "distinct (concat (map g bs))" "distinct bs" "\<And>b. b \<in> set bs \<Longrightarrow> b \<noteq> k \<Longrightarrow> g' b = g b"
    "distinct (g' k)" "\<And>b. b \<in> set bs \<Longrightarrow> b \<noteq> k \<Longrightarrow> set (g' k) \<inter> set (g b) = {}"
  shows "distinct (concat (map g' bs))"
  using assms
proof (induction bs)
  case (Cons b bs)
  have same: "map g' bs = map g bs" if "b = k" using Cons.prems(2,3) that by auto
  have rest: "distinct (concat (map g' bs))" using Cons by auto
  have "set (g' b) \<inter> set (g' c) = {}" if "c \<in> set bs" for c
  proof (cases "b = k")
    case True
    then have "c \<noteq> k" using Cons.prems(2) that by auto
    then show ?thesis using True Cons.prems(3,5) that by auto
  next
    case False
    show ?thesis
    proof (cases "c = k")
      case True
      then show ?thesis using False Cons.prems(3,5) by (metis Int_commute list.set_intros(1))
    next
      case neq: False
      then show ?thesis using False Cons.prems(1,3) that by auto
    qed
  qed
  moreover have "distinct (g' b)" using Cons.prems by (cases "b = k") auto
  ultimately show ?case using rest by auto
qed simp

lemma asset_bucket_put:
  "asset_bucket (JObj (dict_put bk (JObj b) project)) bk' = (if bk' = bk then b else asset_bucket (JObj project) bk')"
  by (simp add: asset_bucket_def update_conv')

lemma namespace_replace:
  assumes "namespace_ok nfc project" "distinct (map (\<lambda>kv. asset_name_comparison_key nfc (fst kv)) b)"
    "\<And>bk' k. bk' \<in> set bucket_keys \<Longrightarrow> bk' \<noteq> bk \<Longrightarrow> k \<in> fst ` set b \<Longrightarrow> asset_name_comparison_key nfc k \<notin> set (keys_in nfc project bk')"
  shows "namespace_ok nfc (dict_put bk (JObj b) project)"
  unfolding namespace_ok_def
proof (rule distinct_replace [where g = "keys_in nfc project" and k = bk])
  show "distinct (concat (map (keys_in nfc project) bucket_keys))" using assms(1) by (simp add: namespace_ok_def)
  show "distinct bucket_keys" by (simp add: bucket_keys_def)
  show "distinct (keys_in nfc (dict_put bk (JObj b) project) bk)" using assms(2) by (simp add: keys_in_def asset_bucket_put)
  show "set (keys_in nfc (dict_put bk (JObj b) project) bk) \<inter> set (keys_in nfc project bk') = {}"
    if "bk' \<in> set bucket_keys" "bk' \<noteq> bk" for bk'
    using assms(3) [OF that] by (auto simp: keys_in_def asset_bucket_put)
qed (simp add: keys_in_def asset_bucket_put)

lemma namespace_buckets:
  assumes "namespace_ok nfc project"
  shows "bk \<in> set bucket_keys \<Longrightarrow> distinct (keys_in nfc project bk)"
    "bk \<in> set bucket_keys \<Longrightarrow> bk' \<in> set bucket_keys \<Longrightarrow> bk \<noteq> bk' \<Longrightarrow> set (keys_in nfc project bk) \<inter> set (keys_in nfc project bk') = {}"
  using assms by (auto simp: namespace_ok_def bucket_keys_def)

lemma spec_bucket: "asset_spec_of t = Inr spec \<Longrightarrow> sp_bucket_key spec \<in> set bucket_keys \<and> spec \<in> set sorted_specs"
  by (auto simp: asset_spec_of_def ASSET_SPECS_def bucket_keys_def sorted_specs_eval spec_defs split: if_splits option.splits)

lemma asset_bucket_setdefault: "asset_bucket (JObj (setdefault_bucket bk p)) bk' = asset_bucket (JObj p) bk'"
  by (auto simp: setdefault_bucket_def asset_bucket_put split: option.split) (simp add: asset_bucket_def)

lemma namespace_setdefault: "namespace_ok nfc (setdefault_bucket bk p) \<longleftrightarrow> namespace_ok nfc p"
proof -
  have "keys_in nfc (setdefault_bucket bk p) = keys_in nfc p"
    by (rule ext) (simp add: keys_in_def asset_bucket_setdefault)
  then show ?thesis by (simp add: namespace_ok_def)
qed

lemma put_in_bucket_Inr:
  "put_in_bucket bk name entry p = Inr p' \<Longrightarrow> p' = dict_put bk (JObj (dict_put name entry (asset_bucket (JObj p) bk))) p"
  by (auto simp: put_in_bucket_def asset_bucket_def split: option.splits json.splits)

lemma namespace_put_known:
  assumes "namespace_ok nfc p" "bk \<in> set bucket_keys" "name \<in> fst ` set (asset_bucket (JObj p) bk)" "put_in_bucket bk name entry p = Inr p'"
  shows "namespace_ok nfc p'"
proof -
  let ?b = "dict_put name entry (asset_bucket (JObj p) bk)"
  have "map fst ?b = map fst (asset_bucket (JObj p) bk)" by (rule keys_put_mem [OF assms(3)])
  then have keys: "map (\<lambda>kv. asset_name_comparison_key nfc (fst kv)) ?b = keys_in nfc p bk" "fst ` set ?b = fst ` set (asset_bucket (JObj p) bk)"
    unfolding keys_in_def by (metis (mono_tags, lifting) list.map_comp comp_apply map_eq_conv, metis list.set_map)
  have "namespace_ok nfc (dict_put bk (JObj ?b) p)"
  proof (rule namespace_replace [OF assms(1)])
    show "distinct (map (\<lambda>kv. asset_name_comparison_key nfc (fst kv)) ?b)" using keys namespace_buckets(1) [OF assms(1,2)] by simp
    show "asset_name_comparison_key nfc k \<notin> set (keys_in nfc p bk')" if "bk' \<in> set bucket_keys" "bk' \<noteq> bk" "k \<in> fst ` set ?b" for bk' k
      using namespace_buckets(2) [OF assms(1,2) that(1)] that(2,3) unfolding keys by (auto simp: keys_in_def)
  qed
  then show ?thesis using put_in_bucket_Inr [OF assms(4)] by simp
qed

lemma namespace_put_new:
  assumes "namespace_ok nfc p" "bk \<in> set bucket_keys" "find_project_asset_name nfc (JObj p) name None None = None" "put_in_bucket bk name entry p = Inr p'"
  shows "namespace_ok nfc p'"
proof -
  have new: "asset_name_comparison_key nfc name \<notin> set (keys_in nfc p bk')" if "bk' \<in> set bucket_keys" for bk'
    using assms(3) that unfolding find_name_None by auto
  then have "name \<notin> fst ` set (asset_bucket (JObj p) bk)" using assms(2) by (auto simp: keys_in_def)
  then have b: "dict_put name entry (asset_bucket (JObj p) bk) = asset_bucket (JObj p) bk @ [(name, entry)]" by (rule dict_put_fresh)
  have "namespace_ok nfc (dict_put bk (JObj (asset_bucket (JObj p) bk @ [(name, entry)])) p)"
  proof (rule namespace_replace [OF assms(1)])
    show "distinct (map (\<lambda>kv. asset_name_comparison_key nfc (fst kv)) (asset_bucket (JObj p) bk @ [(name, entry)]))"
      using new [OF assms(2)] namespace_buckets(1) [OF assms(1,2)] by (simp add: keys_in_def)
    show "asset_name_comparison_key nfc k \<notin> set (keys_in nfc p bk')"
      if "bk' \<in> set bucket_keys" "bk' \<noteq> bk" "k \<in> fst ` set (asset_bucket (JObj p) bk @ [(name, entry)])" for bk' k
      using namespace_buckets(2) [OF assms(1,2) that(1)] that(2,3) new [OF that(1)] by (auto simp: keys_in_def)
  qed
  then show ?thesis using put_in_bucket_Inr [OF assms(4)] b by simp
qed

lemma add_one_namespace:
  assumes "namespace_ok nfc p" "sp_bucket_key spec \<in> set bucket_keys" "add_one nfc spec name entry p = Inr (p', b)"
  shows "namespace_ok nfc p'"
  using assms namespace_put_new [OF assms(1,2)]
  by (auto simp: add_one_def Let_def bind_res_Inr_iff ensure_project_asset_name_available_def split: if_splits option.splits)

lemma add_all_namespace:
  "namespace_ok nfc p \<Longrightarrow> sp_bucket_key spec \<in> set bucket_keys \<Longrightarrow> add_all nfc spec es p n = Inr (p', m) \<Longrightarrow> namespace_ok nfc p'"
  by (induction nfc spec es p n rule: add_all.induct) (auto simp: bind_res_Inr_iff dest: add_one_namespace)

lemma find_name_Some:
  assumes "find_project_asset_name nfc (JObj p) name None None = Some n" "nm_asset_type n = sp_asset_type spec" "spec \<in> set sorted_specs"
  shows "nm_name n \<in> fst ` set (asset_bucket (JObj p) (sp_bucket_key spec))"
proof -
  have "n \<in> set (project_entries (JObj p))" using assms(1) by (auto simp: find_project_asset_name_def dest: find_SomeD)
  then show ?thesis using assms(2,3) by (auto simp: project_entries_def sorted_specs_eval spec_defs intro: rev_image_eqI)
qed

lemma upsert_one_namespace:
  assumes "namespace_ok nfc p" "spec \<in> set sorted_specs" "sp_bucket_key spec \<in> set bucket_keys" "upsert_one nfc spec name attrs p rep = Inr (p', rep')"
  shows "namespace_ok nfc p'"
proof (cases "find_project_asset_name nfc (JObj p) name None None")
  case None
  then show ?thesis using assms(1,4) namespace_put_new [OF assms(1,3) None]
    by (auto simp: upsert_one_def Let_def bind_res_Inr_iff split: if_splits option.splits json.splits)
next
  case (Some n)
  then show ?thesis using assms(1,4) namespace_put_known [OF assms(1,3) find_name_Some [OF Some _ assms(2)]]
    by (auto simp: upsert_one_def Let_def bind_res_Inr_iff split: if_splits option.splits json.splits)
qed

lemma upsert_loop_namespace:
  "namespace_ok nfc p \<Longrightarrow> spec \<in> set sorted_specs \<Longrightarrow> sp_bucket_key spec \<in> set bucket_keys \<Longrightarrow>
   upsert_loop nfc spec es p rep = Inr (p', rep') \<Longrightarrow> namespace_ok nfc p'"
  by (induction nfc spec es p rep rule: upsert_loop.induct) (auto simp: bind_res_Inr_iff dest: upsert_one_namespace)

lemma dict_of_keys_aux: "fst ` set (fold (\<lambda>kv d. dict_put (fst kv) (snd kv) d) kvs d) = fst ` set d \<union> fst ` set kvs"
  by (induction kvs arbitrary: d) (auto simp: dom_update)

lemma dict_of_keys: "fst ` set (dict_of kvs) = fst ` set kvs"
  by (simp add: dict_of_def dict_of_keys_aux)

lemma spec_table:
  "asset_spec_of t = Inr spec \<Longrightarrow> sp_asset_type spec = t"
  "bk \<in> set bucket_keys \<Longrightarrow> \<exists>s \<in> set sorted_specs. sp_bucket_key s = bk"
  "\<forall>s \<in> set sorted_specs. \<forall>s' \<in> set sorted_specs. sp_asset_type s = sp_asset_type s' \<longleftrightarrow> sp_bucket_key s = sp_bucket_key s'"
proof -
  show "asset_spec_of t = Inr spec \<Longrightarrow> sp_asset_type spec = t"
    by (auto simp: asset_spec_of_def ASSET_SPECS_def spec_defs split: if_splits option.splits)
  show "bk \<in> set bucket_keys \<Longrightarrow> \<exists>s \<in> set sorted_specs. sp_bucket_key s = bk"
    by (auto simp: bucket_keys_def sorted_specs_eval spec_defs)
  show "\<forall>s \<in> set sorted_specs. \<forall>s' \<in> set sorted_specs. sp_asset_type s = sp_asset_type s' \<longleftrightarrow> sp_bucket_key s = sp_bucket_key s'"
    by (simp add: sorted_specs_eval spec_defs)
qed

lemma entry_of_key:
  assumes "asset_spec_of t = Inr spec" "bk \<in> set bucket_keys" "k \<in> fst ` set (asset_bucket (JObj p) bk)"
  shows "\<exists>m \<in> set (project_entries (JObj p)). nm_name m = k \<and> (nm_asset_type m = t \<longleftrightarrow> bk = sp_bucket_key spec)"
proof -
  obtain s where s: "s \<in> set sorted_specs" "sp_bucket_key s = bk" using spec_table(2) [OF assms(2)] by blast
  then have ty: "sp_asset_type s = t \<longleftrightarrow> bk = sp_bucket_key spec"
    using spec_table(1) [OF assms(1)] spec_table(3) [rule_format, OF s(1), of spec] spec_bucket [OF assms(1)] by auto
  obtain kv where "kv \<in> set (asset_bucket (JObj p) bk)" "fst kv = k" using assms(3) by blast
  then have "\<lparr>nm_asset_type = sp_asset_type s, nm_bucket_key = sp_bucket_key s, nm_name = k\<rparr> \<in> set (project_entries (JObj p))"
    using s(1,2) by (auto simp: project_entries_def)
  then show ?thesis using ty by (intro bexI) auto
qed

lemma available_excluding:
  assumes "asset_spec_of t = Inr spec" "ensure_project_asset_name_available nfc (JObj p) name (Some t) (Some old) = Inr u"
    "bk \<in> set bucket_keys" "k \<in> fst ` set (asset_bucket (JObj p) bk)" "bk \<noteq> sp_bucket_key spec \<or> k \<noteq> old"
  shows "asset_name_comparison_key nfc k \<noteq> asset_name_comparison_key nfc name"
proof -
  obtain m where m: "m \<in> set (project_entries (JObj p))" "nm_name m = k" "nm_asset_type m = t \<longleftrightarrow> bk = sp_bucket_key spec"
    using entry_of_key [OF assms(1,3,4)] by blast
  moreover have "\<forall>m \<in> set (project_entries (JObj p)). \<not> (nm_asset_type m = t \<and> nm_name m = old) \<longrightarrow>
      asset_name_comparison_key nfc (nm_name m) \<noteq> asset_name_comparison_key nfc name"
    using assms(2) by (auto simp: ensure_project_asset_name_available_def find_project_asset_name_def find_None_iff split: option.splits)
  ultimately show ?thesis using assms(5) by blast
qed

lemma namespace_rekeyed:
  assumes "namespace_ok nfc p" "asset_spec_of t = Inr spec"
    "ensure_project_asset_name_available nfc (JObj p) new (Some t) (Some old) = Inr u"
    "distinct (map fst b)" "fst ` set b \<subseteq> insert new (fst ` set (asset_bucket (JObj p) (sp_bucket_key spec)) - {old})"
  shows "namespace_ok nfc (dict_put (sp_bucket_key spec) (JObj b) p)"
proof (rule namespace_replace [OF assms(1)])
  let ?key = "asset_name_comparison_key nfc" and ?bk = "sp_bucket_key spec"
  have bk: "?bk \<in> set bucket_keys" using spec_bucket [OF assms(2)] by simp
  have inj: "inj_on ?key (fst ` set (asset_bucket (JObj p) ?bk))"
    using namespace_buckets(1) [OF assms(1) bk] unfolding keys_in_def by (auto simp: distinct_map inj_on_def)
  have "inj_on ?key (fst ` set b)"
  proof (rule inj_on_subset [OF _ assms(5)])
    have "?key k \<noteq> ?key new" if "k \<in> fst ` set (asset_bucket (JObj p) ?bk)" "k \<noteq> old" for k
      using available_excluding [OF assms(2,3) bk that(1)] that(2) by blast
    then have "?key new \<noteq> ?key k" if "k \<in> fst ` set (asset_bucket (JObj p) ?bk) - {old}" for k using that by (metis DiffE singletonI)
    then have "?key new \<notin> ?key ` (fst ` set (asset_bucket (JObj p) ?bk) - {old})" by (auto simp only: image_iff bex_simps)
    then show "inj_on ?key (insert new (fst ` set (asset_bucket (JObj p) ?bk) - {old}))"
      unfolding inj_on_insert using inj_on_diff [OF inj] by blast
  qed
  then have "distinct (map ?key (map fst b))" using assms(4) by (simp only: distinct_map list.set_map simp_thms)
  then show "distinct (map (\<lambda>kv. ?key (fst kv)) b)" by (simp add: comp_def)
  show "?key k \<notin> set (keys_in nfc p bk')" if "bk' \<in> set bucket_keys" "bk' \<noteq> ?bk" "k \<in> fst ` set b" for bk' k
  proof (cases "k = new")
    case True
    then show ?thesis using available_excluding [OF assms(2,3) that(1)] that(2) by (force simp: keys_in_def)
  next
    case False
    then have "k \<in> fst ` set (asset_bucket (JObj p) ?bk)" using assms(5) that(3) by blast
    then have "?key k \<in> set (keys_in nfc p ?bk)" by (auto simp: keys_in_def)
    then show ?thesis using namespace_buckets(2) [OF assms(1) bk that(1)] that(2) by auto
  qed
qed

lemma resolve_key_mem:
  assumes "resolve_asset_key nfc (JObj b) name = Some k"
  shows "k \<in> fst ` set b"
proof -
  have "fold (\<lambda>kv found. if nfc (fst kv) = nfc name then Some (fst kv) else found) xs acc = Some k \<Longrightarrow> acc = Some k \<or> k \<in> fst ` set xs"
    for xs :: "(string \<times> json) list" and acc
    by (induction xs arbitrary: acc) (auto split: if_splits)
  from this [of b None] show ?thesis using assms by (simp add: resolve_asset_key_def normalize_asset_name_def)
qed

lemma resolve_key_None: "resolve_asset_key nfc (JObj b) name = None \<Longrightarrow> name \<notin> fst ` set b"
proof -
  have "fold (\<lambda>kv found. if nfc (fst kv) = nfc name then Some (fst kv) else found) xs acc = None \<Longrightarrow> acc = None \<and> name \<notin> fst ` set xs"
    for xs :: "(string \<times> json) list" and acc
    by (induction xs arbitrary: acc) (auto split: if_splits)
  then show "resolve_asset_key nfc (JObj b) name = None \<Longrightarrow> name \<notin> fst ` set b"
    by (auto simp: resolve_asset_key_def normalize_asset_name_def)
qed

lemma renamed_bucket_keys:
  assumes "k \<in> fst ` set b"
  shows "distinct (map fst (renamed_bucket nfc rewrite b k new))"
    "fst ` set (renamed_bucket nfc rewrite b k new) \<subseteq> insert new (fst ` set b - {k})"
proof -
  let ?r = "dict_of (map (\<lambda>kv. (if normalize_asset_name nfc (fst kv) = normalize_asset_name nfc k then new else fst kv, snd kv)) b)"
  have "resolve_asset_key nfc (JObj b) k \<noteq> None" using resolve_key_None assms by blast
  then obtain y where "resolve_asset_key nfc (JObj b) k = Some y" by blast
  then have "rekey_equivalent_entries nfc b k new = (?r, dict_get ?r new)" by (simp add: rekey_equivalent_entries_def Let_def)
  then have "renamed_bucket nfc rewrite b k new = ?r \<or> (\<exists>v. renamed_bucket nfc rewrite b k new = dict_put new v ?r)"
    by (auto simp: renamed_bucket_def split: option.splits json.splits)
  then consider "renamed_bucket nfc rewrite b k new = ?r" | v where "renamed_bucket nfc rewrite b k new = dict_put new v ?r" by blast
  moreover have "(if normalize_asset_name nfc (fst kv) = normalize_asset_name nfc k then new else fst kv) \<in> insert new (fst ` set b - {k})"
    if "kv \<in> set b" for kv using that by (cases "fst kv = k") auto
  then have r: "fst ` set ?r \<subseteq> insert new (fst ` set b - {k})" unfolding dict_of_keys by fastforce
  moreover have "distinct (map fst ?r)" using dict_of_wf(1) by (simp add: dict_ok_def)
  ultimately show "distinct (map fst (renamed_bucket nfc rewrite b k new))"
    by cases (simp_all only: distinct_update)
  from \<open>renamed_bucket nfc rewrite b k new = ?r \<or> _\<close>
  show "fst ` set (renamed_bucket nfc rewrite b k new) \<subseteq> insert new (fst ` set b - {k})"
    using r by (elim disjE exE) (simp_all only: dom_update insert_is_Un [symmetric] insert_subset insertI1 simp_thms)
qed

lemma rename_namespace:
  assumes "namespace_ok nfc p" "rename_entry nfc rewrite table old_name new_name p = Inr (p', k)"
  shows "namespace_ok nfc p'"
proof -
  from assms(2) obtain t spec new b where t: "asset_spec_of t = Inr spec"
    and b: "dict_get p (sp_bucket_key spec) = Some (JObj b)" and k: "resolve_asset_key nfc (JObj b) old_name = Some k"
    and av: "ensure_project_asset_name_available nfc (JObj p) new (Some t) (Some k) = Inr ()"
    and p': "p' = dict_put (sp_bucket_key spec) (JObj (renamed_bucket nfc (rewrite k new) b k new)) p"
    unfolding rename_entry_def bind_res_Inr_iff by (fastforce split: option.splits json.splits if_splits simp: bind_res_Inr_iff)
  have "asset_bucket (JObj p) (sp_bucket_key spec) = b" using b by (simp add: asset_bucket_def)
  then show ?thesis unfolding p'
    using renamed_bucket_keys [OF resolve_key_mem [OF k]] by (intro namespace_rekeyed [OF assms(1) t av]) auto
qed

lemma delete_namespace:
  assumes "namespace_ok nfc p" "delete_asset nfc table name p = Inr (p', k)"
  shows "namespace_ok nfc p'"
proof -
  from assms(2) obtain t spec b where t: "asset_spec_of t = Inr spec"
    and b: "dict_get p (sp_bucket_key spec) = Some (JObj b)" and p': "p' = dict_put (sp_bucket_key spec) (JObj (dict_del k b)) p"
    unfolding delete_asset_def bind_res_Inr_iff by (fastforce split: option.splits json.splits)
  have bk: "sp_bucket_key spec \<in> set bucket_keys" using spec_bucket [OF t] by simp
  have keys: "keys_in nfc p (sp_bucket_key spec) = map (\<lambda>kv. asset_name_comparison_key nfc (fst kv)) b"
    using b by (simp add: keys_in_def asset_bucket_def)
  show ?thesis unfolding p'
  proof (rule namespace_replace [OF assms(1)])
    show "distinct (map (\<lambda>kv. asset_name_comparison_key nfc (fst kv)) (dict_del k b))"
      using namespace_buckets(1) [OF assms(1) bk] unfolding keys by (simp add: dict_del_def distinct_map_filter)
    show "asset_name_comparison_key nfc x \<notin> set (keys_in nfc p bk')"
      if "bk' \<in> set bucket_keys" "bk' \<noteq> sp_bucket_key spec" "x \<in> fst ` set (dict_del k b)" for bk' x
      using namespace_buckets(2) [OF assms(1) bk that(1)] that(2,3) unfolding keys by (auto simp: dict_del_def)
  qed
qed

subsection \<open>Operations that keep the name space\<close>

definition guarded_safely :: "(string \<Rightarrow> string) \<Rightarrow> (doc \<Rightarrow> bool) \<Rightarrow> (doc \<Rightarrow> (doc \<times> 'r) res) \<Rightarrow> doc \<Rightarrow> bool" where
  "guarded_safely nfc required mutate p \<longleftrightarrow>
     apply_project_mutation nfc required mutate p = mutate p
     \<and> (\<forall>p' r. mutate p = Inr (p', r) \<longrightarrow> ensure_project_asset_namespace nfc (JObj p') = Inr ())"

text \<open>
  The contract of a project mutation: it keeps the name space. Such a mutation never trips the
  check that follows it, so the guarded update of a project behaves as the bare mutation.
\<close>

locale namespace_keeper =
  fixes nfc :: "string \<Rightarrow> string" and mutate :: "doc \<Rightarrow> (doc \<times> 'r) res"
  assumes keeps: "namespace_ok nfc p \<Longrightarrow> mutate p = Inr (p', r) \<Longrightarrow> namespace_ok nfc p'"
begin

lemma guard_redundant:
  assumes "ensure_project_asset_namespace nfc (JObj p) = Inr ()"
  shows "apply_project_mutation nfc required mutate p = mutate p"
proof (cases "mutate p")
  case (Inr pr)
  obtain p' r where pr: "pr = (p', r)" by force
  have "ensure_project_asset_namespace nfc (JObj p') = Inr ()"
    using assms keeps Inr pr unfolding ensure_namespace_iff by blast
  then show ?thesis using assms Inr pr by (simp add: apply_project_mutation_def Let_def)
qed (use assms in \<open>simp add: apply_project_mutation_def Let_def\<close>)

lemma result_unique:
  assumes "ensure_project_asset_namespace nfc (JObj p) = Inr ()" "mutate p = Inr (p', r)"
  shows "ensure_project_asset_namespace nfc (JObj p') = Inr ()"
  using assms keeps unfolding ensure_namespace_iff by blast

lemma guarded_correct: "ensure_project_asset_namespace nfc (JObj p) = Inr () \<Longrightarrow> guarded_safely nfc required mutate p"
  unfolding guarded_safely_def using guard_redundant result_unique by blast

end

interpretation adding: namespace_keeper nfc "add_asset nfc asset_type name entry"
proof
  fix p p' r
  assume "namespace_ok nfc p" "add_asset nfc asset_type name entry p = Inr (p', r)"
  then show "namespace_ok nfc p'"
    using spec_bucket by (auto simp: add_asset_def bind_res_Inr_iff namespace_setdefault dest!: add_one_namespace [rotated 2])
qed

interpretation batching: namespace_keeper nfc "add_assets_batch nfc asset_type entries"
proof
  fix p p' r
  assume "namespace_ok nfc p" "add_assets_batch nfc asset_type entries p = Inr (p', r)"
  then show "namespace_ok nfc p'"
    using spec_bucket by (auto simp: add_assets_batch_def bind_res_Inr_iff namespace_setdefault split: if_splits dest!: add_all_namespace [rotated 2])
qed

lemma upsert_mutate_namespace:
  assumes "namespace_ok nfc p" "asset_spec_of t = Inr spec" "upsert_mutate nfc errors spec es rep p = Inr (p', r)"
  shows "namespace_ok nfc p'"
  using assms spec_bucket [OF assms(2)]
  by (auto simp: upsert_mutate_def Let_def bind_res_Inr_iff namespace_setdefault split: option.splits json.splits if_splits
      dest!: upsert_loop_namespace [rotated 3])

interpretation upserting: namespace_keeper nfc "upsert_assets nfc errors table entries"
proof
  fix p p' r
  assume "namespace_ok nfc p" "upsert_assets nfc errors table entries p = Inr (p', r)"
  then show "namespace_ok nfc p'"
  proof (cases entries)
    case (JObj es)
    with \<open>namespace_ok nfc p\<close> \<open>upsert_assets nfc errors table entries p = Inr (p', r)\<close> show ?thesis
      by (cases es) (auto simp: upsert_assets_def bind_res_Inr_iff simp del: normalize_upserts.simps intro: upsert_mutate_namespace)
  qed (simp_all add: upsert_assets_def bind_res_Inr_iff)
qed

interpretation deleting: namespace_keeper nfc "delete_asset nfc table name"
  by unfold_locales (rule delete_namespace)

interpretation renaming: namespace_keeper nfc "rename_entry nfc rewrite table old_name new_name"
  by unfold_locales (rule rename_namespace)

text \<open>
  (C18) The shared name space of the four asset buckets is an invariant: when no two assets of a
  project have the same name up to blanks and Unicode form, none do after adding one asset,
  adding a batch, an agent's upsert, a deletion or a rename, whichever of them succeeds. So the
  check that \<open>update_project\<close> repeats after the mutation never fires for these operations, and
  the guarded update is the mutation itself.
\<close>

theorem asset_namespace_kept:
  assumes "ensure_project_asset_namespace nfc (JObj p) = Inr ()"
  shows "guarded_safely nfc required (add_asset nfc asset_type name entry) p
    \<and> guarded_safely nfc required (add_assets_batch nfc asset_type batch) p
    \<and> guarded_safely nfc required (upsert_assets nfc errors table entries) p
    \<and> guarded_safely nfc required (delete_asset nfc table old_name) p
    \<and> guarded_safely nfc required (rename_entry nfc rewrite table old_name new_name) p"
  using assms
  by (intro conjI adding.guarded_correct batching.guarded_correct upserting.guarded_correct
      deleting.guarded_correct renaming.guarded_correct)

definition sample_project :: doc where
  "sample_project = [(''characters'', JObj [(''Li'', JObj [(''description'', JStr ''poet'')])]), (''scenes'', JObj [(''inn'', JObj [])])]"

theorem asset_namespace_kept_witness:
  "add_asset id ''prop'' (JStr '' lamp '') (JObj []) sample_project
     = Inr (sample_project @ [(''props'', JObj [(''lamp'', JObj [])])], True)
   \<and> add_asset id ''prop'' (JStr ''Li '') (JObj []) sample_project = Inl (ValueError ''asset name conflict'')
   \<and> guarded_safely id (\<lambda>_. True) (add_asset id ''prop'' (JStr '' lamp '') (JObj [])) sample_project"
proof -
  have "ensure_project_asset_namespace id (JObj sample_project) = Inr ()" by code_simp
  from asset_namespace_kept [OF this, where required = "\<lambda>_. True" and asset_type = "''prop''" and name = "JStr '' lamp ''" and entry = "JObj []"]
  have "guarded_safely id (\<lambda>_. True) (add_asset id ''prop'' (JStr '' lamp '') (JObj [])) sample_project" by blast
  moreover have "add_asset id ''prop'' (JStr '' lamp '') (JObj []) sample_project
     = Inr (sample_project @ [(''props'', JObj [(''lamp'', JObj [])])], True)" by code_simp
  moreover have "add_asset id ''prop'' (JStr ''Li '') (JObj []) sample_project = Inl (ValueError ''asset name conflict'')" by code_simp
  ultimately show ?thesis by blast
qed

end
