(* ===== verification/ScriptEdit.thy ===== *)
theory ScriptEdit
  imports AssetTypes
begin

text \<open>
  Editing an episode script: the skeletons of \<open>lib/script_skeleton.py\<close>, the operations of
  \<open>lib/script_editor.py\<close> on a script, and the transactional batch of \<open>lib/script_batch_edit.py\<close>.

  A script is a JSON object. \<open>py_str\<close> is Python's \<open>str\<close> on a JSON value that is not text and \<open>same\<close> its
  \<open>==\<close>. The code changes the script in place; here an operation returns the new script, and an error
  leaves the caller with the old one. The warning that a split logs is left out, and an error carries its
  kind in place of its message.
\<close>

subsection \<open>Skeletons\<close>

record skeleton =
  id_field :: string
  chars_field :: "string option"

definition SKELETONS :: "(string \<times> skeleton) list" where
  "SKELETONS =
     [(''segments'', \<lparr>id_field = ''segment_id'', chars_field = Some ''characters_in_segment''\<rparr>),
      (''scenes'', \<lparr>id_field = ''scene_id'', chars_field = Some ''characters_in_scene''\<rparr>),
      (''shots'', \<lparr>id_field = ''shot_id'', chars_field = Some ''characters_in_shot''\<rparr>),
      (''video_units'', \<lparr>id_field = ''unit_id'', chars_field = None\<rparr>)]"

definition has_key :: "string \<Rightarrow> doc \<Rightarrow> bool" where
  "has_key k d \<longleftrightarrow> dict_get d k \<noteq> None"

definition resolve_declared_kind :: "string option \<Rightarrow> string option \<Rightarrow> string option" where
  "resolve_declared_kind content_mode generation_mode =
     (let reference = generation_mode = Some ''reference_video'' in
      if content_mode = Some ''ad'' then Some (if reference then ''video_units'' else ''shots'')
      else if content_mode = Some ''narration'' then Some (if reference then ''video_units'' else ''segments'')
      else if content_mode = Some ''drama'' then Some (if reference then ''video_units'' else ''scenes'')
      else None)"

definition resolve_script_kind :: "doc \<Rightarrow> string" where
  "resolve_script_kind script =
     (let mode = dict_get script ''content_mode'' in
      if has_key ''video_units'' script \<and> \<not> (\<exists>k \<in> set [''segments'', ''scenes'', ''shots'']. has_key k script) then ''video_units''
      else if mode = Some (JStr ''ad'') then ''shots''
      else if mode = Some (JStr ''drama'') then ''scenes''
      else if mode = Some (JStr ''narration'') then
        (if \<not> has_key ''segments'' script \<and> has_key ''scenes'' script then ''scenes'' else ''segments'')
      else if has_key ''scenes'' script \<and> \<not> has_key ''segments'' script then ''scenes''
      else if has_key ''shots'' script \<and> \<not> has_key ''segments'' script then ''shots''
      else ''segments'')"

datatype route_error = Unknown_mode | Route_mismatch string "string option"

definition STORYBOARD_ROUTE_SKELETONS :: "string list" where
  "STORYBOARD_ROUTE_SKELETONS = [''segments'', ''scenes'', ''shots'']"

definition ensure_route_skeleton :: "doc \<Rightarrow> string option \<Rightarrow> string option \<Rightarrow> route_error + string" where
  "ensure_route_skeleton script content_mode generation_mode =
     (case resolve_declared_kind content_mode generation_mode of None \<Rightarrow> Inl Unknown_mode
      | Some expected \<Rightarrow>
          let has_reference = has_key ''video_units'' script;
              has_storyboard = (\<exists>k \<in> set STORYBOARD_ROUTE_SKELETONS. has_key k script)
          in if expected = ''video_units'' then
               (if has_reference then Inr ''video_units''
                else Inl (Route_mismatch expected (if has_storyboard then Some (resolve_script_kind script) else None)))
             else if has_storyboard then Inr (resolve_script_kind script)
             else Inl (Route_mismatch expected (if has_reference then Some ''video_units'' else None)))"

subsection \<open>Finding units\<close>

datatype edit_error =
    Items_not_list string
  | Unit_not_found string
  | Bad_path
  | Forbidden_field string
  | Missing_parent
  | Parent_not_object
  | Not_an_object
  | Too_few_parts
  | Missing_id
  | Duplicate_id
  | Own_anchor

definition bind_edit :: "'e + 'a \<Rightarrow> ('a \<Rightarrow> 'e + 'b) \<Rightarrow> 'e + 'b" where
  "bind_edit r f = (case r of Inl e \<Rightarrow> Inl e | Inr x \<Rightarrow> f x)"

lemma bind_edit_simps [simp]: "bind_edit (Inl e) f = Inl e" "bind_edit (Inr x) f = f x"
  by (simp_all add: bind_edit_def)

lemma bind_edit_Inr: "bind_edit r f = Inr y \<longleftrightarrow> (\<exists>x. r = Inr x \<and> f x = Inr y)"
  by (cases r) simp_all

definition kind_id_field :: "string \<Rightarrow> string" where
  "kind_id_field kind = (case dict_get SKELETONS kind of Some k \<Rightarrow> id_field k | None \<Rightarrow> [])"

definition resolve_items :: "doc \<Rightarrow> edit_error + (json list \<times> string \<times> string)" where
  "resolve_items script =
     (let kind = resolve_script_kind script; idf = kind_id_field kind in
      case dict_get script kind of None \<Rightarrow> Inr ([], idf, kind)
      | Some (JList items) \<Rightarrow> Inr (items, idf, kind)
      | Some _ \<Rightarrow> Inl (Items_not_list kind))"

definition str_of :: "(json \<Rightarrow> string) \<Rightarrow> json \<Rightarrow> string" where
  "str_of py_str v = (case v of JStr s \<Rightarrow> s | _ \<Rightarrow> py_str v)"

definition unit_id :: "(json \<Rightarrow> string) \<Rightarrow> string \<Rightarrow> doc \<Rightarrow> string" where
  "unit_id py_str idf d = str_of py_str (dict_get_default d idf JNull)"

definition has_unit_id :: "(json \<Rightarrow> string) \<Rightarrow> string \<Rightarrow> string \<Rightarrow> json \<Rightarrow> bool" where
  "has_unit_id py_str idf uid item = (case item of JObj d \<Rightarrow> unit_id py_str idf d = uid | _ \<Rightarrow> False)"

fun find_index :: "(json \<Rightarrow> bool) \<Rightarrow> json list \<Rightarrow> (nat \<times> doc) option" where
  "find_index P [] = None"
| "find_index P (item # items) =
     (if P item then (case item of JObj d \<Rightarrow> Some (0, d) | _ \<Rightarrow> None)
      else map_option (\<lambda>(i, d). (Suc i, d)) (find_index P items))"

definition find_unit :: "(json \<Rightarrow> string) \<Rightarrow> json list \<Rightarrow> string \<Rightarrow> string \<Rightarrow> edit_error + (nat \<times> doc)" where
  "find_unit py_str items idf uid =
     (case find_index (has_unit_id py_str idf uid) items of None \<Rightarrow> Inl (Unit_not_found uid) | Some r \<Rightarrow> Inr r)"

definition objects :: "json list \<Rightarrow> doc list" where
  "objects vs = concat (map (\<lambda>v. case v of JObj d \<Rightarrow> [d] | _ \<Rightarrow> []) vs)"

definition existing_ids :: "(json \<Rightarrow> string) \<Rightarrow> string \<Rightarrow> json list \<Rightarrow> string list" where
  "existing_ids py_str idf items = map (unit_id py_str idf) (objects items)"

subsection \<open>New identifiers\<close>

definition suffixed :: "string \<Rightarrow> nat \<Rightarrow> string" where
  "suffixed stem k = stem @ ''_'' @ show_nat k"

lemma suffixed_inj: "suffixed stem j = suffixed stem k \<longleftrightarrow> j = k"
  by (auto simp: suffixed_def dest: arg_cong [of _ _ read_nat])

lemma finite_taken: "finite {j. k \<le> j \<and> suffixed stem j \<in> set taken}"
proof -
  have "suffixed stem ` {j. k \<le> j \<and> suffixed stem j \<in> set taken} \<subseteq> set taken" by auto
  moreover have "inj_on (suffixed stem) {j. k \<le> j \<and> suffixed stem j \<in> set taken}"
    by (rule inj_onI) (simp add: suffixed_inj)
  ultimately show ?thesis using finite_subset finite_imageD by blast
qed

function free_index :: "string \<Rightarrow> string list \<Rightarrow> nat \<Rightarrow> nat" where
  "free_index stem taken k = (if suffixed stem k \<in> set taken then free_index stem taken (Suc k) else k)"
  by auto

termination
proof (relation "measure (\<lambda>(stem, taken, k). card {j. k \<le> j \<and> suffixed stem j \<in> set taken})")
  fix stem taken k
  assume "suffixed stem k \<in> set taken"
  then have "{j. Suc k \<le> j \<and> suffixed stem j \<in> set taken} \<subset> {j. k \<le> j \<and> suffixed stem j \<in> set taken}"
    by (metis (mono_tags, lifting) Suc_leD Suc_n_not_le_n le_refl mem_Collect_eq psubsetI subsetI)
  then show "((stem, taken, Suc k), stem, taken, k) \<in> measure (\<lambda>(stem, taken, k). card {j. k \<le> j \<and> suffixed stem j \<in> set taken})"
    using psubset_card_mono [OF finite_taken] by auto
qed simp

declare free_index.simps [simp del]

definition id_stem :: "string \<Rightarrow> string" where
  "id_stem base = hd (split_at (\<lambda>c. c = CHR ''_'') base)"

definition next_suffixed_id :: "string \<Rightarrow> string list \<Rightarrow> string" where
  "next_suffixed_id base taken = (let stem = id_stem base in suffixed stem (free_index stem taken 1))"

subsection \<open>The operations\<close>

fun set_path :: "doc \<Rightarrow> string list \<Rightarrow> json \<Rightarrow> edit_error + doc" where
  "set_path d [] v = Inl Bad_path"
| "set_path d [p] v = Inr (dict_put p v d)"
| "set_path d (p # q # ps) v =
     (case dict_get d p of None \<Rightarrow> Inl Missing_parent
      | Some (JObj d') \<Rightarrow> bind_edit (set_path d' (q # ps) v) (\<lambda>n. Inr (dict_put p (JObj n) d))
      | Some _ \<Rightarrow> Inl Parent_not_object)"

definition PROTECTED_FIELDS :: "string list" where
  "PROTECTED_FIELDS = [''generated_assets'', ''needs_replan'', ''migration_requires_content_replan'', ''end_frame_image'',
     ''segment_id'', ''scene_id'', ''unit_id'', ''shot_id'']"

definition set_nested :: "doc \<Rightarrow> string \<Rightarrow> json \<Rightarrow> edit_error + doc" where
  "set_nested d field_path v =
     (let parts = split_at (\<lambda>c. c = CHR ''.'') field_path in
      if [] \<in> set parts then Inl Bad_path
      else if hd parts \<in> set PROTECTED_FIELDS then Inl (Forbidden_field (hd parts))
      else set_path d parts v)"

text \<open>Changing the list in place: where the script has no such key, the list is not part of the script.\<close>

definition put_items :: "string \<Rightarrow> json list \<Rightarrow> doc \<Rightarrow> doc" where
  "put_items kind items script = (if has_key kind script then dict_put kind (JList items) script else script)"

definition patch_field :: "(json \<Rightarrow> string) \<Rightarrow> doc \<Rightarrow> string \<Rightarrow> string \<Rightarrow> json \<Rightarrow> edit_error + doc" where
  "patch_field py_str script uid field_path v =
     bind_edit (resolve_items script) (\<lambda>(items, idf, kind).
     bind_edit (find_unit py_str items idf uid) (\<lambda>(i, d).
     bind_edit (set_nested d field_path v) (\<lambda>d'. Inr (put_items kind (items[i := JObj d']) script))))"

definition insert_at :: "nat \<Rightarrow> 'a list \<Rightarrow> 'a list \<Rightarrow> 'a list" where
  "insert_at i ys xs = take i xs @ ys @ drop i xs"

text \<open>The assets of a unit, carried over to what continues it: whatever the new text says of them is dropped.\<close>

definition carry_assets :: "doc \<Rightarrow> doc \<Rightarrow> doc" where
  "carry_assets anchor part =
     (let part1 = dict_put ''generated_assets'' (case dict_get anchor ''generated_assets'' of Some (JObj a) \<Rightarrow> JObj a | _ \<Rightarrow> JObj []) part;
          frame = dict_get_default anchor ''end_frame_image'' JNull
      in if frame = JNull then dict_del ''end_frame_image'' part1 else dict_put ''end_frame_image'' frame part1)"

definition no_assets :: "doc \<Rightarrow> doc" where
  "no_assets part = dict_del ''end_frame_image'' (dict_put ''generated_assets'' (JObj []) part)"

definition insert_segment :: "(json \<Rightarrow> string) \<Rightarrow> doc \<Rightarrow> string \<Rightarrow> json \<Rightarrow> edit_error + doc" where
  "insert_segment py_str script after_id new_item =
     (case new_item of
        JObj n \<Rightarrow>
          bind_edit (resolve_items script) (\<lambda>(items, idf, kind).
          bind_edit (find_unit py_str items idf after_id) (\<lambda>(i, d).
            let item = no_assets (dict_put idf (JStr (next_suffixed_id after_id (existing_ids py_str idf items))) n)
            in Inr (put_items kind (insert_at (Suc i) [JObj item] items) script)))
      | _ \<Rightarrow> Inl Not_an_object)"

definition remove_segment :: "(json \<Rightarrow> string) \<Rightarrow> doc \<Rightarrow> string \<Rightarrow> edit_error + doc" where
  "remove_segment py_str script uid =
     bind_edit (resolve_items script) (\<lambda>(items, idf, kind).
     bind_edit (find_unit py_str items idf uid) (\<lambda>(i, d). Inr (put_items kind (take i items @ drop (Suc i) items) script)))"

fun later_parts :: "string \<Rightarrow> string \<Rightarrow> string list \<Rightarrow> doc list \<Rightarrow> doc list" where
  "later_parts idf uid taken [] = []"
| "later_parts idf uid taken (raw # raws) =
     (let new_id = next_suffixed_id uid taken in
      no_assets (dict_put idf (JStr new_id) raw)
      # later_parts idf uid (new_id # taken) raws)"

fun as_docs :: "json list \<Rightarrow> doc list option" where
  "as_docs [] = Some []"
| "as_docs (JObj d # vs) = map_option (\<lambda>ds. d # ds) (as_docs vs)"
| "as_docs (_ # vs) = None"

definition split_segment :: "(json \<Rightarrow> string) \<Rightarrow> doc \<Rightarrow> string \<Rightarrow> json \<Rightarrow> edit_error + doc" where
  "split_segment py_str script uid parts =
     (case parts of
        JList vs \<Rightarrow> if length vs < 2 then Inl Too_few_parts
          else (case as_docs vs of None \<Rightarrow> Inl Not_an_object
            | Some raws \<Rightarrow>
                bind_edit (resolve_items script) (\<lambda>(items, idf, kind).
                bind_edit (find_unit py_str items idf uid) (\<lambda>(i, d).
                  let new_parts = carry_assets d (dict_put idf (JStr uid) (hd raws)) # later_parts idf uid (existing_ids py_str idf items) (tl raws)
                  in Inr (put_items kind (take i items @ map JObj new_parts @ drop (Suc i) items) script))))
      | _ \<Rightarrow> Inl Too_few_parts)"

text \<open>The gate accepts a script of the right family only; but it does not ask for the list that the resolved kind names.\<close>

lemma ensure_route_family:
  assumes "ensure_route_skeleton script cm gm = Inr kind"
  shows "(gm = Some ''reference_video'') = (kind = ''video_units'')
    \<and> (if gm = Some ''reference_video'' then has_key ''video_units'' script else \<exists>k \<in> set STORYBOARD_ROUTE_SKELETONS. has_key k script)"
  using assms
  by (auto simp: ensure_route_skeleton_def resolve_declared_kind_def resolve_script_kind_def STORYBOARD_ROUTE_SKELETONS_def Let_def
      split: option.splits if_splits)

lemma route_gate_misses_list:
  "ensure_route_skeleton [(''content_mode'', JStr ''drama''), (''segments'', JList [])] (Some ''drama'') (Some ''storyboard'') = Inr ''scenes''
   \<and> resolve_items [(''content_mode'', JStr ''drama''), (''segments'', JList [])] = Inr ([], ''scene_id'', ''scenes'')"
  by code_simp

subsection \<open>What a script holds\<close>

text \<open>A unit as the editor has to keep it: its identifier, its assets and its end frame.\<close>

type_synonym entry = "string \<times> json \<times> json"

definition unit_assets :: "doc \<Rightarrow> json \<times> json" where
  "unit_assets d = (case dict_get d ''generated_assets'' of Some (JObj a) \<Rightarrow> JObj a | _ \<Rightarrow> JObj [], dict_get_default d ''end_frame_image'' JNull)"

definition bare :: "json \<times> json" where
  "bare = (JObj [], JNull)"

definition entry_of :: "(json \<Rightarrow> string) \<Rightarrow> string \<Rightarrow> doc \<Rightarrow> entry" where
  "entry_of py_str idf d = (unit_id py_str idf d, unit_assets d)"

definition unit_view :: "(json \<Rightarrow> string) \<Rightarrow> doc \<Rightarrow> entry list" where
  "unit_view py_str script =
     (case resolve_items script of Inl e \<Rightarrow> [] | Inr (items, idf, kind) \<Rightarrow> map (entry_of py_str idf) (objects items))"

lemma objects_simps [simp]:
  "objects [] = []" "objects (JObj d # items) = d # objects items" "objects (xs @ ys) = objects xs @ objects ys"
  by (simp_all add: objects_def)

lemma objects_map_JObj [simp]: "objects (map JObj ds) = ds"
  by (induction ds) simp_all

lemma script_kind_mem: "resolve_script_kind s \<in> {''segments'', ''scenes'', ''shots'', ''video_units''}"
  by (simp add: resolve_script_kind_def Let_def)

lemma id_field_mem: "kind_id_field (resolve_script_kind s) \<in> {''segment_id'', ''scene_id'', ''shot_id'', ''unit_id''}"
  using script_kind_mem [of s] by (auto simp: kind_id_field_def SKELETONS_def)

lemma resolve_items_kind: "resolve_items s = Inr (items, idf, kind) \<Longrightarrow> kind = resolve_script_kind s \<and> idf = kind_id_field kind"
  by (auto simp: resolve_items_def Let_def split: option.splits json.splits)

lemma resolve_items_id_field:
  assumes "resolve_items s = Inr (items, idf, kind)"
  shows "idf \<in> set PROTECTED_FIELDS" "idf \<noteq> ''generated_assets''" "idf \<noteq> ''end_frame_image''" "idf \<noteq> ''references''"
    "idf \<noteq> ''needs_replan''" "idf \<noteq> ''migration_requires_content_replan''"
  using id_field_mem [of s] resolve_items_kind [OF assms] by (auto simp: PROTECTED_FIELDS_def)

lemma resolve_items_missing: "resolve_items s = Inr (items, idf, kind) \<Longrightarrow> \<not> has_key kind s \<Longrightarrow> items = []"
  by (auto simp: resolve_items_def Let_def has_key_def split: option.splits json.splits)

lemma script_kind_put:
  assumes "has_key kind s" "kind \<in> {''segments'', ''scenes'', ''shots'', ''video_units''}"
  shows "resolve_script_kind (dict_put kind v s) = resolve_script_kind s"
proof -
  have "has_key k (dict_put kind v s) = has_key k s" for k
    using assms(1) by (auto simp: has_key_def dict_get_put)
  moreover have "dict_get (dict_put kind v s) ''content_mode'' = dict_get s ''content_mode''"
    using assms(2) by (auto simp: dict_get_put)
  ultimately show ?thesis unfolding resolve_script_kind_def by (simp only:)
qed

lemma resolve_put_items:
  assumes r: "resolve_items s = Inr (items, idf, kind)"
  shows "resolve_items (put_items kind items' s) = Inr (if has_key kind s then items' else [], idf, kind)"
proof -
  have k: "kind = resolve_script_kind s" "idf = kind_id_field kind" using resolve_items_kind [OF r] by auto
  show ?thesis
  proof (cases "has_key kind s")
    case True
    then have "resolve_script_kind (put_items kind items' s) = kind" "dict_get (put_items kind items' s) kind = Some (JList items')"
      using script_kind_put [OF True] script_kind_mem [of s] k(1) by (auto simp: put_items_def dict_get_put)
    then show ?thesis using True k(2) by (simp add: resolve_items_def)
  next
    case False
    then show ?thesis using r resolve_items_missing [OF r False] by (simp add: put_items_def)
  qed
qed

lemma unit_view_put:
  assumes "resolve_items s = Inr (items, idf, kind)" "has_key kind s"
  shows "unit_view py_str (put_items kind items' s) = map (entry_of py_str idf) (objects items')"
  using resolve_put_items [OF assms(1)] assms(2) by (simp add: unit_view_def)

lemma find_index_Some:
  assumes "find_index P items = Some (i, d)"
  shows "i < length items" "items ! i = JObj d" "P (JObj d)" "\<forall>x \<in> set (take i items). \<not> P x"
  using assms by (induction items arbitrary: i) (auto split: if_splits json.splits)

lemma find_index_None:
  "find_index P items = None \<Longrightarrow> (\<And>x. P x \<Longrightarrow> \<exists>d. x = JObj d) \<Longrightarrow> x \<in> set items \<Longrightarrow> \<not> P x"
  by (induction items) (fastforce split: if_splits json.splits)+

subsection \<open>The edits on the held units\<close>

fun replace_first :: "'k \<Rightarrow> ('k \<times> 'v \<Rightarrow> ('k \<times> 'v) list) \<Rightarrow> ('k \<times> 'v) list \<Rightarrow> ('k \<times> 'v) list" where
  "replace_first u f [] = []"
| "replace_first u f (e # es) = (if fst e = u then f e @ es else e # replace_first u f es)"

lemma replace_first_append: "u \<notin> set (map fst xs) \<Longrightarrow> replace_first u f (xs @ e # ys) = xs @ (if fst e = u then f e @ ys else e # replace_first u f ys)"
  by (induction xs) auto

lemma replace_first_same: "replace_first u (\<lambda>x. [x]) w = w"
  by (induction w) auto

fun fresh_ids :: "string \<Rightarrow> string list \<Rightarrow> nat \<Rightarrow> string list" where
  "fresh_ids u taken 0 = []"
| "fresh_ids u taken (Suc n) = (let new_id = next_suffixed_id u taken in new_id # fresh_ids u (new_id # taken) n)"

datatype script_edit = Patch string string json | Insert string json | Remove string | Split string json

definition apply_edit :: "(json \<Rightarrow> string) \<Rightarrow> doc \<Rightarrow> script_edit \<Rightarrow> edit_error + doc" where
  "apply_edit py_str script e =
     (case e of Patch uid f v \<Rightarrow> patch_field py_str script uid f v
      | Insert after_id item \<Rightarrow> insert_segment py_str script after_id item
      | Remove uid \<Rightarrow> remove_segment py_str script uid
      | Split uid parts \<Rightarrow> split_segment py_str script uid parts)"

definition part_count :: "json \<Rightarrow> nat" where
  "part_count v = (case v of JList vs \<Rightarrow> length vs | _ \<Rightarrow> 0)"

definition view_edit :: "script_edit \<Rightarrow> entry list \<Rightarrow> entry list" where
  "view_edit e w =
     (case e of Patch uid f v \<Rightarrow> w
      | Insert after_id item \<Rightarrow> replace_first after_id (\<lambda>x. [x, (next_suffixed_id after_id (map fst w), bare)]) w
      | Remove uid \<Rightarrow> replace_first uid (\<lambda>x. []) w
      | Split uid parts \<Rightarrow> replace_first uid (\<lambda>x. x # map (\<lambda>i. (i, bare)) (fresh_ids uid (map fst w) (part_count parts - 1))) w)"

lemma map_fst_entry [simp]: "map (\<lambda>d. fst (entry_of py_str idf d)) ds = map (unit_id py_str idf) ds"
  by (simp add: entry_of_def)

text \<open>Replacing the unit that was found.\<close>

lemma objects_replaced:
  assumes "find_index (has_unit_id py_str idf u) items = Some (i, d)"
  shows "map (entry_of py_str idf) (objects (take i items @ map JObj ds @ drop (Suc i) items)) =
    replace_first u (\<lambda>x. map (entry_of py_str idf) ds) (map (entry_of py_str idf) (objects items))"
    and "unit_id py_str idf d = u" and "items = take i items @ JObj d # drop (Suc i) items"
proof -
  note f = find_index_Some [OF assms]
  show u: "unit_id py_str idf d = u" using f(3) by (simp add: has_unit_id_def)
  show split: "items = take i items @ JObj d # drop (Suc i) items" using f(1,2) id_take_nth_drop [of i items] by simp
  have "u \<notin> set (map (unit_id py_str idf) (objects (take i items)))"
    using f(4) by (fastforce simp: objects_def has_unit_id_def split: json.splits)
  then show "map (entry_of py_str idf) (objects (take i items @ map JObj ds @ drop (Suc i) items)) =
      replace_first u (\<lambda>x. map (entry_of py_str idf) ds) (map (entry_of py_str idf) (objects items))"
    using u by (subst (3) split) (simp add: replace_first_append entry_of_def)
qed

lemma set_path_other:
  assumes "set_path d ps v = Inr d'" "k \<noteq> hd ps"
  shows "dict_get d' k = dict_get d k"
  using assms by (cases "(d, ps, v)" rule: set_path.cases) (auto simp: dict_get_put bind_edit_Inr split: option.splits json.splits)

lemma set_nested_other: "set_nested d f v = Inr d' \<Longrightarrow> k \<in> set PROTECTED_FIELDS \<Longrightarrow> dict_get d' k = dict_get d k"
  unfolding set_nested_def Let_def by (rule set_path_other) (auto split: if_splits)

text \<open>Two units with the same protected fields are the same entry.\<close>

lemma entry_cong:
  assumes "\<And>k. k \<in> {idf, ''generated_assets'', ''end_frame_image''} \<Longrightarrow> dict_get d' k = dict_get d k"
  shows "entry_of py_str idf d' = entry_of py_str idf d"
  using assms by (simp add: entry_of_def unit_id_def unit_assets_def dict_get_default_def)

lemma set_nested_entry:
  assumes "set_nested d f v = Inr d'" "idf \<in> set PROTECTED_FIELDS"
  shows "entry_of py_str idf d' = entry_of py_str idf d"
  using set_nested_other [OF assms(1)] assms(2) by (intro entry_cong) (auto simp: PROTECTED_FIELDS_def)

lemma carry_assets_entry:
  assumes "idf \<noteq> ''generated_assets''" "idf \<noteq> ''end_frame_image''"
  shows "entry_of py_str idf (carry_assets d (dict_put idf (JStr u) raw)) = (u, unit_assets d)"
  using assms
  by (auto simp: entry_of_def unit_id_def unit_assets_def carry_assets_def str_of_def Let_def dict_get_default_def dict_get_put dict_get_del
      split: option.splits json.splits)

lemma no_assets_entry:
  assumes "idf \<noteq> ''generated_assets''" "idf \<noteq> ''end_frame_image''"
  shows "entry_of py_str idf (no_assets (dict_put idf (JStr u) raw)) = (u, bare)"
  using assms by (simp add: entry_of_def unit_id_def unit_assets_def no_assets_def bare_def str_of_def dict_get_default_def dict_get_put dict_get_del)

lemma later_parts_entries:
  assumes "idf \<noteq> ''generated_assets''" "idf \<noteq> ''end_frame_image''"
  shows "map (entry_of py_str idf) (later_parts idf u taken raws) = map (\<lambda>i. (i, bare)) (fresh_ids u taken (length raws))"
  by (induction raws arbitrary: taken) (simp_all add: Let_def no_assets_entry [OF assms])

lemma found_unit:
  assumes "resolve_items s = Inr (items, idf, kind)" "find_unit py_str items idf u = Inr (i, d)"
  shows "has_key kind s" "find_index (has_unit_id py_str idf u) items = Some (i, d)"
proof -
  show f: "find_index (has_unit_id py_str idf u) items = Some (i, d)"
    using assms(2) by (auto simp: find_unit_def split: option.splits)
  then have "items \<noteq> []" by auto
  then show "has_key kind s" using resolve_items_missing [OF assms(1)] by blast
qed

lemma view_of: "resolve_items s = Inr (items, idf, kind) \<Longrightarrow> unit_view py_str s = map (entry_of py_str idf) (objects items)"
  by (simp add: unit_view_def)

lemma view_replaced:
  assumes r: "resolve_items s = Inr (items, idf, kind)" and f: "find_unit py_str items idf u = Inr (i, d)"
  shows "unit_view py_str (put_items kind (take i items @ map JObj ds @ drop (Suc i) items) s) =
    replace_first u (\<lambda>x. map (entry_of py_str idf) ds) (unit_view py_str s)"
  using unit_view_put [OF r found_unit(1) [OF r f]] objects_replaced(1) [OF found_unit(2) [OF r f]] by (simp only: view_of [OF r])

text \<open>The entry found at an identifier; what replaces it may depend on it.\<close>

lemma replace_first_found:
  assumes "find_unit py_str items idf u = Inr (i, d)"
  shows "replace_first u (\<lambda>x. f (entry_of py_str idf d)) (map (entry_of py_str idf) (objects items)) =
    replace_first u f (map (entry_of py_str idf) (objects items))"
proof -
  have f: "find_index (has_unit_id py_str idf u) items = Some (i, d)" using assms by (auto simp: find_unit_def split: option.splits)
  have "u \<notin> set (map (unit_id py_str idf) (objects (take i items)))"
    using find_index_Some(4) [OF f] by (fastforce simp: objects_def has_unit_id_def split: json.splits)
  then have "u \<notin> set (map fst (map (entry_of py_str idf) (objects (take i items))))" by (simp add: entry_of_def)
  moreover have "map (entry_of py_str idf) (objects items) = map (entry_of py_str idf) (objects (take i items))
      @ entry_of py_str idf d # map (entry_of py_str idf) (objects (drop (Suc i) items))"
    by (subst objects_replaced(3) [OF f]) simp
  moreover have "fst (entry_of py_str idf d) = u" using objects_replaced(2) [OF f] by (simp add: entry_of_def)
  ultimately show ?thesis by (simp only: replace_first_append if_True simp_thms)
qed

lemma as_docs_map: "as_docs vs = Some ds \<Longrightarrow> vs = map JObj ds"
  by (induction vs arbitrary: ds rule: as_docs.induct) auto

lemma patch_field_shape:
  assumes "patch_field py_str s u f v = Inr s'"
  obtains items idf kind i d d' where "resolve_items s = Inr (items, idf, kind)" "find_unit py_str items idf u = Inr (i, d)"
    "set_nested d f v = Inr d'" "s' = put_items kind (items[i := JObj d']) s"
  using assms by (auto simp: patch_field_def bind_edit_Inr)

lemma insert_segment_shape:
  assumes "insert_segment py_str s a item = Inr s'"
  obtains n items idf kind i d where "item = JObj n" "resolve_items s = Inr (items, idf, kind)" "find_unit py_str items idf a = Inr (i, d)"
    "s' = put_items kind (insert_at (Suc i) [JObj (no_assets (dict_put idf (JStr (next_suffixed_id a (existing_ids py_str idf items))) n))] items) s"
  using assms by (cases item) (auto simp: insert_segment_def bind_edit_Inr)

lemma remove_segment_shape:
  assumes "remove_segment py_str s u = Inr s'"
  obtains items idf kind i d where "resolve_items s = Inr (items, idf, kind)" "find_unit py_str items idf u = Inr (i, d)"
    "s' = put_items kind (take i items @ drop (Suc i) items) s"
  using assms by (auto simp: remove_segment_def bind_edit_Inr)

lemma split_segment_shape:
  assumes "split_segment py_str s u parts = Inr s'"
  obtains raws items idf kind i d where "parts = JList (map JObj raws)" "2 \<le> length raws"
    "resolve_items s = Inr (items, idf, kind)" "find_unit py_str items idf u = Inr (i, d)"
    "s' = put_items kind (take i items @ map JObj (carry_assets d (dict_put idf (JStr u) (hd raws))
        # later_parts idf u (existing_ids py_str idf items) (tl raws)) @ drop (Suc i) items) s"
proof -
  obtain vs raws where v: "parts = JList vs" "\<not> length vs < 2" "as_docs vs = Some raws"
    using assms by (auto simp: split_segment_def split: json.splits if_splits option.splits)
  then show thesis
    using assms that as_docs_map [OF v(3)] by (auto simp: split_segment_def bind_edit_Inr)
qed

lemma insert_at_found:
  assumes "items = take i items @ x # drop (Suc i) items" "i < length items"
  shows "insert_at (Suc i) ys items = take i items @ (x # ys) @ drop (Suc i) items"
  using assms by (simp add: insert_at_def take_Suc_conv_app_nth) (metis append_eq_conv_conj id_take_nth_drop list.inject same_append_eq)

lemma patch_field_view:
  assumes "patch_field py_str s u f v = Inr s'"
  shows "unit_view py_str s' = unit_view py_str s"
proof -
  obtain items idf kind i d d' where p: "resolve_items s = Inr (items, idf, kind)" "find_unit py_str items idf u = Inr (i, d)"
      "set_nested d f v = Inr d'" "s' = put_items kind (items[i := JObj d']) s"
    using assms by (rule patch_field_shape)
  have "items[i := JObj d'] = take i items @ map JObj [d'] @ drop (Suc i) items"
    using find_index_Some(1) [OF found_unit(2) [OF p(1,2)]] by (simp add: upd_conv_take_nth_drop)
  then have "unit_view py_str s' = replace_first u (\<lambda>x. [entry_of py_str idf d]) (unit_view py_str s)"
    using view_replaced [OF p(1,2), of "[d']"] set_nested_entry [OF p(3) resolve_items_id_field(1) [OF p(1)]] p(4) by simp
  also have "\<dots> = replace_first u (\<lambda>x. [x]) (unit_view py_str s)"
    using replace_first_found [OF p(2), of "\<lambda>x. [x]"] by (simp only: view_of [OF p(1)])
  finally show ?thesis by (simp add: replace_first_same)
qed

lemma insert_segment_view:
  assumes "insert_segment py_str s a item = Inr s'"
  shows "unit_view py_str s' = replace_first a (\<lambda>x. [x, (next_suffixed_id a (map fst (unit_view py_str s)), bare)]) (unit_view py_str s)"
proof -
  obtain n items idf kind i d where p: "resolve_items s = Inr (items, idf, kind)" "find_unit py_str items idf a = Inr (i, d)"
    and s': "s' = put_items kind (insert_at (Suc i) [JObj (no_assets (dict_put idf (JStr (next_suffixed_id a (existing_ids py_str idf items))) n))] items) s"
    using assms by (rule insert_segment_shape)
  note fi = found_unit(2) [OF p]
  define k where "k = next_suffixed_id a (existing_ids py_str idf items)"
  have k: "k = next_suffixed_id a (map fst (unit_view py_str s))"
    by (simp add: k_def view_of [OF p(1)] existing_ids_def comp_def)
  have "insert_at (Suc i) [JObj (no_assets (dict_put idf (JStr k) n))] items
      = take i items @ map JObj [d, no_assets (dict_put idf (JStr k) n)] @ drop (Suc i) items"
    using insert_at_found [OF objects_replaced(3) [OF fi] find_index_Some(1) [OF fi]] by simp
  then have "unit_view py_str s' = replace_first a (\<lambda>x. [entry_of py_str idf d, (k, bare)]) (unit_view py_str s)"
    using view_replaced [OF p, of "[d, no_assets (dict_put idf (JStr k) n)]"] no_assets_entry [OF resolve_items_id_field(2,3) [OF p(1)]] s'
    by (simp add: k_def)
  also have "\<dots> = replace_first a (\<lambda>x. [x, (k, bare)]) (unit_view py_str s)"
    using replace_first_found [OF p(2), of "\<lambda>x. [x, (k, bare)]"] by (simp only: view_of [OF p(1)])
  finally show ?thesis by (simp add: k)
qed

lemma remove_segment_view:
  assumes "remove_segment py_str s u = Inr s'"
  shows "unit_view py_str s' = replace_first u (\<lambda>x. []) (unit_view py_str s)"
proof -
  obtain items idf kind i d where p: "resolve_items s = Inr (items, idf, kind)" "find_unit py_str items idf u = Inr (i, d)"
      "s' = put_items kind (take i items @ drop (Suc i) items) s"
    using assms by (rule remove_segment_shape)
  then show ?thesis using view_replaced [OF p(1,2), of "[]"] by simp
qed

lemma split_segment_view:
  assumes "split_segment py_str s u parts = Inr s'"
  shows "unit_view py_str s' = replace_first u (\<lambda>x. x # map (\<lambda>i. (i, bare)) (fresh_ids u (map fst (unit_view py_str s)) (part_count parts - 1))) (unit_view py_str s)"
proof -
  obtain raws items idf kind i d where r: "parts = JList (map JObj raws)" "2 \<le> length raws"
    and p: "resolve_items s = Inr (items, idf, kind)" "find_unit py_str items idf u = Inr (i, d)"
    and s': "s' = put_items kind (take i items @ map JObj (carry_assets d (dict_put idf (JStr u) (hd raws))
        # later_parts idf u (existing_ids py_str idf items) (tl raws)) @ drop (Suc i) items) s"
    using assms by (rule split_segment_shape)
  define news where "news = map (\<lambda>i. (i, bare)) (fresh_ids u (map fst (unit_view py_str s)) (part_count parts - 1))"
  note idf = resolve_items_id_field(2,3) [OF p(1)]
  have "map (entry_of py_str idf) (later_parts idf u (existing_ids py_str idf items) (tl raws)) = news"
    using later_parts_entries [OF idf] by (simp add: news_def r(1) part_count_def view_of [OF p(1)] existing_ids_def comp_def)
  moreover have "entry_of py_str idf (carry_assets d (dict_put idf (JStr u) (hd raws))) = entry_of py_str idf d"
    using carry_assets_entry [OF idf] objects_replaced(2) [OF found_unit(2) [OF p]] by (simp add: entry_of_def)
  ultimately have "unit_view py_str s' = replace_first u (\<lambda>x. entry_of py_str idf d # news) (unit_view py_str s)"
    unfolding s' view_replaced [OF p] by simp
  also have "\<dots> = replace_first u (\<lambda>x. x # news) (unit_view py_str s)"
    using replace_first_found [OF p(2), of "\<lambda>x. x # news"] by (simp only: view_of [OF p(1)])
  finally show ?thesis by (simp add: news_def)
qed

lemma apply_edit_view: "apply_edit py_str s e = Inr s' \<Longrightarrow> unit_view py_str s' = view_edit e (unit_view py_str s)"
  by (cases e) (simp_all add: apply_edit_def view_edit_def patch_field_view insert_segment_view remove_segment_view split_segment_view)

subsection \<open>Fresh identifiers\<close>

lemma free_index_least:
  "suffixed stem (free_index stem taken k) \<notin> set taken \<and> k \<le> free_index stem taken k
     \<and> (\<forall>j. k \<le> j \<and> j < free_index stem taken k \<longrightarrow> suffixed stem j \<in> set taken)"
proof (induction stem taken k rule: free_index.induct)
  case (1 stem taken k)
  show ?case
  proof (cases "suffixed stem k \<in> set taken")
    case True
    then have "free_index stem taken k = free_index stem taken (Suc k)" by (simp add: free_index.simps [of stem taken k])
    then show ?thesis using 1 [OF True] True by (metis Suc_leD le_antisym not_less_eq_eq)
  next
    case False
    then show ?thesis by (auto simp: free_index.simps [of stem taken k])
  qed
qed

lemma next_suffixed_id_fresh: "next_suffixed_id u taken \<notin> set taken"
  using free_index_least by (simp add: next_suffixed_id_def Let_def)

lemma fresh_ids_fresh: "distinct (fresh_ids u taken n) \<and> set (fresh_ids u taken n) \<inter> set taken = {}"
proof (induction n arbitrary: taken)
  case (Suc n)
  then show ?case using Suc [of "next_suffixed_id u taken # taken"] next_suffixed_id_fresh [of u taken] by (auto simp: Let_def)
qed simp

subsection \<open>Identity of units\<close>

text \<open>What an edit may do to the held units: identifiers stay distinct, a unit that stays keeps its assets, a new
  one has none, and the units that stay keep their order.\<close>

definition keeps_identity :: "entry list \<Rightarrow> entry list \<Rightarrow> bool" where
  "keeps_identity w w' \<longleftrightarrow> distinct (map fst w')
     \<and> (\<forall>(i, a) \<in> set w'. if i \<in> fst ` set w then (i, a) \<in> set w else a = bare)
     \<and> filter (\<lambda>i. i \<in> fst ` set w) (map fst w') = filter (\<lambda>i. i \<in> fst ` set w') (map fst w)"

lemma keeps_identity_refl: "distinct (map fst w) \<Longrightarrow> keeps_identity w w"
  by (auto simp: keeps_identity_def) (metis fst_conv image_eqI)

lemma split_at_key:
  assumes "u \<in> fst ` set w" "distinct (map fst w)"
  obtains xs a ys where "w = xs @ (u, a) # ys" "u \<notin> set (map fst xs)" "u \<notin> set (map fst ys)"
proof -
  obtain a where "(u, a) \<in> set w" using assms(1) by auto
  then obtain xs ys where "w = xs @ (u, a) # ys" by (meson split_list)
  then show thesis using that assms(2) by auto
qed

lemma replace_first_none: "u \<notin> fst ` set w \<Longrightarrow> replace_first u f w = w"
  by (induction w) auto

lemma keeps_identity_insert:
  assumes d: "distinct (map fst (xs @ (u, a) # ys))" and n: "distinct news" "set news \<inter> set (map fst (xs @ (u, a) # ys)) = {}"
  shows "keeps_identity (xs @ (u, a) # ys) (xs @ (if keep then [(u, a)] else []) @ map (\<lambda>i. (i, bare)) news @ ys)"
    (is "keeps_identity ?w ?w'")
proof -
  have ids: "map fst ?w' = map fst xs @ (if keep then [u] else []) @ news @ map fst ys" by (auto simp: comp_def)
  have h1: "distinct (map fst ?w')" using d n unfolding ids by auto
  have h2: "\<forall>(i, b) \<in> set ?w'. if i \<in> fst ` set ?w then (i, b) \<in> set ?w else b = bare" using n(2) by (auto; metis UnCI fst_conv image_eqI)
  have h3: "filter (\<lambda>i. i \<in> fst ` set ?w) (map fst ?w') = map fst xs @ (if keep then [u] else []) @ map fst ys"
    using n(2) unfolding ids by (auto simp: filter_empty_conv filter_id_conv)
  have h4: "filter (\<lambda>i. i \<in> fst ` set ?w') (map fst ?w) = map fst xs @ (if keep then [u] else []) @ map fst ys"
    using d n(2) by (auto simp: filter_id_conv)
  show ?thesis using h1 h2 unfolding keeps_identity_def h3 h4 by (intro conjI refl)
qed

lemma keeps_identity_replace:
  assumes d: "distinct (map fst w)" and n: "distinct news" "set news \<inter> set (map fst w) = {}"
  shows "keeps_identity w (replace_first u (\<lambda>x. (if keep then [x] else []) @ map (\<lambda>i. (i, bare)) news) w)"
proof (cases "u \<in> fst ` set w")
  case True
  then obtain xs a ys where w: "w = xs @ (u, a) # ys" "u \<notin> set (map fst xs)" using split_at_key [OF _ d] by metis
  then show ?thesis
    using keeps_identity_insert [of xs u a ys news keep] d n by (simp only: w(1) replace_first_append [OF w(2)]) simp
next
  case False
  then show ?thesis using keeps_identity_refl [OF d] by (simp add: replace_first_none)
qed

lemma view_edit_keeps_identity:
  assumes "distinct (map fst w)"
  shows "keeps_identity w (view_edit e w)"
proof (cases e)
  case (Patch u f v)
  then show ?thesis using keeps_identity_refl [OF assms] by (simp add: view_edit_def)
next
  case (Insert a item)
  then show ?thesis
    using keeps_identity_replace [OF assms, of "[next_suffixed_id a (map fst w)]" a True] next_suffixed_id_fresh [of a "map fst w"]
    by (simp add: view_edit_def)
next
  case (Remove u)
  then show ?thesis using keeps_identity_replace [OF assms, of "[]" u False] by (simp add: view_edit_def)
next
  case (Split u parts)
  then show ?thesis
    using keeps_identity_replace [OF assms, of "fresh_ids u (map fst w) (part_count parts - 1)" u True]
      fresh_ids_fresh [of u "map fst w" "part_count parts - 1"] by (simp add: view_edit_def)
qed

text \<open>An edit changes one key of the script.\<close>

lemma put_items_other: "k \<noteq> kind \<Longrightarrow> dict_get (put_items kind items s) k = dict_get s k"
  by (simp add: put_items_def dict_get_put)

lemma apply_edit_frame:
  assumes "apply_edit py_str s e = Inr s'" "k \<noteq> resolve_script_kind s"
  shows "dict_get s' k = dict_get s k"
proof -
  obtain items idf kind items' where "resolve_items s = Inr (items, idf, kind)" "s' = put_items kind items' s"
    using assms(1) by (cases e) (auto simp: apply_edit_def elim: patch_field_shape insert_segment_shape remove_segment_shape split_segment_shape)
  then show ?thesis using resolve_items_kind assms(2) by (metis put_items_other)
qed

text \<open>
  (C33) Edits keep units apart. An edit that succeeds does to the identifiers, assets and end frames exactly what its specification
  says: a patch nothing, an insertion one new unit without assets behind its anchor, a removal one unit less, a split the
  anchor with its assets followed by new units without. So identifiers that were distinct stay distinct, a
  unit that stays keeps its assets and its place among the others, and no other key of the script changes.
\<close>

theorem edits_keep_identity:
  assumes "apply_edit py_str s e = Inr s'" "distinct (map fst (unit_view py_str s))"
  shows "unit_view py_str s' = view_edit e (unit_view py_str s)
    \<and> keeps_identity (unit_view py_str s) (unit_view py_str s')
    \<and> (\<forall>k. k \<noteq> resolve_script_kind s \<longrightarrow> dict_get s' k = dict_get s k)"
  using apply_edit_view [OF assms(1)] view_edit_keeps_identity [OF assms(2), of e] apply_edit_frame [OF assms(1)] by simp

definition ex_script :: doc where
  "ex_script = [(''title'', JStr ''one''), (''segments'', JList [JObj [(''segment_id'', JStr ''E1S01''), (''generated_assets'', JObj [(''video'', JStr ''a.mp4'')])],
     JObj [(''segment_id'', JStr ''E1S01_1''), (''note'', JStr ''x'')]])]"

definition ex_parts :: json where
  "ex_parts = JList [JObj [(''note'', JStr ''a'')], JObj [(''note'', JStr ''b''), (''end_frame_image'', JStr ''c.png'')]]"

definition ex_split :: doc where
  "ex_split = [(''title'', JStr ''one''), (''segments'', JList
     [JObj [(''note'', JStr ''a''), (''segment_id'', JStr ''E1S01''), (''generated_assets'', JObj [(''video'', JStr ''a.mp4'')])],
      JObj [(''note'', JStr ''b''), (''segment_id'', JStr ''E1S01_2''), (''generated_assets'', JObj [])],
      JObj [(''segment_id'', JStr ''E1S01_1''), (''note'', JStr ''x'')]])]"

theorem edits_keep_identity_witness:
  "unit_view (\<lambda>v. []) ex_split = view_edit (Split ''E1S01'' ex_parts) (unit_view (\<lambda>v. []) ex_script)
    \<and> keeps_identity (unit_view (\<lambda>v. []) ex_script) (unit_view (\<lambda>v. []) ex_split)
    \<and> dict_get ex_split ''title'' = dict_get ex_script ''title''"
proof -
  have "apply_edit (\<lambda>v. []) ex_script (Split ''E1S01'' ex_parts) = Inr ex_split" by code_simp
  moreover have "distinct (map fst (unit_view (\<lambda>v. []) ex_script))" by code_simp
  moreover have "''title'' \<noteq> resolve_script_kind ex_script" by code_simp
  ultimately show ?thesis using edits_keep_identity [of "\<lambda>v. []" ex_script "Split ''E1S01'' ex_parts" ex_split] by blast
qed

lemma find_unit_error:
  assumes "resolve_items s = Inr (items, idf, kind)"
  shows "find_unit py_str items idf u = Inl e \<longleftrightarrow> u \<notin> fst ` set (unit_view py_str s) \<and> e = Unit_not_found u"
proof -
  have "find_index (has_unit_id py_str idf u) items = None \<longleftrightarrow> u \<notin> fst ` set (map (entry_of py_str idf) (objects items))"
    by (induction items) (auto simp: objects_def has_unit_id_def entry_of_def split: json.splits)
  then show ?thesis by (auto simp: find_unit_def view_of [OF assms] split: option.splits)
qed

lemma resolve_items_error: "resolve_items s = Inl e \<Longrightarrow> e = Items_not_list (resolve_script_kind s)"
  by (auto simp: resolve_items_def Let_def split: option.splits json.splits)

lemma unit_refusal:
  assumes "\<And>items idf kind x. resolve_items s = Inr (items, idf, kind) \<Longrightarrow> find_unit py_str items idf u = Inr x \<Longrightarrow> \<exists>y. K (items, idf, kind) x = Inr y"
  shows "bind_edit (resolve_items s) (\<lambda>(items, idf, kind). bind_edit (find_unit py_str items idf u) (K (items, idf, kind))) = Inl e \<longleftrightarrow>
      (if \<exists>r. resolve_items s = Inr r then u \<notin> fst ` set (unit_view py_str s) \<and> e = Unit_not_found u
       else e = Items_not_list (resolve_script_kind s))"
proof (cases "resolve_items s")
  case (Inl e')
  then show ?thesis using resolve_items_error [OF Inl] by auto
next
  case (Inr r)
  obtain items idf kind where r: "r = (items, idf, kind)" by (cases r)
  show ?thesis
  proof (cases "find_unit py_str items idf u")
    case (Inl e')
    then show ?thesis using find_unit_error [OF Inr [unfolded r], of py_str u e'] by (auto simp: Inr r)
  next
    case (Inr x)
    then have "u \<in> fst ` set (unit_view py_str s)"
      using find_unit_error [OF \<open>resolve_items s = Inr r\<close> [unfolded r], of py_str u "Unit_not_found u"] by auto
    then show ?thesis using assms [OF \<open>resolve_items s = Inr r\<close> [unfolded r] Inr] by (auto simp: \<open>resolve_items s = Inr r\<close> r Inr)
  qed
qed

lemma patch_refused:
  assumes "[] \<notin> set (split_at (\<lambda>c. c = CHR ''.'') f)" "hd (split_at (\<lambda>c. c = CHR ''.'') f) \<in> set PROTECTED_FIELDS"
    and "u \<in> fst ` set (unit_view py_str s)"
  shows "patch_field py_str s u f v = Inl (Forbidden_field (hd (split_at (\<lambda>c. c = CHR ''.'') f)))"
proof -
  obtain items idf kind where r: "resolve_items s = Inr (items, idf, kind)"
    using assms(3) by (cases "resolve_items s") (auto simp: unit_view_def)
  obtain i d where "find_unit py_str items idf u = Inr (i, d)"
    using find_unit_error [OF r, of py_str u] assms(3) by (cases "find_unit py_str items idf u") auto
  then show ?thesis using assms(1,2) by (simp add: patch_field_def r set_nested_def Let_def)
qed

lemma split_refused: "part_count parts < 2 \<Longrightarrow> split_segment py_str s u parts = Inl Too_few_parts"
  by (auto simp: split_segment_def part_count_def split: json.splits)

text \<open>
  Refusals. Removing a unit, or inserting an object behind one, fails exactly when the list of units is no list or no unit
  has that identifier, and says which; a split into fewer than two parts is refused; and no patch reaches the assets, the
  end frame, the planning marks or the identifier of a unit, whatever path below them it names.
\<close>

theorem edit_refusals_exact:
  "(remove_segment py_str s u = Inl e \<longleftrightarrow>
      (if \<exists>r. resolve_items s = Inr r then u \<notin> fst ` set (unit_view py_str s) \<and> e = Unit_not_found u
       else e = Items_not_list (resolve_script_kind s)))
   \<and> (insert_segment py_str s u (JObj n) = Inl e \<longleftrightarrow>
      (if \<exists>r. resolve_items s = Inr r then u \<notin> fst ` set (unit_view py_str s) \<and> e = Unit_not_found u
       else e = Items_not_list (resolve_script_kind s)))
   \<and> (part_count parts < 2 \<longrightarrow> split_segment py_str s u parts = Inl Too_few_parts)
   \<and> ([] \<notin> set (split_at (\<lambda>c. c = CHR ''.'') f) \<and> hd (split_at (\<lambda>c. c = CHR ''.'') f) \<in> set PROTECTED_FIELDS
        \<and> u \<in> fst ` set (unit_view py_str s) \<longrightarrow>
      patch_field py_str s u f v = Inl (Forbidden_field (hd (split_at (\<lambda>c. c = CHR ''.'') f))))"
proof (intro conjI impI)
  show "remove_segment py_str s u = Inl e \<longleftrightarrow>
      (if \<exists>r. resolve_items s = Inr r then u \<notin> fst ` set (unit_view py_str s) \<and> e = Unit_not_found u
       else e = Items_not_list (resolve_script_kind s))"
    using unit_refusal [of s py_str u "\<lambda>(items, idf, kind) (i, d). Inr (put_items kind (take i items @ drop (Suc i) items) s)" e]
    by (simp add: remove_segment_def split_def)
  show "insert_segment py_str s u (JObj n) = Inl e \<longleftrightarrow>
      (if \<exists>r. resolve_items s = Inr r then u \<notin> fst ` set (unit_view py_str s) \<and> e = Unit_not_found u
       else e = Items_not_list (resolve_script_kind s))"
    using unit_refusal [of s py_str u "\<lambda>(items, idf, kind) (i, d).
      Inr (put_items kind (insert_at (Suc i) [JObj (no_assets (dict_put idf (JStr (next_suffixed_id u (existing_ids py_str idf items))) n))] items) s)" e]
    by (simp add: insert_segment_def Let_def split_def)
qed (simp_all add: split_refused patch_refused)

theorem edit_refusals_exact_witness:
  "split_segment (\<lambda>v. []) ex_script ''E1S01'' (JList [JObj []]) = Inl Too_few_parts
   \<and> patch_field (\<lambda>v. []) ex_script ''E1S01'' ''generated_assets.video'' JNull = Inl (Forbidden_field ''generated_assets'')"
proof -
  have c: "part_count (JList [JObj []]) < 2" "[] \<notin> set (split_at (\<lambda>c. c = CHR ''.'') ''generated_assets.video'')"
      "hd (split_at (\<lambda>c. c = CHR ''.'') ''generated_assets.video'') = ''generated_assets''"
      "''generated_assets'' \<in> set PROTECTED_FIELDS" "''E1S01'' \<in> fst ` set (unit_view (\<lambda>v. []) ex_script)"
    by code_simp+
  show ?thesis
    using edit_refusals_exact [of "\<lambda>v. []" ex_script "''E1S01''" Bad_path "[]" "JList [JObj []]" "''generated_assets.video''" JNull] c by simp
qed

end
