(* ===== verification/ScriptBatch.thy ===== *)
theory ScriptBatch
  imports ScriptEdit
begin

text \<open>
  The transactional batch edit of an episode script: \<open>lib/script_batch_edit.py\<close>, with the planning marks of
  \<open>refresh_video_unit_replan_state\<close> (\<open>lib/speech_composition\<close>) and the derived references of
  \<open>rederive_unit_references\<close> (\<open>lib/reference_video/shot_parser.py\<close>).

  What the analysis of speech says of a unit, the references that the mentions of a text resolve to, the validators, the
  fingerprint of a script, the preparation of the manifest and the final write are fields of two records: the
  batch relies on nothing about them. The write either stores the script or raises and restores the
  files, as \<open>formal_write_transaction\<close> does. \<open>p0\<close> is the project as it is first read, \<open>p1\<close> as it is read
  under the locks; the store holds the scripts by file name, as they are read.
\<close>

subsection \<open>Operations of a batch\<close>

datatype script_op =
    Update_op string "(string \<times> json) list"
  | Insert_op "string option" doc
  | Move_op string "string option"
  | Remove_op string

datatype loc = LName string | LIndex nat

record location =
  lo_path :: "loc list"
  lo_line :: "nat option"

record edit_problem =
  ep_code :: string
  ep_operation_index :: "nat option"
  ep_unit_id :: "string option"
  ep_locations :: "location list"
  ep_reason :: string
  ep_next_action :: string

text \<open>\<open>'a\<close> is the admission of a unit; \<open>sp_problems\<close> are its problems, without an operation.\<close>

record 'a speech =
  sp_str :: "json \<Rightarrow> string"
  sp_same :: "json \<Rightarrow> json \<Rightarrow> bool"
  sp_admit :: "string \<Rightarrow> doc \<Rightarrow> 'a"
  sp_problems :: "'a \<Rightarrow> edit_problem list"
  sp_replan :: "doc \<Rightarrow> bool"
  sp_derive :: "doc \<Rightarrow> string \<Rightarrow> json list"

definition admit_ignoring :: "'a speech \<Rightarrow> string \<Rightarrow> doc \<Rightarrow> 'a" where
  "admit_ignoring sp kind u = sp_admit sp kind (dict_del ''needs_replan'' u)"

definition admission_for :: "'a speech \<Rightarrow> doc \<Rightarrow> string \<Rightarrow> 'a option" where
  "admission_for sp script uid =
     (case resolve_items script of Inl e \<Rightarrow> None
      | Inr (items, idf, kind) \<Rightarrow> map_option (\<lambda>(i, d). sp_admit sp kind d) (find_index (has_unit_id (sp_str sp) idf uid) items))"

definition shot_text :: "'a speech \<Rightarrow> doc \<Rightarrow> string" where
  "shot_text sp s = (if truthy (jget ''text'' s) then str_of (sp_str sp) (jget ''text'' s) else [])"

definition rederive_unit_references :: "'a speech \<Rightarrow> doc \<Rightarrow> doc \<Rightarrow> doc" where
  "rederive_unit_references sp project u =
     (case jget ''shots'' u of
        JList shots \<Rightarrow> dict_put ''references'' (JList (sp_derive sp project (join [CHR 0x0A] (map (shot_text sp) (objects shots))))) u
      | _ \<Rightarrow> u)"

definition refresh_video_unit_replan_state :: "'a speech \<Rightarrow> bool \<Rightarrow> bool \<Rightarrow> doc \<Rightarrow> doc" where
  "refresh_video_unit_replan_state sp allow_clear content_changed u0 =
     (let u = (if content_changed then dict_del ''migration_requires_content_replan'' u0 else u0);
          marked = dict_put ''needs_replan'' (JBool True) u;
          bad_duration = (case jget ''duration_seconds'' u of JInt n \<Rightarrow> n \<le> 0 | _ \<Rightarrow> True)
      in if jget ''migration_requires_content_replan'' u = JBool True then marked
         else if \<not> truthy (jget ''shots'' u) \<or> bad_duration then marked
         else if sp_replan sp u then marked
         else if allow_clear then dict_del ''needs_replan'' u else u)"

subsection \<open>Error locations\<close>

definition name_part :: "string \<Rightarrow> loc" where
  "name_part s = (if s \<noteq> [] \<and> list_all is_digit s then LIndex (read_nat s) else LName s)"

text \<open>The pattern \<open>([^.\[\]]+)|\[(\d+)\]\<close>, found from left to right.\<close>

fun path_parts :: "string \<Rightarrow> string \<Rightarrow> loc list" where
  "path_parts acc [] = (if acc = [] then [] else [name_part (rev acc)])"
| "path_parts acc (c # s) =
     (if c = CHR ''['' then
        (let ds = takeWhile is_digit s; r = dropWhile is_digit s in
         (if acc = [] then [] else [name_part (rev acc)]) @
         (if ds \<noteq> [] \<and> r \<noteq> [] \<and> hd r = CHR '']'' then LIndex (read_nat ds) # path_parts [] (drop (Suc (length ds)) s)
          else path_parts [] s))
      else if c = CHR ''.'' \<or> c = CHR '']'' then (if acc = [] then [] else [name_part (rev acc)]) @ path_parts [] s
      else path_parts (c # acc) s)"

fun dotted :: "string \<Rightarrow> string" where
  "dotted [] = []"
| "dotted (c # s) =
     (if c = CHR '':'' then CHR ''.'' # (case s of d # r \<Rightarrow> if d = CHR '' '' then dotted r else dotted s | [] \<Rightarrow> []) else c # dotted s)"

definition parse_loc :: "string \<Rightarrow> loc list" where
  "parse_loc v = path_parts [] (dotted v)"

type_synonym op_error = "edit_error \<times> loc list option"

definition at_loc :: "loc list \<Rightarrow> edit_error + 'b \<Rightarrow> op_error + 'b" where
  "at_loc l r = (case r of Inl e \<Rightarrow> Inl (e, Some l) | Inr x \<Rightarrow> Inr x)"

definition no_loc :: "edit_error + 'b \<Rightarrow> op_error + 'b" where
  "no_loc r = (case r of Inl e \<Rightarrow> Inl (e, None) | Inr x \<Rightarrow> Inr x)"

subsection \<open>Applying one operation\<close>

type_synonym 'a applied = "doc \<times> (string \<times> doc) list \<times> string \<times> 'a option \<times> 'a option"

fun patch_all :: "'a speech \<Rightarrow> doc \<Rightarrow> string \<Rightarrow> (string \<times> json) list \<Rightarrow> op_error + doc" where
  "patch_all sp script uid [] = Inr script"
| "patch_all sp script uid ((f, v) # fs) =
     bind_edit (at_loc (LName ''fields'' # parse_loc f) (patch_field (sp_str sp) script uid f v)) (\<lambda>s. patch_all sp s uid fs)"

text \<open>The unit at a position, which the code holds by reference.\<close>

definition unit_at :: "json list \<Rightarrow> nat \<Rightarrow> doc" where
  "unit_at items i = (if i < length items then (case items ! i of JObj d \<Rightarrow> d | _ \<Rightarrow> []) else [])"

definition field_roots :: "(string \<times> json) list \<Rightarrow> string list" where
  "field_roots fs = map (\<lambda>f. hd (split_at (\<lambda>c. c = CHR ''.'') (fst f))) fs"

definition settle_video_unit :: "'a speech \<Rightarrow> doc \<Rightarrow> string list \<Rightarrow> doc \<Rightarrow> doc \<Rightarrow> doc" where
  "settle_video_unit sp project roots d d' =
     (let body_changed = ''shots'' \<in> set roots \<and> \<not> sp_same sp (jget ''shots'' d') (jget ''shots'' d);
          d1 = (if body_changed \<and> ''references'' \<notin> set roots then rederive_unit_references sp project d' else d');
          references_changed = ''references'' \<in> set roots \<and> \<not> sp_same sp (jget ''references'' d1) (jget ''references'' d)
      in if \<exists>r \<in> set roots. r \<in> set [''shots'', ''references'', ''duration_seconds'']
         then refresh_video_unit_replan_state sp (body_changed \<or> references_changed \<or> ''duration_seconds'' \<in> set roots) body_changed d1
         else d1)"

definition settle_storyboard_unit :: "'a speech \<Rightarrow> string \<Rightarrow> doc \<Rightarrow> doc \<Rightarrow> doc" where
  "settle_storyboard_unit sp kind d d' =
     (let after = admit_ignoring sp kind d' in
      if after \<noteq> admit_ignoring sp kind d \<and> sp_problems sp after = [] then dict_del ''needs_replan'' d' else d')"

definition settled_unit :: "'a speech \<Rightarrow> doc \<Rightarrow> string \<Rightarrow> (string \<times> json) list \<Rightarrow> doc \<Rightarrow> doc \<Rightarrow> doc" where
  "settled_unit sp project kind fs d d' =
     (if kind = ''video_units'' then settle_video_unit sp project (field_roots fs) d d' else settle_storyboard_unit sp kind d d')"

definition apply_update ::
  "'a speech \<Rightarrow> doc \<Rightarrow> doc \<Rightarrow> (string \<times> doc) list \<Rightarrow> string \<Rightarrow> (string \<times> json) list \<Rightarrow> op_error + 'a applied" where
  "apply_update sp project script removed uid fs =
     bind_edit (no_loc (resolve_items script)) (\<lambda>(items, idf, kind).
     bind_edit (at_loc [LName ''id''] (find_unit (sp_str sp) items idf uid)) (\<lambda>(i, d).
     bind_edit (patch_all sp script uid fs) (\<lambda>s1.
     bind_edit (no_loc (resolve_items s1)) (\<lambda>(items1, _, _).
       let s2 = put_items kind (items1[i := JObj (settled_unit sp project kind fs d (unit_at items1 i))]) s1
       in Inr (s2, removed, uid, Some (sp_admit sp kind d), admission_for sp s2 uid)))))"

definition after_index :: "'a speech \<Rightarrow> json list \<Rightarrow> string \<Rightarrow> string option \<Rightarrow> op_error + nat" where
  "after_index sp items idf after_id =
     (case after_id of None \<Rightarrow> Inr 0
      | Some a \<Rightarrow> bind_edit (at_loc [LName ''after_id''] (find_unit (sp_str sp) items idf a)) (\<lambda>(i, d). Inr (Suc i)))"

text \<open>A unit removed earlier in the batch gives its assets back when it is inserted again.\<close>

definition restore_assets :: "doc option \<Rightarrow> doc \<Rightarrow> doc" where
  "restore_assets removed item = (case removed of None \<Rightarrow> no_assets item | Some r \<Rightarrow> carry_assets r item)"

definition settle_inserted :: "'a speech \<Rightarrow> doc \<Rightarrow> string \<Rightarrow> doc \<Rightarrow> doc" where
  "settle_inserted sp project kind item =
     (if kind = ''video_units''
      then refresh_video_unit_replan_state sp True True (if has_key ''references'' item then item else rederive_unit_references sp project item)
      else item)"

definition apply_insert ::
  "'a speech \<Rightarrow> doc \<Rightarrow> doc \<Rightarrow> (string \<times> doc) list \<Rightarrow> string option \<Rightarrow> doc \<Rightarrow> op_error + 'a applied" where
  "apply_insert sp project script removed after_id item =
     bind_edit (no_loc (resolve_items script)) (\<lambda>(items, idf, kind).
       let bad = [LName ''item'', LName idf] in
       case jget idf item of
         JStr uid \<Rightarrow>
           if uid = [] then Inl (Missing_id, Some bad)
           else if uid \<in> set (existing_ids (sp_str sp) idf items) then Inl (Duplicate_id, Some bad)
           else bind_edit (after_index sp items idf after_id) (\<lambda>n.
             let d = settle_inserted sp project kind (restore_assets (dict_get removed uid) item);
                 s = put_items kind (insert_at n [JObj d] items) script
             in Inr (s, dict_del uid removed, uid, None, admission_for sp s uid))
       | _ \<Rightarrow> Inl (Missing_id, Some bad))"

definition apply_move ::
  "'a speech \<Rightarrow> doc \<Rightarrow> (string \<times> doc) list \<Rightarrow> string \<Rightarrow> string option \<Rightarrow> op_error + 'a applied" where
  "apply_move sp script removed uid after_id =
     (if after_id = Some uid then Inl (Own_anchor, Some [LName ''after_id''])
      else bind_edit (no_loc (resolve_items script)) (\<lambda>(items, idf, kind).
        bind_edit (at_loc [LName ''id''] (find_unit (sp_str sp) items idf uid)) (\<lambda>(i, d).
          let rest = take i items @ drop (Suc i) items in
          bind_edit (after_index sp rest idf after_id) (\<lambda>n.
            let s = put_items kind (insert_at n [JObj d] rest) script
            in Inr (s, removed, uid, Some (sp_admit sp kind d), admission_for sp s uid)))))"

definition apply_remove :: "'a speech \<Rightarrow> doc \<Rightarrow> (string \<times> doc) list \<Rightarrow> string \<Rightarrow> op_error + 'a applied" where
  "apply_remove sp script removed uid =
     bind_edit (no_loc (resolve_items script)) (\<lambda>(items, idf, kind).
     bind_edit (at_loc [LName ''id''] (find_unit (sp_str sp) items idf uid)) (\<lambda>(i, d).
       Inr (put_items kind (take i items @ drop (Suc i) items) script, dict_put uid d removed, uid, Some (sp_admit sp kind d), None)))"

definition apply_operation ::
  "'a speech \<Rightarrow> doc \<Rightarrow> doc \<Rightarrow> (string \<times> doc) list \<Rightarrow> script_op \<Rightarrow> op_error + 'a applied" where
  "apply_operation sp project script removed op =
     (case op of
        Update_op uid fs \<Rightarrow> apply_update sp project script removed uid fs
      | Insert_op a item \<Rightarrow> apply_insert sp project script removed a item
      | Move_op uid a \<Rightarrow> apply_move sp script removed uid a
      | Remove_op uid \<Rightarrow> apply_remove sp script removed uid)"

subsection \<open>The batch\<close>

record batch_state =
  bs_script :: doc
  bs_removed :: "(string \<times> doc) list"
  bs_affected :: "string list"
  bs_touch :: "(string \<times> nat) list"
  bs_speech :: "(string \<times> nat) list"

fun run_ops :: "'a speech \<Rightarrow> doc \<Rightarrow> nat \<Rightarrow> script_op list \<Rightarrow> batch_state \<Rightarrow> (nat \<times> script_op \<times> op_error) + batch_state" where
  "run_ops sp project n [] st = Inr st"
| "run_ops sp project n (op # ops) st =
     (case apply_operation sp project (bs_script st) (bs_removed st) op of
        Inl e \<Rightarrow> Inl (n, op, e)
      | Inr (script, removed, uid, before, after) \<Rightarrow>
          run_ops sp project (Suc n) ops
            \<lparr>bs_script = script, bs_removed = removed,
             bs_affected = (if uid \<in> set (bs_affected st) then bs_affected st else bs_affected st @ [uid]),
             bs_touch = dict_put uid n (bs_touch st),
             bs_speech = (if before \<noteq> after then dict_put uid n (bs_speech st) else bs_speech st)\<rparr>)"

definition admissions :: "'a speech \<Rightarrow> doc \<Rightarrow> edit_error + (string \<times> 'a) list" where
  "admissions sp script =
     bind_edit (resolve_items script) (\<lambda>(items, idf, kind).
       Inr (fold (\<lambda>d acc. case jget idf d of JStr uid \<Rightarrow> dict_put uid (sp_admit sp kind d) acc | _ \<Rightarrow> acc) (objects items) []))"

definition new_speech_problems ::
  "'a speech \<Rightarrow> (string \<times> 'a) list \<Rightarrow> (string \<times> 'a) list \<Rightarrow> (string \<times> nat) list \<Rightarrow> (string \<times> nat) list \<Rightarrow> edit_problem list" where
  "new_speech_problems sp before after speech_change last_touch =
     concat (map (\<lambda>(uid, adm).
       if sp_problems sp adm = [] \<or> dict_get before uid = Some adm then []
       else let index = (case dict_get speech_change uid of Some n \<Rightarrow> Some n | None \<Rightarrow> dict_get last_touch uid);
                others = filter (\<lambda>p. ep_code p \<noteq> ''needs_replan'') (sp_problems sp adm)
            in map (\<lambda>p. p\<lparr>ep_operation_index := index\<rparr>) (if others \<noteq> [] then others else sp_problems sp adm)) after)"

definition operation_id :: "script_op \<Rightarrow> string option" where
  "operation_id op =
     (case op of
        Insert_op a item \<Rightarrow>
          map_option (\<lambda>f. case jget f item of JStr s \<Rightarrow> s | _ \<Rightarrow> [])
            (find (\<lambda>f. case jget f item of JStr s \<Rightarrow> True | _ \<Rightarrow> False) [''segment_id'', ''scene_id'', ''shot_id'', ''unit_id''])
      | Update_op uid fs \<Rightarrow> Some uid | Move_op uid a \<Rightarrow> Some uid | Remove_op uid \<Rightarrow> Some uid)"

definition operation_error_location :: "nat \<Rightarrow> script_op \<Rightarrow> op_error \<Rightarrow> location" where
  "operation_error_location n op e =
     \<lparr>lo_path = [LName ''operations'', LIndex n] @
        (case snd e of Some l \<Rightarrow> l
         | None \<Rightarrow> (case op of
              Update_op uid fs \<Rightarrow> LName ''fields'' # map LName (split_at (\<lambda>c. c = CHR ''.'') (case fs of [] \<Rightarrow> ''fields'' | (f, v) # _ \<Rightarrow> f))
            | Insert_op a item \<Rightarrow> [LName ''item'']
            | _ \<Rightarrow> [LName ''id''])),
      lo_line = None\<rparr>"

record message =
  ms_key :: string
  ms_prefix :: "string option"
  ms_field :: "string option"
  ms_rendered :: string

definition validation_path :: "message \<Rightarrow> loc list" where
  "validation_path m =
     (case ms_prefix m of
        Some p \<Rightarrow>
          (let path = parse_loc p in
           case ms_field m of
             Some f \<Rightarrow> (let fp = parse_loc f in if take (length path) fp = path then path else path @ fp)
           | None \<Rightarrow> if ms_key m = ''val_reference_not_in_bucket'' then path @ [LName ''references''] else path)
      | None \<Rightarrow>
          (case ms_field m of Some f \<Rightarrow> parse_loc f
           | None \<Rightarrow> parse_loc (hd (split_at (\<lambda>c. c = CHR '':'') (ms_rendered m)))))"

definition unit_id_at_location :: "doc \<Rightarrow> loc list \<Rightarrow> string option" where
  "unit_id_at_location script path =
     (case resolve_items script of Inl e \<Rightarrow> None
      | Inr (items, idf, kind) \<Rightarrow>
          (case path of
             LName k # LIndex i # _ \<Rightarrow>
               if k = kind \<and> i < length items
               then (case items ! i of JObj d \<Rightarrow> (case jget idf d of JStr s \<Rightarrow> Some s | _ \<Rightarrow> None) | _ \<Rightarrow> None) else None
           | _ \<Rightarrow> None))"

definition field_affects_location :: "string \<Rightarrow> loc list \<Rightarrow> bool" where
  "field_affects_location field path =
     (let fp = parse_loc field in
      take (length path) fp = path \<or> take (length fp) path = fp
      \<or> (path \<noteq> [] \<and> hd path = LName ''references'' \<and> fp \<noteq> [] \<and> hd fp = LName ''shots''))"

fun last_responsible :: "string \<Rightarrow> loc list \<Rightarrow> nat \<Rightarrow> script_op list \<Rightarrow> nat option" where
  "last_responsible uid path n [] = None"
| "last_responsible uid path n (op # ops) =
     (case last_responsible uid path (Suc n) ops of Some k \<Rightarrow> Some k
      | None \<Rightarrow>
          (case op of
             Update_op u fs \<Rightarrow> if u = uid \<and> (\<exists>f \<in> set fs. field_affects_location (fst f) path) then Some n else None
           | Insert_op a item \<Rightarrow> if operation_id op = Some uid then Some n else None
           | _ \<Rightarrow> None))"

definition responsible_operation :: "string option \<Rightarrow> loc list \<Rightarrow> script_op list \<Rightarrow> nat option" where
  "responsible_operation uid path ops =
     (case (uid, path) of
        (Some u, a # LIndex i # r # rs) \<Rightarrow> last_responsible u (r # rs) 0 ops
      | _ \<Rightarrow> None)"

definition candidate_validation_errors :: "doc \<Rightarrow> message list \<Rightarrow> message list" where
  "candidate_validation_errors candidate errors =
     (case resolve_items candidate of
        Inr ([], _, _) \<Rightarrow> filter (\<lambda>m. ms_key m \<notin> {''val_array_empty'', ''val_ad_shots_missing'', ''val_video_units_missing''}) errors
      | _ \<Rightarrow> errors)"

subsection \<open>The target\<close>

text \<open>\<open>posixpath.normpath\<close>, component by component.\<close>

definition norm_step :: "bool \<Rightarrow> string \<Rightarrow> string list \<Rightarrow> string list" where
  "norm_step rooted c acc =
     (if c = [] \<or> c = ''.'' then acc
      else if c \<noteq> ''..'' \<or> (\<not> rooted \<and> acc = []) \<or> (acc \<noteq> [] \<and> hd acc = ''..'') then c # acc
      else tl acc)"

definition posix_normpath :: "string \<Rightarrow> string" where
  "posix_normpath s =
     (let slashes = (if take 3 s = ''///'' then ''/'' else if take 2 s = ''//'' then ''//'' else if take 1 s = ''/'' then ''/'' else []);
          body = slashes @ join ''/'' (rev (fold (norm_step (slashes \<noteq> [])) (split_at (\<lambda>c. c = CHR ''/'') s) []))
      in if body = [] then ''.'' else body)"

definition normalize_script_filename :: "string \<Rightarrow> string" where
  "normalize_script_filename s =
     (let n = posix_normpath s; r = (case strip_prefix ''scripts/'' n of Some r \<Rightarrow> r | None \<Rightarrow> n) in if r = ''.'' then [] else r)"

definition episode_script_filename :: "int \<Rightarrow> string" where
  "episode_script_filename n = ''episode_'' @ show_int n @ ''.json''"

text \<open>\<open>episode[-_\s]*(\d+)\<close>, in any case, at the first place that matches.\<close>

definition episode_here :: "string \<Rightarrow> nat option" where
  "episode_here s =
     (case strip_prefix ''episode'' (lower s) of None \<Rightarrow> None
      | Some r \<Rightarrow> let ds = takeWhile is_digit (dropWhile (\<lambda>c. c = CHR ''-'' \<or> c = CHR ''_'' \<or> is_space c) r)
                   in if ds = [] then None else Some (read_nat ds))"

fun filename_episode :: "string \<Rightarrow> nat option" where
  "filename_episode [] = None"
| "filename_episode (c # s) = (case episode_here (c # s) of Some n \<Rightarrow> Some n | None \<Rightarrow> filename_episode s)"

record edit_command =
  ec_script :: "string option"
  ec_episode :: "int option"
  ec_expected_file :: "string option"
  ec_expected_revision :: string
  ec_operations :: "script_op list"

definition safe_script_filename :: "string \<Rightarrow> bool" where
  "safe_script_filename v =
     (let n = (case strip_prefix ''scripts/'' v of Some r \<Rightarrow> r | None \<Rightarrow> v) in
      n \<noteq> [] \<and> n \<noteq> ''.'' \<and> n \<noteq> ''..'' \<and> CHR ''/'' \<notin> set n \<and> backslash \<notin> set n \<and> 5 \<le> length n \<and> drop (length n - 5) n = ''.json'')"

definition revision_pattern :: "string \<Rightarrow> bool" where
  "revision_pattern v =
     (case strip_prefix ''sha256-v1:'' v of None \<Rightarrow> False
      | Some h \<Rightarrow> length h = 64 \<and> list_all (\<lambda>c. is_digit c \<or> c \<in> set ''abcdef'') h)"

definition valid_command :: "edit_command \<Rightarrow> bool" where
  "valid_command c \<longleftrightarrow> revision_pattern (ec_expected_revision c) \<and>
     (\<forall>v \<in> set_option (ec_script c) \<union> set_option (ec_expected_file c). safe_script_filename v)
     \<and> (\<forall>e \<in> set_option (ec_episode c). 1 \<le> e) \<and> ec_operations c \<noteq> []
     \<and> (ec_script c = None) \<noteq> (ec_episode c = None) \<and> (ec_expected_file c \<noteq> None \<longrightarrow> ec_episode c \<noteq> None)"

datatype target_error = Not_bound | Rebound

definition resolve_script_file :: "'a speech \<Rightarrow> edit_command \<Rightarrow> doc \<Rightarrow> target_error + string" where
  "resolve_script_file sp c project =
     (case ec_script c of Some f \<Rightarrow> Inr (normalize_script_filename f)
      | None \<Rightarrow>
          (case jget ''episodes'' project of
             JList es \<Rightarrow>
               (case find (\<lambda>d. sp_same sp (jget ''episode'' d) (case ec_episode c of Some e \<Rightarrow> JInt e | None \<Rightarrow> JNull)) (objects es) of
                  None \<Rightarrow> Inl Not_bound
                | Some d \<Rightarrow>
                    (case jget ''script_file'' d of
                       JStr f \<Rightarrow>
                         (let bound = normalize_script_filename f in
                          if ec_expected_file c \<noteq> None \<and> map_option normalize_script_filename (ec_expected_file c) \<noteq> Some bound
                          then Inl Rebound else Inr bound)
                     | _ \<Rightarrow> Inl Not_bound))
           | _ \<Rightarrow> Inl Not_bound))"

subsection \<open>The transaction\<close>

record deps =
  dp_revision :: "doc \<Rightarrow> string"
  dp_readable :: "doc \<Rightarrow> bool"
  dp_structure :: "doc \<Rightarrow> message list"
  dp_references :: "doc \<Rightarrow> doc \<Rightarrow> message list"
  dp_manifest :: "doc \<Rightarrow> doc \<Rightarrow> string \<Rightarrow> string set \<Rightarrow> string set \<Rightarrow> bool"
  dp_persist :: "doc \<Rightarrow> doc \<Rightarrow> doc option"

record edit_result =
  er_success :: bool
  er_script :: string
  er_episode :: "int option"
  er_before_revision :: string
  er_revision :: string
  er_affected_ids :: "string list"
  er_problems :: "edit_problem list"

definition problems_result :: "string \<Rightarrow> int option \<Rightarrow> string \<Rightarrow> edit_problem list \<Rightarrow> edit_result" where
  "problems_result script episode revision ps =
     \<lparr>er_success = False, er_script = script, er_episode = episode, er_before_revision = revision, er_revision = revision,
      er_affected_ids = [], er_problems = ps\<rparr>"

definition edit_failure ::
  "string \<Rightarrow> int option \<Rightarrow> string \<Rightarrow> string \<times> string \<times> string \<Rightarrow> nat option \<Rightarrow> string option \<Rightarrow> location list \<Rightarrow> edit_result" where
  "edit_failure script episode revision what index uid locations =
     problems_result script episode revision
       [\<lparr>ep_code = fst what, ep_operation_index = index, ep_unit_id = uid, ep_locations = locations,
         ep_reason = fst (snd what), ep_next_action = snd (snd what)\<rparr>]"

definition validation_failure ::
  "string \<Rightarrow> int option \<Rightarrow> string \<Rightarrow> string \<Rightarrow> string \<Rightarrow> doc \<Rightarrow> script_op list \<Rightarrow> message \<Rightarrow> edit_result" where
  "validation_failure script episode revision code reason candidate ops m =
     (let path = validation_path m; uid = unit_id_at_location candidate path; n = responsible_operation uid path ops
      in edit_failure script episode revision (code, reason, if n \<noteq> None then ''fix_operation'' else ''repair_script'')
           n uid [\<lparr>lo_path = path, lo_line = None\<rparr>])"

definition episode_number :: "edit_command \<Rightarrow> doc \<Rightarrow> int option" where
  "episode_number c candidate =
     (case (ec_episode c, jget ''episode'' candidate) of (None, JInt n) \<Rightarrow> Some n | (e, _) \<Rightarrow> e)"

definition expected_episode :: "edit_command \<Rightarrow> string \<Rightarrow> int option" where
  "expected_episode c file = (case ec_episode c of Some e \<Rightarrow> Some e | None \<Rightarrow> map_option int (filename_episode file))"

definition fresh_state :: "doc \<Rightarrow> batch_state" where
  "fresh_state script = \<lparr>bs_script = script, bs_removed = [], bs_affected = [], bs_touch = [], bs_speech = []\<rparr>"

text \<open>After the operations: the checks of the candidate and the write. The first component is what is stored.\<close>

definition commit_candidate ::
  "'a speech \<Rightarrow> deps \<Rightarrow> doc \<Rightarrow> edit_command \<Rightarrow> string \<Rightarrow> int option \<Rightarrow> string \<Rightarrow> (string \<times> 'a) list \<Rightarrow> batch_state \<Rightarrow> doc option \<times> edit_result" where
  "commit_candidate sp dp project c file episode revision before st =
     (let candidate = bs_script st;
          after = (case admissions sp candidate of Inr a \<Rightarrow> a | Inl e \<Rightarrow> []);
          speech = new_speech_problems sp before after (bs_speech st) (bs_touch st);
          references = candidate_validation_errors candidate (dp_references dp project candidate);
          commit_failed = edit_failure file episode revision (''commit_failed'', ''durable_commit_failed'', ''retry'') None None []
      in if speech \<noteq> [] then (None, problems_result file episode revision speech)
         else case dp_structure dp candidate of
           m # ms \<Rightarrow> (None, validation_failure file episode revision ''schema_invalid'' ''candidate_schema_invalid'' candidate (ec_operations c) m)
         | [] \<Rightarrow> (case references of
             m # ms \<Rightarrow> (None, validation_failure file episode revision ''references_invalid'' ''candidate_references_invalid'' candidate (ec_operations c) m)
           | [] \<Rightarrow> (case resolve_items candidate of
               Inl e \<Rightarrow> (None, edit_failure file episode revision (''manifest_invalid'', ''artifact_manifest_unavailable'', ''retry'') None None [])
             | Inr (items, idf, kind) \<Rightarrow>
                 (case as_docs items of
                    None \<Rightarrow> (None, commit_failed)
                  | Some ds \<Rightarrow>
                      (let ids = set (concat (map (\<lambda>d. case jget idf d of JStr s \<Rightarrow> [s] | _ \<Rightarrow> []) ds)) in
                       if \<not> dp_manifest dp project candidate file ids (set (bs_affected st) - ids)
                       then (None, edit_failure file episode revision (''manifest_invalid'', ''artifact_manifest_unavailable'', ''retry'') None None [])
                       else case dp_persist dp project candidate of
                           None \<Rightarrow> (None, commit_failed)
                         | Some stored \<Rightarrow>
                             (Some stored, \<lparr>er_success = True, er_script = file, er_episode = episode, er_before_revision = revision,
                                er_revision = dp_revision dp stored, er_affected_ids = bs_affected st, er_problems = []\<rparr>))))))"

definition edit_locked :: "'a speech \<Rightarrow> deps \<Rightarrow> doc \<Rightarrow> edit_command \<Rightarrow> string \<Rightarrow> doc \<Rightarrow> doc option \<times> edit_result" where
  "edit_locked sp dp project c file script =
     (let revision = dp_revision dp script; episode = episode_number c script;
          fail = edit_failure file episode revision in
      if ec_expected_revision c \<noteq> revision
      then (None, fail (''revision_conflict'', ''revision_mismatch'', ''refresh_script'') None None [])
      else if (case expected_episode c file of None \<Rightarrow> False | Some e \<Rightarrow> \<not> sp_same sp (jget ''episode'' script) (JInt e))
      then (None, fail (''schema_invalid'', ''episode_binding_mismatch'', ''refresh_script'') None None [\<lparr>lo_path = [LName ''episode''], lo_line = None\<rparr>])
      else case admissions sp script of
          Inl e \<Rightarrow> (None, fail (''schema_invalid'', ''stored_schema_invalid'', ''repair_script'') None None
                      (case e of Items_not_list kind \<Rightarrow> [\<lparr>lo_path = [LName kind], lo_line = None\<rparr>] | _ \<Rightarrow> []))
        | Inr before \<Rightarrow>
            (case run_ops sp project 0 (ec_operations c) (fresh_state script) of
               Inl (n, op, e) \<Rightarrow>
                 (None, fail (''operation_invalid'', ''operation_invalid'', ''fix_operation'') (Some n) (operation_id op) [operation_error_location n op e])
             | Inr st \<Rightarrow> commit_candidate sp dp project c file episode revision before st))"

datatype edit_outcome = Raises_not_found | Edited edit_result

definition initial_script :: "edit_command \<Rightarrow> string" where
  "initial_script c =
     (case ec_script c of Some f \<Rightarrow> normalize_script_filename f
      | None \<Rightarrow> (case ec_expected_file c of
            Some f \<Rightarrow> let n = normalize_script_filename f in
              if n \<noteq> [] then n else episode_script_filename (case ec_episode c of Some e \<Rightarrow> e | None \<Rightarrow> 0)
          | None \<Rightarrow> episode_script_filename (case ec_episode c of Some e \<Rightarrow> e | None \<Rightarrow> 0)))"

definition execute ::
  "'a speech \<Rightarrow> deps \<Rightarrow> doc \<Rightarrow> doc \<Rightarrow> (string \<times> doc) list \<Rightarrow> edit_command \<Rightarrow> (string \<times> doc) list \<times> edit_outcome" where
  "execute sp dp p0 p1 store c =
     (let rebound = (\<lambda>file. Edited (edit_failure file (ec_episode c) (ec_expected_revision c)
            (''revision_conflict'', ''script_binding_changed'', ''refresh_script'') None None []))
      in case resolve_script_file sp c p0 of
           Inl Not_bound \<Rightarrow> (store, Raises_not_found)
         | Inl Rebound \<Rightarrow> (store, rebound (initial_script c))
         | Inr f0 \<Rightarrow>
             if \<not> dp_readable dp p1
             then (store, Edited (edit_failure f0 (ec_episode c) (ec_expected_revision c) (''commit_failed'', ''durable_commit_failed'', ''retry'') None None []))
             else (case resolve_script_file sp c p1 of
                 Inl Not_bound \<Rightarrow> (store, Raises_not_found)
               | Inl Rebound \<Rightarrow> (store, rebound f0)
               | Inr f1 \<Rightarrow>
                   if normalize_script_filename f1 \<noteq> normalize_script_filename f0 then (store, rebound f1)
                   else (case dict_get store (normalize_script_filename f0) of
                       None \<Rightarrow> (store, Raises_not_found)
                     | Some script \<Rightarrow>
                         (case edit_locked sp dp p1 c f1 script of
                            (None, r) \<Rightarrow> (store, Edited r)
                          | (Some stored, r) \<Rightarrow> (dict_put (normalize_script_filename f0) stored store, Edited r)))))"

subsection \<open>The operations on the held units\<close>

definition shape :: "(json \<Rightarrow> string) \<Rightarrow> string \<Rightarrow> json \<Rightarrow> entry option" where
  "shape py_str idf item = (case item of JObj d \<Rightarrow> Some (entry_of py_str idf d) | _ \<Rightarrow> None)"

lemma objects_shapes:
  "map (entry_of py_str idf) (objects items) = concat (map (\<lambda>x. case x of None \<Rightarrow> [] | Some e \<Rightarrow> [e]) (map (shape py_str idf) items))"
  by (induction items) (auto simp: objects_def shape_def split: json.splits)

lemma map_update_same: "i < length xs \<Longrightarrow> f y = f (xs ! i) \<Longrightarrow> map f (xs[i := y]) = map f xs"
  by (simp add: map_update list_update_same_conv)

lemma patch_field_shapes:
  assumes "patch_field py_str s u f v = Inr s'" "resolve_items s = Inr (items, idf, kind)"
  shows "\<exists>items'. resolve_items s' = Inr (items', idf, kind) \<and> map (shape py_str idf) items' = map (shape py_str idf) items"
proof -
  obtain i d d' where p: "find_unit py_str items idf u = Inr (i, d)" "set_nested d f v = Inr d'" "s' = put_items kind (items[i := JObj d']) s"
    using patch_field_shape [OF assms(1)] assms(2) by (metis Inr_inject Pair_inject)
  note fi = find_index_Some [OF found_unit(2) [OF assms(2) p(1)]]
  have "shape py_str idf (JObj d') = shape py_str idf (items ! i)"
    using fi(2) set_nested_entry [OF p(2) resolve_items_id_field(1) [OF assms(2)]] by (simp add: shape_def)
  then have "map (shape py_str idf) (items[i := JObj d']) = map (shape py_str idf) items"
    by (rule map_update_same [OF fi(1)])
  then show ?thesis using resolve_put_items [OF assms(2)] found_unit(1) [OF assms(2) p(1)] p(3) by simp
qed

lemma patch_all_shapes:
  assumes "patch_all sp s u fs = Inr s'" "resolve_items s = Inr (items, idf, kind)"
  shows "\<exists>items'. resolve_items s' = Inr (items', idf, kind) \<and> map (shape (sp_str sp) idf) items' = map (shape (sp_str sp) idf) items"
  using assms
proof (induction fs arbitrary: s items)
  case (Cons fv fs)
  obtain f v where fv: "fv = (f, v)" by (cases fv)
  obtain s1 where s1: "patch_field (sp_str sp) s u f v = Inr s1" "patch_all sp s1 u fs = Inr s'"
    using Cons.prems(1) by (auto simp: fv bind_edit_Inr at_loc_def split: sum.splits)
  then show ?case using patch_field_shapes [OF s1(1) Cons.prems(2)] Cons.IH [OF s1(2)] by metis
qed simp

text \<open>Derived references and planning marks are no part of an entry.\<close>

lemma rederive_entry: "idf \<noteq> ''references'' \<Longrightarrow> entry_of py_str idf (rederive_unit_references sp project u) = entry_of py_str idf u"
  by (intro entry_cong) (auto simp: rederive_unit_references_def dict_get_put split: json.splits)

lemma refresh_other:
  "k \<noteq> ''needs_replan'' \<Longrightarrow> k \<noteq> ''migration_requires_content_replan'' \<Longrightarrow>
     dict_get (refresh_video_unit_replan_state sp allow changed u) k = dict_get u k"
  by (auto simp: refresh_video_unit_replan_state_def Let_def dict_get_put dict_get_del)

lemma refresh_entry:
  "idf \<noteq> ''needs_replan'' \<Longrightarrow> idf \<noteq> ''migration_requires_content_replan'' \<Longrightarrow>
     entry_of py_str idf (refresh_video_unit_replan_state sp allow changed u) = entry_of py_str idf u"
  by (intro entry_cong refresh_other) auto

lemmas id_field_facts = resolve_items_id_field

lemma settle_video_entry:
  assumes "idf \<noteq> ''references''" "idf \<noteq> ''needs_replan''" "idf \<noteq> ''migration_requires_content_replan''"
  shows "entry_of py_str idf (settle_video_unit sp project roots d d') = entry_of py_str idf d'"
  using assms by (simp add: settle_video_unit_def Let_def refresh_entry rederive_entry)

lemma settle_storyboard_entry:
  "idf \<noteq> ''needs_replan'' \<Longrightarrow> entry_of py_str idf (settle_storyboard_unit sp kind d d') = entry_of py_str idf d'"
  by (intro entry_cong) (auto simp: settle_storyboard_unit_def Let_def dict_get_del)

lemma settle_inserted_entry:
  assumes "idf \<noteq> ''references''" "idf \<noteq> ''needs_replan''" "idf \<noteq> ''migration_requires_content_replan''"
  shows "entry_of py_str idf (settle_inserted sp project kind item) = entry_of py_str idf item"
  using assms by (simp add: settle_inserted_def refresh_entry rederive_entry)

lemma restore_assets_entry:
  assumes "idf \<noteq> ''generated_assets''" "idf \<noteq> ''end_frame_image''" "jget idf item = JStr u"
  shows "entry_of py_str idf (restore_assets r item) = (u, case r of None \<Rightarrow> bare | Some d \<Rightarrow> unit_assets d)"
proof -
  have "dict_get item idf = Some (JStr u)" using assms(3) by (auto simp: jget_def dict_get_default_def split: option.splits)
  then have same: "entry_of py_str idf (restore_assets r item) = entry_of py_str idf (restore_assets r (dict_put idf (JStr u) item))"
    using assms(1,2)
    by (intro entry_cong) (auto simp: restore_assets_def no_assets_def carry_assets_def Let_def dict_get_put dict_get_del split: option.splits)
  then show ?thesis
    using carry_assets_entry [OF assms(1,2)] no_assets_entry [OF assms(1,2)] by (simp add: restore_assets_def split: option.splits)
qed

lemma loc_Inr [simp]: "at_loc l r = Inr x \<longleftrightarrow> r = Inr x" "no_loc r = Inr x \<longleftrightarrow> r = Inr x"
  by (auto simp: at_loc_def no_loc_def split: sum.splits)

lemma update_shape:
  assumes "apply_update sp project s removed uid fs = Inr (s', removed', uid', b, a)"
  obtains items idf kind i d s1 items1 idf1 kind1
  where "resolve_items s = Inr (items, idf, kind)" "find_unit (sp_str sp) items idf uid = Inr (i, d)"
    "patch_all sp s uid fs = Inr s1" "resolve_items s1 = Inr (items1, idf1, kind1)"
    "s' = put_items kind (items1[i := JObj (settled_unit sp project kind fs d (unit_at items1 i))]) s1" "removed' = removed" "uid' = uid"
  using assms that by (auto simp: apply_update_def bind_edit_Inr Let_def)

lemma update_view:
  assumes u: "apply_update sp project s removed uid fs = Inr (s', removed', uid', b, a)"
  shows "unit_view (sp_str sp) s' = unit_view (sp_str sp) s"
proof -
  let ?p = "sp_str sp"
  obtain items idf kind i d s1 items1 idf1 kind1 where r: "resolve_items s = Inr (items, idf, kind)"
    and f: "find_unit ?p items idf uid = Inr (i, d)" and s1: "patch_all sp s uid fs = Inr s1" "resolve_items s1 = Inr (items1, idf1, kind1)"
    and s': "s' = put_items kind (items1[i := JObj (settled_unit sp project kind fs d (unit_at items1 i))]) s1"
    by (rule update_shape [OF u])
  define d2 where "d2 = settled_unit sp project kind fs d (unit_at items1 i)"
  have r1: "resolve_items s1 = Inr (items1, idf, kind)" and sh: "map (shape ?p idf) items1 = map (shape ?p idf) items"
    using patch_all_shapes [OF s1(1) r] s1(2) by auto
  note fi = find_index_Some [OF found_unit(2) [OF r f]]
  have len: "i < length items1" using fi(1) sh map_eq_imp_length_eq by metis
  have sh_i: "shape ?p idf (items1 ! i) = Some (entry_of ?p idf d)"
    using arg_cong [OF sh, of "\<lambda>l. l ! i"] fi(1,2) len by (simp add: shape_def)
  then obtain d1 where d1: "items1 ! i = JObj d1" "entry_of ?p idf d1 = entry_of ?p idf d" by (auto simp: shape_def split: json.splits)
  have "entry_of ?p idf d2 = entry_of ?p idf d1"
    using id_field_facts(4-6) [OF r] len d1(1) by (simp add: d2_def settled_unit_def unit_at_def settle_video_entry settle_storyboard_entry)
  then have "shape ?p idf (JObj d2) = shape ?p idf (items1 ! i)" by (simp add: shape_def d1(1))
  then have "map (shape ?p idf) (items1[i := JObj d2]) = map (shape ?p idf) items1" by (rule map_update_same [OF len])
  moreover have "has_key kind s1" using len resolve_items_missing [OF r1] by fastforce
  ultimately have "unit_view ?p s' = map (entry_of ?p idf) (objects items)"
    unfolding s' unit_view_put [OF r1 \<open>has_key kind s1\<close>] objects_shapes using sh by (simp add: d2_def)
  then show ?thesis by (simp add: view_of [OF r])
qed

text \<open>What an operation other than an update does to the list of units.\<close>

lemma insert_shape:
  assumes "apply_insert sp project s removed after_id item = Inr (s', removed', uid, b, a)"
  obtains items idf kind n where "resolve_items s = Inr (items, idf, kind)" "jget idf item = JStr uid"
    "uid \<notin> set (existing_ids (sp_str sp) idf items)" "after_index sp items idf after_id = Inr n"
    "s' = put_items kind (insert_at n [JObj (settle_inserted sp project kind (restore_assets (dict_get removed uid) item))] items) s"
    "removed' = dict_del uid removed"
proof -
  obtain items idf kind where r: "resolve_items s = Inr (items, idf, kind)"
    using assms by (auto simp: apply_insert_def bind_edit_Inr)
  obtain u where u: "jget idf item = JStr u" "u \<noteq> []" "u \<notin> set (existing_ids (sp_str sp) idf items)"
    using assms by (auto simp: apply_insert_def r no_loc_def Let_def split: json.splits if_splits)
  then show thesis
    using assms that [OF r] by (auto simp: apply_insert_def r no_loc_def Let_def bind_edit_Inr)
qed

lemma move_shape:
  assumes "apply_move sp s removed uid after_id = Inr (s', removed', uid', b, a)"
  obtains items idf kind i d n where "resolve_items s = Inr (items, idf, kind)" "find_unit (sp_str sp) items idf uid = Inr (i, d)"
    "s' = put_items kind (insert_at n [JObj d] (take i items @ drop (Suc i) items)) s" "removed' = removed" "uid' = uid"
  using assms that by (auto simp: apply_move_def bind_edit_Inr Let_def split: if_splits)

lemma remove_shape:
  assumes "apply_remove sp s removed uid = Inr (s', removed', uid', b, a)"
  obtains items idf kind i d where "resolve_items s = Inr (items, idf, kind)" "find_unit (sp_str sp) items idf uid = Inr (i, d)"
    "s' = put_items kind (take i items @ drop (Suc i) items) s" "removed' = dict_put uid d removed" "uid' = uid"
  using assms that by (auto simp: apply_remove_def bind_edit_Inr)

lemma found_split:
  assumes "resolve_items s = Inr (items, idf, kind)" "find_unit py_str items idf u = Inr (i, d)"
  shows "\<exists>xs ys. unit_view py_str s = xs @ (u, unit_assets d) # ys
    \<and> map (entry_of py_str idf) (objects (take i items @ drop (Suc i) items)) = xs @ ys"
proof -
  note fi = found_unit(2) [OF assms]
  have "map (entry_of py_str idf) (objects items) = map (entry_of py_str idf) (objects (take i items))
      @ entry_of py_str idf d # map (entry_of py_str idf) (objects (drop (Suc i) items))"
    by (subst objects_replaced(3) [OF fi]) simp
  then show ?thesis using objects_replaced(2) [OF fi] by (auto simp: view_of [OF assms(1)] entry_of_def)
qed

lemma objects_insert_at:
  "\<exists>xs ys. map (entry_of py_str idf) (objects items) = xs @ ys
     \<and> map (entry_of py_str idf) (objects (insert_at n [JObj d] items)) = xs @ entry_of py_str idf d # ys"
proof -
  have "objects items = objects (take n items) @ objects (drop n items)" by (metis append_take_drop_id objects_simps(3))
  then show ?thesis by (auto simp: insert_at_def)
qed

subsection \<open>Steps on the held units\<close>

text \<open>The batch as a machine over the held units and the assets of the units removed so far.\<close>

inductive view_step :: "entry list \<Rightarrow> (string \<rightharpoonup> json \<times> json) \<Rightarrow> string \<Rightarrow> entry list \<Rightarrow> (string \<rightharpoonup> json \<times> json) \<Rightarrow> bool" where
  keep: "u \<in> fst ` set w \<Longrightarrow> view_step w R u w R"
| add: "u \<notin> fst ` set (xs @ ys) \<Longrightarrow>
    view_step (xs @ ys) R u (xs @ (u, case R u of None \<Rightarrow> bare | Some a \<Rightarrow> a) # ys) (R(u := None))"
| move: "xs @ ys = xs' @ ys' \<Longrightarrow> view_step (xs @ (u, a) # ys) R u (xs' @ (u, a) # ys') R"
| drop: "view_step (xs @ (u, a) # ys) R u (xs @ ys) (R(u \<mapsto> a))"

definition kept_assets :: "(string \<times> doc) list \<Rightarrow> string \<rightharpoonup> json \<times> json" where
  "kept_assets removed = (\<lambda>u. map_option unit_assets (dict_get removed u))"

lemma kept_assets_simps:
  "kept_assets (dict_del u removed) = (kept_assets removed)(u := None)"
  "kept_assets (dict_put u d removed) = (kept_assets removed)(u \<mapsto> unit_assets d)"
  by (auto simp: kept_assets_def dict_get_del dict_get_put)

definition editable :: "doc \<Rightarrow> bool" where
  "editable s \<longleftrightarrow> has_key (resolve_script_kind s) s"

lemma editable_put:
  assumes "resolve_items s = Inr (items, idf, kind)" "editable s"
  shows "editable (put_items kind items' s) \<and> has_key kind s"
proof -
  have k: "kind = resolve_script_kind s" using resolve_items_kind [OF assms(1)] by blast
  then have h: "has_key kind s" using assms(2) by (simp add: editable_def)
  then have "resolve_script_kind (put_items kind items' s) = kind"
    using script_kind_put script_kind_mem [of s] k by (simp add: put_items_def)
  moreover have "has_key kind (put_items kind items' s)" using h by (simp add: put_items_def has_key_def dict_get_put)
  ultimately show ?thesis using h by (simp add: editable_def)
qed

lemma editable_patch: "patch_field py_str s u f v = Inr s' \<Longrightarrow> editable s \<Longrightarrow> editable s'"
  by (elim patch_field_shape) (simp add: editable_put)

lemma editable_patch_all: "patch_all sp s u fs = Inr s' \<Longrightarrow> editable s \<Longrightarrow> editable s'"
proof (induction fs arbitrary: s)
  case (Cons fv fs)
  then show ?case by (cases fv) (auto simp: bind_edit_Inr dest: editable_patch)
qed simp

lemma update_step:
  assumes "apply_update sp project s removed uid fs = Inr (s', removed', u, b, a)" "editable s"
  shows "view_step (unit_view (sp_str sp) s) (kept_assets removed) u (unit_view (sp_str sp) s') (kept_assets removed') \<and> editable s'"
proof -
  obtain items idf kind i d s1 items1 idf1 kind1 where h: "resolve_items s = Inr (items, idf, kind)"
      "find_unit (sp_str sp) items idf uid = Inr (i, d)" "patch_all sp s uid fs = Inr s1" "resolve_items s1 = Inr (items1, idf1, kind1)"
    and s': "s' = put_items kind (items1[i := JObj (settled_unit sp project kind fs d (unit_at items1 i))]) s1" "removed' = removed" "u = uid"
    by (rule update_shape [OF assms(1)])
  have "kind1 = kind" using patch_all_shapes [OF h(3,1)] h(4) by auto
  then have "editable s'" using editable_put [OF h(4)] editable_patch_all [OF h(3) assms(2)] s'(1) by blast
  moreover have "uid \<in> fst ` set (unit_view (sp_str sp) s)" using found_split [OF h(1,2)] by force
  ultimately show ?thesis using view_step.keep update_view [OF assms(1)] s'(2,3) by simp
qed

lemma insert_step:
  assumes "apply_insert sp project s removed after_id item = Inr (s', removed', u, b, a)" "editable s"
  shows "view_step (unit_view (sp_str sp) s) (kept_assets removed) u (unit_view (sp_str sp) s') (kept_assets removed') \<and> editable s'"
proof -
  let ?p = "sp_str sp"
  obtain items idf kind n where r: "resolve_items s = Inr (items, idf, kind)" and u: "jget idf item = JStr u"
      "u \<notin> set (existing_ids ?p idf items)"
    and s': "s' = put_items kind (insert_at n [JObj (settle_inserted sp project kind (restore_assets (dict_get removed u) item))] items) s"
      "removed' = dict_del u removed"
    by (rule insert_shape [OF assms(1)])
  note e = editable_put [OF r assms(2)]
  let ?d = "settle_inserted sp project kind (restore_assets (dict_get removed u) item)"
  have d: "entry_of ?p idf ?d = (u, case kept_assets removed u of None \<Rightarrow> bare | Some a \<Rightarrow> a)"
    by (simp add: settle_inserted_entry [OF id_field_facts(4-6) [OF r]] restore_assets_entry [OF id_field_facts(2,3) [OF r] u(1)]
        kept_assets_def split: option.split)
  obtain xs ys where w: "map (entry_of ?p idf) (objects items) = xs @ ys"
      "map (entry_of ?p idf) (objects (insert_at n [JObj ?d] items)) = xs @ entry_of ?p idf ?d # ys"
    using objects_insert_at by blast
  have "u \<notin> fst ` set (map (entry_of ?p idf) (objects items))"
    using u(2) by (simp add: existing_ids_def entry_of_def image_image)
  then have "view_step (xs @ ys) (kept_assets removed) u (xs @ entry_of ?p idf ?d # ys) ((kept_assets removed)(u := None))"
    unfolding w(1) d by (rule view_step.add)
  then show ?thesis
    using e unit_view_put [OF r] w by (simp add: s' kept_assets_simps view_of [OF r])
qed

lemma move_step:
  assumes "apply_move sp s removed uid after_id = Inr (s', removed', u, b, a)" "editable s"
  shows "view_step (unit_view (sp_str sp) s) (kept_assets removed) u (unit_view (sp_str sp) s') (kept_assets removed') \<and> editable s'"
proof -
  let ?p = "sp_str sp"
  obtain items idf kind i d n where r: "resolve_items s = Inr (items, idf, kind)" and f: "find_unit ?p items idf uid = Inr (i, d)"
    and s': "s' = put_items kind (insert_at n [JObj d] (take i items @ drop (Suc i) items)) s" "removed' = removed" "u = uid"
    by (rule move_shape [OF assms(1)])
  note e = editable_put [OF r assms(2)]
  obtain xs ys where w: "unit_view ?p s = xs @ (u, unit_assets d) # ys"
      "map (entry_of ?p idf) (objects (take i items @ drop (Suc i) items)) = xs @ ys"
    using found_split [OF r f] s'(3) by auto
  obtain xs' ys' where w': "map (entry_of ?p idf) (objects (take i items @ drop (Suc i) items)) = xs' @ ys'"
      "map (entry_of ?p idf) (objects (insert_at n [JObj d] (take i items @ drop (Suc i) items))) = xs' @ entry_of ?p idf d # ys'"
    using objects_insert_at by blast
  have "entry_of ?p idf d = (u, unit_assets d)" using objects_replaced(2) [OF found_unit(2) [OF r f]] s'(3) by (simp add: entry_of_def)
  moreover have "xs @ ys = xs' @ ys'" using w(2) w'(1) by simp
  ultimately show ?thesis
    using e unit_view_put [OF r] w'(2) view_step.move [of xs ys xs' ys' u "unit_assets d"] by (simp add: s'(1,2) w(1))
qed

lemma remove_step:
  assumes "apply_remove sp s removed uid = Inr (s', removed', u, b, a)" "editable s"
  shows "view_step (unit_view (sp_str sp) s) (kept_assets removed) u (unit_view (sp_str sp) s') (kept_assets removed') \<and> editable s'"
proof -
  obtain items idf kind i d where r: "resolve_items s = Inr (items, idf, kind)" and f: "find_unit (sp_str sp) items idf uid = Inr (i, d)"
    and s': "s' = put_items kind (take i items @ drop (Suc i) items) s" "removed' = dict_put uid d removed" "u = uid"
    by (rule remove_shape [OF assms(1)])
  note e = editable_put [OF r assms(2)]
  obtain xs ys where "unit_view (sp_str sp) s = xs @ (uid, unit_assets d) # ys"
      "map (entry_of (sp_str sp) idf) (objects (take i items @ drop (Suc i) items)) = xs @ ys"
    using found_split [OF r f] by blast
  then have "view_step (unit_view (sp_str sp) s) (kept_assets removed) u (unit_view (sp_str sp) s') ((kept_assets removed)(u \<mapsto> unit_assets d))"
    using e unit_view_put [OF r] view_step.drop [of xs uid "unit_assets d" ys "kept_assets removed"] by (simp only: s'(1,3))
  then show ?thesis using e by (simp add: s' kept_assets_simps)
qed

lemma operation_step:
  "apply_operation sp project s removed op = Inr (s', removed', u, b, a) \<Longrightarrow> editable s \<Longrightarrow>
     view_step (unit_view (sp_str sp) s) (kept_assets removed) u (unit_view (sp_str sp) s') (kept_assets removed') \<and> editable s'"
  by (cases op) (simp_all add: apply_operation_def update_step insert_step move_step remove_step)

subsection \<open>Invariant of a batch\<close>

definition legit :: "entry list \<Rightarrow> string \<Rightarrow> json \<times> json \<Rightarrow> bool" where
  "legit w0 u a \<longleftrightarrow> (if u \<in> fst ` set w0 then (u, a) \<in> set w0 else a = bare)"

definition batch_ok :: "entry list \<Rightarrow> entry list \<Rightarrow> (string \<rightharpoonup> json \<times> json) \<Rightarrow> string set \<Rightarrow> bool" where
  "batch_ok w0 w R A \<longleftrightarrow> distinct (map fst w) \<and> (\<forall>(u, a) \<in> set w. legit w0 u a) \<and> (\<forall>u a. R u = Some a \<longrightarrow> legit w0 u a)
     \<and> fst ` set w0 \<subseteq> fst ` set w \<union> dom R \<and> fst ` set w0 - fst ` set w \<subseteq> A \<and> fst ` set w - fst ` set w0 \<subseteq> A"

lemma batch_ok_start: "distinct (map fst w) \<Longrightarrow> batch_ok w w Map.empty {}"
  by (auto simp: batch_ok_def legit_def) (metis fst_conv image_eqI)

lemma distinct_key_mid: "distinct (map fst (xs @ (u, a) # ys)) \<longleftrightarrow> u \<notin> set (map fst (xs @ ys)) \<and> distinct (map fst (xs @ ys))"
  by auto

lemma view_step_ok:
  assumes "view_step w R u w' R'" "batch_ok w0 w R A"
  shows "batch_ok w0 w' R' (insert u A)"
  using assms
proof (induction rule: view_step.induct)
  case (keep u w R)
  then show ?case by (auto simp: batch_ok_def)
next
  case (add u xs ys R)
  have "legit w0 u (case R u of None \<Rightarrow> bare | Some a \<Rightarrow> a)"
    using add by (auto simp: batch_ok_def legit_def split: option.split)
  then show ?case using add by (auto simp: batch_ok_def)
next
  case (move xs ys xs' ys' u a R)
  have "set (xs @ (u, a) # ys) = set (xs' @ (u, a) # ys')" using arg_cong [OF move(1), of set] by auto
  moreover have "distinct (map fst (xs' @ (u, a) # ys'))"
    using move unfolding batch_ok_def distinct_key_mid by simp
  ultimately show ?case using move(2) unfolding batch_ok_def by auto
next
  case (drop xs u a ys R)
  then show ?case by (auto simp: batch_ok_def)
qed

lemma run_ops_ok:
  assumes "run_ops sp project n ops st = Inr st'" "editable (bs_script st)"
    and "batch_ok w0 (unit_view (sp_str sp) (bs_script st)) (kept_assets (bs_removed st)) (set (bs_affected st))"
  shows "batch_ok w0 (unit_view (sp_str sp) (bs_script st')) (kept_assets (bs_removed st')) (set (bs_affected st'))"
  using assms
proof (induction ops arbitrary: n st)
  case (Cons op ops)
  obtain s' removed' u b a where ap: "apply_operation sp project (bs_script st) (bs_removed st) op = Inr (s', removed', u, b, a)"
    using Cons.prems(1) by (auto split: sum.splits)
  have "batch_ok w0 (unit_view (sp_str sp) s') (kept_assets removed') (insert u (set (bs_affected st)))" "editable s'"
    using operation_step [OF ap Cons.prems(2)] view_step_ok Cons.prems(3) by blast+
  moreover have "set (if u \<in> set (bs_affected st) then bs_affected st else bs_affected st @ [u]) = insert u (set (bs_affected st))" by auto
  ultimately show ?case using Cons.prems(1) by (intro Cons.IH [of "Suc n"]) (auto simp: ap)
qed simp

text \<open>
  (C32) A batch keeps units apart. When all operations of a batch apply to a script that holds its list and whose identifiers are
  distinct, the identifiers of the candidate are distinct, every unit that was there before, even one removed and
  inserted again under its identifier, has the assets and the end frame it had, every other unit has none
  whatever the request says, and every identifier that came or went is reported as affected.
\<close>

theorem batch_keeps_identity:
  assumes "run_ops sp project 0 ops (fresh_state script) = Inr st" "editable script"
    and "distinct (map fst (unit_view (sp_str sp) script))"
  shows "distinct (map fst (unit_view (sp_str sp) (bs_script st)))
    \<and> (\<forall>(u, a) \<in> set (unit_view (sp_str sp) (bs_script st)).
         if u \<in> fst ` set (unit_view (sp_str sp) script) then (u, a) \<in> set (unit_view (sp_str sp) script) else a = bare)
    \<and> fst ` set (unit_view (sp_str sp) script) - fst ` set (unit_view (sp_str sp) (bs_script st)) \<subseteq> set (bs_affected st)
    \<and> fst ` set (unit_view (sp_str sp) (bs_script st)) - fst ` set (unit_view (sp_str sp) script) \<subseteq> set (bs_affected st)"
proof -
  have "batch_ok (unit_view (sp_str sp) script) (unit_view (sp_str sp) (bs_script st)) (kept_assets (bs_removed st)) (set (bs_affected st))"
  proof (rule run_ops_ok [OF assms(1)])
    show "editable (bs_script (fresh_state script))" using assms(2) by (simp add: fresh_state_def)
    have "kept_assets [] = Map.empty" by (auto simp: kept_assets_def)
    then show "batch_ok (unit_view (sp_str sp) script) (unit_view (sp_str sp) (bs_script (fresh_state script)))
        (kept_assets (bs_removed (fresh_state script))) (set (bs_affected (fresh_state script)))"
      using batch_ok_start [OF assms(3)] by (simp add: fresh_state_def)
  qed
  then show ?thesis unfolding batch_ok_def legit_def by (elim conjE) (intro conjI; assumption)
qed

definition ex_speech :: "unit speech" where
  "ex_speech = \<lparr>sp_str = (\<lambda>v. []), sp_same = (\<lambda>v w. v = w), sp_admit = (\<lambda>k d. ()), sp_problems = (\<lambda>a. []), sp_replan = (\<lambda>d. False),
     sp_derive = (\<lambda>p t. [])\<rparr>"

definition ex_ops :: "script_op list" where
  "ex_ops = [Remove_op ''E1S01'', Insert_op (Some ''E1S01_1'') [(''segment_id'', JStr ''E1S01''), (''generated_assets'', JObj [])],
     Update_op ''E1S01_1'' [(''note'', JStr ''y'')]]"

definition ex_state :: batch_state where
  "ex_state = (case run_ops ex_speech [] 0 ex_ops (fresh_state ex_script) of Inr st \<Rightarrow> st | Inl e \<Rightarrow> fresh_state [])"

theorem batch_keeps_identity_witness:
  "distinct (map fst (unit_view (sp_str ex_speech) (bs_script ex_state)))
    \<and> list_all (\<lambda>(u, a). if u \<in> fst ` set (unit_view (sp_str ex_speech) ex_script) then (u, a) \<in> set (unit_view (sp_str ex_speech) ex_script) else a = bare)
         (unit_view (sp_str ex_speech) (bs_script ex_state))
    \<and> fst ` set (unit_view (sp_str ex_speech) ex_script) - fst ` set (unit_view (sp_str ex_speech) (bs_script ex_state)) \<subseteq> set (bs_affected ex_state)
    \<and> fst ` set (unit_view (sp_str ex_speech) (bs_script ex_state)) - fst ` set (unit_view (sp_str ex_speech) ex_script) \<subseteq> set (bs_affected ex_state)"
proof -
  have "run_ops ex_speech [] 0 ex_ops (fresh_state ex_script) = Inr ex_state" by code_simp
  moreover have "editable ex_script" by code_simp
  moreover have "distinct (map fst (unit_view (sp_str ex_speech) ex_script))" by code_simp
  ultimately show ?thesis unfolding list_all_iff by (rule batch_keeps_identity)
qed

subsection \<open>All or nothing\<close>

definition refused :: "edit_result \<Rightarrow> bool" where
  "refused r \<longleftrightarrow> \<not> er_success r \<and> er_problems r \<noteq> [] \<and> er_affected_ids r = [] \<and> er_revision r = er_before_revision r"

lemma refusals:
  "refused (edit_failure f e v what n uid ls)" "refused (validation_failure f e v code reason cand ops m)"
  "ps \<noteq> [] \<Longrightarrow> refused (problems_result f e v ps)"
  by (simp_all add: refused_def edit_failure_def validation_failure_def problems_result_def Let_def)

lemma commit_candidate_cases:
  "(\<exists>r. commit_candidate sp dp project c fname episode revision before st = (None, r) \<and> refused r)
   \<or> (\<exists>stored r. commit_candidate sp dp project c fname episode revision before st = (Some stored, r)
        \<and> dp_structure dp (bs_script st) = [] \<and> candidate_validation_errors (bs_script st) (dp_references dp project (bs_script st)) = []
        \<and> dp_persist dp project (bs_script st) = Some stored
        \<and> r = \<lparr>er_success = True, er_script = fname, er_episode = episode, er_before_revision = revision,
                er_revision = dp_revision dp stored, er_affected_ids = bs_affected st, er_problems = []\<rparr>)"
  unfolding commit_candidate_def Let_def
  by (simp add: refusals split: list.split option.split sum.split prod.split)

lemma edit_locked_cases:
  "(\<exists>r. edit_locked sp dp project c fname script = (None, r) \<and> refused r)
   \<or> (\<exists>st stored r. edit_locked sp dp project c fname script = (Some stored, r)
        \<and> ec_expected_revision c = dp_revision dp script \<and> run_ops sp project 0 (ec_operations c) (fresh_state script) = Inr st
        \<and> dp_structure dp (bs_script st) = [] \<and> candidate_validation_errors (bs_script st) (dp_references dp project (bs_script st)) = []
        \<and> dp_persist dp project (bs_script st) = Some stored
        \<and> r = \<lparr>er_success = True, er_script = fname, er_episode = episode_number c script, er_before_revision = dp_revision dp script,
                er_revision = dp_revision dp stored, er_affected_ids = bs_affected st, er_problems = []\<rparr>)"
proof (cases "admissions sp script")
  case (Inl e)
  then show ?thesis by (auto simp: edit_locked_def Let_def refusals split: option.split)
next
  case (Inr before)
  consider (conflict) "ec_expected_revision c \<noteq> dp_revision dp script"
    | (episode) "case expected_episode c fname of None \<Rightarrow> False | Some e \<Rightarrow> \<not> sp_same sp (jget ''episode'' script) (JInt e)"
    | (run) "ec_expected_revision c = dp_revision dp script"
        "\<not> (case expected_episode c fname of None \<Rightarrow> False | Some e \<Rightarrow> \<not> sp_same sp (jget ''episode'' script) (JInt e))"
    by blast
  then show ?thesis
  proof cases
    case conflict
    then show ?thesis by (simp add: edit_locked_def Let_def refusals)
  next
    case episode
    then show ?thesis by (simp add: edit_locked_def Let_def refusals)
  next
    case run
    show ?thesis
    proof (cases "run_ops sp project 0 (ec_operations c) (fresh_state script)")
      case (Inl x)
      then show ?thesis using run by (cases x) (simp add: edit_locked_def Let_def refusals Inr)
    next
      case (Inr st)
      then have "edit_locked sp dp project c fname script = commit_candidate sp dp project c fname (episode_number c script) (dp_revision dp script) before st"
        using run \<open>admissions sp script = Inr before\<close> by (simp add: edit_locked_def Let_def)
      then show ?thesis
        using commit_candidate_cases [where sp = sp and dp = dp and project = project and c = c and fname = fname
            and episode = "episode_number c script" and revision = "dp_revision dp script" and before = before and st = st] run(1) Inr
        by simp
    qed
  qed
qed

text \<open>The edit runs under the locks only when both readings of the project name one script that exists.\<close>

lemma execute_early:
  assumes "execute sp dp p0 p1 store c = (store', out)"
    and "\<not> (\<exists>f0 f1 script. resolve_script_file sp c p0 = Inr f0 \<and> dp_readable dp p1 \<and> resolve_script_file sp c p1 = Inr f1
          \<and> normalize_script_filename f1 = normalize_script_filename f0 \<and> dict_get store (normalize_script_filename f0) = Some script)"
  shows "store' = store \<and> (out = Raises_not_found \<or> (\<exists>r. out = Edited r \<and> refused r))"
  using assms by (auto simp: execute_def Let_def refusals(1) split: sum.splits target_error.splits if_splits option.splits)


definition ex_deps :: deps where
  "ex_deps = \<lparr>dp_revision = (\<lambda>d. show_nat (length d)), dp_readable = (\<lambda>p. True), dp_structure = (\<lambda>d. []), dp_references = (\<lambda>p d. []),
     dp_manifest = (\<lambda>p d f i r. True), dp_persist = (\<lambda>p d. Some ((''metadata'', JNull) # d))\<rparr>"

definition ex_command :: edit_command where
  "ex_command = \<lparr>ec_script = Some ''scripts/one.json'', ec_episode = None, ec_expected_file = None, ec_expected_revision = ''2'', ec_operations = ex_ops\<rparr>"


end
