(* ===== verification/EpisodeLedger.thy ===== *)
theory EpisodeLedger
  imports AssetTypes
begin

text \<open>
  The episode ledger of a project: \<open>lib/episode_ledger.py\<close>.

  The text of a novel is a list of code points, since the program folds punctuation far outside the character
  range of the other theories; names of files and the strings of the project document stay \<open>string\<close>. Unicode
  normalization (\<open>nfc\<close>) and the digest of a text (\<open>digest\<close>) are arguments. A directory is the list of its
  entries; a file that cannot be read as UTF-8 has no text.
\<close>

subsection \<open>Source text\<close>

type_synonym utext = "int list"

definition u_space :: "int \<Rightarrow> bool" where
  "u_space c \<longleftrightarrow> 9 \<le> c \<and> c \<le> 13 \<or> 28 \<le> c \<and> c \<le> 32 \<or> 8192 \<le> c \<and> c \<le> 8202
     \<or> c \<in> set [133, 160, 5760, 8232, 8233, 8239, 8287, 12288]"

definition blank_text :: "utext \<Rightarrow> bool" where
  "blank_text t = list_all u_space t"

fun unify_newlines :: "utext \<Rightarrow> utext" where
  "unify_newlines [] = []"
| "unify_newlines (c # t) =
     (if c = 13 then 10 # (case t of d # r \<Rightarrow> if d = 10 then unify_newlines r else unify_newlines t | [] \<Rightarrow> []) else c # unify_newlines t)"

definition normalize_source_text :: "(utext \<Rightarrow> utext) \<Rightarrow> utext \<Rightarrow> utext" where
  "normalize_source_text nfc t = unify_newlines (nfc t)"

subsection \<open>Fields of an entry\<close>

text \<open>A text of digits that \<open>int\<close> refuses, because one of them is a superscript or there are too many, gives no number.\<close>

definition parse_episode_num :: "json \<Rightarrow> int option" where
  "parse_episode_num v =
     (case v of JInt n \<Rightarrow> Some n
      | JStr s \<Rightarrow> if s \<noteq> [] \<and> list_all is_digit s \<and> length s \<le> 4300 then Some (int (read_nat s)) else None
      | _ \<Rightarrow> None)"

definition parse_positive_episode_num :: "json \<Rightarrow> int option" where
  "parse_positive_episode_num v = (case parse_episode_num v of Some n \<Rightarrow> if 0 < n then Some n else None | None \<Rightarrow> None)"

definition parse_source_range :: "doc \<Rightarrow> (string \<times> int \<times> int) option" where
  "parse_source_range e =
     (case jget ''source_range'' e of
        JObj r \<Rightarrow> (case (jget ''source_file'' r, jget ''start'' r, jget ''end'' r) of
            (JStr rel, JInt a, JInt b) \<Rightarrow> Some (rel, a, b) | _ \<Rightarrow> None)
      | _ \<Rightarrow> None)"

text \<open>The entries that are objects; anything but a list counts as no entries.\<close>

definition entries :: "doc \<Rightarrow> doc list" where
  "entries project = (case jget ''episodes'' project of JList vs \<Rightarrow> concat (map (\<lambda>v. case v of JObj d \<Rightarrow> [d] | _ \<Rightarrow> []) vs) | _ \<Rightarrow> [])"

definition episodes_without_source_range :: "doc \<Rightarrow> int list" where
  "episodes_without_source_range project =
     remdups (sort (concat (map (\<lambda>e. case parse_episode_num (jget ''episode'' e) of
        None \<Rightarrow> [] | Some n \<Rightarrow> if parse_source_range e = None then [n] else []) (entries project))))"

text \<open>The models that validate the fields of the ledger, on the values as they are stored: that pydantic also accepts
  numbers written as text or as floats is left out.\<close>

definition rel_posix_path :: "string \<Rightarrow> bool" where
  "rel_posix_path v \<longleftrightarrow> v \<noteq> [] \<and> backslash \<notin> set v \<and> hd v \<noteq> CHR ''/'' \<and> ''..'' \<notin> set (split_at (\<lambda>c. c = CHR ''/'') v)"

definition valid_source_range :: "json \<Rightarrow> bool" where
  "valid_source_range v =
     (case v of
        JObj r \<Rightarrow> dict_keys r \<noteq> [] \<and> set (dict_keys r) = {''source_file'', ''start'', ''end''}
          \<and> (case (jget ''source_file'' r, jget ''start'' r, jget ''end'' r) of
               (JStr rel, JInt a, JInt b) \<Rightarrow> rel_posix_path rel \<and> 0 \<le> a \<and> 0 \<le> b \<and> a \<le> b | _ \<Rightarrow> False)
      | _ \<Rightarrow> False)"

definition valid_planning_cursor :: "json \<Rightarrow> bool" where
  "valid_planning_cursor v =
     (case v of
        JObj r \<Rightarrow> set (dict_keys r) = {''source_file'', ''offset''}
          \<and> (case (jget ''source_file'' r, jget ''offset'' r) of (JStr rel, JInt a) \<Rightarrow> rel_posix_path rel \<and> 0 \<le> a | _ \<Rightarrow> False)
      | _ \<Rightarrow> False)"

subsection \<open>The outline of an episode\<close>

definition entry_context :: "doc \<Rightarrow> doc option" where
  "entry_context e =
     (let outline = (case jget ''outline'' e of JObj d \<Rightarrow> d | _ \<Rightarrow> []);
          beats = (case jget ''story_beats'' outline of JList vs \<Rightarrow> filter (\<lambda>v. case v of JStr s \<Rightarrow> True | _ \<Rightarrow> False) vs | _ \<Rightarrow> []);
          teaser = jget ''next_episode_teaser'' outline
      in if \<not> truthy (jget ''hook'' e) \<and> beats = [] \<and> \<not> truthy teaser then None
         else Some [(''title'', jget ''title'' e), (''hook'', jget ''hook'' e), (''story_beats'', JList beats), (''next_episode_teaser'', teaser)])"

text \<open>\<open>same\<close> is Python's equality on JSON values.\<close>

definition entry_of_episode :: "(json \<Rightarrow> json \<Rightarrow> bool) \<Rightarrow> doc \<Rightarrow> int \<Rightarrow> doc" where
  "entry_of_episode same project n = (case find (\<lambda>e. same (jget ''episode'' e) (JInt n)) (entries project) of Some e \<Rightarrow> e | None \<Rightarrow> [])"

definition episode_outline_context :: "(json \<Rightarrow> json \<Rightarrow> bool) \<Rightarrow> doc \<Rightarrow> int \<Rightarrow> doc option \<times> doc option" where
  "episode_outline_context same project n =
     (entry_context (entry_of_episode same project n), entry_context (entry_of_episode same project (n + 1)))"

subsection \<open>Directories\<close>

record dentry =
  de_file :: bool
  de_symlink :: bool
  de_text :: "utext option"

type_synonym directory = "(string \<times> dentry) list"

definition sorted_dir :: "directory \<Rightarrow> directory" where
  "sorted_dir d = sort_key fst d"

text \<open>\<open>prefix\<close>, digits, \<open>suffix\<close>.\<close>

definition numbered_name :: "string \<Rightarrow> string \<Rightarrow> string \<Rightarrow> nat option" where
  "numbered_name pre suf nm =
     (case strip_prefix pre nm of None \<Rightarrow> None
      | Some r \<Rightarrow> let ds = takeWhile is_digit r in if ds \<noteq> [] \<and> drop (length ds) r = suf then Some (read_nat ds) else None)"

definition episode_file_num :: "string \<Rightarrow> nat option" where
  "episode_file_num nm = numbered_name ''episode_'' ''.txt'' nm"

definition ends_with :: "string \<Rightarrow> string \<Rightarrow> bool" where
  "ends_with suf s \<longleftrightarrow> length suf \<le> length s \<and> drop (length s - length suf) s = suf"

text \<open>A suffix needs a name before it: the names that start with a dot are excluded first.\<close>

definition source_name :: "string \<Rightarrow> bool" where
  "source_name nm \<longleftrightarrow> nm \<noteq> [] \<and> hd nm \<noteq> CHR ''_'' \<and> hd nm \<noteq> CHR ''.''
     \<and> (ends_with ''.txt'' (lower nm) \<or> ends_with ''.md'' (lower nm)) \<and> episode_file_num nm = None"

definition discover_sources :: "(utext \<Rightarrow> utext) \<Rightarrow> directory \<Rightarrow> (string \<times> utext) list" where
  "discover_sources nfc d =
     concat (map (\<lambda>(nm, e). case de_text e of
        Some t \<Rightarrow> if de_file e \<and> source_name nm then [(''source/'' @ nm, normalize_source_text nfc t)] else [] | None \<Rightarrow> []) (sorted_dir d))"

definition compute_source_fingerprints :: "(utext \<Rightarrow> string) \<Rightarrow> (string \<times> utext) list \<Rightarrow> (string \<times> string) list" where
  "compute_source_fingerprints digest sources = fold (\<lambda>(rel, t). dict_put rel (digest t)) sources []"

definition mismatched_source_fingerprints :: "(utext \<Rightarrow> string) \<Rightarrow> json \<Rightarrow> (string \<times> utext) list \<Rightarrow> string list" where
  "mismatched_source_fingerprints digest recorded sources =
     (case recorded of
        JObj kvs \<Rightarrow> sort (map fst (filter (\<lambda>(rel, v). case v of
            JStr fp \<Rightarrow> dict_get (compute_source_fingerprints digest sources) rel \<noteq> Some fp | _ \<Rightarrow> False) kvs))
      | _ \<Rightarrow> [])"

definition episode_file_names :: "directory \<Rightarrow> string list" where
  "episode_file_names d = map fst (filter (\<lambda>(nm, e). episode_file_num nm \<noteq> None \<and> (de_file e \<or> de_symlink e)) (sorted_dir d))"

definition discover_episode_file_aliases :: "directory \<Rightarrow> (nat \<times> string list) list" where
  "discover_episode_file_aliases d = group_by (\<lambda>nm. the (episode_file_num nm)) (episode_file_names d)"

definition is_file :: "directory \<Rightarrow> string \<Rightarrow> bool" where
  "is_file d nm = (case dict_get d nm of Some e \<Rightarrow> de_file e | None \<Rightarrow> False)"

definition discover_episode_files :: "directory \<Rightarrow> (nat \<times> string) list" where
  "discover_episode_files d =
     concat (map (\<lambda>(n, nms). case find (is_file d) nms of Some nm \<Rightarrow> [(n, nm)] | None \<Rightarrow> []) (discover_episode_file_aliases d))"

text \<open>What lies downstream of an episode: the names in \<open>scripts/\<close>, the directories below \<open>drafts/\<close> with the names
  in them, and the paths that exist inside the project.\<close>

record downstream =
  dw_scripts :: directory
  dw_drafts :: "(string \<times> string list) list"
  dw_exists :: "string \<Rightarrow> bool"

definition has_step1 :: "string list \<Rightarrow> bool" where
  "has_step1 nms \<longleftrightarrow> (\<exists>nm \<in> set nms. strip_prefix ''step1_'' nm \<noteq> None)"

definition discover_product_episode_nums :: "downstream \<Rightarrow> nat set" where
  "discover_product_episode_nums dw =
     set (concat (map (\<lambda>(nm, e). case numbered_name ''episode_'' ''.json'' nm of Some n \<Rightarrow> if de_file e then [n] else [] | None \<Rightarrow> []) (dw_scripts dw)))
     \<union> set (concat (map (\<lambda>(nm, nms). case numbered_name ''episode_'' [] nm of Some n \<Rightarrow> if has_step1 nms then [n] else [] | None \<Rightarrow> []) (dw_drafts dw)))"

definition episode_script_relpath :: "int \<Rightarrow> string" where
  "episode_script_relpath n = ''scripts/episode_'' @ show_int n @ ''.json''"

definition has_downstream_products :: "downstream \<Rightarrow> int \<Rightarrow> doc \<Rightarrow> bool" where
  "has_downstream_products dw n e \<longleftrightarrow>
     (case jget ''script_file'' e of JStr f \<Rightarrow> dw_exists dw f | _ \<Rightarrow> False)
     \<or> is_file (dw_scripts dw) (''episode_'' @ show_int n @ ''.json'')
     \<or> (case dict_get (dw_drafts dw) (''episode_'' @ show_int n) of Some nms \<Rightarrow> has_step1 nms | None \<Rightarrow> False)"

subsection \<open>Registering files without an entry\<close>

text \<open>Sorting by number when every entry has one: \<open>parse_episode_num(...) or 0\<close>.\<close>

definition num_key :: "json \<Rightarrow> int option" where
  "num_key v = (case v of JObj e \<Rightarrow> parse_episode_num (jget ''episode'' e) | _ \<Rightarrow> None)"

definition sort_episodes_if_possible :: "json list \<Rightarrow> json list" where
  "sort_episodes_if_possible vs =
     (if list_all (\<lambda>v. num_key v \<noteq> None) vs then sort_key (\<lambda>v. case num_key v of Some n \<Rightarrow> n | None \<Rightarrow> 0) vs else vs)"

definition orphan_entry :: "downstream \<Rightarrow> int \<Rightarrow> doc" where
  "orphan_entry dw n =
     (let e = [(''episode'', JInt n), (''title'', JStr []), (''script_file'', JStr (episode_script_relpath n))]
      in e @ [(''ledger_status'', JStr (if has_downstream_products dw n e then ''consumed'' else ''planned''))])"

definition register_orphan_episode_entries :: "directory \<Rightarrow> downstream \<Rightarrow> doc \<Rightarrow> doc" where
  "register_orphan_episode_entries d dw project =
     (case (case dict_get project ''episodes'' of None \<Rightarrow> JList [] | Some v \<Rightarrow> v) of
        JList vs \<Rightarrow>
          (let known = set (concat (map (\<lambda>v. case num_key v of Some n \<Rightarrow> [n] | None \<Rightarrow> []) vs));
               new = filter (\<lambda>n. n \<notin> known) (map int (sort (map fst (discover_episode_files d))))
           in dict_put ''episodes'' (JList (sort_episodes_if_possible (vs @ map (\<lambda>n. JObj (orphan_entry dw n)) new))) project)
      | _ \<Rightarrow> project)"

subsection \<open>Reading the ledger\<close>

lemma jget_put [simp]: "jget k (dict_put k' v d) = (if k = k' then v else jget k d)"
  by (simp add: jget_def dict_get_default_def dict_get_put)

lemma set_entries: "jget ''episodes'' p = JList vs \<Longrightarrow> e \<in> set (entries p) \<longleftrightarrow> JObj e \<in> set vs"
  by (force simp: entries_def split: json.splits)

lemma entries_none: "(\<And>vs. jget ''episodes'' p \<noteq> JList vs) \<Longrightarrow> entries p = []"
  by (cases "jget ''episodes'' p") (auto simp: entries_def)

lemma set_missing_ranges:
  "n \<in> set (episodes_without_source_range p)
     \<longleftrightarrow> (\<exists>e \<in> set (entries p). parse_episode_num (jget ''episode'' e) = Some n \<and> parse_source_range e = None)"
  by (force simp: episodes_without_source_range_def split: option.splits if_splits)

lemma mset_sort_episodes [simp]: "mset (sort_episodes_if_possible vs) = mset vs"
  by (simp add: sort_episodes_if_possible_def)

lemma set_sort_episodes [simp]: "set (sort_episodes_if_possible vs) = set vs"
  by (simp add: sort_episodes_if_possible_def)

subsection \<open>Registering orphans\<close>

definition episodes_list :: "doc \<Rightarrow> json list option" where
  "episodes_list p = (case dict_get p ''episodes'' of None \<Rightarrow> Some [] | Some (JList vs) \<Rightarrow> Some vs | _ \<Rightarrow> None)"

definition orphans :: "directory \<Rightarrow> json list \<Rightarrow> int list" where
  "orphans dir vs = filter (\<lambda>n. \<forall>v \<in> set vs. num_key v \<noteq> Some n) (map int (sort (map fst (discover_episode_files dir))))"

lemma register_episodes:
  assumes "episodes_list p = Some vs"
  shows "register_orphan_episode_entries dir dw p
    = dict_put ''episodes'' (JList (sort_episodes_if_possible (vs @ map (\<lambda>n. JObj (orphan_entry dw n)) (orphans dir vs)))) p"
proof -
  have "n \<notin> set (concat (map (\<lambda>v. case num_key v of Some n \<Rightarrow> [n] | None \<Rightarrow> []) vs)) \<longleftrightarrow> (\<forall>v \<in> set vs. num_key v \<noteq> Some n)" for n
    by (auto split: option.splits)
  with assms show ?thesis
    by (simp add: register_orphan_episode_entries_def episodes_list_def orphans_def Let_def split: option.splits json.splits)
qed

lemma orphan_entry_num: "parse_episode_num (jget ''episode'' (orphan_entry dw n)) = Some n"
  and orphan_entry_range: "parse_source_range (orphan_entry dw n) = None"
  by (simp_all add: orphan_entry_def Let_def jget_def dict_get_default_def parse_episode_num_def parse_source_range_def)

text \<open>A ledger that passes the gate has no orphans, and registration only sorts it.\<close>

lemma register_missing:
  assumes "episodes_list p = Some vs"
  shows "set (orphans dir vs) \<subseteq> set (episodes_without_source_range (register_orphan_episode_entries dir dw p))"
proof
  fix n assume "n \<in> set (orphans dir vs)"
  then have "orphan_entry dw n \<in> set (entries (register_orphan_episode_entries dir dw p))"
    by (subst set_entries) (auto simp: register_episodes [OF assms])
  then show "n \<in> set (episodes_without_source_range (register_orphan_episode_entries dir dw p))"
    unfolding set_missing_ranges using orphan_entry_num orphan_entry_range by (intro bexI conjI)
qed

subsection \<open>Finding episode files\<close>

lemma is_file_mem: "is_file d nm \<Longrightarrow> \<exists>e. (nm, e) \<in> set d \<and> de_file e"
  by (auto simp: is_file_def split: option.splits dest: map_of_SomeD)

lemma set_episode_file_names:
  "nm \<in> set (episode_file_names d) \<longleftrightarrow> (\<exists>e. (nm, e) \<in> set d \<and> episode_file_num nm \<noteq> None \<and> (de_file e \<or> de_symlink e))"
  by (force simp: episode_file_names_def sorted_dir_def)

lemma discover_episode_files_num:
  "n \<in> fst ` set (discover_episode_files d) \<longleftrightarrow> (\<exists>nm. is_file d nm \<and> episode_file_num nm = Some n)"
proof
  assume "n \<in> fst ` set (discover_episode_files d)"
  then obtain nms nm where "(n, nms) \<in> set (discover_episode_file_aliases d)" "find (is_file d) nms = Some nm"
    by (auto simp: discover_episode_files_def split: option.splits) (metis)
  moreover from this have "nm \<in> set nms" "is_file d nm" by (auto simp: find_Some_iff)
  ultimately show "\<exists>nm. is_file d nm \<and> episode_file_num nm = Some n"
    using group_by_member [of n nms "\<lambda>nm. the (episode_file_num nm)" "episode_file_names d"]
    by (auto simp: discover_episode_file_aliases_def set_episode_file_names intro!: exI [of _ nm])
next
  assume "\<exists>nm. is_file d nm \<and> episode_file_num nm = Some n"
  then obtain nm where nm: "is_file d nm" "episode_file_num nm = Some n" by blast
  then have mem: "nm \<in> set (episode_file_names d)" using is_file_mem [OF nm(1)] by (auto simp: set_episode_file_names)
  then have "n \<in> fst ` set (discover_episode_file_aliases d)"
    using nm(2) by (force simp: discover_episode_file_aliases_def group_by_keys)
  then obtain nms where nms: "(n, nms) \<in> set (discover_episode_file_aliases d)" by auto
  then have "nm \<in> set nms"
    using group_by_member [of n nms "\<lambda>nm. the (episode_file_num nm)" "episode_file_names d"] mem nm(2)
    by (simp add: discover_episode_file_aliases_def)
  then obtain nm' where "find (is_file d) nms = Some nm'"
    using nm(1) by (cases "find (is_file d) nms") (auto simp: find_None_iff)
  with nms show "n \<in> fst ` set (discover_episode_files d)"
    by (force simp: discover_episode_files_def)
qed

end
