(* ===== verification/EpisodeAnchors.thy ===== *)
theory EpisodeAnchors
  imports EpisodeLedger
begin

text \<open>
  Locating the ends of episodes in a window of the novel: \<open>_fold_for_match\<close>, \<open>_find_all_overlapping\<close> and
  \<open>_resolve_boundaries\<close> of \<open>lib/episode_planner.py\<close>, and the reading units of \<open>lib/text_metrics.py\<close>.

  The model of a language quotes the last words of each episode; an anchor is looked up as it is and, when it does
  not occur, once more after folding punctuation and white space in both texts. The characters that make up a word
  of a Latin text (\<open>word\<close>) are an argument.
\<close>

subsection \<open>Reading units\<close>

definition zh_unit :: "int \<Rightarrow> bool" where
  "zh_unit c \<longleftrightarrow> 13312 \<le> c \<and> c \<le> 40959 \<or> 63744 \<le> c \<and> c \<le> 64255 \<or> 12288 \<le> c \<and> c \<le> 12351
     \<or> 65280 \<le> c \<and> c \<le> 65519 \<or> 131072 \<le> c \<and> c \<le> 205743"

definition counts_words :: "string option \<Rightarrow> bool" where
  "counts_words language \<longleftrightarrow> lower (strip (case language of Some l \<Rightarrow> l | None \<Rightarrow> [])) \<in> {''en'', ''vi''}"

text \<open>The runs of word characters: a run starts where the previous character is not one.\<close>

fun word_runs :: "(int \<Rightarrow> bool) \<Rightarrow> bool \<Rightarrow> utext \<Rightarrow> nat" where
  "word_runs word inside [] = 0"
| "word_runs word inside (c # t) = (if word c \<and> \<not> inside then 1 else 0) + word_runs word (word c) t"

definition count_reading_units :: "(int \<Rightarrow> bool) \<Rightarrow> utext \<Rightarrow> string option \<Rightarrow> nat" where
  "count_reading_units word t language = (if counts_words language then word_runs word False t else length (filter zh_unit t))"

subsection \<open>Drafts\<close>

text \<open>An episode of a draft: \<open>NarrationEpisodeDraft\<close>, and with an outline (its beats and the teaser) \<open>DramaEpisodeDraft\<close>.\<close>

record draft =
  dr_title :: string
  dr_hook :: string
  dr_anchor :: utext
  dr_outline :: "(string list \<times> string option) option"

datatype draft_reason =
    NotJson string
  | SchemaMismatch
  | AnchorMissing nat utext
  | AnchorRepeated nat bool nat utext
  | AnchorNotAfter nat utext

text \<open>The length limits of the two models, and that neither accepts fields of the other.\<close>

definition valid_draft :: "bool \<Rightarrow> draft \<Rightarrow> bool" where
  "valid_draft drama d \<longleftrightarrow> dr_title d \<noteq> [] \<and> dr_hook d \<noteq> [] \<and> 2 \<le> length (dr_anchor d)
     \<and> (case dr_outline d of None \<Rightarrow> \<not> drama | Some (beats, teaser) \<Rightarrow> drama \<and> beats \<noteq> [])"

text \<open>A reply that is not JSON carries the message of the parser.\<close>

definition parse_draft :: "bool \<Rightarrow> string + draft list \<Rightarrow> draft_reason list + draft list" where
  "parse_draft drama r =
     (case r of Inl m \<Rightarrow> Inl [NotJson m]
      | Inr ds \<Rightarrow> if ds \<noteq> [] \<and> list_all (valid_draft drama) ds then Inr ds else Inl [SchemaMismatch])"

subsection \<open>Folding\<close>

definition PUNCT_FOLD :: "(int \<times> int) list" where
  "PUNCT_FOLD = [(0x3002, 0x2E), (0xFF0E, 0x2E), (0xFF0C, 0x2C), (0xFF01, 0x21), (0xFF1F, 0x3F), (0xFF1A, 0x3A), (0xFF1B, 0x3B),
     (0xFF08, 0x28), (0xFF09, 0x29), (0xFF5E, 0x7E), (0x301C, 0x7E), (0x201C, 0x22), (0x201D, 0x22), (0x2018, 0x27), (0x2019, 0x27),
     (0xFF02, 0x22), (0xFF07, 0x27)]"

definition fold_char :: "int \<Rightarrow> int" where
  "fold_char c = (case map_of PUNCT_FOLD c of Some d \<Rightarrow> d | None \<Rightarrow> if u_space c then 32 else c)"

definition fold_for_match :: "utext \<Rightarrow> utext" where
  "fold_for_match t = map fold_char t"

subsection \<open>Searching\<close>

definition occurs_at :: "utext \<Rightarrow> utext \<Rightarrow> nat \<Rightarrow> bool" where
  "occurs_at hay needle i \<longleftrightarrow> take (length needle) (drop i hay) = needle"

text \<open>\<open>str.find\<close> from an index on.\<close>

definition find_index_from :: "utext \<Rightarrow> utext \<Rightarrow> nat \<Rightarrow> nat option" where
  "find_index_from hay needle k = find (occurs_at hay needle) [k ..< Suc (length hay) - length needle]"

function starts_from :: "utext \<Rightarrow> utext \<Rightarrow> nat \<Rightarrow> nat list" where
  "starts_from hay needle k = (case find_index_from hay needle k of None \<Rightarrow> [] | Some i \<Rightarrow> i # starts_from hay needle (Suc i))"
  by pat_completeness auto
termination
  by (relation "measure (\<lambda>(hay, needle, k). Suc (length hay) - k)")
    (auto simp: find_index_from_def find_Some_iff)

definition find_all_overlapping :: "utext \<Rightarrow> utext \<Rightarrow> nat list" where
  "find_all_overlapping hay needle = (if needle = [] then [] else starts_from hay needle 0)"

subsection \<open>Boundaries\<close>

text \<open>The starts of an anchor, the length it spans in the window and whether folding was needed.\<close>

definition locate :: "(utext \<Rightarrow> utext) \<Rightarrow> utext \<Rightarrow> utext \<Rightarrow> nat list \<times> nat \<times> bool" where
  "locate nfc window anchor =
     (let exact = find_all_overlapping window anchor in
      if exact \<noteq> [] then (exact, length anchor, False)
      else let normalized = normalize_source_text nfc anchor;
               folded = find_all_overlapping (fold_for_match window) (fold_for_match normalized)
           in if folded \<noteq> [] then (folded, length normalized, True) else ([], length anchor, False))"

fun boundary_loop :: "(utext \<Rightarrow> utext) \<Rightarrow> utext \<Rightarrow> nat \<Rightarrow> nat \<Rightarrow> bool \<Rightarrow> draft list \<Rightarrow> draft_reason list \<times> nat list" where
  "boundary_loop nfc window idx pos ordered [] = ([], [])"
| "boundary_loop nfc window idx pos ordered (d # ds) =
     (let anchor = dr_anchor d;
          (starts, len, folded) = locate nfc window anchor;
          refuse = (\<lambda>r. let (rs, es) = boundary_loop nfc window (Suc idx) pos False ds in (r # rs, es))
      in if starts = [] then refuse (AnchorMissing idx anchor)
         else if 1 < length starts then refuse (AnchorRepeated idx folded (length starts) anchor)
         else let e = hd starts + len
              in if ordered \<and> e \<le> pos then refuse (AnchorNotAfter idx anchor)
                 else let (rs, es) = boundary_loop nfc window (Suc idx) e ordered ds in (rs, e # es))"

definition snap_tail :: "utext \<Rightarrow> nat list \<Rightarrow> nat list" where
  "snap_tail window ends =
     (if ends \<noteq> [] \<and> last ends < length window \<and> blank_text (drop (last ends) window) then butlast ends @ [length window] else ends)"

definition resolve_boundaries :: "(utext \<Rightarrow> utext) \<Rightarrow> utext \<Rightarrow> draft list \<Rightarrow> bool \<Rightarrow> draft_reason list + nat list" where
  "resolve_boundaries nfc window drafts snap =
     (let (rs, ends) = boundary_loop nfc window 1 0 True drafts
      in if rs \<noteq> [] then Inl rs else Inr (if snap then snap_tail window ends else ends))"

subsection \<open>Searching finds every occurrence\<close>

declare starts_from.simps [simp del]

lemma filter_upt_find:
  "filter P [k ..< m] = (case find P [k ..< m] of None \<Rightarrow> [] | Some i \<Rightarrow> i # filter P [Suc i ..< m])"
proof (induction "m - k" arbitrary: k)
  case 0 then show ?case by simp
next
  case (Suc n)
  then have *: "[k ..< m] = k # [Suc k ..< m]" "n = m - Suc k" by (auto simp: upt_conv_Cons)
  show ?case unfolding *(1) using Suc.hyps(1)[OF *(2)] by (simp only: filter.simps find.simps split: if_split) simp
qed

lemma starts_from_filter:
  "starts_from hay needle k = filter (occurs_at hay needle) [k ..< Suc (length hay) - length needle]"
proof (induction hay needle k rule: starts_from.induct)
  case (1 hay needle k)
  show ?case
  proof (cases "find_index_from hay needle k")
    case None
    then show ?thesis unfolding filter_upt_find[of _ k] starts_from.simps[of hay needle k] by (simp add: find_index_from_def)
  next
    case (Some i)
    then show ?thesis unfolding filter_upt_find[of _ k] starts_from.simps[of hay needle k] using 1[OF Some] by (simp only: find_index_from_def option.case)
  qed
qed

lemma occurs_at_bound: "occurs_at hay needle i \<Longrightarrow> needle \<noteq> [] \<Longrightarrow> i + length needle \<le> length hay"
proof -
  assume "occurs_at hay needle i" "needle \<noteq> []"
  then have "min (length hay - i) (length needle) = length needle" "0 < length needle"
    unfolding occurs_at_def by (metis length_take length_drop min.commute, simp)
  then show ?thesis by linarith
qed
lemma set_find_all_overlapping: "set (find_all_overlapping hay needle) = {i. needle \<noteq> [] \<and> occurs_at hay needle i}"
proof (cases "needle = []")
  case True then show ?thesis by (simp add: find_all_overlapping_def)
next
  case False
  have "i < Suc (length hay) - length needle" if "occurs_at hay needle i" for i
    using occurs_at_bound [OF that False] by linarith
  then show ?thesis using False by (auto simp only: find_all_overlapping_def starts_from_filter set_filter set_upt if_False atLeastLessThan_iff)
qed

lemma distinct_find_all_overlapping: "distinct (find_all_overlapping hay needle)"
  by (simp add: find_all_overlapping_def starts_from_filter)

lemma length_fold_for_match [simp]: "length (fold_for_match t) = length t"
  by (simp add: fold_for_match_def)

lemma fold_for_match_take: "fold_for_match (take n t) = take n (fold_for_match t)"
  and fold_for_match_drop: "fold_for_match (drop n t) = drop n (fold_for_match t)"
  by (simp_all add: fold_for_match_def take_map drop_map)

lemma fold_char_cases: "fold_char c = c \<or> fold_char c = 32 \<or> fold_char c \<in> snd ` set PUNCT_FOLD"
proof (cases "map_of PUNCT_FOLD c")
  case None then show ?thesis by (simp add: fold_char_def)
next
  case (Some d) then show ?thesis by (simp add: fold_char_def image_iff) (metis map_of_SomeD snd_conv)
qed

lemma fold_char_idem [simp]: "fold_char (fold_char c) = fold_char c"
proof -
  have "list_all (\<lambda>d. fold_char d = d) (32 # map snd PUNCT_FOLD)" by (simp add: PUNCT_FOLD_def fold_char_def u_space_def)
  then have "fold_char d = d" if "d = 32 \<or> d \<in> snd ` set PUNCT_FOLD" for d using that by (auto simp: list_all_iff)
  with fold_char_cases [of c] show ?thesis by metis
qed

lemma fold_for_match_idem: "fold_for_match (fold_for_match t) = fold_for_match t"
  by (simp add: fold_for_match_def)

subsection \<open>One anchor\<close>

text \<open>An anchor stands at the end of the first \<open>e\<close> characters of the window: word for word or, when the quoted text
  occurs nowhere, after normalizing it and folding both; and at no other place.\<close>

definition quoted_at :: "utext \<Rightarrow> utext \<Rightarrow> nat \<Rightarrow> bool" where
  "quoted_at window q e \<longleftrightarrow> q \<noteq> [] \<and> length q \<le> e \<and> e \<le> length window \<and> drop (e - length q) (take e window) = q"

definition anchored :: "(utext \<Rightarrow> utext) \<Rightarrow> utext \<Rightarrow> utext \<Rightarrow> nat \<Rightarrow> bool" where
  "anchored nfc window a e \<longleftrightarrow>
     (if \<exists>e'. quoted_at window a e' then \<forall>e'. quoted_at window a e' \<longleftrightarrow> e' = e
      else \<forall>e'. quoted_at (fold_for_match window) (fold_for_match (normalize_source_text nfc a)) e' \<longleftrightarrow> e' = e)"

lemma quoted_occurs: "quoted_at hay q e \<longleftrightarrow> q \<noteq> [] \<and> length q \<le> e \<and> occurs_at hay q (e - length q)"
proof -
  have "drop (e - length q) (take e hay) = take (length q) (drop (e - length q) hay)" if "length q \<le> e"
    using that by (simp add: drop_take)
  then show ?thesis unfolding quoted_at_def occurs_at_def[symmetric]
    using occurs_at_bound[of hay q "e - length q"] by (auto simp: occurs_at_def)
qed

lemma ends_of_starts: "(\<lambda>i. i + length q) ` set (find_all_overlapping hay q) = {e. quoted_at hay q e}"
  by (force simp: set_find_all_overlapping quoted_occurs image_iff)

lemma starts_single:
  "find_all_overlapping hay q = [s] \<Longrightarrow> quoted_at hay q e \<longleftrightarrow> e = s + length q"
  using ends_of_starts[of q hay] by auto

lemma distinct_singleton: "set xs = {x} \<Longrightarrow> distinct xs \<Longrightarrow> xs = [x]"
  by (cases xs; cases "tl xs") auto

lemma single_starts:
  assumes "\<And>e'. quoted_at hay q e' \<longleftrightarrow> e' = e"
  shows "\<exists>s. find_all_overlapping hay q = [s] \<and> s + length q = e"
proof -
  have *: "(\<lambda>i. i + length q) ` set (find_all_overlapping hay q) = {e}"
    using ends_of_starts[of q hay] assms by auto
  then obtain s where s: "s \<in> set (find_all_overlapping hay q)" "s + length q = e" by blast
  have "x = s" if "x \<in> set (find_all_overlapping hay q)" for x
    using imageI [OF that, of "\<lambda>i. i + length q"] s(2) unfolding * by simp
  with s(1) have "set (find_all_overlapping hay q) = {s}" by blast
  then have "find_all_overlapping hay q = [s]"
    using distinct_find_all_overlapping[of hay q] by (rule distinct_singleton)
  with s show ?thesis by blast
qed

lemma starts_none: "find_all_overlapping hay q = [] \<longleftrightarrow> (\<forall>e. \<not> quoted_at hay q e)"
  using ends_of_starts[of q hay] by (cases "find_all_overlapping hay q") auto

text \<open>The loop accepts an anchor at \<open>e\<close>.\<close>

definition located :: "(utext \<Rightarrow> utext) \<Rightarrow> utext \<Rightarrow> utext \<Rightarrow> nat \<Rightarrow> bool" where
  "located nfc window a e \<longleftrightarrow> (case locate nfc window a of (starts, len, folded) \<Rightarrow> \<exists>s. starts = [s] \<and> e = s + len)"

lemma located_anchored: "located nfc window a e \<longleftrightarrow> anchored nfc window a e"
proof (cases "find_all_overlapping window a = []")
  case True
  let ?w = "fold_for_match window" and ?q = "fold_for_match (normalize_source_text nfc a)"
  have "located nfc window a e \<longleftrightarrow> (\<exists>s. find_all_overlapping ?w ?q = [s] \<and> e = s + length ?q)"
    using True by (auto simp: located_def locate_def Let_def)
  also have "\<dots> \<longleftrightarrow> (\<forall>e'. quoted_at ?w ?q e' \<longleftrightarrow> e' = e)"
    using starts_single[of ?w ?q] single_starts[of ?w ?q e] by blast
  finally show ?thesis using True by (auto simp: anchored_def starts_none)
next
  case False
  have "located nfc window a e \<longleftrightarrow> (\<exists>s. find_all_overlapping window a = [s] \<and> e = s + length a)"
    using False by (auto simp: located_def locate_def Let_def)
  also have "\<dots> \<longleftrightarrow> (\<forall>e'. quoted_at window a e' \<longleftrightarrow> e' = e)"
    using starts_single[of window a] single_starts[of window a e] by blast
  finally show ?thesis using False by (auto simp: anchored_def starts_none)
qed

subsection \<open>All boundaries\<close>

lemma located_bound: "located nfc window a e \<Longrightarrow> e \<le> length window"
  unfolding located_anchored anchored_def quoted_at_def by (metis length_fold_for_match)

lemma boundary_loop_accepts:
  "boundary_loop nfc window idx pos True ds = ([], es)
     \<longleftrightarrow> list_all2 (\<lambda>d. located nfc window (dr_anchor d)) ds es \<and> sorted_wrt (<) (pos # es)"
proof (induction ds arbitrary: idx pos es)
  case Nil
  then show ?case by auto
next
  case (Cons d ds)
  obtain starts len folded where loc: "locate nfc window (dr_anchor d) = (starts, len, folded)" by (cases "locate nfc window (dr_anchor d)")
  show ?case
  proof (cases "\<exists>s. starts = [s] \<and> pos < s + len")
    case True
    then obtain s where s: "starts = [s]" "pos < s + len" by blast
    have step: "boundary_loop nfc window idx pos True (d # ds) = ([], es)
       \<longleftrightarrow> (\<exists>es'. es = (s + len) # es' \<and> boundary_loop nfc window (Suc idx) (s + len) True ds = ([], es'))"
      using s by (auto simp: loc Let_def split: prod.splits)
    have "located nfc window (dr_anchor d) e \<longleftrightarrow> e = s + len" for e using s by (simp add: located_def loc)
    then show ?thesis unfolding step Cons.IH using s(2) by (auto simp: list_all2_Cons1 intro: less_trans [OF s(2)])
  next
    case False
    then have "fst (boundary_loop nfc window idx pos True (d # ds)) \<noteq> []"
      by (cases starts; cases "tl starts") (auto simp: loc Let_def split: prod.splits)
    moreover have "\<not> (list_all2 (\<lambda>d. located nfc window (dr_anchor d)) (d # ds) es \<and> sorted_wrt (<) (pos # es))"
      using False by (auto simp: list_all2_Cons1 located_def loc)
    ultimately show ?thesis by auto
  qed
qed

text \<open>The ends of a batch: one per draft, strictly rising inside the window, each where its anchor is quoted; only the last
  may be moved to the end of the window, over white space.\<close>

definition batch_ends :: "(utext \<Rightarrow> utext) \<Rightarrow> utext \<Rightarrow> draft list \<Rightarrow> nat list \<Rightarrow> bool" where
  "batch_ends nfc window ds es \<longleftrightarrow> list_all2 (\<lambda>d. anchored nfc window (dr_anchor d)) ds es \<and> sorted_wrt (<) (0 # es)"

lemma batch_ends_loop: "batch_ends nfc window ds es \<longleftrightarrow> boundary_loop nfc window 1 0 True ds = ([], es)"
  unfolding batch_ends_def boundary_loop_accepts located_anchored ..

lemma resolve_boundaries_iff:
  "resolve_boundaries nfc window ds snap = Inr ends
     \<longleftrightarrow> (\<exists>es. batch_ends nfc window ds es \<and> ends = (if snap then snap_tail window es else es))"
proof -
  obtain rs es where l: "boundary_loop nfc window 1 0 True ds = (rs, es)" by (cases "boundary_loop nfc window 1 0 True ds")
  show ?thesis unfolding resolve_boundaries_def batch_ends_loop l by (cases "rs = []") auto
qed

lemma batch_ends_bound: "batch_ends nfc window ds es \<Longrightarrow> e \<in> set es \<Longrightarrow> 0 < e \<and> e \<le> length window"
  by (auto simp: batch_ends_def located_anchored[symmetric] list_all2_conv_all_nth in_set_conv_nth dest!: located_bound)

lemma snap_tail_cases:
  obtains "snap_tail window es = es"
  | "es \<noteq> []" "last es < length window" "blank_text (drop (last es) window)" "snap_tail window es = butlast es @ [length window]"
  by (cases "es \<noteq> [] \<and> last es < length window \<and> blank_text (drop (last es) window)") (auto simp: snap_tail_def)

lemma sorted_wrt_snap: "sorted_wrt (<) (p # es) \<Longrightarrow> es \<noteq> [] \<Longrightarrow> last es < n \<Longrightarrow> sorted_wrt (<) (p # butlast es @ [n :: nat])"
proof (induction es arbitrary: p)
  case (Cons e es)
  then show ?case by (cases "es = []") (auto dest: in_set_butlastD last_in_set)
qed simp

lemma snap_tail_keeps:
  assumes "batch_ends nfc window ds es"
  shows "length (snap_tail window es) = length es \<and> sorted_wrt (<) (0 # snap_tail window es)
    \<and> (\<forall>e \<in> set (snap_tail window es). 0 < e \<and> e \<le> length window)"
proof (cases rule: snap_tail_cases [of window es])
  case 1
  then show ?thesis using assms batch_ends_bound [OF assms] by (simp add: batch_ends_def)
next
  case 2
  then have "sorted_wrt (<) (0 # butlast es @ [length window])"
    using sorted_wrt_snap [of 0 es "length window"] assms by (simp add: batch_ends_def)
  then show ?thesis using 2 batch_ends_bound [OF assms] by (auto dest: in_set_butlastD)
qed

text \<open>The texts of the episodes.\<close>

fun slices :: "utext \<Rightarrow> nat \<Rightarrow> nat list \<Rightarrow> utext list" where
  "slices t p [] = []"
| "slices t p (e # es) = drop p (take e t) # slices t e es"

lemma slice_append: "p \<le> e \<Longrightarrow> e \<le> l \<Longrightarrow> drop p (take e t) @ drop e (take l t) = drop p (take l t)"
  using append_take_drop_id [of "e - p" "drop p (take l t)"] by (simp add: drop_take min_def split: if_splits)

lemma concat_slices: "sorted_wrt (<) (p # es) \<Longrightarrow> concat (slices t p es) = drop p (take (last (p # es)) t)"
proof (induction es arbitrary: p)
  case (Cons e es)
  have "p \<le> e" "e \<le> last (e # es)" using Cons.prems by (auto dest: last_in_set less_imp_le)
  then show ?case using Cons slice_append [of p e "last (e # es)" t] by simp
qed simp

lemma last_snap: "snap_tail window es \<noteq> [] \<Longrightarrow> blank_text (drop (last (snap_tail window es)) window)
    \<Longrightarrow> length window \<le> last (snap_tail window es)"
  by (cases "es \<noteq> [] \<and> last es < length window \<and> blank_text (drop (last es) window)") (auto simp: snap_tail_def)

lemma nth_snap:
  assumes "batch_ends nfc window ds es" and "ends = (if snap then snap_tail window es else es)" and "i < length es"
  shows "es ! i \<le> ends ! i \<and> blank_text (drop (es ! i) (take (ends ! i) window)) \<and> (Suc i < length es \<longrightarrow> es ! i = ends ! i)"
proof (cases "ends = es")
  case True then show ?thesis by (simp add: blank_text_def)
next
  case False
  then have s: "last es < length window" "blank_text (drop (last es) window)" "ends = butlast es @ [length window]"
    using assms(2) by (cases rule: snap_tail_cases [of window es]; simp split: if_splits)+
  show ?thesis
  proof (cases "Suc i = length es")
    case True
    then have "es ! i = last es" "ends ! i = length window" using s(3) True by (cases es rule: rev_cases; simp add: nth_append)+
    with s True show ?thesis by simp
  next
    case False
    then have "i < length (butlast es)" using assms(3) by simp
    then have "ends ! i = es ! i" unfolding s(3) by (simp only: nth_append nth_butlast if_True)
    then show ?thesis by (simp add: blank_text_def)
  qed
qed

subsection \<open>Property\<close>

text \<open>
  (C38) The episodes of an accepted draft cut the window. There is one end per episode, the ends rise strictly from the start
  of the window and stay inside it, and the texts between them put together are the window up to the last end: no
  character is lost, repeated or reordered. Every episode ends where its anchor is quoted, word for word or (when the
  quoted text occurs nowhere) after normalizing and folding, and the anchor is quoted at no other place; only the
  last end may lie further on, and then only white space is in between. When the window reaches the end of the text and
  only white space follows the last end, the last episode takes it.
\<close>

theorem boundaries_partition_window:
  assumes "resolve_boundaries nfc window ds snap = Inr ends" and "ds \<noteq> []"
  shows "length ends = length ds \<and> sorted_wrt (<) (0 # ends) \<and> last ends \<le> length window
    \<and> concat (slices window 0 ends) = take (last ends) window
    \<and> (\<forall>i < length ds. \<exists>e. anchored nfc window (dr_anchor (ds ! i)) e \<and> e \<le> ends ! i
         \<and> blank_text (drop e (take (ends ! i) window)) \<and> (Suc i < length ds \<longrightarrow> e = ends ! i))
    \<and> (snap \<longrightarrow> blank_text (drop (last ends) window) \<longrightarrow> last ends = length window)"
proof -
  obtain es where es: "batch_ends nfc window ds es" "ends = (if snap then snap_tail window es else es)"
    using assms(1) by (auto simp: resolve_boundaries_iff)
  have len: "length es = length ds" and anch: "\<And>i. i < length ds \<Longrightarrow> anchored nfc window (dr_anchor (ds ! i)) (es ! i)"
    using es(1) by (auto simp: batch_ends_def list_all2_conv_all_nth)
  have keeps: "length ends = length es" "sorted_wrt (<) (0 # ends)" "\<And>e. e \<in> set ends \<Longrightarrow> e \<le> length window"
    using snap_tail_keeps [OF es(1)] es batch_ends_bound [OF es(1)] by (cases snap; simp add: batch_ends_def)+
  have "ends \<noteq> []" using keeps(1) len assms(2) by auto
  then have "last ends \<le> length window" "concat (slices window 0 ends) = take (last ends) window"
    using keeps(3) concat_slices [OF keeps(2), of window] by simp_all
  moreover have "\<forall>i < length ds. \<exists>e. anchored nfc window (dr_anchor (ds ! i)) e \<and> e \<le> ends ! i
      \<and> blank_text (drop e (take (ends ! i) window)) \<and> (Suc i < length ds \<longrightarrow> e = ends ! i)"
    using nth_snap [OF es] anch len by metis
  moreover have "last ends = length window" if "snap" "blank_text (drop (last ends) window)"
    using that es(2) last_snap [of window es] \<open>last ends \<le> length window\<close> \<open>ends \<noteq> []\<close> by force
  moreover have "length ends = length ds" using keeps(1) len by simp
  ultimately show ?thesis using keeps(2) by blast
qed

text \<open>\<open>"A. B" C.\<close> with typographic quotes and an ideographic stop; the anchors use plain ones. The last blank goes to the
  last episode.\<close>

definition ex_window :: utext where
  "ex_window = [0x201C, 65, 0x3002, 66, 0x201D, 67, 0x3002, 0x3000]"

definition ex_drafts :: "draft list" where
  "ex_drafts = [\<lparr>dr_title = ''t'', dr_hook = ''h'', dr_anchor = [66, 34], dr_outline = None\<rparr>,
     \<lparr>dr_title = ''u'', dr_hook = ''k'', dr_anchor = [67, 0x3002], dr_outline = None\<rparr>]"

lemma ex_located:
  "locate id ex_window [66, 34] = ([3], 2, True)" "locate id ex_window [67, 0x3002] = ([5], 2, False)"
  by (simp_all add: ex_window_def locate_def find_all_overlapping_def starts_from_filter occurs_at_def fold_for_match_def fold_char_def
    PUNCT_FOLD_def u_space_def normalize_source_text_def Let_def upt_rec)

theorem boundaries_partition_window_witness:
  "concat (slices ex_window 0 [5, 8]) = take (last [5, 8]) ex_window \<and> resolve_boundaries id ex_window ex_drafts True = Inr [5, 8]"
proof -
  have "resolve_boundaries id ex_window ex_drafts True = Inr [5, 8]"
    by (simp add: resolve_boundaries_def ex_drafts_def ex_located snap_tail_def) (simp add: ex_window_def blank_text_def u_space_def)
  moreover have "ex_drafts \<noteq> []" by (simp add: ex_drafts_def)
  ultimately show ?thesis using boundaries_partition_window [of id ex_window ex_drafts True "[5, 8]"] by blast
qed

end
