(* ===== verification/EpisodePlan.thy ===== *)
theory EpisodePlan
  imports EpisodeAnchors
begin

text \<open>
  The episode planner: \<open>EpisodePlanner\<close> of \<open>lib/episode_planner.py\<close>.

  A call of \<open>plan\<close> reads the project and the disk twice: before the language model is asked (\<open>d0\<close>, \<open>p0\<close>) and under
  the lock of the project when the result is committed (\<open>d1\<close>, \<open>p1\<close>); anything may have happened in between. The
  replies of the model, the Unicode operations, the digest and the revision of an episode's step 1 (\<open>script_review\<close>)
  are fields of \<open>planner\<close>; the text of the prompt is not rendered, \<open>prompt\<close> holds what it is made of. In the document
  \<open>episodes\<close> is a list or absent. The stamp of the update, the log and failures of the disk while the files are written
  are left out.
\<close>

subsection \<open>Disk, errors and arguments\<close>

datatype read_state = Escapes | NotFile | Unreadable | Readable utext

text \<open>The directory \<open>source/\<close>, whether it is a link, what lies downstream, and what a path that leads elsewhere reads as.\<close>

record disk =
  dk_dir :: directory
  dk_source_link :: bool
  dk_down :: downstream
  dk_other :: "string \<Rightarrow> read_state"

datatype plan_error =
    SourceChanged "string list"
  | MissingSourceRange "int list"
  | NoSource
  | StartOutside string nat int
  | SourceEscapes string
  | SourceMissing string
  | SourceUnreadable string
  | PlanningConflict
  | NoGenerator
  | OutputTruncated
  | StructuredOutputExhausted
  | DraftsRejected "draft_reason list"
  | SourceIsLink
  | EpisodeNoRange int
  | EpisodeBadRange int
  | EpisodeRewrite int plan_error
  | EpisodeOutside int int int nat
  | EpisodeIsLink int

record planning_progress =
  pg_planned_count :: nat
  pg_remaining_units :: nat
  pg_window_units :: nat

record prompt =
  pm_project :: doc
  pm_window :: utext
  pm_final :: bool
  pm_max_episodes :: int
  pm_context :: "doc list"
  pm_instructions :: "string option"
  pm_progress :: "planning_progress option"
  pm_failure :: "draft_reason list option"

datatype reply = ReplyTruncated | ReplyExhausted | ReplyText "string + draft list"

record planner =
  pn_nfc :: "utext \<Rightarrow> utext"
  pn_digest :: "utext \<Rightarrow> string"
  pn_word :: "int \<Rightarrow> bool"
  pn_revision :: "doc \<Rightarrow> int \<Rightarrow> json"
  pn_generate :: "(nat \<Rightarrow> prompt \<Rightarrow> reply) option"
  pn_max_attempts :: nat

definition disk_sources :: "planner \<Rightarrow> disk \<Rightarrow> (string \<times> utext) list" where
  "disk_sources pl d = discover_sources (pn_nfc pl) (dk_dir d)"

subsection \<open>Sources\<close>

definition source_state :: "disk \<Rightarrow> string \<Rightarrow> read_state" where
  "source_state d rel =
     (case strip_prefix ''source/'' rel of
        None \<Rightarrow> dk_other d rel
      | Some nm \<Rightarrow>
          if CHR ''/'' \<in> set nm \<or> dk_source_link d then dk_other d rel
          else (case dict_get (dk_dir d) nm of
              None \<Rightarrow> NotFile
            | Some e \<Rightarrow> if de_symlink e then dk_other d rel else if \<not> de_file e then NotFile
                 else (case de_text e of None \<Rightarrow> Unreadable | Some t \<Rightarrow> Readable t)))"

definition load_normalized_source :: "planner \<Rightarrow> disk \<Rightarrow> string \<Rightarrow> plan_error + utext" where
  "load_normalized_source pl d rel =
     (case source_state d rel of
        Escapes \<Rightarrow> Inl (SourceEscapes rel) | NotFile \<Rightarrow> Inl (SourceMissing rel) | Unreadable \<Rightarrow> Inl (SourceUnreadable rel)
      | Readable t \<Rightarrow> Inr (normalize_source_text (pn_nfc pl) t))"

definition check_source_fingerprints :: "planner \<Rightarrow> doc \<Rightarrow> (string \<times> utext) list \<Rightarrow> plan_error option" where
  "check_source_fingerprints pl project sources =
     (case mismatched_source_fingerprints (pn_digest pl) (jget ''source_fingerprints'' project) sources of
        [] \<Rightarrow> None | rels \<Rightarrow> Some (SourceChanged rels))"

definition check_source_ranges :: "doc \<Rightarrow> plan_error option" where
  "check_source_ranges project = (case episodes_without_source_range project of [] \<Rightarrow> None | ns \<Rightarrow> Some (MissingSourceRange ns))"

text \<open>The sources that follow a path in the order of names, and the next one.\<close>

definition sources_after :: "(string \<times> utext) list \<Rightarrow> string \<Rightarrow> (string \<times> utext) list" where
  "sources_after sources rel = tl (dropWhile (\<lambda>s. fst s \<noteq> rel) sources)"

definition next_source_rel :: "(string \<times> utext) list \<Rightarrow> string \<Rightarrow> string option" where
  "next_source_rel sources rel = (case sources_after sources rel of [] \<Rightarrow> None | s # _ \<Rightarrow> Some (fst s))"

text \<open>A slice of Python counts negative indices from the end and ignores what lies outside.\<close>

definition clamp_index :: "nat \<Rightarrow> int \<Rightarrow> nat" where
  "clamp_index n i = (if i < 0 then nat (int n + i) else min n (nat i))"

definition text_from :: "utext \<Rightarrow> int \<Rightarrow> utext" where
  "text_from t a = drop (clamp_index (length t) a) t"

definition text_slice :: "utext \<Rightarrow> int \<Rightarrow> int \<Rightarrow> utext" where
  "text_slice t a b = drop (clamp_index (length t) a) (take (clamp_index (length t) b) t)"

subsection \<open>The start of the next batch\<close>

definition anchored_end :: "doc \<Rightarrow> (int \<times> string \<times> int) option" where
  "anchored_end e =
     (case (parse_episode_num (jget ''episode'' e), jget ''source_range'' e) of
        (Some n, JObj r) \<Rightarrow>
          (case (jget ''source_file'' r, jget ''end'' r) of (JStr rel, JInt b) \<Rightarrow> Some (n, rel, b) | _ \<Rightarrow> None)
      | _ \<Rightarrow> None)"

definition later_end :: "doc \<Rightarrow> (int \<times> string \<times> int) option \<Rightarrow> (int \<times> string \<times> int) option" where
  "later_end e best =
     (case anchored_end e of
        None \<Rightarrow> best
      | Some (n, x) \<Rightarrow> (case best of None \<Rightarrow> Some (n, x) | Some (m, y) \<Rightarrow> if m < n then Some (n, x) else Some (m, y)))"

definition last_anchored :: "doc \<Rightarrow> (string \<times> int) option" where
  "last_anchored project = map_option snd (fold later_end (entries project) None)"

definition cursor_ref :: "doc \<Rightarrow> (string \<times> int) option" where
  "cursor_ref project =
     (case jget ''planning_cursor'' project of
        JObj r \<Rightarrow> (case (jget ''source_file'' r, jget ''offset'' r) of
            (JStr rel, JInt k) \<Rightarrow> if 0 \<le> k then Some (rel, k) else None | _ \<Rightarrow> None)
      | _ \<Rightarrow> None)"

definition rel_index :: "string list \<Rightarrow> string \<Rightarrow> nat option" where
  "rel_index rels rel = (if rel \<in> set rels then Some (length (takeWhile (\<lambda>r. r \<noteq> rel) rels)) else None)"

definition effective_start :: "string list \<Rightarrow> doc \<Rightarrow> plan_error + (string \<times> int)" where
  "effective_start rels project =
     (case (last_anchored project, cursor_ref project) of
        (Some (lrel, le), Some (crel, co)) \<Rightarrow>
          if crel = lrel then Inr (lrel, max le co)
          else (case (rel_index rels lrel, rel_index rels crel) of
              (None, None) \<Rightarrow> Inr (lrel, le)
            | (None, Some _) \<Rightarrow> Inr (crel, co)
            | (Some _, None) \<Rightarrow> Inr (lrel, le)
            | (Some i, Some j) \<Rightarrow> if j < i then Inr (lrel, le) else Inr (crel, co))
      | (Some l, None) \<Rightarrow> Inr l
      | (None, Some c) \<Rightarrow> Inr c
      | (None, None) \<Rightarrow> (case rels of [] \<Rightarrow> Inl NoSource | r # _ \<Rightarrow> Inr (r, 0)))"

text \<open>Past the sources of which only white space is left.\<close>

fun skip_blank :: "(string \<times> utext) list \<Rightarrow> string \<Rightarrow> int \<Rightarrow> utext \<Rightarrow> (string \<times> int \<times> utext) option" where
  "skip_blank rest rel start t =
     (if \<not> blank_text (text_from t start) then Some (rel, start, t)
      else case rest of [] \<Rightarrow> None | (r, u) # rest' \<Rightarrow> skip_blank rest' r 0 u)"

definition setting_int :: "doc \<Rightarrow> string \<Rightarrow> int \<Rightarrow> int" where
  "setting_int project k v = (case jget k project of JInt n \<Rightarrow> if 1 \<le> n then n else v | _ \<Rightarrow> v)"

definition window_end :: "utext \<Rightarrow> int \<Rightarrow> int \<Rightarrow> int" where
  "window_end t start window_chars =
     (if 5 * (int (length t) - start) \<le> 6 * window_chars then int (length t) else start + window_chars)"

subsection \<open>Counts over the ledger\<close>

definition language_of :: "doc \<Rightarrow> string option" where
  "language_of project = (case jget ''source_language'' project of JStr l \<Rightarrow> Some l | _ \<Rightarrow> None)"

definition count_planned_episodes :: "doc \<Rightarrow> nat" where
  "count_planned_episodes project = length (filter (\<lambda>e. parse_episode_num (jget ''episode'' e) \<noteq> None) (entries project))"

definition has_range :: "doc \<Rightarrow> bool" where
  "has_range e = (case jget ''source_range'' e of JObj r \<Rightarrow> True | _ \<Rightarrow> False)"

definition context_entries :: "doc \<Rightarrow> doc list" where
  "context_entries project =
     (let known = concat (map (\<lambda>e. case parse_episode_num (jget ''episode'' e) of
                    Some n \<Rightarrow> if has_range e then [(n, e)] else [] | None \<Rightarrow> []) (entries project));
          ordered = map snd (sort_key fst known)
      in drop (length ordered - 5) ordered)"

definition remaining_units_from :: "planner \<Rightarrow> (string \<times> utext) list \<Rightarrow> string \<Rightarrow> int \<Rightarrow> utext \<Rightarrow> string option \<Rightarrow> nat" where
  "remaining_units_from pl sources rel start t language =
     count_reading_units (pn_word pl) (text_from t start) language
     + sum_list (map (\<lambda>s. count_reading_units (pn_word pl) (snd s) language) (sources_after sources rel))"

text \<open>\<open>int(round(statistics.median(values)))\<close> on a sorted list: a half goes to the even neighbour.\<close>

definition median_rounded :: "nat list \<Rightarrow> nat option" where
  "median_rounded vs =
     (let n = length vs in
      if n = 0 then None
      else if odd n then Some (vs ! (n div 2))
      else let s = vs ! (n div 2 - 1) + vs ! (n div 2); h = s div 2
           in Some (if even s \<or> even h then h else Suc h))"

record ledger_stats =
  ls_total_episodes :: nat
  ls_smallest :: "(int \<times> nat) list"
  ls_median_units :: "nat option"
  ls_target_units :: "int option"

definition entry_units :: "planner \<Rightarrow> disk \<Rightarrow> string option \<Rightarrow> doc \<Rightarrow> (int \<times> nat) option" where
  "entry_units pl d language e =
     (case (parse_episode_num (jget ''episode'' e), parse_source_range e) of
        (Some n, Some (rel, a, b)) \<Rightarrow>
          (case load_normalized_source pl d rel of
             Inl _ \<Rightarrow> None
           | Inr t \<Rightarrow> if 0 \<le> a \<and> a \<le> b \<and> b \<le> int (length t) then Some (n, count_reading_units (pn_word pl) (text_slice t a b) language) else None)
      | _ \<Rightarrow> None)"

definition compute_ledger_stats :: "planner \<Rightarrow> disk \<Rightarrow> doc \<Rightarrow> ledger_stats" where
  "compute_ledger_stats pl d project =
     (let units = fold (\<lambda>e acc. case entry_units pl d (language_of project) e of Some (n, u) \<Rightarrow> dict_put n u acc | None \<Rightarrow> acc) (entries project) []
      in \<lparr>ls_total_episodes = count_planned_episodes project,
          ls_smallest = take 5 (sort_key snd (sort_key fst units)),
          ls_median_units = median_rounded (sort (map snd units)),
          ls_target_units = (case jget ''episode_target_units'' project of JInt n \<Rightarrow> if 1 \<le> n then Some n else None | _ \<Rightarrow> None)\<rparr>)"

subsection \<open>Asking the model\<close>

fun request_validated_drafts ::
    "planner \<Rightarrow> (nat \<Rightarrow> prompt \<Rightarrow> reply) \<Rightarrow> bool \<Rightarrow> prompt \<Rightarrow> nat \<Rightarrow> nat \<Rightarrow> plan_error + draft list \<times> nat list" where
  "request_validated_drafts pl gen drama pm attempt 0 =
     Inl (DraftsRejected (case pm_failure pm of Some rs \<Rightarrow> rs | None \<Rightarrow> []))"
| "request_validated_drafts pl gen drama pm attempt (Suc k) =
     (case gen attempt pm of
        ReplyTruncated \<Rightarrow> Inl OutputTruncated
      | ReplyExhausted \<Rightarrow> Inl StructuredOutputExhausted
      | ReplyText r \<Rightarrow>
          (let retry = (\<lambda>rs. request_validated_drafts pl gen drama (pm\<lparr>pm_failure := Some rs\<rparr>) (Suc attempt) k)
           in case parse_draft drama r of
                Inl rs \<Rightarrow> retry rs
              | Inr ds \<Rightarrow>
                  (let drafts = take (nat (pm_max_episodes pm)) ds
                   in case resolve_boundaries (pn_nfc pl) (pm_window pm) drafts (pm_final pm) of
                        Inl rs \<Rightarrow> retry rs
                      | Inr ends \<Rightarrow> Inr (drafts, ends))))"

subsection \<open>Derived files\<close>

definition episode_filename :: "int \<Rightarrow> string" where
  "episode_filename n = ''episode_'' @ show_int n @ ''.txt''"

definition is_link :: "directory \<Rightarrow> string \<Rightarrow> bool" where
  "is_link d nm = (case dict_get d nm of Some e \<Rightarrow> de_symlink e | None \<Rightarrow> False)"

definition cached_text :: "planner \<Rightarrow> disk \<Rightarrow> string \<times> utext \<Rightarrow> string \<Rightarrow> plan_error + utext" where
  "cached_text pl d held rel = (if rel = fst held then Inr (snd held) else load_normalized_source pl d rel)"

definition derived_write :: "planner \<Rightarrow> disk \<Rightarrow> string \<times> utext \<Rightarrow> doc \<Rightarrow> int \<Rightarrow> plan_error + (string \<times> utext)" where
  "derived_write pl d held e n =
     (case jget ''source_range'' e of
        JObj r \<Rightarrow>
          (case parse_source_range e of
             None \<Rightarrow> Inl (EpisodeBadRange n)
           | Some (rel, a, b) \<Rightarrow>
               (case cached_text pl d held rel of
                  Inl err \<Rightarrow> Inl (EpisodeRewrite n err)
                | Inr t \<Rightarrow>
                    if \<not> (0 \<le> a \<and> a \<le> b \<and> b \<le> int (length t)) then Inl (EpisodeOutside n a b (length t))
                    else if is_link (dk_dir d) (episode_filename n) then Inl (EpisodeIsLink n)
                    else Inr (episode_filename n, text_slice t a b)))
      | _ \<Rightarrow> Inl (EpisodeNoRange n))"

fun derived_writes :: "planner \<Rightarrow> disk \<Rightarrow> string \<times> utext \<Rightarrow> doc list \<Rightarrow> plan_error + (string \<times> utext) list" where
  "derived_writes pl d held [] = Inr []"
| "derived_writes pl d held (e # es) =
     (case parse_episode_num (jget ''episode'' e) of
        None \<Rightarrow> derived_writes pl d held es
      | Some n \<Rightarrow>
          (case derived_write pl d held e n of
             Inl err \<Rightarrow> Inl err
           | Inr w \<Rightarrow> (case derived_writes pl d held es of Inl err \<Rightarrow> Inl err | Inr ws \<Rightarrow> Inr (w # ws))))"

definition write_text :: "string \<Rightarrow> utext \<Rightarrow> directory \<Rightarrow> directory" where
  "write_text nm t dir = dict_put nm \<lparr>de_file = True, de_symlink = False, de_text = Some t\<rparr> dir"

text \<open>Removing a file is only tried: \<open>stuck\<close> holds the names that cannot be removed.\<close>

definition unlink_all :: "(string \<Rightarrow> bool) \<Rightarrow> string list \<Rightarrow> directory \<Rightarrow> directory" where
  "unlink_all stuck nms dir = filter (\<lambda>(nm, e). nm \<notin> set nms \<or> stuck nm) dir"

definition episode_nums :: "doc list \<Rightarrow> int list" where
  "episode_nums es = concat (map (\<lambda>e. case parse_episode_num (jget ''episode'' e) of Some n \<Rightarrow> [n] | None \<Rightarrow> []) es)"

definition reconcile_derived_files :: "planner \<Rightarrow> (string \<Rightarrow> bool) \<Rightarrow> disk \<Rightarrow> doc \<Rightarrow> string \<times> utext \<Rightarrow> plan_error + directory" where
  "reconcile_derived_files pl stuck d project held =
     (if dk_source_link d then Inl SourceIsLink
      else case derived_writes pl d held (entries project) of
        Inl err \<Rightarrow> Inl err
      | Inr ws \<Rightarrow>
          (let keep = episode_nums (entries project);
               written = fold (\<lambda>(nm, t). write_text nm t) ws (dk_dir d);
               left = map snd (filter (\<lambda>(n, nm). int n \<notin> set keep) (discover_episode_files written));
               cleaned = unlink_all stuck left written
           in Inr (if is_file cleaned ''_remaining.txt'' then unlink_all stuck [''_remaining.txt''] cleaned else cleaned)))"

subsection \<open>Committing a batch\<close>

definition ledger_entry_from_draft :: "draft \<Rightarrow> int \<Rightarrow> string \<Rightarrow> int \<Rightarrow> int \<Rightarrow> string \<Rightarrow> doc" where
  "ledger_entry_from_draft dr n rel a b status =
     [(''episode'', JInt n), (''title'', JStr (dr_title dr)), (''script_file'', JStr (episode_script_relpath n)),
      (''source_range'', JObj [(''source_file'', JStr rel), (''start'', JInt a), (''end'', JInt b)]),
      (''hook'', JStr (dr_hook dr)), (''ledger_status'', JStr status)]
     @ (case dr_outline dr of None \<Rightarrow> []
        | Some (beats, teaser) \<Rightarrow> [(''outline'', JObj [(''story_beats'', JList (map JStr beats)),
             (''next_episode_teaser'', case teaser of None \<Rightarrow> JNull | Some t \<Rightarrow> JStr t)])])"

definition new_entry :: "planner \<Rightarrow> disk \<Rightarrow> doc \<Rightarrow> draft \<Rightarrow> int \<Rightarrow> string \<Rightarrow> int \<Rightarrow> int \<Rightarrow> doc" where
  "new_entry pl d p dr n rel a b =
     (let e = ledger_entry_from_draft dr n rel a b ''planned''
      in if has_downstream_products (dk_down d) n e
         then dict_put ''stale_step1_revision'' (pn_revision pl p n) (dict_put ''ledger_status'' (JStr ''stale'') e) else e)"

fun new_entries :: "planner \<Rightarrow> disk \<Rightarrow> doc \<Rightarrow> string \<Rightarrow> int \<Rightarrow> int \<Rightarrow> int \<Rightarrow> draft list \<Rightarrow> nat list \<Rightarrow> doc list" where
  "new_entries pl d p rel start n prev (dr # drs) (e # es) =
     new_entry pl d p dr n rel prev (start + int e) # new_entries pl d p rel start (n + 1) (start + int e) drs es"
| "new_entries pl d p rel start n prev _ _ = []"

definition episode_values :: "doc \<Rightarrow> json list" where
  "episode_values p = (case jget ''episodes'' p of JList vs \<Rightarrow> filter (\<lambda>v. v \<noteq> JNull) vs | _ \<Rightarrow> [])"

definition next_num :: "json list \<Rightarrow> int" where
  "next_num vs = fold (\<lambda>v m. case num_key v of Some n \<Rightarrow> if 0 < n then max m n else m | None \<Rightarrow> m) vs 0 + 1"

definition fingerprint_doc :: "(string \<times> string) list \<Rightarrow> json" where
  "fingerprint_doc fps = JObj (map (\<lambda>(rel, fp). (rel, JStr fp)) fps)"

definition changed_sources :: "(string \<times> string) list \<Rightarrow> (string \<times> string) list \<Rightarrow> string list" where
  "changed_sources used current = sort (map fst (filter (\<lambda>(rel, fp). dict_get current rel \<noteq> Some fp) used))"

record batch =
  ba_ref :: "string \<times> int"
  ba_used :: "(string \<times> string) list"
  ba_rel :: string
  ba_start :: int
  ba_text :: utext
  ba_final :: bool
  ba_drafts :: "draft list"
  ba_ends :: "nat list"

definition batch_end :: "batch \<Rightarrow> int" where
  "batch_end b = ba_start b + int (last (ba_ends b))"

text \<open>The document of a commit: entries, cursor and fingerprints.\<close>

definition batch_entries :: "planner \<Rightarrow> disk \<Rightarrow> doc \<Rightarrow> batch \<Rightarrow> doc list" where
  "batch_entries pl d p b =
     new_entries pl d p (ba_rel b) (ba_start b) (next_num (episode_values p)) (ba_start b) (ba_drafts b) (ba_ends b)"

definition batch_project :: "planner \<Rightarrow> disk \<Rightarrow> doc \<Rightarrow> batch \<Rightarrow> doc" where
  "batch_project pl d p b =
     dict_put ''source_fingerprints'' (fingerprint_doc (compute_source_fingerprints (pn_digest pl) (disk_sources pl d)))
       (dict_put ''planning_cursor'' (JObj [(''source_file'', JStr (ba_rel b)), (''offset'', JInt (batch_end b))])
         (dict_put ''episodes'' (JList (sort_episodes_if_possible (episode_values p @ map JObj (batch_entries pl d p b)))) p))"

text \<open>The checks under the lock, in their order.\<close>

definition commit_refusal :: "planner \<Rightarrow> disk \<Rightarrow> doc \<Rightarrow> batch \<Rightarrow> plan_error option" where
  "commit_refusal pl d p b =
     (case check_source_ranges p of Some err \<Rightarrow> Some err
      | None \<Rightarrow>
          (case effective_start (map fst (disk_sources pl d)) p of Inl err \<Rightarrow> Some err
           | Inr ref \<Rightarrow>
               if ref \<noteq> ba_ref b then Some PlanningConflict
               else (case check_source_fingerprints pl p (disk_sources pl d) of Some err \<Rightarrow> Some err
                | None \<Rightarrow>
                    (case changed_sources (ba_used b) (compute_source_fingerprints (pn_digest pl) (disk_sources pl d)) of
                       [] \<Rightarrow> None | rels \<Rightarrow> Some (SourceChanged rels)))))"

definition commit_batch :: "planner \<Rightarrow> (string \<Rightarrow> bool) \<Rightarrow> disk \<Rightarrow> doc \<Rightarrow> batch \<Rightarrow> plan_error + doc \<times> directory" where
  "commit_batch pl stuck d p1 b =
     (let p = register_orphan_episode_entries (dk_dir d) (dk_down d) p1
      in case commit_refusal pl d p b of Some err \<Rightarrow> Inl err
         | None \<Rightarrow> (case reconcile_derived_files pl stuck d (batch_project pl d p b) (ba_rel b, ba_text b) of
               Inl err \<Rightarrow> Inl err | Inr dir \<Rightarrow> Inr (batch_project pl d p b, dir)))"

text \<open>Existing projects get their fingerprints even when there is nothing left to plan.\<close>

definition backfill_source_fingerprints ::
    "planner \<Rightarrow> doc \<Rightarrow> disk \<Rightarrow> doc \<Rightarrow> (string \<times> string) list \<Rightarrow> plan_error + doc \<times> doc" where
  "backfill_source_fingerprints pl project d p used =
     (if jget ''source_fingerprints'' project \<noteq> JNull then Inr (project, p)
      else case check_source_fingerprints pl p (disk_sources pl d) of Some err \<Rightarrow> Inl err
      | None \<Rightarrow>
          (let current = compute_source_fingerprints (pn_digest pl) (disk_sources pl d)
           in case changed_sources used current of
                [] \<Rightarrow> (let p' = dict_put ''source_fingerprints'' (fingerprint_doc current) p in Inr (p', p'))
              | rels \<Rightarrow> Inl (SourceChanged rels)))"

subsection \<open>Planning a batch\<close>

record plan_summary =
  ps_episode :: int
  ps_title :: string
  ps_hook :: string
  ps_reading_units :: nat
  ps_ledger_status :: json

record plan_result =
  pr_episodes :: "plan_summary list"
  pr_cursor :: json
  pr_source_exhausted :: bool
  pr_stale_episodes :: "int list"
  pr_total_planned :: nat
  pr_ledger_stats :: "ledger_stats option"

fun batch_summaries :: "planner \<Rightarrow> string option \<Rightarrow> utext \<Rightarrow> int \<Rightarrow> int \<Rightarrow> int \<Rightarrow> (draft \<times> nat \<times> doc) list \<Rightarrow> plan_summary list" where
  "batch_summaries pl language t start n prev [] = []"
| "batch_summaries pl language t start n prev ((dr, e, entry) # xs) =
     \<lparr>ps_episode = n, ps_title = dr_title dr, ps_hook = dr_hook dr,
      ps_reading_units = count_reading_units (pn_word pl) (text_slice t prev (start + int e)) language,
      ps_ledger_status = jget ''ledger_status'' entry\<rparr>
     # batch_summaries pl language t start (n + 1) (start + int e) xs"

text \<open>Up to the first source with text left: the document with its orphans, where the batch was found to start, the
  digests of the texts read and, unless everything is planned, the source, the offset and the text to go on with.\<close>

definition plan_begin :: "planner \<Rightarrow> disk \<Rightarrow> doc \<Rightarrow> plan_error + doc \<times> (string \<times> int) \<times> (string \<times> string) list \<times> (string \<times> int \<times> utext) option" where
  "plan_begin pl d p0 =
     (let project = register_orphan_episode_entries (dk_dir d) (dk_down d) p0;
          sources = disk_sources pl d;
          fps = compute_source_fingerprints (pn_digest pl) sources
      in case check_source_ranges project of Some err \<Rightarrow> Inl err
      | None \<Rightarrow>
       (case check_source_fingerprints pl project sources of Some err \<Rightarrow> Inl err
        | None \<Rightarrow>
         (case effective_start (map fst sources) project of Inl err \<Rightarrow> Inl err
          | Inr (rel, start) \<Rightarrow>
           (case (case dict_get sources rel of Some t \<Rightarrow> Inr (t, fps)
                  | None \<Rightarrow> (case load_normalized_source pl d rel of Inl err \<Rightarrow> Inl err | Inr t \<Rightarrow> Inr (t, dict_put rel (pn_digest pl t) fps))) of
              Inl err \<Rightarrow> Inl err
            | Inr (t, used) \<Rightarrow>
                if start > int (length t) then Inl (StartOutside rel (length t) start)
                else Inr (project, (rel, start), used, skip_blank (sources_after sources rel) rel start t)))))"

definition planning_prompt :: "planner \<Rightarrow> disk \<Rightarrow> doc \<Rightarrow> string option \<Rightarrow> string \<Rightarrow> int \<Rightarrow> utext \<Rightarrow> prompt" where
  "planning_prompt pl d project instructions rel start t =
     (let we = window_end t start (setting_int project ''planning_window_chars'' 30000);
          window = text_slice t start we;
          language = language_of project;
          given = (case instructions of Some s \<Rightarrow> if strip s = [] then None else Some (strip s) | None \<Rightarrow> None)
      in \<lparr>pm_project = project, pm_window = window, pm_final = (int (length t) \<le> we),
          pm_max_episodes = setting_int project ''planning_max_episodes'' 20, pm_context = context_entries project, pm_instructions = given,
          pm_progress = (if given = None then None
            else Some \<lparr>pg_planned_count = count_planned_episodes project,
                       pg_remaining_units = remaining_units_from pl (disk_sources pl d) rel start t language,
                       pg_window_units = count_reading_units (pn_word pl) window language\<rparr>),
          pm_failure = None\<rparr>)"

definition request_drafts :: "planner \<Rightarrow> prompt \<Rightarrow> plan_error + draft list \<times> nat list" where
  "request_drafts pl pm =
     (case pn_generate pl of None \<Rightarrow> Inl NoGenerator
      | Some gen \<Rightarrow> request_validated_drafts pl gen (jget ''content_mode'' (pm_project pm) = JStr ''drama'') pm 1 (pn_max_attempts pl))"

text \<open>The outcome: the document and the directory stored, and what is reported.\<close>

definition plan_committed :: "planner \<Rightarrow> string option \<Rightarrow> disk \<Rightarrow> doc \<Rightarrow> batch \<Rightarrow> doc \<times> directory \<Rightarrow> doc \<times> directory \<times> plan_result" where
  "plan_committed pl language d p1 b out =
     (let (p', dir) = out;
          p = register_orphan_episode_entries (dk_dir d) (dk_down d) p1;
          d' = d\<lparr>dk_dir := dir\<rparr>;
          es = batch_entries pl d p b;
          n = next_num (episode_values p);
          exhausted = (ba_final b \<and> blank_text (text_from (ba_text b) (batch_end b)) \<and> next_source_rel (disk_sources pl d') (ba_rel b) = None)
      in (p', dir,
          \<lparr>pr_episodes = batch_summaries pl language (ba_text b) (ba_start b) n (ba_start b) (zip (ba_drafts b) (zip (ba_ends b) es)),
           pr_cursor = jget ''planning_cursor'' p', pr_source_exhausted = exhausted,
           pr_stale_episodes = concat (map (\<lambda>(i, e). if jget ''ledger_status'' e = JStr ''stale'' then [n + int i] else []) (enumerate 0 es)),
           pr_total_planned = count_planned_episodes p',
           pr_ledger_stats = (if exhausted then Some (compute_ledger_stats pl d' p') else None)\<rparr>))"

definition plan :: "planner \<Rightarrow> (string \<Rightarrow> bool) \<Rightarrow> string option \<Rightarrow> disk \<Rightarrow> doc \<Rightarrow> disk \<Rightarrow> doc \<Rightarrow> plan_error + doc \<times> directory \<times> plan_result" where
  "plan pl stuck instructions d0 p0 d1 p1 =
     (case plan_begin pl d0 p0 of
        Inl err \<Rightarrow> Inl err
      | Inr (project, ref, used, None) \<Rightarrow>
          (case backfill_source_fingerprints pl project d1 p1 used of
             Inl err \<Rightarrow> Inl err
           | Inr (seen, stored) \<Rightarrow>
               Inr (stored, dk_dir d1,
                 \<lparr>pr_episodes = [], pr_cursor = jget ''planning_cursor'' seen, pr_source_exhausted = True, pr_stale_episodes = [],
                  pr_total_planned = count_planned_episodes seen, pr_ledger_stats = Some (compute_ledger_stats pl d1 seen)\<rparr>))
      | Inr (project, ref, used, Some (rel, start, t)) \<Rightarrow>
          (let pm = planning_prompt pl d0 project instructions rel start t
           in case request_drafts pl pm of
                Inl err \<Rightarrow> Inl err
              | Inr (drafts, ends) \<Rightarrow>
                  (let b = \<lparr>ba_ref = ref, ba_used = used, ba_rel = rel, ba_start = start, ba_text = t, ba_final = pm_final pm,
                            ba_drafts = drafts, ba_ends = ends\<rparr>
                   in case commit_batch pl stuck d1 p1 b of
                        Inl err \<Rightarrow> Inl err
                      | Inr out \<Rightarrow> Inr (plan_committed pl (language_of project) d1 p1 b out))))"

end
