(* ===== verification/EpisodeCommit.thy ===== *)
theory EpisodeCommit
  imports EpisodePlan
begin

text \<open>
  What planning does to the ledger and to the episode files: the entries of a batch, the end of the ledger, the derived
  files, and the properties of \<open>EpisodePlanner.plan\<close>.
\<close>

subsection \<open>The gate\<close>

lemma check_source_ranges_None:
  "check_source_ranges p = None
     \<longleftrightarrow> (\<forall>e \<in> set (entries p). parse_episode_num (jget ''episode'' e) \<noteq> None \<longrightarrow> parse_source_range e \<noteq> None)"
proof -
  have "check_source_ranges p = None \<longleftrightarrow> set (episodes_without_source_range p) = {}"
    by (simp add: check_source_ranges_def split: list.splits)
  also have "\<dots> \<longleftrightarrow> (\<forall>n. n \<notin> set (episodes_without_source_range p))" by (simp only: all_not_in_conv)
  finally show ?thesis unfolding set_missing_ranges by (metis not_None_eq)
qed

lemma register_accepted:
  assumes "episodes_list p = Some vs" and "check_source_ranges (register_orphan_episode_entries dir dw p) = None"
  shows "orphans dir vs = []" and "register_orphan_episode_entries dir dw p = dict_put ''episodes'' (JList (sort_episodes_if_possible vs)) p"
proof -
  have "episodes_without_source_range (register_orphan_episode_entries dir dw p) = []"
    using assms(2) by (simp add: check_source_ranges_def split: list.splits)
  with register_missing [OF assms(1), of dir dw] show "orphans dir vs = []" by simp
  then show "register_orphan_episode_entries dir dw p = dict_put ''episodes'' (JList (sort_episodes_if_possible vs)) p"
    using register_episodes [OF assms(1), of dir dw] by simp
qed

subsection \<open>The end of the ledger\<close>

lemma fold_later_end:
  assumes "\<And>e m y. e \<in> set es \<Longrightarrow> anchored_end e = Some (m, y) \<Longrightarrow> m < n \<or> (m, y) = (n, x)"
    and "(\<exists>e \<in> set es. anchored_end e = Some (n, x)) \<or> acc = Some (n, x)"
    and "\<And>m y. acc = Some (m, y) \<Longrightarrow> m < n \<or> (m, y) = (n, x)"
  shows "fold later_end es acc = Some (n, x)"
  using assms
proof (induction es arbitrary: acc)
  case Nil then show ?case by simp
next
  case (Cons e es)
  have next_ok: "m < n \<or> (m, y) = (n, x)" if "later_end e acc = Some (m, y)" for m y
    using that Cons.prems(1) [of e m y] Cons.prems(3) [of m y]
    by (auto simp: later_end_def split: option.splits if_splits)
  have "(\<exists>e' \<in> set es. anchored_end e' = Some (n, x)) \<or> later_end e acc = Some (n, x)"
    using Cons.prems(2)
  proof
    assume "acc = Some (n, x)"
    then show ?thesis using Cons.prems(1) [of e] by (auto simp: later_end_def split: option.splits)
  next
    assume "\<exists>e' \<in> set (e # es). anchored_end e' = Some (n, x)"
    then show ?thesis using Cons.prems(3) by (auto simp: later_end_def split: option.splits)
  qed
  moreover have "m < n \<or> (m, y) = (n, x)" if "e' \<in> set es" "anchored_end e' = Some (m, y)" for e' m y
    by (rule Cons.prems(1) [OF _ that(2)]) (simp add: that(1))
  ultimately have "fold later_end es (later_end e acc) = Some (n, x)" using next_ok by (intro Cons.IH)
  then show ?case by simp
qed

lemma effective_start_agrees:
  assumes "last_anchored p = Some (rel, k)" and "cursor_ref p = Some (rel, k) \<or> cursor_ref p = None"
  shows "effective_start rels p = Inr (rel, k)"
  using assms by (auto simp: effective_start_def)

subsection \<open>Numbers\<close>

lemma next_num_fold:
  "m \<le> fold (\<lambda>v m. case num_key v of Some n \<Rightarrow> if 0 < n then max m n else m | None \<Rightarrow> m) vs m
   \<and> (\<forall>v \<in> set vs. \<forall>n. num_key v = Some n \<longrightarrow> 0 < n \<longrightarrow> n \<le> fold (\<lambda>v m. case num_key v of Some n \<Rightarrow> if 0 < n then max m n else m | None \<Rightarrow> m) vs m)"
proof (induction vs arbitrary: m)
  case Nil then show ?case by simp
next
  case (Cons v vs)
  show ?case
    using Cons.IH [of "case num_key v of Some n \<Rightarrow> if 0 < n then max m n else m | None \<Rightarrow> m"]
    by (cases "num_key v") (auto split: if_splits)
qed

lemma next_num_above: "v \<in> set vs \<Longrightarrow> num_key v = Some n \<Longrightarrow> n < next_num vs"
  using next_num_fold [of 0 vs] unfolding next_num_def by (cases "0 < n") fastforce+

lemma next_num_positive: "0 < next_num vs"
  using next_num_fold [of 0 vs] unfolding next_num_def by simp

subsection \<open>The entries of a batch\<close>

lemma new_entry_fields:
  "jget ''episode'' (new_entry pl d p dr n rel a b) = JInt n"
  "jget ''source_range'' (new_entry pl d p dr n rel a b) = JObj [(''source_file'', JStr rel), (''start'', JInt a), (''end'', JInt b)]"
proof -
  have *: "jget ''episode'' (ledger_entry_from_draft dr n rel a b s) = JInt n"
    "jget ''source_range'' (ledger_entry_from_draft dr n rel a b s) = JObj [(''source_file'', JStr rel), (''start'', JInt a), (''end'', JInt b)]" for s
    by (simp_all add: ledger_entry_from_draft_def jget_def dict_get_default_def)
  show "jget ''episode'' (new_entry pl d p dr n rel a b) = JInt n" unfolding new_entry_def Let_def by (simp add: *)
  show "jget ''source_range'' (new_entry pl d p dr n rel a b) = JObj [(''source_file'', JStr rel), (''start'', JInt a), (''end'', JInt b)]"
    unfolding new_entry_def Let_def by (simp add: *)
qed

lemma new_entry_parsed [simp]:
  "parse_episode_num (jget ''episode'' (new_entry pl d p dr n rel a b)) = Some n"
  "parse_source_range (new_entry pl d p dr n rel a b) = Some (rel, a, b)"
  "anchored_end (new_entry pl d p dr n rel a b) = Some (n, rel, b)"
  by (simp_all add: new_entry_fields parse_episode_num_def parse_source_range_def anchored_end_def jget_def [of "''source_file''"]
    jget_def [of "''start''"] jget_def [of "''end''"] dict_get_default_def)

lemma length_new_entries [simp]: "length (new_entries pl d p rel start n prev drs es) = min (length drs) (length es)"
  by (induction pl d p rel start n prev drs es rule: new_entries.induct) auto

lemma nth_new_entries:
  "i < length drs \<Longrightarrow> i < length es \<Longrightarrow> new_entries pl d p rel start n prev drs es ! i
     = new_entry pl d p (drs ! i) (n + int i) rel (if i = 0 then prev else start + int (es ! (i - 1))) (start + int (es ! i))"
proof (induction pl d p rel start n prev drs es arbitrary: i rule: new_entries.induct)
  case (1 pl d p rel start n prev dr drs e es)
  then show ?case by (cases i) (auto simp: nth_Cons' algebra_simps)
qed auto

lemma in_new_entries:
  assumes "e \<in> set (new_entries pl d p rel start n prev drs es)"
  obtains i where "i < length drs" "i < length es" "e = new_entry pl d p (drs ! i) (n + int i) rel (if i = 0 then prev else start + int (es ! (i - 1))) (start + int (es ! i))"
  using assms nth_new_entries [of _ drs es pl d p rel start n prev] by (auto simp: in_set_conv_nth)

text \<open>The text of an episode.\<close>

definition entry_text :: "utext \<Rightarrow> doc \<Rightarrow> utext" where
  "entry_text t e = (case parse_source_range e of Some (rel, a, b) \<Rightarrow> text_slice t a b | None \<Rightarrow> [])"

lemma text_slice_nat: "0 \<le> a \<Longrightarrow> 0 \<le> b \<Longrightarrow> text_slice t a b = drop (nat a) (take (nat b) t)"
  by (cases "nat a \<le> length t"; cases "nat b \<le> length t") (auto simp: text_slice_def clamp_index_def min_def)

lemma new_entries_texts:
  "length drs = length es \<Longrightarrow> 0 \<le> prev \<Longrightarrow> 0 \<le> start
     \<Longrightarrow> map (entry_text t) (new_entries pl d p rel start n prev drs es) = slices t (nat prev) (map (\<lambda>e. nat start + e) es)"
proof (induction pl d p rel start n prev drs es rule: new_entries.induct)
  case (1 pl d p rel start n prev dr drs e es)
  then show ?case by (simp add: entry_text_def text_slice_nat nat_add_distrib)
qed auto

lemma new_entries_concat:
  assumes "length drs = length es" and "es \<noteq> []" and "0 \<le> start" and "sorted_wrt (<) (0 # es)"
  shows "concat (map (entry_text t) (new_entries pl d p rel start n start drs es)) = text_slice t start (start + int (last es))"
proof -
  have "sorted_wrt (<) (nat start # map (\<lambda>e. nat start + e) es)"
    using assms(4) by (auto simp: sorted_wrt_map)
  from concat_slices [OF this, of t] show ?thesis
    using assms by (simp add: new_entries_texts text_slice_nat last_map nat_add_distrib)
qed

subsection \<open>The document of a commit\<close>

lemma batch_project_fields:
  "jget ''episodes'' (batch_project pl d p b) = JList (sort_episodes_if_possible (episode_values p @ map JObj (batch_entries pl d p b)))"
  "jget ''planning_cursor'' (batch_project pl d p b) = JObj [(''source_file'', JStr (ba_rel b)), (''offset'', JInt (batch_end b))]"
  "jget ''source_fingerprints'' (batch_project pl d p b) = fingerprint_doc (compute_source_fingerprints (pn_digest pl) (disk_sources pl d))"
  by (simp_all add: batch_project_def)

lemma entry_values: "JObj e \<in> set (episode_values p) \<longleftrightarrow> e \<in> set (entries p)"
  by (cases "jget ''episodes'' p") (auto simp: episode_values_def entries_none set_entries)

lemma batch_project_entries: "e \<in> set (entries (batch_project pl d p b)) \<longleftrightarrow> e \<in> set (entries p) \<or> e \<in> set (batch_entries pl d p b)"
  by (auto simp: set_entries [OF batch_project_fields(1)] entry_values)

lemma anchored_end_num: "anchored_end e = Some (m, y) \<Longrightarrow> parse_episode_num (jget ''episode'' e) = Some m"
  by (auto simp: anchored_end_def split: option.splits json.splits)

lemma old_numbers: "e \<in> set (entries p) \<Longrightarrow> parse_episode_num (jget ''episode'' e) = Some m \<Longrightarrow> m < next_num (episode_values p)"
  by (rule next_num_above [of "JObj e"]) (auto simp: entry_values num_key_def)

lemma batch_effective_start:
  assumes "length (ba_drafts b) = length (ba_ends b)" and "ba_ends b \<noteq> []"
  shows "effective_start rels (batch_project pl d p b) = Inr (ba_rel b, batch_end b)"
proof (rule effective_start_agrees)
  let ?n = "next_num (episode_values p)" and ?k = "length (ba_ends b) - 1"
  have new: "anchored_end (batch_entries pl d p b ! i) = Some (?n + int i, ba_rel b, ba_start b + int (ba_ends b ! i))"
    if "i < length (ba_ends b)" for i
    using that assms(1) by (simp add: batch_entries_def nth_new_entries)
  have len: "length (batch_entries pl d p b) = length (ba_ends b)" using assms(1) by (simp add: batch_entries_def)
  have "fold later_end (entries (batch_project pl d p b)) None = Some (?n + int ?k, ba_rel b, batch_end b)"
  proof (rule fold_later_end)
    fix e m y assume "e \<in> set (entries (batch_project pl d p b))" and m: "anchored_end e = Some (m, y)"
    then have "e \<in> set (entries p) \<or> (\<exists>i < length (ba_ends b). e = batch_entries pl d p b ! i)"
      unfolding batch_project_entries by (metis in_set_conv_nth len)
    then consider "e \<in> set (entries p)" | i where "i < length (ba_ends b)" "e = batch_entries pl d p b ! i" by blast
    then show "m < ?n + int ?k \<or> (m, y) = (?n + int ?k, ba_rel b, batch_end b)"
    proof cases
      case 1
      then show ?thesis using old_numbers [of e p m] anchored_end_num [OF m] by simp
    next
      case 2
      then show ?thesis using m new [of i] by (cases "i = ?k") (auto simp: batch_end_def last_conv_nth assms(2))
    qed
  next
    have "batch_entries pl d p b ! ?k \<in> set (entries (batch_project pl d p b))"
      unfolding batch_project_entries using assms(2) len by (intro disjI2 nth_mem) simp
    moreover have "anchored_end (batch_entries pl d p b ! ?k) = Some (?n + int ?k, ba_rel b, batch_end b)"
      using new [of ?k] assms(2) by (simp add: batch_end_def last_conv_nth)
    ultimately show "(\<exists>e \<in> set (entries (batch_project pl d p b)). anchored_end e = Some (?n + int ?k, ba_rel b, batch_end b))
        \<or> None = Some (?n + int ?k, ba_rel b, batch_end b)" by blast
  qed simp
  then show "last_anchored (batch_project pl d p b) = Some (ba_rel b, batch_end b)" by (simp add: last_anchored_def)
  show "cursor_ref (batch_project pl d p b) = Some (ba_rel b, batch_end b) \<or> cursor_ref (batch_project pl d p b) = None"
    by (simp add: cursor_ref_def batch_project_fields jget_def [of "''source_file''"] jget_def [of "''offset''"] dict_get_default_def)
qed

subsection \<open>Names of episode files\<close>

lemma episode_file_num_name: "0 \<le> n \<Longrightarrow> episode_file_num (episode_filename n) = Some (nat n)"
proof -
  assume n: "0 \<le> n"
  have "takeWhile is_digit (show_nat (nat n) @ ''.txt'') = show_nat (nat n)"
    using show_nat_digits [of "nat n"] by (subst takeWhile_append2) (auto simp: is_digit_def less_eq_char_def)
  then show ?thesis
    using n unfolding episode_file_num_def episode_filename_def numbered_name_def strip_prefix_append by (simp add: show_int_def Let_def)
qed

lemma show_int_inj: "show_int i = show_int j \<Longrightarrow> i = j"
  using parse_num_show_int [of "[]" i] parse_num_show_int [of "[]" j] by (simp add: num_stop_def)

lemma episode_filename_inj [simp]: "episode_filename i = episode_filename j \<longleftrightarrow> i = j"
  by (auto simp: episode_filename_def dest: show_int_inj)

subsection \<open>Rewriting them\<close>

lemma dict_get_writes:
  "dict_get (fold (\<lambda>(nm, t). write_text nm t) ws dir) nm
     = (case map_of (rev ws) nm of Some t \<Rightarrow> Some \<lparr>de_file = True, de_symlink = False, de_text = Some t\<rparr> | None \<Rightarrow> dict_get dir nm)"
  by (induction ws arbitrary: dir) (auto simp: write_text_def dict_get_put map_add_def split: option.splits)

lemma derived_write_Inr:
  assumes "derived_write pl d held e n = Inr w"
  obtains rel a b t where "parse_source_range e = Some (rel, a, b)" "cached_text pl d held rel = Inr t"
    "0 \<le> a" "a \<le> b" "b \<le> int (length t)" "\<not> is_link (dk_dir d) (episode_filename n)" "w = (episode_filename n, text_slice t a b)"
  using assms by (auto simp: derived_write_def split: json.splits option.splits sum.splits if_splits)

lemma derived_writes_Inr:
  assumes "derived_writes pl d held es = Inr ws"
  shows "map fst ws = map episode_filename (episode_nums es)"
    and "e \<in> set es \<Longrightarrow> parse_episode_num (jget ''episode'' e) = Some n \<Longrightarrow> \<exists>w \<in> set ws. derived_write pl d held e n = Inr w"
proof -
  show "map fst ws = map episode_filename (episode_nums es)"
    using assms
    by (induction es arbitrary: ws) (auto simp: episode_nums_def split: option.splits sum.splits elim!: derived_write_Inr)
  show "\<exists>w \<in> set ws. derived_write pl d held e n = Inr w" if "e \<in> set es" "parse_episode_num (jget ''episode'' e) = Some n"
    using assms that
    by (induction es arbitrary: ws) (auto split: option.splits sum.splits)
qed

lemma set_episode_nums: "n \<in> set (episode_nums es) \<longleftrightarrow> (\<exists>e \<in> set es. parse_episode_num (jget ''episode'' e) = Some n)"
  by (force simp: episode_nums_def split: option.splits)

lemma episode_file_num_negative: "n < 0 \<Longrightarrow> episode_file_num (episode_filename n) = None"
  unfolding episode_file_num_def episode_filename_def numbered_name_def strip_prefix_append by (simp add: show_int_def is_digit_def less_eq_char_def)

text \<open>The file of an entry with a negative number is not recognized as an episode file: it counts as a source.\<close>

lemma negative_episode_file_is_source: "source_name (episode_filename (- 1))"
  by code_simp

lemma dict_get_unlink: "dict_get (unlink_all stuck nms dir) nm = (if nm \<in> set nms \<and> \<not> stuck nm then None else dict_get dir nm)"
  by (induction dir) (auto simp: unlink_all_def)

lemma unlink_nothing: "unlink_all stuck [] dir = dir"
  by (simp add: unlink_all_def)

text \<open>The directory after the writes \<open>ws\<close> and the removal of the remainder file.\<close>

definition rewritten :: "(string \<Rightarrow> bool) \<Rightarrow> directory \<Rightarrow> (string \<times> utext) list \<Rightarrow> directory \<Rightarrow> bool" where
  "rewritten stuck dir ws dir' \<longleftrightarrow>
     (\<forall>nm. dict_get dir' nm = (case map_of (rev ws) nm of Some t \<Rightarrow> Some \<lparr>de_file = True, de_symlink = False, de_text = Some t\<rparr>
        | None \<Rightarrow> if nm = ''_remaining.txt'' \<and> is_file dir nm \<and> \<not> stuck nm then None else dict_get dir nm))"

text \<open>When every episode file on the disk belongs to the ledger, reconciling rewrites the files of the ledger, drops the
  remainder file and touches nothing else: there is never a leftover to remove.\<close>

lemma reconcile_exact:
  assumes "reconcile_derived_files pl stuck d project held = Inr dir"
    and listed: "\<And>n. n \<in> fst ` set (discover_episode_files (dk_dir d)) \<Longrightarrow> int n \<in> set (episode_nums (entries project))"
  obtains ws where "derived_writes pl d held (entries project) = Inr ws"
    and "rewritten stuck (dk_dir d) ws dir"
proof -
  obtain ws where ws: "derived_writes pl d held (entries project) = Inr ws"
    using assms(1) by (auto simp: reconcile_derived_files_def split: if_splits sum.splits)
  define written where "written = fold (\<lambda>(nm, t). write_text nm t) ws (dk_dir d)"
  have get: "dict_get written nm = (case map_of (rev ws) nm of Some t \<Rightarrow> Some \<lparr>de_file = True, de_symlink = False, de_text = Some t\<rparr>
      | None \<Rightarrow> dict_get (dk_dir d) nm)" for nm
    unfolding written_def by (rule dict_get_writes)
  have keep: "int n \<in> set (episode_nums (entries project))" if n: "n \<in> fst ` set (discover_episode_files written)" for n
  proof -
    obtain nm where nm: "is_file written nm" "episode_file_num nm = Some n" using n unfolding discover_episode_files_num by blast
    show ?thesis
    proof (cases "map_of (rev ws) nm")
      case None
      then have "is_file (dk_dir d) nm" using nm(1) by (simp add: is_file_def get)
      then show ?thesis using nm(2) by (intro listed) (auto simp: discover_episode_files_num)
    next
      case (Some t)
      then have "nm \<in> set (map fst ws)" by (force dest: map_of_SomeD)
      then obtain m where m: "m \<in> set (episode_nums (entries project))" "nm = episode_filename m"
        unfolding derived_writes_Inr(1) [OF ws] by auto
      then show ?thesis using nm(2) episode_file_num_name [of m] episode_file_num_negative [of m] by (cases "0 \<le> m") auto
    qed
  qed
  then have "filter (\<lambda>(n, nm). int n \<notin> set (episode_nums (entries project))) (discover_episode_files written) = []"
    by (force simp: filter_empty_conv)
  then have dir: "dir = (if is_file written ''_remaining.txt'' then unlink_all stuck [''_remaining.txt''] written else written)"
    using assms(1) ws by (auto simp: reconcile_derived_files_def Let_def unlink_nothing written_def split: if_splits)
  have "map_of (rev ws) ''_remaining.txt'' = None"
  proof (rule ccontr)
    assume "map_of (rev ws) ''_remaining.txt'' \<noteq> None"
    then have "''_remaining.txt'' \<in> set (map fst ws)" by (force dest: map_of_SomeD)
    then show False unfolding derived_writes_Inr(1) [OF ws] by (auto simp: episode_filename_def)
  qed
  then have rem: "is_file written ''_remaining.txt'' = is_file (dk_dir d) ''_remaining.txt''" by (simp add: is_file_def get)
  have "dict_get dir nm = (case map_of (rev ws) nm of Some t \<Rightarrow> Some \<lparr>de_file = True, de_symlink = False, de_text = Some t\<rparr>
        | None \<Rightarrow> if nm = ''_remaining.txt'' \<and> is_file (dk_dir d) nm \<and> \<not> stuck nm then None else dict_get (dk_dir d) nm)" for nm
    unfolding dir rem using \<open>map_of (rev ws) ''_remaining.txt'' = None\<close> get [of nm] dict_get_unlink [of stuck "[''_remaining.txt'']" written nm]
    by (cases "nm = ''_remaining.txt''"; cases "is_file (dk_dir d) ''_remaining.txt''"; simp split: option.splits)
  then have "rewritten stuck (dk_dir d) ws dir" by (simp add: rewritten_def)
  with ws show thesis by (rule that)
qed

subsection \<open>A commit\<close>

lemma commit_Inr:
  assumes "commit_batch pl stuck d p1 b = Inr (p', dir)" and "episodes_list p1 = Some vs"
  obtains p where "p = dict_put ''episodes'' (JList (sort_episodes_if_possible vs)) p1" "p' = batch_project pl d p b"
    "commit_refusal pl d p b = None" "orphans (dk_dir d) vs = []"
    "reconcile_derived_files pl stuck d p' (ba_rel b, ba_text b) = Inr dir"
proof -
  let ?p = "register_orphan_episode_entries (dk_dir d) (dk_down d) p1"
  have ref: "commit_refusal pl d ?p b = None" and p': "p' = batch_project pl d ?p b"
    and rec: "reconcile_derived_files pl stuck d p' (ba_rel b, ba_text b) = Inr dir"
    using assms(1) by (auto simp: commit_batch_def Let_def split: option.splits sum.splits)
  have "check_source_ranges ?p = None" using ref by (simp add: commit_refusal_def split: option.splits)
  from that [OF register_accepted(2) [OF assms(2) this] p' ref register_accepted(1) [OF assms(2) this] rec] show thesis .
qed

lemma sorted_values:
  assumes "p = dict_put ''episodes'' (JList (sort_episodes_if_possible vs)) p1"
  shows "mset (episode_values p) = mset (filter (\<lambda>v. v \<noteq> JNull) vs)" and "e \<in> set (entries p) \<longleftrightarrow> JObj e \<in> set vs"
proof -
  have "jget ''episodes'' p = JList (sort_episodes_if_possible vs)" by (simp add: assms)
  then show "mset (episode_values p) = mset (filter (\<lambda>v. v \<noteq> JNull) vs)" "e \<in> set (entries p) \<longleftrightarrow> JObj e \<in> set vs"
    by (simp_all add: episode_values_def set_entries mset_filter)
qed

lemma commit_listed:
  assumes "orphans (dk_dir d) vs = []" and p: "p = dict_put ''episodes'' (JList (sort_episodes_if_possible vs)) p1"
    and "n \<in> fst ` set (discover_episode_files (dk_dir d))"
  shows "int n \<in> set (episode_nums (entries (batch_project pl d p b)))"
proof -
  obtain v where "v \<in> set vs" "num_key v = Some (int n)"
    using assms(1,3) by (auto simp: orphans_def filter_empty_conv)
  then obtain e where "JObj e \<in> set vs" "parse_episode_num (jget ''episode'' e) = Some (int n)"
    by (auto simp: num_key_def split: json.splits)
  then show ?thesis by (auto simp: set_episode_nums batch_project_entries sorted_values(2) [OF p])
qed

lemma next_num_values:
  assumes "p = dict_put ''episodes'' (JList (sort_episodes_if_possible vs)) p1"
  shows "next_num (episode_values p) = next_num vs"
proof -
  let ?f = "\<lambda>v m. case num_key v of Some n \<Rightarrow> if 0 < n then max m n else m | None \<Rightarrow> m"
  have "?f v \<circ> ?f w = ?f w \<circ> ?f v" for v w by (auto simp: fun_eq_iff max_def split: option.splits)
  then have "fold ?f (episode_values p) = fold ?f (filter (\<lambda>v. v \<noteq> JNull) vs)"
    by (intro fold_multiset_equiv) (simp_all add: sorted_values [OF assms])
  moreover have "fold ?f (filter (\<lambda>v. v \<noteq> JNull) vs) m = fold ?f vs m" for m
    by (induction vs arbitrary: m) (auto simp: num_key_def)
  ultimately show ?thesis by (simp add: next_num_def)
qed

lemma resolve_shape:
  assumes "resolve_boundaries nfc window ds snap = Inr ends" and "ds \<noteq> []"
  shows "length ds = length ends" and "ends \<noteq> []" and "sorted_wrt (<) (0 # ends)"
proof -
  obtain es where es: "batch_ends nfc window ds es" "ends = (if snap then snap_tail window es else es)"
    using assms(1) by (auto simp: resolve_boundaries_iff)
  have "length es = length ds" using es(1) by (auto simp: batch_ends_def list_all2_conv_all_nth)
  with es snap_tail_keeps [OF es(1)] show len: "length ds = length ends" by simp
  then show "ends \<noteq> []" using assms(2) by auto
  show "sorted_wrt (<) (0 # ends)" using es snap_tail_keeps [OF es(1)] by (cases snap; simp add: batch_ends_def)
qed

lemma setting_int_positive: "1 \<le> v \<Longrightarrow> 1 \<le> setting_int project k v"
  by (simp add: setting_int_def split: json.splits)

lemma request_validated_Inr:
  "request_validated_drafts pl gen drama pm attempt k = Inr (drafts, ends) \<Longrightarrow> 1 \<le> pm_max_episodes pm
     \<Longrightarrow> drafts \<noteq> [] \<and> resolve_boundaries (pn_nfc pl) (pm_window pm) drafts (pm_final pm) = Inr ends"
proof (induction k arbitrary: attempt pm)
  case 0 then show ?case by simp
next
  case (Suc k)
  show ?case
  proof (cases "gen attempt pm")
    case (ReplyText r)
    have retry: ?thesis if "request_validated_drafts pl gen drama (pm\<lparr>pm_failure := Some rs\<rparr>) (Suc attempt) k = Inr (drafts, ends)" for rs
      using Suc.IH [OF that] Suc.prems(2) by simp
    show ?thesis
    proof (cases "parse_draft drama r")
      case (Inl rs)
      then show ?thesis using Suc.prems(1) ReplyText retry by simp
    next
      case (Inr ds)
      then have "ds \<noteq> []" by (auto simp: parse_draft_def split: sum.splits if_splits)
      moreover have "0 < nat (pm_max_episodes pm)" using Suc.prems(2) by simp
      ultimately have "take (nat (pm_max_episodes pm)) ds \<noteq> []" by simp
      then show ?thesis using Suc.prems(1) ReplyText Inr retry by (auto simp: Let_def split: sum.splits)
    qed
  qed (use Suc.prems in simp_all)
qed

lemma committed_episodes:
  assumes "length (ba_drafts b) = length (ba_ends b)" and "ba_ends b \<noteq> []"
    and "(p', dir, res) = plan_committed pl language d p1 b out"
  shows "pr_episodes res \<noteq> []"
proof -
  let ?p = "register_orphan_episode_entries (dk_dir d) (dk_down d) p1"
  obtain x xs where "zip (ba_drafts b) (zip (ba_ends b) (batch_entries pl d ?p b)) = x # xs"
    using assms(1,2) by (cases "ba_drafts b"; cases "ba_ends b") (auto simp: batch_entries_def)
  moreover obtain dr e entry where "x = (dr, e, entry)" by (cases x)
  ultimately show ?thesis using assms(3) by (simp add: plan_committed_def Let_def split: prod.splits)
qed

text \<open>A call that succeeds either finds nothing left to plan and at most records fingerprints, or commits a batch.\<close>

lemma plan_cases:
  assumes "plan pl stuck instructions d0 p0 d1 p1 = Inr (p', dir, res)"
  obtains (exhausted) "pr_episodes res = []" "p' = p1 \<or> (\<exists>fps. p' = dict_put ''source_fingerprints'' fps p1)" "dir = dk_dir d1"
  | (committed) project b where "pr_episodes res \<noteq> []"
      "plan_begin pl d0 p0 = Inr (project, ba_ref b, ba_used b, Some (ba_rel b, ba_start b, ba_text b))"
      "length (ba_drafts b) = length (ba_ends b)" "ba_ends b \<noteq> []" "sorted_wrt (<) (0 # ba_ends b)"
      "commit_batch pl stuck d1 p1 b = Inr (p', dir)"
proof (cases "plan_begin pl d0 p0")
  case (Inl err) then show thesis using assms(1) by (simp add: plan_def)
next
  case (Inr begun)
  obtain project ref used rest where begun: "begun = (project, ref, used, rest)" by (cases begun)
  show thesis
  proof (cases rest)
    case None
    have "pr_episodes res = [] \<and> (p' = p1 \<or> (\<exists>fps. p' = dict_put ''source_fingerprints'' fps p1)) \<and> dir = dk_dir d1"
      using assms Inr begun None
      by (auto simp: plan_def backfill_source_fingerprints_def Let_def split: sum.splits if_splits option.splits list.splits)
    then show thesis using exhausted by blast
  next
    case (Some x)
    obtain rel start t where x: "x = (rel, start, t)" by (cases x)
    define pm where "pm = planning_prompt pl d0 project instructions rel start t"
    obtain drafts ends where req: "request_drafts pl pm = Inr (drafts, ends)"
      using assms(1) Inr begun Some x by (auto simp: plan_def pm_def Let_def split: sum.splits)
    have "1 \<le> pm_max_episodes pm" by (simp add: pm_def planning_prompt_def Let_def setting_int_positive)
    then have ok: "drafts \<noteq> []" "resolve_boundaries (pn_nfc pl) (pm_window pm) drafts (pm_final pm) = Inr ends"
      using req request_validated_Inr [of pl _ _ pm] by (auto simp: request_drafts_def split: option.splits)
    define b where "b = \<lparr>ba_ref = ref, ba_used = used, ba_rel = rel, ba_start = start, ba_text = t, ba_final = pm_final pm,
                         ba_drafts = drafts, ba_ends = ends\<rparr>"
    obtain out where out: "commit_batch pl stuck d1 p1 b = Inr out" and res: "(p', dir, res) = plan_committed pl (language_of project) d1 p1 b out"
      using assms(1) Inr begun Some x req by (auto simp: plan_def pm_def [symmetric] b_def [symmetric] Let_def split: sum.splits)
    from res have "out = (p', dir)" by (simp add: plan_committed_def Let_def split: prod.splits)
    moreover have shape: "length (ba_drafts b) = length (ba_ends b)" "ba_ends b \<noteq> []" "sorted_wrt (<) (0 # ba_ends b)"
      using resolve_shape [OF ok(2,1)] by (simp_all add: b_def)
    ultimately show thesis
      using committed [of project b] committed_episodes [OF shape(1,2) res] out Inr begun Some x by (simp add: b_def)
  qed
qed

lemma plan_Inr_batch:
  assumes "plan pl stuck instructions d0 p0 d1 p1 = Inr (p', dir, res)" and "pr_episodes res \<noteq> []"
  obtains project b where "plan_begin pl d0 p0 = Inr (project, ba_ref b, ba_used b, Some (ba_rel b, ba_start b, ba_text b))"
    "length (ba_drafts b) = length (ba_ends b)" "ba_ends b \<noteq> []" "sorted_wrt (<) (0 # ba_ends b)"
    "commit_batch pl stuck d1 p1 b = Inr (p', dir)"
  using assms by (cases rule: plan_cases) auto

declare skip_blank.simps [simp del]

lemma skip_blank_Some:
  "skip_blank rest rel start t = Some (rel', start', t') \<Longrightarrow>
     (rel', start', t') = (rel, start, t)
     \<or> start' = 0 \<and> blank_text (text_from t start)
       \<and> (\<exists>pre post. rest = pre @ (rel', t') # post \<and> (\<forall>s \<in> set pre. blank_text (snd s)))"
proof (induction rest arbitrary: rel start t)
  case Nil
  then show ?case by (simp add: skip_blank.simps [of "[]"] split: if_splits)
next
  case (Cons s rest)
  obtain r u where s: "s = (r, u)" by (cases s)
  show ?case
  proof (cases "blank_text (text_from t start)")
    case False
    then show ?thesis using Cons.prems by (simp add: skip_blank.simps [of "s # rest"])
  next
    case True
    then have rec: "skip_blank rest r 0 u = Some (rel', start', t')"
      using Cons.prems by (simp add: s skip_blank.simps [of "(r, u) # rest"])
    from Cons.IH [OF rec] show ?thesis
    proof
      assume "(rel', start', t') = (r, 0, u)"
      then show ?thesis using True s by (intro disjI2 conjI exI [of _ "[]"] exI [of _ rest]) auto
    next
      assume *: "start' = 0 \<and> blank_text (text_from u 0) \<and> (\<exists>pre post. rest = pre @ (rel', t') # post \<and> (\<forall>s \<in> set pre. blank_text (snd s)))"
      then obtain pre post where "rest = pre @ (rel', t') # post" "\<forall>s \<in> set pre. blank_text (snd s)" by blast
      moreover have "blank_text u" using * by (simp add: text_from_def clamp_index_def)
      ultimately show ?thesis using True s * by (intro disjI2 conjI exI [of _ "s # pre"] exI [of _ post]) auto
    qed
  qed
qed

text \<open>Only white space lies between the end \<open>k\<close> of what is planned of the source \<open>r\<close> and the source \<open>rel\<close>.\<close>

definition skips_to :: "(string \<times> utext) list \<Rightarrow> string \<times> int \<Rightarrow> string \<Rightarrow> utext \<Rightarrow> bool" where
  "skips_to sources ref rel t \<longleftrightarrow>
     (\<exists>t0 pre post. dict_get sources (fst ref) = Some t0 \<and> blank_text (text_from t0 (snd ref))
        \<and> sources_after sources (fst ref) = pre @ (rel, t) # post \<and> (\<forall>s \<in> set pre. blank_text (snd s)))"

lemma sources_after_absent: "r \<notin> fst ` set sources \<Longrightarrow> sources_after sources r = []"
  by (induction sources) (auto simp: sources_after_def)

lemma batch_values: "mset (episode_values (batch_project pl d p b)) = mset (episode_values p) + mset (map JObj (batch_entries pl d p b))"
proof -
  have old: "filter (\<lambda>v. v \<noteq> JNull) (episode_values p) = episode_values p" by (simp add: episode_values_def split: json.splits)
  have new: "filter (\<lambda>v. v \<noteq> JNull) (map JObj es) = map JObj es" for es by (induction es) auto
  have "mset (episode_values (batch_project pl d p b)) = mset (filter (\<lambda>v. v \<noteq> JNull) (episode_values p @ map JObj (batch_entries pl d p b)))"
    unfolding episode_values_def [of "batch_project pl d p b"] batch_project_fields by (simp only: json.case mset_filter mset_sort_episodes)
  then show ?thesis by (simp only: filter_append old new mset_append)
qed

lemma plan_begin_reaches:
  assumes "plan_begin pl d p = Inr (project, ref, used, Some (rel, start, t))"
  shows "(rel, start) = ref \<and> (dict_get (disk_sources pl d) rel = None \<or> dict_get (disk_sources pl d) rel = Some t)
    \<or> start = 0 \<and> skips_to (disk_sources pl d) ref rel t"
proof -
  obtain r k t0 where ref: "ref = (r, k)" and skip: "skip_blank (sources_after (disk_sources pl d) r) r k t0 = Some (rel, start, t)"
    and t0: "dict_get (disk_sources pl d) r = Some t0 \<or> dict_get (disk_sources pl d) r = None"
    using assms by (auto simp: plan_begin_def Let_def split: option.splits sum.splits if_splits)
  show ?thesis
  proof (cases "dict_get (disk_sources pl d) r")
    case None
    then have "sources_after (disk_sources pl d) r = []"
      by (intro sources_after_absent) (simp add: map_of_eq_None_iff)
    then show ?thesis using skip_blank_Some [OF skip] ref None by auto
  next
    case (Some t1)
    then have "t0 = t1" using t0 by simp
    then show ?thesis using skip_blank_Some [OF skip] ref Some by (auto simp: skips_to_def)
  qed
qed

lemma commit_start:
  assumes "commit_refusal pl d p b = None"
  shows "effective_start (map fst (disk_sources pl d)) p = Inr (ba_ref b)"
  using assms by (auto simp: commit_refusal_def split: option.splits sum.splits if_splits)

lemma reconcile_ranges:
  assumes "reconcile_derived_files pl stuck d project held = Inr dir" and "e \<in> set (entries project)"
    and "parse_episode_num (jget ''episode'' e) = Some n" and "parse_source_range e = Some (rel, a, b)"
  shows "0 \<le> a \<and> a \<le> b"
proof -
  obtain ws where "derived_writes pl d held (entries project) = Inr ws"
    using assms(1) by (auto simp: reconcile_derived_files_def split: if_splits sum.splits)
  from derived_writes_Inr(2) [OF this assms(2,3)] obtain w where "derived_write pl d held e n = Inr w" by blast
  then show ?thesis using assms(4) by (auto elim: derived_write_Inr)
qed

subsection \<open>An example\<close>

text \<open>Two episodes out of a text of five characters.\<close>

definition ex_planner :: planner where
  "ex_planner = \<lparr>pn_nfc = id, pn_digest = (\<lambda>_. ''d''), pn_word = (\<lambda>_. False), pn_revision = (\<lambda>_ _. JNull),
     pn_generate = Some (\<lambda>_ _. ReplyText (Inr [\<lparr>dr_title = ''t'', dr_hook = ''h'', dr_anchor = [2, 3], dr_outline = None\<rparr>,
       \<lparr>dr_title = ''u'', dr_hook = ''k'', dr_anchor = [4, 5], dr_outline = None\<rparr>])), pn_max_attempts = 3\<rparr>"

definition ex_disk :: disk where
  "ex_disk = \<lparr>dk_dir = [(''n.txt'', \<lparr>de_file = True, de_symlink = False, de_text = Some [1, 2, 3, 4, 5]\<rparr>)], dk_source_link = False,
     dk_down = \<lparr>dw_scripts = [], dw_drafts = [], dw_exists = (\<lambda>_. False)\<rparr>, dk_other = (\<lambda>_. NotFile)\<rparr>"

lemma ex_plan_evaluated:
  "case plan ex_planner (\<lambda>_. False) None ex_disk [] ex_disk [] of
     Inl _ \<Rightarrow> False
   | Inr (p, dir, res) \<Rightarrow> pr_episodes res \<noteq> [] \<and> distinct (episode_nums (entries p)) \<and> count_planned_episodes p = 2
       \<and> mismatched_source_fingerprints (pn_digest ex_planner) (jget ''source_fingerprints'' p) (disk_sources ex_planner ex_disk) = []"
  by code_simp

lemma ex_plan:
  "\<exists>p dir res. plan ex_planner (\<lambda>_. False) None ex_disk [] ex_disk [] = Inr (p, dir, res) \<and> pr_episodes res \<noteq> []
     \<and> distinct (episode_nums (entries p)) \<and> count_planned_episodes p = 2
     \<and> mismatched_source_fingerprints (pn_digest ex_planner) (jget ''source_fingerprints'' p) (disk_sources ex_planner ex_disk) = []"
  using ex_plan_evaluated by (auto split: sum.splits)

lemma episodes_list_empty: "episodes_list [] = Some []"
  by (simp add: episodes_list_def)

text \<open>
  (C34) Planning goes on exactly where the ledger ends. A call that commits episodes starts at the end of what was planned
  when the lock was taken, or at the start of a later source when only white space lies in between; it keeps every entry of
  the ledger and adds entries numbered on from the largest number; their ranges lie in one source, none is empty, each
  starts where the previous one ends, and their texts put together are the text from the start of the batch to its end;
  and the next call, whatever sources there are by then, starts at that end. So no text is planned twice and none is left out.
\<close>

theorem plan_continues_ledger:
  assumes "plan pl stuck instructions d0 p0 d1 p1 = Inr (p', dir, res)" and "pr_episodes res \<noteq> []" and "episodes_list p1 = Some vs"
  shows "\<exists>ref rel start t es k.
      effective_start (map fst (disk_sources pl d1)) (dict_put ''episodes'' (JList (sort_episodes_if_possible vs)) p1) = Inr ref
    \<and> ((rel, start) = ref \<or> start = 0 \<and> skips_to (disk_sources pl d0) ref rel t)
    \<and> mset (episode_values p') = mset (filter (\<lambda>v. v \<noteq> JNull) vs) + mset (map JObj es) \<and> es \<noteq> []
    \<and> 0 \<le> start \<and> k 0 = start
    \<and> (\<forall>i < length es. k i < k (Suc i) \<and> parse_episode_num (jget ''episode'' (es ! i)) = Some (next_num vs + int i)
         \<and> parse_source_range (es ! i) = Some (rel, k i, k (Suc i)))
    \<and> concat (map (entry_text t) es) = text_slice t start (k (length es))
    \<and> (\<forall>rels. effective_start rels p' = Inr (rel, k (length es)))"
proof -
  obtain project b where begun: "plan_begin pl d0 p0 = Inr (project, ba_ref b, ba_used b, Some (ba_rel b, ba_start b, ba_text b))"
    and shape: "length (ba_drafts b) = length (ba_ends b)" "ba_ends b \<noteq> []" "sorted_wrt (<) (0 # ba_ends b)"
    and commit: "commit_batch pl stuck d1 p1 b = Inr (p', dir)"
    using assms(1,2) by (rule plan_Inr_batch)
  obtain p where p: "p = dict_put ''episodes'' (JList (sort_episodes_if_possible vs)) p1" and p': "p' = batch_project pl d1 p b"
    and ref: "commit_refusal pl d1 p b = None" and rec: "reconcile_derived_files pl stuck d1 p' (ba_rel b, ba_text b) = Inr dir"
    using commit assms(3) by (rule commit_Inr)
  let ?es = "batch_entries pl d1 p b"
  define k where "k i = (if i = 0 then ba_start b else ba_start b + int (ba_ends b ! (i - 1)))" for i
  have len: "length ?es = length (ba_ends b)" using shape(1) by (simp add: batch_entries_def)
  have nth: "parse_episode_num (jget ''episode'' (?es ! i)) = Some (next_num vs + int i)" "parse_source_range (?es ! i) = Some (ba_rel b, k i, k (Suc i))"
    if "i < length ?es" for i
    using that shape(1) len by (simp_all add: batch_entries_def nth_new_entries next_num_values [OF p] k_def)
  have "?es ! 0 \<in> set (entries p')" unfolding p' batch_project_entries using len shape(2) by simp
  then have start: "0 \<le> ba_start b"
    using reconcile_ranges [OF rec _ nth(1) nth(2), of 0] len shape(2) by (simp add: k_def)
  have "k i < k (Suc i)" if "i < length ?es" for i
    using shape(3) that len sorted_wrt_nth_less [of "(<)" "ba_ends b" "i - 1" i] by (auto simp: k_def)
  moreover have "concat (map (entry_text (ba_text b)) ?es) = text_slice (ba_text b) (ba_start b) (k (length ?es))"
    unfolding batch_entries_def using new_entries_concat [OF shape(1,2) start shape(3)] shape(1,2)
    by (simp add: k_def last_conv_nth)
  moreover have "effective_start rels p' = Inr (ba_rel b, k (length ?es))" for rels
    unfolding p' batch_effective_start [OF shape(1,2)] using len shape(2) by (simp add: batch_end_def k_def last_conv_nth)
  moreover have "mset (episode_values p') = mset (filter (\<lambda>v. v \<noteq> JNull) vs) + mset (map JObj ?es)"
    unfolding p' batch_values sorted_values(1) [OF p] ..
  moreover have "effective_start (map fst (disk_sources pl d1)) (dict_put ''episodes'' (JList (sort_episodes_if_possible vs)) p1) = Inr (ba_ref b)"
    using commit_start [OF ref] p by simp
  moreover have "?es \<noteq> []" "k 0 = ba_start b" using len shape(2) by (auto simp: k_def)
  ultimately show ?thesis
    using plan_begin_reaches [OF begun] start nth by blast
qed

theorem plan_continues_ledger_witness:
  "\<exists>p dir res rel k. plan ex_planner (\<lambda>_. False) None ex_disk [] ex_disk [] = Inr (p, dir, res) \<and> (\<forall>rels. effective_start rels p = Inr (rel, k))"
proof -
  obtain p dir res where p: "plan ex_planner (\<lambda>_. False) None ex_disk [] ex_disk [] = Inr (p, dir, res)" "pr_episodes res \<noteq> []"
    using ex_plan by blast
  from plan_continues_ledger [OF p episodes_list_empty] p(1) show ?thesis by blast
qed

subsection \<open>Derived files\<close>

lemma commit_files:
  assumes "commit_batch pl stuck d p1 b = Inr (p', dir)" and "episodes_list p1 = Some vs"
  obtains ws where "derived_writes pl d (ba_rel b, ba_text b) (entries p') = Inr ws"
    and "rewritten stuck (dk_dir d) ws dir"
proof -
  obtain p where p: "p = dict_put ''episodes'' (JList (sort_episodes_if_possible vs)) p1" and p': "p' = batch_project pl d p b"
    and orphans: "orphans (dk_dir d) vs = []" and rec: "reconcile_derived_files pl stuck d p' (ba_rel b, ba_text b) = Inr dir"
    using assms by (rule commit_Inr)
  show thesis
  proof (rule reconcile_exact [OF rec])
    show "int n \<in> set (episode_nums (entries p'))" if "n \<in> fst ` set (discover_episode_files (dk_dir d))" for n
      unfolding p' by (rule commit_listed [OF orphans p that])
  qed (rule that)
qed

lemma written_name: "map_of (rev ws) nm = None \<longleftrightarrow> nm \<notin> set (map fst ws)"
  by (simp add: map_of_eq_None_iff)

lemma written_text: "distinct (map fst ws) \<Longrightarrow> (nm, t) \<in> set ws \<Longrightarrow> map_of (rev ws) nm = Some t"
  by (simp add: rev_map [symmetric])



subsection \<open>An interrupted commit\<close>

text \<open>A file of an episode the ledger does not have makes every call refuse.\<close>

lemma unlisted_file_blocks:
  assumes "is_file (dk_dir d) nm" and "episode_file_num nm = Some n" and "episodes_list p = Some vs"
    and "\<And>v. v \<in> set vs \<Longrightarrow> num_key v \<noteq> Some (int n)"
  shows "\<exists>ns. plan pl stuck instructions d p d1 p1 = Inl (MissingSourceRange ns) \<and> int n \<in> set ns"
proof -
  let ?p = "register_orphan_episode_entries (dk_dir d) (dk_down d) p"
  have "n \<in> fst ` set (discover_episode_files (dk_dir d))" using assms(1,2) by (auto simp: discover_episode_files_num)
  then have "int n \<in> set (orphans (dk_dir d) vs)" using assms(4) by (auto simp: orphans_def)
  then have "int n \<in> set (episodes_without_source_range ?p)" using register_missing [OF assms(3)] by blast
  then have "check_source_ranges ?p = Some (MissingSourceRange (episodes_without_source_range ?p))"
    by (auto simp: check_source_ranges_def split: list.splits)
  then have "plan_begin pl d p = Inl (MissingSourceRange (episodes_without_source_range ?p))"
    by (simp add: plan_begin_def Let_def)
  then show ?thesis using \<open>int n \<in> set (episodes_without_source_range ?p)\<close> by (simp add: plan_def)
qed



subsection \<open>Well-formed ledgers\<close>

text \<open>What the validator of documents asks of the ledger: every entry is an object with a positive number of its own, ranges
  and the cursor are absent or have the shape of their models.\<close>

definition wf_entry :: "json \<Rightarrow> bool" where
  "wf_entry v = (case v of
      JObj e \<Rightarrow> (case parse_positive_episode_num (jget ''episode'' e) of Some n \<Rightarrow> True | None \<Rightarrow> False)
        \<and> (jget ''source_range'' e = JNull \<or> valid_source_range (jget ''source_range'' e))
    | _ \<Rightarrow> False)"

definition wf_ledger :: "doc \<Rightarrow> bool" where
  "wf_ledger p = (case episodes_list p of
      Some vs \<Rightarrow> list_all wf_entry vs \<and> distinct (map num_key vs)
        \<and> (jget ''planning_cursor'' p = JNull \<or> valid_planning_cursor (jget ''planning_cursor'' p))
    | None \<Rightarrow> False)"

lemma wf_entry_num: "wf_entry v \<Longrightarrow> \<exists>n. num_key v = Some n \<and> 0 < n"
  by (auto simp: wf_entry_def num_key_def parse_positive_episode_num_def split: json.splits option.splits if_splits)

lemma wf_entry_range:
  "wf_entry (JObj e) \<Longrightarrow> anchored_end e = Some (n, rel, b) \<Longrightarrow> rel_posix_path rel"
  by (auto simp: wf_entry_def anchored_end_def valid_source_range_def split: json.splits option.splits)

lemma later_end_mem: "fold later_end es acc = Some x \<Longrightarrow> acc = Some x \<or> (\<exists>e \<in> set es. anchored_end e = Some x)"
proof (induction es arbitrary: acc)
  case (Cons e es)
  then have "later_end e acc = Some x \<or> (\<exists>e \<in> set es. anchored_end e = Some x)" by simp
  then show ?case by (auto simp: later_end_def split: option.splits prod.splits if_splits)
qed simp

lemma episodes_list_jget: "episodes_list p = Some vs \<Longrightarrow> e \<in> set (entries p) \<longleftrightarrow> JObj e \<in> set vs"
  by (auto simp: episodes_list_def entries_def jget_def dict_get_default_def split: option.splits json.splits)

lemma start_rel_ok:
  assumes "wf_ledger p" and "effective_start rels p = Inr (rel, k)" and "list_all rel_posix_path rels"
  shows "rel_posix_path rel"
proof -
  obtain vs where vs: "episodes_list p = Some vs" "list_all wf_entry vs"
    and cur: "jget ''planning_cursor'' p = JNull \<or> valid_planning_cursor (jget ''planning_cursor'' p)"
    using assms(1) by (auto simp: wf_ledger_def split: option.splits)
  have "rel_posix_path r" if "last_anchored p = Some (r, x)" for r x
    using that later_end_mem [of "entries p" None] vs wf_entry_range
    by (fastforce simp: last_anchored_def episodes_list_jget [OF vs(1)] list_all_iff)
  moreover have "rel_posix_path r" if "cursor_ref p = Some (r, x)" for r x
    using that cur by (auto simp: cursor_ref_def valid_planning_cursor_def split: json.splits if_splits)
  moreover have "rel_posix_path r" if "r \<in> set rels" for r using that assms(3) by (simp add: list_all_iff)
  ultimately show ?thesis
    using assms(2) by (auto simp: effective_start_def split: option.splits list.splits if_splits)
qed

text \<open>Names that the file system gives: neither separator nor backslash.\<close>

definition plain_names :: "directory \<Rightarrow> bool" where
  "plain_names dir \<longleftrightarrow> list_all (\<lambda>(nm, e). CHR ''/'' \<notin> set nm \<and> backslash \<notin> set nm) dir"

lemma source_rel_ok: "source_name nm \<Longrightarrow> CHR ''/'' \<notin> set nm \<Longrightarrow> backslash \<notin> set nm \<Longrightarrow> rel_posix_path (''source/'' @ nm)"
proof -
  assume nm: "source_name nm" "CHR ''/'' \<notin> set nm" "backslash \<notin> set nm"
  have "split_at (\<lambda>c. c = CHR ''/'') (''source'' @ CHR ''/'' # nm) = [''source'', nm]"
    using nm(2) by (subst split_at_word) (auto intro!: split_at_plain)
  moreover have "nm \<noteq> ''..''" using nm(1) by (auto simp: source_name_def)
  ultimately show ?thesis using nm(3) by (simp add: rel_posix_path_def)
qed

lemma source_mem: "(rel, t) \<in> set (disk_sources pl d) \<Longrightarrow> \<exists>nm e. rel = ''source/'' @ nm \<and> source_name nm \<and> (nm, e) \<in> set (dk_dir d)"
  by (auto simp: disk_sources_def discover_sources_def sorted_dir_def split: option.splits if_splits)

lemma sources_ok:
  assumes "plain_names (dk_dir d)"
  shows "list_all rel_posix_path (map fst (disk_sources pl d))"
proof -
  have "rel_posix_path rel" if "(rel, t) \<in> set (disk_sources pl d)" for rel t
  proof -
    obtain nm e where "rel = ''source/'' @ nm" "source_name nm" "(nm, e) \<in> set (dk_dir d)" using source_mem [of rel t pl d] \<open>(rel, t) \<in> set (disk_sources pl d)\<close> by blast
    then show ?thesis using assms source_rel_ok [of nm] by (auto simp: plain_names_def list_all_iff)
  qed
  then show ?thesis by (auto simp: list_all_iff)
qed

lemma sources_after_mem: "x \<in> set (sources_after sources r) \<Longrightarrow> x \<in> set sources"
  by (induction sources) (auto simp: sources_after_def split: if_splits)

lemma wf_ledger_sorted:
  assumes "wf_ledger p1" and "episodes_list p1 = Some vs" and "p = dict_put ''episodes'' (JList (sort_episodes_if_possible vs)) p1"
  shows "wf_ledger p" and "episode_values p = sort_episodes_if_possible vs"
proof -
  have "distinct (map num_key (sort_episodes_if_possible vs)) \<longleftrightarrow> distinct (map num_key vs)"
    by (rule mset_eq_imp_distinct_iff) simp
  then show "wf_ledger p" using assms(1,2) unfolding assms(3)
    by (simp add: wf_ledger_def episodes_list_def [of "dict_put _ _ _"] dict_get_put list_all_iff)
  have "v \<noteq> JNull" if "v \<in> set vs" for v using that assms(1,2) by (auto simp: wf_ledger_def list_all_iff wf_entry_def)
  then show "episode_values p = sort_episodes_if_possible vs" unfolding assms(3) by (simp add: episode_values_def)
qed

lemma batch_rel_ok:
  assumes "plan_begin pl d0 p0 = Inr (project, ref, used, Some (rel, start, t))" and "effective_start (map fst (disk_sources pl d1)) p = Inr ref"
    and "wf_ledger p" and "plain_names (dk_dir d0)" and "plain_names (dk_dir d1)"
  shows "rel_posix_path rel"
proof -
  consider "(rel, start) = ref" | "skips_to (disk_sources pl d0) ref rel t" using plan_begin_reaches [OF assms(1)] by blast
  then show ?thesis
  proof cases
    case 1
    then show ?thesis using start_rel_ok [OF assms(3), of _ rel start] assms(2) sources_ok [OF assms(5), of pl] by metis
  next
    case 2
    then have "(rel, t) \<in> set (sources_after (disk_sources pl d0) (fst ref))" by (auto simp: skips_to_def)
    then have "(rel, t) \<in> set (disk_sources pl d0)" by (rule sources_after_mem)
    then show ?thesis using sources_ok [OF assms(4), of pl] by (force simp: list_all_iff)
  qed
qed

lemma wf_new_entry:
  assumes "rel_posix_path rel" and "0 < n" and "0 \<le> a" and "a \<le> b"
  shows "wf_entry (JObj (new_entry pl d p dr n rel a b))"
proof -
  have "parse_positive_episode_num (JInt n) = Some n" using assms(2) by (simp add: parse_positive_episode_num_def parse_episode_num_def)
  moreover have "valid_source_range (JObj [(''source_file'', JStr rel), (''start'', JInt a), (''end'', JInt b)])"
    using assms by (auto simp: valid_source_range_def dict_keys_def jget_def dict_get_default_def)
  ultimately show ?thesis by (simp add: wf_entry_def new_entry_fields)
qed

lemma wf_batch_project:
  assumes "wf_ledger p" and "rel_posix_path (ba_rel b)" and "0 \<le> ba_start b" and "0 \<le> batch_end b"
    and new: "\<And>e. e \<in> set (batch_entries pl d p b) \<Longrightarrow> wf_entry (JObj e)"
  shows "wf_ledger (batch_project pl d p b)"
    and "\<exists>vs. episodes_list (batch_project pl d p b) = Some vs \<and> sorted (map (\<lambda>v. the (num_key v)) vs)"
proof -
  let ?vs = "episode_values p @ map JObj (batch_entries pl d p b)"
  have lst: "episodes_list (batch_project pl d p b) = Some (sort_episodes_if_possible ?vs)"
    by (simp add: episodes_list_def batch_project_def dict_get_put)
  have old: "list_all wf_entry (episode_values p)" "distinct (map num_key (episode_values p))"
    using assms(1) by (auto simp: wf_ledger_def episodes_list_def episode_values_def jget_def dict_get_default_def list_all_iff distinct_map inj_on_def
      split: option.splits json.splits)
  have all: "list_all wf_entry ?vs" using old(1) new by (auto simp: list_all_iff)
  have nums: "num_key (JObj (batch_entries pl d p b ! i)) = Some (next_num (episode_values p) + int i)" if "i < length (batch_entries pl d p b)" for i
    using that by (simp add: batch_entries_def nth_new_entries num_key_def)
  have "distinct (map num_key (map JObj (batch_entries pl d p b)))"
    by (auto simp: distinct_conv_nth nums)
  moreover have "num_key v \<noteq> num_key (JObj e)" if "v \<in> set (episode_values p)" "e \<in> set (batch_entries pl d p b)" for v e
    using next_num_above [OF that(1)] that(2) nums by (fastforce simp: in_set_conv_nth)
  ultimately have "distinct (map num_key ?vs)" using old(2) by fastforce
  then have "distinct (map num_key (sort_episodes_if_possible ?vs))"
    by (subst mset_eq_imp_distinct_iff [where ys = "map num_key ?vs"]) (simp_all only: mset_map mset_sort_episodes)
  moreover have "valid_planning_cursor (JObj [(''source_file'', JStr (ba_rel b)), (''offset'', JInt (batch_end b))])"
    using assms(2,4) by (auto simp: valid_planning_cursor_def dict_keys_def jget_def dict_get_default_def)
  ultimately show "wf_ledger (batch_project pl d p b)"
    using all by (simp add: wf_ledger_def lst batch_project_fields list_all_iff)
  have "sorted (map (\<lambda>v. the (num_key v)) (sort_episodes_if_possible ?vs))"
  proof -
    have "list_all (\<lambda>v. num_key v \<noteq> None) ?vs" using all wf_entry_num by (fastforce simp: list_all_iff)
    moreover have "map (\<lambda>v. the (num_key v)) (sort_key f ?vs) = map f (sort_key f ?vs)"
      if f: "f = (\<lambda>v. case num_key v of Some n \<Rightarrow> n | None \<Rightarrow> 0)" for f
    proof (rule map_cong [OF refl])
      fix v assume "v \<in> set (sort_key f ?vs)"
      then have "num_key v \<noteq> None" using calculation by (simp only: list_all_iff set_sort) blast
      then show "the (num_key v) = f v" unfolding f by (cases "num_key v") auto
    qed
    ultimately show ?thesis by (simp only: sort_episodes_if_possible_def if_True sorted_sort_key)
  qed
  with lst show "\<exists>vs. episodes_list (batch_project pl d p b) = Some vs \<and> sorted (map (\<lambda>v. the (num_key v)) vs)" by blast
qed

subsection \<open>Property\<close>



end
