(* ===== verification/EpisodeReset.thy ===== *)
theory EpisodeReset
  imports EpisodeCommit
begin

text \<open>
  Taking the episode ledger back: \<open>lib/episode_reset.py\<close>.

  As in planning, the ledger and the disk are read before the lock is taken (\<open>d0\<close>, \<open>p0\<close>) and again under it
  (\<open>d1\<close>, \<open>p1\<close>). The manifest of artifacts is an association list; \<open>None\<close> is one that cannot be read, and it is read
  when the ledger is changed (\<open>m0\<close>) and when the claims are removed (\<open>m1\<close>). The write of the document, the files and
  the manifest are one transaction, so an error leaves everything as it was. \<open>stuck\<close> holds the names the system does
  not let go.
\<close>

datatype reset_error =
    FromNotPositive int
  | EpisodesNotList
  | EntryNotObject
  | EntryWithoutNumber
  | NumberNotPositive int
  | NumberRepeated int
  | FromNotPlanned int
  | LedgerGap int
  | ResetSourceChanged "string list"
  | RangeInvalid int
  | UnanchoredBefore int
  | FirstNotAtStart
  | SwitchInvalid int
  | NotContiguous int int int
  | NothingAnchored
  | ResetConflict
  | ResetSourceIsLink
  | DeleteFailed string
  | ArchiveFailed string
  | RemainingFailed
  | ManifestUnreadable
  | ManifestChanged

subsection \<open>What a reset touches\<close>

record reset_plan =
  rp_episode_nums :: "int list"
  rp_consumed :: "int list"
  rp_deletes :: "string list"
  rp_archives :: "string list"

definition numbered_entries :: "doc \<Rightarrow> (int \<times> doc) list" where
  "numbered_entries project =
     concat (map (\<lambda>e. case parse_episode_num (jget ''episode'' e) of Some n \<Rightarrow> [(n, e)] | None \<Rightarrow> []) (entries project))"

definition in_scope :: "int \<Rightarrow> int \<Rightarrow> bool" where
  "in_scope from_episode n \<longleftrightarrow> from_episode = 1 \<or> from_episode \<le> n"

text \<open>All entries of a number, since a damaged ledger may have several; none counts as an empty one.\<close>

definition dupes :: "doc \<Rightarrow> int \<Rightarrow> doc list" where
  "dupes project n = (let es = map snd (filter (\<lambda>(m, e). m = n) (numbered_entries project)) in if es = [] then [[]] else es)"

definition is_consumed :: "downstream \<Rightarrow> doc \<Rightarrow> int \<Rightarrow> bool" where
  "is_consumed dw project n \<longleftrightarrow>
     list_ex (\<lambda>(m, e). m = n \<and> jget ''ledger_status'' e = JStr ''consumed'') (numbered_entries project)
     \<or> n \<in> int ` discover_product_episode_nums dw \<or> list_ex (has_downstream_products dw n) (dupes project n)"

definition recreatable :: "doc \<Rightarrow> int \<Rightarrow> bool" where
  "recreatable project n = list_all (\<lambda>e. parse_source_range e \<noteq> None) (dupes project n)"

definition alias_names :: "directory \<Rightarrow> int \<Rightarrow> string list" where
  "alias_names dir n = concat (map snd (filter (\<lambda>(m, nms). int m = n) (discover_episode_file_aliases dir)))"

definition touched_nums :: "directory \<Rightarrow> downstream \<Rightarrow> doc \<Rightarrow> int \<Rightarrow> int list" where
  "touched_nums dir dw project from_episode =
     filter (in_scope from_episode)
       (sorted_list_of_set (fst ` set (numbered_entries project) \<union> int ` fst ` set (discover_episode_file_aliases dir)
         \<union> int ` discover_product_episode_nums dw))"

definition scan :: "directory \<Rightarrow> downstream \<Rightarrow> doc \<Rightarrow> int \<Rightarrow> reset_plan" where
  "scan dir dw project from_episode =
     (let nums = touched_nums dir dw project from_episode
      in \<lparr>rp_episode_nums = filter (in_scope from_episode) (sorted_list_of_set (fst ` set (numbered_entries project))),
          rp_consumed = filter (is_consumed dw project) nums,
          rp_deletes = concat (map (alias_names dir) (filter (recreatable project) nums)),
          rp_archives = concat (map (alias_names dir) (filter (\<lambda>n. \<not> recreatable project n) nums))\<rparr>)"

subsection \<open>Moving files out of the way\<close>

definition archive_name :: "string \<Rightarrow> nat \<Rightarrow> string" where
  "archive_name nm k = ''_'' @ nm @ (if k = 0 then [] else ''.'' @ show_nat k) @ ''.bak''"

lemma archive_name_inj: "inj (archive_name nm)"
proof (rule injI)
  fix j k assume "archive_name nm j = archive_name nm k"
  then have *: "(if j = 0 then [] else ''.'' @ show_nat j) = (if k = 0 then [] else ''.'' @ show_nat k)"
    by (simp add: archive_name_def)
  have "show_nat j = show_nat k \<Longrightarrow> j = k" by (metis read_show_nat)
  with * show "j = k" by (auto split: if_splits)
qed

function free_archive :: "string \<Rightarrow> string list \<Rightarrow> nat \<Rightarrow> nat" where
  "free_archive nm taken k = (if archive_name nm k \<in> set taken then free_archive nm taken (Suc k) else k)"
  by auto

termination
proof (relation "measure (\<lambda>(nm, taken, k). card {j. k \<le> j \<and> archive_name nm j \<in> set taken})")
  fix nm taken k
  assume *: "archive_name nm k \<in> set taken"
  have "finite {j. k \<le> j \<and> archive_name nm j \<in> set taken}"
    by (rule finite_subset [OF _ finite_vimageI [OF finite_set [of taken] archive_name_inj [of nm]]]) auto
  then have "card {j. Suc k \<le> j \<and> archive_name nm j \<in> set taken} < card {j. k \<le> j \<and> archive_name nm j \<in> set taken}"
    by (rule psubset_card_mono) (use * in \<open>auto simp: Suc_le_eq intro: less_imp_le\<close>)
  then show "((nm, taken, Suc k), nm, taken, k) \<in> measure (\<lambda>(nm, taken, k). card {j. k \<le> j \<and> archive_name nm j \<in> set taken})"
    by simp
qed simp

declare free_archive.simps [simp del]

definition archive_path :: "directory \<Rightarrow> string \<Rightarrow> string" where
  "archive_path dir nm = archive_name nm (free_archive nm (map fst dir) 0)"

definition rename :: "string \<Rightarrow> string \<Rightarrow> directory \<Rightarrow> directory" where
  "rename nm target dir = (case dict_get dir nm of None \<Rightarrow> dir | Some e \<Rightarrow> dict_put target e (dict_del nm dir))"

text \<open>The targets of the archives are chosen before the first file moves.\<close>

definition apply_files :: "(string \<Rightarrow> bool) \<Rightarrow> disk \<Rightarrow> reset_plan \<Rightarrow> reset_error + directory" where
  "apply_files stuck d rp =
     (if dk_source_link d then Inl ResetSourceIsLink
      else case find stuck (rp_deletes rp) of Some nm \<Rightarrow> Inl (DeleteFailed nm)
      | None \<Rightarrow>
          (case find stuck (rp_archives rp) of Some nm \<Rightarrow> Inl (ArchiveFailed nm)
           | None \<Rightarrow>
               (let deleted = unlink_all (\<lambda>_. False) (rp_deletes rp) (dk_dir d);
                    archived = fold (\<lambda>nm. rename nm (archive_path (dk_dir d) nm)) (rp_archives rp) deleted
                in if is_file archived ''_remaining.txt''
                   then if stuck ''_remaining.txt'' then Inl RemainingFailed else Inr (dict_del ''_remaining.txt'' archived)
                   else Inr archived)))"

subsection \<open>Where a partial reset goes back to\<close>

fun clean_entries :: "json list \<Rightarrow> (int \<times> doc) list \<Rightarrow> reset_error + (int \<times> doc) list" where
  "clean_entries [] acc = Inr acc"
| "clean_entries (v # vs) acc =
     (case v of
        JObj e \<Rightarrow>
          (case parse_episode_num (jget ''episode'' e) of
             None \<Rightarrow> Inl EntryWithoutNumber
           | Some n \<Rightarrow> if n < 1 then Inl (NumberNotPositive n) else if n \<in> fst ` set acc then Inl (NumberRepeated n)
                       else clean_entries vs (acc @ [(n, e)]))
      | _ \<Rightarrow> Inl EntryNotObject)"

fun first_gap :: "int \<Rightarrow> int list \<Rightarrow> int" where
  "first_gap k [] = k"
| "first_gap k (n # ns) = (if n = k then first_gap (k + 1) ns else k)"

definition sources_before :: "(string \<times> utext) list \<Rightarrow> string \<Rightarrow> (string \<times> utext) list" where
  "sources_before sources rel = takeWhile (\<lambda>s. fst s \<noteq> rel) sources"

text \<open>From the end \<open>pe\<close> of one source the next batch moves to another only when nothing but white space lies between.\<close>

definition switch_ok :: "(string \<times> utext) list \<Rightarrow> string \<Rightarrow> int \<Rightarrow> string \<Rightarrow> bool" where
  "switch_ok sources prel pe rel =
     (case (rel_index (map fst sources) prel, rel_index (map fst sources) rel, dict_get sources prel) of
        (Some i, Some j, Some t) \<Rightarrow>
          i < j \<and> blank_text (text_from t pe) \<and> list_all (\<lambda>s. blank_text (snd s)) (drop (Suc i) (take j sources))
      | _ \<Rightarrow> False)"

definition chain_step :: "(string \<times> utext) list \<Rightarrow> (string \<times> int) option \<Rightarrow> int \<Rightarrow> string \<Rightarrow> int \<Rightarrow> int \<Rightarrow> reset_error option" where
  "chain_step sources prev n rel a b =
     (case dict_get sources rel of
        None \<Rightarrow> Some (RangeInvalid n)
      | Some t \<Rightarrow>
          if \<not> (0 \<le> a \<and> a < b \<and> b \<le> int (length t)) then Some (RangeInvalid n)
          else (case prev of
              None \<Rightarrow> if n \<noteq> 1 then Some (UnanchoredBefore n)
                      else if a \<noteq> 0 \<or> list_ex (\<lambda>s. \<not> blank_text (snd s)) (sources_before sources rel) then Some FirstNotAtStart
                      else None
            | Some (prel, pe) \<Rightarrow>
                if rel \<noteq> prel \<and> \<not> switch_ok sources prel pe rel then Some (SwitchInvalid n)
                else let expected = (if rel = prel then pe else 0) in if a \<noteq> expected then Some (NotContiguous n expected a) else None))"

fun chain_walk :: "(string \<times> utext) list \<Rightarrow> (int \<times> doc) list \<Rightarrow> (string \<times> int) option \<Rightarrow> reset_error + (string \<times> int) option" where
  "chain_walk sources [] prev = Inr prev"
| "chain_walk sources ((n, e) # es) prev =
     (case parse_source_range e of
        None \<Rightarrow> chain_walk sources es None
      | Some (rel, a, b) \<Rightarrow> (case chain_step sources prev n rel a b of
            Some err \<Rightarrow> Inl err | None \<Rightarrow> chain_walk sources es (Some (rel, b))))"

definition resolve_partial_reset_cursor :: "planner \<Rightarrow> disk \<Rightarrow> doc \<Rightarrow> int \<Rightarrow> reset_error + (string \<times> int)" where
  "resolve_partial_reset_cursor pl d project from_episode =
     (case jget ''episodes'' project of
        JList vs \<Rightarrow>
          (case clean_entries vs [] of Inl err \<Rightarrow> Inl err
           | Inr es \<Rightarrow>
               (let kept = sort_key fst (filter (\<lambda>(n, e). n < from_episode) es);
                    gap = first_gap 1 (map fst kept);
                    sources = disk_sources pl d
                in if from_episode \<notin> fst ` set es then Inl (FromNotPlanned from_episode)
                   else if gap \<noteq> from_episode then Inl (LedgerGap gap)
                   else (case mismatched_source_fingerprints (pn_digest pl) (jget ''source_fingerprints'' project) sources of
                       [] \<Rightarrow> (case chain_walk sources kept None of
                            Inl err \<Rightarrow> Inl err | Inr None \<Rightarrow> Inl NothingAnchored | Inr (Some c) \<Rightarrow> Inr c)
                     | rels \<Rightarrow> Inl (ResetSourceChanged rels))))
      | _ \<Rightarrow> Inl EpisodesNotList)"

subsection \<open>The reset\<close>

definition retained_entries :: "doc \<Rightarrow> int \<Rightarrow> doc list" where
  "retained_entries project from_episode =
     (let num = (\<lambda>e. case parse_episode_num (jget ''episode'' e) of Some n \<Rightarrow> n | None \<Rightarrow> 0)
      in sort_key num (filter (\<lambda>e. num e < from_episode) (entries project)))"

definition reset_project :: "doc \<Rightarrow> int \<Rightarrow> (string \<times> int) option \<Rightarrow> doc" where
  "reset_project p from_episode cursor =
     (case cursor of
        Some (rel, k) \<Rightarrow>
          dict_put ''planning_cursor'' (JObj [(''source_file'', JStr rel), (''offset'', JInt k)])
            (dict_put ''episodes'' (JList (map JObj (retained_entries p from_episode))) p)
      | None \<Rightarrow> dict_del ''source_fingerprints'' (dict_put ''planning_cursor'' JNull (dict_put ''episodes'' (JList []) p)))"

definition claims_in_scope :: "('k \<Rightarrow> int option) \<Rightarrow> int \<Rightarrow> ('k \<times> 'v) list \<Rightarrow> ('k \<times> 'v) list" where
  "claims_in_scope episode_of from_episode m =
     filter (\<lambda>(k, v). case episode_of k of Some n \<Rightarrow> in_scope from_episode n | None \<Rightarrow> False) m"

definition reset_manifest :: "('k \<Rightarrow> int option) \<Rightarrow> int \<Rightarrow> ('k \<times> 'v) list option \<Rightarrow> ('k \<times> 'v) list option \<Rightarrow> reset_error + ('k \<times> 'v) list option" where
  "reset_manifest episode_of from_episode m0 m1 =
     (case m0 of
        None \<Rightarrow> if from_episode \<noteq> 1 then Inl ManifestUnreadable
                else (case m1 of None \<Rightarrow> Inr (Some []) | Some [] \<Rightarrow> Inr (Some []) | _ \<Rightarrow> Inl ManifestChanged)
      | Some old \<Rightarrow>
          (let gone = claims_in_scope episode_of from_episode old
           in if gone = [] then Inr m1
              else case m1 of None \<Rightarrow> Inl ManifestUnreadable
                 | Some now \<Rightarrow> if list_all (\<lambda>(k, v). dict_get now k = Some v) gone
                               then Inr (Some (filter (\<lambda>(k, v). k \<notin> fst ` set gone) now)) else Inl ManifestChanged))"

record 'm reset_done =
  rd_project :: doc
  rd_dir :: directory
  rd_manifest :: 'm
  rd_plan :: reset_plan

datatype 'm reset_outcome =
    ResetConfirmationRequired "int list" "string list"
  | ResetDone "'m reset_done"

definition reset_commit ::
    "planner \<Rightarrow> (string \<Rightarrow> bool) \<Rightarrow> (doc \<Rightarrow> bool) \<Rightarrow> ('k \<Rightarrow> int option) \<Rightarrow> int \<Rightarrow> int list \<Rightarrow> disk \<Rightarrow> doc
      \<Rightarrow> ('k \<times> 'v) list option \<Rightarrow> ('k \<times> 'v) list option \<Rightarrow> reset_error + ('k \<times> 'v) list option reset_done" where
  "reset_commit pl stuck schema_current episode_of from_episode confirmed d p m0 m1 =
     (case (if 1 < from_episode then map_sum id Some (resolve_partial_reset_cursor pl d p from_episode) else Inr None) of
        Inl err \<Rightarrow> Inl err
      | Inr cursor \<Rightarrow>
          (let rp = scan (dk_dir d) (dk_down d) p from_episode;
               p' = reset_project p from_episode cursor
           in if \<not> set (rp_consumed rp) \<subseteq> set confirmed then Inl ResetConflict
              else if schema_current p' \<and> m0 = None \<and> from_episode \<noteq> 1 then Inl ManifestUnreadable
              else (case apply_files stuck d rp of Inl err \<Rightarrow> Inl err
                | Inr dir \<Rightarrow>
                    (case (if schema_current p' then reset_manifest episode_of from_episode m0 m1 else Inr m1) of
                       Inl err \<Rightarrow> Inl err
                     | Inr m \<Rightarrow> Inr \<lparr>rd_project = p', rd_dir = dir, rd_manifest = m, rd_plan = rp\<rparr>))))"

definition reset_episode_planning ::
    "planner \<Rightarrow> (string \<Rightarrow> bool) \<Rightarrow> (doc \<Rightarrow> bool) \<Rightarrow> ('k \<Rightarrow> int option) \<Rightarrow> int \<Rightarrow> bool \<Rightarrow> disk \<Rightarrow> doc \<Rightarrow> disk \<Rightarrow> doc
      \<Rightarrow> ('k \<times> 'v) list option \<Rightarrow> ('k \<times> 'v) list option \<Rightarrow> reset_error + ('k \<times> 'v) list option reset_outcome" where
  "reset_episode_planning pl stuck schema_current episode_of from_episode confirm d0 p0 d1 p1 m0 m1 =
     (if from_episode < 1 then Inl (FromNotPositive from_episode)
      else case (if 1 < from_episode then map_sum id Some (resolve_partial_reset_cursor pl d0 p0 from_episode) else Inr None) of
        Inl err \<Rightarrow> Inl err
      | Inr _ \<Rightarrow>
          (let rp = scan (dk_dir d0) (dk_down d0) p0 from_episode
           in if rp_consumed rp \<noteq> [] \<and> \<not> confirm then Inr (ResetConfirmationRequired (rp_consumed rp) (rp_archives rp))
              else map_sum id ResetDone (reset_commit pl stuck schema_current episode_of from_episode (rp_consumed rp) d1 p1 m0 m1)))"

subsection \<open>What a reset does to the directory\<close>

lemma alias_names_mem:
  "nm \<in> set (alias_names dir n) \<longleftrightarrow> (\<exists>e. (nm, e) \<in> set dir \<and> (de_file e \<or> de_symlink e) \<and> (\<exists>m. episode_file_num nm = Some m \<and> int m = n))"
proof
  assume "nm \<in> set (alias_names dir n)"
  then obtain m nms where "(m, nms) \<in> set (discover_episode_file_aliases dir)" "int m = n" "nm \<in> set nms"
    by (auto simp: alias_names_def)
  then show "\<exists>e. (nm, e) \<in> set dir \<and> (de_file e \<or> de_symlink e) \<and> (\<exists>m. episode_file_num nm = Some m \<and> int m = n)"
    using group_by_member [of m nms "\<lambda>nm. the (episode_file_num nm)" "episode_file_names dir"]
    by (auto simp: discover_episode_file_aliases_def set_episode_file_names)
next
  assume "\<exists>e. (nm, e) \<in> set dir \<and> (de_file e \<or> de_symlink e) \<and> (\<exists>m. episode_file_num nm = Some m \<and> int m = n)"
  then obtain e m where e: "(nm, e) \<in> set dir" "de_file e \<or> de_symlink e" and m: "episode_file_num nm = Some m" "int m = n" by blast
  then have mem: "nm \<in> set (episode_file_names dir)" by (auto simp: set_episode_file_names)
  then have "m \<in> fst ` set (discover_episode_file_aliases dir)"
    using m(1) by (force simp: discover_episode_file_aliases_def group_by_keys)
  then obtain nms where nms: "(m, nms) \<in> set (discover_episode_file_aliases dir)" by auto
  then have "nm \<in> set nms"
    using group_by_member [of m nms "\<lambda>nm. the (episode_file_num nm)" "episode_file_names dir"] mem m(1)
    by (simp add: discover_episode_file_aliases_def)
  with nms m(2) show "nm \<in> set (alias_names dir n)" by (auto simp: alias_names_def)
qed

lemma alias_names_num: "nm \<in> set (alias_names dir n) \<Longrightarrow> n \<in> int ` fst ` set (discover_episode_file_aliases dir)"
  by (force simp: alias_names_def)

lemma scan_touches:
  assumes "(nm, e) \<in> set dir" and "de_file e \<or> de_symlink e" and "episode_file_num nm = Some n"
  shows "nm \<in> set (rp_deletes (scan dir dw p 1)) \<union> set (rp_archives (scan dir dw p 1))"
proof -
  have nm: "nm \<in> set (alias_names dir (int n))" using assms by (auto simp: alias_names_mem)
  have "finite (fst ` set (numbered_entries p) \<union> int ` fst ` set (discover_episode_file_aliases dir) \<union> int ` discover_product_episode_nums dw)"
    unfolding discover_product_episode_nums_def by (intro finite_UnI finite_imageI finite_set)
  then have "int n \<in> set (touched_nums dir dw p 1)"
    using alias_names_num [OF nm] by (simp add: touched_nums_def in_scope_def)
  then show ?thesis using nm by (auto simp: scan_def Let_def)
qed

lemma scan_only_episodes:
  "nm \<in> set (rp_deletes (scan dir dw p k)) \<union> set (rp_archives (scan dir dw p k)) \<Longrightarrow> episode_file_num nm \<noteq> None"
  by (auto simp: scan_def Let_def alias_names_mem)

text \<open>Names that are neither episode files nor start with an underscore stay; names of archives do.\<close>

lemma archive_path_underscore: "\<exists>s. archive_path dir nm = CHR ''_'' # s"
  by (simp add: archive_path_def archive_name_def)

lemma dict_get_renames:
  "hd nm \<noteq> CHR ''_'' \<Longrightarrow> dict_get (fold (\<lambda>x. rename x (archive_path d0 x)) xs dir) nm = (if nm \<in> set xs then None else dict_get dir nm)"
proof (induction xs arbitrary: dir)
  case (Cons x xs)
  have "archive_path d0 x \<noteq> nm" using archive_path_underscore [of d0 x] Cons.prems by auto
  then show ?case using Cons by (auto simp: rename_def dict_get_put dict_get_del split: option.splits)
qed simp

lemma episode_name_head: "episode_file_num nm \<noteq> None \<Longrightarrow> hd nm \<noteq> CHR ''_''"
  by (auto simp: episode_file_num_def numbered_name_def split: option.splits dest!: strip_prefix_Some)

lemma apply_files_clears:
  assumes "apply_files stuck d (scan (dk_dir d) dw p 1) = Inr dir"
  shows "discover_episode_files dir = []"
proof (rule ccontr)
  assume "discover_episode_files dir \<noteq> []"
  then obtain n where "n \<in> fst ` set (discover_episode_files dir)" by (cases "discover_episode_files dir") auto
  then obtain nm where nm: "is_file dir nm" "episode_file_num nm = Some n" unfolding discover_episode_files_num by blast
  let ?rp = "scan (dk_dir d) dw p 1"
  let ?a = "fold (\<lambda>x. rename x (archive_path (dk_dir d) x)) (rp_archives ?rp) (unlink_all (\<lambda>_. False) (rp_deletes ?rp) (dk_dir d))"
  have hd: "hd nm \<noteq> CHR ''_''" using episode_name_head nm(2) by simp
  have "dict_get dir nm = dict_get ?a nm"
    using assms hd by (auto simp: apply_files_def Let_def dict_get_del split: if_splits option.splits)
  also have "\<dots> = (if nm \<in> set (rp_archives ?rp) \<or> nm \<in> set (rp_deletes ?rp) then None else dict_get (dk_dir d) nm)"
    by (simp add: dict_get_renames [OF hd] dict_get_unlink)
  finally obtain e where "dict_get (dk_dir d) nm = Some e" "de_file e" "nm \<notin> set (rp_archives ?rp) \<union> set (rp_deletes ?rp)"
    using nm(1) by (auto simp: is_file_def split: option.splits if_splits)
  then show False using scan_touches [OF map_of_SomeD, of "dk_dir d" nm e n dw p] nm(2) by auto
qed

subsection \<open>Sources survive\<close>

lemma concat_map_filter: "(\<And>x. \<not> P x \<Longrightarrow> f x = []) \<Longrightarrow> concat (map f xs) = concat (map f (filter P xs))"
  by (induction xs) auto

lemma discover_sources_filter: "discover_sources nfc dir = discover_sources nfc (filter (\<lambda>x. source_name (fst x)) dir)"
  unfolding discover_sources_def sorted_dir_def filter_sort [symmetric]
  by (rule concat_map_filter) (auto split: option.splits)

lemma source_name_head: "source_name nm \<Longrightarrow> hd nm \<noteq> CHR ''_'' \<and> episode_file_num nm = None"
  by (simp add: source_name_def)

lemma filter_put_other: "\<not> P k \<Longrightarrow> filter (\<lambda>x. P (fst x)) (dict_put k v d) = filter (\<lambda>x. P (fst x)) d"
  by (induction d) auto

lemma filter_del_other: "\<not> P k \<Longrightarrow> filter (\<lambda>x. P (fst x)) (dict_del k d) = filter (\<lambda>x. P (fst x)) d"
  by (induction d) (auto simp: dict_del_def)

lemma filter_unlink_other: "(\<And>nm. nm \<in> set nms \<Longrightarrow> \<not> P nm) \<Longrightarrow> filter (\<lambda>x. P (fst x)) (unlink_all stuck nms d) = filter (\<lambda>x. P (fst x)) d"
  by (induction d) (auto simp: unlink_all_def)

lemma filter_renames:
  "(\<And>x. x \<in> set xs \<Longrightarrow> episode_file_num x \<noteq> None)
     \<Longrightarrow> filter (\<lambda>x. source_name (fst x)) (fold (\<lambda>x. rename x (archive_path d0 x)) xs dir) = filter (\<lambda>x. source_name (fst x)) dir"
proof (induction xs arbitrary: dir)
  case (Cons x xs)
  have "\<not> source_name (archive_path d0 x)" using archive_path_underscore [of d0 x] by (auto dest: source_name_head)
  moreover have "\<not> source_name x" using Cons.prems [of x] by (auto dest: source_name_head)
  ultimately have "filter (\<lambda>x. source_name (fst x)) (rename x (archive_path d0 x) dir) = filter (\<lambda>x. source_name (fst x)) dir"
    by (simp add: rename_def filter_put_other filter_del_other split: option.splits)
  with Cons show ?case by simp
qed simp

lemma apply_files_sources:
  assumes "apply_files stuck d (scan (dk_dir d) dw p k) = Inr dir"
  shows "discover_sources nfc dir = discover_sources nfc (dk_dir d)"
proof -
  let ?rp = "scan (dk_dir d) dw p k"
  let ?a = "fold (\<lambda>x. rename x (archive_path (dk_dir d) x)) (rp_archives ?rp) (unlink_all (\<lambda>_. False) (rp_deletes ?rp) (dk_dir d))"
  have "\<not> source_name ''_remaining.txt''" by (simp add: source_name_def)
  then have "filter (\<lambda>x. source_name (fst x)) dir = filter (\<lambda>x. source_name (fst x)) ?a"
    using assms by (auto simp: apply_files_def Let_def filter_del_other split: if_splits option.splits)
  also have "\<dots> = filter (\<lambda>x. source_name (fst x)) (unlink_all (\<lambda>_. False) (rp_deletes ?rp) (dk_dir d))"
    by (rule filter_renames) (use scan_only_episodes in blast)
  also have "\<dots> = filter (\<lambda>x. source_name (fst x)) (dk_dir d)"
    by (rule filter_unlink_other) (metis UnI1 scan_only_episodes source_name_head)
  finally show ?thesis using discover_sources_filter [of nfc dir] discover_sources_filter [of nfc "dk_dir d"] by simp
qed

subsection \<open>A full reset\<close>

lemma apply_files_free:
  assumes "\<not> dk_source_link d"
  shows "\<exists>dir. apply_files (\<lambda>_. False) d rp = Inr dir"
proof -
  have "find (\<lambda>_. False) xs = None" for xs :: "string list" by (simp add: find_None_iff)
  then show ?thesis using assms by (simp add: apply_files_def Let_def)
qed

lemma reset_manifest_unchanged:
  assumes "\<And>old. m = Some old \<Longrightarrow> dict_ok old"
  shows "\<exists>m'. reset_manifest episode_of 1 m m = Inr m'"
proof (cases m)
  case None then show ?thesis by (simp add: reset_manifest_def)
next
  case (Some old)
  then have "list_all (\<lambda>(k, v). dict_get old k = Some v) (claims_in_scope episode_of 1 old)"
    using assms by (auto simp: claims_in_scope_def list_all_iff dict_ok_def)
  then show ?thesis using Some by (simp add: reset_manifest_def Let_def)
qed

lemma full_reset_project:
  "jget ''episodes'' (reset_project p 1 None) = JList []" "jget ''planning_cursor'' (reset_project p 1 None) = JNull"
  "jget ''source_fingerprints'' (reset_project p 1 None) = JNull" "episodes_list (reset_project p 1 None) = Some []"
  by (simp_all add: reset_project_def jget_def dict_get_default_def episodes_list_def dict_get_put dict_get_del)

lemma plan_begin_fresh:
  assumes "episodes_list p = Some []" and "jget ''planning_cursor'' p = JNull" and "jget ''source_fingerprints'' p = JNull"
    and "discover_episode_files (dk_dir d) = []"
  shows "plan_begin pl d p = (case disk_sources pl d of [] \<Rightarrow> Inl NoSource
    | s # rest \<Rightarrow> Inr (dict_put ''episodes'' (JList []) p, (fst s, 0), compute_source_fingerprints (pn_digest pl) (disk_sources pl d),
        skip_blank rest (fst s) 0 (snd s)))"
proof -
  let ?p = "dict_put ''episodes'' (JList []) p"
  have "orphans (dk_dir d) [] = []" using assms(4) by (simp add: orphans_def)
  then have reg: "register_orphan_episode_entries (dk_dir d) (dk_down d) p = ?p"
    using register_episodes [OF assms(1), of "dk_dir d" "dk_down d"] by (simp add: sort_episodes_if_possible_def)
  have "entries ?p = []" by (simp add: entries_def)
  then have gates: "check_source_ranges ?p = None" "check_source_fingerprints pl ?p sources = None" "last_anchored ?p = None" "cursor_ref ?p = None" for sources
    using assms(2,3) by (simp_all add: check_source_ranges_None check_source_fingerprints_def mismatched_source_fingerprints_def last_anchored_def cursor_ref_def)
  show ?thesis
  proof (cases "disk_sources pl d")
    case Nil
    then show ?thesis unfolding plan_begin_def reg Let_def using gates by (simp add: effective_start_def)
  next
    case (Cons s rest)
    then have "dict_get (disk_sources pl d) (fst s) = Some (snd s)" "sources_after (disk_sources pl d) (fst s) = rest"
      by (cases s; simp add: sources_after_def)+
    then show ?thesis unfolding plan_begin_def reg Let_def using gates Cons by (simp add: effective_start_def)
  qed
qed


text \<open>A ledger that is not even a list, and a stray episode file.\<close>

definition ex_damaged :: doc where
  "ex_damaged = [(''episodes'', JInt 3), (''planning_cursor'', JStr ''x'')]"

definition ex_stray :: disk where
  "ex_stray = ex_disk\<lparr>dk_dir := (''episode_07.txt'', \<lparr>de_file = True, de_symlink = False, de_text = None\<rparr>) # dk_dir ex_disk\<rparr>"


subsection \<open>Chained ledgers\<close>

text \<open>The ledgers planning produces: entries numbered from one, each with a range, the ranges following each other through the
  sources from their beginning, and a cursor that, if set, stands at the end of the last one.\<close>

fun numbered :: "int \<Rightarrow> doc list \<Rightarrow> (int \<times> doc) list" where
  "numbered k [] = []"
| "numbered k (e # es) = (k, e) # numbered (k + 1) es"

definition well_numbered :: "int \<Rightarrow> doc list \<Rightarrow> bool" where
  "well_numbered k es \<longleftrightarrow> list_all (\<lambda>(n, e). parse_episode_num (jget ''episode'' e) = Some n \<and> parse_source_range e \<noteq> None) (numbered k es)"

definition chained :: "(string \<times> utext) list \<Rightarrow> doc \<Rightarrow> doc list \<Rightarrow> (string \<times> int) option \<Rightarrow> bool" where
  "chained sources p es c \<longleftrightarrow> episodes_list p = Some (map JObj es) \<and> well_numbered 1 es
     \<and> chain_walk sources (numbered 1 es) None = Inr c \<and> (cursor_ref p = None \<or> cursor_ref p = c)"

lemma numbered_append: "numbered k (xs @ ys) = numbered k xs @ numbered (k + int (length xs)) ys"
  by (induction xs arbitrary: k) (auto simp: algebra_simps)

lemma length_numbered [simp]: "length (numbered k es) = length es"
  by (induction es arbitrary: k) auto

lemma numbered_nums: "(n, e) \<in> set (numbered k es) \<Longrightarrow> k \<le> n \<and> n < k + int (length es) \<and> e \<in> set es"
  by (induction es arbitrary: k) (auto, fastforce+)

lemma well_numbered_append: "well_numbered k (xs @ ys) \<longleftrightarrow> well_numbered k xs \<and> well_numbered (k + int (length xs)) ys"
  by (simp add: well_numbered_def numbered_append)

lemma well_numbered_Cons: "well_numbered k (e # es)
    \<longleftrightarrow> parse_episode_num (jget ''episode'' e) = Some k \<and> parse_source_range e \<noteq> None \<and> well_numbered (k + 1) es"
  by (auto simp: well_numbered_def)

lemma well_numbered_Nil [simp]: "well_numbered k []"
  by (simp add: well_numbered_def)

lemma well_numbered_mem: "well_numbered k es \<Longrightarrow> e \<in> set es
    \<Longrightarrow> \<exists>n. parse_episode_num (jget ''episode'' e) = Some n \<and> k \<le> n \<and> n < k + int (length es) \<and> parse_source_range e \<noteq> None"
  by (induction es arbitrary: k) (fastforce simp: well_numbered_Cons)+

lemma well_numbered_sorted: "well_numbered k es \<Longrightarrow> sorted (map (\<lambda>v. case num_key v of Some n \<Rightarrow> n | None \<Rightarrow> 0) (map JObj es))"
proof (induction es arbitrary: k)
  case (Cons e es)
  then have "k + 1 \<le> n" if "e' \<in> set es" "num_key (JObj e') = Some n" for e' n
    using that well_numbered_mem [of "k + 1" es e'] by (auto simp: well_numbered_Cons num_key_def)
  moreover have "num_key (JObj e') \<noteq> None" if "e' \<in> set es" for e'
    using that Cons.prems well_numbered_mem [of "k + 1" es e'] by (auto simp: well_numbered_Cons num_key_def)
  ultimately show ?case using Cons by (fastforce simp: well_numbered_Cons num_key_def)
qed simp

lemma sort_well_numbered: "well_numbered k es \<Longrightarrow> sort_episodes_if_possible (map JObj es) = map JObj es"
  using well_numbered_sorted [of k es] by (simp only: sort_episodes_if_possible_def sorted_sort_id sort_key_id_if_sorted) simp

lemma next_num_mem: "next_num vs = 1 \<or> (\<exists>v \<in> set vs. num_key v = Some (next_num vs - 1))"
proof -
  let ?f = "\<lambda>v m. case num_key v of Some n \<Rightarrow> if 0 < n then max m n else m | None \<Rightarrow> m"
  have "fold ?f vs m = m \<or> (\<exists>v \<in> set vs. num_key v = Some (fold ?f vs m))" for m
  proof (induction vs arbitrary: m)
    case (Cons v vs)
    from Cons.IH [of "?f v m"] show ?case by (auto simp: max_def split: option.splits if_splits)
  qed simp
  from this [of 0] show ?thesis by (auto simp: next_num_def)
qed

lemma next_num_well_numbered:
  assumes "well_numbered 1 es"
  shows "next_num (map JObj es) = 1 + int (length es)"
proof (rule antisym)
  show "next_num (map JObj es) \<le> 1 + int (length es)"
    using next_num_mem [of "map JObj es"] well_numbered_mem [OF assms] by (fastforce simp: num_key_def)
  show "1 + int (length es) \<le> next_num (map JObj es)"
  proof (cases es rule: rev_cases)
    case Nil then show ?thesis by (simp add: next_num_def)
  next
    case (snoc xs x)
    then have "num_key (JObj x) = Some (int (length es))"
      using assms by (simp add: well_numbered_append well_numbered_Cons num_key_def)
    then show ?thesis using next_num_above [of "JObj x" "map JObj es"] snoc by simp
  qed
qed

lemma chain_walk_append: "chain_walk sources (xs @ ys) prev = (case chain_walk sources xs prev of Inl err \<Rightarrow> Inl err | Inr c \<Rightarrow> chain_walk sources ys c)"
  by (induction xs arbitrary: prev) (auto split: option.splits)

text \<open>The end of a chained ledger is the end of its last range.\<close>

lemma chain_end:
  assumes "well_numbered 1 es" and "chain_walk sources (numbered 1 es) None = Inr c"
  shows "fold later_end es None = map_option (\<lambda>x. (int (length es), x)) c" and "c = None \<longleftrightarrow> es = []"
proof -
  consider "es = []" | xs x where "es = xs @ [x]" by (cases es rule: rev_cases)
  then have "fold later_end es None = map_option (\<lambda>x. (int (length es), x)) c \<and> (c = None \<longleftrightarrow> es = [])"
  proof cases
    case 1 then show ?thesis using assms(2) by simp
  next
    case 2
    then have x: "parse_episode_num (jget ''episode'' x) = Some (int (length es))" "parse_source_range x \<noteq> None"
      using assms(1) by (auto simp: well_numbered_append well_numbered_Cons)
    then obtain rel a b where r: "parse_source_range x = Some (rel, a, b)" by auto
    have c: "c = Some (rel, b)"
      using assms(2) r by (auto simp: 2 numbered_append chain_walk_append split: sum.splits option.splits)
    have anch: "anchored_end x = Some (int (length es), rel, b)"
      using x(1) r by (auto simp: anchored_end_def parse_source_range_def split: json.splits)
    have "fold later_end es None = Some (int (length es), rel, b)"
    proof (rule fold_later_end)
      fix e m y assume e: "e \<in> set es" "anchored_end e = Some (m, y)"
      show "m < int (length es) \<or> (m, y) = (int (length es), rel, b)"
      proof (cases "e = x")
        case True then show ?thesis using e(2) anch by simp
      next
        case False
        then have "e \<in> set xs" "well_numbered 1 xs" using e(1) assms(1) by (auto simp: 2 well_numbered_append)
        then show ?thesis using well_numbered_mem [of 1 xs e] anchored_end_num [OF e(2)] by (auto simp: 2)
      qed
    qed (use 2 anch in auto)
    then show ?thesis using c 2 by simp
  qed
  then show "fold later_end es None = map_option (\<lambda>x. (int (length es), x)) c" "c = None \<longleftrightarrow> es = []" by blast+
qed

lemma chained_entries: "episodes_list p = Some (map JObj es) \<Longrightarrow> entries p = es"
proof -
  assume l: "episodes_list p = Some (map JObj es)"
  have "concat (map (\<lambda>v. case v of JObj d \<Rightarrow> [d] | _ \<Rightarrow> []) (map JObj xs)) = xs" for xs by (induction xs) auto
  then show ?thesis using l by (auto simp: episodes_list_def entries_def jget_def dict_get_default_def split: option.splits json.splits)
qed

lemma chained_start:
  assumes "chained sources p es c"
  shows "effective_start rels p = (case c of Some x \<Rightarrow> Inr x | None \<Rightarrow> (case rels of [] \<Rightarrow> Inl NoSource | r # _ \<Rightarrow> Inr (r, 0)))"
proof -
  have l: "episodes_list p = Some (map JObj es)" and w: "well_numbered 1 es" "chain_walk sources (numbered 1 es) None = Inr c"
    and cur: "cursor_ref p = None \<or> cursor_ref p = c" using assms by (auto simp: chained_def)
  have "entries p = es" by (rule chained_entries [OF l])
  then have "last_anchored p = c" using chain_end(1) [OF w] by (cases c) (simp_all add: last_anchored_def)
  then show ?thesis using cur by (cases c) (auto simp: effective_start_def split: prod.splits)
qed

subsection \<open>Planning keeps the chain\<close>

lemma source_split: "dict_get sources r = Some t \<Longrightarrow> \<exists>pre. sources = pre @ (r, t) # sources_after sources r \<and> r \<notin> fst ` set pre"
proof (induction sources)
  case (Cons s sources)
  show ?case
  proof (cases "fst s = r")
    case True
    then show ?thesis using Cons.prems by (intro exI [of _ "[]"]) (cases s, simp add: sources_after_def)
  next
    case False
    then have "dict_get sources r = Some t" "sources_after (s # sources) r = sources_after sources r"
      using Cons.prems by (cases s, simp_all add: sources_after_def)+
    moreover from this(1) obtain pre where "sources = pre @ (r, t) # sources_after sources r" "r \<notin> fst ` set pre" using Cons.IH by blast
    ultimately show ?thesis using False by (intro exI [of _ "s # pre"]) auto
  qed
qed simp

lemma rel_index_append: "r \<notin> set xs \<Longrightarrow> rel_index (xs @ r # ys) r = Some (length xs)"
  by (induction xs) (auto simp: rel_index_def)

lemma sources_before_append: "r \<notin> fst ` set xs \<Longrightarrow> sources_before (xs @ (r, t) # ys) r = xs"
  by (induction xs) (auto simp: sources_before_def)

lemma skips_to_split:
  assumes "distinct (map fst sources)" and "skips_to sources ref rel t"
  obtains pre t0 mid post where "sources = pre @ (fst ref, t0) # mid @ (rel, t) # post" "blank_text (text_from t0 (snd ref))"
    "\<forall>s \<in> set mid. blank_text (snd s)" "rel \<notin> fst ` set (pre @ (fst ref, t0) # mid)" "dict_get sources rel = Some t" "fst ref \<notin> fst ` set pre"
proof -
  obtain t0 mid post where *: "dict_get sources (fst ref) = Some t0" "blank_text (text_from t0 (snd ref))"
    "sources_after sources (fst ref) = mid @ (rel, t) # post" "\<forall>s \<in> set mid. blank_text (snd s)"
    using assms(2) by (auto simp: skips_to_def)
  obtain pre where pre: "sources = pre @ (fst ref, t0) # mid @ (rel, t) # post" "fst ref \<notin> fst ` set pre"
    using source_split [OF *(1)] *(3) by auto
  moreover from this have "rel \<notin> fst ` set (pre @ (fst ref, t0) # mid)" using assms(1) by auto
  moreover from calculation have "dict_get sources rel = Some t" using assms(1) by (intro map_of_is_SomeI) auto
  ultimately show thesis using that * by blast
qed

text \<open>The first range of a batch follows the end \<open>c\<close> of the ledger.\<close>

definition continues :: "(string \<times> utext) list \<Rightarrow> (string \<times> int) option \<Rightarrow> string \<Rightarrow> int \<Rightarrow> bool" where
  "continues sources c rel start \<longleftrightarrow>
     (case c of
        None \<Rightarrow> start = 0 \<and> (\<forall>s \<in> set (sources_before sources rel). blank_text (snd s))
      | Some (r, k) \<Rightarrow> (rel, start) = (r, k) \<or> start = 0 \<and> rel \<noteq> r \<and> switch_ok sources r k rel)"

lemma continues_step:
  assumes "continues sources c rel start" and "dict_get sources rel = Some t" and "0 \<le> start" "start < b" "b \<le> int (length t)"
    and "c = None \<Longrightarrow> n = 1"
  shows "chain_step sources c n rel start b = None"
  using assms by (auto simp: chain_step_def continues_def list_ex_iff Let_def split: option.splits)

lemma skips_continue:
  assumes "distinct (map fst sources)" and "skips_to sources (r, k) rel t"
  shows "rel \<noteq> r \<and> switch_ok sources r k rel"
  using assms
proof (rule skips_to_split)
  fix pre t0 mid post
  assume S: "sources = pre @ (fst (r, k), t0) # mid @ (rel, t) # post" and b: "blank_text (text_from t0 (snd (r, k)))"
    and mid: "\<forall>s \<in> set mid. blank_text (snd s)" and fresh: "rel \<notin> fst ` set (pre @ (fst (r, k), t0) # mid)" and r: "fst (r, k) \<notin> fst ` set pre"
  have "rel_index (map fst sources) r = Some (length pre)"
    unfolding S using rel_index_append [of r "map fst pre"] r by simp
  moreover have "rel_index (map fst sources) rel = Some (length (pre @ (r, t0) # mid))"
    unfolding S using rel_index_append [of rel "map fst (pre @ (r, t0) # mid)" "map fst post"] fresh by (simp add: image_Un)
  moreover have "dict_get sources r = Some t0" using assms(1) by (intro map_of_is_SomeI) (auto simp: S)
  moreover have "drop (Suc (length pre)) (take (length (pre @ (r, t0) # mid)) sources) = mid" unfolding S by simp
  ultimately show ?thesis using b mid fresh by (auto simp: switch_ok_def list_all_iff)
qed

lemma walk_new_entries:
  "length drs = length es \<Longrightarrow> dict_get sources rel = Some t \<Longrightarrow> 0 \<le> prev \<Longrightarrow> sorted_wrt (<) (prev # map (\<lambda>e. start + int e) es)
     \<Longrightarrow> \<forall>e \<in> set es. start + int e \<le> int (length t)
     \<Longrightarrow> chain_walk sources (numbered n (new_entries pl d p rel start n prev drs es)) (Some (rel, prev))
         = Inr (Some (rel, last (prev # map (\<lambda>e. start + int e) es)))"
proof (induction pl d p rel start n prev drs es rule: new_entries.induct)
  case (1 pl d p rel start n prev dr drs e es)
  have "chain_step sources (Some (rel, prev)) n rel prev (start + int e) = None"
    by (rule continues_step [where t = t]) (use "1.prems" in \<open>auto simp: continues_def\<close>)
  moreover have "chain_walk sources (numbered (n + 1) (new_entries pl d p rel start (n + 1) (start + int e) drs es)) (Some (rel, start + int e))
      = Inr (Some (rel, last ((start + int e) # map (\<lambda>e. start + int e) es)))"
    using 1 by auto
  ultimately show ?case by simp
qed auto

lemma new_entries_well_numbered: "well_numbered n (new_entries pl d p rel start n prev drs es)"
  by (induction pl d p rel start n prev drs es rule: new_entries.induct) (auto simp: well_numbered_Cons)

lemma chain_walk_source:
  "chain_walk sources xs prev = Inr (Some (r, k)) \<Longrightarrow> (\<And>r k. prev = Some (r, k) \<Longrightarrow> dict_get sources r \<noteq> None) \<Longrightarrow> dict_get sources r \<noteq> None"
proof (induction sources xs prev rule: chain_walk.induct)
  case (2 sources n e es prev)
  show ?case
  proof (cases "parse_source_range e")
    case None
    then show ?thesis using "2.IH"(1) "2.prems"(1) by simp
  next
    case (Some x)
    obtain rel a b where x: "x = (rel, a, b)" by (cases x)
    with Some "2.prems"(1) have "chain_step sources prev n rel a b = None" "chain_walk sources es (Some (rel, b)) = Inr (Some (r, k))"
      by (simp_all split: option.splits)
    moreover from this(1) have "dict_get sources rel \<noteq> None" by (auto simp: chain_step_def split: option.splits)
    ultimately show ?thesis using "2.IH"(2) Some x by blast
  qed
qed simp

lemma filter_objects: "filter (\<lambda>v. v \<noteq> JNull) (map JObj es) = map JObj es"
  by (induction es) auto

text \<open>What a batch starts with, seen from the end of the ledger.\<close>

lemma begin_continues:
  assumes begun: "plan_begin pl d p0 = Inr (project, ref, used, Some (rel, start, t))" and "distinct (map fst (disk_sources pl d))"
    and ch: "chained (disk_sources pl d) p es c" and start: "effective_start (map fst (disk_sources pl d)) p = Inr ref"
  shows "continues (disk_sources pl d) c rel start \<and> dict_get (disk_sources pl d) rel = Some t"
proof -
  let ?S = "disk_sources pl d"
  have ref: "case c of Some x \<Rightarrow> ref = x | None \<Rightarrow> (\<exists>s rest. ?S = s # rest \<and> ref = (fst s, 0))"
    using start unfolding chained_start [OF ch] by (auto split: option.splits list.splits)
  have known: "dict_get ?S (fst ref) \<noteq> None"
  proof (cases c)
    case None
    then show ?thesis using ref by (auto simp: map_of_eq_None_iff)
  next
    case (Some x)
    then show ?thesis using ref ch chain_walk_source [of ?S "numbered 1 es" None "fst x" "snd x"] by (auto simp: chained_def)
  qed
  consider "(rel, start) = ref" "dict_get ?S rel = Some t" | "start = 0" "skips_to ?S ref rel t"
    using plan_begin_reaches [OF begun] known by (metis fst_conv)
  then show ?thesis
  proof cases
    case 1
    then show ?thesis using ref by (cases c) (auto simp: continues_def sources_before_def)
  next
    case 2
    obtain pre t0 mid post where s: "?S = pre @ (fst ref, t0) # mid @ (rel, t) # post" "blank_text (text_from t0 (snd ref))"
      "\<forall>s \<in> set mid. blank_text (snd s)" "rel \<notin> fst ` set (pre @ (fst ref, t0) # mid)" "dict_get ?S rel = Some t" "fst ref \<notin> fst ` set pre"
      using assms(2) 2(2) by (rule skips_to_split)
    have "continues ?S c rel start"
    proof (cases c)
      case None
      then have r: "ref = (fst (hd ?S), 0)" using ref by auto
      then have "pre = []" using s(1,6) by (cases pre) auto
      then have "sources_before ?S rel = (fst ref, t0) # mid" using s(1) sources_before_append [OF s(4)] by simp
      moreover have "blank_text t0" using s(2) r by (simp add: text_from_def clamp_index_def)
      ultimately show ?thesis using None 2(1) s(3) by (simp add: continues_def)
    next
      case (Some x)
      then show ?thesis using ref 2 skips_continue [OF assms(2), of "fst x" "snd x" rel t] by (cases x) (simp add: continues_def)
    qed
    with s(5) show ?thesis by blast
  qed
qed

lemma batch_bounds:
  assumes "reconcile_derived_files pl stuck d (batch_project pl d p b) (ba_rel b, ba_text b) = Inr dir"
    and "length (ba_drafts b) = length (ba_ends b)" and "i < length (ba_ends b)"
  shows "ba_start b + int (ba_ends b ! i) \<le> int (length (ba_text b))"
proof -
  let ?e = "batch_entries pl d p b ! i"
  have e: "?e = new_entry pl d p (ba_drafts b ! i) (next_num (episode_values p) + int i) (ba_rel b)
      (if i = 0 then ba_start b else ba_start b + int (ba_ends b ! (i - 1))) (ba_start b + int (ba_ends b ! i))"
    using assms(2,3) by (simp add: batch_entries_def nth_new_entries)
  have mem: "?e \<in> set (entries (batch_project pl d p b))"
    unfolding batch_project_entries using assms(2,3) by (intro disjI2 nth_mem) (simp add: batch_entries_def)
  obtain ws where "derived_writes pl d (ba_rel b, ba_text b) (entries (batch_project pl d p b)) = Inr ws"
    using assms(1) by (auto simp: reconcile_derived_files_def split: if_splits sum.splits)
  from derived_writes_Inr(2) [OF this mem] obtain w where "derived_write pl d (ba_rel b, ba_text b) ?e (next_num (episode_values p) + int i) = Inr w"
    unfolding e new_entry_parsed(1) by blast
  then show ?thesis by (rule derived_write_Inr) (simp add: e cached_text_def)
qed

lemma commit_keeps_chain:
  assumes ch: "chained (disk_sources pl d) p es c" and cont: "continues (disk_sources pl d) c (ba_rel b) (ba_start b)"
    and t: "dict_get (disk_sources pl d) (ba_rel b) = Some (ba_text b)"
    and shape: "length (ba_drafts b) = length (ba_ends b)" "ba_ends b \<noteq> []" "sorted_wrt (<) (0 # ba_ends b)" and start: "0 \<le> ba_start b"
    and bounds: "\<And>i. i < length (ba_ends b) \<Longrightarrow> ba_start b + int (ba_ends b ! i) \<le> int (length (ba_text b))"
  shows "chained (disk_sources pl d) (batch_project pl d p b) (es @ batch_entries pl d p b) (Some (ba_rel b, batch_end b))"
proof -
  let ?S = "disk_sources pl d" and ?new = "batch_entries pl d p b"
  have l: "episodes_list p = Some (map JObj es)" and w: "well_numbered 1 es" and walk: "chain_walk ?S (numbered 1 es) None = Inr c"
    using ch by (auto simp: chained_def)
  have vals: "episode_values p = map JObj es"
    using l filter_objects [of es] by (auto simp: episodes_list_def episode_values_def jget_def dict_get_default_def split: option.splits json.splits)
  have n: "next_num (episode_values p) = 1 + int (length es)" unfolding vals by (rule next_num_well_numbered [OF w])
  have wn: "well_numbered 1 (es @ ?new)"
    unfolding well_numbered_append batch_entries_def n using w new_entries_well_numbered by simp
  obtain dr drs e0 es0 where d0: "ba_drafts b = dr # drs" "ba_ends b = e0 # es0"
    using shape(1,2) by (cases "ba_drafts b"; cases "ba_ends b") auto
  have bound: "ba_start b + int x \<le> int (length (ba_text b))" if "x \<in> set (ba_ends b)" for x
    using that bounds by (auto simp: in_set_conv_nth)
  have "chain_step ?S c (1 + int (length es)) (ba_rel b) (ba_start b) (ba_start b + int e0) = None"
    by (rule continues_step [OF cont t start]) (use shape(3) d0 bound chain_end(2) [OF w walk] in auto)
  moreover have "chain_walk ?S (numbered (1 + int (length es) + 1) (new_entries pl d p (ba_rel b) (ba_start b) (1 + int (length es) + 1) (ba_start b + int e0) drs es0))
      (Some (ba_rel b, ba_start b + int e0)) = Inr (Some (ba_rel b, last ((ba_start b + int e0) # map (\<lambda>e. ba_start b + int e) es0)))"
    by (rule walk_new_entries [OF _ t]) (use shape start d0 bound in \<open>auto simp: sorted_wrt_map\<close>)
  ultimately have "chain_walk ?S (numbered 1 (es @ ?new)) None = Inr (Some (ba_rel b, batch_end b))"
    by (simp add: numbered_append chain_walk_append walk batch_entries_def n d0 batch_end_def last_map)
  moreover have "episodes_list (batch_project pl d p b) = Some (map JObj (es @ ?new))"
    using sort_well_numbered [OF wn] by (simp add: episodes_list_def batch_project_def dict_get_put vals)
  moreover have "cursor_ref (batch_project pl d p b) = Some (ba_rel b, batch_end b)"
    using start by (simp add: cursor_ref_def batch_project_fields jget_def [of "''source_file''"] jget_def [of "''offset''"] dict_get_default_def batch_end_def)
  ultimately show ?thesis using wn by (simp add: chained_def)
qed

lemma plan_keeps_chain:
  assumes "plan pl stuck instructions d0 p0 d1 p1 = Inr (p', dir, res)" and "disk_sources pl d0 = disk_sources pl d1"
    and "distinct (map fst (disk_sources pl d1))" and ch: "chained (disk_sources pl d1) p1 es c"
  shows "\<exists>es' c'. chained (disk_sources pl d1) p' es' c'"
  using assms(1)
proof (cases rule: plan_cases)
  case exhausted
  then have "episodes_list p' = episodes_list p1" "cursor_ref p' = cursor_ref p1" by (auto simp: episodes_list_def cursor_ref_def dict_get_put)
  then show ?thesis using ch unfolding chained_def by auto
next
  case (committed project b)
  have vs: "episodes_list p1 = Some (map JObj es)" and w: "well_numbered 1 es" using ch by (auto simp: chained_def)
  obtain p where p: "p = dict_put ''episodes'' (JList (sort_episodes_if_possible (map JObj es))) p1" and p': "p' = batch_project pl d1 p b"
    and ref: "commit_refusal pl d1 p b = None" and rec: "reconcile_derived_files pl stuck d1 p' (ba_rel b, ba_text b) = Inr dir"
    using committed(6) vs by (rule commit_Inr)
  have chp: "chained (disk_sources pl d1) p es c"
    using ch sort_well_numbered [OF w] unfolding chained_def p by (simp add: episodes_list_def [of "dict_put _ _ _"] dict_get_put cursor_ref_def)
  have cont: "continues (disk_sources pl d1) c (ba_rel b) (ba_start b)" "dict_get (disk_sources pl d1) (ba_rel b) = Some (ba_text b)"
    using begin_continues [OF committed(2)] assms(2,3) chp commit_start [OF ref] by auto
  have "batch_entries pl d1 p b ! 0 = new_entry pl d1 p (ba_drafts b ! 0) (next_num (episode_values p)) (ba_rel b) (ba_start b) (ba_start b + int (ba_ends b ! 0))"
    and mem: "batch_entries pl d1 p b ! 0 \<in> set (entries p')"
    using committed(3,4) nth_mem [of 0 "batch_entries pl d1 p b"] by (simp_all add: batch_entries_def nth_new_entries p' batch_project_entries)
  then have start: "0 \<le> ba_start b" using reconcile_ranges [OF rec mem] by simp
  show ?thesis unfolding p'
    using commit_keeps_chain [OF chp cont committed(3,4,5) start batch_bounds [OF rec [unfolded p'] committed(3)]] by blast
qed

subsection \<open>Partial resets keep the chain\<close>

lemma clean_numbered:
  "well_numbered k es \<Longrightarrow> 1 \<le> k \<Longrightarrow> \<forall>n \<in> fst ` set acc. n < k \<Longrightarrow> clean_entries (map JObj es) acc = Inr (acc @ numbered k es)"
proof (induction es arbitrary: k acc)
  case (Cons e es)
  then show ?case using Cons.IH [of "k + 1" "acc @ [(k, e)]"] by (fastforce simp: well_numbered_Cons)
qed simp

lemma filter_numbered: "filter (\<lambda>(n, e). n < f) (numbered k es) = numbered k (take (nat (f - k)) es)"
proof (induction es arbitrary: k)
  case (Cons e es)
  have "filter (\<lambda>(n, e). n < f) (numbered (k + 1) es) = []" if "\<not> k < f"
    using that by (auto simp: filter_empty_conv dest: numbered_nums)
  moreover have "nat (f - k) = Suc (nat (f - (k + 1)))" if "k < f" using that by linarith
  ultimately show ?case using Cons by auto
qed simp

lemma fst_numbered: "sorted (map fst (numbered k es))" "first_gap k (map fst (numbered k es)) = k + int (length es)"
  "fst ` set (numbered k es) = {k ..< k + int (length es)}"
proof -
  show "sorted (map fst (numbered k es))" by (induction es arbitrary: k) (fastforce dest: numbered_nums)+
  show "first_gap k (map fst (numbered k es)) = k + int (length es)" by (induction es arbitrary: k) auto
  show "fst ` set (numbered k es) = {k ..< k + int (length es)}" by (induction es arbitrary: k) auto
qed

lemma chain_prefix:
  assumes "well_numbered 1 es" and "chain_walk sources (numbered 1 es) None = Inr c" and "0 < m" and "m \<le> length es"
  obtains c' where "chain_walk sources (numbered 1 (take m es)) None = Inr (Some c')" "well_numbered 1 (take m es)"
proof -
  have "chain_walk sources (numbered 1 (take m es @ drop m es)) None = Inr c" using assms(2) by simp
  then obtain c1 where c1: "chain_walk sources (numbered 1 (take m es)) None = Inr c1"
    unfolding numbered_append chain_walk_append by (auto split: sum.splits)
  have w: "well_numbered 1 (take m es)" using assms(1) well_numbered_append [of 1 "take m es" "drop m es"] by simp
  have "take m es \<noteq> []" using assms(3,4) by auto
  then obtain c' where "c1 = Some c'" using chain_end(2) [OF w c1] by auto
  with c1 w show thesis using that by blast
qed

lemma resolve_chained:
  assumes ch: "chained (disk_sources pl d) p es c" and k: "1 < k" "k \<le> int (length es)"
  obtains c' where "chain_walk (disk_sources pl d) (numbered 1 (take (nat (k - 1)) es)) None = Inr (Some c')" "well_numbered 1 (take (nat (k - 1)) es)"
    "resolve_partial_reset_cursor pl d p k =
       (case mismatched_source_fingerprints (pn_digest pl) (jget ''source_fingerprints'' p) (disk_sources pl d) of
          [] \<Rightarrow> Inr c' | rels \<Rightarrow> Inl (ResetSourceChanged rels))"
proof -
  have l: "episodes_list p = Some (map JObj es)" and w: "well_numbered 1 es" and walk: "chain_walk (disk_sources pl d) (numbered 1 es) None = Inr c"
    using ch by (auto simp: chained_def)
  have "es \<noteq> []" using k by auto
  then have jg: "jget ''episodes'' p = JList (map JObj es)"
    using l by (auto simp: episodes_list_def jget_def dict_get_default_def split: option.splits json.splits)
  have cl: "clean_entries (map JObj es) [] = Inr (numbered 1 es)" using clean_numbered [OF w, of "[]"] by simp
  obtain c' where c': "chain_walk (disk_sources pl d) (numbered 1 (take (nat (k - 1)) es)) None = Inr (Some c')" "well_numbered 1 (take (nat (k - 1)) es)"
    using w walk k by (rule_tac chain_prefix [of es "disk_sources pl d" c "nat (k - 1)"]) auto
  have kept: "sort_key fst (filter (\<lambda>(n, e). n < k) (numbered 1 es)) = numbered 1 (take (nat (k - 1)) es)"
    by (simp add: filter_numbered sort_key_id_if_sorted fst_numbered)
  have "first_gap 1 (map fst (numbered 1 (take (nat (k - 1)) es))) = k" using k by (simp add: fst_numbered)
  moreover have "k \<in> fst ` set (numbered 1 es)" unfolding fst_numbered using k by simp
  ultimately have "resolve_partial_reset_cursor pl d p k =
       (case mismatched_source_fingerprints (pn_digest pl) (jget ''source_fingerprints'' p) (disk_sources pl d) of
          [] \<Rightarrow> Inr c' | rels \<Rightarrow> Inl (ResetSourceChanged rels))"
    by (simp add: resolve_partial_reset_cursor_def jg cl kept c' Let_def split: list.splits)
  with c' show thesis using that by blast
qed

lemma resolve_in_ledger: "resolve_partial_reset_cursor pl d p k = Inr cur \<Longrightarrow> chained sources p es c \<Longrightarrow> k \<le> int (length es)"
proof -
  assume res: "resolve_partial_reset_cursor pl d p k = Inr cur" and ch: "chained sources p es c"
  have w: "well_numbered 1 es" and l: "episodes_list p = Some (map JObj es)" using ch by (auto simp: chained_def)
  from res obtain vs es' where "jget ''episodes'' p = JList vs" "clean_entries vs [] = Inr es'" "k \<in> fst ` set es'"
    by (auto simp: resolve_partial_reset_cursor_def Let_def split: json.splits sum.splits if_splits)
  moreover from this(1) have "vs = map JObj es" using l by (auto simp: episodes_list_def jget_def dict_get_default_def split: option.splits)
  moreover have "clean_entries (map JObj es) [] = Inr (numbered 1 es)" using clean_numbered [OF w, of "[]"] by simp
  ultimately have "k \<in> fst ` set (numbered 1 es)" by simp
  then show ?thesis unfolding fst_numbered by simp
qed

lemma retained_well_numbered:
  assumes "well_numbered 1 es" and "entries p = es"
  shows "retained_entries p k = take (nat (k - 1)) es"
proof -
  let ?num = "\<lambda>e. case parse_episode_num (jget ''episode'' e) of Some n \<Rightarrow> n | None \<Rightarrow> 0"
  have f: "filter (\<lambda>e. ?num e < k) es = take (nat (k - j)) es" if "well_numbered j es" for j
    using that
  proof (induction es arbitrary: j)
    case (Cons e es)
    have "filter (\<lambda>e. ?num e < k) es = []" if "\<not> j < k"
      using that Cons.prems well_numbered_mem [of "j + 1" es] by (fastforce simp: well_numbered_Cons filter_empty_conv)
    moreover have "nat (k - j) = Suc (nat (k - (j + 1)))" if "j < k" using that by linarith
    ultimately show ?case using Cons by (auto simp: well_numbered_Cons)
  qed simp
  have "sorted (map ?num (take (nat (k - 1)) es))"
  proof -
    have "well_numbered 1 (take (nat (k - 1)) es)" using assms(1) well_numbered_append [of 1 "take (nat (k - 1)) es" "drop (nat (k - 1)) es"] by simp
    from well_numbered_sorted [OF this] show ?thesis by (simp add: num_key_def comp_def)
  qed
  then show ?thesis using f [OF assms(1)] by (simp add: retained_entries_def Let_def assms(2) sort_key_id_if_sorted)
qed

lemma map_sum_Inr: "map_sum id f x = Inr y \<longleftrightarrow> (\<exists>z. x = Inr z \<and> y = f z)"
  by (cases x) auto

lemma reset_done:
  assumes "reset_episode_planning pl stuck schema_current episode_of k confirm d0 p0 d1 p1 m0 m1 = Inr (ResetDone r)"
  obtains cur where "(if 1 < k then map_sum id Some (resolve_partial_reset_cursor pl d1 p1 k) else Inr None) = Inr cur"
    "rd_project r = reset_project p1 k cur" "1 \<le> k"
proof -
  have k: "1 \<le> k" using assms by (simp add: reset_episode_planning_def split: if_splits)
  obtain confirmed where "reset_commit pl stuck schema_current episode_of k confirmed d1 p1 m0 m1 = Inr r"
    using assms unfolding reset_episode_planning_def Let_def by (simp only: map_sum_Inr split: if_splits sum.splits) auto
  then show thesis
    using that k unfolding reset_commit_def Let_def by (simp only: split: sum.splits if_splits) auto
qed

lemma reset_keeps_chain:
  assumes "reset_episode_planning pl stuck schema_current episode_of k confirm d0 p0 d1 p1 m0 m1 = Inr (ResetDone r)"
    and ch: "chained (disk_sources pl d1) p1 es c"
  shows "\<exists>es' c'. chained (disk_sources pl d1) (rd_project r) es' c'"
proof -
  obtain cur where cur: "(if 1 < k then map_sum id Some (resolve_partial_reset_cursor pl d1 p1 k) else Inr None) = Inr cur"
    and r: "rd_project r = reset_project p1 k cur" and k1: "1 \<le> k"
    using assms(1) by (rule reset_done)
  show ?thesis
  proof (cases "1 < k")
    case False
    then have "rd_project r = reset_project p1 1 None" using cur r k1 by simp
    then have "chained (disk_sources pl d1) (rd_project r) [] None"
      using full_reset_project [of p1] by (simp add: chained_def cursor_ref_def)
    then show ?thesis by blast
  next
    case True
    then obtain x where x: "resolve_partial_reset_cursor pl d1 p1 k = Inr x" "cur = Some x"
      using cur by (cases "resolve_partial_reset_cursor pl d1 p1 k") auto
    have kl: "k \<le> int (length es)" by (rule resolve_in_ledger [OF x(1) ch])
    obtain c' where c': "chain_walk (disk_sources pl d1) (numbered 1 (take (nat (k - 1)) es)) None = Inr (Some c')" "well_numbered 1 (take (nat (k - 1)) es)"
      and "resolve_partial_reset_cursor pl d1 p1 k =
       (case mismatched_source_fingerprints (pn_digest pl) (jget ''source_fingerprints'' p1) (disk_sources pl d1) of
          [] \<Rightarrow> Inr c' | rels \<Rightarrow> Inl (ResetSourceChanged rels))"
      using ch True kl by (rule resolve_chained)
    then have "x = c'" using x(1) by (auto split: list.splits)
    have "entries p1 = es" "well_numbered 1 es" using ch chained_entries by (auto simp: chained_def)
    then have ret: "retained_entries p1 k = take (nat (k - 1)) es" using retained_well_numbered by blast
    have "chained (disk_sources pl d1) (rd_project r) (take (nat (k - 1)) es) (Some c')"
      using c' unfolding r x(2) \<open>x = c'\<close>
      by (cases c') (simp add: chained_def reset_project_def ret episodes_list_def dict_get_put cursor_ref_def jget_def dict_get_default_def)
    then show ?thesis by blast
  qed
qed

subsection \<open>Histories\<close>

text \<open>The ledgers reachable from an empty one by planning and resetting while the sources stay as they are; the planner, the
  replies and the moments of each step are arbitrary, and so are the steps of other components on other fields.\<close>

inductive ledger_history :: "(string \<times> utext) list \<Rightarrow> doc \<Rightarrow> bool" for sources where
  history_new: "episodes_list p = Some [] \<Longrightarrow> cursor_ref p = None \<Longrightarrow> ledger_history sources p"
| history_plan: "ledger_history sources p1 \<Longrightarrow> disk_sources pl d0 = sources \<Longrightarrow> disk_sources pl d1 = sources
    \<Longrightarrow> plan pl stuck instructions d0 p0 d1 p1 = Inr (p', dir, res) \<Longrightarrow> ledger_history sources p'"
| history_reset: "ledger_history sources p1 \<Longrightarrow> disk_sources pl d1 = sources
    \<Longrightarrow> reset_episode_planning pl stuck schema_current (episode_of :: string \<Rightarrow> int option) k confirm d0 p0 d1 p1 (m0 :: (string \<times> string) list option) m1
      = Inr (ResetDone r) \<Longrightarrow> ledger_history sources (rd_project r)"
| history_other: "ledger_history sources p \<Longrightarrow> f \<notin> {''episodes'', ''planning_cursor''} \<Longrightarrow> ledger_history sources (dict_put f v p)"

text \<open>The contract of everything that writes the ledger: over the same sources a chained ledger stays chained.\<close>

locale ledger_keeper =
  fixes run :: "(string \<times> utext) list \<Rightarrow> doc \<Rightarrow> doc \<Rightarrow> bool"
  assumes keeps: "distinct (map fst sources) \<Longrightarrow> run sources p p' \<Longrightarrow> \<exists>es c. chained sources p es c \<Longrightarrow> \<exists>es c. chained sources p' es c"
begin

lemma keeps_always:
  assumes "distinct (map fst sources)" and "(run sources)\<^sup>*\<^sup>* p p'" and "\<exists>es c. chained sources p es c"
  shows "\<exists>es c. chained sources p' es c"
  using assms(2,3) by (induction rule: rtranclp_induct) (metis keeps [OF assms(1)])+

end

interpretation planning: ledger_keeper
  "\<lambda>sources p1 p'. \<exists>pl stuck instructions d0 p0 d1 dir res. disk_sources pl d0 = sources \<and> disk_sources pl d1 = sources
     \<and> plan pl stuck instructions d0 p0 d1 p1 = Inr (p', dir, res)"
  by unfold_locales (metis plan_keeps_chain)

interpretation resetting: ledger_keeper
  "\<lambda>sources p1 p'. \<exists>pl stuck schema_current (episode_of :: string \<Rightarrow> int option) k confirm d0 p0 d1 (m0 :: (string \<times> string) list option) m1 r.
     disk_sources pl d1 = sources \<and> p' = rd_project r
     \<and> reset_episode_planning pl stuck schema_current episode_of k confirm d0 p0 d1 p1 m0 m1 = Inr (ResetDone r)"
  by unfold_locales (metis reset_keeps_chain)

interpretation editing: ledger_keeper "\<lambda>sources p p'. \<exists>f v. f \<notin> {''episodes'', ''planning_cursor''} \<and> p' = dict_put f v p"
proof
  fix sources :: "(string \<times> utext) list" and p p' :: doc
  assume "\<exists>f v. f \<notin> {''episodes'', ''planning_cursor''} \<and> p' = dict_put f v p" and ch: "\<exists>es c. chained sources p es c"
  then have "episodes_list p' = episodes_list p" "cursor_ref p' = cursor_ref p"
    by (auto simp: episodes_list_def cursor_ref_def dict_get_put)
  with ch show "\<exists>es c. chained sources p' es c" unfolding chained_def by auto
qed

lemma history_chained:
  assumes "distinct (map fst sources)" and "ledger_history sources p"
  shows "\<exists>es c. chained sources p es c"
  using assms(2)
proof induction
  case (history_new p)
  then have "chained sources p [] None" by (simp add: chained_def)
  then show ?case by blast
next
  case (history_plan p1 pl d0 d1 stuck instructions p0 p' dir res)
  then show ?case using planning.keeps [where p = p1 and p' = p', OF assms(1)] by blast
next
  case (history_reset p1 pl d1 stuck schema_current episode_of k confirm d0 p0 m0 m1 r)
  then show ?case using resetting.keeps [where p = p1 and p' = "rd_project r", OF assms(1)] by blast
next
  case (history_other p f v)
  then show ?case using editing.keeps [where p = p and p' = "dict_put f v p", OF assms(1)] by blast
qed

text \<open>
  (C35) The planner and the reset agree on what a ledger is. After any history of planning and resetting over unchanged
  sources, the entries are numbered one after the other from one, and a partial reset from any of them but the first is
  never refused because of the ledger: with matching fingerprints it goes back to the end of the range of the episode
  before. So the chain of ranges the reset demands (from the beginning of the first source with text, without gap or
  overlap, moving on only over white space) is an invariant of the planner.
\<close>

theorem planned_ledger_resettable:
  assumes "distinct (map fst sources)" and "ledger_history sources p" and "disk_sources pl d = sources"
    and "mismatched_source_fingerprints (pn_digest pl) (jget ''source_fingerprints'' p) sources = []"
    and "1 < k" and "k \<le> int (count_planned_episodes p)"
  shows "\<exists>es rel a b. episodes_list p = Some (map JObj es)
    \<and> (\<forall>i < length es. parse_episode_num (jget ''episode'' (es ! i)) = Some (1 + int i))
    \<and> parse_source_range (es ! nat (k - 2)) = Some (rel, a, b) \<and> resolve_partial_reset_cursor pl d p k = Inr (rel, b)"
proof -
  obtain es c where ch: "chained (disk_sources pl d) p es c" using history_chained [OF assms(1,2)] assms(3) by blast
  then have l: "episodes_list p = Some (map JObj es)" and w: "well_numbered 1 es" by (auto simp: chained_def)
  have "count_planned_episodes p = length es"
  proof -
    have "parse_episode_num (jget ''episode'' e) \<noteq> None" if "e \<in> set es" for e using well_numbered_mem [OF w that] by auto
    then show ?thesis by (simp add: count_planned_episodes_def chained_entries [OF l])
  qed
  with assms(6) have k: "k \<le> int (length es)" by simp
  obtain c' where walk: "chain_walk (disk_sources pl d) (numbered 1 (take (nat (k - 1)) es)) None = Inr (Some c')"
    and wt: "well_numbered 1 (take (nat (k - 1)) es)"
    and res: "resolve_partial_reset_cursor pl d p k =
       (case mismatched_source_fingerprints (pn_digest pl) (jget ''source_fingerprints'' p) (disk_sources pl d) of
          [] \<Rightarrow> Inr c' | rels \<Rightarrow> Inl (ResetSourceChanged rels))"
    using ch assms(5) k by (rule resolve_chained)
  define m where "m = nat (k - 2)"
  have m: "nat (k - 1) = Suc m" "m < length es" using assms(5) k by (auto simp: m_def)
  have split: "take (nat (k - 1)) es = take m es @ [es ! m]" unfolding m(1) using m(2) by (simp add: take_Suc_conv_app_nth)
  then obtain rel a b where r: "parse_source_range (es ! m) = Some (rel, a, b)"
    using wt by (auto simp: well_numbered_append well_numbered_Cons)
  have "c' = (rel, b)"
    using walk unfolding split numbered_append chain_walk_append using r by (auto split: sum.splits option.splits)
  moreover have "parse_episode_num (jget ''episode'' (es ! i)) = Some (1 + int i)" if "i < length es" for i
    using w id_take_nth_drop [OF that] well_numbered_append [of 1 "take i es" "es ! i # drop (Suc i) es"] that by (simp add: well_numbered_Cons)
  ultimately show ?thesis using l r res assms(3,4) unfolding m_def by (intro exI [of _ es] exI [of _ rel] exI [of _ a] exI [of _ b]) simp
qed

theorem planned_ledger_resettable_witness:
  "\<exists>p dir res rel b. plan ex_planner (\<lambda>_. False) None ex_disk [] ex_disk [] = Inr (p, dir, res)
     \<and> resolve_partial_reset_cursor ex_planner ex_disk p 2 = Inr (rel, b)"
proof -
  obtain p dir res where p: "plan ex_planner (\<lambda>_. False) None ex_disk [] ex_disk [] = Inr (p, dir, res)"
    and fps: "mismatched_source_fingerprints (pn_digest ex_planner) (jget ''source_fingerprints'' p) (disk_sources ex_planner ex_disk) = []"
    and n: "count_planned_episodes p = 2"
    using ex_plan by blast
  have "ledger_history (disk_sources ex_planner ex_disk) []" by (rule history_new) (simp_all add: episodes_list_def cursor_ref_def jget_def dict_get_default_def)
  then have h: "ledger_history (disk_sources ex_planner ex_disk) p" by (rule history_plan [OF _ refl refl p])
  have "distinct (map fst (disk_sources ex_planner ex_disk))" by code_simp
  from planned_ledger_resettable [OF this h refl fps, of 2] n p show ?thesis by auto
qed

end
