(* ===== verification/TaskFailure.thy ===== *)
theory TaskFailure
  imports Json
begin

text \<open>
  \<open>lib/task_failure.py\<close>: the machine-readable failure reasons stored in
  \<open>Task.error_message\<close>. A reason is \<open>[code]\<close>, or \<open>[code] \<close> followed by a JSON object
  of parameters; everything else passes through as raw text. The parameters handed
  to \<open>encode_failure\<close> are JSON values (what \<open>default=str\<close> makes of other objects is
  already a string here).
\<close>

subsection \<open>The registered codes\<close>

definition CAPABILITY_FAILURE_CODES :: "string list" where
  "CAPABILITY_FAILURE_CODES =
     [''image_capability_missing_i2i'', ''image_capability_missing_t2i'',
      ''image_dashscope_4k_t2i_only'', ''image_endpoint_mismatch_no_i2i'',
      ''image_endpoint_mismatch_no_t2i'', ''image_reference_images_unreadable'',
      ''ref_payload_floor_exceeded'', ''video_capability_missing_t2v'',
      ''video_duration_invalid'', ''video_duration_not_supported'',
      ''video_end_image_requires_start_image'', ''video_end_image_unreadable'',
      ''video_last_frame_requires_pro'', ''video_last_frame_unsupported'',
      ''video_prompt_too_long'', ''video_reference_images_duration_unsupported'',
      ''video_reference_images_exceeded'', ''video_reference_images_required'',
      ''video_reference_images_unreadable'', ''video_reference_images_unsupported'',
      ''video_reference_images_with_frames_unsupported'',
      ''video_reference_audio_duration_exceeded'', ''video_reference_audio_exceeded'',
      ''video_reference_audio_format_unsupported'',
      ''video_reference_audio_slots_insufficient'', ''video_reference_audio_unreadable'',
      ''video_reference_audio_unsupported'', ''video_resolution_duration_unsupported'',
      ''video_start_image_unreadable'']"

definition REFERENCE_PROJECTION_FAILURE_CODES :: "string list" where
  "REFERENCE_PROJECTION_FAILURE_CODES =
     [''reference_asset_missing'', ''reference_capability_changed'',
      ''reference_capability_unavailable'', ''reference_declaration_invalid'',
      ''reference_duration_confirmation_required'',
      ''reference_supported_durations_incompatible'',
      ''reference_supported_durations_invalid'', ''reference_supported_durations_missing'',
      ''video_audio_switch_not_supported'', ''video_capability_missing_i2v'',
      ''video_capability_missing_r2v'', ''video_capability_reference_unavailable'']"

definition NARRATION_DELIVERY_FAILURE_CODES :: "string list" where
  "NARRATION_DELIVERY_FAILURE_CODES =
     [''needs_replan'', ''reference_duration_confirmation_required'',
      ''tts_duration_unavailable'', ''tts_generating'',
      ''tts_conflicts_with_active_narrated_video'', ''tts_missing'', ''tts_not_applicable'',
      ''tts_not_configured'', ''tts_stale'', ''tts_state_unavailable'',
      ''video_duration_unavailable'', ''video_shorter_than_tts'',
      ''video_supported_durations_missing'']"

definition FAILURE_CODE_KEYS :: "(string \<times> string) list" where
  "FAILURE_CODE_KEYS =
     map (\<lambda>c. (c, c)) (CAPABILITY_FAILURE_CODES @ REFERENCE_PROJECTION_FAILURE_CODES
       @ NARRATION_DELIVERY_FAILURE_CODES) @
     [(''provider_unsupported_media'', ''task_fail_provider_unsupported_media''),
      (''dispatch_provider_requeue_failed'', ''task_fail_dispatch_provider_requeue_failed''),
      (''restart_lost_image'', ''task_fail_restart_lost_image''),
      (''restart_lost_audio'', ''task_fail_restart_lost_audio''),
      (''restart_lost_no_job_id'', ''task_fail_restart_lost_no_job_id''),
      (''restart_lost_resume_no_job_id'', ''task_fail_restart_lost_resume_no_job_id''),
      (''resume_unsupported_provider'', ''task_fail_resume_unsupported_provider''),
      (''resume_unsupported_capacity_zero'', ''task_fail_resume_unsupported_capacity_zero''),
      (''resume_unsupported_detail'', ''task_fail_resume_unsupported_detail''),
      (''resume_expired_detail'', ''task_fail_resume_expired_detail''),
      (''resume_endpoint_changed_detail'', ''task_fail_resume_endpoint_changed_detail''),
      (''restart_lost_checkpoint_no_job_id'', ''task_fail_restart_lost_checkpoint_no_job_id''),
      (''execution_identity_unrecoverable'', ''task_fail_execution_identity_unrecoverable''),
      (''script_edit_error'', ''script_edit_error''),
      (''script_edit_items_not_list'', ''script_edit_items_not_list''),
      (''script_edit_unit_lists_invalid'', ''script_edit_unit_lists_invalid''),
      (''script_edit_generated_assets_invalid'', ''script_edit_generated_assets_invalid''),
      (''cascade_blocked_dependency'', ''task_fail_cascade_blocked_dependency'')]"

definition CASCADE_CODE :: string where
  "CASCADE_CODE = ''cascade_blocked_dependency''"

definition MAX_CASCADE_UNWRAP :: nat where
  "MAX_CASCADE_UNWRAP = 100"

definition failure_code :: "string \<Rightarrow> bool" where
  "failure_code c \<longleftrightarrow> c \<in> fst ` set FAILURE_CODE_KEYS"

subsection \<open>Encoding and parsing\<close>

type_synonym params = "(string \<times> json) list"

definition encode_failure :: "string \<Rightarrow> params \<Rightarrow> string res" where
  "encode_failure code ps =
     (if \<not> failure_code code then Inl (KeyError (''unknown failure code: '' @ code))
      else if ps \<noteq> [] then Inr (''['' @ code @ ''] '' @ json_dumps_sorted (JObj ps))
      else Inr (''['' @ code @ '']''))"

text \<open>
  The pattern \<open>^\[(\w+)\](?:[ ](\{.*\}))?$\<close> with DOTALL. The end anchor also matches
  before one final newline. \<open>\w\<close> is the ASCII class: every registered code is ASCII and
  both callers treat a match with an unregistered code like no match.
\<close>

definition is_word :: "char \<Rightarrow> bool" where
  "is_word c \<longleftrightarrow> is_digit c \<or> (CHR ''a'' \<le> c \<and> c \<le> CHR ''z'') \<or> (CHR ''A'' \<le> c \<and> c \<le> CHR ''Z'')
     \<or> c = CHR ''_''"

definition chop_newline :: "string \<Rightarrow> string" where
  "chop_newline s = (if s \<noteq> [] \<and> last s = CHR 0x0A then butlast s else s)"

definition match_structured :: "string \<Rightarrow> (string \<times> string option) option" where
  "match_structured s =
     (case chop_newline s of [] \<Rightarrow> None
      | b # r \<Rightarrow>
          let code = takeWhile is_word r; rest = dropWhile is_word r
          in if b \<noteq> CHR ''['' \<or> code = [] then None
             else if rest = '']'' then Some (code, None)
             else if take 3 rest = ''] {'' \<and> last rest = CHR ''}'' then Some (code, Some (drop 2 rest))
             else None)"

definition parse_failure :: "string option \<Rightarrow> (string \<times> params) option" where
  "parse_failure msg =
     (case msg of None \<Rightarrow> None
      | Some s \<Rightarrow>
          if s = [] then None
          else (case match_structured s of None \<Rightarrow> None
            | Some (code, raw) \<Rightarrow>
                if \<not> failure_code code then None
                else (case raw of None \<Rightarrow> Some (code, [])
                  | Some txt \<Rightarrow>
                      (case json_loads txt of Some (JObj ps) \<Rightarrow> Some (code, ps) | _ \<Rightarrow> None))))"

subsection \<open>Collapsing nested cascades\<close>

definition cascade_nested :: "string \<Rightarrow> string option" where
  "cascade_nested reason =
     (case parse_failure (Some reason) of None \<Rightarrow> None
      | Some (code, ps) \<Rightarrow>
          if code \<noteq> CASCADE_CODE then None
          else (case dict_get ps ''reason'' of Some (JStr nested) \<Rightarrow> Some nested | _ \<Rightarrow> None))"

text \<open>The loop of \<open>collapse_cascade_reason\<close>; its counter counts down from
  \<open>MAX_CASCADE_UNWRAP + 1\<close>, the number of unwraps after which the code stops.\<close>

fun collapse_loop :: "nat \<Rightarrow> string \<Rightarrow> string" where
  "collapse_loop 0 reason = reason"
| "collapse_loop (Suc n) reason =
     (case cascade_nested reason of None \<Rightarrow> reason | Some nested \<Rightarrow> collapse_loop n nested)"

definition collapse_cascade_reason :: "string \<Rightarrow> string" where
  "collapse_cascade_reason reason = collapse_loop (Suc MAX_CASCADE_UNWRAP) reason"

subsection \<open>Bounding a reason\<close>

definition as_shrinkable :: "json \<Rightarrow> json" where
  "as_shrinkable v = (case v of JList _ \<Rightarrow> JStr (json_dumps v) | JObj _ \<Rightarrow> JStr (json_dumps v) | _ \<Rightarrow> v)"

definition str_val :: "json \<Rightarrow> string" where
  "str_val v = (case v of JStr s \<Rightarrow> s | _ \<Rightarrow> [])"

definition is_str :: "json \<Rightarrow> bool" where
  "is_str v \<longleftrightarrow> (case v of JStr _ \<Rightarrow> True | _ \<Rightarrow> False)"

text \<open>\<open>max(keys, key=...)\<close>: the first key of greatest measure.\<close>

fun max_by :: "('a \<Rightarrow> nat) \<Rightarrow> 'a list \<Rightarrow> 'a option" where
  "max_by f [] = None"
| "max_by f (x # xs) =
     (case max_by f xs of None \<Rightarrow> Some x | Some y \<Rightarrow> if f y > f x then Some y else Some x)"

definition string_keys :: "params \<Rightarrow> string list" where
  "string_keys ps = map fst (filter (\<lambda>kv. is_str (snd kv)) ps)"

definition param_str :: "params \<Rightarrow> string \<Rightarrow> string" where
  "param_str ps k = (case dict_get ps k of Some (JStr s) \<Rightarrow> s | _ \<Rightarrow> [])"

definition encoded_text :: "string \<Rightarrow> params \<Rightarrow> string" where
  "encoded_text code ps = (case encode_failure code ps of Inr s \<Rightarrow> s | Inl _ \<Rightarrow> [])"

definition shrink_drop :: "nat \<Rightarrow> nat \<Rightarrow> nat" where
  "shrink_drop deficit len = (if deficit < len then deficit else max 1 (len div 2))"

lemma max_by_mem: "max_by f xs = Some x \<Longrightarrow> x \<in> set xs"
  by (induction xs arbitrary: x) (auto split: option.splits if_splits)

lemma max_by_None [simp]: "max_by f xs = None \<longleftrightarrow> xs = []"
  by (cases xs) (auto split: option.splits)

lemma max_by_greatest: "max_by f xs = Some x \<Longrightarrow> y \<in> set xs \<Longrightarrow> f y \<le> f x"
proof (induction xs arbitrary: x)
  case (Cons a xs)
  show ?case
  proof (cases "max_by f xs")
    case None
    with Cons.prems show ?thesis by simp
  next
    case (Some z)
    then have "y \<in> set xs \<Longrightarrow> f y \<le> f z" using Cons.IH by blast
    with Some Cons.prems show ?thesis by (auto split: if_splits)
  qed
qed simp

definition total_len :: "params \<Rightarrow> nat" where
  "total_len ps = sum_list (map (\<lambda>kv. length (str_val (snd kv))) ps)"

lemma total_len_put:
  "dict_get ps k = Some (JStr s) \<Longrightarrow> length t < length s \<Longrightarrow>
   total_len (dict_put k (JStr t) ps) < total_len ps"
  by (induction ps) (auto simp: total_len_def str_val_def split: if_splits)

lemma param_str_get: "param_str ps k \<noteq> [] \<Longrightarrow> dict_get ps k = Some (JStr (param_str ps k))"
  by (auto simp: param_str_def split: option.splits json.splits)

lemma shrink_drop_pos: "cur \<noteq> [] \<Longrightarrow> limit < len \<Longrightarrow>
   length (take (length cur - shrink_drop (len - limit) (length cur)) cur) < length cur"
  by (cases cur) (auto simp: shrink_drop_def min_def)

function shrink_loop :: "string \<Rightarrow> nat \<Rightarrow> string \<Rightarrow> params \<Rightarrow> string" where
  "shrink_loop code limit raw ps =
     (let encoded = encoded_text code ps in
      if length encoded \<le> limit then encoded
      else (case max_by (\<lambda>k. length (param_str ps k)) (string_keys ps) of
              None \<Rightarrow> raw
            | Some k \<Rightarrow>
                let cur = param_str ps k in
                if cur = [] then raw
                else shrink_loop code limit raw
                  (dict_put k (JStr (take (length cur
                      - shrink_drop (length encoded - limit) (length cur)) cur)) ps)))"
  by pat_completeness auto
termination
  by (relation "measure (\<lambda>(code, limit, raw, ps). total_len ps)")
    (auto intro!: total_len_put param_str_get shrink_drop_pos)

declare shrink_loop.simps [simp del]

text \<open>A raw cut is \<open>reason[:limit]\<close>; every early return of the code is one.\<close>

definition bound_reason :: "string \<Rightarrow> nat \<Rightarrow> string" where
  "bound_reason reason limit =
     (if length reason \<le> limit then reason
      else (case match_structured reason of None \<Rightarrow> take limit reason
        | Some (code, raw) \<Rightarrow>
            if \<not> failure_code code then take limit reason
            else (case raw of None \<Rightarrow> take limit reason
              | Some txt \<Rightarrow>
                  (case json_loads txt of Some (JObj parsed) \<Rightarrow>
                     (let ps = map (\<lambda>kv. (fst kv, as_shrinkable (snd kv))) parsed in
                      if string_keys ps = [] then take limit reason
                      else shrink_loop code limit (take limit reason) ps)
                   | _ \<Rightarrow> take limit reason))))"

subsection \<open>Rendering\<close>

lemma match_structured_length:
  "match_structured s = Some (code, Some raw) \<Longrightarrow> length raw + length code + 3 \<le> length s"
proof -
  assume a: "match_structured s = Some (code, Some raw)"
  then obtain r where r: "chop_newline s = CHR ''['' # r" "code = takeWhile is_word r"
    "raw = drop 2 (dropWhile is_word r)" "take 3 (dropWhile is_word r) = ''] {''"
    by (auto simp: match_structured_def Let_def split: list.splits if_splits)
  have "length (takeWhile is_word r) + length (dropWhile is_word r) = length r"
    by (metis length_append takeWhile_dropWhile_id)
  moreover have "3 \<le> length (dropWhile is_word r)"
    using arg_cong [OF r(4), of length] by (simp add: min_def split: if_splits)
  moreover have "length (chop_newline s) \<le> length s" by (simp add: chop_newline_def)
  ultimately show ?thesis using r by simp
qed

lemma cascade_nested_shorter: "cascade_nested s = Some t \<Longrightarrow> length t + 29 \<le> length s"
proof -
  assume a: "cascade_nested s = Some t"
  then obtain ps where p: "parse_failure (Some s) = Some (CASCADE_CODE, ps)" "dict_get ps ''reason'' = Some (JStr t)"
    by (auto simp: cascade_nested_def split: option.splits if_splits json.splits)
  then obtain raw where raw: "match_structured s = Some (CASCADE_CODE, Some raw)" "json_loads raw = Some (JObj ps)"
    by (auto simp: parse_failure_def split: option.splits if_splits json.splits prod.splits)
  have "length t < length raw" by (rule json_loads_member_shorter [OF raw(2) p(2)])
  then show ?thesis using match_structured_length [OF raw(1)] by (simp add: CASCADE_CODE_def)
qed

function render_str :: "(string \<Rightarrow> params \<Rightarrow> string) \<Rightarrow> string \<Rightarrow> string" where
  "render_str translate msg =
     (case parse_failure (Some msg) of None \<Rightarrow> msg
      | Some (code, ps) \<Rightarrow>
          let ps' = (case cascade_nested msg of None \<Rightarrow> ps
              | Some nested \<Rightarrow> dict_put ''reason'' (JStr (render_str translate nested)) ps)
          in translate (dict_get_default FAILURE_CODE_KEYS code []) ps')"
  by pat_completeness auto
termination
  by (relation "measure (\<lambda>(t, s). length s)") (auto dest: cascade_nested_shorter)

declare render_str.simps [simp del]

definition render_failure :: "string option \<Rightarrow> (string \<Rightarrow> params \<Rightarrow> string) \<Rightarrow> string option" where
  "render_failure msg translate =
     (case msg of None \<Rightarrow> None | Some s \<Rightarrow> if s = [] then Some s else Some (render_str translate s))"

subsection \<open>Encoding and parsing are inverse\<close>

definition params_ok :: "params \<Rightarrow> bool" where
  "params_ok ps \<longleftrightarrow> wf_json (JObj ps)"

definition sorted_params :: "params \<Rightarrow> params" where
  "sorted_params ps = sort_key fst (map (\<lambda>kv. (fst kv, sort_json (snd kv))) ps)"

lemma FAILURE_CODE_KEYS_word:
  "list_all (\<lambda>kv. fst kv \<noteq> [] \<and> list_all is_word (fst kv)) FAILURE_CODE_KEYS"
  by code_simp

lemma failure_code_word: "failure_code c \<Longrightarrow> c \<noteq> [] \<and> (\<forall>x \<in> set c. is_word x)"
  using FAILURE_CODE_KEYS_word by (auto simp: failure_code_def list_all_iff)

lemma failure_code_cascade [simp]: "failure_code CASCADE_CODE"
  by code_simp

lemma not_word_bracket [simp]: "\<not> is_word CHR '']''"
  by (simp add: is_word_def is_digit_def less_eq_char_def)

lemma takeWhile_word: "\<forall>x \<in> set c. is_word x \<Longrightarrow> takeWhile is_word (c @ CHR '']'' # r) = c
    \<and> dropWhile is_word (c @ CHR '']'' # r) = CHR '']'' # r"
  by (simp add: takeWhile_append dropWhile_append)

lemma match_structured_params:
  assumes "failure_code c"
  shows "match_structured (CHR ''['' # c @ ''] {'' @ txt @ ''}'') = Some (c, Some (CHR ''{'' # txt @ ''}''))"
  using failure_code_word [OF assms] takeWhile_word [of c " '' {'' @ txt @ ''}''"]
  by (simp add: match_structured_def chop_newline_def Let_def)

lemma match_structured_plain:
  assumes "failure_code c"
  shows "match_structured (CHR ''['' # c @ '']'') = Some (c, None)"
  using failure_code_word [OF assms] takeWhile_word [of c "[]"]
  by (simp add: match_structured_def chop_newline_def Let_def)

lemma encode_failure_ok: "failure_code c \<Longrightarrow> encode_failure c ps = Inr (encoded_text c ps)"
  by (simp add: encoded_text_def encode_failure_def)

lemma parse_encoded:
  assumes "failure_code c" "params_ok ps"
  shows "parse_failure (Some (encoded_text c ps)) = Some (c, sorted_params ps)"
proof (cases "ps = []")
  case True
  then show ?thesis using assms match_structured_plain
    by (simp add: encoded_text_def encode_failure_def parse_failure_def sorted_params_def)
next
  case False
  let ?inner = "join '', '' (map dumps_member (sorted_params ps))"
  have body: "json_dumps_sorted (JObj ps) = CHR ''{'' # ?inner @ ''}''"
    by (simp add: json_dumps_sorted_def sorted_params_def)
  have "json_loads (json_dumps_sorted (JObj ps)) = Some (JObj (sorted_params ps))"
    using json_round_trip_sorted assms(2) by (simp add: params_ok_def sorted_params_def)
  then show ?thesis using assms(1) False match_structured_params [OF assms(1), of ?inner]
    by (simp add: encoded_text_def encode_failure_def parse_failure_def body)
qed

lemma dict_get_map_snd:
  "dict_get (map (\<lambda>kv. (fst kv, f (snd kv))) ps) k = map_option f (dict_get ps k)"
  by (induction ps) auto

lemma sorted_params_get: "params_ok ps \<Longrightarrow> dict_get (sorted_params ps) k = map_option sort_json (dict_get ps k)"
proof -
  assume "params_ok ps"
  then have "dict_ok (map (\<lambda>kv. (fst kv, sort_json (snd kv))) ps)"
    by (simp add: params_ok_def dict_ok_def comp_def)
  then show ?thesis by (simp add: sorted_params_def dict_get_sort dict_get_map_snd)
qed

lemma parse_failure_params_ok: "parse_failure (Some s) = Some (c, ps) \<Longrightarrow> failure_code c \<and> params_ok ps"
  by (auto simp: parse_failure_def params_ok_def simp del: wf_json.simps(3) dest: json_loads_wf
      split: option.splits if_splits json.splits prod.splits) (simp add: dict_ok_def)

subsection \<open>Bounding\<close>

lemma shrink_loop_length: "length raw \<le> limit \<Longrightarrow> length (shrink_loop code limit raw ps) \<le> limit"
proof (induction code limit raw ps rule: shrink_loop.induct)
  case (1 code limit raw ps)
  then show ?case
    by (subst shrink_loop.simps) (auto simp: Let_def split: option.splits)
qed

lemma bound_reason_length_aux: "length (bound_reason reason limit) \<le> limit"
  by (auto simp: bound_reason_def Let_def shrink_loop_length split: option.splits json.splits prod.splits)

text \<open>The smallest envelope: every string parameter emptied.\<close>

definition emptied :: "params \<Rightarrow> params" where
  "emptied ps = map (\<lambda>kv. (fst kv, if is_str (snd kv) then JStr [] else snd kv)) ps"

definition shrinkable_params :: "params \<Rightarrow> params" where
  "shrinkable_params ps = map (\<lambda>kv. (fst kv, as_shrinkable (snd kv))) ps"

lemma emptied_put:
  "dict_get ps k = Some (JStr s) \<Longrightarrow> emptied (dict_put k (JStr t) ps) = emptied ps"
  by (induction ps) (auto simp: emptied_def is_str_def split: if_splits)

lemma string_keys_put:
  "dict_get ps k = Some (JStr s) \<Longrightarrow> string_keys (dict_put k (JStr t) ps) = string_keys ps"
  by (induction ps) (auto simp: string_keys_def is_str_def split: if_splits)

lemma params_ok_put: "params_ok ps \<Longrightarrow> params_ok (dict_put k (JStr t) ps)"
proof -
  assume "params_ok ps"
  moreover have "set (dict_put k (JStr t) ps) \<subseteq> insert (k, JStr t) (set ps)"
    by (induction ps) auto
  ultimately show ?thesis by (auto simp: params_ok_def intro: dict_ok_put)
qed

lemma string_keys_param: "dict_ok ps \<Longrightarrow> kv \<in> set ps \<Longrightarrow> is_str (snd kv) \<Longrightarrow>
    fst kv \<in> set (string_keys ps) \<and> snd kv = JStr (param_str ps (fst kv))"
  by (cases kv) (force simp: string_keys_def param_str_def dict_ok_def is_str_def split: json.splits)

lemma all_empty_emptied:
  assumes "params_ok ps" "\<And>k. k \<in> set (string_keys ps) \<Longrightarrow> param_str ps k = []"
  shows "emptied ps = ps"
proof -
  have "(fst kv, if is_str (snd kv) then JStr [] else snd kv) = kv" if "kv \<in> set ps" for kv
    using string_keys_param [of ps kv] assms that by (cases kv) (auto simp: params_ok_def)
  then show ?thesis by (simp add: emptied_def map_idI)
qed

lemma shrink_loop_encoded:
  assumes "params_ok ps" "string_keys ps \<noteq> []" "length (encoded_text code (emptied ps)) \<le> limit"
  shows "\<exists>ps'. shrink_loop code limit raw ps = encoded_text code ps' \<and> params_ok ps'
    \<and> emptied ps' = emptied ps"
  using assms
proof (induction code limit raw ps rule: shrink_loop.induct)
  case (1 code limit raw ps)
  show ?case
  proof (cases "length (encoded_text code ps) \<le> limit")
    case True
    then show ?thesis using "1.prems" by (subst shrink_loop.simps) auto
  next
    case False
    obtain k where k: "max_by (\<lambda>k. length (param_str ps k)) (string_keys ps) = Some k"
      using "1.prems"(2) max_by_None by blast
    have ne: "param_str ps k \<noteq> []"
    proof
      assume "param_str ps k = []"
      then have "emptied ps = ps"
        using max_by_greatest [OF k] "1.prems"(1) by (intro all_empty_emptied) auto
      then show False using False "1.prems"(3) by simp
    qed
    note g = param_str_get [OF ne]
    let ?ps = "dict_put k (JStr (take (length (param_str ps k)
      - shrink_drop (length (encoded_text code ps) - limit) (length (param_str ps k))) (param_str ps k))) ps"
    have "\<exists>ps'. shrink_loop code limit raw ?ps = encoded_text code ps' \<and> params_ok ps'
        \<and> emptied ps' = emptied ?ps"
      by (rule "1.IH" [OF refl False k refl ne])
        (use "1.prems" params_ok_put g in \<open>auto simp: string_keys_put [OF g] emptied_put [OF g]\<close>)
    then show ?thesis
      using False k ne emptied_put [OF g] by (subst shrink_loop.simps) (simp add: Let_def)
  qed
qed

lemma params_ok_shrinkable: "params_ok ps \<Longrightarrow> params_ok (shrinkable_params ps)"
  by (auto simp: params_ok_def shrinkable_params_def dict_ok_def comp_def as_shrinkable_def split: json.splits)

lemma bound_reason_encoded:
  assumes "parse_failure (Some reason) = Some (c, ps)" "string_keys (shrinkable_params ps) \<noteq> []"
    and "length (encoded_text c (emptied (shrinkable_params ps))) \<le> limit" "limit < length reason"
  shows "\<exists>ps'. bound_reason reason limit = encoded_text c ps' \<and> params_ok ps'
    \<and> emptied ps' = emptied (shrinkable_params ps)"
proof -
  have ps: "ps \<noteq> []" using assms(2) by (auto simp: shrinkable_params_def string_keys_def)
  have c: "failure_code c" "params_ok ps" using parse_failure_params_ok [OF assms(1)] by auto
  obtain raw where raw: "match_structured reason = Some (c, Some raw)" "json_loads raw = Some (JObj ps)"
    using assms(1) ps
    by (auto simp: parse_failure_def split: option.splits if_splits json.splits prod.splits)
  have "bound_reason reason limit = shrink_loop c limit (take limit reason) (shrinkable_params ps)"
    using raw c assms(2,4) by (simp add: bound_reason_def shrinkable_params_def Let_def)
  then show ?thesis
    using shrink_loop_encoded [OF params_ok_shrinkable [OF c(2)] assms(2,3)] by auto
qed

lemma emptied_keys: "map fst (emptied ps) = map fst ps"
  by (simp add: emptied_def comp_def)

lemma map_fst_shrinkable: "map fst (shrinkable_params ps) = map fst ps"
  by (simp add: shrinkable_params_def comp_def)

lemma sorted_params_keys: "fst ` set (sorted_params ps) = fst ` set ps"
  by (simp add: sorted_params_def image_image)

subsection \<open>Collapsing\<close>

lemma collapse_loop_root:
  "length reason < 29 * n \<Longrightarrow> cascade_nested (collapse_loop n reason) = None"
proof (induction n arbitrary: reason)
  case (Suc n)
  then show ?case
    by (auto split: option.split dest!: cascade_nested_shorter)
qed simp

lemma collapse_loop_chain:
  "(reason, collapse_loop n reason) \<in> {(a, b). cascade_nested a = Some b}\<^sup>*"
proof (induction n arbitrary: reason)
  case (Suc n)
  then show ?case
    by (auto split: option.split intro: converse_rtrancl_into_rtrancl)
qed simp

lemma collapse_cascade_root:
  "length reason \<le> 2000 \<Longrightarrow> cascade_nested (collapse_cascade_reason reason) = None"
  using collapse_loop_root [of reason "Suc MAX_CASCADE_UNWRAP"]
  by (simp add: collapse_cascade_reason_def MAX_CASCADE_UNWRAP_def)

subsection \<open>Properties\<close>

text \<open>
  (C12) Encoding and parsing a failure are inverse. Whatever the parameters are (the strings
  may hold quotes, brackets, control characters or whole encoded failures), the text
  produced for a registered code is recognised and gives back the code and, under every key,
  the value that was encoded, its nested objects with their keys in order.
\<close>

theorem encode_parse_round_trip:
  assumes "failure_code c" "params_ok ps"
  shows "\<exists>s ps'. encode_failure c ps = Inr s \<and> parse_failure (Some s) = Some (c, ps')
    \<and> (\<forall>k. dict_get ps' k = map_option sort_json (dict_get ps k))"
  using encode_failure_ok [OF assms(1)] parse_encoded [OF assms] sorted_params_get [OF assms(2)] by blast

theorem encode_parse_round_trip_witness:
  "\<exists>s ps'. encode_failure ''cascade_blocked_dependency'' [(''reason'', JStr ''a \"] {'')] = Inr s
    \<and> parse_failure (Some s) = Some (''cascade_blocked_dependency'', ps')
    \<and> dict_get ps' ''reason'' = Some (JStr ''a \"] {'')"
proof -
  have "failure_code ''cascade_blocked_dependency''" by code_simp
  moreover have "params_ok [(''reason'', JStr ''a \"] {'')]" by (simp add: params_ok_def dict_ok_def)
  ultimately show ?thesis
    using encode_parse_round_trip [of "''cascade_blocked_dependency''" "[(''reason'', JStr ''a \"] {'')]"] by fastforce
qed

text \<open>
  \<open>bound_reason\<close> never exceeds its limit and leaves a short reason alone; a structured
  failure that is too long stays one, with its code and its parameter names, whenever the
  envelope with all strings emptied would fit.
\<close>

theorem bound_reason_correct:
  "length (bound_reason reason limit) \<le> limit
   \<and> (length reason \<le> limit \<longrightarrow> bound_reason reason limit = reason)
   \<and> (\<forall>c ps. parse_failure (Some reason) = Some (c, ps) \<longrightarrow> string_keys (shrinkable_params ps) \<noteq> [] \<longrightarrow>
        length (encoded_text c (emptied (shrinkable_params ps))) \<le> limit \<longrightarrow>
        (\<exists>ps'. parse_failure (Some (bound_reason reason limit)) = Some (c, ps') \<and> fst ` set ps' = fst ` set ps))"
proof (intro conjI allI impI)
  show "length (bound_reason reason limit) \<le> limit" by (rule bound_reason_length_aux)
  show "bound_reason reason limit = reason" if "length reason \<le> limit" using that by (simp add: bound_reason_def)
  fix c ps
  assume p: "parse_failure (Some reason) = Some (c, ps)" "string_keys (shrinkable_params ps) \<noteq> []"
    "length (encoded_text c (emptied (shrinkable_params ps))) \<le> limit"
  show "\<exists>ps'. parse_failure (Some (bound_reason reason limit)) = Some (c, ps') \<and> fst ` set ps' = fst ` set ps"
  proof (cases "length reason \<le> limit")
    case True
    then show ?thesis using p(1) by (auto simp: bound_reason_def)
  next
    case False
    then obtain ps' where ps': "bound_reason reason limit = encoded_text c ps'" "params_ok ps'"
      "emptied ps' = emptied (shrinkable_params ps)" using bound_reason_encoded [OF p] by auto
    have "map fst ps' = map fst ps" using ps'(3) emptied_keys map_fst_shrinkable by metis
    then have "fst ` set (sorted_params ps') = fst ` set ps"
      using sorted_params_keys [of ps'] by (metis list.set_map)
    moreover have "failure_code c" using parse_failure_params_ok [OF p(1)] by blast
    ultimately show ?thesis using ps' parse_encoded by auto
  qed
qed

text \<open>The hypotheses of the last part at an envelope of 100 characters, cut to 60.\<close>

definition sample_reason :: string where
  "sample_reason = encoded_text ''resume_expired_detail''
     [(''detail'', JStr (replicate 60 (CHR ''x'')))]"

theorem bound_reason_correct_witness:
  "\<exists>ps'. parse_failure (Some (bound_reason sample_reason 60)) = Some (''resume_expired_detail'', ps') \<and> fst ` set ps' = {''detail''}"
proof -
  let ?ps = "[(''detail'', JStr (replicate 60 (CHR ''x'')))]"
  have "parse_failure (Some sample_reason) = Some (''resume_expired_detail'', ?ps)" by code_simp
  moreover have "string_keys (shrinkable_params ?ps) \<noteq> []" by code_simp
  moreover have "length (encoded_text ''resume_expired_detail'' (emptied (shrinkable_params ?ps))) \<le> 60" by code_simp
  moreover have "fst ` set ?ps = {''detail''}" by simp
  ultimately show ?thesis using bound_reason_correct [of sample_reason 60] by metis
qed

text \<open>
  \<open>collapse_cascade_reason\<close> reaches the root cause: for a reason that fits the error
  column the result is reached by unwrapping cascade envelopes only, and is no cascade
  envelope itself.
\<close>

theorem collapse_reaches_root:
  assumes "length reason \<le> 2000"
  shows "(reason, collapse_cascade_reason reason) \<in> {(a, b). cascade_nested a = Some b}\<^sup>*
    \<and> cascade_nested (collapse_cascade_reason reason) = None"
proof
  show "(reason, collapse_cascade_reason reason) \<in> {(a, b). cascade_nested a = Some b}\<^sup>*"
    unfolding collapse_cascade_reason_def by (rule collapse_loop_chain)
qed (rule collapse_cascade_root [OF assms])

theorem collapse_reaches_root_witness:
  "cascade_nested (collapse_cascade_reason (encoded_text CASCADE_CODE [(''reason'', JStr ''boom'')])) = None"
proof -
  have "length (encoded_text CASCADE_CODE [(''reason'', JStr ''boom'')]) \<le> 2000" by code_simp
  then show ?thesis using collapse_reaches_root by blast
qed

end
