(* ===== verification/TaskTable.thy ===== *)
theory TaskTable
  imports Complex_Main TaskFailure
begin

text \<open>
  The state of the task queue (\<open>lib/db/models/task.py\<close>, and the \<open>self\<close> of
  \<open>lib/db/repositories/task_repo.py\<close>): the \<open>tasks\<close> and \<open>worker_lease\<close> tables and the
  terminal events a repository session collects, with the unique partial index that
  deduplicates active tasks, the status machine, and the lemmas about row updates every
  operation shares.

  The status column only ever holds the six literals of the code, so it is a datatype.
  Epoch seconds of a lease are rationals; the other time stamps are natural numbers.
\<close>

datatype status = Queued | Running | Cancelling | Succeeded | Failed | Cancelled

definition status_str :: "status \<Rightarrow> string" where
  "status_str s = (case s of Queued \<Rightarrow> ''queued'' | Running \<Rightarrow> ''running'' | Cancelling \<Rightarrow> ''cancelling''
     | Succeeded \<Rightarrow> ''succeeded'' | Failed \<Rightarrow> ''failed'' | Cancelled \<Rightarrow> ''cancelled'')"

definition ACTIVE_TASK_STATUSES :: "status list" where
  "ACTIVE_TASK_STATUSES = [Queued, Running, Cancelling]"

definition TERMINAL_TASK_STATUSES :: "status list" where
  "TERMINAL_TASK_STATUSES = [Succeeded, Failed, Cancelled]"

record task =
  task_id :: string
  project_name :: string
  task_type :: string
  media_type :: string
  resource_id :: string
  resource_type :: "string option"
  script_file :: "string option"
  payload_json :: "string option"
  status :: status
  result_json :: "string option"
  error_message :: "string option"
  source :: string
  dependency_task_id :: "string option"
  dependency_group :: "string option"
  dependency_index :: "int option"
  cancelled_by :: "string option"
  provider_id :: "string option"
  provider_job_id :: "string option"
  provider_endpoint :: "string option"
  submitted_base_url :: "string option"
  execution_checkpoint_json :: "string option"
  queued_at :: nat
  started_at :: "nat option"
  finished_at :: "nat option"
  updated_at :: nat
  user_id :: string

record worker_lease =
  lease_name :: string
  lease_owner :: string
  lease_until :: rat
  lease_updated_at :: nat

record terminal_event =
  ev_task_id :: string
  ev_project_name :: string
  ev_status :: status
  ev_task_type :: string

record repo =
  tasks :: "task list"
  worker_leases :: "worker_lease list"
  terminal_events :: "terminal_event list"

abbreviation has_id :: "string \<Rightarrow> task \<Rightarrow> bool" where
  "has_id tid t \<equiv> task_id t = tid"

definition get_row :: "string \<Rightarrow> repo \<Rightarrow> task option" where
  "get_row tid r = find (has_id tid) (tasks r)"

definition active :: "task \<Rightarrow> bool" where
  "active t \<longleftrightarrow> status t \<in> set ACTIVE_TASK_STATUSES"

definition terminal :: "status \<Rightarrow> bool" where
  "terminal s \<longleftrightarrow> s \<in> set TERMINAL_TASK_STATUSES"

lemma active_iff: "active t \<longleftrightarrow> \<not> terminal (status t)"
  by (cases "status t") (simp_all add: active_def terminal_def ACTIVE_TASK_STATUSES_def TERMINAL_TASK_STATUSES_def)

lemma terminal_simps [simp]:
  "terminal Succeeded" "terminal Failed" "terminal Cancelled"
  "\<not> terminal Queued" "\<not> terminal Running" "\<not> terminal Cancelling"
  by (simp_all add: terminal_def TERMINAL_TASK_STATUSES_def)

subsection \<open>The unique partial index \<open>idx_tasks_dedupe_active\<close>\<close>

type_synonym dedupe = "string \<times> string \<times> string \<times> string \<times> string"

definition dedupe_key :: "task \<Rightarrow> dedupe" where
  "dedupe_key t = (project_name t, task_type t, resource_id t,
     coalesce (script_file t) [], coalesce (resource_type t) [])"

text \<open>The integrity of the table: primary key and partial index.\<close>

definition table_ok :: "repo \<Rightarrow> bool" where
  "table_ok r \<longleftrightarrow> distinct (map task_id (tasks r)) \<and> distinct (map dedupe_key (filter active (tasks r)))"

definition active_dedupe_clauses :: "string \<Rightarrow> string \<Rightarrow> string option \<Rightarrow> string option \<Rightarrow> task \<Rightarrow> bool" where
  "active_dedupe_clauses project ttype script rtype t \<longleftrightarrow>
     project_name t = project \<and> task_type t = ttype
     \<and> coalesce (script_file t) [] = opt_or script []
     \<and> coalesce (resource_type t) [] = opt_or rtype []
     \<and> status t \<in> set ACTIVE_TASK_STATUSES"

lemma active_dedupe_clauses_key:
  "active_dedupe_clauses p ty sc rt t \<and> resource_id t = rid \<longleftrightarrow>
     active t \<and> dedupe_key t = (p, ty, rid, coalesce sc [], coalesce rt [])"
  by (auto simp: active_dedupe_clauses_def dedupe_key_def active_def coalesce_empty)

subsection \<open>Row updates\<close>

text \<open>Every write to a row after its insertion leaves its identity alone: primary key,
  index key, dependency and enqueue time.\<close>

definition row_identity :: "task \<Rightarrow> string \<times> dedupe \<times> string option \<times> nat" where
  "row_identity t = (task_id t, dedupe_key t, dependency_task_id t, queued_at t)"

definition keeps_identity :: "(task \<Rightarrow> task) \<Rightarrow> bool" where
  "keeps_identity f \<longleftrightarrow> (\<forall>t. row_identity (f t) = row_identity t)"

lemma keeps_identityD:
  assumes "keeps_identity f"
  shows "task_id (f t) = task_id t" "dedupe_key (f t) = dedupe_key t"
    "dependency_task_id (f t) = dependency_task_id t" "queued_at (f t) = queued_at t"
  using assms by (auto simp: keeps_identity_def row_identity_def)

lemma map_identity_update:
  assumes "keeps_identity f"
  shows "map task_id (update_where P f ts) = map task_id ts"
    and "map row_identity (update_where P f ts) = map row_identity ts"
  using keeps_identityD(1) [OF assms] assms
  by (auto intro!: map_update_where_eq simp: keeps_identity_def)

lemma filter_active_update:
  assumes "keeps_identity f" "\<And>t. P t \<Longrightarrow> active (f t) \<Longrightarrow> active t"
    and "distinct (map dedupe_key (filter active ts))"
  shows "distinct (map dedupe_key (filter active (update_where P f ts)))"
proof -
  have sub: "dedupe_key ` set (filter active (update_where P f us)) \<subseteq> dedupe_key ` set (filter active us)" for us
    using assms(1,2) keeps_identityD(2) [OF assms(1)] by (fastforce simp: set_update_where)
  show ?thesis using assms(3)
  proof (induction ts)
    case (Cons t ts)
    have "dedupe_key t \<notin> dedupe_key ` set (filter active (update_where P f ts))" if "active t"
      using sub [of ts] Cons.prems that by auto
    moreover have "distinct (map dedupe_key (filter active (update_where P f ts)))"
      using Cons by (cases "active t") auto
    ultimately show ?case using assms(2) keeps_identityD(2) [OF assms(1)] by auto
  qed simp
qed

lemma table_ok_update:
  assumes "keeps_identity f" "\<And>t. P t \<Longrightarrow> active (f t) \<Longrightarrow> active t" "table_ok r"
  shows "table_ok (r\<lparr>tasks := update_where P f (tasks r)\<rparr>)"
  using assms filter_active_update [OF assms(1,2)] by (simp add: table_ok_def map_identity_update(1))

lemma table_ok_frame [simp]:
  "table_ok (r\<lparr>terminal_events := evs\<rparr>) = table_ok r"
  "table_ok (r\<lparr>worker_leases := ls\<rparr>) = table_ok r"
  by (simp_all add: table_ok_def)

lemma get_row_frame [simp]:
  "get_row i (r\<lparr>terminal_events := evs\<rparr>) = get_row i r"
  "get_row i (r\<lparr>worker_leases := ls\<rparr>) = get_row i r"
  by (simp_all add: get_row_def)

lemma get_row_SomeD: "get_row i r = Some t \<Longrightarrow> t \<in> set (tasks r) \<and> task_id t = i"
  by (auto simp: get_row_def dest: find_SomeD)

lemma get_row_mem: "table_ok r \<Longrightarrow> t \<in> set (tasks r) \<Longrightarrow> get_row (task_id t) r = Some t"
  unfolding get_row_def table_ok_def using find_key_distinct [of task_id] by blast

lemma find_update_where:
  assumes "keeps_identity f"
  shows "find (has_id i) (update_where P f ts) =
    map_option (\<lambda>t. if P t then f t else t) (find (has_id i) ts)"
  using keeps_identityD(1) [OF assms] by (induction ts) auto

lemma get_row_update:
  assumes "keeps_identity f"
  shows "get_row i (r\<lparr>tasks := update_where P f (tasks r)\<rparr>) =
    map_option (\<lambda>t. if P t then f t else t) (get_row i r)"
  using find_update_where [OF assms] by (simp add: get_row_def)

lemma count_id_where:
  assumes "table_ok r"
  shows "count_where (\<lambda>t. task_id t = i \<and> Q t) (tasks r) =
    (case get_row i r of None \<Rightarrow> 0 | Some t \<Rightarrow> if Q t then 1 else 0)"
proof (cases "get_row i r")
  case None
  then have "\<forall>t \<in> set (tasks r). task_id t \<noteq> i"
    by (auto simp: get_row_def find_None_iff)
  then show ?thesis using None by (simp add: count_where_0_iff)
next
  case (Some t)
  then have t: "t \<in> set (tasks r)" "task_id t = i" by (auto dest: get_row_SomeD)
  have "filter (\<lambda>u. task_id u = i) (tasks r) = [t]"
    using assms t filter_key_distinct [of task_id "tasks r" t] by (simp add: table_ok_def)
  then have "filter (\<lambda>u. task_id u = i \<and> Q u) (tasks r) = filter Q [t]"
    by (metis filter_filter)
  then show ?thesis using Some by (simp add: count_where_def)
qed

subsection \<open>The status machine\<close>

text \<open>The moves the code makes between statuses (docs/adr/0006). The last one is the
  \<open>requeue\<close> of a claimed task.\<close>

inductive status_step :: "status \<Rightarrow> status \<Rightarrow> bool" where
  claim: "status_step Queued Running"
| finish: "status_step Running Succeeded"
| fail: "status_step Running Failed"
| cascade_fail: "status_step Queued Failed"
| cancel_queued: "status_step Queued Cancelled"
| cancel_running: "status_step Running Cancelling"
| cancel_finish: "status_step Cancelling Cancelled"
| cancel_direct: "status_step Running Cancelled"
| requeue: "status_step Running Queued"

code_pred status_step .

inductive_simps status_step_simps [simp]:
  "status_step Queued s" "status_step Running s" "status_step Cancelling s"
  "status_step Succeeded s" "status_step Failed s" "status_step Cancelled s"

lemma status_step_terminal: "status_step s s' \<Longrightarrow> \<not> terminal s"
  by (auto elim: status_step.cases)

definition status_reach :: "status \<Rightarrow> status \<Rightarrow> bool" where
  "status_reach s s' \<longleftrightarrow> s = s' \<or> status_step s s'"

lemma status_reach_terminal: "status_reach s s' \<Longrightarrow> terminal s \<Longrightarrow> s' = s"
  by (auto simp: status_reach_def dest: status_step_terminal)

subsection \<open>Sample tables\<close>

text \<open>Rows for the concrete instances of the theorems: task \<open>i\<close> of project \<open>''p''\<close> renders
  resource \<open>i\<close>, was queued at time \<open>q\<close> and waits for \<open>dep\<close>.\<close>

definition sample_task :: "string \<Rightarrow> status \<Rightarrow> string option \<Rightarrow> nat \<Rightarrow> task" where
  "sample_task i s dep q =
     \<lparr>task_id = i, project_name = ''p'', task_type = ''storyboard'', media_type = ''image'',
      resource_id = i, resource_type = None, script_file = None, payload_json = None, status = s,
      result_json = None, error_message = None, source = ''webui'', dependency_task_id = dep,
      dependency_group = None, dependency_index = None, cancelled_by = None, provider_id = None,
      provider_job_id = None, provider_endpoint = None, submitted_base_url = None,
      execution_checkpoint_json = None, queued_at = q, started_at = None, finished_at = None,
      updated_at = q, user_id = ''u''\<rparr>"

definition sample_repo :: "task list \<Rightarrow> repo" where
  "sample_repo ts = \<lparr>tasks = ts, worker_leases = [], terminal_events = []\<rparr>"

lemmas sample_simps = sample_task_def sample_repo_def table_ok_def get_row_def dedupe_key_def active_iff

end
