(* ===== verification/TaskRepo.thy ===== *)
theory TaskRepo
  imports TaskTable
begin

text \<open>
  The operations of \<open>TaskRepository\<close> (\<open>lib/db/repositories/task_repo.py\<close>), one
  definition per method. A method runs in one transaction: it takes the repository state
  and returns the new one with the method's result; an exception rolls back, so it
  returns the state it was given. \<open>utc_now()\<close> is the argument \<open>now\<close>, \<open>uuid.uuid4().hex\<close>
  the argument \<open>tid\<close> of \<open>enqueue\<close>.

  The two cascades recurse over the dependents of a task. Each nested call follows the
  change of a queued row, so the number of rows bounds the depth: the fuel given to
  \<open>mark_failed\<close>, \<open>cancel_task\<close> and \<open>finalize_cancelled\<close> is the number of rows plus
  one, and \<open>TaskCascade\<close> shows that more fuel changes nothing.
\<close>

definition MAX_ERROR_MESSAGE_LEN :: nat where
  "MAX_ERROR_MESSAGE_LEN = 2000"

subsection \<open>Helpers\<close>

definition cascade_params :: "string \<Rightarrow> string \<Rightarrow> params" where
  "cascade_params dep reason = [(''dependency_task_id'', JStr dep), (''reason'', JStr reason)]"

definition encode_cascade :: "string \<Rightarrow> string \<Rightarrow> string" where
  "encode_cascade dep reason = encoded_text CASCADE_CODE (cascade_params dep reason)"

text \<open>The five rounds of narrowing; \<open>n\<close> counts the rounds left.\<close>

fun narrow_cascade :: "nat \<Rightarrow> string \<Rightarrow> string \<Rightarrow> nat \<Rightarrow> string \<Rightarrow> string" where
  "narrow_cascade 0 dep reason budget encoded = encoded"
| "narrow_cascade (Suc n) dep reason budget encoded =
     (let reason' = bound_reason reason budget;
          encoded' = encode_cascade dep reason'
      in if length encoded' \<le> MAX_ERROR_MESSAGE_LEN \<or> budget = 0 then encoded'
         else narrow_cascade n dep reason' (budget - (length encoded' - MAX_ERROR_MESSAGE_LEN)) encoded')"

definition encode_bounded_cascade_failure :: "string \<Rightarrow> string \<Rightarrow> string" where
  "encode_bounded_cascade_failure dep reason =
     (let root = collapse_cascade_reason reason; encoded = encode_cascade dep root
      in if length encoded \<le> MAX_ERROR_MESSAGE_LEN then encoded
         else narrow_cascade 5 dep root
           (MAX_ERROR_MESSAGE_LEN - length (encode_cascade dep [])) encoded)"

definition json_loads_default :: "string option \<Rightarrow> json \<Rightarrow> json" where
  "json_loads_default v d =
     (case v of None \<Rightarrow> d
      | Some s \<Rightarrow> if s = [] then d else (case json_loads s of None \<Rightarrow> d | Some j \<Rightarrow> j))"

text \<open>\<open>_task_to_dict\<close>: the columns, with payload and result decoded.\<close>

record task_dict =
  td_row :: task
  td_payload :: json
  td_result :: json

definition task_to_dict :: "task \<Rightarrow> task_dict" where
  "task_to_dict t = \<lparr>td_row = t, td_payload = json_loads_default (payload_json t) (JObj []),
     td_result = json_loads_default (result_json t) (JObj [])\<rparr>"

definition record_terminal_event :: "string \<Rightarrow> string \<Rightarrow> status \<Rightarrow> string \<Rightarrow> repo \<Rightarrow> repo" where
  "record_terminal_event tid project st ttype r =
     (if st \<in> set TERMINAL_TASK_STATUSES
      then r\<lparr>terminal_events := terminal_events r @
        [\<lparr>ev_task_id = tid, ev_project_name = project, ev_status = st, ev_task_type = ttype\<rparr>]\<rparr>
      else r)"

text \<open>Reload the row and record its terminal event, as every terminal method does after
  its UPDATE.\<close>

definition record_row_event :: "string \<Rightarrow> status \<Rightarrow> repo \<Rightarrow> repo" where
  "record_row_event tid st r =
     (case get_row tid r of None \<Rightarrow> r
      | Some t \<Rightarrow> record_terminal_event tid (project_name t) st (task_type t) r)"

subsection \<open>Enqueueing\<close>

record enqueue_request =
  rq_project_name :: string
  rq_task_type :: string
  rq_media_type :: string
  rq_resource_id :: string
  rq_payload :: "params option"
  rq_script_file :: "string option"
  rq_resource_type :: "string option"
  rq_source :: string
  rq_dependency_task_id :: "string option"
  rq_dependency_group :: "string option"
  rq_dependency_index :: "int option"
  rq_user_id :: string
  rq_provider_id :: "string option"

record enqueue_result =
  er_task_id :: string
  er_status :: status
  er_deduped :: bool
  er_existing_task_id :: "string option"
  er_existing_payload :: "json option"

definition payload_or_empty :: "params option \<Rightarrow> json" where
  "payload_or_empty p = (case p of None \<Rightarrow> JObj [] | Some d \<Rightarrow> JObj d)"

definition new_task :: "nat \<Rightarrow> string \<Rightarrow> enqueue_request \<Rightarrow> task" where
  "new_task now tid q =
     \<lparr>task_id = tid, project_name = rq_project_name q, task_type = rq_task_type q,
      media_type = rq_media_type q, resource_id = rq_resource_id q,
      resource_type = rq_resource_type q, script_file = rq_script_file q,
      payload_json = Some (json_dumps (payload_or_empty (rq_payload q))), status = Queued,
      result_json = None, error_message = None, source = rq_source q,
      dependency_task_id = rq_dependency_task_id q, dependency_group = rq_dependency_group q,
      dependency_index = rq_dependency_index q, cancelled_by = None,
      provider_id = rq_provider_id q, provider_job_id = None, provider_endpoint = None,
      submitted_base_url = None, execution_checkpoint_json = None, queued_at = now,
      started_at = None, finished_at = None, updated_at = now, user_id = rq_user_id q\<rparr>"

text \<open>The INSERT fails on the primary key or on the partial index.\<close>

definition insert_violates :: "task \<Rightarrow> repo \<Rightarrow> bool" where
  "insert_violates t r \<longleftrightarrow>
     list_ex (has_id (task_id t)) (tasks r) \<or>
     (active t \<and> list_ex (\<lambda>u. active u \<and> dedupe_key u = dedupe_key t) (tasks r))"

definition enqueue :: "nat \<Rightarrow> string \<Rightarrow> enqueue_request \<Rightarrow> repo \<Rightarrow> repo \<times> enqueue_result res" where
  "enqueue now tid q r =
     (let t = new_task now tid q in
      if insert_violates t r then
        (r, case sort_key (\<lambda>u. - int (queued_at u))
              (filter (\<lambda>u. active_dedupe_clauses (rq_project_name q) (rq_task_type q)
                  (rq_script_file q) (rq_resource_type q) u \<and> resource_id u = rq_resource_id q)
                (tasks r)) of
            [] \<Rightarrow> Inl IntegrityError
          | e # _ \<Rightarrow> Inr \<lparr>er_task_id = task_id e, er_status = status e, er_deduped = True,
              er_existing_task_id = Some (task_id e),
              er_existing_payload = Some (json_loads_default (payload_json e) (JObj []))\<rparr>)
      else (r\<lparr>tasks := tasks r @ [t]\<rparr>,
            Inr \<lparr>er_task_id = tid, er_status = Queued, er_deduped = False,
              er_existing_task_id = None, er_existing_payload = None\<rparr>))"

definition get_active_tasks_for_resources ::
  "string \<Rightarrow> string \<Rightarrow> string list \<Rightarrow> string option \<Rightarrow> string option \<Rightarrow> repo \<Rightarrow> task_dict list" where
  "get_active_tasks_for_resources project ttype rids script rtype r =
     (if rids = [] then []
      else map task_to_dict (sort_key (\<lambda>t. (queued_at t, task_id t))
        (filter (\<lambda>t. active_dedupe_clauses project ttype script rtype t \<and> resource_id t \<in> set rids)
          (tasks r))))"

subsection \<open>Claiming\<close>

definition provider_allowed :: "string list \<Rightarrow> task \<Rightarrow> bool" where
  "provider_allowed full t \<longleftrightarrow>
     full = [] \<or> task_type t = ''reference_video''
     \<or> (case provider_id t of None \<Rightarrow> True | Some p \<Rightarrow> p \<notin> set full)"

definition dependency_ready :: "repo \<Rightarrow> task \<Rightarrow> bool" where
  "dependency_ready r t \<longleftrightarrow>
     (case dependency_task_id t of None \<Rightarrow> True
      | Some d \<Rightarrow> (case get_row d r of None \<Rightarrow> False | Some u \<Rightarrow> status u = Succeeded))"

definition claimable :: "string \<Rightarrow> string list \<Rightarrow> string list \<Rightarrow> repo \<Rightarrow> task \<Rightarrow> bool" where
  "claimable media full excluded r t \<longleftrightarrow>
     status t = Queued \<and> media_type t = media \<and> provider_allowed full t
     \<and> task_id t \<notin> set excluded \<and> dependency_ready r t"

text \<open>The SELECT and the guarded UPDATE of \<open>claim_next\<close> as two steps: another worker may
  act between them.\<close>

definition claim_select :: "string \<Rightarrow> string list \<Rightarrow> string list \<Rightarrow> repo \<Rightarrow> string option" where
  "claim_select media full excluded r =
     (case sort_key queued_at (filter (claimable media full excluded r) (tasks r)) of
        [] \<Rightarrow> None | t # _ \<Rightarrow> Some (task_id t))"

definition run_row :: "nat \<Rightarrow> task \<Rightarrow> task" where
  "run_row now t = t\<lparr>status := Running, started_at := Some now, updated_at := now\<rparr>"

definition claim_update :: "nat \<Rightarrow> string \<Rightarrow> repo \<Rightarrow> repo \<times> task_dict option" where
  "claim_update now tid r =
     (let P = (\<lambda>t. task_id t = tid \<and> status t = Queued);
          r' = r\<lparr>tasks := update_where P (run_row now) (tasks r)\<rparr>
      in if count_where P (tasks r) = 0 then (r, None)
         else (r', map_option task_to_dict (get_row tid r')))"

definition claim_next ::
  "nat \<Rightarrow> string \<Rightarrow> string list \<Rightarrow> string list \<Rightarrow> repo \<Rightarrow> repo \<times> task_dict option" where
  "claim_next now media full excluded r =
     (case claim_select media full excluded r of
        None \<Rightarrow> (r, None) | Some tid \<Rightarrow> claim_update now tid r)"

subsection \<open>Finishing\<close>

definition mark_succeeded :: "nat \<Rightarrow> string \<Rightarrow> params option \<Rightarrow> repo \<Rightarrow> repo \<times> nat" where
  "mark_succeeded now tid result r =
     (let P = (\<lambda>t. task_id t = tid \<and> status t = Running); n = count_where P (tasks r) in
      if n = 0 then (r, 0)
      else (record_row_event tid Succeeded (r\<lparr>tasks := update_where P
              (\<lambda>t. t\<lparr>status := Succeeded, result_json := Some (json_dumps (payload_or_empty result)),
                 error_message := None, finished_at := Some now, updated_at := now\<rparr>) (tasks r)\<rparr>), n))"

definition fail_row :: "nat \<Rightarrow> string \<Rightarrow> task \<Rightarrow> task" where
  "fail_row now msg t = t\<lparr>status := Failed, error_message := Some (bound_reason msg MAX_ERROR_MESSAGE_LEN),
     finished_at := Some now, updated_at := now\<rparr>"

definition mark_failed_when :: "status \<Rightarrow> nat \<Rightarrow> string \<Rightarrow> string \<Rightarrow> repo \<Rightarrow> repo \<times> nat" where
  "mark_failed_when s now tid msg r =
     (let P = (\<lambda>t. task_id t = tid \<and> status t = s); n = count_where P (tasks r) in
      if n = 0 then (r, 0)
      else (record_row_event tid Failed (r\<lparr>tasks := update_where P (fail_row now msg) (tasks r)\<rparr>), n))"

definition mark_failed_running :: "nat \<Rightarrow> string \<Rightarrow> string \<Rightarrow> repo \<Rightarrow> repo \<times> nat" where
  "mark_failed_running = mark_failed_when Running"

definition mark_failed_queued_dep :: "nat \<Rightarrow> string \<Rightarrow> string \<Rightarrow> repo \<Rightarrow> repo \<times> nat" where
  "mark_failed_queued_dep = mark_failed_when Queued"

definition queued_dependents :: "string \<Rightarrow> repo \<Rightarrow> task list" where
  "queued_dependents tid r =
     sort_key queued_at (filter (\<lambda>t. dependency_task_id t = Some tid \<and> status t = Queued) (tasks r))"

text \<open>One step of the cascade's loop, with the recursive call \<open>rec\<close>.\<close>

definition cascade_failed_one ::
  "(string \<Rightarrow> repo \<times> nat \<Rightarrow> repo \<times> nat) \<Rightarrow> nat \<Rightarrow> string \<Rightarrow> string \<Rightarrow> string \<Rightarrow> repo \<times> nat \<Rightarrow> repo \<times> nat" where
  "cascade_failed_one rec now tid msg dep st =
     (case mark_failed_queued_dep now dep (encode_bounded_cascade_failure tid msg) (fst st) of
        (r', n) \<Rightarrow> if n = 0 then st else rec dep (r', snd st + n))"

fun cascade_failed_queued :: "nat \<Rightarrow> nat \<Rightarrow> string \<Rightarrow> string \<Rightarrow> repo \<times> nat \<Rightarrow> repo \<times> nat" where
  "cascade_failed_queued 0 now msg tid st = st"
| "cascade_failed_queued (Suc fuel) now msg tid st =
     fold (\<lambda>dep. cascade_failed_one (cascade_failed_queued fuel now msg) now tid msg dep)
       (map task_id (queued_dependents tid (fst st))) st"

definition mark_failed :: "nat \<Rightarrow> string \<Rightarrow> string \<Rightarrow> repo \<Rightarrow> repo \<times> nat" where
  "mark_failed now tid msg r =
     (case mark_failed_running now tid msg r of
        (r', n) \<Rightarrow> if n = 0 then (r, 0)
          else (fst (cascade_failed_queued (Suc (length (tasks r'))) now msg tid (r', 0)), n))"

subsection \<open>Cancelling\<close>

type_synonym task_brief = "string \<times> string \<times> string"

definition task_summary :: "task \<Rightarrow> task_brief" where
  "task_summary t = (task_id t, task_type t, resource_id t)"

definition bind_list :: "('a \<Rightarrow> 'b list res) \<Rightarrow> 'a list \<Rightarrow> 'b list res" where
  "bind_list f xs = fold (\<lambda>x acc. bind_res acc (\<lambda>ys. bind_res (f x) (\<lambda>zs. Inr (ys @ zs)))) xs (Inr [])"

text \<open>A dependency cycle among queued tasks would recurse forever; Python then raises.\<close>

fun collect_queued_dependents :: "nat \<Rightarrow> repo \<Rightarrow> string \<Rightarrow> task_brief list res" where
  "collect_queued_dependents 0 r tid = Inl RecursionError"
| "collect_queued_dependents (Suc fuel) r tid =
     bind_list (\<lambda>t. bind_res (collect_queued_dependents fuel r (task_id t))
         (\<lambda>below. Inr (task_summary t # below)))
       (queued_dependents tid r)"

definition get_cancel_preview :: "string \<Rightarrow> repo \<Rightarrow> (task_brief \<times> status \<times> task_brief list) res" where
  "get_cancel_preview tid r =
     (case get_row tid r of None \<Rightarrow> Inl (ValueError tid)
      | Some t \<Rightarrow> bind_res (collect_queued_dependents (Suc (length (tasks r))) r tid)
          (\<lambda>below. Inr (task_summary t, status t, below)))"

text \<open>The three lists the cancel methods pass down by reference.\<close>

record cancel_lists =
  cl_cancelled :: "task_dict list"
  cl_cancelling :: "string list"
  cl_skipped :: "task_dict list"

definition no_lists :: cancel_lists where
  "no_lists = \<lparr>cl_cancelled = [], cl_cancelling = [], cl_skipped = []\<rparr>"

type_synonym cstate = "repo \<times> cancel_lists"

definition cancellable :: "task \<Rightarrow> bool" where
  "cancellable t \<longleftrightarrow> status t \<in> {Queued, Cancelling, Running}"

definition cancel_row :: "nat \<Rightarrow> string \<Rightarrow> task \<Rightarrow> task" where
  "cancel_row now by t = t\<lparr>status := Cancelled, cancelled_by := Some (coalesce (cancelled_by t) by),
     finished_at := Some now, updated_at := now\<rparr>"

definition cancel_update :: "nat \<Rightarrow> string \<Rightarrow> string \<Rightarrow> repo \<Rightarrow> repo \<times> nat" where
  "cancel_update now tid by r =
     (let P = (\<lambda>t. task_id t = tid \<and> cancellable t); n = count_where P (tasks r) in
      if n = 0 then (r, 0)
      else (record_row_event tid Cancelled (r\<lparr>tasks := update_where P (cancel_row now by) (tasks r)\<rparr>), n))"

text \<open>\<open>_mark_cancelled\<close>, with the cascade it starts as the argument \<open>rec\<close> (every caller
  passes \<open>cascade=True\<close>; a caller without response lists ignores them).\<close>

definition mark_cancelled_with ::
  "(string \<Rightarrow> cstate \<Rightarrow> cstate) \<Rightarrow> nat \<Rightarrow> string \<Rightarrow> string \<Rightarrow> cstate \<Rightarrow> cstate \<times> task_dict option" where
  "mark_cancelled_with rec now tid by st =
     (case cancel_update now tid by (fst st) of
        (r', n) \<Rightarrow>
          if n = 0 then (st, None)
          else
            (let data = map_option task_to_dict (get_row tid r');
                 cl' = (case data of None \<Rightarrow> snd st
                   | Some d \<Rightarrow> (snd st)\<lparr>cl_cancelled := cl_cancelled (snd st) @ [d]\<rparr>)
             in (rec tid (r', cl'), data)))"

definition cancelling_row :: "nat \<Rightarrow> string \<Rightarrow> task \<Rightarrow> task" where
  "cancelling_row now by t = t\<lparr>status := Cancelling, cancelled_by := Some by, updated_at := now\<rparr>"

definition mark_cancelling :: "nat \<Rightarrow> string \<Rightarrow> string \<Rightarrow> repo \<Rightarrow> repo \<times> nat" where
  "mark_cancelling now tid by r =
     (let P = (\<lambda>t. task_id t = tid \<and> status t = Running)
      in (r\<lparr>tasks := update_where P (cancelling_row now by) (tasks r)\<rparr>,
          count_where P (tasks r)))"

text \<open>
  \<open>_dispatch_cancel\<close>. The argument \<open>seen\<close> is the status the caller's SELECT saw; the
  guarded UPDATE works on the current row, and when it hits nothing the row is read again.
\<close>

definition dispatch_cancel_with ::
  "(string \<Rightarrow> cstate \<Rightarrow> cstate) \<Rightarrow> nat \<Rightarrow> status \<Rightarrow> string \<Rightarrow> string \<Rightarrow> cstate \<Rightarrow> cstate" where
  "dispatch_cancel_with rec now seen tid by st =
     (case seen of
        Queued \<Rightarrow> fst (mark_cancelled_with rec now tid by st)
      | Running \<Rightarrow>
          (case mark_cancelling now tid by (fst st) of
             (r', n) \<Rightarrow>
               if n > 0 then (r', (snd st)\<lparr>cl_cancelling := cl_cancelling (snd st) @ [tid]\<rparr>)
               else (case get_row tid (fst st) of None \<Rightarrow> st
                 | Some t \<Rightarrow>
                     if status t = Cancelling
                     then (fst st, (snd st)\<lparr>cl_cancelling := cl_cancelling (snd st) @ [tid]\<rparr>)
                     else if status t \<in> {Succeeded, Failed, Cancelled}
                     then (fst st, (snd st)\<lparr>cl_skipped := cl_skipped (snd st) @ [task_to_dict t]\<rparr>)
                     else st))
      | Cancelling \<Rightarrow> st
      | _ \<Rightarrow>
          (case get_row tid (fst st) of None \<Rightarrow> st
           | Some t \<Rightarrow> (fst st, (snd st)\<lparr>cl_skipped := cl_skipped (snd st) @ [task_to_dict t]\<rparr>)))"

definition dependents :: "string \<Rightarrow> repo \<Rightarrow> task list" where
  "dependents tid r = sort_key queued_at (filter (\<lambda>t. dependency_task_id t = Some tid) (tasks r))"

text \<open>The loop of \<open>_cascade_cancel_dependents\<close> hands ORM objects to \<open>_dispatch_cancel\<close>. They
  live in the session, whose UPDATEs refresh them, so the status seen is the current one.\<close>

definition dispatch_row ::
  "(string \<Rightarrow> cstate \<Rightarrow> cstate) \<Rightarrow> nat \<Rightarrow> string \<Rightarrow> cstate \<Rightarrow> cstate" where
  "dispatch_row rec now d st =
     (case get_row d (fst st) of None \<Rightarrow> st
      | Some t \<Rightarrow> dispatch_cancel_with rec now (status t) d ''cascade'' st)"

fun cascade_cancel_dependents :: "nat \<Rightarrow> nat \<Rightarrow> string \<Rightarrow> cstate \<Rightarrow> cstate" where
  "cascade_cancel_dependents 0 now tid st = st"
| "cascade_cancel_dependents (Suc fuel) now tid st =
     fold (dispatch_row (cascade_cancel_dependents fuel now) now)
       (map task_id (dependents tid (fst st))) st"

definition mark_cancelled :: "nat \<Rightarrow> string \<Rightarrow> string \<Rightarrow> cstate \<Rightarrow> cstate \<times> task_dict option" where
  "mark_cancelled now tid by st =
     mark_cancelled_with (cascade_cancel_dependents (Suc (length (tasks (fst st)))) now) now tid by st"

definition dispatch_cancel :: "nat \<Rightarrow> status \<Rightarrow> string \<Rightarrow> string \<Rightarrow> cstate \<Rightarrow> cstate" where
  "dispatch_cancel now seen tid by st =
     dispatch_cancel_with (cascade_cancel_dependents (Suc (length (tasks (fst st)))) now) now seen tid by st"

definition cancel_task :: "nat \<Rightarrow> string \<Rightarrow> repo \<Rightarrow> repo \<times> cancel_lists res" where
  "cancel_task now tid r =
     (case get_row tid r of None \<Rightarrow> (r, Inl (ValueError tid))
      | Some t \<Rightarrow> (case dispatch_cancel now (status t) tid ''user'' (r, no_lists) of
          (r', cl) \<Rightarrow> (r', Inr cl)))"

definition finalize_cancelled :: "nat \<Rightarrow> string \<Rightarrow> string \<Rightarrow> repo \<Rightarrow> repo \<times> nat \<times> string list" where
  "finalize_cancelled now tid by r =
     (case mark_cancelled now tid by (r, no_lists) of
        ((r', cl), data) \<Rightarrow> (r', (case data of None \<Rightarrow> 0 | Some _ \<Rightarrow> 1), cl_cancelling cl))"

definition get_cancel_all_preview :: "string \<Rightarrow> repo \<Rightarrow> nat" where
  "get_cancel_all_preview project r =
     count_where (\<lambda>t. project_name t = project \<and> status t = Queued) (tasks r)"

definition cancel_all_queued :: "nat \<Rightarrow> string \<Rightarrow> repo \<Rightarrow> repo \<times> nat \<times> nat" where
  "cancel_all_queued now project r =
     (let P = (\<lambda>t. project_name t = project \<and> status t = Queued);
          ids = map task_id (filter P (tasks r));
          n = count_where P (tasks r);
          r1 = r\<lparr>tasks := update_where P
            (\<lambda>t. t\<lparr>status := Cancelled, cancelled_by := Some ''user'', finished_at := Some now,
               updated_at := now\<rparr>) (tasks r)\<rparr>;
          hit = filter (\<lambda>t. task_id t \<in> set ids \<and> status t = Cancelled) (tasks r1)
      in (fold (\<lambda>t. record_terminal_event (task_id t) project Cancelled (task_type t)) hit r1,
          n, length ids - n))"

subsection \<open>Execution metadata\<close>

definition set_job_fields :: "nat \<Rightarrow> string \<Rightarrow> string option \<Rightarrow> string option \<Rightarrow> task \<Rightarrow> task" where
  "set_job_fields now job endpoint base_url t =
     (let t1 = t\<lparr>provider_job_id := Some job, updated_at := now\<rparr>;
          t2 = (case endpoint of None \<Rightarrow> t1 | Some e \<Rightarrow> t1\<lparr>provider_endpoint := Some e\<rparr>)
      in (case base_url of None \<Rightarrow> t2 | Some u \<Rightarrow> t2\<lparr>submitted_base_url := Some u\<rparr>))"

definition persist_provider_job_id ::
  "nat \<Rightarrow> string \<Rightarrow> string \<Rightarrow> string option \<Rightarrow> string option \<Rightarrow> repo \<Rightarrow> repo" where
  "persist_provider_job_id now tid job endpoint base_url r =
     r\<lparr>tasks := update_where (has_id tid) (set_job_fields now job endpoint base_url) (tasks r)\<rparr>"

definition checkpoint_guard :: "string \<Rightarrow> task \<Rightarrow> bool" where
  "checkpoint_guard tid t \<longleftrightarrow> task_id t = tid \<and> task_type t \<in> {''video'', ''reference_video''}
     \<and> status t = Running \<and> execution_checkpoint_json t = None \<and> provider_job_id t = None"

definition persist_execution_checkpoint :: "nat \<Rightarrow> string \<Rightarrow> string \<Rightarrow> string \<Rightarrow> repo \<Rightarrow> repo \<times> unit res" where
  "persist_execution_checkpoint now tid checkpoint provider r =
     (if count_where (checkpoint_guard tid) (tasks r) \<noteq> 1 then (r, Inl (ValueError tid))
      else (r\<lparr>tasks := update_where (checkpoint_guard tid)
              (\<lambda>t. t\<lparr>execution_checkpoint_json := Some checkpoint, provider_id := Some provider,
                 updated_at := now\<rparr>) (tasks r)\<rparr>, Inr ()))"

definition merge_payload_field :: "nat \<Rightarrow> string \<Rightarrow> string \<Rightarrow> json \<Rightarrow> bool \<Rightarrow> repo \<Rightarrow> repo \<times> unit res" where
  "merge_payload_field now tid key v raise_if_missing r =
     (case get_row tid r of
        None \<Rightarrow> (r, if raise_if_missing then Inl (ValueError tid) else Inr ())
      | Some t \<Rightarrow>
          (let d = (case json_loads_default (payload_json t) (JObj []) of JObj kvs \<Rightarrow> kvs | _ \<Rightarrow> []) in
           (r\<lparr>tasks := update_where (has_id tid)
              (\<lambda>t. t\<lparr>payload_json := Some (json_dumps (JObj (dict_put key v d))), updated_at := now\<rparr>)
              (tasks r)\<rparr>, Inr ())))"

definition persist_api_call_id :: "nat \<Rightarrow> string \<Rightarrow> int \<Rightarrow> repo \<Rightarrow> repo \<times> unit res" where
  "persist_api_call_id now tid call_id = merge_payload_field now tid ''api_call_id'' (JInt call_id) True"

definition persist_execution_provider_id :: "nat \<Rightarrow> string \<Rightarrow> string \<Rightarrow> repo \<Rightarrow> repo" where
  "persist_execution_provider_id now tid provider r =
     r\<lparr>tasks := update_where (has_id tid) (\<lambda>t. t\<lparr>provider_id := Some provider, updated_at := now\<rparr>) (tasks r)\<rparr>"

subsection \<open>Recovery and queries\<close>

definition list_orphan_tasks_on_start :: "repo \<Rightarrow> task_dict list" where
  "list_orphan_tasks_on_start r =
     map task_to_dict (sort_key updated_at (filter (\<lambda>t. status t \<in> {Running, Cancelling}) (tasks r)))"

definition requeue_running :: "nat \<Rightarrow> int \<Rightarrow> repo \<Rightarrow> repo \<times> nat" where
  "requeue_running now limit r =
     (let lim = nat (max 1 (min 5000 limit));
          ids = map task_id (take lim (sort_key updated_at (filter (\<lambda>t. status t = Running) (tasks r))))
      in if ids = [] then (r, 0)
         else (let r1 = r\<lparr>tasks := update_where (\<lambda>t. task_id t \<in> set ids \<and> status t = Running)
                     (\<lambda>t. t\<lparr>status := Queued, started_at := None, finished_at := None,
                        updated_at := now, result_json := None, error_message := None\<rparr>) (tasks r)\<rparr>
               in (r1, length (filter (\<lambda>t. task_id t \<in> set ids \<and> status t = Queued) (tasks r1)))))"

text \<open>\<open>_requeue_single_task\<close> of the worker is a guarded UPDATE of its own.\<close>

definition requeue_single_task :: "nat \<Rightarrow> string \<Rightarrow> repo \<Rightarrow> repo \<times> bool" where
  "requeue_single_task now tid r =
     (let P = (\<lambda>t. task_id t = tid \<and> status t = Running)
      in (r\<lparr>tasks := update_where P
            (\<lambda>t. t\<lparr>status := Queued, started_at := None, updated_at := now\<rparr>) (tasks r)\<rparr>,
          count_where P (tasks r) \<noteq> 0))"

definition get :: "string \<Rightarrow> repo \<Rightarrow> task_dict option" where
  "get tid r = map_option task_to_dict (get_row tid r)"

record task_page =
  tp_items :: "task_dict list"
  tp_total :: nat
  tp_page :: int
  tp_page_size :: int

definition opt_filter :: "string option \<Rightarrow> string \<Rightarrow> bool" where
  "opt_filter f v \<longleftrightarrow> (case f of None \<Rightarrow> True | Some s \<Rightarrow> s = [] \<or> v = s)"

definition list_tasks ::
  "string option \<Rightarrow> string option \<Rightarrow> string option \<Rightarrow> string option \<Rightarrow> int \<Rightarrow> int \<Rightarrow> repo \<Rightarrow> task_page" where
  "list_tasks project st ttype src page page_size r =
     (let page' = max 1 page; size' = max 1 (min 500 page_size); off = (page' - 1) * size';
          rows = filter (\<lambda>t. opt_filter project (project_name t) \<and> opt_filter st (status_str (status t))
            \<and> opt_filter ttype (task_type t) \<and> opt_filter src (source t)) (tasks r)
      in \<lparr>tp_items = map task_to_dict (take (nat size') (drop (nat off)
            (sort_key (\<lambda>t. (- int (updated_at t), - int (queued_at t))) rows))),
          tp_total = length rows, tp_page = page', tp_page_size = size'\<rparr>)"

record stats =
  st_queued :: nat
  st_running :: nat
  st_cancelling :: nat
  st_succeeded :: nat
  st_failed :: nat
  st_cancelled :: nat
  st_total :: nat

definition get_stats :: "string option \<Rightarrow> repo \<Rightarrow> stats" where
  "get_stats project r =
     (let rows = filter (\<lambda>t. opt_filter project (project_name t)) (tasks r);
          cnt = (\<lambda>s. count_where (\<lambda>t. status t = s) rows)
      in \<lparr>st_queued = cnt Queued, st_running = cnt Running, st_cancelling = cnt Cancelling,
          st_succeeded = cnt Succeeded, st_failed = cnt Failed, st_cancelled = cnt Cancelled,
          st_total = sum_list (map cnt [Queued, Running, Cancelling, Succeeded, Failed, Cancelled])\<rparr>)"

subsection \<open>The worker lease\<close>

text \<open>The primary key of \<open>worker_lease\<close> is its name; the clock reading is \<open>epoch\<close>.\<close>

definition acquire_or_renew_lease :: "rat \<Rightarrow> nat \<Rightarrow> string \<Rightarrow> string \<Rightarrow> rat \<Rightarrow> repo \<Rightarrow> repo \<times> bool" where
  "acquire_or_renew_lease epoch now nm owner ttl r =
     (let until = epoch + max 1 ttl;
          P = (\<lambda>l. lease_name l = nm \<and> (lease_owner l = owner \<or> lease_until l \<le> epoch))
      in if count_where P (worker_leases r) > 0
         then (r\<lparr>worker_leases := update_where P
                 (\<lambda>l. l\<lparr>lease_owner := owner, lease_until := until, lease_updated_at := now\<rparr>)
                 (worker_leases r)\<rparr>, True)
         else if list_ex (\<lambda>l. lease_name l = nm) (worker_leases r) then (r, False)
         else (r\<lparr>worker_leases := worker_leases r @
                 [\<lparr>lease_name = nm, lease_owner = owner, lease_until = until, lease_updated_at = now\<rparr>]\<rparr>,
               True))"

definition release_lease :: "string \<Rightarrow> string \<Rightarrow> repo \<Rightarrow> repo" where
  "release_lease nm owner r =
     r\<lparr>worker_leases := filter (\<lambda>l. \<not> (lease_name l = nm \<and> lease_owner l = owner)) (worker_leases r)\<rparr>"

definition lease_row :: "string \<Rightarrow> repo \<Rightarrow> worker_lease option" where
  "lease_row nm r = find (\<lambda>l. lease_name l = nm) (worker_leases r)"

definition is_worker_online :: "rat \<Rightarrow> string \<Rightarrow> repo \<Rightarrow> bool" where
  "is_worker_online epoch nm r =
     (case lease_row nm r of None \<Rightarrow> False | Some l \<Rightarrow> epoch < lease_until l)"

text \<open>The row and its \<open>is_online\<close> flag.\<close>

definition get_worker_lease :: "rat \<Rightarrow> string \<Rightarrow> repo \<Rightarrow> (worker_lease \<times> bool) option" where
  "get_worker_lease epoch nm r = map_option (\<lambda>l. (l, epoch < lease_until l)) (lease_row nm r)"

end
