(* ===== verification/TaskSteps.thy ===== *)
theory TaskSteps
  imports TaskRepo
begin

text \<open>
  What every operation of the repository does to the rows already in the table: it keeps
  their identity, moves their status along \<^const>\<open>status_step\<close> and leaves the outcome of a
  finished task and a checkpoint once written alone. The locale \<open>row_op\<close>
  states this contract for one operation and derives from it what the rest of the program
  relies on: the table stays well formed, a terminal status is final, no row appears or
  disappears. Each operation interprets it.
\<close>

text \<open>What a finished task reports.\<close>

definition outcome :: "task \<Rightarrow> status \<times> string option \<times> string option \<times> nat option \<times> string option" where
  "outcome t = (status t, result_json t, error_message t, finished_at t, cancelled_by t)"

definition row_evolves :: "task \<Rightarrow> task \<Rightarrow> bool" where
  "row_evolves t t' \<longleftrightarrow> row_identity t' = row_identity t \<and> status_step\<^sup>*\<^sup>* (status t) (status t')
     \<and> (terminal (status t) \<longrightarrow> outcome t' = outcome t)
     \<and> (execution_checkpoint_json t \<noteq> None \<longrightarrow> execution_checkpoint_json t' = execution_checkpoint_json t)"

definition rows_evolve :: "repo \<Rightarrow> repo \<Rightarrow> bool" where
  "rows_evolve r r' \<longleftrightarrow> list_all2 row_evolves (tasks r) (tasks r')"

lemma row_evolves_refl [simp]: "row_evolves t t"
  by (simp add: row_evolves_def)

lemma row_evolves_trans: "row_evolves t u \<Longrightarrow> row_evolves u v \<Longrightarrow> row_evolves t v"
  by (auto simp: row_evolves_def outcome_def intro: rtranclp_trans)

lemma rows_evolve_refl [simp]: "rows_evolve r r"
  by (simp add: rows_evolve_def list_all2_same)

lemma rows_evolve_trans: "rows_evolve r s \<Longrightarrow> rows_evolve s t \<Longrightarrow> rows_evolve r t"
  unfolding rows_evolve_def using list_all2_trans [of row_evolves row_evolves row_evolves] row_evolves_trans
  by blast

lemma terminal_final: "status_step\<^sup>*\<^sup>* s s' \<Longrightarrow> terminal s \<Longrightarrow> s' = s"
  by (erule converse_rtranclpE) (auto dest: status_step_terminal)

lemma row_evolves_active: "row_evolves t t' \<Longrightarrow> active t' \<Longrightarrow> active t"
  by (auto simp: row_evolves_def active_iff dest: terminal_final)

lemma rows_evolve_update:
  assumes "\<And>t. t \<in> set (tasks r) \<Longrightarrow> P t \<Longrightarrow> row_evolves t (f t)"
  shows "rows_evolve r (r\<lparr>tasks := update_where P f (tasks r)\<rparr>)"
  using assms by (simp add: rows_evolve_def update_where_def list_all2_map2 list_all2_same)

lemma rows_evolve_tasks: "tasks r' = tasks r \<Longrightarrow> rows_evolve r r'"
  by (simp add: rows_evolve_def list_all2_same)

lemma rows_evolve_frame [simp]:
  "rows_evolve r (r'\<lparr>terminal_events := evs\<rparr>) = rows_evolve r r'"
  "rows_evolve r (r'\<lparr>worker_leases := ls\<rparr>) = rows_evolve r r'"
  by (simp_all add: rows_evolve_def)

lemma tasks_record_event [simp]:
  "tasks (record_terminal_event tid p s ty r) = tasks r"
  "tasks (record_row_event tid s r) = tasks r"
  by (simp_all add: record_terminal_event_def record_row_event_def split: option.split)

lemma get_row_record_event [simp]:
  "get_row i (record_row_event tid s r) = get_row i r"
  "get_row i (record_terminal_event tid p s ty r) = get_row i r"
  by (simp_all add: get_row_def)

lemma rows_evolve_record_event [simp]:
  "rows_evolve r (record_row_event tid s r') = rows_evolve r r'"
  by (simp add: rows_evolve_def)

lemma row_evolvesI:
  assumes "row_identity t' = row_identity t" "status_step (status t) (status t') \<or> status t' = status t"
    "terminal (status t) \<Longrightarrow> outcome t' = outcome t"
    "execution_checkpoint_json t \<noteq> None \<Longrightarrow> execution_checkpoint_json t' = execution_checkpoint_json t"
  shows "row_evolves t t'"
  using assms by (auto simp: row_evolves_def)

lemmas row_identity_simps = row_identity_def dedupe_key_def outcome_def

subsection \<open>What follows for the table\<close>

lemma rows_evolve_identities:
  "rows_evolve r r' \<Longrightarrow> map row_identity (tasks r') = map row_identity (tasks r)"
  by (auto simp: rows_evolve_def row_evolves_def list_all2_conv_all_nth intro!: nth_equalityI)

lemma rows_evolve_ids:
  assumes "rows_evolve r r'"
  shows "map task_id (tasks r') = map task_id (tasks r)"
proof -
  have "map task_id ts = map fst (map row_identity ts)" for ts
    by (simp add: row_identity_def)
  then show ?thesis using rows_evolve_identities [OF assms] by metis
qed

lemma rows_evolve_row:
  assumes "rows_evolve r r'" "get_row i r = Some t"
  shows "\<exists>t'. get_row i r' = Some t' \<and> row_evolves t t'"
proof -
  have "find (has_id i) ts = Some t \<Longrightarrow> list_all2 row_evolves ts us \<Longrightarrow>
      \<exists>t'. find (has_id i) us = Some t' \<and> row_evolves t t'" for ts us
  proof (induction ts arbitrary: us)
    case (Cons x xs)
    then obtain y ys where us: "us = y # ys" "row_evolves x y" "list_all2 row_evolves xs ys"
      by (auto simp: list_all2_Cons1)
    then have "task_id y = task_id x" by (simp add: row_evolves_def row_identity_def)
    then show ?case using Cons us by (auto split: if_splits)
  qed simp
  then show ?thesis using assms by (auto simp: get_row_def rows_evolve_def)
qed

lemma get_row_None_iff: "get_row i r = None \<longleftrightarrow> i \<notin> set (map task_id (tasks r))"
  by (auto simp: get_row_def find_None_iff)

lemma rows_evolve_none: "rows_evolve r r' \<Longrightarrow> get_row i r' = None \<longleftrightarrow> get_row i r = None"
  by (simp only: get_row_None_iff rows_evolve_ids)

lemma rows_evolve_row_back:
  assumes "rows_evolve r r'" "get_row i r' = Some t'"
  shows "\<exists>t. get_row i r = Some t \<and> row_evolves t t'"
proof -
  obtain t where "get_row i r = Some t" using rows_evolve_none [OF assms(1), of i] assms(2) by auto
  then show ?thesis using rows_evolve_row [OF assms(1)] assms(2) by fastforce
qed

lemma rows_evolve_table_ok:
  assumes "rows_evolve r r'" "table_ok r"
  shows "table_ok r'"
proof -
  have keys: "list_all2 row_evolves ts us \<Longrightarrow> distinct (map dedupe_key (filter active ts)) \<Longrightarrow>
      distinct (map dedupe_key (filter active us)) \<and>
      dedupe_key ` set (filter active us) \<subseteq> dedupe_key ` set (filter active ts)" for ts us
  proof (induction rule: list_all2_induct)
    case (Cons x xs y ys)
    have "dedupe_key y = dedupe_key x" using Cons(1) by (simp add: row_evolves_def row_identity_def)
    moreover have "active y \<Longrightarrow> active x" by (rule row_evolves_active [OF Cons(1)])
    ultimately show ?case using Cons by (cases "active x") auto
  qed simp
  then show ?thesis using assms rows_evolve_ids [OF assms(1)] by (auto simp: table_ok_def rows_evolve_def)
qed

subsection \<open>The contract of a row operation\<close>

locale row_op =
  fixes oper :: "repo \<Rightarrow> repo"
  assumes evolves: "rows_evolve r (oper r)"
begin

lemma op_length: "length (tasks (oper r)) = length (tasks r)"
  using evolves [of r] by (auto simp: rows_evolve_def dest: list_all2_lengthD)

lemmas op_identities = rows_evolve_identities [OF evolves]
  and op_ids = rows_evolve_ids [OF evolves]
  and op_row = rows_evolve_row [OF evolves]
  and op_row_back = rows_evolve_row_back [OF evolves]
  and op_table_ok = rows_evolve_table_ok [OF evolves]

lemma op_terminal_final:
  "get_row i r = Some t \<Longrightarrow> terminal (status t) \<Longrightarrow> \<exists>t'. get_row i (oper r) = Some t' \<and> outcome t' = outcome t"
  using op_row [of i r t] by (auto simp: row_evolves_def)

end

lemma row_op_compose: "row_op f \<Longrightarrow> row_op g \<Longrightarrow> row_op (\<lambda>r. g (f r))"
  by (intro row_op.intro) (rule rows_evolve_trans [OF row_op.evolves row_op.evolves])

subsection \<open>The single-row operations\<close>

lemma claim_update_evolves: "rows_evolve r (fst (claim_update now tid r))"
  by (auto simp: claim_update_def run_row_def Let_def row_identity_simps intro!: rows_evolve_update row_evolvesI)

lemma claim_next_evolves: "rows_evolve r (fst (claim_next now media full ex r))"
  by (simp add: claim_next_def claim_update_evolves split: option.split)

lemma mark_succeeded_evolves: "rows_evolve r (fst (mark_succeeded now tid res r))"
  by (auto simp: mark_succeeded_def Let_def row_identity_simps intro!: rows_evolve_update row_evolvesI)

lemma mark_failed_when_evolves:
  "s = Running \<or> s = Queued \<Longrightarrow> rows_evolve r (fst (mark_failed_when s now tid msg r))"
  by (auto simp: mark_failed_when_def fail_row_def Let_def row_identity_simps intro!: rows_evolve_update row_evolvesI)

lemma mark_cancelling_evolves: "rows_evolve r (fst (mark_cancelling now tid by r))"
  by (auto simp: mark_cancelling_def cancelling_row_def Let_def row_identity_simps intro!: rows_evolve_update row_evolvesI)

lemma cancel_update_evolves: "rows_evolve r (fst (cancel_update now tid who r))"
  by (auto simp: cancel_update_def cancel_row_def cancellable_def Let_def row_identity_simps
      intro!: rows_evolve_update row_evolvesI)

declare cascade_failed_queued.simps [simp del] cascade_cancel_dependents.simps [simp del]

subsection \<open>What a cascade inherits from its steps\<close>

text \<open>
  A cascade is a sequence of the three guarded UPDATEs, so any reflexive and transitive
  relation between repository states that these keep is kept by every method that cascades.
  The locale is interpreted twice, on \<^const>\<open>rows_evolve\<close> here and on the emission of
  terminal events in \<open>TaskEvents\<close>.
\<close>

locale repo_relation =
  fixes R :: "repo \<Rightarrow> repo \<Rightarrow> bool"
  assumes R_refl: "R r r"
    and R_trans: "R r s \<Longrightarrow> R s t \<Longrightarrow> R r t"
    and R_failed: "seen = Running \<or> seen = Queued \<Longrightarrow> R r (fst (mark_failed_when seen now tid msg r))"
    and R_cancelled: "R r (fst (cancel_update now tid who r))"
    and R_cancelling: "R r (fst (mark_cancelling now tid who r))"
begin

lemma cascade_failed_one_rel:
  assumes "\<And>d st. R (fst st) (fst (rec d st))"
  shows "R (fst st) (fst (cascade_failed_one rec now tid msg dep st))"
proof -
  obtain r' n where m: "mark_failed_queued_dep now dep (encode_bounded_cascade_failure tid msg) (fst st) = (r', n)"
    by force
  then have "R (fst st) r'"
    using R_failed [of Queued "fst st"] by (metis fst_conv mark_failed_queued_dep_def)
  then show ?thesis
    using m assms [of "(r', snd st + n)" dep] R_refl by (auto simp: cascade_failed_one_def intro: R_trans)
qed

lemma fold_rel:
  assumes "\<And>x st. R (fst st) (fst (f x st))"
  shows "R (fst st) (fst (fold f xs st))"
proof (induction xs arbitrary: st)
  case (Cons x xs)
  show ?case using R_trans [OF assms [of st x] Cons.IH [of "f x st"]] by simp
qed (simp add: R_refl)

lemma cascade_failed_rel: "R (fst st) (fst (cascade_failed_queued fuel now msg tid st))"
proof (induction fuel arbitrary: tid st)
  case (Suc fuel)
  then show ?case by (simp add: fold_rel cascade_failed_one_rel cascade_failed_queued.simps)
qed (simp add: R_refl cascade_failed_queued.simps)

lemma mark_failed_rel: "R r (fst (mark_failed now tid msg r))"
proof -
  obtain r' n where m: "mark_failed_running now tid msg r = (r', n)" by force
  then have "R r r'"
    using R_failed [of Running r] by (metis fst_conv mark_failed_running_def)
  then show ?thesis
    using m cascade_failed_rel [of "(r', 0)"] R_refl by (auto simp: mark_failed_def intro: R_trans)
qed

lemma mark_cancelled_with_rel:
  assumes "\<And>d st. R (fst st) (fst (rec d st))"
  shows "R (fst st) (fst (fst (mark_cancelled_with rec now tid who st)))"
proof -
  obtain r' n where m: "cancel_update now tid who (fst st) = (r', n)" by force
  then have "R (fst st) r'" using R_cancelled [of "fst st"] by (metis fst_conv)
  then show ?thesis
    using m R_refl R_trans [OF _ assms [of "(r', _)"]]
    by (auto simp: mark_cancelled_with_def Let_def split: option.split)
qed

lemma dispatch_cancel_with_rel:
  assumes "\<And>d st. R (fst st) (fst (rec d st))"
  shows "R (fst st) (fst (dispatch_cancel_with rec now seen tid who st))"
  using mark_cancelled_with_rel [OF assms] R_cancelling [of "fst st" now tid who] R_refl
  by (auto simp: dispatch_cancel_with_def split: status.split prod.splits option.split)

lemma dispatch_row_rel:
  assumes "\<And>d st. R (fst st) (fst (rec d st))"
  shows "R (fst st) (fst (dispatch_row rec now d st))"
  using dispatch_cancel_with_rel [OF assms] R_refl by (simp add: dispatch_row_def split: option.split)

lemma cascade_cancel_rel: "R (fst st) (fst (cascade_cancel_dependents fuel now tid st))"
proof (induction fuel arbitrary: tid st)
  case (Suc fuel)
  then show ?case by (simp add: fold_rel dispatch_row_rel cascade_cancel_dependents.simps)
qed (simp add: R_refl cascade_cancel_dependents.simps)

lemma dispatch_cancel_rel: "R (fst st) (fst (dispatch_cancel now seen tid who st))"
  unfolding dispatch_cancel_def
  by (rule dispatch_cancel_with_rel) (rule cascade_cancel_rel)

lemma mark_cancelled_rel: "R (fst st) (fst (fst (mark_cancelled now tid who st)))"
  unfolding mark_cancelled_def
  by (rule mark_cancelled_with_rel) (rule cascade_cancel_rel)

lemma cancel_task_rel: "R r (fst (cancel_task now tid r))"
  using dispatch_cancel_rel [of "(r, no_lists)" now _ tid "''user''"] R_refl
  by (simp add: cancel_task_def split: option.split prod.split) (metis fst_conv)

lemma finalize_cancelled_rel: "R r (fst (finalize_cancelled now tid who r))"
  using mark_cancelled_rel [of "(r, no_lists)" now tid who]
  by (simp add: finalize_cancelled_def split: prod.split) (metis fst_conv)

end

interpretation evo: repo_relation rows_evolve
  by unfold_locales (auto intro: rows_evolve_trans mark_failed_when_evolves cancel_update_evolves mark_cancelling_evolves)

lemma tasks_fold_record:
  "tasks (fold (\<lambda>t. record_terminal_event (f t) (g t) (h t) (k t)) ts r) = tasks r"
  by (induction ts arbitrary: r) simp_all

lemma cancel_all_queued_evolves: "rows_evolve r (fst (cancel_all_queued now project r))"
proof -
  have "rows_evolve r (r\<lparr>tasks := update_where (\<lambda>t. project_name t = project \<and> status t = Queued)
      (\<lambda>t. t\<lparr>status := Cancelled, cancelled_by := Some ''user'', finished_at := Some now,
        updated_at := now\<rparr>) (tasks r)\<rparr>)"
    by (rule rows_evolve_update) (auto simp: row_identity_simps intro!: row_evolvesI)
  then show ?thesis by (simp add: cancel_all_queued_def Let_def rows_evolve_def tasks_fold_record)
qed

lemma persist_provider_job_id_evolves: "rows_evolve r (persist_provider_job_id now tid job e u r)"
  by (auto simp: persist_provider_job_id_def set_job_fields_def Let_def row_identity_simps
      split: option.split intro!: rows_evolve_update row_evolvesI)

lemma persist_execution_checkpoint_evolves:
  "rows_evolve r (fst (persist_execution_checkpoint now tid c p r))"
  by (auto simp: persist_execution_checkpoint_def checkpoint_guard_def row_identity_simps intro!: rows_evolve_update row_evolvesI)

lemma merge_payload_field_evolves: "rows_evolve r (fst (merge_payload_field now tid k v b r))"
  by (auto simp: merge_payload_field_def Let_def row_identity_simps split: option.split
      intro!: rows_evolve_update row_evolvesI)

lemma persist_execution_provider_id_evolves: "rows_evolve r (persist_execution_provider_id now tid p r)"
  by (auto simp: persist_execution_provider_id_def row_identity_simps intro!: rows_evolve_update row_evolvesI)

lemma requeue_running_evolves: "rows_evolve r (fst (requeue_running now limit r))"
  by (auto simp: requeue_running_def Let_def row_identity_simps intro!: rows_evolve_update row_evolvesI)

lemma requeue_single_task_evolves: "rows_evolve r (fst (requeue_single_task now tid r))"
  by (auto simp: requeue_single_task_def Let_def row_identity_simps intro!: rows_evolve_update row_evolvesI)

subsection \<open>The operations meet the contract\<close>

interpretation claim_op: row_op "\<lambda>r. fst (claim_next now media full ex r)" for now media full ex
  by unfold_locales (rule claim_next_evolves)

interpretation claim_update_op: row_op "\<lambda>r. fst (claim_update now tid r)" for now tid
  by unfold_locales (rule claim_update_evolves)

interpretation succeed_op: row_op "\<lambda>r. fst (mark_succeeded now tid res r)" for now tid res
  by unfold_locales (rule mark_succeeded_evolves)

interpretation fail_op: row_op "\<lambda>r. fst (mark_failed now tid msg r)" for now tid msg
  by unfold_locales (rule evo.mark_failed_rel)

interpretation fail_one_op: row_op "\<lambda>r. fst (mark_failed_running now tid msg r)" for now tid msg
  by unfold_locales (simp add: mark_failed_running_def mark_failed_when_evolves)

interpretation fail_dep_op: row_op "\<lambda>r. fst (mark_failed_queued_dep now tid msg r)" for now tid msg
  by unfold_locales (simp add: mark_failed_queued_dep_def mark_failed_when_evolves)

interpretation cancelling_op: row_op "\<lambda>r. fst (mark_cancelling now tid who r)" for now tid who
  by unfold_locales (rule mark_cancelling_evolves)

interpretation cancel_op: row_op "\<lambda>r. fst (cancel_task now tid r)" for now tid
  by unfold_locales (rule evo.cancel_task_rel)

interpretation cancel_update_op: row_op "\<lambda>r. fst (cancel_update now tid who r)" for now tid who
  by unfold_locales (rule cancel_update_evolves)

interpretation finalize_op: row_op "\<lambda>r. fst (finalize_cancelled now tid who r)" for now tid who
  by unfold_locales (rule evo.finalize_cancelled_rel)

interpretation cancel_all_op: row_op "\<lambda>r. fst (cancel_all_queued now project r)" for now project
  by unfold_locales (rule cancel_all_queued_evolves)

interpretation job_op: row_op "\<lambda>r. persist_provider_job_id now tid job e u r" for now tid job e u
  by unfold_locales (rule persist_provider_job_id_evolves)

interpretation checkpoint_op: row_op "\<lambda>r. fst (persist_execution_checkpoint now tid c p r)" for now tid c p
  by unfold_locales (rule persist_execution_checkpoint_evolves)

interpretation payload_op: row_op "\<lambda>r. fst (merge_payload_field now tid k v b r)" for now tid k v b
  by unfold_locales (rule merge_payload_field_evolves)

interpretation provider_op: row_op "\<lambda>r. persist_execution_provider_id now tid p r" for now tid p
  by unfold_locales (rule persist_execution_provider_id_evolves)

interpretation requeue_op: row_op "\<lambda>r. fst (requeue_running now limit r)" for now limit
  by unfold_locales (rule requeue_running_evolves)

interpretation requeue_one_op: row_op "\<lambda>r. fst (requeue_single_task now tid r)" for now tid
  by unfold_locales (rule requeue_single_task_evolves)

end
