(* ===== verification/Cascade.thy ===== *)
theory Cascade
  imports TaskTable
begin

text \<open>
  The contract of a cascade over the dependency column, and what follows from it. A cascade
  from a task visits the dependents of the task; visiting a queued dependent rewrites its
  row and cascades from it, visiting another row may rewrite it without going further. The
  locale states this for any state that holds a table (\<open>look\<close>), any rewriting (\<open>eff\<close>) and
  any set of rewritten rows (\<open>hit\<close>); its result is the exact effect of the whole cascade:
  the rows rewritten are those that hang below the task through queued rows. The failure
  cascade and the cancellation cascade both interpret it in \<open>TaskCascade\<close>.
\<close>

text \<open>\<open>below look p i\<close>: task \<open>i\<close> depends on \<open>p\<close> directly, or on a queued task below \<open>p\<close>.\<close>

inductive below :: "(string \<Rightarrow> task option) \<Rightarrow> string \<Rightarrow> string \<Rightarrow> bool" for look :: "string \<Rightarrow> task option" where
  direct: "look i = Some t \<Longrightarrow> dependency_task_id t = Some p \<Longrightarrow> below look p i"
| further: "below look p j \<Longrightarrow> look j = Some u \<Longrightarrow> status u = Queued \<Longrightarrow>
    look i = Some t \<Longrightarrow> dependency_task_id t = Some j \<Longrightarrow> below look p i"

lemma below_trans:
  assumes "below look d i" "look d = Some u" "status u = Queued" "dependency_task_id u = Some p"
  shows "below look p i"
  using assms
proof (induction rule: below.induct)
  case (direct i t q)
  then show ?case by (meson below.direct below.further)
next
  case (further q j v i t)
  then show ?case by (meson below.further)
qed

definition queued_in :: "(string \<Rightarrow> task option) \<Rightarrow> string set" where
  "queued_in look = {i. \<exists>t. look i = Some t \<and> status t = Queued}"

locale dependency_cascade =
  fixes look :: "'s \<Rightarrow> string \<Rightarrow> task option"
    and ok :: "'s \<Rightarrow> bool"
    and kids :: "string \<Rightarrow> 's \<Rightarrow> string list"
    and visit :: "nat \<Rightarrow> string \<Rightarrow> string \<Rightarrow> 's \<Rightarrow> 's"
    and casc :: "nat \<Rightarrow> string \<Rightarrow> 's \<Rightarrow> 's"
    and hit :: "task \<Rightarrow> bool"
    and eff :: "string \<Rightarrow> task \<Rightarrow> task"
  assumes casc_Suc: "casc (Suc n) p st = fold (visit n p) (kids p st) st"
    and kids_dep: "ok st \<Longrightarrow> d \<in> set (kids p st) \<Longrightarrow> \<exists>t. look st d = Some t \<and> dependency_task_id t = Some p"
    and kids_all: "ok st \<Longrightarrow> look st d = Some t \<Longrightarrow> dependency_task_id t = Some p \<Longrightarrow> hit t \<Longrightarrow> d \<in> set (kids p st)"
    and finite_look: "ok st \<Longrightarrow> finite (dom (look st))"
    and hit_queued: "status t = Queued \<Longrightarrow> hit t"
    and eff_dep: "dependency_task_id (eff p t) = dependency_task_id t"
    and eff_hit: "\<not> hit (eff p t)"
    and visit_queued: "ok st \<Longrightarrow> look st d = Some t \<Longrightarrow> dependency_task_id t = Some p \<Longrightarrow> status t = Queued \<Longrightarrow>
      \<exists>st'. ok st' \<and> look st' = (look st)(d \<mapsto> eff p t) \<and> visit n p d st = casc n d st'"
    and visit_other: "ok st \<Longrightarrow> look st d = Some t \<Longrightarrow> dependency_task_id t = Some p \<Longrightarrow> status t \<noteq> Queued \<Longrightarrow>
      ok (visit n p d st) \<and>
      look (visit n p d st) = (if hit t then (look st)(d \<mapsto> eff p t) else look st)"
begin

text \<open>One row before and after: untouched, or rewritten with its own dependency as parent.\<close>

definition row_step :: "task option \<Rightarrow> task option \<Rightarrow> bool" where
  "row_step x y \<longleftrightarrow> y = x \<or> (\<exists>t p. x = Some t \<and> hit t \<and> dependency_task_id t = Some p \<and> y = Some (eff p t))"

definition evol :: "'s \<Rightarrow> 's \<Rightarrow> bool" where
  "evol a b \<longleftrightarrow> (\<forall>i. row_step (look a i) (look b i))"

text \<open>No row the cascade could still rewrite hangs directly under \<open>p\<close>.\<close>

definition settled :: "'s \<Rightarrow> string \<Rightarrow> bool" where
  "settled b p \<longleftrightarrow> (\<forall>i t. look b i = Some t \<longrightarrow> dependency_task_id t = Some p \<longrightarrow> \<not> hit t)"

text \<open>The outcome of a stretch of the cascade below \<open>p\<close>.\<close>

definition good :: "string \<Rightarrow> 's \<Rightarrow> 's \<Rightarrow> bool" where
  "good p a b \<longleftrightarrow> ok b \<and> evol a b
     \<and> (\<forall>i. look b i \<noteq> look a i \<longrightarrow> below (look a) p i)
     \<and> (\<forall>i \<in> queued_in (look a) - queued_in (look b). settled b i)"

lemma eff_not_queued: "status (eff p t) \<noteq> Queued"
  using eff_hit hit_queued by blast

lemma row_step_trans: "row_step x y \<Longrightarrow> row_step y z \<Longrightarrow> row_step x z"
  unfolding row_step_def using eff_hit by auto

lemma evol_trans: "evol a b \<Longrightarrow> evol b c \<Longrightarrow> evol a c"
  unfolding evol_def using row_step_trans by blast

lemma evol_refl: "evol a a"
  by (simp add: evol_def row_step_def)

lemma good_refl: "ok a \<Longrightarrow> good p a a"
  by (simp add: good_def evol_refl)

lemma evol_back:
  assumes "evol a b" "look b i = Some t" "hit t"
  shows "look a i = Some t"
  using assms eff_hit unfolding evol_def row_step_def by (metis option.inject)

lemma evol_fwd:
  assumes "evol a b" "look a i = Some t"
  shows "\<exists>t'. look b i = Some t' \<and> dependency_task_id t' = dependency_task_id t"
  using assms eff_dep unfolding evol_def row_step_def by (metis option.inject)

lemma evol_dep: "evol a b \<Longrightarrow> look b i = Some t' \<Longrightarrow> \<exists>t. look a i = Some t \<and> dependency_task_id t = dependency_task_id t'"
  unfolding evol_def row_step_def using eff_dep by (metis option.inject option.simps(3))

lemma evol_queued: "evol a b \<Longrightarrow> queued_in (look b) \<subseteq> queued_in (look a)"
  using evol_back hit_queued by (fastforce simp: queued_in_def)

lemma settled_evol: "evol a b \<Longrightarrow> settled a i \<Longrightarrow> settled b i"
  unfolding settled_def using evol_back by blast

lemma below_evol: "below (look b) p i \<Longrightarrow> evol a b \<Longrightarrow> below (look a) p i"
proof (induction rule: below.induct)
  case (direct i t p)
  then show ?case using evol_dep by (metis below.direct)
next
  case (further p j u i t)
  have "look a j = Some u" using evol_back further hit_queued by blast
  moreover obtain t0 where "look a i = Some t0" "dependency_task_id t0 = Some j"
    using evol_dep [OF further.prems further.hyps(4)] further.hyps(5) by auto
  ultimately show ?case using further below.further by blast
qed

lemma good_trans:
  assumes "good p a b" "good p b c"
  shows "good p a c"
proof -
  have e: "evol a b" "evol b c" using assms by (auto simp: good_def)
  have "below (look a) p i" if "look c i \<noteq> look a i" for i
    using that assms below_evol [OF _ e(1)] unfolding good_def by metis
  moreover have "settled c i" if "i \<in> queued_in (look a) - queued_in (look c)" for i
    using that assms settled_evol [OF e(2)] unfolding good_def by blast
  ultimately show ?thesis using assms e evol_trans unfolding good_def by blast
qed

lemma card_queued_upd:
  assumes "ok st" "look st d = Some t" "status t = Queued" "look st' = (look st)(d \<mapsto> eff p t)"
  shows "card (queued_in (look st')) < card (queued_in (look st))"
proof -
  have "queued_in (look st') = queued_in (look st) - {d}"
    using assms eff_not_queued by (auto simp: queued_in_def)
  moreover have "d \<in> queued_in (look st)" using assms by (auto simp: queued_in_def)
  moreover have "finite (queued_in (look st))"
    by (rule finite_subset [OF _ finite_look [OF assms(1)]]) (auto simp: queued_in_def)
  ultimately show ?thesis by (metis card_Diff1_less)
qed

lemma finite_queued: "ok st \<Longrightarrow> finite (queued_in (look st))"
  by (rule finite_subset [OF _ finite_look]) (auto simp: queued_in_def)

lemma evol_upd:
  assumes "look b = (look a)(d \<mapsto> eff p t)" "look a d = Some t" "hit t" "dependency_task_id t = Some p"
  shows "evol a b"
  using assms by (auto simp: evol_def row_step_def)

lemma evol_rewritten:
  assumes "evol a b" "look a d = Some (eff p t)"
  shows "look b d = Some (eff p t)"
proof -
  have "row_step (look a d) (look b d)" using assms(1) by (auto simp: evol_def)
  then show ?thesis using assms(2) eff_hit by (auto simp: row_step_def)
qed

text \<open>A visit to a queued dependent, given that the cascade below it does its work.\<close>

lemma good_visit_queued:
  assumes "look a d = Some t" "dependency_task_id t = Some p" "status t = Queued"
    and upd: "look a' = (look a)(d \<mapsto> eff p t)" and g: "good d a' b" and s: "settled b d"
  shows "good p a b \<and> look b d = Some (eff p t)"
proof -
  have e: "evol a a'" using upd assms hit_queued by (blast intro: evol_upd)
  have e': "evol a' b" using g by (simp add: good_def)
  have "below (look a) p i" if "look b i \<noteq> look a i" for i
  proof (cases "i = d")
    case True
    then show ?thesis using assms by (blast intro: below.direct)
  next
    case False
    then have "look b i \<noteq> look a' i" using that upd by simp
    then have "below (look a) d i" using g below_evol [OF _ e] unfolding good_def by blast
    then show ?thesis using assms below_trans by blast
  qed
  moreover have "settled b i" if "i \<in> queued_in (look a) - queued_in (look b)" for i
  proof (cases "i = d")
    case False
    then have "i \<in> queued_in (look a')" using that upd by (auto simp: queued_in_def)
    then show ?thesis using g that by (auto simp: good_def)
  qed (use s in simp)
  moreover have "look b d = Some (eff p t)"
    using evol_rewritten [OF e'] upd by simp
  ultimately show ?thesis using g evol_trans [OF e e'] unfolding good_def by blast
qed

lemma good_visit:
  assumes rec: "\<And>d st. ok st \<Longrightarrow> card (queued_in (look st)) < n \<Longrightarrow>
      good d st (casc n d st) \<and> settled (casc n d st) d"
    and a: "ok a" "card (queued_in (look a)) < Suc n"
    and d: "look a d = Some t" "dependency_task_id t = Some p"
  shows "good p a (visit n p d a) \<and> (\<exists>u. look (visit n p d a) d = Some u \<and> \<not> hit u)"
proof (cases "status t = Queued")
  case True
  obtain a' where a': "ok a'" "look a' = (look a)(d \<mapsto> eff p t)" "visit n p d a = casc n d a'"
    using visit_queued [OF a(1) d True] by blast
  have "card (queued_in (look a')) < n"
    using card_queued_upd [OF a(1) d(1) True a'(2)] a(2) by simp
  then have "good d a' (casc n d a')" "settled (casc n d a') d" using rec a'(1) by blast+
  then show ?thesis using good_visit_queued [OF d True a'(2)] a'(3) eff_hit by fastforce
next
  case False
  let ?b = "visit n p d a"
  have b: "ok ?b" "look ?b = (if hit t then (look a)(d \<mapsto> eff p t) else look a)"
    using visit_other [OF a(1) d False] by blast+
  have "evol a ?b"
  proof (cases "hit t")
    case True
    then show ?thesis using b(2) d by (intro evol_upd) auto
  qed (use b(2) in \<open>simp add: evol_def row_step_def\<close>)
  moreover have "queued_in (look a) = queued_in (look ?b)"
    using b d False eff_not_queued by (auto simp: queued_in_def)
  moreover have "below (look a) p i" if "look ?b i \<noteq> look a i" for i
    using that b d by (cases "i = d") (auto intro: below.direct split: if_splits)
  ultimately show ?thesis using b d eff_hit by (auto simp: good_def)
qed

lemma card_evol: "ok a \<Longrightarrow> evol a b \<Longrightarrow> card (queued_in (look b)) \<le> card (queued_in (look a))"
  by (rule card_mono [OF finite_queued evol_queued])

lemma good_fold:
  assumes rec: "\<And>d st. ok st \<Longrightarrow> card (queued_in (look st)) < n \<Longrightarrow>
      good d st (casc n d st) \<and> settled (casc n d st) d"
    and "ok a" "card (queued_in (look a)) < Suc n"
    and "\<And>d. d \<in> set ds \<Longrightarrow> \<exists>t. look a d = Some t \<and> dependency_task_id t = Some p"
  shows "good p a (fold (visit n p) ds a) \<and>
    (\<forall>d \<in> set ds. \<exists>u. look (fold (visit n p) ds a) d = Some u \<and> \<not> hit u)"
  using assms(2-)
proof (induction ds arbitrary: a)
  case (Cons d ds)
  obtain t where t: "look a d = Some t" "dependency_task_id t = Some p"
    using Cons.prems(3) [of d] by auto
  from good_visit [OF rec Cons.prems(1,2) t]
  obtain u where v: "good p a (visit n p d a)" "look (visit n p d a) d = Some u" "\<not> hit u" by blast
  let ?v = "visit n p d a"
  let ?c = "fold (visit n p) ds ?v"
  have e: "ok ?v" "evol a ?v" using v(1) by (simp_all add: good_def)
  have "\<exists>t. look ?v d' = Some t \<and> dependency_task_id t = Some p" if "d' \<in> set ds" for d'
    using Cons.prems(3) [of d'] evol_fwd [OF e(2)] that by fastforce
  then have c: "good p ?v ?c" "\<forall>e \<in> set ds. \<exists>w. look ?c e = Some w \<and> \<not> hit w"
    using Cons.IH [OF e(1)] card_evol [OF Cons.prems(1) e(2)] Cons.prems(2) by auto
  have "row_step (look ?v d) (look ?c d)" using c(1) by (auto simp: good_def evol_def)
  then have "look ?c d = Some u" using v(2,3) by (auto simp: row_step_def)
  then show ?case using c good_trans [OF v(1) c(1)] v(3) by simp
qed (simp add: good_refl)

lemma casc_good:
  "ok st \<Longrightarrow> card (queued_in (look st)) < n \<Longrightarrow> good p st (casc n p st) \<and> settled (casc n p st) p"
proof (induction n arbitrary: p st)
  case (Suc n)
  let ?b = "casc (Suc n) p st"
  have b: "good p st ?b" "\<forall>d \<in> set (kids p st). \<exists>u. look ?b d = Some u \<and> \<not> hit u"
    using good_fold [OF Suc.IH Suc.prems, of "kids p st" p] kids_dep [OF Suc.prems(1)]
    by (simp_all add: casc_Suc)
  have "\<not> hit t" if t: "look ?b i = Some t" "dependency_task_id t = Some p" for i t
  proof
    assume "hit t"
    then have "look st i = Some t" using t b(1) evol_back by (auto simp: good_def)
    then have "i \<in> set (kids p st)" using kids_all Suc.prems(1) t(2) \<open>hit t\<close> by blast
    then show False using b(2) t(1) \<open>hit t\<close> by auto
  qed
  then show ?case using b(1) by (auto simp: settled_def)
qed simp

lemma below_rewritten:
  assumes "below (look a) p i" "evol a b" "settled b p"
    and "\<forall>j \<in> queued_in (look a) - queued_in (look b). settled b j"
  shows "\<exists>t. look b i = Some t \<and> \<not> hit t"
  using assms
proof (induction rule: below.induct)
  case (direct i t p)
  then show ?case using evol_fwd [OF direct.prems(1) direct.hyps(1)] by (auto simp: settled_def)
next
  case (further p j u i t)
  then have "j \<in> queued_in (look a) - queued_in (look b)"
    using hit_queued by (auto simp: queued_in_def)
  then have "settled b j" using further.prems by blast
  then show ?case using evol_fwd [OF further.prems(1) further.hyps(4)] further.hyps(5)
    by (auto simp: settled_def)
qed

text \<open>The exact effect of a cascade with enough fuel.\<close>

theorem casc_effect:
  assumes "ok st" "card (queued_in (look st)) < n"
  shows "look (casc n p st) i =
    map_option (\<lambda>t. if below (look st) p i \<and> hit t then eff (the (dependency_task_id t)) t else t) (look st i)"
proof -
  let ?b = "casc n p st"
  have g: "good p st ?b" "settled ?b p" using casc_good [OF assms] by blast+
  have r: "row_step (look st i) (look ?b i)" using g(1) by (auto simp: good_def evol_def)
  show ?thesis
  proof (cases "look ?b i = look st i")
    case True
    have "\<not> hit t" if "look st i = Some t" "below (look st) p i" for t
      using below_rewritten [OF that(2) _ g(2)] g(1) that(1) True by (auto simp: good_def)
    then show ?thesis using True by (cases "look st i") auto
  next
    case False
    then have "below (look st) p i" using g(1) by (auto simp: good_def)
    then show ?thesis using r False by (auto simp: row_step_def)
  qed
qed

lemma casc_ok: "ok st \<Longrightarrow> card (queued_in (look st)) < n \<Longrightarrow> ok (casc n p st)"
  using casc_good by (auto simp: good_def)

end

end
