(* ===== verification/TaskCascade.thy ===== *)
theory TaskCascade
  imports TaskSteps Cascade
begin

text \<open>
  The two cascades of the repository as instances of \<open>dependency_cascade\<close>, and what it
  gives for the methods that cascade: which rows \<open>mark_failed\<close>, \<open>cancel_task\<close> and
  \<open>finalize_cancelled\<close> rewrite, and to what. The fuel of the model is shown to be enough,
  so the result is that of the unbounded recursion of the code.
\<close>

abbreviation look :: "repo \<Rightarrow> string \<Rightarrow> task option" where
  "look r \<equiv> (\<lambda>i. get_row i r)"

subsection \<open>One guarded UPDATE\<close>

lemma look_update_one:
  assumes "keeps_identity f" "get_row d r = Some t" "Q t"
  shows "look (r\<lparr>tasks := update_where (\<lambda>t. task_id t = d \<and> Q t) f (tasks r)\<rparr>) = (look r)(d \<mapsto> f t)"
proof
  fix i
  show "get_row i (r\<lparr>tasks := update_where (\<lambda>t. task_id t = d \<and> Q t) f (tasks r)\<rparr>) = ((look r)(d \<mapsto> f t)) i"
    using assms by (cases "get_row i r") (auto simp: get_row_update dest: get_row_SomeD)
qed

lemma count_one: "table_ok r \<Longrightarrow> get_row d r = Some t \<Longrightarrow>
    count_where (\<lambda>t. task_id t = d \<and> Q t) (tasks r) = (if Q t then 1 else 0)"
  by (simp add: count_id_where)

lemma count_none: "table_ok r \<Longrightarrow> get_row d r = None \<Longrightarrow>
    count_where (\<lambda>t. task_id t = d \<and> Q t) (tasks r) = 0"
  by (simp add: count_id_where)

lemma keeps_identity_rows [simp]:
  "keeps_identity (fail_row now msg)" "keeps_identity (cancel_row now who)"
  "keeps_identity (cancelling_row now who)"
  by (simp_all add: keeps_identity_def fail_row_def cancel_row_def cancelling_row_def row_identity_simps)

lemma row_simps [simp]:
  "status (fail_row now msg t) = Failed" "dependency_task_id (fail_row now msg t) = dependency_task_id t"
  "status (cancel_row now who t) = Cancelled" "dependency_task_id (cancel_row now who t) = dependency_task_id t"
  "status (cancelling_row now who t) = Cancelling"
  "dependency_task_id (cancelling_row now who t) = dependency_task_id t"
  by (simp_all add: fail_row_def cancel_row_def cancelling_row_def)

lemma mark_failed_when_row:
  assumes "table_ok r" "get_row d r = Some t"
  shows "snd (mark_failed_when s now d msg r) = (if status t = s then 1 else 0)"
    and "look (fst (mark_failed_when s now d msg r)) =
      (if status t = s then (look r)(d \<mapsto> fail_row now msg t) else look r)"
  using assms count_one [OF assms, of "\<lambda>t. status t = s"]
    look_update_one [of "fail_row now msg" d r t "\<lambda>t. status t = s"]
  by (simp_all add: mark_failed_when_def Let_def)

lemma cancel_update_row:
  assumes "table_ok r" "get_row d r = Some t"
  shows "snd (cancel_update now d who r) = (if cancellable t then 1 else 0)"
    and "look (fst (cancel_update now d who r)) =
      (if cancellable t then (look r)(d \<mapsto> cancel_row now who t) else look r)"
  using assms count_one [OF assms, of cancellable]
    look_update_one [of "cancel_row now who" d r t cancellable]
  by (simp_all add: cancel_update_def Let_def)

lemma mark_cancelling_row:
  assumes "table_ok r" "get_row d r = Some t"
  shows "snd (mark_cancelling now d who r) = (if status t = Running then 1 else 0)"
    and "look (fst (mark_cancelling now d who r)) =
      (if status t = Running then (look r)(d \<mapsto> cancelling_row now who t) else look r)"
proof -
  let ?Q = "\<lambda>t. status t = Running"
  show "snd (mark_cancelling now d who r) = (if status t = Running then 1 else 0)"
    using count_one [OF assms, of ?Q] by (simp add: mark_cancelling_def Let_def)
  show "look (fst (mark_cancelling now d who r)) =
      (if status t = Running then (look r)(d \<mapsto> cancelling_row now who t) else look r)"
  proof (cases "status t = Running")
    case True
    then show ?thesis
      using look_update_one [of "cancelling_row now who" d r t ?Q] assms(2)
      by (simp add: mark_cancelling_def Let_def)
  next
    case False
    then have "count_where (\<lambda>t. task_id t = d \<and> ?Q t) (tasks r) = 0"
      using count_one [OF assms, of ?Q] by simp
    then show ?thesis
      using False by (simp add: mark_cancelling_def Let_def count_where_0_update)
  qed
qed

lemma set_dependents:
  "table_ok r \<Longrightarrow> d \<in> set (map task_id (queued_dependents p r)) \<longleftrightarrow>
     (\<exists>t. get_row d r = Some t \<and> dependency_task_id t = Some p \<and> status t = Queued)"
  "table_ok r \<Longrightarrow> d \<in> set (map task_id (dependents p r)) \<longleftrightarrow>
     (\<exists>t. get_row d r = Some t \<and> dependency_task_id t = Some p)"
  unfolding queued_dependents_def dependents_def
  by (auto simp: image_iff dest: get_row_mem get_row_SomeD)

lemma finite_look: "finite (dom (look r))"
proof (rule finite_subset)
  show "dom (look r) \<subseteq> task_id ` set (tasks r)" by (auto dest: get_row_SomeD)
qed simp

lemma queued_fuel: "card (queued_in (look r)) < Suc (length (tasks r))"
proof -
  have "queued_in (look r) \<subseteq> task_id ` set (tasks r)" by (auto simp: queued_in_def dest: get_row_SomeD)
  then have "card (queued_in (look r)) \<le> card (task_id ` set (tasks r))" by (intro card_mono) simp_all
  also have "\<dots> \<le> length (tasks r)" by (metis card_image_le card_length finite_set le_trans)
  finally show ?thesis by simp
qed

subsection \<open>The failure cascade\<close>

text \<open>A queued row below a failed task fails with the bounded cascade message that names
  the task it waits for.\<close>

definition blocked_row :: "nat \<Rightarrow> string \<Rightarrow> string \<Rightarrow> task \<Rightarrow> task" where
  "blocked_row now msg p = fail_row now (encode_bounded_cascade_failure p msg)"

interpretation failing: dependency_cascade "\<lambda>st. look (fst st)" "\<lambda>st. table_ok (fst st)"
  "\<lambda>p st. map task_id (queued_dependents p (fst st))"
  "\<lambda>n p d. cascade_failed_one (cascade_failed_queued n now msg) now p msg d"
  "\<lambda>n p. cascade_failed_queued n now msg p" "\<lambda>t. status t = Queued" "blocked_row now msg"
  for now msg
proof (unfold_locales, goal_cases)
  case (1 n p st)
  then show ?case by (simp add: cascade_failed_queued.simps)
next
  case (2 st d p)
  then show ?case by (simp only: set_dependents) blast
next
  case (3 st d t p)
  then show ?case by (simp only: set_dependents) blast
next
  case (8 st d t p n)
  let ?m = "mark_failed_queued_dep now d (encode_bounded_cascade_failure p msg) (fst st)"
  have m: "snd ?m = 1" "look (fst ?m) = (look (fst st))(d \<mapsto> blocked_row now msg p t)"
    using mark_failed_when_row [OF 8(1,2)] 8(4)
    by (simp_all add: mark_failed_queued_dep_def blocked_row_def)
  have "table_ok (fst ?m)"
    by (rule fail_dep_op.op_table_ok [OF 8(1)])
  then show ?case using m
    by (intro exI [of _ "(fst ?m, snd st + 1)"]) (simp add: cascade_failed_one_def split_def)
next
  case (9 st d t p n)
  then show ?case using mark_failed_when_row(1) [OF 9(1,2)]
    by (simp add: cascade_failed_one_def mark_failed_queued_dep_def split_def)
qed (simp_all add: blocked_row_def finite_look)

subsection \<open>The cancellation cascade\<close>

text \<open>Below a cancelled task a queued row is cancelled, a running row is asked to stop.\<close>

definition stopped_row :: "nat \<Rightarrow> task \<Rightarrow> task" where
  "stopped_row now t = (if status t = Queued then cancel_row now ''cascade'' t else cancelling_row now ''cascade'' t)"

lemma mark_cancelled_with_hit:
  assumes "table_ok (fst st)" "get_row d (fst st) = Some t" "cancellable t"
  shows "\<exists>st'. table_ok (fst st') \<and> look (fst st') = (look (fst st))(d \<mapsto> cancel_row now who t)
    \<and> fst (mark_cancelled_with rec now d who st) = rec d st'
    \<and> snd (mark_cancelled_with rec now d who st) = Some (task_to_dict (cancel_row now who t))"
proof -
  let ?m = "cancel_update now d who (fst st)"
  have m: "snd ?m = 1" "look (fst ?m) = (look (fst st))(d \<mapsto> cancel_row now who t)"
    using cancel_update_row [OF assms(1,2)] assms(3) by simp_all
  then have "get_row d (fst ?m) = Some (cancel_row now who t)" by (metis fun_upd_same)
  then show ?thesis using m cancel_update_op.op_table_ok [OF assms(1)]
    by (intro exI [of _ "(fst ?m, (snd st)\<lparr>cl_cancelled := cl_cancelled (snd st) @ [task_to_dict (cancel_row now who t)]\<rparr>)"])
      (simp add: mark_cancelled_with_def split_def Let_def)
qed

interpretation cancelling: dependency_cascade "\<lambda>st. look (fst st)" "\<lambda>st. table_ok (fst st)"
  "\<lambda>p st. map task_id (dependents p (fst st))"
  "\<lambda>n p d. dispatch_row (cascade_cancel_dependents n now) now d"
  "\<lambda>n p. cascade_cancel_dependents n now p" "\<lambda>t. status t = Queued \<or> status t = Running"
  "\<lambda>p. stopped_row now"
  for now
proof (unfold_locales, goal_cases)
  case (1 n p st)
  then show ?case by (simp add: cascade_cancel_dependents.simps)
next
  case (2 st d p)
  then show ?case by (simp only: set_dependents)
next
  case (3 st d t p)
  then show ?case by (simp only: set_dependents) blast
next
  case (8 st d t p n)
  then show ?case
    using mark_cancelled_with_hit [OF 8(1,2), of now "''cascade''" "cascade_cancel_dependents n now"]
    by (auto simp: dispatch_row_def dispatch_cancel_with_def stopped_row_def cancellable_def)
next
  case (9 st d t p n)
  have "table_ok (fst (mark_cancelling now d who (fst st)))" for who
    by (rule cancelling_op.op_table_ok [OF 9(1)])
  then show ?case using mark_cancelling_row [OF 9(1,2), of now "''cascade''"] 9
    by (cases "status t") (simp_all add: dispatch_row_def dispatch_cancel_with_def stopped_row_def split_def)
qed (simp_all add: stopped_row_def finite_look)

subsection \<open>The methods that cascade\<close>

text \<open>The root of a cascade may change in anything but its dependency without changing what
  hangs below it.\<close>

lemma below_root_aux:
  assumes "below a p i" "\<And>j. j \<noteq> p \<Longrightarrow> b j = a j"
    "map_option dependency_task_id (b p) = map_option dependency_task_id (a p)"
  shows "below b p i"
proof -
  have dep: "\<exists>t'. b j = Some t' \<and> dependency_task_id t' = dependency_task_id t" if "a j = Some t" for j t
    using assms(2) [of j] assms(3) that by (cases "j = p") auto
  show ?thesis using assms(1) assms(2)
  proof (induction rule: below.induct)
    case (direct i t q)
    then show ?case using dep [of i t] by (auto intro: below.direct)
  next
    case (further q j u i t)
    obtain t' where t': "b i = Some t'" "dependency_task_id t' = Some j"
      using dep [of i t] further.hyps by auto
    show ?case
    proof (cases "j = q")
      case True
      then show ?thesis using t' by (auto intro: below.direct)
    next
      case False
      then show ?thesis using t' further by (metis below.further)
    qed
  qed
qed

lemma below_root:
  assumes "get_row p r = Some t" "dependency_task_id t' = dependency_task_id t"
  shows "below ((look r)(p \<mapsto> t')) p i = below (look r) p i"
  using assms by (auto elim!: below_root_aux)

lemma mark_failed_table:
  assumes "table_ok r" "get_row tid r = Some t" "status t = Running"
  shows "get_row i (fst (mark_failed now tid msg r)) =
    map_option (\<lambda>u. if i = tid then fail_row now msg u
      else if below (look r) tid i \<and> status u = Queued
      then blocked_row now msg (the (dependency_task_id u)) u else u) (get_row i r)"
proof -
  let ?m = "mark_failed_running now tid msg r"
  have m: "snd ?m = 1" "look (fst ?m) = (look r)(tid \<mapsto> fail_row now msg t)"
    using mark_failed_when_row [OF assms(1,2)] assms(3) by (simp_all add: mark_failed_running_def)
  have ok: "table_ok (fst ?m)" by (rule fail_one_op.op_table_ok [OF assms(1)])
  have "mark_failed now tid msg r =
      (fst (cascade_failed_queued (Suc (length (tasks (fst ?m)))) now msg tid (fst ?m, 0)), 1)"
    using m(1) by (simp add: mark_failed_def split_def)
  then show ?thesis
    using failing.casc_effect [where st = "(fst ?m, 0)" and n = "Suc (length (tasks (fst ?m)))" and p = tid
        and i = i and now = now and msg = msg] ok queued_fuel [of "fst ?m"]
      fun_cong [OF m(2), of i] m(2) below_root [OF assms(2)] assms(2)
    by (cases "get_row i r") auto
qed

lemma mark_failed_idle:
  assumes "table_ok r" "\<And>t. get_row tid r = Some t \<Longrightarrow> status t \<noteq> Running"
  shows "mark_failed now tid msg r = (r, 0)"
proof -
  have "snd (mark_failed_running now tid msg r) = 0"
    using assms mark_failed_when_row(1) [OF assms(1)] count_none [OF assms(1)]
    by (cases "get_row tid r") (auto simp: mark_failed_running_def mark_failed_when_def Let_def)
  then show ?thesis by (simp add: mark_failed_def split_def)
qed

lemma mark_cancelled_table:
  assumes "table_ok r" "get_row tid r = Some t" "cancellable t"
  shows "get_row i (fst (fst (mark_cancelled now tid who (r, cl)))) =
    map_option (\<lambda>u. if i = tid then cancel_row now who u
      else if below (look r) tid i \<and> (status u = Queued \<or> status u = Running)
      then stopped_row now u else u) (get_row i r)"
    and "snd (mark_cancelled now tid who (r, cl)) = Some (task_to_dict (cancel_row now who t))"
proof -
  let ?rec = "cascade_cancel_dependents (Suc (length (tasks r))) now"
  obtain st' where m: "table_ok (fst st')" "look (fst st') = (look r)(tid \<mapsto> cancel_row now who t)"
    "fst (mark_cancelled now tid who (r, cl)) = ?rec tid st'"
    and d: "snd (mark_cancelled now tid who (r, cl)) = Some (task_to_dict (cancel_row now who t))"
    using mark_cancelled_with_hit [of "(r, cl)" tid t now who ?rec] assms
    by (auto simp: mark_cancelled_def)
  have "queued_in (look (fst st')) \<subseteq> queued_in (look r)"
    using m(2) by (auto simp: queued_in_def)
  moreover have "finite (queued_in (look r))"
    by (rule finite_subset [OF _ finite_look [of r]]) (auto simp: queued_in_def)
  ultimately have "card (queued_in (look (fst st'))) < Suc (length (tasks r))"
    using queued_fuel [of r] card_mono le_less_trans by blast
  then show "get_row i (fst (fst (mark_cancelled now tid who (r, cl)))) =
    map_option (\<lambda>u. if i = tid then cancel_row now who u
      else if below (look r) tid i \<and> (status u = Queued \<or> status u = Running)
      then stopped_row now u else u) (get_row i r)"
    using cancelling.casc_effect [where st = st' and n = "Suc (length (tasks r))" and p = tid
        and i = i and now = now] m fun_cong [OF m(2), of i] below_root [OF assms(2)] assms(2)
    by (cases "get_row i r") auto
  show "snd (mark_cancelled now tid who (r, cl)) = Some (task_to_dict (cancel_row now who t))"
    by (rule d)
qed

lemma cancel_task_table:
  assumes "table_ok r" "get_row tid r = Some t"
  shows "get_row i (fst (cancel_task now tid r)) =
    map_option (\<lambda>u.
      if status t = Queued then
        (if i = tid then cancel_row now ''user'' u
         else if below (look r) tid i \<and> (status u = Queued \<or> status u = Running)
         then (if status u = Queued then cancel_row now ''cascade'' u else cancelling_row now ''cascade'' u)
         else u)
      else if status t = Running \<and> i = tid then cancelling_row now ''user'' u else u) (get_row i r)"
proof (cases "status t")
  case Queued
  then show ?thesis
    using assms mark_cancelled_table(1) [OF assms, of i now "''user''" no_lists, unfolded stopped_row_def]
    by (simp add: cancel_task_def dispatch_cancel_def dispatch_cancel_with_def mark_cancelled_def
        cancellable_def split_def)
next
  case Running
  then show ?thesis
    using assms mark_cancelling_row [OF assms, of now "''user''"]
      fun_cong [OF mark_cancelling_row(2) [OF assms, of now "''user''"], of i]
    by (cases "get_row i r")
      (auto simp: cancel_task_def dispatch_cancel_def dispatch_cancel_with_def split_def)
qed (use assms in \<open>simp_all add: cancel_task_def dispatch_cancel_def dispatch_cancel_with_def option.map_ident\<close>)

lemma finalize_cancelled_table:
  assumes "table_ok r"
  shows "case finalize_cancelled now tid who r of (r', n, _) \<Rightarrow>
    if \<exists>t. get_row tid r = Some t \<and> active t
    then n = 1 \<and> (\<forall>i. get_row i r' =
      map_option (\<lambda>u. if i = tid then cancel_row now who u
        else if below (look r) tid i \<and> (status u = Queued \<or> status u = Running)
        then (if status u = Queued then cancel_row now ''cascade'' u else cancelling_row now ''cascade'' u)
        else u) (get_row i r))
    else n = 0 \<and> r' = r"
proof (cases "\<exists>t. get_row tid r = Some t \<and> active t")
  case True
  then obtain t where t: "get_row tid r = Some t" "cancellable t"
    by (auto simp: active_def cancellable_def ACTIVE_TASK_STATUSES_def)
  show ?thesis
    using True mark_cancelled_table [OF assms t, where now = now and who = who and cl = no_lists, unfolded stopped_row_def]
    by (simp add: finalize_cancelled_def split_def)
next
  case False
  have "snd (cancel_update now tid who r) = 0"
    using False cancel_update_row(1) [OF assms] count_none [OF assms, of tid cancellable]
    by (cases "get_row tid r")
      (auto simp: cancel_update_def Let_def active_def cancellable_def ACTIVE_TASK_STATUSES_def)
  then show ?thesis
    using False by (auto simp: finalize_cancelled_def mark_cancelled_def mark_cancelled_with_def split_def)
qed

subsection \<open>Properties\<close>

definition sample_chain :: repo where
  "sample_chain = sample_repo [sample_task ''a'' Running None 1, sample_task ''b'' Queued (Some ''a'') 2,
     sample_task ''c'' Queued (Some ''b'') 3, sample_task ''d'' Queued None 4]"

lemma sample_chain_below: "below (look sample_chain) ''a'' ''c''"
proof (rule below.further)
  show "below (look sample_chain) ''a'' ''b''"
    by (rule below.direct [where t = "sample_task ''b'' Queued (Some ''a'') 2"])
      (simp_all add: sample_chain_def sample_simps)
  show "get_row ''b'' sample_chain = Some (sample_task ''b'' Queued (Some ''a'') 2)"
    "get_row ''c'' sample_chain = Some (sample_task ''c'' Queued (Some ''b'') 3)"
    by (simp_all add: sample_chain_def sample_simps)
qed (simp_all add: sample_task_def)

text \<open>
  (C1) \<open>mark_failed\<close> on a running task. The task fails with the bounded message; every
  queued task that waits for it, directly or through queued tasks, fails too, and its
  message is the bounded cascade envelope that names the task it directly waits for and
  carries the original reason; every other row is left as it was.
\<close>

theorem mark_failed_effect:
  assumes "table_ok r" "get_row tid r = Some t" "status t = Running"
  shows "get_row i (fst (mark_failed now tid msg r)) =
    map_option (\<lambda>u. if i = tid then fail_row now msg u
      else if below (look r) tid i \<and> status u = Queued
      then fail_row now (encode_bounded_cascade_failure (the (dependency_task_id u)) msg) u else u)
      (get_row i r)"
  by (rule mark_failed_table [OF assms, of i now msg, unfolded blocked_row_def])

theorem mark_failed_effect_witness:
  "map_option status (get_row ''c'' (fst (mark_failed 9 ''a'' ''boom'' sample_chain))) = Some Failed"
  using mark_failed_effect [of sample_chain "''a''" "sample_task ''a'' Running None 1" "''c''" 9 "''boom''"]
    sample_chain_below
  by (simp add: sample_chain_def sample_simps)

text \<open>
  (C2) \<open>cancel_task\<close>, by the status of its target. A queued target is cancelled at once,
  and below it every queued task is cancelled and every running one asked to stop; a running
  target is only asked to stop, and nothing below it changes until it has stopped; a target
  already stopping or finished changes nothing.
\<close>

theorem cancel_task_effect:
  assumes "table_ok r" "get_row tid r = Some t"
  shows "get_row i (fst (cancel_task now tid r)) =
    map_option (\<lambda>u.
      if status t = Queued then
        (if i = tid then cancel_row now ''user'' u
         else if below (look r) tid i \<and> (status u = Queued \<or> status u = Running)
         then (if status u = Queued then cancel_row now ''cascade'' u else cancelling_row now ''cascade'' u)
         else u)
      else if status t = Running \<and> i = tid then cancelling_row now ''user'' u else u) (get_row i r)"
  by (rule cancel_task_table [OF assms])

theorem cancel_task_effect_witness:
  "map_option status (get_row ''c'' (fst (cancel_task 9 ''b'' sample_chain))) = Some Cancelled
   \<and> map_option status (get_row ''b'' (fst (cancel_task 9 ''a'' sample_chain))) = Some Queued"
proof -
  have "below (look sample_chain) ''b'' ''c''"
    by (rule below.direct [where t = "sample_task ''c'' Queued (Some ''b'') 3"])
      (simp_all add: sample_chain_def sample_simps)
  then show ?thesis
    using cancel_task_effect [of sample_chain "''b''" "sample_task ''b'' Queued (Some ''a'') 2" "''c''" 9]
      cancel_task_effect [of sample_chain "''a''" "sample_task ''a'' Running None 1" "''b''" 9]
    by (simp add: sample_chain_def sample_simps)
qed

text \<open>
  \<open>finalize_cancelled\<close>, the worker's last word on a task that was cancelled. A task
  not yet finished becomes \<open>cancelled\<close>, keeping the author of the cancellation when one was
  recorded; below it queued tasks are cancelled and running ones asked to stop; one row is
  reported. A finished or unknown task is left alone and no row is reported.
\<close>

theorem finalize_cancelled_effect:
  assumes "table_ok r"
  shows "case finalize_cancelled now tid who r of (r', n, _) \<Rightarrow>
    if \<exists>t. get_row tid r = Some t \<and> active t
    then n = 1 \<and> (\<forall>i. get_row i r' =
      map_option (\<lambda>u. if i = tid then cancel_row now who u
        else if below (look r) tid i \<and> (status u = Queued \<or> status u = Running)
        then (if status u = Queued then cancel_row now ''cascade'' u else cancelling_row now ''cascade'' u)
        else u) (get_row i r))
    else n = 0 \<and> r' = r"
  by (rule finalize_cancelled_table [OF assms])

theorem finalize_cancelled_effect_witness:
  "map_option status (get_row ''a'' (fst (finalize_cancelled 9 ''a'' ''user'' sample_chain))) = Some Cancelled"
proof -
  have ok: "table_ok sample_chain" by (simp add: sample_chain_def sample_simps)
  show ?thesis
    using finalize_cancelled_effect [OF ok, where now = 9 and tid = "''a''" and who = "''user''"]
    by (simp add: split_def) (simp add: sample_chain_def sample_simps)
qed

end
