(* ===== verification/TaskEvents.thy ===== *)
theory TaskEvents
  imports TaskCascade
begin

text \<open>
  The terminal events a repository records, for \<open>_record_terminal_event\<close> and its callers
  in \<open>lib/db/repositories/task_repo.py\<close>: an operation emits one event for each row it
  moves from an active to a terminal status, with the final status, and no other event. The
  relation \<open>transition\<close> says so and interprets \<open>repo_relation\<close>, so that the methods that
  cascade inherit it.
\<close>

definition event_of :: "task \<Rightarrow> terminal_event" where
  "event_of t = \<lparr>ev_task_id = task_id t, ev_project_name = project_name t, ev_status = status t,
     ev_task_type = task_type t\<rparr>"

definition newly_terminal :: "repo \<Rightarrow> repo \<Rightarrow> task set" where
  "newly_terminal r r' =
     {t'. \<exists>i t. get_row i r = Some t \<and> active t \<and> get_row i r' = Some t' \<and> \<not> active t'}"

definition exact_events :: "repo \<Rightarrow> repo \<Rightarrow> bool" where
  "exact_events r r' \<longleftrightarrow>
     (\<exists>es. terminal_events r' = terminal_events r @ es \<and> distinct (map ev_task_id es)
       \<and> set es = event_of ` newly_terminal r r')"

definition transition :: "repo \<Rightarrow> repo \<Rightarrow> bool" where
  "transition r r' \<longleftrightarrow> rows_evolve r r' \<and> (table_ok r \<longrightarrow> exact_events r r')"

lemma event_of_evolves:
  assumes "row_evolves t t'" "\<not> active t"
  shows "event_of t' = event_of t \<and> \<not> active t'"
proof -
  have "status t' = status t"
    using assms by (auto simp: row_evolves_def active_iff dest: terminal_final)
  then show ?thesis using assms
    by (auto simp: event_of_def row_evolves_def row_identity_simps active_iff)
qed

lemma newly_terminal_trans:
  assumes "rows_evolve r s" "rows_evolve s t"
  shows "event_of ` newly_terminal r t = event_of ` newly_terminal r s \<union> event_of ` newly_terminal s t"
proof (intro equalityI subsetI)
  fix e assume "e \<in> event_of ` newly_terminal r t"
  then obtain i a c where c: "e = event_of c" "get_row i r = Some a" "active a" "get_row i t = Some c" "\<not> active c"
    by (auto simp: newly_terminal_def)
  obtain b where b: "get_row i s = Some b" "row_evolves b c"
    using rows_evolve_row_back [OF assms(2) c(4)] by blast
  show "e \<in> event_of ` newly_terminal r s \<union> event_of ` newly_terminal s t"
  proof (cases "active b")
    case True
    then have "c \<in> newly_terminal s t" using b c by (auto simp: newly_terminal_def)
    then show ?thesis using c(1) by blast
  next
    case False
    then have "b \<in> newly_terminal r s" using b c by (auto simp: newly_terminal_def)
    then show ?thesis using c(1) event_of_evolves [OF b(2) False] by auto
  qed
next
  fix e assume "e \<in> event_of ` newly_terminal r s \<union> event_of ` newly_terminal s t"
  then consider b where "e = event_of b" "b \<in> newly_terminal r s" | c where "e = event_of c" "c \<in> newly_terminal s t"
    by blast
  then show "e \<in> event_of ` newly_terminal r t"
  proof cases
    case 1
    then obtain i a where b: "get_row i r = Some a" "active a" "get_row i s = Some b" "\<not> active b"
      by (auto simp: newly_terminal_def)
    obtain c where c: "get_row i t = Some c" "row_evolves b c"
      using rows_evolve_row [OF assms(2) b(3)] by blast
    have "c \<in> newly_terminal r t"
      using b c event_of_evolves [OF c(2) b(4)] by (auto simp: newly_terminal_def)
    then show ?thesis using 1 event_of_evolves [OF c(2) b(4)] by (metis image_eqI)
  next
    case 2
    then obtain i b where b: "get_row i s = Some b" "active b" "get_row i t = Some c" "\<not> active c"
      by (auto simp: newly_terminal_def)
    obtain a where "get_row i r = Some a" "active a"
      using rows_evolve_row_back [OF assms(1) b(1)] row_evolves_active b(2) by blast
    then have "c \<in> newly_terminal r t" using b by (auto simp: newly_terminal_def)
    then show ?thesis using 2 by blast
  qed
qed

lemma newly_terminal_ids:
  "t \<in> newly_terminal r s \<Longrightarrow> u \<in> newly_terminal s w \<Longrightarrow> task_id t \<noteq> task_id u"
  unfolding newly_terminal_def by clarsimp (metis get_row_SomeD option.inject)

lemma exact_events_trans:
  assumes "rows_evolve r s" "rows_evolve s t" "exact_events r s" "exact_events s t"
  shows "exact_events r t"
proof -
  obtain es where es: "terminal_events s = terminal_events r @ es" "distinct (map ev_task_id es)"
    "set es = event_of ` newly_terminal r s" using assms(3) by (auto simp: exact_events_def)
  obtain fs where fs: "terminal_events t = terminal_events s @ fs" "distinct (map ev_task_id fs)"
    "set fs = event_of ` newly_terminal s t" using assms(4) by (auto simp: exact_events_def)
  have "ev_task_id ` set es \<inter> ev_task_id ` set fs = {}"
    using es(3) fs(3) newly_terminal_ids by (auto simp: event_of_def)
  then have "distinct (map ev_task_id (es @ fs))" using es fs by simp
  moreover have "set (es @ fs) = event_of ` newly_terminal r t"
    using es fs newly_terminal_trans [OF assms(1,2)] by simp
  ultimately show ?thesis using es fs unfolding exact_events_def by (metis append.assoc)
qed

lemma transition_trans: "transition r s \<Longrightarrow> transition s t \<Longrightarrow> transition r t"
  unfolding transition_def using exact_events_trans rows_evolve_trans rows_evolve_table_ok by blast

text \<open>An operation that ends no row emits nothing.\<close>

lemma exact_events_none:
  assumes "terminal_events r' = terminal_events r"
    and "\<And>i t t'. get_row i r = Some t \<Longrightarrow> active t \<Longrightarrow> get_row i r' = Some t' \<Longrightarrow> active t'"
  shows "exact_events r r'"
proof -
  have "newly_terminal r r' = {}" using assms(2) by (auto simp: newly_terminal_def)
  then show ?thesis using assms(1) by (simp add: exact_events_def)
qed

lemma exact_events_update:
  assumes "keeps_identity f" "\<And>t. P t \<Longrightarrow> active t \<Longrightarrow> active (f t)"
  shows "exact_events r (r\<lparr>tasks := update_where P f (tasks r)\<rparr>)"
  by (rule exact_events_none) (use assms in \<open>auto simp: get_row_update split: if_splits\<close>)

text \<open>A guarded UPDATE that ends one active row, with its event.\<close>

lemma exact_events_end:
  assumes "table_ok r" "keeps_identity f" "\<And>t. Q t \<Longrightarrow> active t"
    and f: "\<And>t. status (f t) = s" "terminal s"
      "\<And>t. project_name (f t) = project_name t" "\<And>t. task_type (f t) = task_type t"
    and hit: "count_where (\<lambda>t. task_id t = d \<and> Q t) (tasks r) \<noteq> 0"
  shows "exact_events r (record_row_event d s
    (r\<lparr>tasks := update_where (\<lambda>t. task_id t = d \<and> Q t) f (tasks r)\<rparr>))"
proof -
  let ?r = "r\<lparr>tasks := update_where (\<lambda>t. task_id t = d \<and> Q t) f (tasks r)\<rparr>"
  obtain t where t: "get_row d r = Some t" "Q t"
    using hit count_id_where [OF assms(1), of d Q] by (auto split: option.splits if_splits)
  have l: "look ?r = (look r)(d \<mapsto> f t)" using look_update_one [of f d r t Q] assms(2) t by blast
  have row: "get_row d ?r = Some (f t)" using fun_cong [OF l, of d] by simp
  have "newly_terminal r ?r = {f t}"
  proof (intro equalityI subsetI)
    fix u assume "u \<in> newly_terminal r ?r"
    then obtain i a where "get_row i r = Some a" "active a" "get_row i ?r = Some u" "\<not> active u"
      by (auto simp: newly_terminal_def)
    then show "u \<in> {f t}" using fun_cong [OF l, of i] by (auto split: if_splits)
  next
    fix u assume "u \<in> {f t}"
    then show "u \<in> newly_terminal r ?r"
      using t row assms(3) f(1,2) by (auto simp: newly_terminal_def active_iff)
  qed
  moreover have "newly_terminal r (record_row_event d s ?r) = newly_terminal r ?r"
    by (simp add: newly_terminal_def)
  moreover have "task_id (f t) = d" using row by (auto dest: get_row_SomeD)
  ultimately show ?thesis
    using row f by (simp add: exact_events_def record_row_event_def record_terminal_event_def
        event_of_def terminal_def)
qed

lemma mark_failed_when_transition:
  assumes "s = Running \<or> s = Queued"
  shows "transition r (fst (mark_failed_when s now tid msg r))"
proof -
  have "exact_events r (fst (mark_failed_when s now tid msg r))" if ok: "table_ok r"
    using assms exact_events_none [of r r] exact_events_end [OF ok, of "fail_row now msg" "\<lambda>t. status t = s" Failed tid]
    by (auto simp: mark_failed_when_def Let_def fail_row_def active_iff)
  then show ?thesis using assms by (simp add: transition_def mark_failed_when_evolves)
qed

lemma cancellable_active: "cancellable t \<longleftrightarrow> active t"
  by (auto simp: cancellable_def active_def ACTIVE_TASK_STATUSES_def)

lemma cancel_update_transition: "transition r (fst (cancel_update now tid who r))"
proof -
  have "exact_events r (fst (cancel_update now tid who r))" if ok: "table_ok r"
    using exact_events_none [of r r] exact_events_end [OF ok, of "cancel_row now who" cancellable Cancelled tid]
    by (auto simp: cancel_update_def Let_def cancel_row_def cancellable_active)
  then show ?thesis by (simp add: transition_def cancel_update_evolves)
qed

lemma mark_cancelling_transition: "transition r (fst (mark_cancelling now tid who r))"
  using exact_events_update [of "cancelling_row now who" "\<lambda>t. task_id t = tid \<and> status t = Running" r]
  by (simp add: transition_def mark_cancelling_evolves) (simp add: mark_cancelling_def Let_def active_iff)

interpretation tra: repo_relation transition
proof (unfold_locales, goal_cases)
  case (1 r)
  then show ?case using exact_events_none [of r r] by (simp add: transition_def)
next
  case (2 r s t)
  then show ?case by (rule transition_trans)
qed (simp_all add: mark_failed_when_transition cancel_update_transition mark_cancelling_transition)

subsection \<open>The other operations\<close>

lemma mark_succeeded_transition: "transition r (fst (mark_succeeded now tid res r))"
proof -
  let ?f = "\<lambda>t. t\<lparr>status := Succeeded, result_json := Some (json_dumps (payload_or_empty res)),
    error_message := None, finished_at := Some now, updated_at := now\<rparr>"
  have "keeps_identity ?f" by (simp add: keeps_identity_def row_identity_simps)
  then have "exact_events r (fst (mark_succeeded now tid res r))" if ok: "table_ok r"
    using exact_events_none [of r r] exact_events_end [OF ok, of ?f "\<lambda>t. status t = Running" Succeeded tid]
    by (auto simp: mark_succeeded_def Let_def active_iff)
  then show ?thesis by (simp add: transition_def mark_succeeded_evolves)
qed

lemma update_transition:
  assumes "keeps_identity f" "rows_evolve r (r\<lparr>tasks := update_where P f (tasks r)\<rparr>)"
    "\<And>t. P t \<Longrightarrow> active t \<Longrightarrow> active (f t)"
  shows "transition r (r\<lparr>tasks := update_where P f (tasks r)\<rparr>)"
  using exact_events_update assms by (simp add: transition_def)

lemma claim_update_transition: "transition r (fst (claim_update now tid r))"
proof -
  have "exact_events r (r\<lparr>tasks := update_where (\<lambda>t. task_id t = tid \<and> status t = Queued) (run_row now) (tasks r)\<rparr>)"
    by (rule exact_events_update) (simp_all add: run_row_def keeps_identity_def row_identity_simps active_iff)
  then show ?thesis
    using claim_update_evolves [of r now tid] exact_events_none [of r r]
    by (auto simp: transition_def claim_update_def Let_def split: if_splits)
qed

lemma claim_next_transition: "transition r (fst (claim_next now media full ex r))"
  by (simp add: claim_next_def claim_update_transition tra.R_refl split: option.split)

lemma requeue_running_transition: "transition r (fst (requeue_running now limit r))"
proof -
  have "exact_events r (r\<lparr>tasks := update_where (\<lambda>t. task_id t \<in> I \<and> status t = Running)
      (\<lambda>t. t\<lparr>status := Queued, started_at := None, finished_at := None, updated_at := now,
        result_json := None, error_message := None\<rparr>) (tasks r)\<rparr>)" for I
    by (rule exact_events_update) (simp_all add: keeps_identity_def row_identity_simps active_iff)
  then show ?thesis
    using requeue_running_evolves [of r now limit] exact_events_none [of r r]
    by (auto simp: transition_def requeue_running_def Let_def)
qed

lemma requeue_single_task_transition: "transition r (fst (requeue_single_task now tid r))"
proof -
  have "exact_events r (r\<lparr>tasks := update_where (\<lambda>t. task_id t = tid \<and> status t = Running)
      (\<lambda>t. t\<lparr>status := Queued, started_at := None, updated_at := now\<rparr>) (tasks r)\<rparr>)"
    by (rule exact_events_update) (simp_all add: keeps_identity_def row_identity_simps active_iff)
  then show ?thesis
    using requeue_single_task_evolves [of r now tid] by (simp add: transition_def requeue_single_task_def Let_def)
qed

lemma persist_provider_job_id_transition: "transition r (persist_provider_job_id now tid job e u r)"
  unfolding persist_provider_job_id_def
  by (rule update_transition [OF _ persist_provider_job_id_evolves [unfolded persist_provider_job_id_def]])
    (simp_all add: keeps_identity_def row_identity_simps set_job_fields_def Let_def active_iff split: option.split)

lemma persist_execution_provider_id_transition: "transition r (persist_execution_provider_id now tid p r)"
  unfolding persist_execution_provider_id_def
  by (rule update_transition [OF _ persist_execution_provider_id_evolves [unfolded persist_execution_provider_id_def]])
    (simp_all add: keeps_identity_def row_identity_simps active_iff)

lemma persist_execution_checkpoint_transition:
  "transition r (fst (persist_execution_checkpoint now tid c p r))"
proof -
  have "exact_events r (r\<lparr>tasks := update_where (checkpoint_guard tid)
      (\<lambda>t. t\<lparr>execution_checkpoint_json := Some c, provider_id := Some p, updated_at := now\<rparr>) (tasks r)\<rparr>)"
    by (rule exact_events_update) (simp_all add: keeps_identity_def row_identity_simps active_iff)
  then show ?thesis
    using persist_execution_checkpoint_evolves [of r now tid c p] exact_events_none [of r r]
    by (auto simp: transition_def persist_execution_checkpoint_def split: if_splits)
qed

lemma merge_payload_field_transition: "transition r (fst (merge_payload_field now tid k v b r))"
proof -
  have "exact_events r (r\<lparr>tasks := update_where (has_id tid)
      (\<lambda>t. t\<lparr>payload_json := j, updated_at := now\<rparr>) (tasks r)\<rparr>)" for j
    by (rule exact_events_update) (simp_all add: keeps_identity_def row_identity_simps active_iff)
  then show ?thesis
    using merge_payload_field_evolves [of r now tid k v b] exact_events_none [of r r]
    by (auto simp: transition_def merge_payload_field_def Let_def split: option.splits)
qed

text \<open>\<open>cancel_all_queued\<close> ends several rows with one UPDATE.\<close>

lemma events_fold_record:
  assumes "terminal s"
  shows "terminal_events (fold (\<lambda>t. record_terminal_event (task_id t) p s (task_type t)) ts r) =
    terminal_events r @ map (\<lambda>t. \<lparr>ev_task_id = task_id t, ev_project_name = p, ev_status = s,
      ev_task_type = task_type t\<rparr>) ts"
  using assms by (induction ts arbitrary: r) (simp_all add: record_terminal_event_def terminal_def)

lemma newly_terminal_update:
  assumes "table_ok r" "keeps_identity f" "\<And>t. P t \<Longrightarrow> active t \<and> \<not> active (f t)"
  shows "newly_terminal r (r\<lparr>tasks := update_where P f (tasks r)\<rparr>) = f ` {t \<in> set (tasks r). P t}"
proof (intro equalityI subsetI)
  fix u assume "u \<in> newly_terminal r (r\<lparr>tasks := update_where P f (tasks r)\<rparr>)"
  then show "u \<in> f ` {t \<in> set (tasks r). P t}"
    using assms(2) by (auto simp: newly_terminal_def get_row_update dest: get_row_SomeD split: if_splits)
next
  fix u assume "u \<in> f ` {t \<in> set (tasks r). P t}"
  then obtain t where t: "t \<in> set (tasks r)" "P t" "u = f t" by auto
  then have "get_row (task_id t) r = Some t" "get_row (task_id t) (r\<lparr>tasks := update_where P f (tasks r)\<rparr>) = Some u"
    using get_row_mem [OF assms(1)] assms(2) by (auto simp: get_row_update)
  then show "u \<in> newly_terminal r (r\<lparr>tasks := update_where P f (tasks r)\<rparr>)"
    using assms(3) t unfolding newly_terminal_def by blast
qed

lemma filter_hit:
  assumes "distinct (map task_id ts)" "keeps_identity f" "\<And>t. P t \<Longrightarrow> status (f t) = s"
  shows "filter (\<lambda>t. task_id t \<in> set (map task_id (filter P ts)) \<and> status t = s) (update_where P f ts) =
    map f (filter P ts)"
proof -
  let ?g = "\<lambda>x. if P x then f x else x"
  have "task_id (?g x) \<in> set (map task_id (filter P ts)) \<and> status (?g x) = s \<longleftrightarrow> P x" if "x \<in> set ts" for x
    using that assms keeps_identityD(1) [OF assms(2)] by (auto simp: distinct_map inj_on_def)
  then have "filter ((\<lambda>t. task_id t \<in> set (map task_id (filter P ts)) \<and> status t = s) \<circ> ?g) ts = filter P ts"
    unfolding comp_def by (rule filter_cong [OF refl])
  then have "filter (\<lambda>t. task_id t \<in> set (map task_id (filter P ts)) \<and> status t = s) (update_where P f ts) =
      map ?g (filter P ts)"
    unfolding update_where_def filter_map by (rule arg_cong)
  also have "\<dots> = map f (filter P ts)" by simp
  finally show ?thesis .
qed

lemma cancel_all_queued_transition: "transition r (fst (cancel_all_queued now project r))"
proof -
  let ?P = "\<lambda>t. project_name t = project \<and> status t = Queued"
  let ?f = "\<lambda>t. t\<lparr>status := Cancelled, cancelled_by := Some ''user'', finished_at := Some now, updated_at := now\<rparr>"
  let ?r = "r\<lparr>tasks := update_where ?P ?f (tasks r)\<rparr>"
  have kf: "keeps_identity ?f" by (simp add: keeps_identity_def row_identity_simps)
  have "exact_events r (fst (cancel_all_queued now project r))" if ok: "table_ok r"
  proof -
    have dist: "distinct (map task_id (tasks r))" using ok by (simp add: table_ok_def)
    have res: "fst (cancel_all_queued now project r) =
        fold (\<lambda>t. record_terminal_event (task_id t) project Cancelled (task_type t)) (map ?f (filter ?P (tasks r))) ?r"
      using filter_hit [OF dist kf, of ?P Cancelled] by (simp add: cancel_all_queued_def Let_def)
    have ev: "terminal_events (fst (cancel_all_queued now project r)) =
        terminal_events r @ map event_of (map ?f (filter ?P (tasks r)))"
      unfolding res by (subst events_fold_record) (auto simp: event_of_def)
    have "newly_terminal r (fst (cancel_all_queued now project r)) = newly_terminal r ?r"
      unfolding res by (simp add: newly_terminal_def get_row_def tasks_fold_record)
    also have "\<dots> = ?f ` {t \<in> set (tasks r). ?P t}"
      by (rule newly_terminal_update [OF ok kf]) (simp add: active_iff)
    finally have nt: "newly_terminal r (fst (cancel_all_queued now project r)) = ?f ` {t \<in> set (tasks r). ?P t}" .
    have "distinct (map task_id (filter ?P (tasks r)))" by (rule distinct_map_filter [OF dist])
    then have "distinct (map ev_task_id (map event_of (map ?f (filter ?P (tasks r)))))"
      by (simp add: event_of_def comp_def)
    then show ?thesis
      unfolding exact_events_def ev nt
      by (intro exI [of _ "map event_of (map ?f (filter ?P (tasks r)))"])
        (simp add: image_comp comp_def)
  qed
  then show ?thesis by (simp add: transition_def cancel_all_queued_evolves)
qed

end
