(* ===== verification/QueueRuns.thy ===== *)
theory QueueRuns
  imports TaskEvents
begin

text \<open>
  Runs of the task queue: any interleaving of repository operations, each in its own
  transaction, from an empty database. \<open>repo_step\<close> has one rule per state-changing method of
  \<open>TaskRepository\<close> and one for the requeue of the worker; the claim of a task is the UPDATE alone, so that the candidate may have
  been chosen in any earlier state. The invariants of every reachable state are that the
  table is well formed, that the columns of a row agree with its status and that the
  terminal events are the ledger of the finished tasks.
\<close>

subsection \<open>The columns of a row agree with its status\<close>

definition row_wf :: "task \<Rightarrow> bool" where
  "row_wf t \<longleftrightarrow>
     (case status t of
        Queued \<Rightarrow> started_at t = None \<and> finished_at t = None \<and> result_json t = None
          \<and> error_message t = None \<and> cancelled_by t = None
      | Running \<Rightarrow> started_at t \<noteq> None \<and> finished_at t = None \<and> result_json t = None
          \<and> error_message t = None \<and> cancelled_by t = None
      | Cancelling \<Rightarrow> started_at t \<noteq> None \<and> finished_at t = None \<and> result_json t = None
          \<and> error_message t = None \<and> cancelled_by t \<noteq> None
      | Succeeded \<Rightarrow> started_at t \<noteq> None \<and> finished_at t \<noteq> None \<and> result_json t \<noteq> None
          \<and> error_message t = None \<and> cancelled_by t = None
      | Failed \<Rightarrow> finished_at t \<noteq> None \<and> result_json t = None \<and> cancelled_by t = None
          \<and> (\<exists>e. error_message t = Some e \<and> length e \<le> MAX_ERROR_MESSAGE_LEN)
      | Cancelled \<Rightarrow> finished_at t \<noteq> None \<and> result_json t = None \<and> error_message t = None
          \<and> cancelled_by t \<noteq> None)"

definition rows_wf :: "repo \<Rightarrow> bool" where
  "rows_wf r \<longleftrightarrow> (\<forall>t \<in> set (tasks r). row_wf t)"

definition keeps_wf :: "repo \<Rightarrow> repo \<Rightarrow> bool" where
  "keeps_wf r r' \<longleftrightarrow> (rows_wf r \<longrightarrow> rows_wf r')"

lemma keeps_wf_refl [simp]: "keeps_wf r r"
  by (simp add: keeps_wf_def)

lemma rows_wf_record [simp]: "rows_wf (record_row_event tid s r) = rows_wf r"
  by (simp add: rows_wf_def)

lemma keeps_wf_record [simp]: "keeps_wf r (record_row_event tid s r') = keeps_wf r r'"
  by (simp add: keeps_wf_def)

lemma keeps_wf_update:
  assumes "\<And>t. row_wf t \<Longrightarrow> P t \<Longrightarrow> row_wf (f t)"
  shows "keeps_wf r (r\<lparr>tasks := update_where P f (tasks r)\<rparr>)"
  using assms by (auto simp: keeps_wf_def rows_wf_def set_update_where)

lemma mark_failed_when_wf:
  "seen = Running \<or> seen = Queued \<Longrightarrow> keeps_wf r (fst (mark_failed_when seen now tid msg r))"
  by (auto simp: mark_failed_when_def Let_def row_wf_def fail_row_def bound_reason_length_aux
      intro!: keeps_wf_update)

lemma cancel_update_wf: "keeps_wf r (fst (cancel_update now tid who r))"
  by (auto simp: cancel_update_def Let_def row_wf_def cancel_row_def cancellable_def intro!: keeps_wf_update)

lemma mark_cancelling_wf: "keeps_wf r (fst (mark_cancelling now tid who r))"
  by (auto simp: mark_cancelling_def Let_def row_wf_def cancelling_row_def intro!: keeps_wf_update)

interpretation wfr: repo_relation keeps_wf
  by unfold_locales (auto simp: mark_failed_when_wf cancel_update_wf mark_cancelling_wf, simp add: keeps_wf_def)

lemma claim_update_wf: "keeps_wf r (fst (claim_update now tid r))"
  by (auto simp: claim_update_def run_row_def Let_def row_wf_def intro!: keeps_wf_update)

lemma mark_succeeded_wf: "keeps_wf r (fst (mark_succeeded now tid res r))"
  by (auto simp: mark_succeeded_def Let_def row_wf_def intro!: keeps_wf_update)

lemma cancel_all_queued_wf: "keeps_wf r (fst (cancel_all_queued now project r))"
proof -
  have "keeps_wf r (r\<lparr>tasks := update_where (\<lambda>t. project_name t = project \<and> status t = Queued)
      (\<lambda>t. t\<lparr>status := Cancelled, cancelled_by := Some ''user'', finished_at := Some now,
        updated_at := now\<rparr>) (tasks r)\<rparr>)"
    by (rule keeps_wf_update) (auto simp: row_wf_def)
  then show ?thesis
    by (simp add: keeps_wf_def rows_wf_def cancel_all_queued_def Let_def tasks_fold_record)
qed

lemma requeue_running_wf: "keeps_wf r (fst (requeue_running now limit r))"
  by (auto simp: requeue_running_def Let_def row_wf_def intro!: keeps_wf_update)

lemma requeue_single_task_wf: "keeps_wf r (fst (requeue_single_task now tid r))"
  by (auto simp: requeue_single_task_def Let_def row_wf_def intro!: keeps_wf_update)

lemma persist_wf:
  "keeps_wf r (persist_provider_job_id now tid job e u r)"
  "keeps_wf r (fst (persist_execution_checkpoint now tid c p r))"
  "keeps_wf r (fst (merge_payload_field now tid k v b r))"
  "keeps_wf r (persist_execution_provider_id now tid p r)"
  by (auto simp: persist_provider_job_id_def set_job_fields_def persist_execution_checkpoint_def
      merge_payload_field_def persist_execution_provider_id_def Let_def row_wf_def
      split: option.split status.split intro!: keeps_wf_update)

subsection \<open>Steps\<close>

inductive repo_step :: "repo \<Rightarrow> repo \<Rightarrow> bool" where
  enqueue: "repo_step r (fst (enqueue now tid q r))"
| claim: "repo_step r (fst (claim_update now tid r))"
| succeeded: "repo_step r (fst (mark_succeeded now tid res r))"
| failed: "repo_step r (fst (mark_failed now tid msg r))"
| cancel: "repo_step r (fst (cancel_task now tid r))"
| cancel_all: "repo_step r (fst (cancel_all_queued now project r))"
| finalize: "repo_step r (fst (finalize_cancelled now tid who r))"
| job: "repo_step r (persist_provider_job_id now tid job ep url r)"
| checkpoint: "repo_step r (fst (persist_execution_checkpoint now tid cp prov r))"
| payload: "repo_step r (fst (merge_payload_field now tid key v strict r))"
| provider: "repo_step r (persist_execution_provider_id now tid prov r)"
| requeue: "repo_step r (fst (requeue_running now limit r))"
| requeue_one: "repo_step r (fst (requeue_single_task now tid r))"
| acquire: "repo_step r (fst (acquire_or_renew_lease epoch now nm owner ttl r))"
| release: "repo_step r (release_lease nm owner r)"

inductive reachable :: "repo \<Rightarrow> bool" where
  empty: "reachable \<lparr>tasks = [], worker_leases = [], terminal_events = []\<rparr>"
| step: "reachable r \<Longrightarrow> repo_step r r' \<Longrightarrow> reachable r'"

lemma enqueue_cases:
  obtains "fst (enqueue now tid q r) = r" |
    "fst (enqueue now tid q r) = r\<lparr>tasks := tasks r @ [new_task now tid q]\<rparr>"
    "\<not> insert_violates (new_task now tid q) r"
  by (cases "insert_violates (new_task now tid q) r") (auto simp: enqueue_def Let_def)

lemma tasks_lease [simp]:
  "tasks (fst (acquire_or_renew_lease epoch now nm owner ttl r)) = tasks r"
  "tasks (release_lease nm owner r) = tasks r"
  "terminal_events (fst (acquire_or_renew_lease epoch now nm owner ttl r)) = terminal_events r"
  "terminal_events (release_lease nm owner r) = terminal_events r"
  by (simp_all add: acquire_or_renew_lease_def release_lease_def Let_def)

text \<open>A step is an insertion or a transition of the rows there are.\<close>

lemma transition_same:
  assumes "tasks r' = tasks r" "terminal_events r' = terminal_events r"
  shows "transition r r'"
proof -
  have "get_row i r' = get_row i r" for i using assms(1) by (simp add: get_row_def)
  then have "exact_events r r'" using assms(2) by (intro exact_events_none) auto
  then show ?thesis using assms(1) rows_evolve_tasks by (simp add: transition_def)
qed

lemmas op_transitions = claim_update_transition mark_succeeded_transition tra.mark_failed_rel
  tra.cancel_task_rel cancel_all_queued_transition tra.finalize_cancelled_rel
  persist_provider_job_id_transition persist_execution_checkpoint_transition
  merge_payload_field_transition persist_execution_provider_id_transition requeue_running_transition requeue_single_task_transition

lemmas op_wfs = claim_update_wf mark_succeeded_wf wfr.mark_failed_rel wfr.cancel_task_rel
  cancel_all_queued_wf wfr.finalize_cancelled_rel persist_wf requeue_running_wf requeue_single_task_wf

lemma repo_step_cases:
  assumes "repo_step r r'"
  obtains "transition r r'" "keeps_wf r r'" | now tid q where "r' = r\<lparr>tasks := tasks r @ [new_task now tid q]\<rparr>"
    "\<not> insert_violates (new_task now tid q) r"
  using assms
proof cases
  case (enqueue now tid q)
  then show ?thesis using that tra.R_refl keeps_wf_refl by (metis enqueue_cases)
next
  case (acquire epoch now nm owner ttl)
  then show ?thesis using that(1) by (simp add: transition_same keeps_wf_def rows_wf_def)
next
  case (release nm owner)
  then show ?thesis using that(1) by (simp add: transition_same keeps_wf_def rows_wf_def)
qed (use that(1) op_transitions op_wfs in auto)

subsection \<open>Invariants\<close>

definition finished_rows :: "repo \<Rightarrow> task set" where
  "finished_rows r = {t \<in> set (tasks r). \<not> active t}"

definition ledger_ok :: "repo \<Rightarrow> bool" where
  "ledger_ok r \<longleftrightarrow> distinct (map ev_task_id (terminal_events r))
     \<and> set (terminal_events r) = event_of ` finished_rows r"

lemma finished_rows_get: "table_ok r \<Longrightarrow> finished_rows r = {t. \<exists>i. get_row i r = Some t \<and> \<not> active t}"
  unfolding finished_rows_def by (auto dest: get_row_mem get_row_SomeD)

lemma finished_rows_transition:
  assumes "table_ok r" "rows_evolve r r'"
  shows "event_of ` finished_rows r' = event_of ` finished_rows r \<union> event_of ` newly_terminal r r'"
proof -
  note f = finished_rows_get [OF assms(1)] finished_rows_get [OF rows_evolve_table_ok [OF assms(2,1)]]
  show ?thesis
  proof (intro equalityI subsetI)
    fix e assume "e \<in> event_of ` finished_rows r'"
    then obtain i t' where t': "e = event_of t'" "get_row i r' = Some t'" "\<not> active t'" using f by auto
    obtain t where t: "get_row i r = Some t" "row_evolves t t'"
      using rows_evolve_row_back [OF assms(2) t'(2)] by blast
    show "e \<in> event_of ` finished_rows r \<union> event_of ` newly_terminal r r'"
    proof (cases "active t")
      case True
      then have "t' \<in> newly_terminal r r'" using t t' by (auto simp: newly_terminal_def)
      then show ?thesis using t'(1) by blast
    next
      case False
      then have "t \<in> finished_rows r" using t f by blast
      then show ?thesis using t'(1) event_of_evolves [OF t(2) False] by auto
    qed
  next
    fix e assume "e \<in> event_of ` finished_rows r \<union> event_of ` newly_terminal r r'"
    then consider t i where "e = event_of t" "get_row i r = Some t" "\<not> active t"
      | t i where "e = event_of t" "get_row i r' = Some t" "\<not> active t"
      using f by (auto simp: newly_terminal_def)
    then show "e \<in> event_of ` finished_rows r'"
    proof cases
      case 1
      then obtain t' where "get_row i r' = Some t'" "row_evolves t t'"
        using rows_evolve_row [OF assms(2)] by blast
      then show ?thesis using 1 event_of_evolves f by (metis (mono_tags, lifting) image_eqI mem_Collect_eq)
    next
      case 2
      then show ?thesis using f by blast
    qed
  qed
qed

lemma ledger_transition:
  assumes "table_ok r" "ledger_ok r" "transition r r'"
  shows "ledger_ok r'"
proof -
  have ev: "rows_evolve r r'" "exact_events r r'" using assms by (simp_all add: transition_def)
  obtain es where es: "terminal_events r' = terminal_events r @ es" "distinct (map ev_task_id es)"
    "set es = event_of ` newly_terminal r r'" using ev(2) by (auto simp: exact_events_def)
  have "task_id t \<noteq> task_id u" if "t \<in> finished_rows r" "u \<in> newly_terminal r r'" for t u
    using that finished_rows_get [OF assms(1)] unfolding newly_terminal_def
    by clarsimp (metis get_row_SomeD option.inject)
  then have "ev_task_id ` set (terminal_events r) \<inter> ev_task_id ` set es = {}"
    using assms(2) es(3) unfolding ledger_ok_def by (auto simp: event_of_def)
  then show ?thesis
    using assms(2) es finished_rows_transition [OF assms(1) ev(1)] by (simp add: ledger_ok_def)
qed

lemma new_task_facts [simp]:
  "active (new_task now tid q)" "row_wf (new_task now tid q)" "task_id (new_task now tid q) = tid"
  by (simp_all add: new_task_def active_iff row_wf_def)

lemma insert_table_ok: "table_ok r \<Longrightarrow> \<not> insert_violates t r \<Longrightarrow> table_ok (r\<lparr>tasks := tasks r @ [t]\<rparr>)"
  by (auto simp: table_ok_def insert_violates_def list_ex_iff)

definition repo_inv :: "repo \<Rightarrow> bool" where
  "repo_inv r \<longleftrightarrow> table_ok r \<and> rows_wf r \<and> ledger_ok r"

lemma repo_step_inv:
  assumes "repo_step r r'" "repo_inv r"
  shows "repo_inv r'"
  using assms(1)
proof (cases rule: repo_step_cases)
  case 1
  then show ?thesis using assms(2) ledger_transition rows_evolve_table_ok
    by (auto simp: repo_inv_def transition_def keeps_wf_def)
next
  case (2 now tid q)
  have "finished_rows r' = finished_rows r" using 2(1) by (auto simp: finished_rows_def)
  then show ?thesis using 2 assms(2) insert_table_ok
    by (auto simp: repo_inv_def ledger_ok_def rows_wf_def)
qed

lemma reachable_inv: "reachable r \<Longrightarrow> repo_inv r"
proof (induction rule: reachable.induct)
  case empty
  then show ?case by (simp add: repo_inv_def table_ok_def rows_wf_def ledger_ok_def finished_rows_def)
qed (rule repo_step_inv)

lemma repo_step_row:
  assumes "repo_step r r'" "get_row i r = Some t"
  shows "\<exists>t'. get_row i r' = Some t' \<and> row_evolves t t'"
  using assms(1)
proof (cases rule: repo_step_cases)
  case 1
  then show ?thesis using rows_evolve_row assms(2) by (auto simp: transition_def)
next
  case (2 now tid q)
  have "find P (xs @ ys) = Some x" if "find P xs = Some x" for P :: "task \<Rightarrow> bool" and xs ys x
    using that by (induction xs) (auto split: if_splits)
  then show ?thesis using assms(2) 2(1) by (auto simp: get_row_def)
qed

lemma repo_steps_row:
  "repo_step\<^sup>*\<^sup>* r r' \<Longrightarrow> get_row i r = Some t \<Longrightarrow> \<exists>t'. get_row i r' = Some t' \<and> row_evolves t t'"
proof (induction rule: rtranclp_induct)
  case (step y z)
  then show ?case using repo_step_row row_evolves_trans by blast
qed simp

subsection \<open>Properties of every run\<close>

definition sample_request :: "string \<Rightarrow> string option \<Rightarrow> enqueue_request" where
  "sample_request rid dep =
     \<lparr>rq_project_name = ''p'', rq_task_type = ''storyboard'', rq_media_type = ''image'',
      rq_resource_id = rid, rq_payload = None, rq_script_file = None, rq_resource_type = None,
      rq_source = ''webui'', rq_dependency_task_id = dep, rq_dependency_group = None,
      rq_dependency_index = None, rq_user_id = ''u'', rq_provider_id = None\<rparr>"

definition sample_run :: repo where
  "sample_run = fst (mark_failed 7 ''a'' ''boom'' (fst (claim_update 5 ''a''
     (fst (enqueue 2 ''b'' (sample_request ''s2'' (Some ''a''))
       (fst (enqueue 1 ''a'' (sample_request ''s1'' None) (sample_repo [])))))))) "

lemma sample_run_reachable: "reachable sample_run"
proof -
  have "reachable (sample_repo [])" using reachable.empty by (simp add: sample_repo_def)
  then show ?thesis unfolding sample_run_def
    by (intro reachable.step [OF _ repo_step.failed] reachable.step [OF _ repo_step.claim]
        reachable.step [OF _ repo_step.enqueue])
qed

text \<open>
  (C3) No duplicate work. In every state a run can reach, two unfinished tasks that agree
  on project, task type, resource, script file and resource type (a missing script file or
  resource type counting as the empty string) are the same task.
\<close>

theorem active_tasks_unique:
  assumes "reachable r" "t \<in> set (tasks r)" "u \<in> set (tasks r)" "active t" "active u"
    "dedupe_key t = dedupe_key u"
  shows "t = u"
proof -
  have "distinct (map dedupe_key (filter active (tasks r)))"
    using reachable_inv [OF assms(1)] by (simp add: repo_inv_def table_ok_def)
  then show ?thesis using assms by (auto simp: distinct_map inj_on_def)
qed

definition sample_twice :: repo where
  "sample_twice = fst (enqueue 2 ''b'' (sample_request ''s1'' None)
     (fst (enqueue 1 ''a'' (sample_request ''s1'' None) (sample_repo []))))"

theorem active_tasks_unique_witness: "hd (tasks sample_twice) = last (tasks sample_twice)"
proof (rule active_tasks_unique [of sample_twice])
  have "reachable (sample_repo [])" using reachable.empty by (simp add: sample_repo_def)
  then show "reachable sample_twice" unfolding sample_twice_def
    by (intro reachable.step [OF _ repo_step.enqueue])
qed code_simp+

text \<open>
  (C8) The columns of a row agree with its status in every reachable state: only a task that
  ended has a finish time, only a succeeded one a result, only a failed one an error message
  (of at most 2000 characters), and a cancellation always has an author.
\<close>

theorem rows_consistent:
  assumes "reachable r" "t \<in> set (tasks r)"
  shows "row_wf t"
  using reachable_inv [OF assms(1)] assms(2) by (simp add: repo_inv_def rows_wf_def)

theorem rows_consistent_witness: "row_wf (hd (tasks sample_run))"
proof (rule rows_consistent [OF sample_run_reachable])
  show "hd (tasks sample_run) \<in> set (tasks sample_run)" by code_simp
qed

text \<open>
  (C4) The ledger of terminal events. In every reachable state the events recorded are
  exactly one per finished task, with its project, its type and its final status, and none
  for a task that has not finished.
\<close>

theorem terminal_event_ledger:
  assumes "reachable r"
  shows "distinct (map ev_task_id (terminal_events r))
    \<and> set (terminal_events r) =
      (\<lambda>t. \<lparr>ev_task_id = task_id t, ev_project_name = project_name t, ev_status = status t,
        ev_task_type = task_type t\<rparr>) ` {t \<in> set (tasks r). terminal (status t)}"
  using reachable_inv [OF assms]
  by (simp add: repo_inv_def ledger_ok_def event_of_def [abs_def] finished_rows_def active_iff)

theorem terminal_event_ledger_witness:
  "set (map ev_task_id (terminal_events sample_run)) = {''a'', ''b''}"
proof -
  have "{t \<in> set (tasks sample_run). terminal (status t)} = set (filter (\<lambda>t. terminal (status t)) (tasks sample_run))"
    by simp
  moreover have "set (map task_id (filter (\<lambda>t. terminal (status t)) (tasks sample_run))) = {''a'', ''b''}"
    by code_simp
  ultimately show ?thesis
    using terminal_event_ledger [OF sample_run_reachable] by (simp add: image_image)
qed

text \<open>
  (C9) An outcome is final: whatever the workers and the API do afterwards, a task that
  ended keeps its status, result, error message, finish time and the author of its
  cancellation, and it never disappears from the table.
\<close>

theorem outcome_final:
  assumes "repo_step\<^sup>*\<^sup>* r r'" "get_row i r = Some t" "terminal (status t)"
  shows "\<exists>t'. get_row i r' = Some t' \<and> status t' = status t \<and> result_json t' = result_json t
    \<and> error_message t' = error_message t \<and> finished_at t' = finished_at t \<and> cancelled_by t' = cancelled_by t"
  using repo_steps_row [OF assms(1,2)] assms(3) by (auto simp: row_evolves_def outcome_def)

theorem outcome_final_witness:
  "\<exists>t'. get_row ''a'' (fst (finalize_cancelled 9 ''a'' ''user'' sample_run)) = Some t' \<and> status t' = Failed"
proof -
  have "\<exists>t. get_row ''a'' sample_run = Some t \<and> status t = Failed"
    by (rule exI [of _ "hd (tasks sample_run)"]) code_simp
  then obtain t where "get_row ''a'' sample_run = Some t" "status t = Failed" by blast
  then show ?thesis
    using outcome_final [OF r_into_rtranclp [of repo_step, OF repo_step.finalize]] by fastforce
qed

end
