(* ===== verification/QueueOps.thy ===== *)
theory QueueOps
  imports QueueRuns
begin

text \<open>
  What the single operations of the repository do: claiming in queue order, deduplicating
  an enqueue, the execution checkpoint, the payload column, the worker lease (with its
  interface as the locale \<open>lease_book\<close>), the pages and counts of the queries, the preview of
  a cancellation and the failure message of a cascade.
\<close>

subsection \<open>Claiming\<close>

lemma keeps_identity_run [simp]: "keeps_identity (run_row now)"
  by (simp add: keeps_identity_def run_row_def row_identity_simps)

lemma claim_update_row:
  assumes "table_ok r" "get_row d r = Some t"
  shows "claim_update now d r =
    (if status t = Queued
     then (r\<lparr>tasks := update_where (\<lambda>t. task_id t = d \<and> status t = Queued) (run_row now) (tasks r)\<rparr>,
           Some (task_to_dict (run_row now t)))
     else (r, None))"
  using count_one [OF assms, of "\<lambda>t. status t = Queued"] assms(2)
    get_row_update [OF keeps_identity_run [of now], where i = d and r = r and P = "\<lambda>t. task_id t = d \<and> status t = Queued"]
  by (auto simp: claim_update_def Let_def dest: get_row_SomeD)

lemma claim_update_look:
  assumes "table_ok r" "get_row d r = Some t" "status t = Queued"
  shows "look (fst (claim_update now d r)) = (look r)(d \<mapsto> run_row now t)"
  using claim_update_row [OF assms(1,2)] look_update_one [OF keeps_identity_run assms(2), of "\<lambda>t. status t = Queued"] assms(3)
  by simp

lemma sort_key_hd_least:
  assumes "sort_key k xs = x # ys"
  shows "x \<in> set xs" "\<forall>y \<in> set xs. k x \<le> k y"
proof -
  have "sorted (map k (x # ys))" using sorted_sort_key [of k xs] assms by simp
  moreover have "set (x # ys) = set xs" using assms by (metis set_sort)
  ultimately show "x \<in> set xs" "\<forall>y \<in> set xs. k x \<le> k y" by auto
qed

lemma claim_select_None: "claim_select media full ex r = None \<longleftrightarrow> (\<forall>t \<in> set (tasks r). \<not> claimable media full ex r t)"
proof -
  have "claim_select media full ex r = None \<longleftrightarrow> sort_key queued_at (filter (claimable media full ex r) (tasks r)) = []"
    by (simp add: claim_select_def split: list.split)
  also have "\<dots> \<longleftrightarrow> filter (claimable media full ex r) (tasks r) = []"
    by (metis length_0_conv length_sort)
  finally show ?thesis by (simp add: filter_empty_conv)
qed

lemma claim_select_Some:
  assumes "claim_select media full ex r = Some d"
  shows "\<exists>t \<in> set (tasks r). task_id t = d \<and> claimable media full ex r t
    \<and> (\<forall>u \<in> set (tasks r). claimable media full ex r u \<longrightarrow> queued_at t \<le> queued_at u)"
proof -
  obtain t ts where t: "sort_key queued_at (filter (claimable media full ex r) (tasks r)) = t # ts" "task_id t = d"
    using assms by (auto simp: claim_select_def split: list.splits)
  show ?thesis using sort_key_hd_least [OF t(1)] t(2) by auto
qed

lemma claim_next_table:
  assumes "table_ok r"
  shows "case claim_next now media full excluded r of
    (r', None) \<Rightarrow> r' = r \<and> (\<forall>t \<in> set (tasks r). \<not> claimable media full excluded r t)
  | (r', Some d) \<Rightarrow> \<exists>t \<in> set (tasks r). claimable media full excluded r t
      \<and> (\<forall>u \<in> set (tasks r). claimable media full excluded r u \<longrightarrow> queued_at t \<le> queued_at u)
      \<and> td_row d = t\<lparr>status := Running, started_at := Some now, updated_at := now\<rparr>
      \<and> look r' = (look r)(task_id t \<mapsto> td_row d)"
proof (cases "claim_select media full excluded r")
  case None
  then have "\<forall>t \<in> set (tasks r). \<not> claimable media full excluded r t" by (simp only: claim_select_None)
  then show ?thesis by (simp only: claim_next_def None option.case prod.case simp_thms)
next
  case (Some d)
  obtain t where t: "t \<in> set (tasks r)" "task_id t = d" "claimable media full excluded r t"
    "\<forall>u \<in> set (tasks r). claimable media full excluded r u \<longrightarrow> queued_at t \<le> queued_at u"
    using claim_select_Some [OF Some] by blast
  have row: "get_row d r = Some t" "status t = Queued"
    using get_row_mem [OF assms t(1)] t by (auto simp: claimable_def)
  have c: "claim_next now media full excluded r = (fst (claim_update now d r), Some (task_to_dict (run_row now t)))"
    using Some claim_update_row [OF assms row(1), of now] row(2) by (simp add: claim_next_def)
  show ?thesis
    unfolding c using t claim_update_look [OF assms row, of now]
    by (auto simp: task_to_dict_def run_row_def intro!: bexI [of _ t])
qed

text \<open>
  (C10) \<open>claim_next\<close>. When it hands out a task, the task was queued, in the lane asked for,
  not excluded, of a provider that is not full, its dependency had succeeded, and no other
  such task was queued earlier; that row alone changes, to \<open>running\<close>. It hands out nothing
  only when no such task exists.
\<close>

theorem claim_next_spec:
  assumes "table_ok r"
  shows "case claim_next now media full excluded r of
    (r', None) \<Rightarrow> r' = r \<and> (\<forall>t \<in> set (tasks r). \<not> claimable media full excluded r t)
  | (r', Some d) \<Rightarrow> \<exists>t \<in> set (tasks r). claimable media full excluded r t
      \<and> (\<forall>u \<in> set (tasks r). claimable media full excluded r u \<longrightarrow> queued_at t \<le> queued_at u)
      \<and> td_row d = t\<lparr>status := Running, started_at := Some now, updated_at := now\<rparr>
      \<and> look r' = (look r)(task_id t \<mapsto> td_row d)"
  by (rule claim_next_table [OF assms])

theorem claim_next_spec_witness:
  "snd (claim_next 9 ''image'' [] [''d''] sample_chain) = None"
proof -
  have ok: "table_ok sample_chain" by (simp add: sample_chain_def sample_simps)
  have none: "filter (claimable ''image'' [] [''d''] sample_chain) (tasks sample_chain) = []" by code_simp
  show ?thesis
    using claim_next_spec [OF ok, where now = 9 and media = "''image''" and full = "[]" and excluded = "[''d'']"] none
    by (auto simp: filter_empty_conv split: prod.splits option.splits)
qed

text \<open>
  No double claim. The candidate is chosen before the guarded UPDATE, so two workers
  may have chosen the same task; the first UPDATE that hits takes it, and the second leaves
  the table as it is and returns nothing.
\<close>

theorem claim_race:
  assumes "table_ok r" "claim_update now tid r = (r1, Some d)"
  shows "claim_update now' tid r1 = (r1, None)"
proof -
  obtain t where t: "get_row tid r = Some t" "status t = Queued"
    using assms claim_update_row [OF assms(1)] count_none [OF assms(1), of tid "\<lambda>t. status t = Queued"]
    by (cases "get_row tid r") (auto simp: claim_update_def Let_def split: if_splits)
  have "get_row tid r1 = Some (run_row now t)"
    using claim_update_look [OF assms(1) t, of now] assms(2) by (metis fst_conv fun_upd_same)
  moreover have "table_ok r1" using claim_update_op.op_table_ok [OF assms(1)] assms(2) by (metis fst_conv)
  ultimately show ?thesis using claim_update_row [of r1 tid] by (simp add: run_row_def)
qed

theorem claim_race_witness:
  "snd (claim_update 11 ''d'' (fst (claim_update 10 ''d'' sample_chain))) = None"
proof -
  have "snd (claim_update 10 ''d'' sample_chain) \<noteq> None" by code_simp
  then obtain d where "claim_update 10 ''d'' sample_chain = (fst (claim_update 10 ''d'' sample_chain), Some d)"
    by (metis not_None_eq prod.collapse)
  moreover have "table_ok sample_chain" by (simp add: sample_chain_def sample_simps)
  ultimately show ?thesis using claim_race by fastforce
qed

subsection \<open>Enqueueing\<close>

lemma new_task_key: "dedupe_key (new_task now tid q) =
    (rq_project_name q, rq_task_type q, rq_resource_id q, coalesce (rq_script_file q) [], coalesce (rq_resource_type q) [])"
  by (simp add: dedupe_key_def new_task_def)

lemma enqueue_table:
  assumes "get_row tid r = None"
  shows "case enqueue now tid q r of (r', res) \<Rightarrow>
    if \<exists>e \<in> set (tasks r). active e \<and> dedupe_key e = dedupe_key (new_task now tid q)
    then r' = r \<and> (\<exists>e \<in> set (tasks r). active e \<and> dedupe_key e = dedupe_key (new_task now tid q)
      \<and> res = Inr \<lparr>er_task_id = task_id e, er_status = status e, er_deduped = True,
          er_existing_task_id = Some (task_id e),
          er_existing_payload = Some (json_loads_default (payload_json e) (JObj []))\<rparr>)
    else r' = r\<lparr>tasks := tasks r @ [new_task now tid q]\<rparr>
      \<and> res = Inr \<lparr>er_task_id = tid, er_status = Queued, er_deduped = False,
          er_existing_task_id = None, er_existing_payload = None\<rparr>"
proof -
  let ?t = "new_task now tid q"
  let ?match = "\<lambda>u. active_dedupe_clauses (rq_project_name q) (rq_task_type q) (rq_script_file q)
    (rq_resource_type q) u \<and> resource_id u = rq_resource_id q"
  have match: "?match u \<longleftrightarrow> active u \<and> dedupe_key u = dedupe_key ?t" for u
    by (simp only: active_dedupe_clauses_key new_task_key)
  have "\<not> list_ex (has_id tid) (tasks r)"
    using assms by (auto simp: get_row_def find_None_iff list_ex_iff)
  then have viol: "insert_violates ?t r \<longleftrightarrow> (\<exists>e \<in> set (tasks r). active e \<and> dedupe_key e = dedupe_key ?t)"
    by (auto simp: insert_violates_def list_ex_iff)
  show ?thesis
  proof (cases "insert_violates ?t r")
    case True
    let ?s = "sort_key (\<lambda>u. - int (queued_at u)) (filter ?match (tasks r))"
    obtain e es where e: "?s = e # es"
      using True viol match by (cases ?s) (auto simp: filter_empty_conv dest: arg_cong [of _ _ length])
    have "e \<in> set (filter ?match (tasks r))" by (rule sort_key_hd_least(1) [OF e])
    then have mem: "e \<in> set (tasks r)" "active e" "dedupe_key e = dedupe_key ?t" using match by auto
    have "enqueue now tid q r = (r, Inr \<lparr>er_task_id = task_id e, er_status = status e, er_deduped = True,
        er_existing_task_id = Some (task_id e),
        er_existing_payload = Some (json_loads_default (payload_json e) (JObj []))\<rparr>)"
      using True e by (simp add: enqueue_def)
    then show ?thesis using mem by auto
  next
    case False
    then have "\<not> (\<exists>e \<in> set (tasks r). active e \<and> dedupe_key e = dedupe_key ?t)" using viol by simp
    then show ?thesis using False by (simp add: enqueue_def Let_def)
  qed
qed

text \<open>
  \<open>enqueue\<close> with a fresh id. When an unfinished task with the same key exists, the
  table is unchanged and the answer is that task, its status and its payload, marked as
  deduplicated; otherwise one queued row with the request's columns is appended and its id
  returned. With a fresh id no integrity error reaches the caller.
\<close>

theorem enqueue_spec:
  assumes "get_row tid r = None"
  shows "case enqueue now tid q r of (r', res) \<Rightarrow>
    if \<exists>e \<in> set (tasks r). active e \<and> dedupe_key e = dedupe_key (new_task now tid q)
    then r' = r \<and> (\<exists>e \<in> set (tasks r). active e \<and> dedupe_key e = dedupe_key (new_task now tid q)
      \<and> res = Inr \<lparr>er_task_id = task_id e, er_status = status e, er_deduped = True,
          er_existing_task_id = Some (task_id e),
          er_existing_payload = Some (json_loads_default (payload_json e) (JObj []))\<rparr>)
    else r' = r\<lparr>tasks := tasks r @ [new_task now tid q]\<rparr>
      \<and> res = Inr \<lparr>er_task_id = tid, er_status = Queued, er_deduped = False,
          er_existing_task_id = None, er_existing_payload = None\<rparr>"
  by (rule enqueue_table [OF assms])

theorem enqueue_spec_witness:
  "fst (enqueue 2 ''z'' (sample_request ''s9'' None) sample_chain) =
     sample_chain\<lparr>tasks := tasks sample_chain @ [new_task 2 ''z'' (sample_request ''s9'' None)]\<rparr>"
proof -
  have "get_row ''z'' sample_chain = None" by code_simp
  moreover have "\<not> list_ex (\<lambda>e. active e \<and> dedupe_key e = dedupe_key (new_task 2 ''z'' (sample_request ''s9'' None)))
      (tasks sample_chain)" by code_simp
  ultimately show ?thesis
    using enqueue_spec [of "''z''" sample_chain 2 "sample_request ''s9'' None"]
    by (auto simp: list_ex_iff split: prod.splits)
qed

subsection \<open>Execution metadata\<close>

lemma reachable_steps: "repo_step\<^sup>*\<^sup>* r r' \<Longrightarrow> reachable r \<Longrightarrow> reachable r'"
  by (induction rule: rtranclp_induct) (auto intro: reachable.step)

lemma count_hit:
  "table_ok r \<Longrightarrow> count_where (\<lambda>t. task_id t = i \<and> Q t) (tasks r) \<noteq> 0 \<Longrightarrow> \<exists>t. get_row i r = Some t \<and> Q t"
  by (auto simp: count_id_where split: option.splits if_splits)

lemma checkpoint_guard_split: "checkpoint_guard tid =
    (\<lambda>t. task_id t = tid \<and> (task_type t \<in> {''video'', ''reference_video''} \<and> status t = Running
      \<and> execution_checkpoint_json t = None \<and> provider_job_id t = None))"
  by (auto simp: checkpoint_guard_def fun_eq_iff)

text \<open>
  The execution checkpoint is written once. A successful write found a running video
  task that had neither a checkpoint nor a provider job; from then on, whatever happens, the
  row keeps that checkpoint and every further write of it raises and changes nothing.
\<close>

theorem checkpoint_once:
  assumes "reachable r" "persist_execution_checkpoint now tid c p r = (r1, Inr ())" "repo_step\<^sup>*\<^sup>* r1 r2"
  shows "(\<exists>t. get_row tid r = Some t \<and> status t = Running \<and> task_type t \<in> {''video'', ''reference_video''}
      \<and> execution_checkpoint_json t = None \<and> provider_job_id t = None)
    \<and> (\<exists>t. get_row tid r2 = Some t \<and> execution_checkpoint_json t = Some c)
    \<and> persist_execution_checkpoint now' tid c' p' r2 = (r2, Inl (ValueError tid))"
proof -
  let ?f = "\<lambda>t. t\<lparr>execution_checkpoint_json := Some c, provider_id := Some p, updated_at := now\<rparr>"
  let ?Q = "\<lambda>t. task_type t \<in> {''video'', ''reference_video''} \<and> status t = Running
      \<and> execution_checkpoint_json t = None \<and> provider_job_id t = None"
  have kf: "keeps_identity ?f" by (simp add: keeps_identity_def row_identity_simps)
  have ok: "table_ok r" using reachable_inv [OF assms(1)] by (simp add: repo_inv_def)
  have r1: "r1 = r\<lparr>tasks := update_where (checkpoint_guard tid) ?f (tasks r)\<rparr>"
    "count_where (checkpoint_guard tid) (tasks r) = 1"
    using assms(2) by (auto simp: persist_execution_checkpoint_def split: if_splits)
  have "count_where (\<lambda>t. task_id t = tid \<and> ?Q t) (tasks r) \<noteq> 0"
    using r1(2) unfolding checkpoint_guard_split by simp
  from count_hit [OF ok this] obtain t where t: "get_row tid r = Some t" "?Q t" by blast
  have "get_row tid r1 = Some (?f t)"
    using r1(1) t get_row_SomeD [OF t(1)] get_row_update [OF kf, where i = tid and r = r and P = "checkpoint_guard tid"]
    by (simp add: checkpoint_guard_def)
  from repo_steps_row [OF assms(3) this]
  obtain t2 where t2: "get_row tid r2 = Some t2" "execution_checkpoint_json t2 = Some c"
    by (auto simp: row_evolves_def)
  have "reachable r1" using assms(1) assms(2) repo_step.checkpoint [of r now tid c p] by (metis fst_conv reachable.step)
  then have "reachable r2" using assms(3) reachable_steps by blast
  then have "table_ok r2" using reachable_inv by (auto simp: repo_inv_def)
  from count_one [OF this t2(1), of ?Q] have "count_where (checkpoint_guard tid) (tasks r2) = 0"
    using t2(2) unfolding checkpoint_guard_split by simp
  then show ?thesis using t t2 by (simp add: persist_execution_checkpoint_def)
qed

definition sample_video_run :: repo where
  "sample_video_run = fst (claim_update 5 ''v''
     (fst (enqueue 1 ''v'' ((sample_request ''s1'' None)\<lparr>rq_task_type := ''video'', rq_media_type := ''video''\<rparr>)
       (sample_repo []))))"

theorem checkpoint_once_witness:
  "snd (persist_execution_checkpoint 8 ''v'' ''{2}'' ''kling''
     (fst (persist_execution_checkpoint 7 ''v'' ''{1}'' ''veo'' sample_video_run))) = Inl (ValueError ''v'')"
proof -
  have "reachable (sample_repo [])" using reachable.empty by (simp add: sample_repo_def)
  then have "reachable sample_video_run" unfolding sample_video_run_def
    by (intro reachable.step [OF _ repo_step.claim] reachable.step [OF _ repo_step.enqueue])
  moreover have "snd (persist_execution_checkpoint 7 ''v'' ''{1}'' ''veo'' sample_video_run) = Inr ()" by code_simp
  ultimately show ?thesis
    using checkpoint_once [of sample_video_run 7 "''v''" "''{1}''" "''veo''" _ _ 8 "''{2}''" "''kling''"]
    by (metis prod.collapse rtranclp.rtrancl_refl snd_conv)
qed

lemma set_dict_put: "set (dict_put k v d) \<subseteq> insert (k, v) (set d)"
  by (induction d) auto

lemma merged_payload_wf:
  assumes "json_loads_default pj (JObj []) = JObj d \<or> d = []" "wf_json v"
  shows "wf_json (JObj (dict_put k v d))"
proof -
  have "wf_json (JObj d)"
    using assms(1) json_loads_wf [of _ "JObj d"]
    by (auto simp: json_loads_default_def simp del: wf_json.simps(3) split: option.splits if_splits) simp_all
  then show ?thesis using assms(2) set_dict_put [of k v d] by (auto simp: dict_ok_put)
qed

text \<open>
  \<open>persist_api_call_id\<close> round trip. On a task whose payload decodes to an object, the
  payload read back afterwards maps \<open>api_call_id\<close> to the id and every other key as before;
  on a missing task it raises and changes nothing.
\<close>

theorem api_call_id_round_trip:
  assumes "get_row tid r = Some t" "td_payload (task_to_dict t) = JObj d"
  shows "\<exists>r' d'. persist_api_call_id now tid call r = (r', Inr ())
    \<and> map_option td_payload (get tid r') = Some (JObj d')
    \<and> (\<forall>k. dict_get d' k = (if k = ''api_call_id'' then Some (JInt call) else dict_get d k))"
proof -
  let ?d = "dict_put ''api_call_id'' (JInt call) d"
  let ?f = "\<lambda>t. t\<lparr>payload_json := Some (json_dumps (JObj ?d)), updated_at := now\<rparr>"
  have pj: "json_loads_default (payload_json t) (JObj []) = JObj d" using assms(2) by (simp add: task_to_dict_def)
  have kf: "keeps_identity ?f" by (simp add: keeps_identity_def row_identity_simps)
  have res: "persist_api_call_id now tid call r = (r\<lparr>tasks := update_where (has_id tid) ?f (tasks r)\<rparr>, Inr ())"
    using assms(1) pj by (simp add: persist_api_call_id_def merge_payload_field_def)
  have "json_loads (json_dumps (JObj ?d)) = Some (JObj ?d)"
    using merged_payload_wf [of "payload_json t" d "JInt call"] pj by (intro json_round_trip) auto
  moreover have "json_dumps (JObj ?d) \<noteq> []" by (simp add: json_dumps.simps)
  ultimately have "json_loads_default (payload_json (?f t)) (JObj []) = JObj ?d"
    by (simp add: json_loads_default_def)
  moreover have "get tid (r\<lparr>tasks := update_where (has_id tid) ?f (tasks r)\<rparr>) = Some (task_to_dict (?f t))"
    using assms(1) get_row_SomeD [OF assms(1)] get_row_update [OF kf, where i = tid and r = r and P = "has_id tid"]
    by (simp add: get_def)
  ultimately show ?thesis unfolding res
    by (intro exI conjI) (auto simp: task_to_dict_def dict_get_put)
qed

theorem api_call_id_round_trip_witness:
  "\<exists>r' d'. persist_api_call_id 9 ''d'' 42 sample_chain = (r', Inr ())
    \<and> map_option td_payload (get ''d'' r') = Some (JObj d') \<and> dict_get d' ''api_call_id'' = Some (JInt 42)"
proof -
  have "get_row ''d'' sample_chain = Some (sample_task ''d'' Queued None 4)"
    by (simp add: sample_chain_def sample_simps)
  moreover have "td_payload (task_to_dict (sample_task ''d'' Queued None 4)) = JObj []" by code_simp
  ultimately show ?thesis
    using api_call_id_round_trip [of "''d''" sample_chain "sample_task ''d'' Queued None 4" "[]" 9 42] by fastforce
qed

subsection \<open>The worker lease\<close>

text \<open>A call of one worker process on the lease.\<close>

datatype lease_call = Acquire rat string rat | Release string

fun lease_exec :: "nat \<Rightarrow> string \<Rightarrow> lease_call \<Rightarrow> repo \<Rightarrow> repo" where
  "lease_exec now nm (Acquire epoch owner ttl) r = fst (acquire_or_renew_lease epoch now nm owner ttl r)"
| "lease_exec now nm (Release owner) r = release_lease nm owner r"

fun foreign :: "string \<Rightarrow> rat \<Rightarrow> lease_call \<Rightarrow> bool" where
  "foreign owner until (Acquire epoch other ttl) \<longleftrightarrow> other \<noteq> owner \<and> epoch < until"
| "foreign owner until (Release other) \<longleftrightarrow> other \<noteq> owner"

text \<open>The interface the worker relies on: a book that names the holder of a lease and the
  time until which it holds.\<close>

locale lease_book =
  fixes ok :: "'s \<Rightarrow> bool"
    and holder :: "'s \<Rightarrow> (string \<times> rat) option"
    and acquire :: "rat \<Rightarrow> string \<Rightarrow> rat \<Rightarrow> 's \<Rightarrow> 's \<times> bool"
    and exec :: "lease_call \<Rightarrow> 's \<Rightarrow> 's"
  assumes ok_exec: "ok s \<Longrightarrow> ok (exec c s)"
    and exec_acquire: "exec (Acquire epoch owner ttl) s = fst (acquire epoch owner ttl s)"
    and granted: "ok s \<Longrightarrow> snd (acquire epoch owner ttl s) \<Longrightarrow>
      holder (fst (acquire epoch owner ttl s)) = Some (owner, epoch + max 1 ttl)"
    and refused: "ok s \<Longrightarrow> holder s = Some (owner, until) \<Longrightarrow> epoch < until \<Longrightarrow> other \<noteq> owner \<Longrightarrow>
      acquire epoch other ttl s = (s, False)"
    and free: "ok s \<Longrightarrow> (\<And>other until. holder s = Some (other, until) \<Longrightarrow> other = owner \<or> until \<le> epoch) \<Longrightarrow>
      snd (acquire epoch owner ttl s)"
    and release_other: "ok s \<Longrightarrow> holder s = Some (owner, until) \<Longrightarrow> other \<noteq> owner \<Longrightarrow>
      holder (exec (Release other) s) = Some (owner, until)"
begin

lemma foreign_calls:
  assumes "ok s" "holder s = Some (owner, until)" "\<forall>c \<in> set cs. foreign owner until c"
  shows "ok (fold exec cs s) \<and> holder (fold exec cs s) = Some (owner, until)"
  using assms
proof (induction cs arbitrary: s)
  case (Cons c cs)
  have "holder (exec c s) = Some (owner, until)"
    using Cons.prems refused release_other by (cases c) (auto simp: exec_acquire)
  then show ?case using Cons ok_exec by simp
qed simp

lemma exclusive:
  assumes "ok s" "acquire epoch owner ttl s = (s1, True)" "\<forall>c \<in> set cs. foreign owner (epoch + max 1 ttl) c"
    and "other \<noteq> owner" "epoch' < epoch + max 1 ttl"
  shows "snd (acquire epoch' other ttl' (fold exec cs s1)) = False \<and> snd (acquire epoch'' owner ttl'' (fold exec cs s1))"
proof -
  have s1: "ok s1" "holder s1 = Some (owner, epoch + max 1 ttl)"
    using ok_exec [OF assms(1), of "Acquire epoch owner ttl"] granted [OF assms(1), of epoch owner ttl] assms(2)
    by (simp_all add: exec_acquire)
  have h: "ok (fold exec cs s1)" "holder (fold exec cs s1) = Some (owner, epoch + max 1 ttl)"
    using foreign_calls [OF s1 assms(3)] by simp_all
  have "snd (acquire epoch'' owner ttl'' (fold exec cs s1))" by (rule free [OF h(1)]) (use h(2) in simp)
  then show ?thesis using refused [OF h assms(5,4)] by simp
qed

end

definition leases_ok :: "repo \<Rightarrow> bool" where
  "leases_ok r \<longleftrightarrow> distinct (map lease_name (worker_leases r))"

definition lease_holder :: "string \<Rightarrow> repo \<Rightarrow> (string \<times> rat) option" where
  "lease_holder nm r = map_option (\<lambda>l. (lease_owner l, lease_until l)) (lease_row nm r)"

lemma lease_row_mem: "leases_ok r \<Longrightarrow> l \<in> set (worker_leases r) \<Longrightarrow> lease_row (lease_name l) r = Some l"
  unfolding leases_ok_def lease_row_def by (rule find_key_distinct)

lemma lease_row_NoneD: "lease_row nm r = None \<Longrightarrow> l \<in> set (worker_leases r) \<Longrightarrow> lease_name l \<noteq> nm"
  by (auto simp: lease_row_def find_None_iff)

lemma lease_rows_matching:
  assumes "leases_ok r"
  shows "count_where (\<lambda>l. lease_name l = nm \<and> Q l) (worker_leases r) =
    (case lease_row nm r of None \<Rightarrow> 0 | Some l \<Rightarrow> if Q l then 1 else 0)"
proof (cases "lease_row nm r")
  case None
  then show ?thesis using lease_row_NoneD by (auto simp: count_where_0_iff)
next
  case (Some l)
  then have l: "l \<in> set (worker_leases r)" "lease_name l = nm" by (auto simp: lease_row_def dest: find_SomeD)
  have "filter (\<lambda>x. lease_name x = nm) (worker_leases r) = [l]"
    using assms l filter_key_distinct [of lease_name "worker_leases r" l] by (simp add: leases_ok_def)
  then have "filter (\<lambda>x. lease_name x = nm \<and> Q x) (worker_leases r) = filter Q [l]" by (metis filter_filter)
  then show ?thesis using Some by (simp add: count_where_def)
qed

lemma find_lease_update:
  assumes "\<And>l. lease_name (f l) = lease_name l"
  shows "find (\<lambda>l. lease_name l = nm) (update_where P f ls) =
    map_option (\<lambda>l. if P l then f l else l) (find (\<lambda>l. lease_name l = nm) ls)"
  using assms by (induction ls) auto

lemma find_append: "find P (xs @ ys) = (case find P xs of None \<Rightarrow> find P ys | Some x \<Rightarrow> Some x)"
  by (induction xs) auto

lemma acquire_cases:
  assumes "leases_ok r"
  shows "acquire_or_renew_lease epoch now nm owner ttl r =
    (case lease_row nm r of
       None \<Rightarrow> (r\<lparr>worker_leases := worker_leases r @ [\<lparr>lease_name = nm, lease_owner = owner,
         lease_until = epoch + max 1 ttl, lease_updated_at = now\<rparr>]\<rparr>, True)
     | Some l \<Rightarrow> if lease_owner l = owner \<or> lease_until l \<le> epoch
         then (r\<lparr>worker_leases := update_where (\<lambda>l. lease_name l = nm \<and> (lease_owner l = owner \<or> lease_until l \<le> epoch))
           (\<lambda>l. l\<lparr>lease_owner := owner, lease_until := epoch + max 1 ttl, lease_updated_at := now\<rparr>)
           (worker_leases r)\<rparr>, True)
         else (r, False))"
proof -
  have "list_ex (\<lambda>l. lease_name l = nm) (worker_leases r) \<longleftrightarrow> lease_row nm r \<noteq> None"
    by (auto simp: lease_row_def list_ex_iff find_None_iff)
  then show ?thesis
    using lease_rows_matching [OF assms, of nm "\<lambda>l. lease_owner l = owner \<or> lease_until l \<le> epoch"]
    by (auto simp: acquire_or_renew_lease_def Let_def split: option.splits)
qed

lemma leases_ok_acquire:
  assumes "leases_ok r"
  shows "leases_ok (fst (acquire_or_renew_lease epoch now nm owner ttl r))"
  using assms lease_row_NoneD [of nm r]
  by (auto simp: acquire_cases leases_ok_def map_update_where_eq split: option.splits)

lemma release_find:
  assumes "leases_ok r" "lease_holder nm r = Some (owner, until)" "other \<noteq> owner"
  shows "lease_holder nm (release_lease nm other r) = Some (owner, until)"
proof -
  obtain l where l: "lease_row nm r = Some l" "lease_owner l = owner" "lease_until l = until"
    using assms(2) by (auto simp: lease_holder_def)
  then have mem: "l \<in> set (worker_leases r)" "lease_name l = nm" by (auto simp: lease_row_def dest: find_SomeD)
  have "leases_ok (release_lease nm other r)"
    using assms(1) by (simp add: leases_ok_def release_lease_def distinct_map_filter)
  moreover have "l \<in> set (worker_leases (release_lease nm other r))"
    using mem l assms(3) by (simp add: release_lease_def)
  ultimately have "lease_row nm (release_lease nm other r) = Some l" using lease_row_mem mem(2) by blast
  then show ?thesis using l by (simp add: lease_holder_def)
qed

interpretation lease: lease_book leases_ok "lease_holder nm"
  "\<lambda>epoch owner ttl. acquire_or_renew_lease epoch now nm owner ttl" "lease_exec now nm" for now nm
proof (unfold_locales, goal_cases)
  case (1 s c)
  then show ?case using leases_ok_acquire
    by (cases c) (simp_all add: leases_ok_def release_lease_def distinct_map_filter)
next
  case (3 s epoch owner ttl)
  then show ?case
    by (auto simp: acquire_cases lease_holder_def lease_row_def find_lease_update find_append
        split: option.splits if_splits dest: find_SomeD)
next
  case (6 s owner until other)
  then show ?case by (simp add: release_find)
qed (auto simp: acquire_cases lease_holder_def split: option.splits)

text \<open>
  (C7) The worker lease excludes. After one process was granted the lease, and whatever
  other processes try before it expires, no other process is granted it before that time,
  and the holder can still renew it.
\<close>

theorem lease_exclusion:
  assumes "leases_ok r" "acquire_or_renew_lease epoch now nm owner ttl r = (r1, True)"
    "\<forall>c \<in> set calls. foreign owner (epoch + max 1 ttl) c" "other \<noteq> owner" "epoch' < epoch + max 1 ttl"
  shows "snd (acquire_or_renew_lease epoch' now nm other ttl' (fold (lease_exec now nm) calls r1)) = False
    \<and> snd (acquire_or_renew_lease epoch'' now nm owner ttl'' (fold (lease_exec now nm) calls r1))"
  by (rule lease.exclusive [OF assms])

theorem lease_exclusion_witness:
  "snd (acquire_or_renew_lease 105 3 ''default'' ''w2'' 10
     (fold (lease_exec 3 ''default'') [Acquire 102 ''w2'' 10, Release ''w2'']
       (fst (acquire_or_renew_lease 100 3 ''default'' ''w1'' 10 (sample_repo []))))) = False"
proof -
  have "leases_ok (sample_repo [])" by (simp add: leases_ok_def sample_repo_def)
  moreover have "acquire_or_renew_lease 100 3 ''default'' ''w1'' 10 (sample_repo []) =
      (fst (acquire_or_renew_lease 100 3 ''default'' ''w1'' 10 (sample_repo [])), True)"
    by (simp add: acquire_or_renew_lease_def sample_repo_def)
  ultimately show ?thesis
    using lease_exclusion [of "sample_repo []" 100 3 "''default''" "''w1''" 10 _ "[Acquire 102 ''w2'' 10, Release ''w2'']" "''w2''" 105 10]
    by simp
qed

subsection \<open>The message of a cascade\<close>

lemma narrow_cascade_shape:
  "\<exists>x. encoded = encode_cascade dep x \<Longrightarrow> \<exists>x. narrow_cascade n dep reason budget encoded = encode_cascade dep x"
  by (induction n dep reason budget encoded rule: narrow_cascade.induct) (auto simp: Let_def)

lemma encode_bounded_shape: "\<exists>x. encode_bounded_cascade_failure dep reason = encode_cascade dep x"
  by (auto simp: encode_bounded_cascade_failure_def Let_def intro!: narrow_cascade_shape)

lemma parse_encode_cascade: "parse_failure (Some (encode_cascade dep x)) = Some (CASCADE_CODE, cascade_params dep x)"
proof -
  have "params_ok (cascade_params dep x)" by (simp add: params_ok_def cascade_params_def dict_ok_def)
  moreover have "sorted_params (cascade_params dep x) = cascade_params dep x"
    by (simp add: sorted_params_def cascade_params_def less_eq_char_def)
  ultimately show ?thesis using parse_encoded [of CASCADE_CODE "cascade_params dep x"]
    by (simp add: encode_cascade_def)
qed

lemma cascade_emptied:
  "emptied (shrinkable_params (cascade_params dep x)) = cascade_params [] []"
  "string_keys (shrinkable_params (cascade_params dep x)) \<noteq> []"
  by (simp_all add: emptied_def shrinkable_params_def cascade_params_def as_shrinkable_def is_str_def string_keys_def)

lemma cascade_envelope_fits: "length (encoded_text CASCADE_CODE (cascade_params [] [])) \<le> MAX_ERROR_MESSAGE_LEN"
  by code_simp

text \<open>
  The message a cascade stores, for any dependency id and any upstream reason: it fits
  the column, it is a well-formed cascade envelope with its two parameters, and as long as
  the narrowing rounds brought it under the limit it names the blocking task exactly.
\<close>

theorem cascade_message_parses:
  "\<exists>ps. length (bound_reason (encode_bounded_cascade_failure dep reason) MAX_ERROR_MESSAGE_LEN) \<le> MAX_ERROR_MESSAGE_LEN
    \<and> parse_failure (Some (bound_reason (encode_bounded_cascade_failure dep reason) MAX_ERROR_MESSAGE_LEN)) = Some (CASCADE_CODE, ps)
    \<and> fst ` set ps = {''dependency_task_id'', ''reason''}
    \<and> (length (encode_bounded_cascade_failure dep reason) \<le> MAX_ERROR_MESSAGE_LEN \<longrightarrow>
        dict_get ps ''dependency_task_id'' = Some (JStr dep))"
proof -
  obtain x where x: "encode_bounded_cascade_failure dep reason = encode_cascade dep x"
    using encode_bounded_shape by blast
  note p = parse_encode_cascade [of dep x]
  have keys: "fst ` set (cascade_params dep x) = {''dependency_task_id'', ''reason''}"
    by (simp add: cascade_params_def)
  show ?thesis
  proof (cases "length (encode_cascade dep x) \<le> MAX_ERROR_MESSAGE_LEN")
    case True
    then show ?thesis using x p keys by (simp add: bound_reason_def cascade_params_def)
  next
    case False
    then obtain ps' where ps': "bound_reason (encode_cascade dep x) MAX_ERROR_MESSAGE_LEN = encoded_text CASCADE_CODE ps'"
      "params_ok ps'" "emptied ps' = cascade_params [] []"
      using bound_reason_encoded [OF p, of MAX_ERROR_MESSAGE_LEN] cascade_emptied [of dep x] cascade_envelope_fits by auto
    have "map fst ps' = [''dependency_task_id'', ''reason'']"
      using ps'(3) emptied_keys [of ps'] by (simp add: cascade_params_def)
    then have k: "fst ` set (sorted_params ps') = {''dependency_task_id'', ''reason''}"
      using sorted_params_keys [of ps'] by (metis list.set_map list.simps(15) empty_set)
    have q: "parse_failure (Some (bound_reason (encode_cascade dep x) MAX_ERROR_MESSAGE_LEN)) =
        Some (CASCADE_CODE, sorted_params ps')"
      unfolding ps'(1) by (rule parse_encoded [OF failure_code_cascade ps'(2)])
    show ?thesis unfolding x
    proof (intro exI conjI impI)
      show "length (bound_reason (encode_cascade dep x) MAX_ERROR_MESSAGE_LEN) \<le> MAX_ERROR_MESSAGE_LEN"
        by (rule bound_reason_length_aux)
    qed (rule q, rule k, use False in simp)
  qed
qed

theorem cascade_message_parses_witness:
  "\<exists>ps. parse_failure (Some (bound_reason (encode_bounded_cascade_failure ''t1'' ''boom'') MAX_ERROR_MESSAGE_LEN)) =
      Some (CASCADE_CODE, ps) \<and> dict_get ps ''dependency_task_id'' = Some (JStr ''t1'')"
proof -
  have "length (encode_bounded_cascade_failure ''t1'' ''boom'') \<le> MAX_ERROR_MESSAGE_LEN" by code_simp
  then show ?thesis using cascade_message_parses [of "''t1''" "''boom''"] by auto
qed

subsection \<open>Queries\<close>

lemma pages_cover: "concat (map (\<lambda>i. take n (drop (i * n) xs)) [0..<k]) = take (k * n) xs"
proof (induction k)
  case (Suc k)
  moreover have "take (Suc k * n) xs = take (k * n) xs @ take n (drop (k * n) xs)"
    by (metis take_add mult_Suc add.commute)
  ultimately show ?case by simp
qed simp

text \<open>
  \<open>list_tasks\<close> pages. For a page size between 1 and 500 the pages 1 to k, laid end to
  end, are the first k times that many of the matching rows, newest update first: no row is
  skipped or repeated between pages, and each page reports the number of all matching rows.
\<close>

theorem list_tasks_pages:
  assumes "1 \<le> sz" "sz \<le> 500"
  shows "\<exists>rows. rows = sort_key (\<lambda>t. (- int (updated_at t), - int (queued_at t)))
      (filter (\<lambda>t. opt_filter project (project_name t) \<and> opt_filter st (status_str (status t))
        \<and> opt_filter ttype (task_type t) \<and> opt_filter src (source t)) (tasks r))
    \<and> concat (map (\<lambda>i. tp_items (list_tasks project st ttype src (int i + 1) sz r)) [0..<k]) =
      map task_to_dict (take (k * nat sz) rows)
    \<and> (\<forall>page. tp_total (list_tasks project st ttype src page sz r) = length rows)"
proof -
  let ?rows = "sort_key (\<lambda>t. (- int (updated_at t), - int (queued_at t)))
      (filter (\<lambda>t. opt_filter project (project_name t) \<and> opt_filter st (status_str (status t))
        \<and> opt_filter ttype (task_type t) \<and> opt_filter src (source t)) (tasks r))"
  have off: "nat (int i * sz) = i * nat sz" for i using assms by (simp add: nat_mult_distrib)
  have page: "tp_items (list_tasks project st ttype src (int i + 1) sz r) =
      map task_to_dict (take (nat sz) (drop (i * nat sz) ?rows))" for i
    using assms off [of i] by (simp add: list_tasks_def Let_def)
  have "concat (map (\<lambda>i. tp_items (list_tasks project st ttype src (int i + 1) sz r)) [0..<k]) =
      map task_to_dict (concat (map (\<lambda>i. take (nat sz) (drop (i * nat sz) ?rows)) [0..<k]))"
    unfolding page by (simp add: map_concat comp_def)
  then show ?thesis using assms by (simp add: pages_cover list_tasks_def Let_def)
qed

theorem list_tasks_pages_witness:
  "concat (map (\<lambda>i. tp_items (list_tasks None None None None (int i + 1) 2 sample_chain)) [0..<2]) =
     map task_to_dict (take (2 * nat 2) (sort_key (\<lambda>t. (- int (updated_at t), - int (queued_at t)))
       (filter (\<lambda>t. opt_filter None (project_name t) \<and> opt_filter None (status_str (status t))
        \<and> opt_filter None (task_type t) \<and> opt_filter None (source t)) (tasks sample_chain))))"
  using list_tasks_pages [of 2 None None None None sample_chain 2] by simp

subsection \<open>The preview of a cancellation\<close>

lemma bind_list_ok:
  assumes "\<And>x. x \<in> set xs \<Longrightarrow> f x = Inr (g x)"
  shows "bind_list f xs = Inr (concat (map g xs))"
proof -
  have "fold (\<lambda>x acc. bind_res acc (\<lambda>ys. bind_res (f x) (\<lambda>zs. Inr (ys @ zs)))) xs (Inr acc) =
      Inr (acc @ concat (map g xs))" for acc
    using assms by (induction xs arbitrary: acc) auto
  then show ?thesis by (simp add: bind_list_def)
qed

definition queued_below :: "repo \<Rightarrow> string \<Rightarrow> string set" where
  "queued_below r p = {i. below (look r) p i \<and> i \<in> queued_in (look r)}"

definition queued_children :: "repo \<Rightarrow> string \<Rightarrow> string set" where
  "queued_children r p = {d. \<exists>t. get_row d r = Some t \<and> status t = Queued \<and> dependency_task_id t = Some p}"

lemma queued_below_children:
  "queued_below r p = (\<Union>d \<in> queued_children r p. insert d (queued_below r d))"
proof (intro equalityI subsetI)
  fix i assume "i \<in> queued_below r p"
  then have "below (look r) p i" "i \<in> queued_in (look r)" by (auto simp: queued_below_def)
  then show "i \<in> (\<Union>d \<in> queued_children r p. insert d (queued_below r d))"
  proof (induction rule: below.induct)
    case (direct i t p)
    then show ?case by (auto simp: queued_children_def queued_in_def)
  next
    case (further p j u i t)
    then have "j \<in> queued_in (look r)" by (auto simp: queued_in_def)
    then obtain d where d: "d \<in> queued_children r p" "j = d \<or> j \<in> queued_below r d"
      using further.IH by auto
    have "i \<in> queued_below r d"
    proof (cases "j = d")
      case True
      then show ?thesis using further.hyps further.prems by (auto simp: queued_below_def intro: below.direct)
    next
      case False
      then have "below (look r) d j" using d(2) by (auto simp: queued_below_def)
      from below.further [OF this further.hyps(2-5)] show ?thesis
        using further.prems by (simp add: queued_below_def)
    qed
    then show ?case using d(1) by blast
  qed
next
  fix i assume "i \<in> (\<Union>d \<in> queued_children r p. insert d (queued_below r d))"
  then obtain d t where d: "get_row d r = Some t" "status t = Queued" "dependency_task_id t = Some p"
    "i = d \<or> i \<in> queued_below r d" by (auto simp: queued_children_def)
  have "d \<in> queued_below r p" using d by (auto simp: queued_below_def queued_in_def intro: below.direct)
  moreover have "queued_below r d \<subseteq> queued_below r p"
    using below_trans [of "look r" d] d by (auto simp: queued_below_def)
  ultimately show "i \<in> queued_below r p" using d(4) by blast
qed

text \<open>The queued rows of higher rank: the measure that the recursion of the preview lowers.\<close>

definition above :: "(string \<Rightarrow> nat) \<Rightarrow> repo \<Rightarrow> string \<Rightarrow> string set" where
  "above rank r p = {i \<in> queued_in (look r). rank p < rank i}"

lemma collect_complete:
  assumes ok: "table_ok r"
    and rank: "\<And>t d. t \<in> set (tasks r) \<Longrightarrow> status t = Queued \<Longrightarrow> dependency_task_id t = Some d \<Longrightarrow> rank d < rank (task_id t)"
  shows "card (above rank r p) < n \<Longrightarrow>
    \<exists>l. collect_queued_dependents n r p = Inr l \<and> set (map fst l) = queued_below r p"
proof (induction n arbitrary: p)
  case (Suc n)
  let ?q = "queued_dependents p r"
  have kid: "task_id ` set ?q = queued_children r p"
    using set_dependents(1) [OF ok, of _ p] by (auto simp: queued_children_def)
  have "\<exists>l. collect_queued_dependents n r (task_id t) = Inr l \<and> set (map fst l) = queued_below r (task_id t)"
    if t: "t \<in> set ?q" for t
  proof (rule Suc.IH)
    have t': "t \<in> set (tasks r)" "status t = Queued" "dependency_task_id t = Some p"
      using t by (auto simp: queued_dependents_def)
    then have lt: "rank p < rank (task_id t)" using rank by blast
    have "task_id t \<in> above rank r p"
      using lt t' get_row_mem [OF ok t'(1)] by (auto simp: above_def queued_in_def)
    moreover have "above rank r (task_id t) \<subseteq> above rank r p - {task_id t}"
      using lt by (auto simp: above_def)
    moreover have fin: "finite (above rank r p)"
      by (rule finite_subset [OF _ finite_look [of r]]) (auto simp: above_def queued_in_def)
    ultimately have "card (above rank r (task_id t)) < card (above rank r p)"
      by (intro psubset_card_mono) auto
    then show "card (above rank r (task_id t)) < n" using Suc.prems by simp
  qed
  then obtain g where g: "\<And>t. t \<in> set ?q \<Longrightarrow> collect_queued_dependents n r (task_id t) = Inr (g t)
      \<and> set (map fst (g t)) = queued_below r (task_id t)" by metis
  have "collect_queued_dependents (Suc n) r p = Inr (concat (map (\<lambda>t. task_summary t # g t) ?q))"
    using g by (simp, intro bind_list_ok) simp
  moreover have "set (map fst (concat (map (\<lambda>t. task_summary t # g t) ?q))) =
      (\<Union>t \<in> set ?q. insert (task_id t) (queued_below r (task_id t)))"
    using g by (auto simp: task_summary_def image_UN)
  moreover have "\<dots> = queued_below r p" unfolding queued_below_children [of r p] kid [symmetric] by simp
  ultimately show ?case by metis
qed simp

text \<open>
  (C13) The preview tells the truth. When no queued task depends on itself through other
  queued tasks (ranks make this precise), \<open>get_cancel_preview\<close> of a queued task returns, and
  the task together with the listed ones are exactly the queued tasks that \<open>cancel_task\<close> then
  cancels.
\<close>

theorem preview_matches_cancel:
  assumes "table_ok r" "get_row tid r = Some t" "status t = Queued"
    and "\<And>u d. u \<in> set (tasks r) \<Longrightarrow> status u = Queued \<Longrightarrow> dependency_task_id u = Some d \<Longrightarrow>
      rank d < (rank (task_id u) :: nat)"
  shows "\<exists>l. get_cancel_preview tid r = Inr (task_summary t, Queued, l)
    \<and> insert tid (set (map fst l)) =
      {i. map_option status (get_row i r) = Some Queued
        \<and> map_option status (get_row i (fst (cancel_task now tid r))) = Some Cancelled}"
proof -
  have "above rank r tid \<subseteq> queued_in (look r)" by (auto simp: above_def)
  moreover have "finite (queued_in (look r))"
    by (rule finite_subset [OF _ finite_look [of r]]) (auto simp: queued_in_def)
  ultimately have "card (above rank r tid) < Suc (length (tasks r))"
    using queued_fuel [of r] card_mono le_less_trans by blast
  from collect_complete [OF assms(1,4) this]
  obtain l where l: "collect_queued_dependents (Suc (length (tasks r))) r tid = Inr l"
    "set (map fst l) = queued_below r tid" by blast
  have eff: "map_option status (get_row i (fst (cancel_task now tid r))) = Some Cancelled \<longleftrightarrow>
      i = tid \<or> below (look r) tid i" if "get_row i r = Some u" "status u = Queued" for i u
    using cancel_task_table [OF assms(1,2), of i now] assms(3) that by auto
  have "{i. map_option status (get_row i r) = Some Queued
        \<and> map_option status (get_row i (fst (cancel_task now tid r))) = Some Cancelled} = insert tid (queued_below r tid)"
    using eff assms(2,3) by (auto simp: queued_below_def queued_in_def)
  then show ?thesis using l assms(2,3) by (simp add: get_cancel_preview_def del: collect_queued_dependents.simps)
qed

theorem preview_matches_cancel_witness:
  "\<exists>l. get_cancel_preview ''b'' sample_chain = Inr ((''b'', ''storyboard'', ''b''), Queued, l)
    \<and> insert ''b'' (set (map fst l)) =
      {i. map_option status (get_row i sample_chain) = Some Queued
        \<and> map_option status (get_row i (fst (cancel_task 9 ''b'' sample_chain))) = Some Cancelled}"
proof -
  let ?rank = "\<lambda>i. if i = ''c'' then 2 else if i = ''b'' then 1 else (0::nat)"
  have "get_row ''b'' sample_chain = Some (sample_task ''b'' Queued (Some ''a'') 2)"
    by (simp add: sample_chain_def sample_simps)
  moreover have "table_ok sample_chain" by (simp add: sample_chain_def sample_simps)
  moreover have "?rank d < ?rank (task_id u)"
    if "u \<in> set (tasks sample_chain)" "status u = Queued" "dependency_task_id u = Some d" for u d
    using that by (auto simp: sample_chain_def sample_simps)
  ultimately show ?thesis
    using preview_matches_cancel [of sample_chain "''b''" "sample_task ''b'' Queued (Some ''a'') 2" ?rank 9]
    by (simp add: sample_task_def task_summary_def)
qed

end
