(* ===== verification/GenQueue.thy ===== *)
theory GenQueue
  imports QueueOps "HOL-Library.Multiset"
begin

text \<open>
  The queue front end (\<open>lib/generation_queue.py\<close>) with the events it publishes
  (\<open>lib/task_terminal_events.py\<close>) and the durable narration options it compares
  (\<open>NarrationDeliveryRequestOptions\<close> in \<open>lib/narration_delivery.py\<close>,
  \<open>ReferenceRequestOptions.from_payload\<close> in \<open>lib/reference_video/request_projection.py\<close>).

  Every method runs one repository method in a session of its own and publishes the terminal
  events of that session after the commit; a method that raises commits and publishes
  nothing. The provider an enqueue derives from the project and its configuration is an
  argument (\<open>derive\<close>), as is the fact that a result carries a compensation callback.
\<close>

subsection \<open>Publishing terminal events\<close>

record task_change =
  ch_entity_type :: string
  ch_action :: string
  ch_entity_id :: string
  ch_label :: string
  ch_important :: bool
  ch_task_type :: string

definition STATUS_ACTIONS :: "(string \<times> string) list" where
  "STATUS_ACTIONS = [(''succeeded'', ''task_succeeded''), (''failed'', ''task_failed''),
     (''cancelled'', ''task_cancelled'')]"

definition build_task_terminal_change :: "terminal_event \<Rightarrow> task_change option" where
  "build_task_terminal_change e =
     (case dict_get STATUS_ACTIONS (status_str (ev_status e)) of None \<Rightarrow> None
      | Some action \<Rightarrow>
          if ev_task_id e = [] then None
          else Some \<lparr>ch_entity_type = ''task'', ch_action = action, ch_entity_id = ev_task_id e,
            ch_label = ev_task_id e, ch_important = False, ch_task_type = ev_task_type e\<rparr>)"

definition project_change :: "terminal_event \<Rightarrow> (string \<times> task_change) option" where
  "project_change e =
     (if ev_project_name e = [] then None
      else map_option (Pair (ev_project_name e)) (build_task_terminal_change e))"

text \<open>One batch per project, in the order the projects first appear.\<close>

definition emit_task_terminal_events :: "terminal_event list \<Rightarrow> (string \<times> task_change list) list" where
  "emit_task_terminal_events events =
     map (\<lambda>(p, cs). (p, map snd cs)) (group_by fst (List.map_filter project_change events))"

subsection \<open>The durable narration options\<close>

definition POST_PRODUCTION :: string where "POST_PRODUCTION = ''post_production''"
definition USE_TTS :: string where "USE_TTS = ''use_tts''"

record narration_options =
  narration_delivery :: string
  confirmed_request_duration_seconds :: "int option"

definition options_to_payload :: "narration_options \<Rightarrow> params" where
  "options_to_payload opts =
     (''narration_delivery'', JStr (narration_delivery opts)) #
     (case confirmed_request_duration_seconds opts of None \<Rightarrow> []
      | Some n \<Rightarrow> [(''confirmed_request_duration_seconds'', JInt n)])"

definition options_from_payload :: "params \<Rightarrow> string \<Rightarrow> narration_options" where
  "options_from_payload payload key =
     (case dict_get payload key of
        Some (JObj raw) \<Rightarrow>
          \<lparr>narration_delivery =
             (case dict_get raw ''narration_delivery'' of
                Some (JStr d) \<Rightarrow> if d \<in> {POST_PRODUCTION, USE_TTS} then d else POST_PRODUCTION
              | _ \<Rightarrow> POST_PRODUCTION),
           confirmed_request_duration_seconds =
             (case dict_get raw ''confirmed_request_duration_seconds'' of
                Some (JInt n) \<Rightarrow> if n > 0 then Some n else None
              | _ \<Rightarrow> None)\<rparr>
      | _ \<Rightarrow> \<lparr>narration_delivery = POST_PRODUCTION, confirmed_request_duration_seconds = None\<rparr>)"

text \<open>\<open>__post_init__\<close> accepts exactly these.\<close>

definition options_ok :: "narration_options \<Rightarrow> bool" where
  "options_ok opts \<longleftrightarrow> narration_delivery opts \<in> {POST_PRODUCTION, USE_TTS}
     \<and> (case confirmed_request_duration_seconds opts of None \<Rightarrow> True | Some n \<Rightarrow> n > 0)"

definition narration_request_facts :: "string \<Rightarrow> params option \<Rightarrow> params option" where
  "narration_request_facts ttype payload =
     (case dict_get [(''video'', ''narration_delivery_options''),
          (''reference_video'', ''reference_request_options'')] ttype of
        None \<Rightarrow> None
      | Some key \<Rightarrow> Some (options_to_payload (options_from_payload (coalesce payload []) key)))"

subsection \<open>Enqueue payloads\<close>

definition reference_video_enqueue_payload :: "params option \<Rightarrow> string option \<Rightarrow> params" where
  "reference_video_enqueue_payload payload script =
     (let kept = filter (\<lambda>kv. fst kv \<in> {''script_file'', ''reference_request_options''}) (coalesce payload []);
          norm = (case dict_get kept ''reference_request_options'' of None \<Rightarrow> kept
            | Some v \<Rightarrow> dict_put ''reference_request_options''
                (JObj (options_to_payload (options_from_payload
                  [(''reference_request_options'', v)] ''reference_request_options''))) kept)
      in (case script of None \<Rightarrow> norm | Some f \<Rightarrow> dict_put ''script_file'' (JStr f) norm))"

definition without_video_execution_identity :: "params option \<Rightarrow> params" where
  "without_video_execution_identity payload =
     filter (\<lambda>kv. fst kv \<notin> {''video_provider_i2v'', ''video_provider_r2v''}) (coalesce payload [])"

subsection \<open>The queue\<close>

record gqueue =
  gq_repo :: repo
  gq_bus :: "(string \<times> task_change list) list"
  gq_signals :: "string list"
  gq_callback :: bool
  gq_compensated :: "nat list"

text \<open>\<open>_task_repo\<close>: a session on a fresh event list; the events go out after the commit.\<close>

definition in_session :: "(repo \<Rightarrow> repo \<times> 'a) \<Rightarrow> gqueue \<Rightarrow> gqueue \<times> 'a" where
  "in_session oper g =
     (case oper ((gq_repo g)\<lparr>terminal_events := []\<rparr>) of
        (r', x) \<Rightarrow> (g\<lparr>gq_repo := r'\<lparr>terminal_events := []\<rparr>,
          gq_bus := gq_bus g @ emit_task_terminal_events (terminal_events r')\<rparr>, x))"

definition signal :: "string list \<Rightarrow> gqueue \<Rightarrow> gqueue" where
  "signal tids g = (if gq_callback g then g\<lparr>gq_signals := gq_signals g @ tids\<rparr> else g)"

datatype queue_error = ActiveTaskRequestConflict string string | Raised py_error

definition set_worker_cancel_callback :: "bool \<Rightarrow> gqueue \<Rightarrow> gqueue" where
  "set_worker_cancel_callback cb g = g\<lparr>gq_callback := cb\<rparr>"

definition requested_payload :: "enqueue_request \<Rightarrow> params option" where
  "requested_payload q = (if rq_task_type q = ''reference_video''
     then Some (reference_video_enqueue_payload (rq_payload q) (rq_script_file q)) else rq_payload q)"

definition enqueue_task ::
  "(enqueue_request \<Rightarrow> string option) \<Rightarrow> nat \<Rightarrow> string \<Rightarrow> enqueue_request \<Rightarrow> gqueue \<Rightarrow>
   gqueue \<times> (queue_error + enqueue_result)" where
  "enqueue_task derive now tid q g =
     (let payload = requested_payload q; q1 = q\<lparr>rq_payload := payload\<rparr>;
          q2 = (case rq_provider_id q of Some p \<Rightarrow> q1 | None \<Rightarrow> q1\<lparr>rq_provider_id := derive q1\<rparr>);
          requested = narration_request_facts (rq_task_type q) payload
      in case in_session (enqueue now tid q2) g of
           (g', Inl e) \<Rightarrow> (g', Inl (Raised e))
         | (g', Inr res) \<Rightarrow>
             if er_deduped res \<and> requested \<noteq> None
                \<and> narration_request_facts (rq_task_type q)
                    (case er_existing_payload res of Some (JObj d) \<Rightarrow> Some d | _ \<Rightarrow> None) \<noteq> requested
             then (g', Inl (ActiveTaskRequestConflict (rq_resource_id q) (er_task_id res)))
             else (g', Inr (res\<lparr>er_existing_payload := None\<rparr>)))"

definition claim_next_task ::
  "nat \<Rightarrow> string \<Rightarrow> string list \<Rightarrow> string list \<Rightarrow> gqueue \<Rightarrow> gqueue \<times> task_dict option" where
  "claim_next_task now media full excluded = in_session (claim_next now media full excluded)"

definition requeue_running_tasks :: "nat \<Rightarrow> int \<Rightarrow> gqueue \<Rightarrow> gqueue \<times> nat" where
  "requeue_running_tasks now limit = in_session (requeue_running now limit)"

text \<open>\<open>undo\<close> is the callback of a \<open>CompensableGenerationResult\<close>, run at most once.\<close>

definition compensate_cancelled :: "nat \<Rightarrow> gqueue \<Rightarrow> gqueue" where
  "compensate_cancelled c g =
     (if c \<in> set (gq_compensated g) then g else g\<lparr>gq_compensated := gq_compensated g @ [c]\<rparr>)"

definition mark_task_succeeded :: "nat \<Rightarrow> string \<Rightarrow> params option \<Rightarrow> nat option \<Rightarrow> gqueue \<Rightarrow> gqueue \<times> nat" where
  "mark_task_succeeded now tid result undo g =
     (case in_session (mark_succeeded now tid result) g of
        (g', n) \<Rightarrow>
          (if n > 0 then g' else (case undo of None \<Rightarrow> g' | Some c \<Rightarrow> compensate_cancelled c g'), n))"

definition mark_task_failed :: "nat \<Rightarrow> string \<Rightarrow> string \<Rightarrow> gqueue \<Rightarrow> gqueue \<times> nat" where
  "mark_task_failed now tid msg = in_session (mark_failed now tid msg)"

definition mark_task_cancelled :: "nat \<Rightarrow> string \<Rightarrow> string \<Rightarrow> gqueue \<Rightarrow> gqueue \<times> nat" where
  "mark_task_cancelled now tid who g =
     (case in_session (finalize_cancelled now tid who) g of
        (g', n, cancelling) \<Rightarrow> (signal cancelling g', n))"

definition queue_cancel_task :: "nat \<Rightarrow> string \<Rightarrow> gqueue \<Rightarrow> gqueue \<times> cancel_lists res" where
  "queue_cancel_task now tid g =
     (case in_session (cancel_task now tid) g of
        (g', Inl e) \<Rightarrow> (g', Inl e)
      | (g', Inr cl) \<Rightarrow> (signal (cl_cancelling cl) g', Inr cl))"

definition queue_cancel_all_queued :: "nat \<Rightarrow> string \<Rightarrow> gqueue \<Rightarrow> gqueue \<times> nat \<times> nat" where
  "queue_cancel_all_queued now project = in_session (cancel_all_queued now project)"

definition queue_persist_provider_job_id ::
  "nat \<Rightarrow> string \<Rightarrow> string \<Rightarrow> string option \<Rightarrow> string option \<Rightarrow> gqueue \<Rightarrow> gqueue" where
  "queue_persist_provider_job_id now tid job endpoint base_url g =
     fst (in_session (\<lambda>r. (persist_provider_job_id now tid job endpoint base_url r, ())) g)"

definition queue_persist_api_call_id :: "nat \<Rightarrow> string \<Rightarrow> int \<Rightarrow> gqueue \<Rightarrow> gqueue \<times> unit res" where
  "queue_persist_api_call_id now tid call = in_session (persist_api_call_id now tid call)"

definition queue_persist_execution_checkpoint ::
  "nat \<Rightarrow> string \<Rightarrow> string \<Rightarrow> string \<Rightarrow> gqueue \<Rightarrow> gqueue \<times> unit res" where
  "queue_persist_execution_checkpoint now tid c p = in_session (persist_execution_checkpoint now tid c p)"

definition queue_persist_execution_provider_id :: "nat \<Rightarrow> string \<Rightarrow> string \<Rightarrow> gqueue \<Rightarrow> gqueue" where
  "queue_persist_execution_provider_id now tid p g =
     fst (in_session (\<lambda>r. (persist_execution_provider_id now tid p r, ())) g)"

definition acquire_or_renew_worker_lease ::
  "rat \<Rightarrow> nat \<Rightarrow> string \<Rightarrow> string \<Rightarrow> rat \<Rightarrow> gqueue \<Rightarrow> gqueue \<times> bool" where
  "acquire_or_renew_worker_lease epoch now nm owner ttl = in_session (acquire_or_renew_lease epoch now nm owner ttl)"

definition release_worker_lease :: "string \<Rightarrow> string \<Rightarrow> gqueue \<Rightarrow> gqueue" where
  "release_worker_lease nm owner g = fst (in_session (\<lambda>r. (release_lease nm owner r, ())) g)"

text \<open>The worker's own requeue bypasses the front end and writes to the same database.\<close>

definition queue_requeue_single :: "nat \<Rightarrow> string \<Rightarrow> gqueue \<Rightarrow> gqueue \<times> bool" where
  "queue_requeue_single now tid = in_session (requeue_single_task now tid)"

subsection \<open>What is on the bus\<close>

definition bus_changes :: "(string \<times> task_change list) list \<Rightarrow> (string \<times> task_change) list" where
  "bus_changes bus = concat (map (\<lambda>(p, cs). map (Pair p) cs) bus)"

lemma bus_changes_append [simp]: "bus_changes (a @ b) = bus_changes a @ bus_changes b"
  by (simp add: bus_changes_def)

lemma mset_dict_append:
  assumes "dict_ok d"
  shows "mset (concat (map snd (dict_append k v d))) = add_mset v (mset (concat (map snd d)))"
  using assms
proof (induction d)
  case (Cons kv d)
  obtain k' vs where kv: "kv = (k', vs)" by force
  have ok: "dict_ok d" using Cons.prems by (simp add: dict_ok_def)
  show ?case
  proof (cases "k = k'")
    case True
    then show ?thesis using kv by (simp add: dict_append_def dict_get_default_def)
  next
    case False
    then show ?thesis using Cons.IH [OF ok] kv by (simp add: dict_append_def dict_get_default_def)
  qed
qed (simp add: dict_append_def dict_get_default_def)

lemma mset_group_by: "mset (concat (map snd (group_by f xs))) = mset xs"
proof -
  have "dict_ok d \<Longrightarrow> mset (concat (map snd (fold (\<lambda>x d. dict_append (f x) x d) xs d))) =
      mset (concat (map snd d)) + mset xs" for d
  proof (induction xs arbitrary: d)
    case (Cons x xs)
    have "dict_ok (dict_append (f x) x d)" using Cons.prems by (simp add: dict_append_def dict_ok_put)
    then show ?case using Cons mset_dict_append by simp
  qed simp
  then show ?thesis by (simp add: group_by_def)
qed

lemma bus_changes_emit: "mset (bus_changes (emit_task_terminal_events es)) = mset (List.map_filter project_change es)"
proof -
  let ?ps = "List.map_filter project_change es"
  have "map (Pair p) (map snd cs) = cs" if "(p, cs) \<in> set (group_by fst ?ps)" for p cs
    using group_by_member [OF that] by (auto intro!: map_idI)
  then have "concat (map (\<lambda>(p, cs). map (Pair p) cs) (map (\<lambda>(p, cs). (p, map snd cs)) (group_by fst ?ps))) =
      concat (map snd (group_by fst ?ps))"
    by (intro arg_cong [of _ _ concat]) (auto simp: comp_def split_def)
  then show ?thesis
    using mset_group_by [of fst ?ps] by (simp add: bus_changes_def emit_task_terminal_events_def)
qed

text \<open>The change announced for a finished row, when it can be announced at all.\<close>

definition outcome_change :: "task \<Rightarrow> string \<times> task_change" where
  "outcome_change t = (project_name t, \<lparr>ch_entity_type = ''task'', ch_action = ''task_'' @ status_str (status t),
     ch_entity_id = task_id t, ch_label = task_id t, ch_important = False, ch_task_type = task_type t\<rparr>)"

definition announced :: "task \<Rightarrow> bool" where
  "announced t \<longleftrightarrow> terminal (status t) \<and> project_name t \<noteq> [] \<and> task_id t \<noteq> []"

lemma project_change_event:
  "terminal (status t) \<Longrightarrow> project_change (event_of t) = (if announced t then Some (outcome_change t) else None)"
  by (cases "status t") (auto simp: project_change_def build_task_terminal_change_def event_of_def announced_def
      outcome_change_def STATUS_ACTIONS_def status_str_def)

definition bus_ok :: "gqueue \<Rightarrow> bool" where
  "bus_ok g \<longleftrightarrow> (\<exists>L. repo_inv ((gq_repo g)\<lparr>terminal_events := L\<rparr>)
     \<and> mset (bus_changes (gq_bus g)) = mset (List.map_filter project_change L))"

lemma transition_shift:
  assumes "transition (r\<lparr>terminal_events := []\<rparr>) r'" "table_ok r"
  shows "transition (r\<lparr>terminal_events := L\<rparr>) (r'\<lparr>terminal_events := L @ terminal_events r'\<rparr>)"
proof -
  have "newly_terminal (r\<lparr>terminal_events := L\<rparr>) (r'\<lparr>terminal_events := L @ terminal_events r'\<rparr>) = newly_terminal r r'"
    "newly_terminal (r\<lparr>terminal_events := []\<rparr>) r' = newly_terminal r r'"
    by (simp_all add: newly_terminal_def)
  then show ?thesis using assms
    by (simp add: transition_def exact_events_def rows_evolve_def)
qed

lemma map_filter_append [simp]: "List.map_filter f (xs @ ys) = List.map_filter f xs @ List.map_filter f ys"
  by (simp add: List.map_filter_def)

lemma repo_step_events:
  assumes "repo_step (r\<lparr>terminal_events := []\<rparr>) r'" "repo_inv (r\<lparr>terminal_events := L\<rparr>)"
  shows "repo_inv (r'\<lparr>terminal_events := L @ terminal_events r'\<rparr>)"
  using assms(1)
proof (cases rule: repo_step_cases)
  case 1
  have ok: "table_ok r" using assms(2) by (simp add: repo_inv_def)
  have t: "transition (r\<lparr>terminal_events := L\<rparr>) (r'\<lparr>terminal_events := L @ terminal_events r'\<rparr>)"
    by (rule transition_shift [OF 1(1) ok])
  have "rows_wf (r'\<lparr>terminal_events := L @ terminal_events r'\<rparr>)"
    using 1(2) assms(2) by (simp add: keeps_wf_def rows_wf_def repo_inv_def)
  moreover have "ledger_ok (r'\<lparr>terminal_events := L @ terminal_events r'\<rparr>)"
    using ledger_transition [OF _ _ t] assms(2) by (simp add: repo_inv_def)
  moreover have "table_ok r'"
    using t assms(2) rows_evolve_table_ok by (auto simp: repo_inv_def transition_def)
  ultimately show ?thesis by (simp add: repo_inv_def)
next
  case (2 now tid q)
  have "r'\<lparr>terminal_events := L @ terminal_events r'\<rparr> = fst (enqueue now tid q (r\<lparr>terminal_events := L\<rparr>))"
    using 2 by (simp add: enqueue_def Let_def insert_violates_def)
  then have "repo_step (r\<lparr>terminal_events := L\<rparr>) (r'\<lparr>terminal_events := L @ terminal_events r'\<rparr>)"
    using repo_step.enqueue by metis
  then show ?thesis using repo_step_inv assms(2) by blast
qed

subsection \<open>Runs of the queue\<close>

inductive queue_step :: "gqueue \<Rightarrow> gqueue \<Rightarrow> bool" where
  callback: "queue_step g (set_worker_cancel_callback cb g)"
| enqueue: "queue_step g (fst (enqueue_task derive now tid q g))"
| claim: "queue_step g (fst (claim_next_task now media full ex g))"
| requeue: "queue_step g (fst (requeue_running_tasks now limit g))"
| requeue_one: "queue_step g (fst (queue_requeue_single now tid g))"
| succeeded: "queue_step g (fst (mark_task_succeeded now tid res undo g))"
| failed: "queue_step g (fst (mark_task_failed now tid msg g))"
| cancelled: "queue_step g (fst (mark_task_cancelled now tid who g))"
| cancel: "queue_step g (fst (queue_cancel_task now tid g))"
| cancel_all: "queue_step g (fst (queue_cancel_all_queued now project g))"
| job: "queue_step g (queue_persist_provider_job_id now tid job ep url g)"
| call_id: "queue_step g (fst (queue_persist_api_call_id now tid call g))"
| checkpoint: "queue_step g (fst (queue_persist_execution_checkpoint now tid cp prov g))"
| provider: "queue_step g (queue_persist_execution_provider_id now tid prov g)"
| acquire: "queue_step g (fst (acquire_or_renew_worker_lease epoch now nm owner ttl g))"
| release: "queue_step g (release_worker_lease nm owner g)"

definition fresh_queue :: gqueue where
  "fresh_queue = \<lparr>gq_repo = \<lparr>tasks = [], worker_leases = [], terminal_events = []\<rparr>, gq_bus = [],
     gq_signals = [], gq_callback = False, gq_compensated = []\<rparr>"

inductive queue_reachable :: "gqueue \<Rightarrow> bool" where
  fresh: "queue_reachable fresh_queue"
| step: "queue_reachable g \<Longrightarrow> queue_step g g' \<Longrightarrow> queue_reachable g'"

lemma claim_next_step: "repo_step r (fst (claim_next now media full ex r))"
proof (cases "claim_select media full ex r")
  case None
  then have "fst (claim_next now media full ex r) = fst (requeue_single_task now i r)"
    if "get_row i r = None" for i
    using that by (auto simp: claim_next_def requeue_single_task_def Let_def get_row_def find_None_iff update_where_no_match)
  moreover obtain i where "get_row i r = None"
  proof -
    have "finite (dom (look r))" by (rule finite_look)
    then obtain i where "i \<notin> dom (look r)" using ex_new_if_finite [of "dom (look r)"] infinite_UNIV_listI by blast
    then show ?thesis using that by (auto simp: domIff)
  qed
  ultimately show ?thesis using repo_step.requeue_one by metis
qed (simp add: claim_next_def repo_step.claim)

text \<open>What a step leaves: the database after one committed repository step, with its events on
  the bus.\<close>

definition commits :: "gqueue \<Rightarrow> gqueue \<Rightarrow> bool" where
  "commits g g' \<longleftrightarrow> (\<exists>r'. repo_step ((gq_repo g)\<lparr>terminal_events := []\<rparr>) r'
     \<and> gq_repo g' = r'\<lparr>terminal_events := []\<rparr> \<and> gq_bus g' = gq_bus g @ emit_task_terminal_events (terminal_events r'))"

lemma commits_session:
  assumes "\<And>r. repo_step r (fst (oper r))" "gq_repo g' = gq_repo (fst (in_session oper g))" "gq_bus g' = gq_bus (fst (in_session oper g))"
  shows "commits g g'"
  using assms(1) [of "(gq_repo g)\<lparr>terminal_events := []\<rparr>"] assms(2,3)
  by (auto simp: commits_def in_session_def split: prod.splits)

lemma frame_simps [simp]:
  "gq_repo (signal tids g) = gq_repo g" "gq_bus (signal tids g) = gq_bus g"
  "gq_repo (compensate_cancelled c g) = gq_repo g" "gq_bus (compensate_cancelled c g) = gq_bus g"
  by (simp_all add: signal_def compensate_cancelled_def)

lemma enqueue_task_state: "\<exists>q'. fst (enqueue_task derive now tid q g) = fst (in_session (enqueue now tid q') g)"
  by (auto simp: enqueue_task_def Let_def split: prod.split sum.split) (metis fst_conv)+

lemma queue_cancel_state:
  "\<exists>tids. fst (queue_cancel_task now tid g) = signal tids (fst (in_session (cancel_task now tid) g))"
proof (cases "in_session (cancel_task now tid) g")
  case (Pair g' res)
  have "signal [] g' = g'" by (simp add: signal_def)
  then show ?thesis using Pair by (cases res) (auto simp: queue_cancel_task_def intro: exI [of _ "[]"])
qed

lemma queue_step_commits:
  assumes "queue_step g g'"
  obtains (same) "gq_repo g' = gq_repo g" "gq_bus g' = gq_bus g" | (commit) "commits g g'"
  using assms
proof cases
  case (callback cb)
  then show ?thesis using same by (simp add: set_worker_cancel_callback_def)
next
  case (enqueue derive now tid q)
  obtain q' where "g' = fst (in_session (enqueue now tid q') g)"
    using enqueue enqueue_task_state [of derive now tid q g] by blast
  then show ?thesis using commit commits_session [of "enqueue now tid q'"] repo_step.enqueue by simp
next
  case (claim now media full ex)
  then show ?thesis using commit commits_session [of "claim_next now media full ex"] claim_next_step
    by (simp add: claim_next_task_def)
next
  case (requeue now limit)
  then show ?thesis using commit commits_session [of "requeue_running now limit"] repo_step.requeue
    by (simp add: requeue_running_tasks_def)
next
  case (requeue_one now tid)
  then show ?thesis using commit commits_session [of "requeue_single_task now tid"] repo_step.requeue_one
    by (simp add: queue_requeue_single_def)
next
  case (succeeded now tid res undo)
  then show ?thesis using commit commits_session [of "mark_succeeded now tid res" g' g] repo_step.succeeded
    by (simp add: mark_task_succeeded_def split_def split: option.split)
next
  case (failed now tid msg)
  then show ?thesis using commit commits_session [of "mark_failed now tid msg"] repo_step.failed
    by (simp add: mark_task_failed_def)
next
  case (cancelled now tid who)
  then show ?thesis using commit commits_session [of "finalize_cancelled now tid who" g' g] repo_step.finalize
    by (simp add: mark_task_cancelled_def split_def)
next
  case (cancel now tid)
  then obtain tids where "g' = signal tids (fst (in_session (cancel_task now tid) g))"
    using queue_cancel_state [of now tid g] by blast
  then show ?thesis using commit commits_session [of "cancel_task now tid" g' g] repo_step.cancel by simp
next
  case (cancel_all now project)
  then show ?thesis using commit commits_session [of "cancel_all_queued now project"] repo_step.cancel_all
    by (simp add: queue_cancel_all_queued_def)
next
  case (job now tid job ep url)
  then show ?thesis using commit commits_session [of "\<lambda>r. (persist_provider_job_id now tid job ep url r, ())"] repo_step.job
    by (simp add: queue_persist_provider_job_id_def)
next
  case (call_id now tid call)
  then show ?thesis
    using commit commits_session [of "merge_payload_field now tid ''api_call_id'' (JInt call) True"] repo_step.payload
    by (simp add: queue_persist_api_call_id_def persist_api_call_id_def [abs_def])
next
  case (checkpoint now tid cp prov)
  then show ?thesis using commit commits_session [of "persist_execution_checkpoint now tid cp prov"] repo_step.checkpoint
    by (simp add: queue_persist_execution_checkpoint_def)
next
  case (provider now tid prov)
  then show ?thesis using commit commits_session [of "\<lambda>r. (persist_execution_provider_id now tid prov r, ())"] repo_step.provider
    by (simp add: queue_persist_execution_provider_id_def)
next
  case (acquire epoch now nm owner ttl)
  then show ?thesis using commit commits_session [of "acquire_or_renew_lease epoch now nm owner ttl"] repo_step.acquire
    by (simp add: acquire_or_renew_worker_lease_def)
next
  case (release nm owner)
  then show ?thesis using commit commits_session [of "\<lambda>r. (release_lease nm owner r, ())"] repo_step.release
    by (simp add: release_worker_lease_def)
qed

lemma queue_step_bus:
  assumes "queue_step g g'" "bus_ok g"
  shows "bus_ok g'"
  using assms(1)
proof (cases rule: queue_step_commits)
  case same
  then show ?thesis using assms(2) by (simp add: bus_ok_def)
next
  case commit
  then obtain r' where r': "repo_step ((gq_repo g)\<lparr>terminal_events := []\<rparr>) r'" "gq_repo g' = r'\<lparr>terminal_events := []\<rparr>"
    "gq_bus g' = gq_bus g @ emit_task_terminal_events (terminal_events r')" by (auto simp: commits_def)
  obtain L where L: "repo_inv ((gq_repo g)\<lparr>terminal_events := L\<rparr>)"
    "mset (bus_changes (gq_bus g)) = mset (List.map_filter project_change L)"
    using assms(2) by (auto simp: bus_ok_def)
  show ?thesis unfolding bus_ok_def using repo_step_events [OF r'(1) L(1)] L(2) r'(2,3)
    by (intro exI [of _ "L @ terminal_events r'"]) (simp add: bus_changes_emit)
qed

lemma queue_reachable_bus: "queue_reachable g \<Longrightarrow> bus_ok g"
proof (induction rule: queue_reachable.induct)
  case fresh
  have "repo_inv \<lparr>tasks = [], worker_leases = [], terminal_events = []\<rparr>"
    by (rule reachable_inv [OF reachable.empty])
  then show ?case unfolding bus_ok_def fresh_queue_def
    by (intro exI [of _ "[]"]) (simp add: bus_changes_def List.map_filter_def)
qed (rule queue_step_bus)

subsection \<open>Properties\<close>

lemma project_change_id: "project_change e = Some pc \<Longrightarrow> ch_entity_id (snd pc) = ev_task_id e"
  by (auto simp: project_change_def build_task_terminal_change_def split: option.splits if_splits)

lemma map_filter_ids:
  "map (\<lambda>pc. ch_entity_id (snd pc)) (List.map_filter project_change L) =
    map ev_task_id (filter (\<lambda>e. project_change e \<noteq> None) L)"
  by (induction L) (auto simp: List.map_filter_def project_change_id)

lemma set_map_filter_events:
  assumes "set L = event_of ` finished_rows r"
  shows "set (List.map_filter project_change L) = outcome_change ` {t \<in> set (tasks r). announced t}"
proof -
  have "set (List.map_filter project_change L) = {pc. \<exists>e \<in> set L. project_change e = Some pc}"
    by (force simp: List.map_filter_def)
  also have "\<dots> = {pc. \<exists>t \<in> finished_rows r. project_change (event_of t) = Some pc}" using assms by auto
  also have "\<dots> = outcome_change ` {t \<in> set (tasks r). announced t}"
    by (auto simp: finished_rows_def active_iff project_change_event announced_def image_iff split: if_splits) metis
  finally show ?thesis .
qed

text \<open>
  (C11) Every outcome is announced exactly once. In every state the queue can reach, the
  changes on the project event bus are, for each finished task of a named project, one
  change in its own project with the action of its final status, and nothing else; in
  particular no status is announced before it is committed and none is lost.
\<close>

theorem outcomes_announced_once:
  assumes "queue_reachable g"
  shows "distinct (map (\<lambda>pc. ch_entity_id (snd pc)) (bus_changes (gq_bus g)))
    \<and> set (bus_changes (gq_bus g)) = outcome_change ` {t \<in> set (tasks (gq_repo g)). announced t}"
proof -
  obtain L where L: "repo_inv ((gq_repo g)\<lparr>terminal_events := L\<rparr>)"
    and m: "mset (bus_changes (gq_bus g)) = mset (List.map_filter project_change L)"
    using queue_reachable_bus [OF assms] by (auto simp: bus_ok_def)
  have L': "distinct (map ev_task_id L)" "set L = event_of ` finished_rows ((gq_repo g)\<lparr>terminal_events := L\<rparr>)"
    using L by (simp_all add: repo_inv_def ledger_ok_def)
  have "distinct (map (\<lambda>pc. ch_entity_id (snd pc)) (List.map_filter project_change L))"
    unfolding map_filter_ids by (rule distinct_map_filter [OF L'(1)])
  moreover have "mset (map (\<lambda>pc. ch_entity_id (snd pc)) (bus_changes (gq_bus g))) =
      mset (map (\<lambda>pc. ch_entity_id (snd pc)) (List.map_filter project_change L))" using m by simp
  ultimately have "distinct (map (\<lambda>pc. ch_entity_id (snd pc)) (bus_changes (gq_bus g)))"
    using mset_eq_imp_distinct_iff by blast
  moreover have "set (bus_changes (gq_bus g)) = set (List.map_filter project_change L)"
    using m by (metis set_mset_mset)
  ultimately show ?thesis using set_map_filter_events [OF L'(2)] by simp
qed

definition sample_queue :: gqueue where
  "sample_queue = fst (mark_task_failed 7 ''a'' ''boom'' (fst (claim_next_task 5 ''image'' [] []
     (fst (enqueue_task (\<lambda>_. None) 2 ''b'' (sample_request ''s2'' (Some ''a''))
       (fst (enqueue_task (\<lambda>_. None) 1 ''a'' (sample_request ''s1'' None) fresh_queue)))))))"

theorem outcomes_announced_once_witness:
  "set (map (\<lambda>pc. ch_entity_id (snd pc)) (bus_changes (gq_bus sample_queue))) = {''a'', ''b''}"
proof -
  have "queue_reachable sample_queue" unfolding sample_queue_def
    by (intro queue_reachable.step [OF _ queue_step.failed] queue_reachable.step [OF _ queue_step.claim]
        queue_reachable.step [OF _ queue_step.enqueue] queue_reachable.fresh)
  note o = outcomes_announced_once [OF this]
  have "{t \<in> set (tasks (gq_repo sample_queue)). announced t} = set (filter announced (tasks (gq_repo sample_queue)))" by simp
  moreover have "set (map task_id (filter announced (tasks (gq_repo sample_queue)))) = {''a'', ''b''}" by code_simp
  ultimately show ?thesis using o by (simp add: outcome_change_def image_image)
qed

lemma options_from_ok: "options_ok (options_from_payload payload key)"
  by (auto simp: options_ok_def options_from_payload_def POST_PRODUCTION_def USE_TTS_def split: option.splits json.splits)

lemma options_payload_inverse:
  "options_ok opts \<Longrightarrow> dict_get payload key = Some (JObj (options_to_payload opts)) \<Longrightarrow> options_from_payload payload key = opts"
  by (cases opts) (auto simp: options_ok_def options_from_payload_def options_to_payload_def
      POST_PRODUCTION_def USE_TTS_def split: option.split)

lemma options_to_payload_inj:
  assumes "options_ok a" "options_ok b" "options_to_payload a = options_to_payload b"
  shows "a = b"
proof -
  have "options_from_payload [(''k'', JObj (options_to_payload a))] ''k'' = a"
    by (rule options_payload_inverse [OF assms(1)]) simp
  moreover have "options_from_payload [(''k'', JObj (options_to_payload b))] ''k'' = b"
    by (rule options_payload_inverse [OF assms(2)]) simp
  ultimately show ?thesis using assms(3) by metis
qed

text \<open>
  The durable narration options survive the queue: what is written to a payload and
  read back is the same, whatever else the payload holds, and reading any payload at all
  gives options the class accepts.
\<close>

theorem narration_options_round_trip:
  "options_ok (options_from_payload payload key)
   \<and> (options_ok opts \<longrightarrow>
       options_from_payload (dict_put key (JObj (options_to_payload opts)) payload) key = opts)"
  using options_from_ok options_payload_inverse by (simp add: dict_get_put)

theorem narration_options_round_trip_witness:
  "options_from_payload (dict_put ''narration_delivery_options''
     (JObj (options_to_payload \<lparr>narration_delivery = USE_TTS, confirmed_request_duration_seconds = Some 8\<rparr>)) []) ''narration_delivery_options''
   = \<lparr>narration_delivery = USE_TTS, confirmed_request_duration_seconds = Some 8\<rparr>"
  using narration_options_round_trip [of "[]" "''narration_delivery_options''" "\<lparr>narration_delivery = USE_TTS, confirmed_request_duration_seconds = Some 8\<rparr>"]
  by (simp add: options_ok_def)

lemma reference_payload_options:
  "options_from_payload (reference_video_enqueue_payload payload script) ''reference_request_options'' =
    options_from_payload (coalesce payload []) ''reference_request_options''"
proof -
  let ?key = "''reference_request_options''"
  let ?kept = "filter (\<lambda>kv. fst kv \<in> {''script_file'', ?key}) (coalesce payload [])"
  have k: "dict_get (filter (\<lambda>kv. fst kv \<in> {''script_file'', ?key}) d) ?key = dict_get d ?key" for d :: params
    by (induction d) auto
  note k' = k [simplified]
  have same: "options_from_payload d ?key = options_from_payload d' ?key" if "dict_get d ?key = dict_get d' ?key" for d d'
    using that by (simp add: options_from_payload_def)
  show ?thesis
  proof (cases "dict_get (coalesce payload []) ?key")
    case None
    then have "dict_get (reference_video_enqueue_payload payload script) ?key = None"
      by (simp add: reference_video_enqueue_payload_def Let_def k' dict_get_put split: option.split)
    then show ?thesis using None same by simp
  next
    case (Some v)
    let ?opts = "options_from_payload [(?key, v)] ?key"
    have "dict_get (reference_video_enqueue_payload payload script) ?key = Some (JObj (options_to_payload ?opts))"
      using Some by (simp add: reference_video_enqueue_payload_def Let_def k' dict_get_put split: option.split)
    then have "options_from_payload (reference_video_enqueue_payload payload script) ?key = ?opts"
      by (intro options_payload_inverse options_from_ok)
    moreover have "?opts = options_from_payload (coalesce payload []) ?key" using Some by (intro same) simp
    ultimately show ?thesis by simp
  qed
qed

definition payload_dict :: "task \<Rightarrow> params" where
  "payload_dict t = (case json_loads_default (payload_json t) (JObj []) of JObj d \<Rightarrow> d | _ \<Rightarrow> [])"

definition narration_key :: "string \<Rightarrow> string option" where
  "narration_key ttype = dict_get [(''video'', ''narration_delivery_options''),
     (''reference_video'', ''reference_request_options'')] ttype"

lemma facts_key:
  "narration_request_facts ttype p = map_option (\<lambda>key. options_to_payload (options_from_payload (coalesce p []) key)) (narration_key ttype)"
  by (simp add: narration_request_facts_def narration_key_def split: option.split)

lemma requested_options:
  "narration_key (rq_task_type q) = Some key \<Longrightarrow>
    options_from_payload (coalesce (requested_payload q) []) key = options_from_payload (coalesce (rq_payload q) []) key"
  using reference_payload_options [of "rq_payload q" "rq_script_file q"]
  by (auto simp: requested_payload_def narration_key_def split: if_splits)

lemma existing_payload:
  "coalesce (case Some (json_loads_default (payload_json e) (JObj [])) of Some (JObj d) \<Rightarrow> Some d | _ \<Rightarrow> None) [] = payload_dict e"
  by (simp add: payload_dict_def split: json.split)

text \<open>The answer of \<open>enqueue_task\<close>, from the answer of the repository.\<close>

lemma enqueue_task_answer:
  assumes "get_row tid (gq_repo g) = None"
  shows "\<exists>q2. rq_project_name q2 = rq_project_name q \<and> rq_task_type q2 = rq_task_type q \<and> rq_resource_id q2 = rq_resource_id q
    \<and> (if \<exists>e \<in> set (tasks (gq_repo g)). active e \<and> dedupe_key e = dedupe_key (new_task now tid q2)
       then \<exists>e \<in> set (tasks (gq_repo g)). active e \<and> dedupe_key e = dedupe_key (new_task now tid q2)
         \<and> tasks (gq_repo (fst (enqueue_task derive now tid q g))) = tasks (gq_repo g)
         \<and> snd (enqueue_task derive now tid q g) =
           (if narration_request_facts (rq_task_type q) (Some (payload_dict e)) = narration_request_facts (rq_task_type q) (requested_payload q)
            then Inr \<lparr>er_task_id = task_id e, er_status = status e, er_deduped = True, er_existing_task_id = Some (task_id e), er_existing_payload = None\<rparr>
            else Inl (ActiveTaskRequestConflict (rq_resource_id q) (task_id e)))
       else tasks (gq_repo (fst (enqueue_task derive now tid q g))) = tasks (gq_repo g) @ [new_task now tid q2]
         \<and> snd (enqueue_task derive now tid q g) =
           Inr \<lparr>er_task_id = tid, er_status = Queued, er_deduped = False, er_existing_task_id = None, er_existing_payload = None\<rparr>)"
proof -
  define q1 where "q1 = q\<lparr>rq_payload := requested_payload q\<rparr>"
  define q2 where "q2 = (case rq_provider_id q of Some p \<Rightarrow> q1 | None \<Rightarrow> q1\<lparr>rq_provider_id := derive q1\<rparr>)"
  let ?r = "(gq_repo g)\<lparr>terminal_events := []\<rparr>"
  have fields: "rq_project_name q2 = rq_project_name q" "rq_task_type q2 = rq_task_type q" "rq_resource_id q2 = rq_resource_id q"
    by (simp_all add: q1_def q2_def split: option.split)
  have facts: "narration_request_facts (rq_task_type q) (case Some (json_loads_default (payload_json e) (JObj [])) of Some (JObj d) \<Rightarrow> Some d | _ \<Rightarrow> None)
      = narration_request_facts (rq_task_type q) (Some (payload_dict e))" for e
    unfolding facts_key existing_payload by simp
  have none: "narration_request_facts (rq_task_type q) a = None \<longleftrightarrow> narration_request_facts (rq_task_type q) b = None" for a b
    by (simp add: facts_key)
  have task: "enqueue_task derive now tid q g = (case in_session (enqueue now tid q2) g of
      (g', Inl e) \<Rightarrow> (g', Inl (Raised e))
    | (g', Inr res) \<Rightarrow>
        if er_deduped res \<and> narration_request_facts (rq_task_type q) (requested_payload q) \<noteq> None
           \<and> narration_request_facts (rq_task_type q) (case er_existing_payload res of Some (JObj d) \<Rightarrow> Some d | _ \<Rightarrow> None)
             \<noteq> narration_request_facts (rq_task_type q) (requested_payload q)
        then (g', Inl (ActiveTaskRequestConflict (rq_resource_id q) (er_task_id res)))
        else (g', Inr (res\<lparr>er_existing_payload := None\<rparr>)))"
    by (simp only: enqueue_task_def Let_def q1_def q2_def)
  have spec: "case enqueue now tid q2 ?r of (r', res) \<Rightarrow>
    if \<exists>e \<in> set (tasks ?r). active e \<and> dedupe_key e = dedupe_key (new_task now tid q2)
    then r' = ?r \<and> (\<exists>e \<in> set (tasks ?r). active e \<and> dedupe_key e = dedupe_key (new_task now tid q2)
      \<and> res = Inr \<lparr>er_task_id = task_id e, er_status = status e, er_deduped = True, er_existing_task_id = Some (task_id e),
          er_existing_payload = Some (json_loads_default (payload_json e) (JObj []))\<rparr>)
    else r' = ?r\<lparr>tasks := tasks ?r @ [new_task now tid q2]\<rparr>
      \<and> res = Inr \<lparr>er_task_id = tid, er_status = Queued, er_deduped = False, er_existing_task_id = None, er_existing_payload = None\<rparr>"
    by (rule enqueue_table) (use assms in simp)
  show ?thesis
  proof (cases "\<exists>e \<in> set (tasks (gq_repo g)). active e \<and> dedupe_key e = dedupe_key (new_task now tid q2)")
    case True
    then obtain e where e: "e \<in> set (tasks (gq_repo g))" "active e" "dedupe_key e = dedupe_key (new_task now tid q2)"
      "enqueue now tid q2 ?r = (?r, Inr \<lparr>er_task_id = task_id e, er_status = status e, er_deduped = True,
        er_existing_task_id = Some (task_id e), er_existing_payload = Some (json_loads_default (payload_json e) (JObj []))\<rparr>)"
      using spec by (auto split: prod.splits)
    then show ?thesis using True fields task none facts [of e]
      by (intro exI [of _ q2]) (auto simp: in_session_def intro!: bexI [of _ e])
  next
    case False
    then have "enqueue now tid q2 ?r = (?r\<lparr>tasks := tasks ?r @ [new_task now tid q2]\<rparr>, Inr \<lparr>er_task_id = tid,
        er_status = Queued, er_deduped = False, er_existing_task_id = None, er_existing_payload = None\<rparr>)"
      using spec by (auto split: prod.splits)
    then show ?thesis using False fields task by (intro exI [of _ q2]) (simp add: in_session_def)
  qed
qed

lemma same_facts:
  "narration_request_facts (rq_task_type q) (Some d) = narration_request_facts (rq_task_type q) (requested_payload q) \<longleftrightarrow>
    (\<forall>key. narration_key (rq_task_type q) = Some key \<longrightarrow>
      options_from_payload d key = options_from_payload (coalesce (rq_payload q) []) key)"
  using requested_options [of q] options_to_payload_inj [OF options_from_ok options_from_ok]
  by (cases "narration_key (rq_task_type q)") (auto simp: facts_key)

lemma new_task_columns:
  assumes "dedupe_key e = dedupe_key (new_task now tid q)"
  shows "project_name e = rq_project_name q \<and> task_type e = rq_task_type q \<and> resource_id e = rq_resource_id q"
  using assms by (simp add: dedupe_key_def new_task_def)

text \<open>
  \<open>enqueue_task\<close> reuses an unfinished task only for the same request. The answer is
  the new task, appended to the table; or an unfinished task of the same project, type and
  resource whose narration options equal those of the request; or, when they differ, a
  conflict that names that task. In the last two cases no row is added.
\<close>

theorem enqueue_task_reuse:
  assumes "get_row tid (gq_repo g) = None"
  shows "case snd (enqueue_task derive now tid q g) of
    Inr res \<Rightarrow>
      if er_deduped res
      then tasks (gq_repo (fst (enqueue_task derive now tid q g))) = tasks (gq_repo g)
        \<and> (\<exists>e \<in> set (tasks (gq_repo g)). active e \<and> task_id e = er_task_id res \<and> project_name e = rq_project_name q
          \<and> task_type e = rq_task_type q \<and> resource_id e = rq_resource_id q
          \<and> (\<forall>key. narration_key (rq_task_type q) = Some key \<longrightarrow>
              options_from_payload (payload_dict e) key = options_from_payload (coalesce (rq_payload q) []) key))
      else er_task_id res = tid \<and> (\<exists>t. tasks (gq_repo (fst (enqueue_task derive now tid q g))) = tasks (gq_repo g) @ [t]
        \<and> task_id t = tid \<and> status t = Queued)
  | Inl err \<Rightarrow> tasks (gq_repo (fst (enqueue_task derive now tid q g))) = tasks (gq_repo g)
      \<and> (\<exists>e \<in> set (tasks (gq_repo g)). active e \<and> err = ActiveTaskRequestConflict (rq_resource_id q) (task_id e)
        \<and> (\<exists>key. narration_key (rq_task_type q) = Some key \<and>
            options_from_payload (payload_dict e) key \<noteq> options_from_payload (coalesce (rq_payload q) []) key))"
proof -
  obtain q2 where q2: "rq_project_name q2 = rq_project_name q" "rq_task_type q2 = rq_task_type q" "rq_resource_id q2 = rq_resource_id q"
    and ans: "if \<exists>e \<in> set (tasks (gq_repo g)). active e \<and> dedupe_key e = dedupe_key (new_task now tid q2)
       then \<exists>e \<in> set (tasks (gq_repo g)). active e \<and> dedupe_key e = dedupe_key (new_task now tid q2)
         \<and> tasks (gq_repo (fst (enqueue_task derive now tid q g))) = tasks (gq_repo g)
         \<and> snd (enqueue_task derive now tid q g) =
           (if narration_request_facts (rq_task_type q) (Some (payload_dict e)) = narration_request_facts (rq_task_type q) (requested_payload q)
            then Inr \<lparr>er_task_id = task_id e, er_status = status e, er_deduped = True, er_existing_task_id = Some (task_id e), er_existing_payload = None\<rparr>
            else Inl (ActiveTaskRequestConflict (rq_resource_id q) (task_id e)))
       else tasks (gq_repo (fst (enqueue_task derive now tid q g))) = tasks (gq_repo g) @ [new_task now tid q2]
         \<and> snd (enqueue_task derive now tid q g) =
           Inr \<lparr>er_task_id = tid, er_status = Queued, er_deduped = False, er_existing_task_id = None, er_existing_payload = None\<rparr>"
    using enqueue_task_answer [OF assms, of q now derive] by blast
  show ?thesis
  proof (cases "\<exists>e \<in> set (tasks (gq_repo g)). active e \<and> dedupe_key e = dedupe_key (new_task now tid q2)")
    case True
    then obtain e where e: "e \<in> set (tasks (gq_repo g))" "active e" "dedupe_key e = dedupe_key (new_task now tid q2)"
      "tasks (gq_repo (fst (enqueue_task derive now tid q g))) = tasks (gq_repo g)"
      "snd (enqueue_task derive now tid q g) =
        (if \<forall>key. narration_key (rq_task_type q) = Some key \<longrightarrow>
            options_from_payload (payload_dict e) key = options_from_payload (coalesce (rq_payload q) []) key
         then Inr \<lparr>er_task_id = task_id e, er_status = status e, er_deduped = True, er_existing_task_id = Some (task_id e), er_existing_payload = None\<rparr>
         else Inl (ActiveTaskRequestConflict (rq_resource_id q) (task_id e)))"
      using ans unfolding same_facts by auto
    note cols = new_task_columns [OF e(3), unfolded q2]
    show ?thesis
      using e(1,2,4,5) cols by (auto intro!: bexI [of _ e] split: if_splits)
  next
    case False
    then show ?thesis using ans by (auto simp: new_task_def)
  qed
qed

theorem enqueue_task_reuse_witness:
  "\<exists>t. tasks (gq_repo (fst (enqueue_task (\<lambda>_. None) 1 ''a'' (sample_request ''s1'' None) fresh_queue))) = [t] \<and> task_id t = ''a''"
proof -
  have "get_row ''a'' (gq_repo fresh_queue) = None" by code_simp
  moreover have "er_deduped (projr (snd (enqueue_task (\<lambda>_. None) 1 ''a'' (sample_request ''s1'' None) fresh_queue))) = False"
    "isl (snd (enqueue_task (\<lambda>_. None) 1 ''a'' (sample_request ''s1'' None) fresh_queue)) = False" by code_simp+
  ultimately show ?thesis
    using enqueue_task_reuse [of "''a''" fresh_queue "\<lambda>_. None" 1 "sample_request ''s1'' None"]
    by (cases "snd (enqueue_task (\<lambda>_. None) 1 ''a'' (sample_request ''s1'' None) fresh_queue)") (auto simp: fresh_queue_def)
qed

end
