(* ===== verification/Slots.thy ===== *)
theory Slots
  imports PyText
begin

text \<open>
  Concurrency limits and running work of the worker (\<open>lib/generation_worker.py\<close>): the
  \<open>CapacityTable\<close> (limits per provider and media lane) and the \<open>SlotTable\<close> (who occupies
  which slot). The locale \<open>slot_ledger\<close> is what the worker relies on when it admits work.

  An \<open>asyncio.Future\<close> is a number; whether it is done is asked of the event loop, so
  \<open>drain_finished\<close> takes the answer as its argument \<open>done\<close>. The provider registry and the
  rows of the configuration database are arguments.
\<close>

subsection \<open>Limits read from text\<close>

definition read_int_env :: "(string \<Rightarrow> string option) \<Rightarrow> string \<Rightarrow> int \<Rightarrow> int \<Rightarrow> int" where
  "read_int_env environ name dflt minimum =
     (case environ name of None \<Rightarrow> dflt
      | Some raw \<Rightarrow> (case py_int raw of None \<Rightarrow> dflt | Some v \<Rightarrow> max minimum v))"

definition parse_lane_max :: "(string \<times> string) list \<Rightarrow> string \<Rightarrow> int \<Rightarrow> int" where
  "parse_lane_max config key dflt =
     (case dict_get config key of None \<Rightarrow> dflt
      | Some raw \<Rightarrow> (case py_int raw of None \<Rightarrow> dflt | Some v \<Rightarrow> max 0 v))"

subsection \<open>The capacity table\<close>

type_synonym lanes = "(string \<times> int) list"

record capacity_table =
  limits :: "(string \<times> lanes) list"
  defaults :: lanes

definition capacity_get :: "capacity_table \<Rightarrow> string \<Rightarrow> string \<Rightarrow> int" where
  "capacity_get ct provider media =
     (case dict_get (limits ct) provider of None \<Rightarrow> dict_get_default (defaults ct) media 0
      | Some ls \<Rightarrow> dict_get_default ls media 0)"

definition capacity_replace :: "(string \<times> lanes) list \<Rightarrow> capacity_table \<Rightarrow> capacity_table" where
  "capacity_replace new ct = ct\<lparr>limits := new\<rparr>"

definition lane_limits :: "string list \<Rightarrow> int \<Rightarrow> int \<Rightarrow> int \<Rightarrow> lanes" where
  "lane_limits media_types img vid aud =
     [(''image'', if ''image'' \<in> set media_types then img else 0),
      (''video'', if ''video'' \<in> set media_types then vid else 0),
      (''audio'', if ''audio'' \<in> set media_types then aud else 0)]"

text \<open>An entry of the provider registry, as far as the capacity table reads it.\<close>

record provider_meta =
  media_types :: "string list"
  default_concurrency :: lanes

definition lane_default :: "provider_meta \<Rightarrow> string \<Rightarrow> int \<Rightarrow> int" where
  "lane_default meta lane global_default = dict_get_default (default_concurrency meta) lane global_default"

definition capacity_from_env ::
  "(string \<Rightarrow> string option) \<Rightarrow> (string \<times> provider_meta) list \<Rightarrow> capacity_table" where
  "capacity_from_env environ registry =
     (let img = read_int_env environ ''IMAGE_MAX_WORKERS'' 5 1;
          vid = read_int_env environ ''VIDEO_MAX_WORKERS'' 3 1;
          aud = read_int_env environ ''AUDIO_MAX_WORKERS'' 10 1
      in \<lparr>limits = map (\<lambda>(pid, meta). (pid, lane_limits (media_types meta)
             (lane_default meta ''image'' img) (lane_default meta ''video'' vid)
             (lane_default meta ''audio'' aud))) registry,
          defaults = [(''image'', img), (''video'', vid), (''audio'', aud)]\<rparr>)"

text \<open>A row of the custom providers, with the media types of its enabled models.\<close>

record custom_provider =
  cp_provider_id :: string
  cp_media_types :: "string list"
  cp_image_max_workers :: "int option"
  cp_video_max_workers :: "int option"
  cp_audio_max_workers :: "int option"

definition capacity_from_db ::
  "(string \<Rightarrow> string option) \<Rightarrow> (string \<times> provider_meta) list \<Rightarrow> (string \<times> (string \<times> string) list) list \<Rightarrow>
   custom_provider list \<Rightarrow> capacity_table" where
  "capacity_from_db environ registry configs customs =
     (let img = read_int_env environ ''IMAGE_MAX_WORKERS'' 5 1;
          vid = read_int_env environ ''VIDEO_MAX_WORKERS'' 3 1;
          aud = read_int_env environ ''AUDIO_MAX_WORKERS'' 10 1;
          builtin = fold (\<lambda>(pid, meta) d. let config = dict_get_default configs pid [] in
              dict_put pid (lane_limits (media_types meta)
                (parse_lane_max config ''image_max_workers'' (lane_default meta ''image'' img))
                (parse_lane_max config ''video_max_workers'' (lane_default meta ''video'' vid))
                (parse_lane_max config ''audio_max_workers'' (lane_default meta ''audio'' aud))) d) registry [];
          all = fold (\<lambda>p d. dict_put (cp_provider_id p) (lane_limits (cp_media_types p)
                (coalesce (cp_image_max_workers p) img) (coalesce (cp_video_max_workers p) vid)
                (coalesce (cp_audio_max_workers p) aud)) d) customs builtin
      in \<lparr>limits = all, defaults = [(''image'', img), (''video'', vid), (''audio'', aud)]\<rparr>)"

subsection \<open>The slot table\<close>

record occupant =
  occ_task :: nat
  occ_pending :: bool

type_synonym bucket = "(string \<times> occupant) list"
type_synonym slot_key = "string \<times> string"
type_synonym slots = "(slot_key \<times> bucket) list"

definition bucket_of :: "slots \<Rightarrow> slot_key \<Rightarrow> bucket" where
  "bucket_of sl k = dict_get_default sl k []"

definition register :: "string \<Rightarrow> string \<Rightarrow> string \<Rightarrow> nat \<Rightarrow> bool \<Rightarrow> slots \<Rightarrow> slots" where
  "register provider media tid fut pend sl =
     dict_put (provider, media)
       (dict_put tid \<lparr>occ_task = fut, occ_pending = pend\<rparr> (bucket_of sl (provider, media))) sl"

definition promote :: "string \<Rightarrow> string \<Rightarrow> string \<Rightarrow> slots \<Rightarrow> slots" where
  "promote provider media tid sl =
     (case dict_get sl (provider, media) of None \<Rightarrow> sl
      | Some b \<Rightarrow> (case dict_get b tid of None \<Rightarrow> sl
          | Some occ \<Rightarrow> dict_put (provider, media) (dict_put tid (occ\<lparr>occ_pending := False\<rparr>) b) sl))"

definition release :: "string \<Rightarrow> string \<Rightarrow> string \<Rightarrow> slots \<Rightarrow> slots" where
  "release provider media tid sl =
     (case dict_get sl (provider, media) of None \<Rightarrow> sl
      | Some b \<Rightarrow> (let b' = dict_del tid b in
          if b' = [] then dict_del (provider, media) sl else dict_put (provider, media) b' sl))"

definition has_room :: "string \<Rightarrow> string \<Rightarrow> int \<Rightarrow> slots \<Rightarrow> bool" where
  "has_room provider media capacity sl =
     (if capacity \<le> 0 then False
      else (case dict_get sl (provider, media) of None \<Rightarrow> 0 | Some b \<Rightarrow> int (length b)) < capacity)"

definition occupied :: "string \<Rightarrow> string \<Rightarrow> slots \<Rightarrow> nat" where
  "occupied provider media sl =
     (case dict_get sl (provider, media) of None \<Rightarrow> 0 | Some b \<Rightarrow> length b)"

definition occupied_providers :: "string \<Rightarrow> slots \<Rightarrow> string list" where
  "occupied_providers media sl =
     map (\<lambda>kb. fst (fst kb)) (filter (\<lambda>kb. snd (fst kb) = media \<and> snd kb \<noteq> []) sl)"

fun find_by_task :: "string \<Rightarrow> slots \<Rightarrow> nat option" where
  "find_by_task tid [] = None"
| "find_by_task tid ((k, b) # sl) =
     (case dict_get b tid of Some occ \<Rightarrow> Some (occ_task occ) | None \<Rightarrow> find_by_task tid sl)"

definition drainable :: "(nat \<Rightarrow> bool) \<Rightarrow> occupant \<Rightarrow> bool" where
  "drainable done occ \<longleftrightarrow> \<not> occ_pending occ \<and> done (occ_task occ)"

text \<open>The loop over the buckets: the finished occupants, in order, and what stays.\<close>

fun drain_finished :: "(nat \<Rightarrow> bool) \<Rightarrow> slots \<Rightarrow> (string \<times> nat) list \<times> slots" where
  "drain_finished done [] = ([], [])"
| "drain_finished done ((k, b) # sl) =
     (let fin = map (\<lambda>(tid, occ). (tid, occ_task occ)) (filter (\<lambda>(tid, occ). drainable done occ) b);
          b' = filter (\<lambda>(tid, occ). \<not> drainable done occ) b;
          (fins, sl') = drain_finished done sl
      in (fin @ fins, if b' = [] then sl' else (k, b') # sl'))"

definition active_task_ids :: "slots \<Rightarrow> string list" where
  "active_task_ids sl = concat (map (\<lambda>kb. map fst (snd kb)) sl)"

definition all_active_tasks :: "slots \<Rightarrow> nat list" where
  "all_active_tasks sl = concat (map (\<lambda>kb. map (\<lambda>p. occ_task (snd p)) (snd kb)) sl)"

subsection \<open>The invariant of the slot table\<close>

text \<open>Keys and task ids occur once, and no bucket is empty: the class promises the latter.\<close>

definition slots_wf :: "slots \<Rightarrow> bool" where
  "slots_wf sl \<longleftrightarrow> dict_ok sl \<and> (\<forall>kb \<in> set sl. snd kb \<noteq> [] \<and> dict_ok (snd kb))"

lemma dict_put_set: "set (dict_put k v d) \<subseteq> insert (k, v) (set d)"
  by (induction d) auto

lemma slots_wf_put: "slots_wf sl \<Longrightarrow> b \<noteq> [] \<Longrightarrow> dict_ok b \<Longrightarrow> slots_wf (dict_put k b sl)"
  using dict_put_set [of k b sl] by (auto simp: slots_wf_def dict_ok_put)

lemma slots_wf_del: "slots_wf sl \<Longrightarrow> slots_wf (dict_del k sl)"
  by (auto simp: slots_wf_def dict_ok_del) (auto simp: dict_del_def)

lemma slots_wf_bucket: "slots_wf sl \<Longrightarrow> dict_get sl k = Some b \<Longrightarrow> b \<noteq> [] \<and> dict_ok b"
  unfolding slots_wf_def by (fastforce dest: map_of_SomeD)

lemma bucket_of_ok: "slots_wf sl \<Longrightarrow> dict_ok (bucket_of sl k)"
  using slots_wf_bucket by (auto simp: bucket_of_def dict_get_default_def split: option.split)

lemma dict_put_nonempty [simp]: "dict_put k v d \<noteq> []"
  by (cases d) auto

lemma register_wf: "slots_wf sl \<Longrightarrow> slots_wf (register p m tid fut pend sl)"
  by (simp add: register_def slots_wf_put dict_ok_put bucket_of_ok)

lemma promote_wf: "slots_wf sl \<Longrightarrow> slots_wf (promote p m tid sl)"
  by (auto simp: promote_def slots_wf_put dict_ok_put slots_wf_bucket split: option.split)

lemma release_wf: "slots_wf sl \<Longrightarrow> slots_wf (release p m tid sl)"
  by (auto simp: release_def Let_def slots_wf_put slots_wf_del dict_ok_del slots_wf_bucket split: option.split)

lemma drain_keys: "fst ` set (snd (drain_finished done sl)) \<subseteq> fst ` set sl"
proof (induction sl)
  case (Cons kb sl)
  obtain k b where "kb = (k, b)" by (cases kb) blast
  then show ?case using Cons.IH by (cases "drain_finished done sl") (auto simp: Let_def)
qed simp

lemma drain_wf: "slots_wf sl \<Longrightarrow> slots_wf (snd (drain_finished done sl))"
proof (induction sl)
  case (Cons kb sl)
  obtain k b where kb: "kb = (k, b)" by (cases kb) blast
  have wf: "slots_wf sl" "k \<notin> fst ` set sl" "dict_ok b" using Cons.prems kb by (auto simp: slots_wf_def dict_ok_def)
  have "dict_ok (filter (\<lambda>(tid, occ). \<not> drainable done occ) b)"
    using wf(3) by (simp add: dict_ok_def distinct_map_filter)
  moreover have "k \<notin> fst ` set (snd (drain_finished done sl))" using drain_keys wf(2) by blast
  ultimately show ?case using Cons.IH [OF wf(1)] kb
    by (auto simp: slots_wf_def dict_ok_def Let_def split: prod.splits)
qed (simp add: slots_wf_def)

subsection \<open>Occupancy\<close>

text \<open>The abstract view of the table: which task occupies which slot, and how.\<close>

definition slot_view :: "slots \<Rightarrow> slot_key \<Rightarrow> string \<Rightarrow> occupant option" where
  "slot_view sl k tid = dict_get (bucket_of sl k) tid"

lemma bucket_of_put: "bucket_of (dict_put k b sl) k' = (if k' = k then b else bucket_of sl k')"
  by (simp add: bucket_of_def dict_get_default_def dict_get_put)

lemma bucket_of_del: "bucket_of (dict_del k sl) k' = (if k' = k then [] else bucket_of sl k')"
  by (simp add: bucket_of_def dict_get_default_def dict_get_del)

lemma register_view:
  "slot_view (register p m tid fut pend sl) k i =
     (if k = (p, m) \<and> i = tid then Some \<lparr>occ_task = fut, occ_pending = pend\<rparr> else slot_view sl k i)"
  by (simp add: slot_view_def register_def bucket_of_put dict_get_put)

lemma bucket_get: "dict_get sl k = None \<Longrightarrow> bucket_of sl k = []" "dict_get sl k = Some b \<Longrightarrow> bucket_of sl k = b"
  by (simp_all add: bucket_of_def dict_get_default_def)

lemma promote_view:
  "slot_view (promote p m tid sl) k i =
     (if k = (p, m) \<and> i = tid then map_option (\<lambda>occ. occ\<lparr>occ_pending := False\<rparr>) (slot_view sl k i) else slot_view sl k i)"
  by (auto simp: slot_view_def promote_def bucket_of_put dict_get_put bucket_get split: option.split)

lemma release_view:
  "slot_view (release p m tid sl) k i = (if k = (p, m) \<and> i = tid then None else slot_view sl k i)"
proof (cases "dict_get sl (p, m)")
  case (Some b)
  show ?thesis
  proof (cases "dict_del tid b = []")
    case True
    then have "dict_get b i = None" if "i \<noteq> tid" using dict_get_del [of tid b i] that by simp
    then show ?thesis using Some True
      by (auto simp: slot_view_def release_def bucket_of_del bucket_get)
  next
    case False
    then show ?thesis using Some
      by (auto simp: slot_view_def release_def Let_def bucket_of_put bucket_get dict_get_del)
  qed
qed (auto simp: slot_view_def release_def bucket_get)

lemma occupied_bucket: "occupied p m sl = length (bucket_of sl (p, m))"
  by (simp add: occupied_def bucket_of_def dict_get_default_def split: option.split)

lemma has_room_iff: "has_room p m cap sl \<longleftrightarrow> 0 < cap \<and> int (occupied p m sl) < cap"
  by (auto simp: has_room_def occupied_def split: option.split)

lemma length_dict_put: "length (dict_put k v d) = (if k \<in> fst ` set d then length d else Suc (length d))"
  by (induction d) auto

lemma occupied_register:
  "occupied p' m' (register p m tid fut pend sl) \<le> occupied p' m' sl + (if (p', m') = (p, m) then 1 else 0)"
  by (simp add: occupied_bucket register_def bucket_of_put length_dict_put)

lemma length_dict_del: "length (dict_del k d) \<le> length d"
  by (simp add: dict_del_def)

lemma occupied_release: "occupied p' m' (release p m tid sl) \<le> occupied p' m' sl"
  using length_dict_del
  by (auto simp: occupied_bucket release_def Let_def bucket_of_put bucket_of_del bucket_get split: option.split)

lemma occupied_promote: "occupied p' m' (promote p m tid sl) = occupied p' m' sl"
  by (auto simp: occupied_bucket promote_def bucket_of_put bucket_get length_dict_put image_iff
      split: option.split dest!: map_of_SomeD)

lemma dict_get_filter:
  assumes "dict_ok b"
  shows "dict_get (filter (\<lambda>(i, occ). Q occ) b) i =
    (case dict_get b i of None \<Rightarrow> None | Some occ \<Rightarrow> if Q occ then Some occ else None)"
  using assms by (induction b) (auto simp: dict_ok_def map_of_eq_None_iff split: option.split)

lemma drain_bucket:
  "slots_wf sl \<Longrightarrow> bucket_of (snd (drain_finished done sl)) k =
    filter (\<lambda>(tid, occ). \<not> drainable done occ) (bucket_of sl k)"
proof (induction sl)
  case (Cons kb sl)
  obtain k' b where kb: "kb = (k', b)" by (cases kb) blast
  have wf: "slots_wf sl" "k' \<notin> fst ` set sl" using Cons.prems kb by (auto simp: slots_wf_def dict_ok_def)
  then have "dict_get sl k' = None" by (simp add: map_of_eq_None_iff)
  moreover have "k' \<notin> fst ` set (snd (drain_finished done sl))" using drain_keys wf(2) by blast
  then have "dict_get (snd (drain_finished done sl)) k' = None" by (simp add: map_of_eq_None_iff)
  ultimately show ?case using Cons.IH [OF wf(1)] kb
    by (cases "drain_finished done sl") (auto simp: Let_def bucket_of_def dict_get_default_def)
qed (simp add: bucket_of_def dict_get_default_def)

lemma drain_list:
  "fst (drain_finished done sl) =
    concat (map (\<lambda>kb. map (\<lambda>(tid, occ). (tid, occ_task occ)) (filter (\<lambda>(tid, occ). drainable done occ) (snd kb))) sl)"
proof (induction sl)
  case (Cons kb sl)
  obtain k b where "kb = (k, b)" by (cases kb) blast
  then show ?case using Cons.IH by (cases "drain_finished done sl") (auto simp: Let_def)
qed simp

lemma slot_view_entry:
  assumes "slots_wf sl"
  shows "slot_view sl k i = Some occ \<longleftrightarrow> (\<exists>b. (k, b) \<in> set sl \<and> (i, occ) \<in> set b)"
proof
  assume "slot_view sl k i = Some occ"
  then obtain b where "dict_get sl k = Some b" "dict_get b i = Some occ"
    by (auto simp: slot_view_def bucket_of_def dict_get_default_def split: option.splits)
  then show "\<exists>b. (k, b) \<in> set sl \<and> (i, occ) \<in> set b" by (auto dest: map_of_SomeD)
next
  assume "\<exists>b. (k, b) \<in> set sl \<and> (i, occ) \<in> set b"
  then obtain b where b: "(k, b) \<in> set sl" "(i, occ) \<in> set b" by blast
  then have "dict_get sl k = Some b" "dict_get b i = Some occ"
    using assms by (fastforce simp: slots_wf_def dict_ok_def)+
  then show "slot_view sl k i = Some occ" by (simp add: slot_view_def bucket_get)
qed

subsection \<open>The contract of admission\<close>

text \<open>What the worker relies on when it hands out slots: room is room, registering takes at
  most one slot, releasing takes none.\<close>

locale slot_ledger =
  fixes occ :: "string \<Rightarrow> string \<Rightarrow> 's \<Rightarrow> nat"
    and room :: "string \<Rightarrow> string \<Rightarrow> int \<Rightarrow> 's \<Rightarrow> bool"
    and reg :: "string \<Rightarrow> string \<Rightarrow> string \<Rightarrow> nat \<Rightarrow> bool \<Rightarrow> 's \<Rightarrow> 's"
    and rel :: "string \<Rightarrow> string \<Rightarrow> string \<Rightarrow> 's \<Rightarrow> 's"
  assumes room_iff: "room p m c s \<longleftrightarrow> 0 < c \<and> int (occ p m s) < c"
    and occ_reg: "occ p' m' (reg p m tid fut pend s) \<le> occ p' m' s + (if (p', m') = (p, m) then 1 else 0)"
    and occ_rel: "occ p' m' (rel p m tid s) \<le> occ p' m' s"
begin

definition within :: "(string \<Rightarrow> string \<Rightarrow> int) \<Rightarrow> 's \<Rightarrow> bool" where
  "within cap s \<longleftrightarrow> (\<forall>p m. int (occ p m s) \<le> max 0 (cap p m))"

lemma within_admit:
  assumes "within cap s" "room p m (cap p m) s"
  shows "within cap (reg p m tid fut pend s)"
  unfolding within_def
proof (intro allI)
  fix p' m'
  show "int (occ p' m' (reg p m tid fut pend s)) \<le> max 0 (cap p' m')"
    using assms(2) occ_reg [of p' m' p m tid fut pend s] spec [OF spec [OF assms(1) [unfolded within_def], of p'], of m']
    by (cases "(p', m') = (p, m)") (auto simp: room_iff max_def split: if_splits)
qed

lemma within_release: "within cap s \<Longrightarrow> within cap (rel p m tid s)"
  unfolding within_def using occ_rel by (meson of_nat_le_iff order_trans)

end

interpretation slot: slot_ledger occupied has_room register release
proof (unfold_locales, goal_cases)
  case (2 p' m' p m tid fut pend s)
  show ?case by (rule occupied_register)
qed (simp_all add: has_room_iff occupied_release)

subsection \<open>Properties\<close>

definition sample_slots :: slots where
  "sample_slots = register ''veo'' ''video'' ''t2'' 2 True
     (register ''veo'' ''video'' ''t1'' 1 False (register ''gemini'' ''image'' ''t3'' 3 False []))"

text \<open>
  \<open>drain_finished\<close> returns the finished running occupants with their futures, removes
  exactly those from the table, never touches a pending one, and leaves no empty bucket
  behind.
\<close>

theorem drain_finished_spec:
  assumes "slots_wf sl"
  shows "case drain_finished done sl of (fin, sl') \<Rightarrow>
    slots_wf sl'
    \<and> set fin = {(i, f). \<exists>k occ. slot_view sl k i = Some occ \<and> \<not> occ_pending occ \<and> done (occ_task occ) \<and> f = occ_task occ}
    \<and> (\<forall>k i. slot_view sl' k i = (case slot_view sl k i of None \<Rightarrow> None
        | Some occ \<Rightarrow> if \<not> occ_pending occ \<and> done (occ_task occ) then None else Some occ))"
proof -
  have "slot_view (snd (drain_finished done sl)) k i = (case slot_view sl k i of None \<Rightarrow> None
        | Some occ \<Rightarrow> if \<not> occ_pending occ \<and> done (occ_task occ) then None else Some occ)" for k i
    using dict_get_filter [OF bucket_of_ok [OF assms], of "\<lambda>occ. \<not> drainable done occ" k i]
    by (auto simp: slot_view_def drain_bucket [OF assms] drainable_def split: option.split)
  moreover have "set (fst (drain_finished done sl)) =
      {(i, f). \<exists>k occ. slot_view sl k i = Some occ \<and> \<not> occ_pending occ \<and> done (occ_task occ) \<and> f = occ_task occ}"
    unfolding drain_list slot_view_entry [OF assms] by (force simp: drainable_def)
  ultimately show ?thesis using drain_wf [OF assms, of "done"] by (simp add: split_def)
qed

theorem drain_finished_spec_witness:
  "set (fst (drain_finished (\<lambda>f. f \<le> 2) sample_slots)) =
    {(i, f). \<exists>k occ. slot_view sample_slots k i = Some occ \<and> \<not> occ_pending occ \<and> occ_task occ \<le> 2 \<and> f = occ_task occ}"
proof -
  have "slots_wf sample_slots" unfolding sample_slots_def by (intro register_wf) (simp add: slots_wf_def)
  then show ?thesis using drain_finished_spec [of sample_slots "\<lambda>f. f \<le> 2"] by (simp add: split_def)
qed

text \<open>
  The four operations on the table, seen through what occupies each slot: registering
  fills the slot, promoting only clears its pending mark, releasing empties it, and no other
  slot changes; the providers listed as occupied are those that occupy at least one slot.
\<close>

theorem slot_operations_spec:
  assumes "slots_wf sl"
  shows "slots_wf (register p m tid fut pend sl) \<and> slots_wf (promote p m tid sl) \<and> slots_wf (release p m tid sl)
    \<and> slot_view (register p m tid fut pend sl) =
        (slot_view sl)((p, m) := (slot_view sl (p, m))(tid \<mapsto> \<lparr>occ_task = fut, occ_pending = pend\<rparr>))
    \<and> slot_view (promote p m tid sl) = (slot_view sl)((p, m) := (slot_view sl (p, m))
        (tid := map_option (\<lambda>occ. occ\<lparr>occ_pending := False\<rparr>) (slot_view sl (p, m) tid)))
    \<and> slot_view (release p m tid sl) = (slot_view sl)((p, m) := (slot_view sl (p, m))(tid := None))
    \<and> (\<forall>q. q \<in> set (occupied_providers m sl) \<longleftrightarrow> (\<exists>i. slot_view sl (q, m) i \<noteq> None))"
proof -
  have "q \<in> set (occupied_providers m sl) \<longleftrightarrow> (\<exists>i. slot_view sl (q, m) i \<noteq> None)" for q
  proof -
    have "q \<in> set (occupied_providers m sl) \<longleftrightarrow> (\<exists>b. ((q, m), b) \<in> set sl \<and> b \<noteq> [])"
      by (force simp: occupied_providers_def)
    also have "\<dots> \<longleftrightarrow> (\<exists>b i occ. ((q, m), b) \<in> set sl \<and> (i, occ) \<in> set b)"
      by (metis (no_types, opaque_lifting) equals0D last_in_set list.set(1) old.prod.exhaust)
    finally show ?thesis using slot_view_entry [OF assms, of "(q, m)"] by auto
  qed
  then show ?thesis using assms
    by (auto simp: register_wf promote_wf release_wf register_view promote_view release_view fun_eq_iff)
qed

theorem slot_operations_spec_witness:
  "slot_view (promote ''veo'' ''video'' ''t2'' sample_slots) (''veo'', ''video'') ''t2''
     = map_option (\<lambda>occ. occ\<lparr>occ_pending := False\<rparr>) (slot_view sample_slots (''veo'', ''video'') ''t2'')"
proof -
  have "slots_wf sample_slots" unfolding sample_slots_def by (intro register_wf) (simp add: slots_wf_def)
  then show ?thesis
    using slot_operations_spec [of sample_slots "''veo''" "''video''" "''t2''" 0 False] by (simp add: fun_upd_def)
qed

subsection \<open>The limits\<close>

lemma fold_put_get:
  "distinct (map fst xs) \<Longrightarrow>
   dict_get (fold (\<lambda>(k, x) d. dict_put k (f k x) d) xs d0) k =
     (case dict_get xs k of None \<Rightarrow> dict_get d0 k | Some x \<Rightarrow> Some (f k x))"
proof (induction xs arbitrary: d0)
  case (Cons kx xs)
  obtain k' x where kx: "kx = (k', x)" by force
  have "dict_get xs k' = None" using Cons.prems kx by (simp add: map_of_eq_None_iff)
  then show ?case using Cons kx by (auto simp: dict_get_put split: option.split)
qed simp

lemma fold_put_other:
  "k \<notin> key ` set xs \<Longrightarrow> dict_get (fold (\<lambda>x d. dict_put (key x) (v x) d) xs d0) k = dict_get d0 k"
  by (induction xs arbitrary: d0) (auto simp: dict_get_put)

lemma lane_limits_get:
  "dict_get_default (lane_limits mts i v a) media 0 =
     (if media \<notin> set mts then 0 else if media = ''image'' then i else if media = ''video'' then v
      else if media = ''audio'' then a else 0)"
  by (auto simp: lane_limits_def dict_get_default_def)

lemma read_int_env_pos: "1 \<le> d \<Longrightarrow> 1 \<le> read_int_env e n d 1"
  by (auto simp: read_int_env_def split: option.split)

text \<open>
  The limit of a registered provider in the table loaded from the database: zero in a
  lane it does not support; otherwise the user's setting when it is a number (negative
  settings count as zero), else the default the registry declares, else the global default.
  A provider the table does not know gets the global default of the lane, which is at least
  one. Unreadable settings never reach the table.
\<close>

theorem capacity_from_db_spec:
  assumes "distinct (map fst registry)" "pid \<notin> cp_provider_id ` set customs"
    and media: "(media, key, var, gdef) \<in> {(''image'', ''image_max_workers'', ''IMAGE_MAX_WORKERS'', 5),
      (''video'', ''video_max_workers'', ''VIDEO_MAX_WORKERS'', 3), (''audio'', ''audio_max_workers'', ''AUDIO_MAX_WORKERS'', 10)}"
  shows "capacity_get (capacity_from_db environ registry configs customs) pid media =
    (case dict_get registry pid of
       None \<Rightarrow> read_int_env environ var gdef 1
     | Some meta \<Rightarrow>
         if media \<notin> set (media_types meta) then 0
         else (case Option.bind (dict_get (dict_get_default configs pid []) key) py_int of
             Some v \<Rightarrow> max 0 v
           | None \<Rightarrow> dict_get_default (default_concurrency meta) media (read_int_env environ var gdef 1)))
    \<and> 1 \<le> read_int_env environ var gdef 1"
proof -
  let ?f = "\<lambda>pid meta. let config = dict_get_default configs pid [] in lane_limits (media_types meta)
    (parse_lane_max config ''image_max_workers'' (lane_default meta ''image'' (read_int_env environ ''IMAGE_MAX_WORKERS'' 5 1)))
    (parse_lane_max config ''video_max_workers'' (lane_default meta ''video'' (read_int_env environ ''VIDEO_MAX_WORKERS'' 3 1)))
    (parse_lane_max config ''audio_max_workers'' (lane_default meta ''audio'' (read_int_env environ ''AUDIO_MAX_WORKERS'' 10 1)))"
  have lims: "dict_get (limits (capacity_from_db environ registry configs customs)) pid =
      map_option (?f pid) (dict_get registry pid)"
    using fold_put_get [OF assms(1), of ?f "[]" pid] assms(2)
    by (simp add: capacity_from_db_def Let_def fold_put_other split: option.split)
  have lane: "dict_get_default (?f pid meta) media 0 =
      (if media \<notin> set (media_types meta) then 0
       else parse_lane_max (dict_get_default configs pid []) key (lane_default meta media (read_int_env environ var gdef 1)))" for meta
    using media by (auto simp: Let_def lane_limits_get)
  have plm: "parse_lane_max config key d = (case Option.bind (dict_get config key) py_int of Some v \<Rightarrow> max 0 v | None \<Rightarrow> d)" for config d
    by (simp add: parse_lane_max_def split: option.split)
  have dfl: "dict_get_default (defaults (capacity_from_db environ registry configs customs)) media 0 = read_int_env environ var gdef 1"
    using media by (auto simp: capacity_from_db_def Let_def dict_get_default_def)
  have pos: "1 \<le> read_int_env environ var gdef 1" using media by (auto intro!: read_int_env_pos)
  show ?thesis
  proof (cases "dict_get registry pid")
    case None
    then show ?thesis using dfl pos by (simp add: capacity_get_def lims)
  next
    case (Some meta)
    then have "capacity_get (capacity_from_db environ registry configs customs) pid media = dict_get_default (?f pid meta) media 0"
      by (simp add: capacity_get_def lims)
    also note lane
    also note plm [of "dict_get_default configs pid []" "lane_default meta media (read_int_env environ var gdef 1)"]
    finally show ?thesis using Some pos unfolding lane_default_def by simp
  qed
qed

definition sample_registry :: "(string \<times> provider_meta) list" where
  "sample_registry = [(''veo'', \<lparr>media_types = [''video''], default_concurrency = [(''video'', 2)]\<rparr>)]"

theorem capacity_from_db_spec_witness:
  "capacity_get (capacity_from_db (\<lambda>_. None) sample_registry [(''veo'', [(''video_max_workers'', ''-4'')])] []) ''veo'' ''video'' = 0
   \<and> capacity_get (capacity_from_db (\<lambda>_. None) sample_registry [] []) ''new'' ''image'' = 5"
proof -
  have p: "py_int ''-4'' = Some (-4)" by code_simp
  have d: "distinct (map fst sample_registry)" by (simp add: sample_registry_def)
  have v: "(''video'', ''video_max_workers'', ''VIDEO_MAX_WORKERS'', 3) \<in> {(''image'', ''image_max_workers'', ''IMAGE_MAX_WORKERS'', 5),
      (''video'', ''video_max_workers'', ''VIDEO_MAX_WORKERS'', 3), (''audio'', ''audio_max_workers'', ''AUDIO_MAX_WORKERS'', 10::int)}" by simp
  have i: "(''image'', ''image_max_workers'', ''IMAGE_MAX_WORKERS'', 5) \<in> {(''image'', ''image_max_workers'', ''IMAGE_MAX_WORKERS'', 5),
      (''video'', ''video_max_workers'', ''VIDEO_MAX_WORKERS'', 3), (''audio'', ''audio_max_workers'', ''AUDIO_MAX_WORKERS'', 10::int)}" by simp
  show ?thesis
    using capacity_from_db_spec [OF d _ v, of "''veo''" "[]" "\<lambda>_. None" "[(''veo'', [(''video_max_workers'', ''-4'')])]"]
      capacity_from_db_spec [OF d _ i, of "''new''" "[]" "\<lambda>_. None" "[]"] p
    by (simp add: sample_registry_def read_int_env_def dict_get_default_def)
qed

end
