(* ===== verification/Worker.thy ===== *)
theory Worker
  imports GenQueue Slots
begin

text \<open>
  The background worker (\<open>lib/generation_worker.py\<close>): claiming work into slots, running a
  task to a settled row, cancelling, and the recovery of the tasks a dead process left
  behind, with the classification of their checkpoints
  (\<open>lib/reference_video/execution_checkpoint.py\<close>).

  What the executor does with a provider is an argument, its outcome; so is the resolution
  of a provider from the project configuration (\<open>resolve\<close>) and the strict decoder of a
  checkpoint text (\<open>from_json\<close>). Where the code awaits the database several times in a row,
  other transactions may commit in between: the argument \<open>env\<close> is what they do before the
  n-th call.
\<close>

subsection \<open>Failure messages\<close>

text \<open>The exceptions an executor raises, with \<open>str(exc)\<close> where the code may fall back on it.
  Parameters that cannot be serialised are \<open>None\<close>.\<close>

datatype exec_error =
    ScriptEditError string "params option"
  | ApiError string "params option" string
  | StructuredRejection string "params option" string
  | OtherError string

definition try_encode_failure :: "string \<Rightarrow> params option \<Rightarrow> string option" where
  "try_encode_failure code ps =
     (case ps of None \<Rightarrow> None
      | Some d \<Rightarrow> (case encode_failure code d of Inl _ \<Rightarrow> None | Inr s \<Rightarrow> Some s))"

definition encode_task_failure_message :: "exec_error \<Rightarrow> string" where
  "encode_task_failure_message e =
     (case e of
        ScriptEditError key ps \<Rightarrow> opt_or (try_encode_failure key ps) (encoded_text ''script_edit_error'' [])
      | ApiError key ps txt \<Rightarrow> opt_or (try_encode_failure key ps) txt
      | StructuredRejection code ps txt \<Rightarrow> opt_or (try_encode_failure code ps) txt
      | OtherError txt \<Rightarrow> txt)"

subsection \<open>The provider of a claimed task\<close>

definition DEFAULT_PROVIDER :: string where "DEFAULT_PROVIDER = ''gemini-aistudio''"

datatype resolve_request =
    ResolveVideo string params string
  | ResolveAudio params
  | ResolveImage params string

text \<open>\<open>resolve project request\<close> is \<open>None\<close> when loading the project or resolving raises.\<close>

definition extract_provider :: "(string \<Rightarrow> resolve_request \<Rightarrow> string option) \<Rightarrow> task_dict \<Rightarrow> string" where
  "extract_provider resolve d =
     (let t = td_row d;
          payload0 = (case td_payload d of JObj kvs \<Rightarrow> kvs | _ \<Rightarrow> []);
          payload = (case script_file t of
              Some f \<Rightarrow> if task_type t = ''reference_video'' then dict_put ''script_file'' (JStr f) payload0 else payload0
            | None \<Rightarrow> payload0);
          is_video = media_type t = ''video'' \<or> task_type t \<in> {''video'', ''reference_video''};
          is_audio = media_type t = ''audio'' \<or> task_type t = ''tts'';
          request = (if is_video then ResolveVideo (task_type t) payload (resource_id t)
            else if is_audio then ResolveAudio payload
            else ResolveImage payload (if task_type t = ''image_edit'' then ''i2i'' else ''t2i''))
      in opt_or (resolve (project_name t) request) DEFAULT_PROVIDER)"

subsection \<open>State\<close>

record worker =
  w_queue :: gqueue
  w_capacity :: capacity_table
  w_slots :: slots
  w_futures :: nat
  w_owns_lease :: bool
  w_orphan_handled_once :: bool
  w_lease_lost_monotonic :: "rat option"

definition pool_full_providers :: "string \<Rightarrow> worker \<Rightarrow> string list" where
  "pool_full_providers media w =
     filter (\<lambda>p. let cap = capacity_get (w_capacity w) p media in
         cap > 0 \<and> \<not> has_room p media cap (w_slots w))
       (occupied_providers media (w_slots w))"

definition reload_limits :: "(string \<times> lanes) list option \<Rightarrow> worker \<Rightarrow> worker" where
  "reload_limits loaded w =
     (case loaded of None \<Rightarrow> w
      | Some new \<Rightarrow> w\<lparr>w_capacity := capacity_replace new (w_capacity w)\<rparr>)"

subsection \<open>Claiming\<close>

text \<open>
  One lane of \<open>_claim_tasks\<close>: \<open>while True\<close> with fuel, \<open>None\<close> when it runs out. \<open>attempted\<close> are
  the video tasks put back in this cycle; the boolean is \<open>claimed_any\<close>. Starting a task takes
  a fresh future and registers it.
\<close>

definition start_task :: "string \<Rightarrow> string \<Rightarrow> string \<Rightarrow> worker \<Rightarrow> worker" where
  "start_task p media tid w =
     w\<lparr>w_slots := register p media tid (w_futures w) False (w_slots w), w_futures := Suc (w_futures w)\<rparr>"

definition put_back :: "nat \<Rightarrow> string \<Rightarrow> string \<Rightarrow> gqueue \<Rightarrow> gqueue" where
  "put_back now tid p q = fst (queue_requeue_single now tid (queue_persist_execution_provider_id now tid p q))"

definition unsupported_media :: "string \<Rightarrow> string \<Rightarrow> string" where
  "unsupported_media p media =
     encoded_text ''provider_unsupported_media'' [(''provider_id'', JStr p), (''media_type'', JStr media)]"

fun claim_lane ::
  "nat \<Rightarrow> (task_dict \<Rightarrow> string) \<Rightarrow> nat \<Rightarrow> string \<Rightarrow> string list \<Rightarrow> worker \<Rightarrow> bool \<Rightarrow> (worker \<times> bool) option" where
  "claim_lane 0 provider now media attempted w claimed = None"
| "claim_lane (Suc fuel) provider now media attempted w claimed =
     (case claim_next_task now media (pool_full_providers media w) attempted (w_queue w) of
        (q, None) \<Rightarrow> Some (w\<lparr>w_queue := q\<rparr>, claimed)
      | (q, Some d) \<Rightarrow>
          let tid = task_id (td_row d); p = provider d; cap = capacity_get (w_capacity w) p media in
          if cap \<le> 0 then
            claim_lane fuel provider now media attempted
              (w\<lparr>w_queue := fst (mark_task_failed now tid (unsupported_media p media) q)\<rparr>) True
          else if \<not> has_room p media cap (w_slots w) then
            (if task_type (td_row d) \<in> {''video'', ''reference_video''}
             then claim_lane fuel provider now media (attempted @ [tid]) (w\<lparr>w_queue := put_back now tid p q\<rparr>) claimed
             else Some (w\<lparr>w_queue := put_back now tid p q\<rparr>, claimed))
          else claim_lane fuel provider now media attempted (start_task p media tid (w\<lparr>w_queue := q\<rparr>)) True)"

declare claim_lane.simps [simp del]

definition lane_fuel :: "worker \<Rightarrow> nat" where
  "lane_fuel w = Suc (length (tasks (gq_repo (w_queue w))))"

definition claim_tasks :: "(task_dict \<Rightarrow> string) \<Rightarrow> nat \<Rightarrow> worker \<Rightarrow> (worker \<times> bool) option" where
  "claim_tasks provider now w =
     fold (\<lambda>media acc. Option.bind acc (\<lambda>(w, claimed). claim_lane (lane_fuel w) provider now media [] w claimed))
       [''image'', ''video'', ''audio''] (Some (w, False))"

subsection \<open>Running a task\<close>

datatype exec_outcome =
    ExecOk params "nat option" bool
  | ExecCancelled
  | ExecProviderChanged string string
  | ExecError exec_error

definition fail_or_cancel :: "(nat \<Rightarrow> gqueue \<Rightarrow> gqueue) \<Rightarrow> nat \<Rightarrow> nat \<Rightarrow> string \<Rightarrow> string \<Rightarrow> gqueue \<Rightarrow> gqueue" where
  "fail_or_cancel env i now tid msg g =
     (case mark_task_failed now tid msg (env i g) of
        (g1, rows) \<Rightarrow> if rows = 0 then fst (mark_task_cancelled now tid ''user'' (env (Suc i) g1)) else g1)"

text \<open>The last part of \<open>_process_task\<close> and \<open>_process_resume_task\<close>: write success; the flag
  says that a cancellation arrives during the write.\<close>

definition succeed_or_cancel ::
  "(nat \<Rightarrow> gqueue \<Rightarrow> gqueue) \<Rightarrow> nat \<Rightarrow> string \<Rightarrow> params \<Rightarrow> nat option \<Rightarrow> bool \<Rightarrow> gqueue \<Rightarrow> gqueue" where
  "succeed_or_cancel env now tid result undo interrupted g =
     (case mark_task_succeeded now tid (Some result) undo (env 0 g) of
        (g1, rows) \<Rightarrow>
          if interrupted \<or> rows = 0 then fst (mark_task_cancelled now tid ''user'' (env 1 g1)) else g1)"

definition process_task ::
  "(nat \<Rightarrow> gqueue \<Rightarrow> gqueue) \<Rightarrow> nat \<Rightarrow> string \<Rightarrow> exec_outcome \<Rightarrow> gqueue \<Rightarrow> gqueue" where
  "process_task env now tid res g =
     (case res of
        ExecCancelled \<Rightarrow> fst (mark_task_cancelled now tid ''user'' (env 0 g))
      | ExecProviderChanged claimed actual \<Rightarrow>
          (case queue_requeue_single now tid (env 1 (queue_persist_execution_provider_id now tid actual (env 0 g))) of
             (g2, requeued) \<Rightarrow>
               if requeued then g2
               else fail_or_cancel env 2 now tid
                 (encoded_text ''dispatch_provider_requeue_failed''
                   [(''claimed_provider_id'', JStr claimed), (''actual_provider_id'', JStr actual)]) g2)
      | ExecError e \<Rightarrow> fail_or_cancel env 0 now tid (encode_task_failure_message e) g
      | ExecOk result undo interrupted \<Rightarrow> succeed_or_cancel env now tid result undo interrupted g)"

subsection \<open>Resuming a submitted video\<close>

text \<open>The frozen coordinates of a checkpoint that the recovery reads.\<close>

record checkpoint =
  cp_kind :: string
  cp_task_id :: string
  cp_project_name :: string
  cp_script_file :: string
  cp_unit_id :: string
  cp_provider :: string

datatype resume_state = NoCheckpointNoJob | CheckpointWithoutJob | Ready | IdentityUnrecoverable

definition load_task_video_checkpoint ::
  "(string \<Rightarrow> string \<Rightarrow> checkpoint option) \<Rightarrow> task \<Rightarrow> checkpoint option" where
  "load_task_video_checkpoint from_json t =
     (case execution_checkpoint_json t of None \<Rightarrow> None
      | Some raw \<Rightarrow>
          (case json_loads raw of
             Some (JObj kvs) \<Rightarrow>
               (case dict_get kvs ''kind'' of
                  Some (JStr kind) \<Rightarrow>
                    (case dict_get [(''reference_video_submit'', ''reference_video''), (''storyboard_video_submit'', ''video'')] kind of
                       None \<Rightarrow> None
                     | Some expected \<Rightarrow>
                         (case from_json kind raw of None \<Rightarrow> None
                          | Some cp \<Rightarrow>
                              if task_type t = expected \<and> cp_task_id cp = task_id t \<and> cp_project_name cp = project_name t
                                 \<and> Some (cp_script_file cp) = script_file t \<and> cp_unit_id cp = resource_id t
                              then Some cp else None))
                | _ \<Rightarrow> None)
           | _ \<Rightarrow> None))"

definition classify_video_resume_state ::
  "(string \<Rightarrow> string \<Rightarrow> checkpoint option) \<Rightarrow> task \<Rightarrow> resume_state \<times> checkpoint option" where
  "classify_video_resume_state from_json t =
     (let attempt = opt_or (execution_checkpoint_json t) [] \<noteq> [];
          job = opt_or (provider_job_id t) [] \<noteq> [] in
      if \<not> job then (if attempt then CheckpointWithoutJob else NoCheckpointNoJob, None)
      else if \<not> attempt then (IdentityUnrecoverable, None)
      else (case load_task_video_checkpoint from_json t of None \<Rightarrow> (IdentityUnrecoverable, None)
        | Some cp \<Rightarrow> (Ready, Some cp)))"

definition resume_failure :: "resume_state \<Rightarrow> string" where
  "resume_failure s =
     (case s of
        NoCheckpointNoJob \<Rightarrow> encoded_text ''restart_lost_no_job_id'' []
      | CheckpointWithoutJob \<Rightarrow> encoded_text ''restart_lost_checkpoint_no_job_id'' []
      | _ \<Rightarrow> encoded_text ''execution_identity_unrecoverable''
          [(''detail'', JStr ''missing, malformed, or mismatched video submission checkpoint'')])"

datatype resume_outcome =
    ResumeOk params "nat option" bool
  | ResumeCancelled
  | ResumeUnsupported string
  | ResumeEndpointChanged string
  | ResumeExpired string
  | ResumeError exec_error

definition process_resume_task ::
  "(string \<Rightarrow> string \<Rightarrow> checkpoint option) \<Rightarrow> (nat \<Rightarrow> gqueue \<Rightarrow> gqueue) \<Rightarrow> nat \<Rightarrow> task \<Rightarrow> resume_outcome \<Rightarrow>
   gqueue \<Rightarrow> gqueue" where
  "process_resume_task from_json env now t res g =
     (let tid = task_id t; (state, _) = classify_video_resume_state from_json t in
      if task_type t \<in> {''video'', ''reference_video''} \<and> state \<noteq> Ready
      then fail_or_cancel env 0 now tid (resume_failure state) g
      else if opt_or (provider_job_id t) [] = []
      then fail_or_cancel env 0 now tid (encoded_text ''restart_lost_resume_no_job_id'' []) g
      else (case res of
          ResumeOk result undo interrupted \<Rightarrow> succeed_or_cancel env now tid result undo interrupted g
        | ResumeCancelled \<Rightarrow> fst (mark_task_cancelled now tid ''user'' (env 0 g))
        | ResumeUnsupported txt \<Rightarrow> fail_or_cancel env 0 now tid (encoded_text ''resume_unsupported_detail'' [(''detail'', JStr txt)]) g
        | ResumeEndpointChanged txt \<Rightarrow> fail_or_cancel env 0 now tid (encoded_text ''resume_endpoint_changed_detail'' [(''detail'', JStr txt)]) g
        | ResumeExpired txt \<Rightarrow> fail_or_cancel env 0 now tid (encoded_text ''resume_expired_detail'' [(''detail'', JStr txt)]) g
        | ResumeError e \<Rightarrow> fail_or_cancel env 0 now tid (encode_task_failure_message e) g))"

subsection \<open>Cancelling and draining\<close>

definition request_cancel :: "(nat \<Rightarrow> bool) \<Rightarrow> string \<Rightarrow> worker \<Rightarrow> nat option" where
  "request_cancel done tid w =
     (case find_by_task tid (w_slots w) of None \<Rightarrow> None | Some f \<Rightarrow> if done f then None else Some f)"

text \<open>A cancelled future may never have entered the task body: the row is settled here.\<close>

definition drain_finished_tasks :: "(nat \<Rightarrow> bool) \<Rightarrow> (nat \<Rightarrow> bool) \<Rightarrow> nat \<Rightarrow> worker \<Rightarrow> worker" where
  "drain_finished_tasks done cancelled now w =
     (case drain_finished done (w_slots w) of
        (fin, sl) \<Rightarrow> w\<lparr>w_slots := sl,
          w_queue := fold (\<lambda>(tid, f) q. if cancelled f then fst (mark_task_cancelled now tid ''user'' q) else q) fin (w_queue w)\<rparr>)"

subsection \<open>Orphans\<close>

definition NON_RESUMABLE_VIDEO_PROVIDERS :: "string list" where
  "NON_RESUMABLE_VIDEO_PROVIDERS = [''grok'', ''vidu'']"

datatype orphan_verdict = SkipActive | FinishCancelled | FailOrphan string | ResumeOn string

definition orphan_media :: "task \<Rightarrow> string" where
  "orphan_media t =
     (if media_type t \<noteq> [] then media_type t
      else if task_type t \<in> {''video'', ''reference_video''} then ''video''
      else if task_type t = ''tts'' then ''audio'' else ''image'')"

definition orphan_decision ::
  "(string \<Rightarrow> string \<Rightarrow> checkpoint option) \<Rightarrow> (task_dict \<Rightarrow> string) \<Rightarrow> string list \<Rightarrow> task_dict \<Rightarrow> orphan_verdict" where
  "orphan_decision from_json provider self_active d =
     (let t = td_row d; (state, cp) = classify_video_resume_state from_json t;
          is_video_type = task_type t \<in> {''video'', ''reference_video''};
          p = (case (if is_video_type then cp else None) of Some c \<Rightarrow> cp_provider c
            | None \<Rightarrow> opt_or (provider_id t) (provider d)) in
      if task_id t \<in> set self_active then SkipActive
      else if status t = Cancelling then FinishCancelled
      else if orphan_media t = ''image'' then FailOrphan (encoded_text ''restart_lost_image'' [])
      else if orphan_media t = ''audio'' then FailOrphan (encoded_text ''restart_lost_audio'' [])
      else if is_video_type \<and> state \<noteq> Ready then FailOrphan (resume_failure state)
      else if p \<in> set NON_RESUMABLE_VIDEO_PROVIDERS
      then FailOrphan (encoded_text ''resume_unsupported_provider'' [(''provider_id'', JStr p)])
      else if opt_or (provider_job_id t) [] = [] then FailOrphan (encoded_text ''restart_lost_no_job_id'' [])
      else ResumeOn p)"

definition with_provider :: "string \<Rightarrow> task_dict \<Rightarrow> task_dict" where
  "with_provider p d = d\<lparr>td_row := (td_row d)\<lparr>provider_id := Some p\<rparr>\<rparr>"

text \<open>One round of the loop; the buckets collect the tasks to resume, by provider.\<close>

definition orphan_step ::
  "(string \<Rightarrow> string \<Rightarrow> checkpoint option) \<Rightarrow> (task_dict \<Rightarrow> string) \<Rightarrow> string list \<Rightarrow> nat \<Rightarrow> task_dict \<Rightarrow>
   gqueue \<times> (string \<times> task_dict list) list \<Rightarrow> gqueue \<times> (string \<times> task_dict list) list" where
  "orphan_step from_json provider self_active now d st =
     (case orphan_decision from_json provider self_active d of
        SkipActive \<Rightarrow> st
      | FinishCancelled \<Rightarrow> (fst (mark_task_cancelled now (task_id (td_row d)) ''user'' (fst st)), snd st)
      | FailOrphan msg \<Rightarrow> (fail_or_cancel (\<lambda>_ g. g) 0 now (task_id (td_row d)) msg (fst st), snd st)
      | ResumeOn p \<Rightarrow> (fst st, dict_append p (with_provider p d) (snd st)))"

definition handle_orphan_tasks_on_start ::
  "(string \<Rightarrow> string \<Rightarrow> checkpoint option) \<Rightarrow> (task_dict \<Rightarrow> string) \<Rightarrow> nat \<Rightarrow> worker \<Rightarrow>
   worker \<times> (string \<times> task_dict list) list" where
  "handle_orphan_tasks_on_start from_json provider now w =
     (case fold (orphan_step from_json provider (active_task_ids (w_slots w)) now)
         (list_orphan_tasks_on_start (gq_repo (w_queue w))) (w_queue w, []) of
        (q, buckets) \<Rightarrow> (w\<lparr>w_queue := q\<rparr>, buckets))"

text \<open>\<open>_dispatch_provider_bucket\<close> up to the start of its tasks: an unsupported lane fails them
  all, after one reload; otherwise each takes a pending slot, unless the worker stops.\<close>

definition capacity_zero :: "string \<Rightarrow> string" where
  "capacity_zero p = encoded_text ''resume_unsupported_capacity_zero'' [(''provider_id'', JStr p)]"

definition start_pending :: "string \<Rightarrow> task_dict \<Rightarrow> worker \<Rightarrow> worker" where
  "start_pending p d w =
     w\<lparr>w_slots := register p ''video'' (task_id (td_row d)) (w_futures w) True (w_slots w), w_futures := Suc (w_futures w)\<rparr>"

definition dispatch_provider_bucket ::
  "(string \<times> lanes) list option \<Rightarrow> bool \<Rightarrow> nat \<Rightarrow> string \<Rightarrow> task_dict list \<Rightarrow> worker \<Rightarrow> worker" where
  "dispatch_provider_bucket loaded stop now p ds w =
     (let w1 = (if capacity_get (w_capacity w) p ''video'' \<le> 0 then reload_limits loaded w else w) in
      if capacity_get (w_capacity w1) p ''video'' \<le> 0
      then w1\<lparr>w_queue := fold (\<lambda>d q. fail_or_cancel (\<lambda>_ g. g) 0 now (task_id (td_row d)) (capacity_zero p) q) ds (w_queue w1)\<rparr>
      else if stop then w1 else fold (start_pending p) ds w1)"

text \<open>The body of one of these tasks, \<open>_run_one\<close>: it is cancelled while it waits for the
  semaphore, finds the worker stopping, or gets through to \<open>_process_resume_task\<close>, possibly
  with a cancellation that leaves it before its own handlers.\<close>

datatype run_one_event = CancelledWaiting | FoundStopping | RunsResume resume_outcome | CancelledOutside

definition run_one ::
  "(string \<Rightarrow> string \<Rightarrow> checkpoint option) \<Rightarrow> (nat \<Rightarrow> gqueue \<Rightarrow> gqueue) \<Rightarrow> nat \<Rightarrow> string \<Rightarrow> task_dict \<Rightarrow>
   run_one_event \<Rightarrow> worker \<Rightarrow> worker" where
  "run_one from_json env now p d ev w =
     (let tid = task_id (td_row d);
          free = (\<lambda>w. w\<lparr>w_slots := release p ''video'' tid (w_slots w)\<rparr>);
          up = (\<lambda>w. w\<lparr>w_slots := promote p ''video'' tid (w_slots w)\<rparr>);
          cancel = (\<lambda>i w. w\<lparr>w_queue := fst (mark_task_cancelled now tid ''user'' (env i (w_queue w)))\<rparr>)
      in (case ev of
            CancelledWaiting \<Rightarrow> free (cancel 0 w)
          | FoundStopping \<Rightarrow> free w
          | CancelledOutside \<Rightarrow> free (cancel 0 (up w))
          | RunsResume res \<Rightarrow>
              let w1 = (up w)\<lparr>w_queue := process_resume_task from_json env now (td_row d) res (w_queue w)\<rparr> in
              free (if res = ResumeCancelled then cancel 3 w1 else w1)))"

subsection \<open>The lease in the main loop\<close>

definition ORPHAN_RESCAN_LEASE_LOST_MULT :: rat where
  "ORPHAN_RESCAN_LEASE_LOST_MULT = 3"

text \<open>The bookkeeping of one cycle of \<open>_run_loop\<close> after the lease call: \<open>owns\<close> is its answer,
  \<open>clock\<close> the monotonic clock.\<close>

definition track_lease :: "rat \<Rightarrow> rat \<Rightarrow> bool \<Rightarrow> worker \<Rightarrow> worker" where
  "track_lease ttl clock owns w =
     (let had = w_owns_lease w;
          w1 = w\<lparr>w_owns_lease := owns\<rparr>;
          w2 = (if had \<and> \<not> owns \<and> w_lease_lost_monotonic w1 = None
            then w1\<lparr>w_lease_lost_monotonic := Some clock\<rparr> else w1)
      in (case w_lease_lost_monotonic w2 of
            Some lost \<Rightarrow>
              if owns
              then w2\<lparr>w_orphan_handled_once :=
                  (if clock - lost > ttl * ORPHAN_RESCAN_LEASE_LOST_MULT then False else w_orphan_handled_once w2),
                w_lease_lost_monotonic := None\<rparr>
              else w2
          | None \<Rightarrow> w2))"

definition run_cycle ::
  "(string \<Rightarrow> string \<Rightarrow> checkpoint option) \<Rightarrow> (task_dict \<Rightarrow> string) \<Rightarrow> (nat \<Rightarrow> bool) \<Rightarrow> (nat \<Rightarrow> bool) \<Rightarrow>
   rat \<Rightarrow> rat \<Rightarrow> rat \<Rightarrow> nat \<Rightarrow> string \<Rightarrow> string \<Rightarrow> worker \<Rightarrow> (worker \<times> (string \<times> task_dict list) list) option" where
  "run_cycle from_json provider done cancelled ttl clock epoch now nm owner w =
     (case acquire_or_renew_worker_lease epoch now nm owner ttl (w_queue w) of
        (q, owns) \<Rightarrow>
          let w1 = drain_finished_tasks done cancelled now (w\<lparr>w_queue := q\<rparr>);
              w2 = track_lease ttl clock owns w1;
              (w3, buckets) =
                (if owns \<and> \<not> w_orphan_handled_once w2
                 then (case handle_orphan_tasks_on_start from_json provider now w2 of
                     (w', bs) \<Rightarrow> (w'\<lparr>w_orphan_handled_once := True\<rparr>, bs))
                 else (w2, []))
          in if \<not> owns then Some (w3, buckets)
             else map_option (\<lambda>(w4, _). (w4, buckets)) (claim_tasks provider now w3))"

text \<open>Every code the worker encodes is registered, so no encoding of the worker raises.\<close>

lemma worker_codes_registered:
  "list_all failure_code [''script_edit_error'', ''provider_unsupported_media'', ''dispatch_provider_requeue_failed'',
    ''restart_lost_no_job_id'', ''restart_lost_checkpoint_no_job_id'', ''execution_identity_unrecoverable'',
    ''restart_lost_resume_no_job_id'', ''resume_unsupported_detail'', ''resume_endpoint_changed_detail'',
    ''resume_expired_detail'', ''restart_lost_image'', ''restart_lost_audio'', ''resume_unsupported_provider'',
    ''resume_unsupported_capacity_zero'']"
  by code_simp

subsection \<open>Rows under the queue's operations\<close>

lemma repo_step_table_ok: "repo_step r r' \<Longrightarrow> table_ok r \<Longrightarrow> table_ok r'"
  by (erule repo_step_cases) (auto simp: transition_def intro: rows_evolve_table_ok insert_table_ok)

lemma commits_row:
  assumes "commits g g'" "table_ok (gq_repo g)"
  shows "table_ok (gq_repo g')"
    and "get_row i (gq_repo g) = Some t \<Longrightarrow> \<exists>t'. get_row i (gq_repo g') = Some t' \<and> row_evolves t t'"
  using assms repo_step_table_ok repo_step_row by (fastforce simp: commits_def)+

lemma queue_step_row:
  assumes "queue_step g g'" "table_ok (gq_repo g)"
  shows "table_ok (gq_repo g') \<and> (\<forall>i t. get_row i (gq_repo g) = Some t \<longrightarrow>
    (\<exists>t'. get_row i (gq_repo g') = Some t' \<and> row_evolves t t'))"
  using assms(1) by (cases rule: queue_step_commits) (use assms(2) commits_row in auto)

lemma queue_steps_row:
  assumes "queue_step\<^sup>*\<^sup>* g g'" "table_ok (gq_repo g)"
  shows "table_ok (gq_repo g') \<and> (\<forall>i t. get_row i (gq_repo g) = Some t \<longrightarrow>
    (\<exists>t'. get_row i (gq_repo g') = Some t' \<and> row_evolves t t'))"
  using assms
proof (induction rule: rtranclp_induct)
  case base
  then show ?case by (auto intro: exI [of _ "_ :: task"])
next
  case (step y z)
  then show ?case using queue_step_row [OF step.hyps(2)] row_evolves_trans by blast
qed

text \<open>\<open>alive g i t\<close>: the table is well formed and has row \<open>t\<close> under \<open>i\<close>.\<close>

definition alive :: "gqueue \<Rightarrow> string \<Rightarrow> task \<Rightarrow> bool" where
  "alive g i t \<longleftrightarrow> table_ok (gq_repo g) \<and> get_row i (gq_repo g) = Some t"

lemma alive_step: "queue_step g g' \<Longrightarrow> alive g i t \<Longrightarrow> \<exists>t'. alive g' i t' \<and> row_evolves t t'"
  using queue_step_row unfolding alive_def by blast

lemma alive_steps: "queue_step\<^sup>*\<^sup>* g g' \<Longrightarrow> alive g i t \<Longrightarrow> \<exists>t'. alive g' i t' \<and> row_evolves t t'"
  using queue_steps_row unfolding alive_def by blast

lemma in_session_row: "get_row i (gq_repo (fst (in_session oper g))) = get_row i (fst (oper ((gq_repo g)\<lparr>terminal_events := []\<rparr>)))"
  by (simp add: in_session_def split_def)

lemma in_session_snd: "snd (in_session oper g) = snd (oper ((gq_repo g)\<lparr>terminal_events := []\<rparr>))"
  by (simp add: in_session_def split_def)

lemma mark_task_failed_row:
  assumes "alive g tid t"
  shows "if status t = Running
    then snd (mark_task_failed now tid msg g) = 1 \<and> alive (fst (mark_task_failed now tid msg g)) tid (fail_row now msg t)
    else snd (mark_task_failed now tid msg g) = 0 \<and> alive (fst (mark_task_failed now tid msg g)) tid t"
proof -
  let ?r = "(gq_repo g)\<lparr>terminal_events := []\<rparr>"
  have ok: "table_ok ?r" "get_row tid ?r = Some t" using assms by (simp_all add: alive_def)
  have ok': "table_ok (gq_repo (fst (mark_task_failed now tid msg g)))"
    using queue_step_row [OF queue_step.failed] assms by (simp add: alive_def)
  show ?thesis
  proof (cases "status t = Running")
    case True
    have "snd (mark_failed now tid msg ?r) = 1"
      using mark_failed_when_row(1) [OF ok, of Running now msg] True
      by (simp add: mark_failed_def mark_failed_running_def split_def)
    then show ?thesis
      using True ok' mark_failed_table [OF ok True, of tid now msg] ok(2)
      by (simp add: alive_def mark_task_failed_def in_session_row in_session_snd)
  next
    case False
    then have "mark_failed now tid msg ?r = (?r, 0)" using ok by (intro mark_failed_idle) auto
    then show ?thesis using False ok' ok(2)
      by (simp add: alive_def mark_task_failed_def in_session_row in_session_snd)
  qed
qed

lemma mark_task_cancelled_row:
  assumes "alive g tid t"
  shows "\<exists>t'. alive (fst (mark_task_cancelled now tid who g)) tid t'
    \<and> status t' = (if active t then Cancelled else status t)"
proof -
  let ?r = "(gq_repo g)\<lparr>terminal_events := []\<rparr>"
  have ok: "table_ok ?r" "get_row tid ?r = Some t" using assms by (simp_all add: alive_def)
  have ok': "table_ok (gq_repo (fst (mark_task_cancelled now tid who g)))"
    using queue_step_row [OF queue_step.cancelled] assms by (simp add: alive_def)
  have "get_row tid (fst (finalize_cancelled now tid who ?r)) = Some (if active t then cancel_row now who t else t)"
    using finalize_cancelled_table [OF ok(1), where now = now and tid = tid and who = who] ok(2)
    by (auto split: if_splits prod.splits)
  then show ?thesis using ok'
    by (simp add: alive_def mark_task_cancelled_def split_def in_session_row)
qed

lemma mark_succeeded_row:
  assumes "table_ok r" "get_row tid r = Some t"
  shows "snd (mark_succeeded now tid res r) = (if status t = Running then 1 else 0)"
    and "\<exists>t'. get_row tid (fst (mark_succeeded now tid res r)) = Some t' \<and> status t' = (if status t = Running then Succeeded else status t)"
proof -
  let ?f = "\<lambda>t. t\<lparr>status := Succeeded, result_json := Some (json_dumps (payload_or_empty res)),
    error_message := None, finished_at := Some now, updated_at := now\<rparr>"
  have kf: "keeps_identity ?f" by (simp add: keeps_identity_def row_identity_simps)
  note c = count_one [OF assms, of "\<lambda>t. status t = Running"]
  show "snd (mark_succeeded now tid res r) = (if status t = Running then 1 else 0)"
    using c by (simp add: mark_succeeded_def Let_def)
  show "\<exists>t'. get_row tid (fst (mark_succeeded now tid res r)) = Some t' \<and> status t' = (if status t = Running then Succeeded else status t)"
    using c assms(2) get_row_SomeD [OF assms(2)]
      get_row_update [OF kf, where i = tid and r = r and P = "\<lambda>t. task_id t = tid \<and> status t = Running"]
    by (simp add: mark_succeeded_def Let_def)
qed

lemma mark_task_succeeded_row:
  assumes "alive g tid t"
  shows "snd (mark_task_succeeded now tid res undo g) = (if status t = Running then 1 else 0)
    \<and> (\<exists>t'. alive (fst (mark_task_succeeded now tid res undo g)) tid t' \<and> status t' = (if status t = Running then Succeeded else status t))"
proof -
  let ?r = "(gq_repo g)\<lparr>terminal_events := []\<rparr>"
  have ok: "table_ok ?r" "get_row tid ?r = Some t" using assms by (simp_all add: alive_def)
  have ok': "table_ok (gq_repo (fst (mark_task_succeeded now tid res undo g)))"
    using queue_step_row [OF queue_step.succeeded] assms by (simp add: alive_def)
  have "gq_repo (fst (mark_task_succeeded now tid res undo g)) = gq_repo (fst (in_session (mark_succeeded now tid res) g))"
    by (simp add: mark_task_succeeded_def split_def split: option.split)
  then show ?thesis
    using mark_succeeded_row [OF ok, of now res] ok'
    by (simp add: alive_def in_session_row) (simp add: mark_task_succeeded_def split_def in_session_snd)
qed

lemma requeue_single_row:
  assumes "alive g tid t"
  shows "snd (queue_requeue_single now tid g) = (status t = Running)
    \<and> (\<exists>t'. alive (fst (queue_requeue_single now tid g)) tid t' \<and> status t' = (if status t = Running then Queued else status t))"
proof -
  let ?r = "(gq_repo g)\<lparr>terminal_events := []\<rparr>"
  let ?f = "\<lambda>t. t\<lparr>status := Queued, started_at := None, updated_at := now\<rparr>"
  have kf: "keeps_identity ?f" by (simp add: keeps_identity_def row_identity_simps)
  have ok: "table_ok ?r" "get_row tid ?r = Some t" using assms by (simp_all add: alive_def)
  have ok': "table_ok (gq_repo (fst (queue_requeue_single now tid g)))"
    using queue_step_row [OF queue_step.requeue_one] assms by (simp add: alive_def)
  show ?thesis
    using count_one [OF ok, of "\<lambda>t. status t = Running"] ok(2) ok' get_row_SomeD [OF ok(2)]
      get_row_update [OF kf, where i = tid and r = ?r and P = "\<lambda>t. task_id t = tid \<and> status t = Running"]
    by (auto simp: alive_def queue_requeue_single_def in_session_row in_session_snd requeue_single_task_def Let_def)
qed

subsection \<open>Settling a row\<close>

text \<open>The other transactions run between the worker's own calls.\<close>

definition env_ok :: "(nat \<Rightarrow> gqueue \<Rightarrow> gqueue) \<Rightarrow> bool" where
  "env_ok env \<longleftrightarrow> (\<forall>i g. queue_step\<^sup>*\<^sup>* g (env i g))"

lemma env_ok_idle [simp]: "env_ok (\<lambda>_ g. g)"
  by (simp add: env_ok_def)

text \<open>A row on its way out: asked to stop, or stopped.\<close>

definition stopping :: "status \<Rightarrow> bool" where
  "stopping s \<longleftrightarrow> s = Cancelling \<or> s = Cancelled"

lemma stopping_steps: "status_step\<^sup>*\<^sup>* s s' \<Longrightarrow> stopping s \<Longrightarrow> stopping s'"
  by (induction rule: rtranclp_induct) (auto simp: stopping_def elim: status_step.cases)

lemma row_evolves_stopping: "row_evolves t t' \<Longrightarrow> stopping (status t) \<Longrightarrow> stopping (status t')"
  by (auto simp: row_evolves_def intro: stopping_steps)

lemma env_row:
  assumes "env_ok env" "alive g tid t"
  shows "\<exists>t'. alive (env i g) tid t' \<and> (stopping (status t) \<longrightarrow> stopping (status t'))"
  using alive_steps [OF _ assms(2), of "env i g"] assms(1) row_evolves_stopping by (auto simp: env_ok_def)

text \<open>\<open>settles f tid\<close>: after \<open>f\<close> the row is terminal, and cancelled if it was stopping.\<close>

definition settles :: "(gqueue \<Rightarrow> gqueue) \<Rightarrow> string \<Rightarrow> bool" where
  "settles f tid \<longleftrightarrow> (\<forall>g t. alive g tid t \<longrightarrow>
     (\<exists>t'. alive (f g) tid t' \<and> terminal (status t') \<and> (stopping (status t) \<longrightarrow> status t' = Cancelled)))"

lemma cancel_settles:
  assumes "env_ok env"
  shows "settles (\<lambda>g. fst (mark_task_cancelled now tid who (env i g))) tid"
  unfolding settles_def
proof (intro allI impI)
  fix g t assume "alive g tid t"
  from env_row [OF assms this, of i] obtain u where u: "alive (env i g) tid u"
    "stopping (status t) \<longrightarrow> stopping (status u)" by blast
  from mark_task_cancelled_row [OF u(1), of now who] obtain t' where
    t': "alive (fst (mark_task_cancelled now tid who (env i g))) tid t'" "status t' = (if active u then Cancelled else status u)"
    by blast
  then show "\<exists>t'. alive (fst (mark_task_cancelled now tid who (env i g))) tid t' \<and> terminal (status t')
      \<and> (stopping (status t) \<longrightarrow> status t' = Cancelled)"
    using u(2) by (intro exI [of _ t']) (auto simp: active_iff stopping_def split: if_splits)
qed

lemma fail_or_cancel_settles:
  assumes "env_ok env"
  shows "settles (fail_or_cancel env i now tid msg) tid"
  unfolding settles_def
proof (intro allI impI)
  fix g t assume "alive g tid t"
  from env_row [OF assms this, of i] obtain u where u: "alive (env i g) tid u"
    "stopping (status t) \<longrightarrow> stopping (status u)" by blast
  let ?m = "mark_task_failed now tid msg (env i g)"
  note f = mark_task_failed_row [OF u(1), of now msg]
  show "\<exists>t'. alive (fail_or_cancel env i now tid msg g) tid t' \<and> terminal (status t') \<and> (stopping (status t) \<longrightarrow> status t' = Cancelled)"
  proof (cases "status u = Running")
    case True
    then show ?thesis using f u(2)
      by (intro exI [of _ "fail_row now msg u"]) (auto simp: fail_or_cancel_def split_def stopping_def)
  next
    case False
    then have "snd ?m = 0" "alive (fst ?m) tid u" using f by auto
    moreover from this(2) cancel_settles [OF assms, of now tid "''user''" "Suc i"] obtain t' where
      "alive (fst (mark_task_cancelled now tid ''user'' (env (Suc i) (fst ?m)))) tid t'" "terminal (status t')"
      "stopping (status u) \<longrightarrow> status t' = Cancelled" unfolding settles_def by blast
    ultimately show ?thesis using u(2) by (intro exI [of _ t']) (auto simp: fail_or_cancel_def split_def)
  qed
qed

lemma succeed_or_cancel_settles:
  assumes "env_ok env"
  shows "settles (succeed_or_cancel env now tid res undo interrupted) tid"
  unfolding settles_def
proof (intro allI impI)
  fix g t assume "alive g tid t"
  from env_row [OF assms this, of 0] obtain u where u: "alive (env 0 g) tid u"
    "stopping (status t) \<longrightarrow> stopping (status u)" by blast
  let ?m = "mark_task_succeeded now tid (Some res) undo (env 0 g)"
  from mark_task_succeeded_row [OF u(1), of now "Some res" undo] obtain v where
    v: "snd ?m = (if status u = Running then 1 else 0)" "alive (fst ?m) tid v"
    "status v = (if status u = Running then Succeeded else status u)" by blast
  from v(2) cancel_settles [OF assms, of now tid "''user''" 1] obtain t' where
    t': "alive (fst (mark_task_cancelled now tid ''user'' (env 1 (fst ?m)))) tid t'" "terminal (status t')"
    "stopping (status v) \<longrightarrow> status t' = Cancelled" unfolding settles_def by blast
  show "\<exists>t'. alive (succeed_or_cancel env now tid res undo interrupted g) tid t' \<and> terminal (status t')
      \<and> (stopping (status t) \<longrightarrow> status t' = Cancelled)"
  proof (cases "interrupted \<or> status u \<noteq> Running")
    case True
    then show ?thesis using t' v u(2)
      by (intro exI [of _ t']) (auto simp: succeed_or_cancel_def split_def stopping_def)
  next
    case False
    then show ?thesis using v u(2)
      by (intro exI [of _ v]) (auto simp: succeed_or_cancel_def split_def stopping_def)
  qed
qed

lemma settlesD: "settles f tid \<Longrightarrow> alive g tid t \<Longrightarrow>
    \<exists>t'. alive (f g) tid t' \<and> terminal (status t') \<and> (stopping (status t) \<longrightarrow> status t' = Cancelled)"
  by (simp add: settles_def)


definition sample_running :: gqueue where
  "sample_running = fst (claim_next_task 5 ''image'' [] []
     (fst (enqueue_task (\<lambda>_. None) 1 ''a'' (sample_request ''s1'' None) fresh_queue)))"

definition sample_stopping :: gqueue where
  "sample_stopping = fst (queue_cancel_task 6 ''a'' sample_running)"

lemma sample_stopping_row:
  "table_ok (gq_repo sample_stopping)" "\<exists>t. get_row ''a'' (gq_repo sample_stopping) = Some t \<and> status t = Cancelling"
proof -
  show "table_ok (gq_repo sample_stopping)" by code_simp
  show "\<exists>t. get_row ''a'' (gq_repo sample_stopping) = Some t \<and> status t = Cancelling"
    by (rule exI [of _ "hd (tasks (gq_repo sample_stopping))"]) code_simp
qed


lemma settles_if:
  "(b \<Longrightarrow> settles f tid) \<Longrightarrow> (\<not> b \<Longrightarrow> settles h tid) \<Longrightarrow> settles (\<lambda>g. if b then f g else h g) tid"
  by (cases b) simp_all

lemma process_resume_settles:
  assumes "env_ok env"
  shows "settles (process_resume_task from_json env now t res) (task_id t)"
proof -
  let ?st = "fst (classify_video_resume_state from_json t)"
  let ?p = "process_resume_task from_json env now t res"
  let ?stop = "\<lambda>g. fst (mark_task_cancelled now (task_id t) ''user'' (env 0 g))"
  have unf: "?p g =
    (if task_type t \<in> {''video'', ''reference_video''} \<and> ?st \<noteq> Ready
      then fail_or_cancel env 0 now (task_id t) (resume_failure ?st) g
      else if opt_or (provider_job_id t) [] = []
      then fail_or_cancel env 0 now (task_id t) (encoded_text ''restart_lost_resume_no_job_id'' []) g
      else (case res of
          ResumeOk result undo interrupted \<Rightarrow> succeed_or_cancel env now (task_id t) result undo interrupted g
        | ResumeCancelled \<Rightarrow> ?stop g
        | ResumeUnsupported txt \<Rightarrow> fail_or_cancel env 0 now (task_id t) (encoded_text ''resume_unsupported_detail'' [(''detail'', JStr txt)]) g
        | ResumeEndpointChanged txt \<Rightarrow> fail_or_cancel env 0 now (task_id t) (encoded_text ''resume_endpoint_changed_detail'' [(''detail'', JStr txt)]) g
        | ResumeExpired txt \<Rightarrow> fail_or_cancel env 0 now (task_id t) (encoded_text ''resume_expired_detail'' [(''detail'', JStr txt)]) g
        | ResumeError e \<Rightarrow> fail_or_cancel env 0 now (task_id t) (encode_task_failure_message e) g))" for g
    by (simp only: process_resume_task_def Let_def split_def)
  have "settles (\<lambda>g. ?p g) (task_id t)"
    unfolding unf
    by (intro settles_if; (cases res)?; simp add: fail_or_cancel_settles cancel_settles succeed_or_cancel_settles assms)
  then show ?thesis by simp
qed

text \<open>
  \<open>_process_resume_task\<close> settles its row as well, for every state of the checkpoint,
  every outcome of the resumed job, and the other transactions in between: it ends terminal,
  and cancelled if it had been asked to stop.
\<close>

theorem process_resume_task_settles:
  assumes "env_ok env" "table_ok (gq_repo g)" "get_row (task_id t) (gq_repo g) = Some u"
  shows "\<exists>t'. get_row (task_id t) (gq_repo (process_resume_task from_json env now t res g)) = Some t'
    \<and> terminal (status t') \<and> (status u = Cancelling \<longrightarrow> status t' = Cancelled)"
  using settlesD [OF process_resume_settles [OF assms(1)], of g t u from_json now res] assms(2,3)
  by (auto simp: alive_def stopping_def)

theorem process_resume_task_settles_witness:
  "\<exists>t'. get_row ''a'' (gq_repo (process_resume_task (\<lambda>_ _. None) (\<lambda>_ g. g) 9 (sample_task ''a'' Running None 1)
      (ResumeOk [] None False) sample_stopping)) = Some t' \<and> status t' = Cancelled"
proof -
  have tid: "task_id (sample_task ''a'' Running None 1) = ''a''" by (simp add: sample_task_def)
  obtain u where "get_row ''a'' (gq_repo sample_stopping) = Some u" "status u = Cancelling"
    using sample_stopping_row(2) by blast
  then show ?thesis
    using process_resume_task_settles [OF env_ok_idle sample_stopping_row(1), of "sample_task ''a'' Running None 1" u
        "\<lambda>_ _. None" 9 "ResumeOk [] None False"] tid by auto
qed

lemma settles_then:
  assumes "settles f tid" "settles g tid"
  shows "settles (\<lambda>x. g (f x)) tid"
  unfolding settles_def
proof (intro allI impI)
  fix x t assume "alive x tid t"
  from settlesD [OF assms(1) this] obtain u where
    u: "alive (f x) tid u" "stopping (status t) \<longrightarrow> status u = Cancelled" by blast
  then show "\<exists>t'. alive (g (f x)) tid t' \<and> terminal (status t') \<and> (stopping (status t) \<longrightarrow> status t' = Cancelled)"
    using settlesD [OF assms(2) u(1)] by (auto simp: stopping_def)
qed

lemma run_one_queue:
  assumes "env_ok env" "ev \<noteq> FoundStopping"
  shows "\<exists>f. settles f (task_id (td_row d)) \<and> (\<forall>w. w_queue (run_one from_json env now p d ev w) = f (w_queue w))"
proof -
  let ?c = "\<lambda>i g. fst (mark_task_cancelled now (task_id (td_row d)) ''user'' (env i g))"
  note c = cancel_settles [OF assms(1), of now "task_id (td_row d)" "''user''"]
  show ?thesis
  proof (cases ev)
    case (RunsResume res)
    note p = process_resume_settles [OF assms(1), of from_json now "td_row d" res]
    show ?thesis
    proof (cases "res = ResumeCancelled")
      case True
      then show ?thesis using RunsResume settles_then [OF p c, of 3]
        by (intro exI [of _ "\<lambda>g. ?c 3 (process_resume_task from_json env now (td_row d) res g)"])
          (auto simp: run_one_def Let_def)
    next
      case False
      then show ?thesis using RunsResume p by (intro exI [of _ "process_resume_task from_json env now (td_row d) res"])
        (auto simp: run_one_def Let_def)
    qed
  qed (use assms c [of 0] in \<open>auto simp: run_one_def Let_def intro!: exI [of _ "?c 0"]\<close>)
qed

lemma run_one_slots:
  "slot_view (w_slots (run_one from_json env now p d ev w)) k i =
    (if k = (p, ''video'') \<and> i = task_id (td_row d) then None else slot_view (w_slots w) k i)"
  by (cases ev) (auto simp: run_one_def Let_def release_view promote_view)

text \<open>
  A dispatched resume task gives its slot back and settles its row: whether it is
  cancelled while it waits for the semaphore, cancelled outside the handlers of
  \<open>_process_resume_task\<close>, or runs to its end, the row is terminal afterwards (cancelled if
  it was being cancelled); when it finds the worker stopping it only frees the slot. No other
  slot changes.
\<close>

theorem run_one_settles:
  assumes "env_ok env" "table_ok (gq_repo (w_queue w))" "get_row (task_id (td_row d)) (gq_repo (w_queue w)) = Some t"
  shows "(\<forall>k i. slot_view (w_slots (run_one from_json env now p d ev w)) k i =
      (if k = (p, ''video'') \<and> i = task_id (td_row d) then None else slot_view (w_slots w) k i))
    \<and> (if ev = FoundStopping then w_queue (run_one from_json env now p d ev w) = w_queue w
       else \<exists>t'. get_row (task_id (td_row d)) (gq_repo (w_queue (run_one from_json env now p d ev w))) = Some t'
         \<and> terminal (status t') \<and> (status t = Cancelling \<longrightarrow> status t' = Cancelled))"
proof (cases "ev = FoundStopping")
  case True
  then show ?thesis by (simp add: run_one_slots) (simp add: run_one_def Let_def)
next
  case False
  obtain f where f: "settles f (task_id (td_row d))" "\<And>w. w_queue (run_one from_json env now p d ev w) = f (w_queue w)"
    using run_one_queue [OF assms(1) False] by metis
  then show ?thesis using settlesD [OF f(1), of "w_queue w" t] assms(2,3) False
    by (auto simp: run_one_slots alive_def stopping_def)
qed

theorem run_one_settles_witness:
  "\<exists>t'. get_row ''a'' (gq_repo (w_queue (run_one (\<lambda>_ _. None) (\<lambda>_ g. g) 9 ''veo'' (task_to_dict (sample_task ''a'' Running None 1))
      CancelledWaiting \<lparr>w_queue = sample_stopping, w_capacity = \<lparr>limits = [], defaults = []\<rparr>, w_slots = sample_slots, w_futures = 4,
        w_owns_lease = True, w_orphan_handled_once = True, w_lease_lost_monotonic = None\<rparr>))) = Some t' \<and> status t' = Cancelled"
proof -
  let ?w = "\<lparr>w_queue = sample_stopping, w_capacity = \<lparr>limits = [], defaults = []\<rparr>, w_slots = sample_slots, w_futures = 4,
    w_owns_lease = True, w_orphan_handled_once = True, w_lease_lost_monotonic = None\<rparr>"
  let ?d = "task_to_dict (sample_task ''a'' Running None 1)"
  have tid: "task_id (td_row ?d) = ''a''" by (simp add: sample_task_def task_to_dict_def)
  obtain u where "get_row ''a'' (gq_repo sample_stopping) = Some u" "status u = Cancelling"
    using sample_stopping_row(2) by blast
  then show ?thesis
    using run_one_settles [OF env_ok_idle, of ?w ?d u "\<lambda>_ _. None" 9 "''veo''" CancelledWaiting] sample_stopping_row(1) tid
    by auto
qed

subsection \<open>Claiming within the limits\<close>

abbreviation qlook :: "gqueue \<Rightarrow> string \<Rightarrow> task option" where
  "qlook q \<equiv> look (gq_repo q)"

definition waiting :: "gqueue \<Rightarrow> string set" where
  "waiting q = queued_in (qlook q)"

definition running :: "gqueue \<Rightarrow> string set" where
  "running q = {i. \<exists>t. qlook q i = Some t \<and> status t = Running}"

lemma in_session_look: "qlook (fst (in_session oper q)) = look (fst (oper ((gq_repo q)\<lparr>terminal_events := []\<rparr>)))"
  by (simp add: in_session_row)

lemma claim_next_task_row:
  assumes "table_ok (gq_repo q)"
  shows "case claim_next_task now media full ex q of
    (q', None) \<Rightarrow> qlook q' = qlook q
  | (q', Some d) \<Rightarrow> task_id (td_row d) \<in> waiting q \<and> task_id (td_row d) \<notin> set ex \<and> status (td_row d) = Running
      \<and> qlook q' = (qlook q)(task_id (td_row d) \<mapsto> td_row d)"
proof -
  let ?r = "(gq_repo q)\<lparr>terminal_events := []\<rparr>"
  have ok: "table_ok ?r" using assms by simp
  note spec = claim_next_table [OF ok, where now = now and media = media and full = full and excluded = ex]
  show ?thesis
  proof (cases "claim_next now media full ex ?r")
    case (Pair r' res)
    have q': "claim_next_task now media full ex q = (fst (claim_next_task now media full ex q), res)"
      "qlook (fst (claim_next_task now media full ex q)) = look r'"
      using Pair by (simp_all add: claim_next_task_def in_session_look prod_eq_iff in_session_snd)
    show ?thesis
    proof (cases res)
      case None
      then have "look r' = qlook q" using spec Pair by simp
      then show ?thesis using q' None by (auto split: prod.splits)
    next
      case (Some d)
      then obtain t where t: "t \<in> set (tasks ?r)" "claimable media full ex ?r t"
        "td_row d = t\<lparr>status := Running, started_at := Some now, updated_at := now\<rparr>" "look r' = (look ?r)(task_id t \<mapsto> td_row d)"
        using spec Pair by auto
      have "get_row (task_id t) ?r = Some t" using get_row_mem [OF ok t(1)] .
      then have "task_id t \<in> waiting q" using t(2) by (auto simp: waiting_def queued_in_def claimable_def)
      then show ?thesis using q' Some t by (subst q'(1)) (auto simp: claimable_def)
    qed
  qed
qed

lemma mark_task_failed_sets:
  assumes "table_ok (gq_repo q)"
  shows "waiting (fst (mark_task_failed now tid msg q)) \<subseteq> waiting q"
    and "running q - {tid} \<subseteq> running (fst (mark_task_failed now tid msg q))"
proof -
  let ?r = "(gq_repo q)\<lparr>terminal_events := []\<rparr>"
  have ok: "table_ok ?r" using assms by simp
  have l: "get_row i (gq_repo (fst (mark_task_failed now tid msg q))) = get_row i (fst (mark_failed now tid msg ?r))" for i
    by (simp add: mark_task_failed_def in_session_row)
  have "waiting (fst (mark_task_failed now tid msg q)) \<subseteq> waiting q
      \<and> running q - {tid} \<subseteq> running (fst (mark_task_failed now tid msg q))"
  proof (cases "\<exists>t. get_row tid ?r = Some t \<and> status t = Running")
    case True
    then obtain t where t: "get_row tid ?r = Some t" "status t = Running" by blast
    note e = mark_failed_table [OF ok t, where now = now and msg = msg]
    have "waiting (fst (mark_task_failed now tid msg q)) \<subseteq> waiting q"
      using e by (auto simp: waiting_def queued_in_def l blocked_row_def split: if_splits)
    moreover have "i \<in> running (fst (mark_task_failed now tid msg q))" if i: "i \<in> running q" "i \<noteq> tid" for i
    proof -
      obtain u where u: "qlook q i = Some u" "status u = Running" using i(1) by (auto simp: running_def)
      then have "qlook (fst (mark_task_failed now tid msg q)) i = Some u" using i(2) e [of i] l [of i] by simp
      then show ?thesis using u(2) by (simp add: running_def)
    qed
    ultimately show ?thesis by blast
  next
    case False
    then have "mark_failed now tid msg ?r = (?r, 0)" using ok by (intro mark_failed_idle) auto
    then show ?thesis by (auto simp: waiting_def running_def queued_in_def l)
  qed
  then show "waiting (fst (mark_task_failed now tid msg q)) \<subseteq> waiting q"
    "running q - {tid} \<subseteq> running (fst (mark_task_failed now tid msg q))" by simp_all
qed

lemma requeue_single_look:
  "get_row i (gq_repo (fst (queue_requeue_single now tid q))) =
    map_option (\<lambda>t. if task_id t = tid \<and> status t = Running
      then t\<lparr>status := Queued, started_at := None, updated_at := now\<rparr> else t) (get_row i (gq_repo q))"
proof -
  let ?f = "\<lambda>t. t\<lparr>status := Queued, started_at := None, updated_at := now\<rparr>"
  have "keeps_identity ?f" by (simp add: keeps_identity_def row_identity_simps)
  from get_row_update [OF this, where i = i and r = "(gq_repo q)\<lparr>terminal_events := []\<rparr>"
      and P = "\<lambda>t. task_id t = tid \<and> status t = Running"]
  show ?thesis by (simp add: queue_requeue_single_def in_session_row requeue_single_task_def Let_def)
qed

lemma persist_provider_look:
  "get_row i (gq_repo (queue_persist_execution_provider_id now tid p q)) =
    map_option (\<lambda>t. if task_id t = tid then t\<lparr>provider_id := Some p, updated_at := now\<rparr> else t) (get_row i (gq_repo q))"
proof -
  let ?f = "\<lambda>t. t\<lparr>provider_id := Some p, updated_at := now\<rparr>"
  have "keeps_identity ?f" by (simp add: keeps_identity_def row_identity_simps)
  from get_row_update [OF this, where i = i and r = "(gq_repo q)\<lparr>terminal_events := []\<rparr>" and P = "has_id tid"]
  show ?thesis by (simp add: queue_persist_execution_provider_id_def in_session_row persist_execution_provider_id_def)
qed

lemma put_back_sets:
  "waiting (put_back now tid p q) \<subseteq> insert tid (waiting q)" "running q - {tid} \<subseteq> running (put_back now tid p q)"
proof -
  have l: "qlook (put_back now tid p q) i = qlook q i" if "i \<noteq> tid" for i
    using that by (cases "get_row i (gq_repo q)")
      (auto simp: put_back_def requeue_single_look persist_provider_look dest: get_row_SomeD)
  show "waiting (put_back now tid p q) \<subseteq> insert tid (waiting q)"
    using l by (fastforce simp: waiting_def queued_in_def)
  show "running q - {tid} \<subseteq> running (put_back now tid p q)"
    using l by (auto simp: running_def)
qed

lemma put_back_ok: "table_ok (gq_repo q) \<Longrightarrow> table_ok (gq_repo (put_back now tid p q))"
  unfolding put_back_def
  using queue_step_row [OF queue_step.requeue_one] queue_step_row [OF queue_step.provider] by blast

text \<open>Everything one lane does to the worker.\<close>

definition lane_ok :: "worker \<Rightarrow> worker \<Rightarrow> bool" where
  "lane_ok w w' \<longleftrightarrow> table_ok (gq_repo (w_queue w')) \<and> w_capacity w' = w_capacity w
     \<and> running (w_queue w) \<subseteq> running (w_queue w')
     \<and> (\<forall>k i. slot_view (w_slots w') k i \<noteq> None \<longrightarrow> slot_view (w_slots w) k i \<noteq> None \<or> i \<in> running (w_queue w'))
     \<and> (slot.within (capacity_get (w_capacity w)) (w_slots w) \<longrightarrow> slot.within (capacity_get (w_capacity w)) (w_slots w'))"

lemma lane_ok_refl: "table_ok (gq_repo (w_queue w)) \<Longrightarrow> lane_ok w w"
  by (simp add: lane_ok_def)

lemma lane_ok_trans:
  assumes "lane_ok a b" "lane_ok b c"
  shows "lane_ok a c"
  using assms unfolding lane_ok_def by (metis subset_iff)

lemma lane_ok_queue:
  assumes "table_ok (gq_repo q)" "running (w_queue w) \<subseteq> running q"
  shows "lane_ok w (w\<lparr>w_queue := q\<rparr>)"
  using assms by (simp add: lane_ok_def)

lemma lane_ok_start:
  assumes "table_ok (gq_repo q)" "running (w_queue w) \<subseteq> running q" "tid \<in> running q"
    "has_room p media (capacity_get (w_capacity w) p media) (w_slots w)"
  shows "lane_ok w (start_task p media tid (w\<lparr>w_queue := q\<rparr>))"
proof -
  have "slot.within (capacity_get (w_capacity w)) (register p media tid (w_futures w) False (w_slots w))"
    if "slot.within (capacity_get (w_capacity w)) (w_slots w)"
    by (rule slot.within_admit [OF that assms(4)])
  then show ?thesis using assms by (auto simp: lane_ok_def start_task_def register_view)
qed

lemma card_waiting_less:
  assumes "tid \<in> waiting q" "tid \<notin> A" "waiting q' - A' \<subseteq> waiting q - A - {tid}"
  shows "card (waiting q' - A') < card (waiting q - A)"
proof -
  have "finite (waiting q)"
    by (rule finite_subset [OF _ finite_look [of "gq_repo q"]]) (auto simp: waiting_def queued_in_def)
  then show ?thesis using assms by (intro psubset_card_mono) auto
qed

lemma claim_lane_returns:
  "table_ok (gq_repo (w_queue w)) \<Longrightarrow> card (waiting (w_queue w) - set attempted) < fuel \<Longrightarrow>
   \<exists>w' c. claim_lane fuel provider now media attempted w claimed = Some (w', c) \<and> lane_ok w w'"
proof (induction fuel arbitrary: attempted w claimed)
  case (Suc fuel)
  note ok = Suc.prems(1)
  let ?c = "claim_next_task now media (pool_full_providers media w) attempted (w_queue w)"
  obtain q res where c: "?c = (q, res)" by force
  have okq: "table_ok (gq_repo q)"
    using queue_step_row [OF queue_step.claim ok] c by (metis fst_conv)
  note spec = claim_next_task_row [OF ok, where now = now and media = media and full = "pool_full_providers media w" and ex = attempted, unfolded c]
  show ?case
  proof (cases res)
    case None
    then have "qlook q i = qlook (w_queue w) i" for i using spec by (auto dest: fun_cong)
    then have "running q = running (w_queue w)" by (simp add: running_def)
    then have "lane_ok w (w\<lparr>w_queue := q\<rparr>)" using okq by (intro lane_ok_queue) auto
    then show ?thesis using c None by (simp add: claim_lane.simps)
  next
    case (Some d)
    let ?tid = "task_id (td_row d)" and ?p = "provider d"
    let ?cap = "capacity_get (w_capacity w) ?p media"
    have s: "?tid \<in> waiting (w_queue w)" "?tid \<notin> set attempted" "status (td_row d) = Running"
      "qlook q = (qlook (w_queue w))(?tid \<mapsto> td_row d)" using spec Some by auto
    have wq: "waiting q = waiting (w_queue w) - {?tid}"
      using s(3,4) by (auto simp: waiting_def queued_in_def)
    have row: "qlook q i = (if i = ?tid then Some (td_row d) else qlook (w_queue w) i)" for i
      using fun_cong [OF s(4), of i] by simp
    have rq: "running q = insert ?tid (running (w_queue w))" "?tid \<notin> running (w_queue w)"
      using s(1,3) by (auto simp: running_def waiting_def queued_in_def row)
    note cont = Suc.IH
    consider (unsup) "?cap \<le> 0" | (full) "?cap > 0" "\<not> has_room ?p media ?cap (w_slots w)"
      | (room) "?cap > 0" "has_room ?p media ?cap (w_slots w)" by linarith
    then show ?thesis
    proof cases
      case unsup
      let ?q = "fst (mark_task_failed now ?tid (unsupported_media ?p media) q)"
      note m = mark_task_failed_sets [OF okq, where tid = ?tid and now = now and msg = "unsupported_media ?p media"]
      have okf: "table_ok (gq_repo ?q)" using queue_step_row [OF queue_step.failed okq] by blast
      have "card (waiting ?q - set attempted) < card (waiting (w_queue w) - set attempted)"
        using m(1) wq by (intro card_waiting_less [OF s(1,2)]) auto
      then have "\<exists>w' c. claim_lane fuel provider now media attempted (w\<lparr>w_queue := ?q\<rparr>) True = Some (w', c) \<and> lane_ok (w\<lparr>w_queue := ?q\<rparr>) w'"
        using Suc.prems(2) okf by (intro cont) auto
      moreover have "lane_ok w (w\<lparr>w_queue := ?q\<rparr>)" using okf m(2) rq by (intro lane_ok_queue) auto
      ultimately show ?thesis using c Some unsup by (auto simp: claim_lane.simps Let_def intro: lane_ok_trans)
    next
      case full
      let ?q = "put_back now ?tid ?p q"
      note m = put_back_sets [where now = now and tid = ?tid and p = ?p and q = q]
      have okp: "table_ok (gq_repo ?q)" by (rule put_back_ok [OF okq])
      have l: "lane_ok w (w\<lparr>w_queue := ?q\<rparr>)" using okp m(2) rq by (intro lane_ok_queue) auto
      have "card (waiting ?q - set (attempted @ [?tid])) < card (waiting (w_queue w) - set attempted)"
        using m(1) wq by (intro card_waiting_less [OF s(1,2)]) auto
      then have "\<exists>w' c. claim_lane fuel provider now media (attempted @ [?tid]) (w\<lparr>w_queue := ?q\<rparr>) claimed = Some (w', c)
          \<and> lane_ok (w\<lparr>w_queue := ?q\<rparr>) w'"
        using Suc.prems(2) okp by (intro cont) auto
      then show ?thesis using c Some full l by (auto simp: claim_lane.simps Let_def intro: lane_ok_trans)
    next
      case room
      let ?w = "start_task ?p media ?tid (w\<lparr>w_queue := q\<rparr>)"
      have l: "lane_ok w ?w" using okq rq room by (intro lane_ok_start) auto
      have "card (waiting (w_queue ?w) - set attempted) < card (waiting (w_queue w) - set attempted)"
        using wq by (intro card_waiting_less [OF s(1,2)]) (auto simp: start_task_def)
      then have "\<exists>w' c. claim_lane fuel provider now media attempted ?w True = Some (w', c) \<and> lane_ok ?w w'"
        using Suc.prems(2) okq by (intro cont) (auto simp: start_task_def)
      then show ?thesis using c Some room l by (auto simp: claim_lane.simps Let_def intro: lane_ok_trans)
    qed
  qed
qed simp

lemma claim_lane_returns':
  assumes "table_ok (gq_repo (w_queue w))"
  shows "\<exists>w' c. claim_lane (lane_fuel w) provider now media [] w claimed = Some (w', c) \<and> lane_ok w w'"
  using assms queued_fuel [of "gq_repo (w_queue w)"]
  by (intro claim_lane_returns) (simp_all add: lane_fuel_def waiting_def)

lemma claim_tasks_returns:
  assumes "table_ok (gq_repo (w_queue w))"
  shows "\<exists>w' c. claim_tasks provider now w = Some (w', c) \<and> lane_ok w w'"
proof -
  have "\<exists>w' c. fold (\<lambda>media acc. Option.bind acc (\<lambda>(w, claimed). claim_lane (lane_fuel w) provider now media [] w claimed))
      ms (Some (w, cl)) = Some (w', c) \<and> lane_ok w w'" if "table_ok (gq_repo (w_queue w))" for ms w cl
    using that
  proof (induction ms arbitrary: w cl)
    case (Cons m ms)
    obtain w1 c1 where 1: "claim_lane (lane_fuel w) provider now m [] w cl = Some (w1, c1)" "lane_ok w w1"
      using claim_lane_returns' [OF Cons.prems] by blast
    then have "table_ok (gq_repo (w_queue w1))" by (simp add: lane_ok_def)
    then show ?case using Cons.IH [of w1 c1] 1 by (auto intro: lane_ok_trans)
  qed (simp add: lane_ok_refl)
  from this [OF assms, of "[''image'', ''video'', ''audio'']" False] show ?thesis
    unfolding claim_tasks_def .
qed


definition sample_worker :: worker where
  "sample_worker = \<lparr>w_queue = fst (enqueue_task (\<lambda>_. None) 1 ''a'' (sample_request ''s1'' None) fresh_queue),
     w_capacity = \<lparr>limits = [], defaults = [(''image'', 1)]\<rparr>, w_slots = [], w_futures = 0,
     w_owns_lease = True, w_orphan_handled_once = True, w_lease_lost_monotonic = None\<rparr>"


subsection \<open>Orphans are settled or resumed, never resubmitted\<close>

lemma mark_task_cancelled_waiting:
  assumes "table_ok (gq_repo q)"
  shows "waiting (fst (mark_task_cancelled now tid who q)) \<subseteq> waiting q"
proof
  fix i assume i: "i \<in> waiting (fst (mark_task_cancelled now tid who q))"
  let ?r = "(gq_repo q)\<lparr>terminal_events := []\<rparr>"
  have ok: "table_ok ?r" using assms by simp
  have l: "get_row i (gq_repo (fst (mark_task_cancelled now tid who q))) = get_row i (fst (finalize_cancelled now tid who ?r))"
    by (simp add: mark_task_cancelled_def split_def in_session_row)
  obtain t' where t': "get_row i (fst (finalize_cancelled now tid who ?r)) = Some t'" "status t' = Queued"
    using i l by (auto simp: waiting_def queued_in_def)
  show "i \<in> waiting q"
    using finalize_cancelled_table [OF ok, where now = now and tid = tid and who = who] t'
    by (auto simp: waiting_def queued_in_def split: if_splits prod.splits)
qed

lemma fail_or_cancel_steps:
  assumes "table_ok (gq_repo g)"
  shows "queue_step\<^sup>*\<^sup>* g (fail_or_cancel (\<lambda>_ g. g) i now tid msg g)"
    and "waiting (fail_or_cancel (\<lambda>_ g. g) i now tid msg g) \<subseteq> waiting g"
proof -
  let ?m = "mark_task_failed now tid msg g"
  have 1: "queue_step g (fst ?m)" by (rule queue_step.failed)
  then have ok: "table_ok (gq_repo (fst ?m))" using queue_step_row assms by blast
  have 2: "queue_step (fst ?m) (fst (mark_task_cancelled now tid ''user'' (fst ?m)))" by (rule queue_step.cancelled)
  show "queue_step\<^sup>*\<^sup>* g (fail_or_cancel (\<lambda>_ g. g) i now tid msg g)"
    using 1 2 by (auto simp: fail_or_cancel_def split_def)
  show "waiting (fail_or_cancel (\<lambda>_ g. g) i now tid msg g) \<subseteq> waiting g"
    using mark_task_failed_sets(1) [OF assms] mark_task_cancelled_waiting [OF ok]
    by (auto simp: fail_or_cancel_def split_def) blast+
qed

definition ends_row :: "orphan_verdict \<Rightarrow> bool" where
  "ends_row dec \<longleftrightarrow> (case dec of SkipActive \<Rightarrow> False | FinishCancelled \<Rightarrow> True | FailOrphan _ \<Rightarrow> True | ResumeOn _ \<Rightarrow> False)"

lemma orphan_step_effect:
  assumes "table_ok (gq_repo (fst st))"
  shows "queue_step\<^sup>*\<^sup>* (fst st) (fst (orphan_step fj pr sa now d st))"
    and "waiting (fst (orphan_step fj pr sa now d st)) \<subseteq> waiting (fst st)"
    and "set (dict_get_default (snd (orphan_step fj pr sa now d st)) p []) = set (dict_get_default (snd st) p [])
      \<union> (if orphan_decision fj pr sa d = ResumeOn p then {with_provider p d} else {})"
    and "ends_row (orphan_decision fj pr sa d) \<Longrightarrow> get_row (task_id (td_row d)) (gq_repo (fst st)) = Some t \<Longrightarrow>
      \<exists>t'. get_row (task_id (td_row d)) (gq_repo (fst (orphan_step fj pr sa now d st))) = Some t'
        \<and> terminal (status t') \<and> (stopping (status t) \<longrightarrow> status t' = Cancelled)"
proof -
  note fs = fail_or_cancel_steps [OF assms]
  have c: "queue_step (fst st) (fst (mark_task_cancelled now (task_id (td_row d)) ''user'' (fst st)))"
    by (rule queue_step.cancelled)
  show "queue_step\<^sup>*\<^sup>* (fst st) (fst (orphan_step fj pr sa now d st))"
    using fs(1) c by (auto simp: orphan_step_def split: orphan_verdict.split)
  show "waiting (fst (orphan_step fj pr sa now d st)) \<subseteq> waiting (fst st)"
    using fs(2) mark_task_cancelled_waiting [OF assms] by (auto simp: orphan_step_def split: orphan_verdict.splits)
  show "set (dict_get_default (snd (orphan_step fj pr sa now d st)) p []) = set (dict_get_default (snd st) p [])
      \<union> (if orphan_decision fj pr sa d = ResumeOn p then {with_provider p d} else {})"
    by (auto simp: orphan_step_def dict_get_append split: orphan_verdict.split)
  assume "ends_row (orphan_decision fj pr sa d)" "get_row (task_id (td_row d)) (gq_repo (fst st)) = Some t"
  then show "\<exists>t'. get_row (task_id (td_row d)) (gq_repo (fst (orphan_step fj pr sa now d st))) = Some t'
      \<and> terminal (status t') \<and> (stopping (status t) \<longrightarrow> status t' = Cancelled)"
    using settlesD [OF fail_or_cancel_settles [OF env_ok_idle], where tid = "task_id (td_row d)" and g = "fst st" and t = t]
      settlesD [OF cancel_settles [OF env_ok_idle], where tid = "task_id (td_row d)" and g = "fst st" and t = t] assms
    by (fastforce simp: orphan_step_def ends_row_def alive_def split: orphan_verdict.splits)
qed

text \<open>\<open>ended g i t\<close>: the row \<open>i\<close>, which was \<open>t\<close>, is terminal, and cancelled if it was stopping.\<close>

definition ended :: "gqueue \<Rightarrow> string \<Rightarrow> task \<Rightarrow> bool" where
  "ended g i t \<longleftrightarrow> (\<exists>t'. get_row i (gq_repo g) = Some t' \<and> terminal (status t') \<and> (stopping (status t) \<longrightarrow> status t' = Cancelled))"

lemma ended_steps:
  assumes "queue_step\<^sup>*\<^sup>* g g'" "table_ok (gq_repo g)" "ended g i t"
  shows "ended g' i t"
proof -
  obtain t1 where t1: "get_row i (gq_repo g) = Some t1" "terminal (status t1)" "stopping (status t) \<longrightarrow> status t1 = Cancelled"
    using assms(3) by (auto simp: ended_def)
  then obtain t2 where t2: "get_row i (gq_repo g') = Some t2" "row_evolves t1 t2"
    using queue_steps_row [OF assms(1,2)] by blast
  then have "status t2 = status t1" using t1(2) by (auto simp: row_evolves_def outcome_def)
  then show ?thesis using t1 t2(1) by (simp add: ended_def)
qed

lemma ended_before:
  assumes "row_evolves t u" "ended g i u"
  shows "ended g i t"
  using assms row_evolves_stopping [OF assms(1)] by (auto simp: ended_def)

lemma orphan_fold_effect:
  assumes "table_ok (gq_repo (fst st))"
    and "\<And>d. d \<in> set ds \<Longrightarrow> get_row (task_id (td_row d)) (gq_repo (fst st)) = Some (row d)"
  shows "queue_step\<^sup>*\<^sup>* (fst st) (fst (fold (orphan_step fj pr sa now) ds st))
    \<and> waiting (fst (fold (orphan_step fj pr sa now) ds st)) \<subseteq> waiting (fst st)
    \<and> (\<forall>p. set (dict_get_default (snd (fold (orphan_step fj pr sa now) ds st)) p []) = set (dict_get_default (snd st) p [])
        \<union> with_provider p ` {d \<in> set ds. orphan_decision fj pr sa d = ResumeOn p})
    \<and> (\<forall>d \<in> set ds. ends_row (orphan_decision fj pr sa d) \<longrightarrow>
        ended (fst (fold (orphan_step fj pr sa now) ds st)) (task_id (td_row d)) (row d))"
  using assms
proof (induction ds arbitrary: st row)
  case (Cons d ds)
  let ?s = "orphan_step fj pr sa now d st"
  let ?e = "fst (fold (orphan_step fj pr sa now) ds ?s)"
  note e = orphan_step_effect [OF Cons.prems(1), where fj = fj and pr = pr and sa = sa and now = now and d = d]
  have rows: "\<exists>u. get_row i (gq_repo (fst ?s)) = Some u \<and> row_evolves t u" if "get_row i (gq_repo (fst st)) = Some t" for i t
    using queue_steps_row [OF e(1) Cons.prems(1)] that by blast
  have ok: "table_ok (gq_repo (fst ?s))" using queue_steps_row [OF e(1) Cons.prems(1)] by blast
  have "\<forall>d' \<in> set ds. \<exists>u. get_row (task_id (td_row d')) (gq_repo (fst ?s)) = Some u \<and> row_evolves (row d') u"
    using Cons.prems(2) rows by (meson list.set_intros(2))
  then obtain row' where row': "\<And>d'. d' \<in> set ds \<Longrightarrow> get_row (task_id (td_row d')) (gq_repo (fst ?s)) = Some (row' d')"
    "\<And>d'. d' \<in> set ds \<Longrightarrow> row_evolves (row d') (row' d')" by metis
  note ih = Cons.IH [OF ok, of row', OF row'(1)]
  have "ended (fst ?s) (task_id (td_row d)) (row d)" if "ends_row (orphan_decision fj pr sa d)"
    using e(4) [OF that, where t = "row d"] Cons.prems(2) [of d] by (auto simp: ended_def)
  then have "ended ?e (task_id (td_row d)) (row d)" if "ends_row (orphan_decision fj pr sa d)"
    using ended_steps [OF conjunct1 [OF ih] ok] that by simp
  moreover have "ended ?e (task_id (td_row d')) (row d')" if "d' \<in> set ds" "ends_row (orphan_decision fj pr sa d')" for d'
    by (rule ended_before [OF row'(2)]) (use ih that in simp_all)
  moreover have "queue_step\<^sup>*\<^sup>* (fst st) ?e" using e(1) ih by (meson rtranclp_trans)
  moreover have "waiting ?e \<subseteq> waiting (fst st)" using e(2) ih by blast
  moreover have "set (dict_get_default (snd (fold (orphan_step fj pr sa now) ds ?s)) p []) = set (dict_get_default (snd st) p [])
      \<union> with_provider p ` {d' \<in> set (d # ds). orphan_decision fj pr sa d' = ResumeOn p}" for p
    using ih e(3) [where p = p] by auto
  ultimately show ?case by auto
qed simp

text \<open>What a task must bring to be resumed on \<open>p\<close>.\<close>

definition resume_ok :: "(string \<Rightarrow> string \<Rightarrow> checkpoint option) \<Rightarrow> string list \<Rightarrow> string \<Rightarrow> task \<Rightarrow> bool" where
  "resume_ok from_json self_active p t \<longleftrightarrow> status t = Running
     \<and> task_id t \<notin> set self_active \<and> opt_or (provider_job_id t) [] \<noteq> []
     \<and> p \<notin> set NON_RESUMABLE_VIDEO_PROVIDERS \<and> orphan_media t \<notin> {''image'', ''audio''}
     \<and> (task_type t \<in> {''video'', ''reference_video''} \<longrightarrow>
         (\<exists>c. classify_video_resume_state from_json t = (Ready, Some c) \<and> cp_provider c = p))"

lemma classify_ready: "classify_video_resume_state fj t = (Ready, cp) \<Longrightarrow> \<exists>c. cp = Some c"
  by (auto simp: classify_video_resume_state_def Let_def split: if_splits option.splits dest: sym)

lemma resume_decision:
  assumes "orphan_decision fj pr sa (task_to_dict t) = ResumeOn p" "status t \<in> {Running, Cancelling}"
  shows "resume_ok fj sa p t"
proof -
  obtain s cp where c: "classify_video_resume_state fj t = (s, cp)" by force
  show ?thesis
  proof (cases "task_type t \<in> {''video'', ''reference_video''}")
    case True
    then have "s = Ready" using assms(1) c by (auto simp: orphan_decision_def Let_def task_to_dict_def split: if_splits)
    then show ?thesis using True assms c classify_ready [of fj t cp]
      by (auto simp: resume_ok_def orphan_decision_def Let_def task_to_dict_def split: if_splits)
  next
    case False
    then show ?thesis using assms c
      by (auto simp: resume_ok_def orphan_decision_def Let_def task_to_dict_def split: if_splits)
  qed
qed

text \<open>
  (C14) Restart recovery never resubmits work. After \<open>_handle_orphan_tasks_on_start\<close> no task is
  back in the queue and no slot is taken. Every task the dead process left running or
  cancelling, unless this process still works on it, is settled (cancelled if it was being
  cancelled) or handed to the resume dispatcher; and a task is handed over only if it was
  running, has a provider job to pick up again, belongs to a provider that can resume, and,
  for the two video routes, has a valid checkpoint that names that provider.
\<close>

theorem orphans_never_resubmitted:
  assumes "table_ok (gq_repo (w_queue w))"
    and "handle_orphan_tasks_on_start from_json provider now w = (w', buckets)"
  shows "waiting (w_queue w') \<subseteq> waiting (w_queue w) \<and> w_slots w' = w_slots w
    \<and> (\<forall>i t. get_row i (gq_repo (w_queue w)) = Some t \<longrightarrow> status t \<in> {Running, Cancelling} \<longrightarrow>
        i \<notin> set (active_task_ids (w_slots w)) \<longrightarrow>
        (\<exists>t'. get_row i (gq_repo (w_queue w')) = Some t' \<and> terminal (status t') \<and> (status t = Cancelling \<longrightarrow> status t' = Cancelled))
        \<or> (\<exists>p d. d \<in> set (dict_get_default buckets p []) \<and> task_id (td_row d) = i))
    \<and> (\<forall>p d. d \<in> set (dict_get_default buckets p []) \<longrightarrow>
        (\<exists>t. get_row (task_id (td_row d)) (gq_repo (w_queue w)) = Some t \<and> status t = Running
          \<and> task_id t \<notin> set (active_task_ids (w_slots w)) \<and> opt_or (provider_job_id t) [] \<noteq> []
          \<and> p \<notin> set NON_RESUMABLE_VIDEO_PROVIDERS \<and> orphan_media t \<notin> {''image'', ''audio''}
          \<and> (task_type t \<in> {''video'', ''reference_video''} \<longrightarrow>
              (\<exists>c. classify_video_resume_state from_json t = (Ready, Some c) \<and> cp_provider c = p))))"
proof -
  let ?r = "gq_repo (w_queue w)" and ?sa = "active_task_ids (w_slots w)"
  let ?ds = "list_orphan_tasks_on_start ?r"
  let ?f = "fold (orphan_step from_json provider ?sa now) ?ds (w_queue w, [])"
  have w': "w' = w\<lparr>w_queue := fst ?f\<rparr>" "buckets = snd ?f"
    using assms(2) by (auto simp: handle_orphan_tasks_on_start_def split: prod.splits)
  have ds: "d \<in> set ?ds \<longleftrightarrow> (\<exists>t. d = task_to_dict t \<and> get_row (task_id t) ?r = Some t \<and> status t \<in> {Running, Cancelling})" for d
    using get_row_mem [OF assms(1)] get_row_SomeD by (fastforce simp: list_orphan_tasks_on_start_def)
  have "get_row (task_id (td_row d)) (gq_repo (fst (w_queue w, []))) = Some (td_row d)" if "d \<in> set ?ds" for d
    using that unfolding ds by (auto simp: task_to_dict_def)
  note e = orphan_fold_effect [of "(w_queue w, [])" ?ds td_row from_json provider ?sa now, OF _ this, simplified, OF assms(1)]
  have b: "set (dict_get_default buckets p []) = with_provider p ` {d \<in> set ?ds. orphan_decision from_json provider ?sa d = ResumeOn p}" for p
    using e w'(2) by (simp add: dict_get_default_def)
  have settled: "ended (w_queue w') i t \<or> (\<exists>p d. d \<in> set (dict_get_default buckets p []) \<and> task_id (td_row d) = i)"
    if t: "get_row i ?r = Some t" "status t \<in> {Running, Cancelling}" "i \<notin> set ?sa" for i t
  proof -
    have i: "task_id t = i" using get_row_SomeD [OF t(1)] by simp
    have d: "task_to_dict t \<in> set ?ds" unfolding ds using t i by blast
    show ?thesis
    proof (cases "orphan_decision from_json provider ?sa (task_to_dict t)")
      case SkipActive
      then show ?thesis using t(3) i by (auto simp: orphan_decision_def Let_def task_to_dict_def split: if_splits prod.splits)
    next
      case (ResumeOn p)
      then have "with_provider p (task_to_dict t) \<in> set (dict_get_default buckets p [])" unfolding b using d by blast
      moreover have "task_id (td_row (with_provider p (task_to_dict t))) = i" using i by (simp add: with_provider_def task_to_dict_def)
      ultimately show ?thesis by blast
    next
      case FinishCancelled
      then show ?thesis using e d i w'(1) by (auto simp: ends_row_def task_to_dict_def)
    next
      case FailOrphan
      then show ?thesis using e d i w'(1) by (auto simp: ends_row_def task_to_dict_def)
    qed
  qed
  have handed: "\<exists>t. get_row (task_id (td_row d)) ?r = Some t \<and> resume_ok from_json ?sa p t"
    if "d \<in> set (dict_get_default buckets p [])" for p d
  proof -
    from that obtain t where t: "d = with_provider p (task_to_dict t)" "get_row (task_id t) ?r = Some t"
      "status t \<in> {Running, Cancelling}" "orphan_decision from_json provider ?sa (task_to_dict t) = ResumeOn p"
      unfolding b by (auto simp: ds)
    then have "resume_ok from_json ?sa p t" by (intro resume_decision)
    then show ?thesis using t(1,2) by (auto simp: with_provider_def task_to_dict_def)
  qed
  have "waiting (w_queue w') \<subseteq> waiting (w_queue w)" using e w'(1) by simp
  moreover have "w_slots w' = w_slots w" using w'(1) by simp
  ultimately show ?thesis
    using settled handed unfolding ended_def stopping_def resume_ok_def by (intro conjI allI impI) blast+
qed

definition sample_orphans :: worker where
  "sample_orphans = sample_worker\<lparr>w_queue := (w_queue sample_worker)\<lparr>gq_repo := sample_repo
     [sample_task ''t1'' Running None 1, (sample_task ''t2'' Cancelling None 2)\<lparr>media_type := ''video''\<rparr>]\<rparr>\<rparr>"

theorem orphans_never_resubmitted_witness:
  "waiting (w_queue (fst (handle_orphan_tasks_on_start (\<lambda>_ _. None) (\<lambda>_. ''gemini'') 9 sample_orphans))) \<subseteq> waiting (w_queue sample_orphans)
    \<and> map_option status (get_row ''t2'' (gq_repo (w_queue (fst (handle_orphan_tasks_on_start (\<lambda>_ _. None) (\<lambda>_. ''gemini'') 9 sample_orphans)))))
      = Some Cancelled"
proof -
  have ok: "table_ok (gq_repo (w_queue sample_orphans))" by code_simp
  note o = orphans_never_resubmitted [OF ok, of "\<lambda>_ _. None" "\<lambda>_. ''gemini''" 9, OF prod.collapse [symmetric]]
  show ?thesis by (intro conjI conjunct1 [OF o]) code_simp
qed

end
