(* ===== verification/Credentials.thy ===== *)
theory Credentials
  imports PyText
begin

text \<open>
  Stored credentials: the provider credentials
  (\<open>lib/db/repositories/credential_repository.py\<close>, \<open>lib/db/models/credential.py\<close>) with the
  handlers that guard them in \<open>server/routers/providers.py\<close>, and the agent's Anthropic
  credentials (\<open>lib/db/repositories/agent_credential_repo.py\<close>,
  \<open>lib/db/models/agent_credential.py\<close>, \<open>server/routers/agent_config.py\<close>).

  Both tables keep at most one active row per owner, by a unique partial index that a flush
  checks. The locale \<open>exclusive_rows\<close> is what the two repositories share: rows with a key,
  an owner and an active mark, and the switch of the mark inside one owner.
\<close>

subsection \<open>Switching an exclusive mark\<close>

locale exclusive_rows =
  fixes key :: "'c \<Rightarrow> nat" and owner :: "'c \<Rightarrow> string" and chosen :: "'c \<Rightarrow> bool" and mark :: "bool \<Rightarrow> 'c \<Rightarrow> 'c"
  assumes key_mark: "key (mark b c) = key c"
    and owner_mark: "owner (mark b c) = owner c"
    and chosen_mark: "chosen (mark b c) = b"
    and mark_mark: "mark b (mark b' c) = mark b c"
begin

definition at_most_one :: "'c list \<Rightarrow> bool" where
  "at_most_one cs \<longleftrightarrow> distinct (map owner (filter chosen cs))"

definition active_of :: "string \<Rightarrow> 'c list \<Rightarrow> 'c list" where
  "active_of ow cs = filter (\<lambda>c. owner c = ow \<and> chosen c) cs"

lemma at_most_one_iff: "at_most_one cs \<longleftrightarrow> (\<forall>ow. length (active_of ow cs) \<le> 1)"
proof (induction cs)
  case (Cons c cs)
  have "owner c \<notin> owner ` set (filter chosen cs) \<longleftrightarrow> active_of (owner c) cs = []"
    unfolding active_of_def filter_empty_conv by (auto simp: image_iff)
  then show ?case using Cons.IH by (auto simp: at_most_one_def active_of_def le_Suc_eq)
qed (simp_all add: at_most_one_def active_of_def)

lemma active_of_clear:
  assumes "\<And>c. P c \<Longrightarrow> owner c = ow" "\<And>c. owner c = ow \<Longrightarrow> chosen c \<Longrightarrow> P c"
  shows "active_of x (update_where P (mark False) cs) = (if x = ow then [] else active_of x cs)"
  by (induction cs) (use assms in \<open>auto simp: active_of_def chosen_mark owner_mark\<close>)

lemma active_of_mark:
  assumes "distinct (map key cs)" "c0 \<in> set cs" "key c0 = i" "active_of (owner c0) cs = []"
  shows "active_of x (update_where (\<lambda>c. key c = i) (mark True) cs)
    = (if x = owner c0 then [mark True c0] else active_of x cs)"
  using assms
proof (induction cs)
  case (Cons c cs)
  show ?case
  proof (cases "c = c0")
    case True
    then have "key c' \<noteq> i" if "c' \<in> set cs" for c' using Cons.prems(1,3) that by (auto simp: image_iff)
    then have "update_where (\<lambda>c. key c = i) (mark True) cs = cs"
      unfolding update_where_def by (intro map_idI) auto
    then show ?thesis using Cons.prems True by (auto simp: active_of_def chosen_mark owner_mark split: if_splits)
  next
    case False
    then have "c0 \<in> set cs" "key c \<noteq> i" using Cons.prems(1-3) by auto
    then show ?thesis using Cons.IH Cons.prems by (auto simp: active_of_def split: if_splits)
  qed
qed simp

lemma active_of_remove:
  assumes "distinct (map key cs)" "c0 \<in> set cs" "key c0 = i" "at_most_one cs"
  shows "active_of x (filter (\<lambda>c. key c \<noteq> i) cs) = (if chosen c0 \<and> x = owner c0 then [] else active_of x cs)"
proof -
  have c0: "key c = i \<longleftrightarrow> c = c0" if "c \<in> set cs" for c
    using assms(1-3) that by (metis distinct_map inj_onD)
  have eq: "active_of x (filter (\<lambda>c. key c \<noteq> i) cs) = filter (\<lambda>c. c \<noteq> c0) (active_of x cs)"
    using c0 by (auto simp: active_of_def intro: filter_cong)
  show ?thesis
  proof (cases "chosen c0 \<and> x = owner c0")
    case True
    then have "c0 \<in> set (active_of x cs)" using assms(2) by (simp add: active_of_def)
    moreover have "length (active_of x cs) \<le> 1" using assms(4) by (simp add: at_most_one_iff)
    ultimately have "active_of x cs = [c0]" by (cases "active_of x cs") auto
    then show ?thesis using True eq by simp
  next
    case False
    then have "filter (\<lambda>c. c \<noteq> c0) (active_of x cs) = active_of x cs"
      by (auto simp: active_of_def intro!: filter_cong)
    then show ?thesis using False eq by auto
  qed
qed

lemma switch:
  assumes "distinct (map key cs)" "c0 \<in> set cs" "key c0 = i" "owner c0 = ow"
    and P: "\<And>c. P c \<Longrightarrow> owner c = ow" "\<And>c. owner c = ow \<Longrightarrow> chosen c \<Longrightarrow> P c"
  shows "active_of x (update_where (\<lambda>c. key c = i) (mark True) (update_where P (mark False) cs))
    = (if x = ow then [mark True c0] else active_of x cs)"
proof -
  let ?cs = "update_where P (mark False) cs" and ?c = "if P c0 then mark False c0 else c0"
  have "map key ?cs = map key cs" by (intro map_update_where_eq) (simp add: key_mark)
  moreover have "?c \<in> set ?cs" using assms(2) by (auto simp: set_update_where)
  moreover have "key ?c = i" "owner ?c = ow" "mark True ?c = mark True c0"
    using assms(3,4) by (auto simp: key_mark owner_mark mark_mark)
  moreover have "active_of y ?cs = (if y = ow then [] else active_of y cs)" for y using P by (intro active_of_clear) auto
  ultimately show ?thesis using active_of_mark [of ?cs ?c i x] assms(1) by auto
qed

end

subsection \<open>Provider credentials\<close>

record credential =
  cr_id :: nat
  cr_provider :: string
  cr_name :: string
  cr_api_key :: "string option"
  cr_credentials_path :: "string option"
  cr_base_url :: "string option"
  cr_access_key :: "string option"
  cr_secret_key :: "string option"
  cr_is_active :: bool
  cr_created_at :: nat

record cred_table =
  creds :: "credential list"
  cred_next_id :: nat

text \<open>The unique partial index \<open>uq_provider_credential_one_active\<close>.\<close>

definition cred_index :: "credential list \<Rightarrow> bool" where
  "cred_index cs \<longleftrightarrow> distinct (map cr_provider (filter cr_is_active cs))"

definition normalize_base_url :: "string option \<Rightarrow> string option" where
  "normalize_base_url url =
     (case url of None \<Rightarrow> None
      | Some u \<Rightarrow> (let s = strip u in
          if u = [] \<or> s = [] then None else if last s = CHR ''/'' then Some s else Some (s @ ''/'')))"

definition one_or_none :: "'a list \<Rightarrow> 'a option res" where
  "one_or_none xs = (case xs of [] \<Rightarrow> Inr None | [x] \<Rightarrow> Inr (Some x) | _ \<Rightarrow> Inl MultipleResultsFound)"

definition cred_get_by_id :: "nat \<Rightarrow> cred_table \<Rightarrow> credential option" where
  "cred_get_by_id i s = find (\<lambda>c. cr_id c = i) (creds s)"

definition cred_list_by_provider :: "string \<Rightarrow> cred_table \<Rightarrow> credential list" where
  "cred_list_by_provider p s = sort_key cr_created_at (filter (\<lambda>c. cr_provider c = p) (creds s))"

definition cred_get_active :: "string \<Rightarrow> cred_table \<Rightarrow> credential option res" where
  "cred_get_active p s = one_or_none (filter (\<lambda>c. cr_provider c = p \<and> cr_is_active c) (creds s))"

definition has_active_credential :: "string \<Rightarrow> cred_table \<Rightarrow> bool res" where
  "has_active_credential p s = bind_res (cred_get_active p s) (\<lambda>c. Inr (c \<noteq> None))"

definition get_active_credentials_bulk :: "cred_table \<Rightarrow> (string \<times> credential) list" where
  "get_active_credentials_bulk s = fold (\<lambda>c d. dict_put (cr_provider c) c d) (filter cr_is_active (creds s)) []"

text \<open>\<open>new\<close> holds the new row's own columns; key, mark and time come from the database.\<close>

definition cred_create :: "nat \<Rightarrow> credential \<Rightarrow> cred_table \<Rightarrow> cred_table \<times> credential res" where
  "cred_create now new s =
     (case has_active_credential (cr_provider new) s of Inl e \<Rightarrow> (s, Inl e)
      | Inr has \<Rightarrow>
          let c = new\<lparr>cr_id := cred_next_id s, cr_base_url := normalize_base_url (cr_base_url new),
                cr_is_active := \<not> has, cr_created_at := now\<rparr>
          in if cred_index (creds s @ [c])
             then (s\<lparr>creds := creds s @ [c], cred_next_id := Suc (cred_next_id s)\<rparr>, Inr c)
             else (s, Inl IntegrityError))"

text \<open>Both UPDATEs run in one transaction; the index is checked on each.\<close>

definition cred_mark :: "bool \<Rightarrow> credential \<Rightarrow> credential" where
  "cred_mark b c = c\<lparr>cr_is_active := b\<rparr>"

definition cred_activate :: "nat \<Rightarrow> string \<Rightarrow> cred_table \<Rightarrow> cred_table \<times> unit res" where
  "cred_activate i p s =
     (let cleared = update_where (\<lambda>c. cr_provider c = p) (cred_mark False) (creds s);
          cs = update_where (\<lambda>c. cr_id c = i) (cred_mark True) cleared
      in if cred_index cs then (s\<lparr>creds := cs\<rparr>, Inr ()) else (s, Inl IntegrityError))"

datatype 'a setting = Unset | SetTo 'a

record cred_changes =
  ch_name :: "string option"
  ch_api_key :: "string option setting"
  ch_credentials_path :: "string option"
  ch_base_url :: "string option setting"
  ch_access_key :: "string option setting"
  ch_secret_key :: "string option setting"

definition setting_or :: "'a setting \<Rightarrow> 'a \<Rightarrow> 'a" where
  "setting_or x d = (case x of Unset \<Rightarrow> d | SetTo v \<Rightarrow> v)"

definition cred_apply :: "cred_changes \<Rightarrow> credential \<Rightarrow> credential" where
  "cred_apply ch c =
     c\<lparr>cr_name := coalesce (ch_name ch) (cr_name c),
       cr_api_key := setting_or (ch_api_key ch) (cr_api_key c),
       cr_credentials_path := (case ch_credentials_path ch of None \<Rightarrow> cr_credentials_path c | Some p \<Rightarrow> Some p),
       cr_base_url := (case ch_base_url ch of Unset \<Rightarrow> cr_base_url c | SetTo u \<Rightarrow> normalize_base_url u),
       cr_access_key := setting_or (ch_access_key ch) (cr_access_key c),
       cr_secret_key := setting_or (ch_secret_key ch) (cr_secret_key c)\<rparr>"

definition cred_update :: "nat \<Rightarrow> cred_changes \<Rightarrow> cred_table \<Rightarrow> cred_table" where
  "cred_update i ch s =
     (case cred_get_by_id i s of None \<Rightarrow> s
      | Some c \<Rightarrow> s\<lparr>creds := update_where (\<lambda>d. cr_id d = i) (cred_apply ch) (creds s)\<rparr>)"

definition cred_delete :: "nat \<Rightarrow> cred_table \<Rightarrow> cred_table" where
  "cred_delete i s =
     (case cred_get_by_id i s of None \<Rightarrow> s
      | Some c \<Rightarrow>
          let rest = filter (\<lambda>d. cr_id d \<noteq> i) (creds s); s' = s\<lparr>creds := rest\<rparr> in
          if cr_is_active c
          then (case cred_list_by_provider (cr_provider c) s' of [] \<Rightarrow> s'
            | n # _ \<Rightarrow> s\<lparr>creds := update_where (\<lambda>d. cr_id d = cr_id n) (cred_mark True) rest\<rparr>)
          else s')"

text \<open>The handlers first check that the credential belongs to the provider of the URL.\<close>

definition get_credential_or_404 :: "string \<Rightarrow> nat \<Rightarrow> cred_table \<Rightarrow> credential option" where
  "get_credential_or_404 p i s =
     (case cred_get_by_id i s of None \<Rightarrow> None | Some c \<Rightarrow> if cr_provider c \<noteq> p then None else Some c)"

definition activate_credential :: "string \<Rightarrow> nat \<Rightarrow> cred_table \<Rightarrow> cred_table \<times> unit res" where
  "activate_credential p i s =
     (case get_credential_or_404 p i s of None \<Rightarrow> (s, Inl (ValueError ''credentials_not_found''))
      | Some c \<Rightarrow> cred_activate i p s)"

definition delete_credential :: "string \<Rightarrow> nat \<Rightarrow> cred_table \<Rightarrow> cred_table \<times> unit res" where
  "delete_credential p i s =
     (case get_credential_or_404 p i s of None \<Rightarrow> (s, Inl (ValueError ''credentials_not_found''))
      | Some c \<Rightarrow> (cred_delete i s, Inr ()))"

subsection \<open>Agent credentials\<close>

record agent_cred =
  ag_id :: nat
  ag_user_id :: string
  ag_preset_id :: string
  ag_display_name :: string
  ag_base_url :: string
  ag_api_key :: string
  ag_model :: "string option"
  ag_haiku_model :: "string option"
  ag_sonnet_model :: "string option"
  ag_opus_model :: "string option"
  ag_subagent_model :: "string option"
  ag_is_active :: bool

record agent_table =
  agents :: "agent_cred list"
  agent_next_id :: nat

definition agent_index :: "agent_cred list \<Rightarrow> bool" where
  "agent_index cs \<longleftrightarrow> distinct (map ag_user_id (filter ag_is_active cs))"

definition agent_create :: "agent_cred \<Rightarrow> agent_table \<Rightarrow> agent_table \<times> agent_cred" where
  "agent_create new s =
     (let c = new\<lparr>ag_id := agent_next_id s, ag_is_active := False\<rparr> in
      (s\<lparr>agents := agents s @ [c], agent_next_id := Suc (agent_next_id s)\<rparr>, c))"

definition agent_get :: "nat \<Rightarrow> agent_table \<Rightarrow> agent_cred option" where
  "agent_get i s = find (\<lambda>c. ag_id c = i) (agents s)"

definition agent_list_for_user :: "string \<Rightarrow> agent_table \<Rightarrow> agent_cred list" where
  "agent_list_for_user u s = sort_key ag_id (filter (\<lambda>c. ag_user_id c = u) (agents s))"

definition agent_get_active :: "string \<Rightarrow> agent_table \<Rightarrow> agent_cred option res" where
  "agent_get_active u s = one_or_none (filter (\<lambda>c. ag_user_id c = u \<and> ag_is_active c) (agents s))"

text \<open>The fields a PATCH request may carry.\<close>

datatype agent_field =
    DisplayName string | BaseUrl string | ApiKey string | Model "string option" | HaikuModel "string option"
  | SonnetModel "string option" | OpusModel "string option" | SubagentModel "string option"

definition agent_setattr :: "agent_field \<Rightarrow> agent_cred \<Rightarrow> agent_cred" where
  "agent_setattr f c =
     (case f of DisplayName v \<Rightarrow> c\<lparr>ag_display_name := v\<rparr> | BaseUrl v \<Rightarrow> c\<lparr>ag_base_url := v\<rparr> | ApiKey v \<Rightarrow> c\<lparr>ag_api_key := v\<rparr>
      | Model v \<Rightarrow> c\<lparr>ag_model := v\<rparr> | HaikuModel v \<Rightarrow> c\<lparr>ag_haiku_model := v\<rparr> | SonnetModel v \<Rightarrow> c\<lparr>ag_sonnet_model := v\<rparr>
      | OpusModel v \<Rightarrow> c\<lparr>ag_opus_model := v\<rparr> | SubagentModel v \<Rightarrow> c\<lparr>ag_subagent_model := v\<rparr>)"

definition agent_update :: "nat \<Rightarrow> agent_field list \<Rightarrow> agent_table \<Rightarrow> agent_table \<times> agent_cred option" where
  "agent_update i fs s =
     (case agent_get i s of None \<Rightarrow> (s, None)
      | Some c \<Rightarrow> let s' = s\<lparr>agents := update_where (\<lambda>c. ag_id c = i) (fold agent_setattr fs) (agents s)\<rparr> in (s', agent_get i s'))"

definition agent_mark :: "bool \<Rightarrow> agent_cred \<Rightarrow> agent_cred" where
  "agent_mark b c = c\<lparr>ag_is_active := b\<rparr>"

definition agent_set_active :: "nat \<Rightarrow> string \<Rightarrow> agent_table \<Rightarrow> agent_table \<times> unit res" where
  "agent_set_active i u s =
     (case agent_get i s of None \<Rightarrow> (s, Inl (ValueError ''credential not found''))
      | Some c \<Rightarrow>
          if ag_user_id c \<noteq> u then (s, Inl (ValueError ''credential not found''))
          else let cleared = update_where (\<lambda>d. ag_user_id d = u \<and> ag_is_active d) (agent_mark False) (agents s);
                   cs = update_where (\<lambda>d. ag_id d = i) (agent_mark True) cleared
               in if agent_index cs then (s\<lparr>agents := cs\<rparr>, Inr ()) else (s, Inl IntegrityError))"

definition agent_delete :: "nat \<Rightarrow> agent_table \<Rightarrow> agent_table \<times> bool res" where
  "agent_delete i s =
     (case agent_get i s of None \<Rightarrow> (s, Inr False)
      | Some c \<Rightarrow>
          if ag_is_active c then (s, Inl (ValueError ''cannot delete active credential''))
          else (s\<lparr>agents := filter (\<lambda>d. ag_id d \<noteq> i) (agents s)\<rparr>, Inr True))"

definition DEFAULT_USER_ID :: string where "DEFAULT_USER_ID = ''default''"

text \<open>The POST handler: activate on request, or when nothing is active and nothing was said.
  A raising step rolls the whole request back.\<close>

definition create_agent_credential :: "bool option \<Rightarrow> agent_cred \<Rightarrow> agent_table \<Rightarrow> agent_table \<times> unit res" where
  "create_agent_credential activate new s =
     (let (s1, c) = agent_create (new\<lparr>ag_user_id := DEFAULT_USER_ID\<rparr>) s in
      case (case activate of Some b \<Rightarrow> Inr b
            | None \<Rightarrow> bind_res (agent_get_active DEFAULT_USER_ID s1) (\<lambda>a. Inr (a = None))) of
        Inl e \<Rightarrow> (s, Inl e)
      | Inr False \<Rightarrow> (s1, Inr ())
      | Inr True \<Rightarrow> (case agent_set_active (ag_id c) DEFAULT_USER_ID s1 of
            (s2, Inr u) \<Rightarrow> (s2, Inr u) | (s2, Inl e) \<Rightarrow> (s, Inl e)))"

subsection \<open>The two tables share the contract\<close>

interpretation cred: exclusive_rows cr_id cr_provider cr_is_active cred_mark
  by unfold_locales (simp_all add: cred_mark_def)

interpretation agent: exclusive_rows ag_id ag_user_id ag_is_active agent_mark
  by unfold_locales (simp_all add: agent_mark_def)

lemma one_or_none_length:
  "one_or_none xs = Inr None \<longleftrightarrow> xs = []"
  "one_or_none xs = Inr (Some x) \<longleftrightarrow> xs = [x]"
  "length xs \<le> 1 \<Longrightarrow> one_or_none xs = Inr (if xs = [] then None else Some (hd xs))"
  by (auto simp: one_or_none_def split: list.splits)

lemma find_key:
  assumes "distinct (map k xs)"
  shows "find (\<lambda>x. k x = i) xs = Some x \<longleftrightarrow> x \<in> set xs \<and> k x = i"
  using assms by (induction xs) (auto simp: image_iff)

subsection \<open>Provider credentials: one active credential each\<close>

definition has_rows :: "string \<Rightarrow> credential list \<Rightarrow> bool" where
  "has_rows p cs \<longleftrightarrow> (\<exists>c \<in> set cs. cr_provider c = p)"

lemma has_rows_map: "has_rows p cs \<longleftrightarrow> p \<in> set (map cr_provider cs)"
  by (auto simp: has_rows_def)

definition cred_inv :: "cred_table \<Rightarrow> bool" where
  "cred_inv s \<longleftrightarrow> distinct (map cr_id (creds s)) \<and> (\<forall>c \<in> set (creds s). cr_id c < cred_next_id s)
     \<and> (\<forall>p. length (cred.active_of p (creds s)) = (if has_rows p (creds s) then 1 else 0))"

lemma has_rows_update: "(\<And>c. cr_provider (f c) = cr_provider c) \<Longrightarrow> has_rows p (update_where P f cs) = has_rows p cs"
  using map_update_where_eq [of P cr_provider f cs] by (metis has_rows_map)

lemma cred_inv_index: "cred_inv s \<Longrightarrow> cred.at_most_one (creds s)"
  by (auto simp: cred_inv_def cred.at_most_one_iff)

lemma cred_index_iff: "cred_index cs \<longleftrightarrow> cred.at_most_one cs"
  by (simp add: cred_index_def cred.at_most_one_def)

lemma cred_get_active_inv:
  assumes "cred_inv s"
  shows "cred_get_active p s = Inr (if has_rows p (creds s) then Some (hd (cred.active_of p (creds s))) else None)"
proof -
  have "length (cred.active_of p (creds s)) = (if has_rows p (creds s) then 1 else 0)"
    using assms by (simp add: cred_inv_def)
  then show ?thesis
    by (auto simp: cred_get_active_def cred.active_of_def one_or_none_def length_Suc_conv split: if_splits)
qed

lemma cred_create_inv:
  assumes "cred_inv s"
  shows "cred_inv (fst (cred_create now new s)) \<and> (\<exists>c. snd (cred_create now new s) = Inr c)"
proof -
  let ?p = "cr_provider new"
  define c where "c = new\<lparr>cr_id := cred_next_id s, cr_base_url := normalize_base_url (cr_base_url new),
    cr_is_active := \<not> has_rows ?p (creds s), cr_created_at := now\<rparr>"
  have h: "has_active_credential ?p s = Inr (has_rows ?p (creds s))"
    by (simp add: has_active_credential_def cred_get_active_inv [OF assms])
  have a: "cred.active_of p (creds s @ [c]) = cred.active_of p (creds s) @ (if p = ?p \<and> \<not> has_rows ?p (creds s) then [c] else [])" for p
    by (auto simp: cred.active_of_def c_def)
  have l: "length (cred.active_of p (creds s @ [c])) = (if has_rows p (creds s @ [c]) then 1 else 0)" for p
    using assms unfolding a by (auto simp: cred_inv_def has_rows_def c_def)
  have "cred_index (creds s @ [c])" unfolding cred_index_iff cred.at_most_one_iff using l by simp
  moreover have "distinct (map cr_id (creds s @ [c]))" "\<forall>d \<in> set (creds s @ [c]). cr_id d < Suc (cred_next_id s)"
    using assms by (auto simp: cred_inv_def c_def)
  ultimately show ?thesis using l by (simp add: cred_create_def h Let_def cred_inv_def flip: c_def)
qed

lemma cred_update_inv:
  assumes "cred_inv s"
  shows "cred_inv (cred_update i ch s)"
proof -
  have keep: "cr_id (cred_apply ch c) = cr_id c" "cr_provider (cred_apply ch c) = cr_provider c"
    "cr_is_active (cred_apply ch c) = cr_is_active c" for c by (simp_all add: cred_apply_def)
  have ids: "map cr_id (update_where P (cred_apply ch) cs) = map cr_id cs" for P cs
    by (intro map_update_where_eq) (simp add: keep)
  have "length (cred.active_of p (update_where P (cred_apply ch) cs)) = length (cred.active_of p cs)" for p P cs
    by (induction cs) (auto simp: cred.active_of_def keep)
  moreover have "has_rows p (update_where P (cred_apply ch) cs) = has_rows p cs" for p P cs
    by (rule has_rows_update) (simp add: keep)
  moreover have "\<forall>c \<in> set (update_where P (cred_apply ch) (creds s)). cr_id c < cred_next_id s" for P
    using assms by (auto simp: cred_inv_def set_update_where keep)
  ultimately show ?thesis
    using assms ids by (simp add: cred_update_def cred_inv_def del: length_0_conv split: option.split)
qed

lemma cred_mark_rows:
  "map cr_id (update_where P (cred_mark b) cs) = map cr_id cs"
  "has_rows p (update_where P (cred_mark b) cs) = has_rows p cs"
  by (simp_all add: map_update_where_eq has_rows_update cred_mark_def)

lemma cred_mark_bound:
  "(\<forall>c \<in> set cs. cr_id c < n) \<Longrightarrow> \<forall>c \<in> set (update_where P (cred_mark b) cs). cr_id c < n"
  by (auto simp: set_update_where cred_mark_def)

lemma cred_activate_own:
  assumes "cred_inv s" "c \<in> set (creds s)"
  shows "cred_inv (fst (cred_activate (cr_id c) (cr_provider c) s)) \<and> snd (cred_activate (cr_id c) (cr_provider c) s) = Inr ()
    \<and> cred_get_active (cr_provider c) (fst (cred_activate (cr_id c) (cr_provider c) s)) = Inr (Some (cred_mark True c))
    \<and> (\<forall>p. p \<noteq> cr_provider c \<longrightarrow> cred_get_active p (fst (cred_activate (cr_id c) (cr_provider c) s)) = cred_get_active p s)"
proof -
  let ?cs = "update_where (\<lambda>d. cr_id d = cr_id c) (cred_mark True)
    (update_where (\<lambda>d. cr_provider d = cr_provider c) (cred_mark False) (creds s))"
  have inv: "distinct (map cr_id (creds s))" "\<forall>d \<in> set (creds s). cr_id d < cred_next_id s"
    "\<And>p. length (cred.active_of p (creds s)) = (if has_rows p (creds s) then 1 else 0)" using assms(1) by (auto simp: cred_inv_def)
  have a: "cred.active_of p ?cs = (if p = cr_provider c then [cred_mark True c] else cred.active_of p (creds s))" for p
    by (rule cred.switch [OF inv(1) assms(2)]) auto
  have "has_rows (cr_provider c) (creds s)" using assms(2) by (auto simp: has_rows_def)
  then have l: "length (cred.active_of p ?cs) = (if has_rows p ?cs then 1 else 0)" for p
    using inv(3) [of p] by (auto simp: a cred_mark_rows)
  then have "cred_index ?cs" unfolding cred_index_iff cred.at_most_one_iff by simp
  then have act: "cred_activate (cr_id c) (cr_provider c) s = (s\<lparr>creds := ?cs\<rparr>, Inr ())" by (simp add: cred_activate_def Let_def)
  moreover have "cred_inv (s\<lparr>creds := ?cs\<rparr>)"
    using l inv(1,2) by (simp add: cred_inv_def cred_mark_rows) (intro cred_mark_bound)
  moreover have "cred_get_active p (s\<lparr>creds := cs\<rparr>) = one_or_none (cred.active_of p cs)" for p cs
    by (simp add: cred_get_active_def cred.active_of_def)
  moreover have "cred_get_active p s = one_or_none (cred.active_of p (creds s))" for p
    by (simp add: cred_get_active_def cred.active_of_def)
  ultimately show ?thesis using a by (simp add: one_or_none_def)
qed

lemma cred_delete_inv:
  assumes "cred_inv s"
  shows "cred_inv (cred_delete i s)"
proof (cases "cred_get_by_id i s")
  case None
  then show ?thesis using assms by (simp add: cred_delete_def)
next
  case (Some c)
  let ?rest = "filter (\<lambda>d. cr_id d \<noteq> i) (creds s)"
  let ?s = "s\<lparr>creds := ?rest\<rparr>"
  have inv: "distinct (map cr_id (creds s))" "\<forall>d \<in> set (creds s). cr_id d < cred_next_id s"
    "\<And>p. length (cred.active_of p (creds s)) = (if has_rows p (creds s) then 1 else 0)" using assms by (auto simp: cred_inv_def)
  have c: "c \<in> set (creds s)" "cr_id c = i" using Some find_key [OF inv(1)] by (auto simp: cred_get_by_id_def)
  have rest: "distinct (map cr_id ?rest)" "\<forall>d \<in> set ?rest. cr_id d < cred_next_id s"
    using inv(1,2) by (auto simp: distinct_map inj_on_def)
  have a: "cred.active_of p ?rest = (if cr_is_active c \<and> p = cr_provider c then [] else cred.active_of p (creds s))" for p
    using cred.active_of_remove [OF inv(1) c cred_inv_index [OF assms]] .
  have other: "has_rows p ?rest = has_rows p (creds s)" if "p \<noteq> cr_provider c" for p
  proof -
    have "d = c" if "d \<in> set (creds s)" "cr_id d = i" for d using inv(1) c that by (metis distinct_map inj_onD)
    then show ?thesis using that by (auto simp: has_rows_def)
  qed
  show ?thesis
  proof (cases "cr_is_active c")
    case False
    obtain d where d: "cred.active_of (cr_provider c) (creds s) = [d]"
      using inv(3) [of "cr_provider c"] c(1) by (auto simp: has_rows_def length_Suc_conv split: if_splits)
    then have "d \<in> set (cred.active_of (cr_provider c) (creds s))" by simp
    then have "d \<in> set (creds s)" "cr_provider d = cr_provider c" "cr_is_active d" by (auto simp: cred.active_of_def)
    then have "has_rows (cr_provider c) ?rest" using False c inv(1)
      by (auto simp: has_rows_def) (metis distinct_map inj_onD)
    then have "has_rows p ?rest = has_rows p (creds s)" for p using other c(1) by (cases "p = cr_provider c") (auto simp: has_rows_def)
    then have "cred_inv ?s" using rest inv(3) a False by (simp add: cred_inv_def)
    then show ?thesis using False Some by (simp add: cred_delete_def Let_def)
  next
    case True
    show ?thesis
    proof (cases "cred_list_by_provider (cr_provider c) ?s")
      case Nil
      then have "sort_key cr_created_at (filter (\<lambda>d. cr_provider d = cr_provider c) ?rest) = []"
        by (simp add: cred_list_by_provider_def)
      then have "set (filter (\<lambda>d. cr_provider d = cr_provider c) ?rest) = {}" by (metis set_empty set_sort)
      then have "\<not> has_rows (cr_provider c) ?rest" by (auto simp: has_rows_def)
      then have "cred_inv ?s" using rest inv(3) a True other by (simp add: cred_inv_def del: length_0_conv)
      then show ?thesis using True Some Nil by (simp add: cred_delete_def Let_def)
    next
      case (Cons n ns)
      let ?cs = "update_where (\<lambda>d. cr_id d = cr_id n) (cred_mark True) ?rest"
      have "n \<in> set (cred_list_by_provider (cr_provider c) ?s)" using Cons by simp
      then have n: "n \<in> set ?rest" "cr_provider n = cr_provider c" by (auto simp: cred_list_by_provider_def)
      have "cred.active_of (cr_provider n) ?rest = []" using a True n(2) by simp
      from cred.active_of_mark [OF rest(1) n(1) refl this]
      have a': "cred.active_of p ?cs = (if p = cr_provider c then [cred_mark True n] else cred.active_of p (creds s))" for p
        using a n(2) by auto
      have "has_rows (cr_provider c) ?rest" using n by (auto simp: has_rows_def)
      then have "length (cred.active_of p ?cs) = (if has_rows p ?cs then 1 else 0)" for p
        using inv(3) [of p] other [of p] by (auto simp: a' cred_mark_rows)
      then have "cred_inv (s\<lparr>creds := ?cs\<rparr>)" using rest by (simp add: cred_inv_def cred_mark_rows) (rule cred_mark_bound, simp)
      then show ?thesis using True Some Cons by (simp add: cred_delete_def Let_def)
    qed
  qed
qed

text \<open>The requests the server serves on the table, in any order.\<close>

inductive cred_reachable :: "cred_table \<Rightarrow> bool" where
  empty: "cred_reachable \<lparr>creds = [], cred_next_id = n\<rparr>"
| create: "cred_reachable s \<Longrightarrow> cred_reachable (fst (cred_create now new s))"
| update: "cred_reachable s \<Longrightarrow> cred_reachable (cred_update i ch s)"
| activate: "cred_reachable s \<Longrightarrow> cred_reachable (fst (activate_credential p i s))"
| delete: "cred_reachable s \<Longrightarrow> cred_reachable (fst (delete_credential p i s))"

lemma get_credential_or_404_Some:
  assumes "cred_inv s" "get_credential_or_404 p i s = Some c"
  shows "c \<in> set (creds s)" "cr_id c = i" "cr_provider c = p"
  using assms find_key [of cr_id "creds s" i c]
  by (auto simp: get_credential_or_404_def cred_get_by_id_def cred_inv_def split: option.splits if_splits)

lemma cred_reachable_inv: "cred_reachable s \<Longrightarrow> cred_inv s"
proof (induction rule: cred_reachable.induct)
  case (activate s p i)
  then show ?case
  proof (cases "get_credential_or_404 p i s")
    case (Some c)
    note c = get_credential_or_404_Some [OF activate.IH Some]
    show ?thesis using cred_activate_own [OF activate.IH c(1)] Some unfolding c(2,3) by (simp add: activate_credential_def)
  qed (simp add: activate_credential_def)
next
  case (delete s p i)
  then show ?case using cred_delete_inv by (auto simp: delete_credential_def split: option.split)
qed (simp_all add: cred_create_inv cred_update_inv, simp add: cred_inv_def cred.active_of_def has_rows_def)

text \<open>
  (C15) After any sequence of requests (create, edit, activate, delete), every provider that
  has a credential has exactly one active credential, so \<open>get_active\<close> returns it and never
  raises; a provider without credentials has none. Activating a provider's credential makes
  that one active and leaves every other provider alone, and a create never fails.
\<close>

theorem provider_credentials_exclusive:
  assumes "cred_reachable s"
  shows "(\<forall>p. if (\<exists>c \<in> set (creds s). cr_provider c = p)
        then \<exists>c \<in> set (creds s). cr_provider c = p \<and> cr_is_active c \<and> cred_get_active p s = Inr (Some c)
          \<and> (\<forall>d \<in> set (creds s). cr_provider d = p \<and> cr_is_active d \<longrightarrow> d = c)
        else cred_get_active p s = Inr None)
    \<and> (\<forall>c \<in> set (creds s). snd (activate_credential (cr_provider c) (cr_id c) s) = Inr ()
        \<and> cred_get_active (cr_provider c) (fst (activate_credential (cr_provider c) (cr_id c) s)) = Inr (Some (cred_mark True c))
        \<and> (\<forall>p. p \<noteq> cr_provider c \<longrightarrow>
            cred_get_active p (fst (activate_credential (cr_provider c) (cr_id c) s)) = cred_get_active p s))
    \<and> (\<forall>now new. \<exists>c. snd (cred_create now new s) = Inr c)"
proof -
  have inv: "cred_inv s" using assms by (rule cred_reachable_inv)
  have "\<exists>c \<in> set (creds s). cr_provider c = p \<and> cr_is_active c \<and> cred_get_active p s = Inr (Some c)
      \<and> (\<forall>d \<in> set (creds s). cr_provider d = p \<and> cr_is_active d \<longrightarrow> d = c)" if "has_rows p (creds s)" for p
  proof -
    have "length (cred.active_of p (creds s)) = Suc 0" using inv that by (simp add: cred_inv_def)
    then obtain c where c: "cred.active_of p (creds s) = [c]" by (auto simp: length_Suc_conv)
    then have "set (cred.active_of p (creds s)) = {c}" by simp
    then have "d \<in> set (creds s) \<and> cr_provider d = p \<and> cr_is_active d \<longleftrightarrow> d = c" for d by (auto simp: cred.active_of_def)
    then show ?thesis using cred_get_active_inv [OF inv, of p] that c by (intro bexI [of _ c]) auto
  qed
  moreover have "cred_get_active p s = Inr None" if "\<not> has_rows p (creds s)" for p
    using cred_get_active_inv [OF inv] that by simp
  moreover have "activate_credential (cr_provider c) (cr_id c) s = cred_activate (cr_id c) (cr_provider c) s" if "c \<in> set (creds s)" for c
    using inv that find_key [of cr_id "creds s" "cr_id c" c]
    by (simp add: activate_credential_def get_credential_or_404_def cred_get_by_id_def cred_inv_def)
  ultimately show ?thesis using cred_activate_own [OF inv] cred_create_inv [OF inv] by (auto simp: has_rows_def)
qed

definition sample_cred :: "string \<Rightarrow> string \<Rightarrow> credential" where
  "sample_cred p nm = \<lparr>cr_id = 0, cr_provider = p, cr_name = nm, cr_api_key = Some ''k'', cr_credentials_path = None,
     cr_base_url = Some '' https://x '', cr_access_key = None, cr_secret_key = None, cr_is_active = False, cr_created_at = 0\<rparr>"

definition sample_creds :: cred_table where
  "sample_creds = fst (delete_credential ''ark'' 0 (fst (cred_create 2 (sample_cred ''ark'' ''b'')
     (fst (cred_create 1 (sample_cred ''ark'' ''a'') \<lparr>creds = [], cred_next_id = 0\<rparr>)))))"

theorem provider_credentials_exclusive_witness:
  "creds sample_creds \<noteq> [] \<and> (\<exists>c. cred_get_active ''ark'' sample_creds = Inr (Some c))"
proof -
  have r: "cred_reachable sample_creds" unfolding sample_creds_def by (intro cred_reachable.intros)
  have ne: "\<exists>c \<in> set (creds sample_creds). cr_provider c = ''ark''" by code_simp
  then show ?thesis using provider_credentials_exclusive [OF r] by (metis empty_iff list.set(1))
qed

subsection \<open>Agent credentials: the active one stays\<close>

definition agent_inv :: "agent_table \<Rightarrow> bool" where
  "agent_inv s \<longleftrightarrow> distinct (map ag_id (agents s)) \<and> (\<forall>c \<in> set (agents s). ag_id c < agent_next_id s)
     \<and> agent.at_most_one (agents s)"

lemma agent_get_active_eq: "agent_get_active u s = one_or_none (agent.active_of u (agents s))"
  by (simp add: agent_get_active_def agent.active_of_def)

lemma agent_inv_active:
  assumes "agent_inv s"
  shows "agent_get_active u s = Inr (if agent.active_of u (agents s) = [] then None else Some (hd (agent.active_of u (agents s))))"
  using assms by (simp add: agent_inv_def agent.at_most_one_iff agent_get_active_eq one_or_none_length(3))

lemma agent_get_Some:
  assumes "agent_inv s"
  shows "agent_get i s = Some c \<longleftrightarrow> c \<in> set (agents s) \<and> ag_id c = i"
  using assms find_key [of ag_id "agents s" i c] by (simp add: agent_inv_def agent_get_def)

text \<open>An operation that keeps the invariant and takes no user's active credential away.\<close>

definition keeps_active :: "agent_table \<Rightarrow> agent_table \<Rightarrow> bool" where
  "keeps_active s s' \<longleftrightarrow> agent_inv s' \<and> (\<forall>u. agent.active_of u (agents s) \<noteq> [] \<longrightarrow> agent.active_of u (agents s') \<noteq> [])"

lemma agent_create_keeps:
  assumes "agent_inv s"
  shows "keeps_active s (fst (agent_create new s))"
    and "agent_get (agent_next_id s) (fst (agent_create new s)) = Some (snd (agent_create new s))"
proof -
  let ?c = "new\<lparr>ag_id := agent_next_id s, ag_is_active := False\<rparr>"
  have "agent.active_of u (agents s @ [?c]) = agent.active_of u (agents s)" for u by (simp add: agent.active_of_def)
  moreover have "distinct (map ag_id (agents s @ [?c]))" "\<forall>c \<in> set (agents s @ [?c]). ag_id c < Suc (agent_next_id s)"
    using assms by (auto simp: agent_inv_def)
  ultimately show k: "keeps_active s (fst (agent_create new s))"
    using assms by (simp add: agent_create_def Let_def keeps_active_def agent_inv_def agent.at_most_one_iff)
  then have "agent_inv (fst (agent_create new s))" by (simp add: keeps_active_def)
  from agent_get_Some [OF this] show "agent_get (agent_next_id s) (fst (agent_create new s)) = Some (snd (agent_create new s))"
    by (simp add: agent_create_def Let_def)
qed

lemma agent_update_keeps:
  assumes "agent_inv s"
  shows "keeps_active s (fst (agent_update i fs s))"
proof -
  let ?f = "fold agent_setattr fs"
  have one: "ag_id (agent_setattr f c) = ag_id c" "ag_user_id (agent_setattr f c) = ag_user_id c"
    "ag_is_active (agent_setattr f c) = ag_is_active c" for f c by (simp_all add: agent_setattr_def split: agent_field.split)
  have keep: "ag_id (?f c) = ag_id c" "ag_user_id (?f c) = ag_user_id c" "ag_is_active (?f c) = ag_is_active c" for c
    by (induction fs arbitrary: c) (simp_all add: one)
  have ids: "map ag_id (update_where P ?f cs) = map ag_id cs" for P cs by (intro map_update_where_eq) (simp add: keep)
  have act: "length (agent.active_of u (update_where P ?f cs)) = length (agent.active_of u cs)" for u P cs
    by (induction cs) (auto simp: agent.active_of_def keep)
  then have ne: "agent.active_of u (update_where P ?f cs) \<noteq> [] \<longleftrightarrow> agent.active_of u cs \<noteq> []" for u P cs
    by (metis length_0_conv)
  have "\<forall>c \<in> set (update_where P ?f (agents s)). ag_id c < agent_next_id s" for P
    using assms by (auto simp: agent_inv_def set_update_where keep)
  then show ?thesis
    using assms ids act ne by (simp add: agent_update_def keeps_active_def agent_inv_def agent.at_most_one_iff Let_def split: option.split)
qed

lemma agent_delete_keeps:
  assumes "agent_inv s"
  shows "keeps_active s (fst (agent_delete i s))"
proof (cases "\<exists>c. agent_get i s = Some c \<and> \<not> ag_is_active c")
  case True
  then obtain c where c: "agent_get i s = Some c" "\<not> ag_is_active c" by blast
  let ?rest = "filter (\<lambda>d. ag_id d \<noteq> i) (agents s)"
  have inv: "distinct (map ag_id (agents s))" "agent.at_most_one (agents s)" using assms by (auto simp: agent_inv_def)
  have "c \<in> set (agents s)" "ag_id c = i" using c(1) agent_get_Some [OF assms] by auto
  from agent.active_of_remove [OF inv(1) this inv(2)] c(2)
  have "agent.active_of u ?rest = agent.active_of u (agents s)" for u by simp
  moreover have "distinct (map ag_id ?rest)" using inv(1) by (auto simp: distinct_map inj_on_def)
  ultimately show ?thesis using c assms
    by (simp add: agent_delete_def keeps_active_def agent_inv_def agent.at_most_one_iff)
next
  case False
  then show ?thesis using assms by (auto simp: agent_delete_def keeps_active_def split: option.split)
qed

lemma agent_set_active_own:
  assumes "agent_inv s" "agent_get i s = Some c" "ag_user_id c = u"
  shows "snd (agent_set_active i u s) = Inr () \<and> keeps_active s (fst (agent_set_active i u s))
    \<and> agent.active_of x (agents (fst (agent_set_active i u s))) = (if x = u then [agent_mark True c] else agent.active_of x (agents s))"
proof -
  let ?cl = "update_where (\<lambda>d. ag_user_id d = u \<and> ag_is_active d) (agent_mark False) (agents s)"
  let ?cs = "update_where (\<lambda>d. ag_id d = i) (agent_mark True) ?cl"
  have inv: "distinct (map ag_id (agents s))" "\<forall>c \<in> set (agents s). ag_id c < agent_next_id s" "agent.at_most_one (agents s)"
    using assms(1) by (auto simp: agent_inv_def)
  have c: "c \<in> set (agents s)" "ag_id c = i" using assms(2) agent_get_Some [OF assms(1)] by auto
  have a: "agent.active_of x ?cs = (if x = u then [agent_mark True c] else agent.active_of x (agents s))" for x
    by (rule agent.switch [OF inv(1) c assms(3)]) auto
  then have one: "agent.at_most_one ?cs" using inv(3) by (simp add: agent.at_most_one_iff)
  have ids: "map ag_id (update_where P (agent_mark b) cs) = map ag_id cs" for P b cs
    by (intro map_update_where_eq) (simp add: agent_mark_def)
  have "\<forall>d \<in> set ?cs. ag_id d < agent_next_id s" using inv(2) by (auto simp: set_update_where agent_mark_def)
  then have "agent_inv (s\<lparr>agents := ?cs\<rparr>)" using one inv(1) by (simp add: agent_inv_def ids)
  moreover have "agent_index ?cs" using one by (simp add: agent_index_def agent.at_most_one_def)
  ultimately show ?thesis using assms(2,3) a by (simp add: agent_set_active_def Let_def keeps_active_def)
qed

lemma agent_set_active_keeps: "agent_inv s \<Longrightarrow> keeps_active s (fst (agent_set_active i u s))"
  using agent_set_active_own
  by (cases "\<exists>c. agent_get i s = Some c \<and> ag_user_id c = u") (auto simp: agent_set_active_def keeps_active_def split: option.split)

lemma keeps_active_trans: "keeps_active s t \<Longrightarrow> keeps_active t u \<Longrightarrow> keeps_active s u"
  by (auto simp: keeps_active_def)

lemma create_agent_credential_keeps:
  assumes "agent_inv s"
  shows "keeps_active s (fst (create_agent_credential act new s)) \<and> snd (create_agent_credential act new s) = Inr ()
    \<and> (act \<noteq> Some False \<longrightarrow> agent.active_of DEFAULT_USER_ID (agents (fst (create_agent_credential act new s))) \<noteq> [])"
proof -
  let ?new = "new\<lparr>ag_user_id := DEFAULT_USER_ID\<rparr>"
  obtain s1 c where 1: "agent_create ?new s = (s1, c)" by force
  have k1: "keeps_active s s1" and g: "agent_get (ag_id c) s1 = Some c" and u: "ag_user_id c = DEFAULT_USER_ID"
    using agent_create_keeps [OF assms, of ?new] 1 by (auto simp: agent_create_def Let_def)
  have inv1: "agent_inv s1" using k1 by (simp add: keeps_active_def)
  note own = agent_set_active_own [OF inv1 g u, of DEFAULT_USER_ID]
  obtain s2 where 2: "agent_set_active (ag_id c) DEFAULT_USER_ID s1 = (s2, Inr ())" "keeps_active s1 s2"
    "agent.active_of DEFAULT_USER_ID (agents s2) \<noteq> []"
    using own by (cases "agent_set_active (ag_id c) DEFAULT_USER_ID s1") auto
  have k2: "keeps_active s s2" using keeps_active_trans [OF k1 2(2)] .
  define need where "need = (case act of Some b \<Rightarrow> b | None \<Rightarrow> agent.active_of DEFAULT_USER_ID (agents s1) = [])"
  have "(case act of Some b \<Rightarrow> Inr b | None \<Rightarrow> bind_res (agent_get_active DEFAULT_USER_ID s1) (\<lambda>a. Inr (a = None))) = Inr need"
    by (cases act) (simp_all add: need_def agent_inv_active [OF inv1])
  then have "create_agent_credential act new s = (if need then s2 else s1, Inr ())"
    by (cases need) (simp_all add: create_agent_credential_def 1 2(1))
  then show ?thesis using k1 k2 2(3) by (cases act) (auto simp: need_def)
qed

inductive agent_step :: "agent_table \<Rightarrow> agent_table \<Rightarrow> bool" where
  create: "agent_step s (fst (create_agent_credential act new s))"
| update: "agent_step s (fst (agent_update i fs s))"
| activate: "agent_step s (fst (agent_set_active i u s))"
| delete: "agent_step s (fst (agent_delete i s))"

lemma agent_step_keeps: "agent_step s s' \<Longrightarrow> agent_inv s \<Longrightarrow> keeps_active s s'"
  by (induction rule: agent_step.induct)
    (simp_all add: create_agent_credential_keeps agent_update_keeps agent_set_active_keeps agent_delete_keeps)

lemma agent_steps_keep:
  assumes "agent_step\<^sup>*\<^sup>* s s'" "agent_inv s"
  shows "keeps_active s s'"
  using assms
proof (induction rule: rtranclp_induct)
  case (step t u)
  then show ?case using agent_step_keeps keeps_active_trans by (metis keeps_active_def)
qed (simp add: keeps_active_def)

text \<open>
  The agent's credentials. From an empty table, after any sequence of requests
  \<open>get_active\<close> never raises, because at most one credential of a user is active; once a user
  has an active credential every later state has one, since the active credential cannot be
  deleted and a switch replaces it; and a credential created without \<open>activate = false\<close>
  leaves the user with an active one.
\<close>

theorem agent_credentials_exclusive:
  assumes "agent_step\<^sup>*\<^sup>* \<lparr>agents = [], agent_next_id = n\<rparr> s" "agent_step\<^sup>*\<^sup>* s s'"
  shows "(\<exists>c. agent_get_active u s = Inr c)
    \<and> (agent_get_active u s \<noteq> Inr None \<longrightarrow> (\<exists>c. agent_get_active u s' = Inr (Some c)))
    \<and> (act \<noteq> Some False \<longrightarrow> (\<exists>c. agent_get_active DEFAULT_USER_ID (fst (create_agent_credential act new s)) = Inr (Some c)))"
proof -
  have "agent_inv \<lparr>agents = [], agent_next_id = n\<rparr>" by (simp add: agent_inv_def agent.at_most_one_def)
  then have inv: "agent_inv s" using agent_steps_keep [OF assms(1)] by (simp add: keeps_active_def)
  have k: "keeps_active s s'" using agent_steps_keep [OF assms(2) inv] .
  note c = create_agent_credential_keeps [OF inv, of act new]
  show ?thesis
    using k c agent_inv_active [OF inv, of u] agent_inv_active [of s' u]
      agent_inv_active [of "fst (create_agent_credential act new s)" DEFAULT_USER_ID]
    by (auto simp: keeps_active_def split: if_splits)
qed

definition sample_agent :: agent_cred where
  "sample_agent = \<lparr>ag_id = 0, ag_user_id = ''default'', ag_preset_id = ''custom'', ag_display_name = ''a'', ag_base_url = ''u'',
     ag_api_key = ''k'', ag_model = None, ag_haiku_model = None, ag_sonnet_model = None, ag_opus_model = None,
     ag_subagent_model = None, ag_is_active = False\<rparr>"

theorem agent_credentials_exclusive_witness:
  "\<exists>c. agent_get_active DEFAULT_USER_ID (fst (agent_delete 0
    (fst (create_agent_credential None sample_agent \<lparr>agents = [], agent_next_id = 0\<rparr>)))) = Inr (Some c)"
proof -
  let ?s = "fst (create_agent_credential None sample_agent \<lparr>agents = [], agent_next_id = 0\<rparr>)"
  have "agent_step\<^sup>*\<^sup>* \<lparr>agents = [], agent_next_id = 0\<rparr> ?s" by (intro r_into_rtranclp agent_step.create)
  moreover have "agent_step\<^sup>*\<^sup>* ?s (fst (agent_delete 0 ?s))" by (intro r_into_rtranclp agent_step.delete)
  moreover have "agent_get_active DEFAULT_USER_ID ?s \<noteq> Inr None" by code_simp
  ultimately show ?thesis using agent_credentials_exclusive by blast
qed

end
