(* ===== verification/SseChannel.thy ===== *)
theory SseChannel
  imports Prelude "HOL-Library.Sublist"
begin

text \<open>
  The broadcast component behind the server's event streams (\<open>server/sse_channel.py\<close>): a set
  of subscriber queues, a bounded \<open>asyncio.Queue\<close> each, and one of two policies for a full
  queue. The locale \<open>overflow_policy\<close> is the contract between a policy and the channel:
  what a policy promises about one queue gives, for every subscriber of the channel, the same
  promise about the stream its consumer sees.

  A subscriber is the number of its queue; queues are kept after the subscriber is removed,
  because its consumer goes on reading. A \<open>get\<close> that times out is a read of an empty queue.
\<close>

subsection \<open>Bounded queues\<close>

datatype 'a item = Msg 'a | EndOfStream

text \<open>\<open>put_nowait\<close>: \<open>None\<close> is \<open>QueueFull\<close>; a size of zero or less is unbounded.\<close>

definition put_nowait :: "int \<Rightarrow> 'a list \<Rightarrow> 'a \<Rightarrow> 'a list option" where
  "put_nowait maxsize q x = (if 0 < maxsize \<and> maxsize \<le> int (length q) then None else Some (q @ [x]))"

fun put_back_all :: "int \<Rightarrow> 'a list \<Rightarrow> 'a list \<Rightarrow> 'a list" where
  "put_back_all maxsize q [] = q"
| "put_back_all maxsize q (x # xs) =
     (case put_nowait maxsize q x of None \<Rightarrow> q | Some q' \<Rightarrow> put_back_all maxsize q' xs)"

subsection \<open>Overflow policies\<close>

datatype 'a policy = EvictNonCriticalAndSignal "'a item \<Rightarrow> bool" | DropSubscriber

text \<open>The queue without its first non-critical message, in order.\<close>

fun drop_non_critical :: "('a \<Rightarrow> bool) \<Rightarrow> 'a list \<Rightarrow> 'a list" where
  "drop_non_critical crit [] = []"
| "drop_non_critical crit (x # xs) = (if crit x then x # drop_non_critical crit xs else xs)"

definition evict_one_non_critical :: "('a \<Rightarrow> bool) \<Rightarrow> int \<Rightarrow> 'a list \<Rightarrow> 'a list" where
  "evict_one_non_critical crit maxsize q = put_back_all maxsize [] (drop_non_critical crit q)"

definition deliver :: "'a policy \<Rightarrow> int \<Rightarrow> 'a item list \<Rightarrow> 'a \<Rightarrow> 'a item list \<times> bool" where
  "deliver pol maxsize q x =
     (case put_nowait maxsize q (Msg x) of
        Some q' \<Rightarrow> (q', True)
      | None \<Rightarrow>
          (case pol of
             DropSubscriber \<Rightarrow> (q, False)
           | EvictNonCriticalAndSignal crit \<Rightarrow>
               if \<not> crit (Msg x) then (q, True)
               else (let q1 = evict_one_non_critical crit maxsize q in
                     case put_nowait maxsize q1 (Msg x) of Some q' \<Rightarrow> (q', True) | None \<Rightarrow> (q1, False))))"

definition finalize_removal :: "'a policy \<Rightarrow> int \<Rightarrow> 'a item list \<Rightarrow> 'a item list" where
  "finalize_removal pol maxsize q =
     (case pol of DropSubscriber \<Rightarrow> q
      | EvictNonCriticalAndSignal crit \<Rightarrow>
          (case put_nowait maxsize [] EndOfStream of Some q' \<Rightarrow> q' | None \<Rightarrow> []))"

subsection \<open>The channel\<close>

datatype hook = FirstSubscriber | LastSubscriber | Removed nat

record 'a channel =
  ch_overflow :: "'a policy"
  ch_maxsize :: int
  ch_queues :: "(nat \<times> 'a item list) list"
  ch_subscribers :: "nat list"
  ch_next :: nat
  ch_hooks :: "hook list"

definition queue_of :: "'a channel \<Rightarrow> nat \<Rightarrow> 'a item list" where
  "queue_of s i = dict_get_default (ch_queues s) i []"

definition has_subscribers :: "'a channel \<Rightarrow> bool" where
  "has_subscribers s \<longleftrightarrow> ch_subscribers s \<noteq> []"

definition discard :: "nat \<Rightarrow> 'a channel \<Rightarrow> 'a channel" where
  "discard i s = s\<lparr>ch_subscribers := removeAll i (ch_subscribers s)\<rparr>"

text \<open>\<open>hook_ok\<close>: the first-subscriber hook does not raise. When it raises, the new queue is
  taken out again and no subscriber is returned.\<close>

definition subscribe :: "bool \<Rightarrow> 'a channel \<Rightarrow> 'a channel \<times> nat option" where
  "subscribe hook_ok s =
     (let was_empty = \<not> has_subscribers s; i = ch_next s;
          s1 = s\<lparr>ch_next := Suc i, ch_queues := dict_put i [] (ch_queues s), ch_subscribers := ch_subscribers s @ [i]\<rparr>
      in if was_empty
         then (if hook_ok then (s1\<lparr>ch_hooks := ch_hooks s1 @ [FirstSubscriber]\<rparr>, Some i) else (discard i s1, None))
         else (s1, Some i))"

definition unsubscribe :: "nat \<Rightarrow> 'a channel \<Rightarrow> 'a channel" where
  "unsubscribe i s =
     (let s1 = discard i s in
      if has_subscribers s1 then s1 else s1\<lparr>ch_hooks := ch_hooks s1 @ [LastSubscriber]\<rparr>)"

definition unsubscribe_nowait :: "nat \<Rightarrow> 'a channel \<Rightarrow> 'a channel \<times> bool" where
  "unsubscribe_nowait i s = (let s1 = discard i s in (s1, \<not> has_subscribers s1))"

text \<open>The two loops of \<open>broadcast\<close>: deliver to everyone, then finish the stale ones.\<close>

definition deliver_all ::
  "'a policy \<Rightarrow> int \<Rightarrow> 'a \<Rightarrow> nat list \<Rightarrow> (nat \<times> 'a item list) list \<times> nat list \<Rightarrow> (nat \<times> 'a item list) list \<times> nat list" where
  "deliver_all pol maxsize x =
     fold (\<lambda>i (qs, stale). case deliver pol maxsize (dict_get_default qs i []) x of
        (q', ok) \<Rightarrow> (dict_put i q' qs, if ok then stale else stale @ [i]))"

definition finish_all :: "'a policy \<Rightarrow> int \<Rightarrow> nat list \<Rightarrow> (nat \<times> 'a item list) list \<Rightarrow> (nat \<times> 'a item list) list" where
  "finish_all pol maxsize = fold (\<lambda>i qs. dict_put i (finalize_removal pol maxsize (dict_get_default qs i [])) qs)"

definition broadcast :: "'a \<Rightarrow> 'a channel \<Rightarrow> 'a channel" where
  "broadcast x s =
     (case deliver_all (ch_overflow s) (ch_maxsize s) x (ch_subscribers s) (ch_queues s, []) of
        (qs, stale) \<Rightarrow>
          s\<lparr>ch_queues := finish_all (ch_overflow s) (ch_maxsize s) stale qs,
            ch_subscribers := filter (\<lambda>i. i \<notin> set stale) (ch_subscribers s),
            ch_hooks := (if stale = [] then ch_hooks s else ch_hooks s @ [Removed (length stale)])\<rparr>)"

text \<open>One round of \<open>iterate\<close>: what the consumer of queue \<open>i\<close> sees.\<close>

datatype 'a seen = Yield 'a | Idle | Finished

definition iterate_step :: "nat \<Rightarrow> 'a channel \<Rightarrow> 'a channel \<times> 'a seen" where
  "iterate_step i s =
     (case queue_of s i of
        [] \<Rightarrow> (s, Idle)
      | EndOfStream # q \<Rightarrow> (s\<lparr>ch_queues := dict_put i q (ch_queues s)\<rparr>, Finished)
      | Msg x # q \<Rightarrow> (s\<lparr>ch_queues := dict_put i q (ch_queues s)\<rparr>, Yield x))"

subsection \<open>One queue\<close>

definition msgs :: "'a item list \<Rightarrow> 'a list" where
  "msgs q = List.map_filter (\<lambda>it. case it of Msg x \<Rightarrow> Some x | EndOfStream \<Rightarrow> None) q"

lemma msgs_simps [simp]:
  "msgs [] = []" "msgs (Msg x # q) = x # msgs q" "msgs (EndOfStream # q) = msgs q" "msgs (q @ q') = msgs q @ msgs q'"
  by (simp_all add: msgs_def map_filter_def)

definition within_size :: "int \<Rightarrow> 'a list \<Rightarrow> bool" where
  "within_size maxsize q \<longleftrightarrow> (0 < maxsize \<longrightarrow> int (length q) \<le> maxsize)"

lemma put_nowait_Some: "put_nowait m q x = Some q' \<Longrightarrow> q' = q @ [x] \<and> within_size m q'"
  by (auto simp: put_nowait_def within_size_def split: if_splits)

lemma put_back_all_fits: "within_size m (q @ xs) \<Longrightarrow> put_back_all m q xs = q @ xs"
  by (induction xs arbitrary: q) (auto simp: put_nowait_def within_size_def split: if_splits)

lemma drop_non_critical_length: "length (drop_non_critical crit q) \<le> length q"
  by (induction q) auto

lemma drop_non_critical_set: "set (drop_non_critical crit q) \<subseteq> set q"
  by (induction q) auto

lemma drop_non_critical_msgs:
  "subseq (msgs (drop_non_critical crit q)) (msgs q)"
  "filter (\<lambda>x. crit (Msg x)) (msgs (drop_non_critical crit q)) = filter (\<lambda>x. crit (Msg x)) (msgs q)"
proof -
  show "subseq (msgs (drop_non_critical crit q)) (msgs q)"
  proof (induction q)
    case (Cons it q)
    then show ?case by (cases it) (auto intro: subseq_Cons')
  qed simp
  show "filter (\<lambda>x. crit (Msg x)) (msgs (drop_non_critical crit q)) = filter (\<lambda>x. crit (Msg x)) (msgs q)"
  proof (induction q)
    case (Cons it q)
    then show ?case by (cases it) auto
  qed simp
qed

lemma evict_one_eq: "within_size m q \<Longrightarrow> evict_one_non_critical crit m q = drop_non_critical crit q"
  using drop_non_critical_length [of crit q]
  by (auto simp: evict_one_non_critical_def within_size_def intro!: put_back_all_fits [of m "[]", simplified])

subsection \<open>What a policy promises and what a subscriber gets\<close>

text \<open>\<open>live sent got q\<close> and \<open>gone sent got q\<close> relate what was broadcast since the
  subscription, what the consumer has read and what is queued, for a subscriber and for a
  removed one.\<close>

locale overflow_policy =
  fixes pol :: "'a policy" and maxsize :: int
    and live :: "'a list \<Rightarrow> 'a list \<Rightarrow> 'a item list \<Rightarrow> bool"
    and gone :: "'a list \<Rightarrow> 'a list \<Rightarrow> 'a item list \<Rightarrow> bool"
  assumes live_start: "live [] [] []"
    and live_deliver: "live sent got q \<Longrightarrow> deliver pol maxsize q x = (q', True) \<Longrightarrow> live (sent @ [x]) got q'"
    and live_refuse: "live sent got q \<Longrightarrow> deliver pol maxsize q x = (q', False) \<Longrightarrow>
      gone (sent @ [x]) got (finalize_removal pol maxsize q')"
    and live_read: "live sent got (Msg x # q) \<Longrightarrow> live sent (got @ [x]) q"
    and live_open: "live sent got q \<Longrightarrow> EndOfStream \<notin> set q"
    and gone_later: "gone sent got q \<Longrightarrow> gone (sent @ [x]) got q"
    and gone_read: "gone sent got (Msg x # q) \<Longrightarrow> gone sent (got @ [x]) q"
    and gone_end: "gone sent got (EndOfStream # q) \<Longrightarrow> gone sent got q"

text \<open>What happens on a channel after queue \<open>i\<close> was subscribed: \<open>sent\<close> is what has been
  broadcast since, \<open>got\<close> what its consumer has read.\<close>

inductive follows :: "nat \<Rightarrow> 'a channel \<Rightarrow> 'a list \<Rightarrow> 'a list \<Rightarrow> 'a channel \<Rightarrow> bool" for i s0 where
  start: "subscribe ok s0 = (s, Some i) \<Longrightarrow> follows i s0 [] [] s"
| join: "follows i s0 sent got s \<Longrightarrow> follows i s0 sent got (fst (subscribe ok s))"
| leave: "follows i s0 sent got s \<Longrightarrow> j \<noteq> i \<Longrightarrow> follows i s0 sent got (unsubscribe j s)"
| leave_nowait: "follows i s0 sent got s \<Longrightarrow> j \<noteq> i \<Longrightarrow> follows i s0 sent got (fst (unsubscribe_nowait j s))"
| send: "follows i s0 sent got s \<Longrightarrow> follows i s0 (sent @ [x]) got (broadcast x s)"
| read: "follows i s0 sent got s \<Longrightarrow> iterate_step i s = (s', y) \<Longrightarrow>
    follows i s0 sent (case y of Yield x \<Rightarrow> got @ [x] | _ \<Rightarrow> got) s'"
| read_other: "follows i s0 sent got s \<Longrightarrow> j \<noteq> i \<Longrightarrow> follows i s0 sent got (fst (iterate_step j s))"

subsection \<open>The channel as a whole\<close>

lemma dict_default_put: "dict_get_default (dict_put k v d) k' x = (if k' = k then v else dict_get_default d k' x)"
  by (simp add: dict_get_default_def dict_get_put)

lemma deliver_all_effect:
  assumes "distinct is" "deliver_all pol m x is (qs, st) = (qs', st')"
  shows "dict_get_default qs' j [] = (if j \<in> set is then fst (deliver pol m (dict_get_default qs j []) x) else dict_get_default qs j [])"
    and "st' = st @ filter (\<lambda>j. \<not> snd (deliver pol m (dict_get_default qs j []) x)) is"
proof -
  have "(\<forall>j. dict_get_default qs' j [] = (if j \<in> set is then fst (deliver pol m (dict_get_default qs j []) x) else dict_get_default qs j []))
      \<and> st' = st @ filter (\<lambda>j. \<not> snd (deliver pol m (dict_get_default qs j []) x)) is"
    using assms
  proof (induction "is" arbitrary: qs st)
    case (Cons i "is")
    obtain q' ok where d: "deliver pol m (dict_get_default qs i []) x = (q', ok)" by force
    let ?qs = "dict_put i q' qs" and ?st = "if ok then st else st @ [i]"
    have run: "deliver_all pol m x is (?qs, ?st) = (qs', st')" using Cons.prems(2) d by (simp add: deliver_all_def)
    have i: "i \<notin> set is" "distinct is" using Cons.prems(1) by auto
    have same: "dict_get_default ?qs j [] = dict_get_default qs j []" if "j \<in> set is" for j
      using that i(1) by (auto simp: dict_default_put)
    note ih = Cons.IH [OF i(2) run]
    have "filter (\<lambda>j. \<not> snd (deliver pol m (dict_get_default ?qs j []) x)) is
        = filter (\<lambda>j. \<not> snd (deliver pol m (dict_get_default qs j []) x)) is" using same by (intro filter_cong) auto
    then show ?case using ih d i(1) same by (auto simp: dict_default_put)
  qed (simp add: deliver_all_def)
  then show "dict_get_default qs' j [] = (if j \<in> set is then fst (deliver pol m (dict_get_default qs j []) x) else dict_get_default qs j [])"
    "st' = st @ filter (\<lambda>j. \<not> snd (deliver pol m (dict_get_default qs j []) x)) is" by blast+
qed

lemma finish_all_effect:
  "distinct is \<Longrightarrow> dict_get_default (finish_all pol m is qs) j []
    = (if j \<in> set is then finalize_removal pol m (dict_get_default qs j []) else dict_get_default qs j [])"
  by (induction "is" arbitrary: qs) (auto simp: finish_all_def dict_default_put)

definition received :: "'a \<Rightarrow> 'a channel \<Rightarrow> nat \<Rightarrow> 'a item list \<times> bool" where
  "received x s j = deliver (ch_overflow s) (ch_maxsize s) (queue_of s j) x"

lemma broadcast_effect:
  assumes "distinct (ch_subscribers s)"
  shows "queue_of (broadcast x s) j =
      (if j \<in> set (ch_subscribers s)
       then if snd (received x s j) then fst (received x s j) else finalize_removal (ch_overflow s) (ch_maxsize s) (fst (received x s j))
       else queue_of s j)"
    and "ch_subscribers (broadcast x s) = filter (\<lambda>j. snd (received x s j)) (ch_subscribers s)"
    and "ch_overflow (broadcast x s) = ch_overflow s" "ch_maxsize (broadcast x s) = ch_maxsize s" "ch_next (broadcast x s) = ch_next s"
proof -
  obtain qs st where d: "deliver_all (ch_overflow s) (ch_maxsize s) x (ch_subscribers s) (ch_queues s, []) = (qs, st)" by force
  note e = deliver_all_effect [OF assms d]
  have st: "st = filter (\<lambda>j. \<not> snd (received x s j)) (ch_subscribers s)"
    using e(2) by (simp add: received_def queue_of_def)
  then have dst: "distinct st" using assms by simp
  show "queue_of (broadcast x s) j =
      (if j \<in> set (ch_subscribers s)
       then if snd (received x s j) then fst (received x s j) else finalize_removal (ch_overflow s) (ch_maxsize s) (fst (received x s j))
       else queue_of s j)"
    using e(1) [of j] finish_all_effect [OF dst, of "ch_overflow s" "ch_maxsize s" qs j] st
    by (auto simp: broadcast_def d queue_of_def received_def)
  show "ch_subscribers (broadcast x s) = filter (\<lambda>j. snd (received x s j)) (ch_subscribers s)"
    using st by (auto simp: broadcast_def d intro: filter_cong)
qed (simp_all add: broadcast_def split: prod.split)

definition chan_ok :: "'a channel \<Rightarrow> bool" where
  "chan_ok s \<longleftrightarrow> distinct (ch_subscribers s) \<and> (\<forall>i \<in> set (ch_subscribers s). i < ch_next s)"

lemma subscribe_effect:
  assumes "chan_ok s"
  shows "chan_ok (fst (subscribe ok s))"
    and "ch_overflow (fst (subscribe ok s)) = ch_overflow s" "ch_maxsize (fst (subscribe ok s)) = ch_maxsize s"
    and "ch_next (fst (subscribe ok s)) = Suc (ch_next s)"
    and "j \<noteq> ch_next s \<Longrightarrow> queue_of (fst (subscribe ok s)) j = queue_of s j
      \<and> (j \<in> set (ch_subscribers (fst (subscribe ok s))) \<longleftrightarrow> j \<in> set (ch_subscribers s))"
    and "snd (subscribe ok s) = Some i \<Longrightarrow> i = ch_next s \<and> queue_of (fst (subscribe ok s)) i = []
      \<and> i \<in> set (ch_subscribers (fst (subscribe ok s)))"
  using assms
  by (auto simp: subscribe_def Let_def discard_def chan_ok_def queue_of_def dict_default_put less_Suc_eq distinct_removeAll split: if_splits)

lemma leave_effect:
  "chan_ok s \<Longrightarrow> chan_ok (unsubscribe j s)" "chan_ok s \<Longrightarrow> chan_ok (fst (unsubscribe_nowait j s))"
  "queue_of (unsubscribe j s) = queue_of s" "queue_of (fst (unsubscribe_nowait j s)) = queue_of s"
  "set (ch_subscribers (unsubscribe j s)) = set (ch_subscribers s) - {j}"
  "set (ch_subscribers (fst (unsubscribe_nowait j s))) = set (ch_subscribers s) - {j}"
  "ch_overflow (unsubscribe j s) = ch_overflow s" "ch_overflow (fst (unsubscribe_nowait j s)) = ch_overflow s"
  "ch_maxsize (unsubscribe j s) = ch_maxsize s" "ch_maxsize (fst (unsubscribe_nowait j s)) = ch_maxsize s"
  "ch_next (unsubscribe j s) = ch_next s" "ch_next (fst (unsubscribe_nowait j s)) = ch_next s"
  by (auto simp: unsubscribe_def unsubscribe_nowait_def Let_def discard_def chan_ok_def queue_of_def distinct_removeAll fun_eq_iff)

lemma iterate_effect:
  "ch_subscribers (fst (iterate_step j s)) = ch_subscribers s" "ch_next (fst (iterate_step j s)) = ch_next s"
  "ch_overflow (fst (iterate_step j s)) = ch_overflow s" "ch_maxsize (fst (iterate_step j s)) = ch_maxsize s"
  "queue_of (fst (iterate_step j s)) i = (if i = j then tl (queue_of s j) else queue_of s i)"
  "snd (iterate_step j s) = (case queue_of s j of [] \<Rightarrow> Idle | EndOfStream # q \<Rightarrow> Finished | Msg x # q \<Rightarrow> Yield x)"
  by (auto simp: iterate_step_def queue_of_def dict_default_put split: list.split item.split)

context overflow_policy
begin

lemma follows_live:
  assumes "follows i s0 sent got s" "chan_ok s0" "ch_overflow s0 = pol" "ch_maxsize s0 = maxsize"
  shows "chan_ok s \<and> ch_overflow s = pol \<and> ch_maxsize s = maxsize \<and> i < ch_next s
    \<and> (if i \<in> set (ch_subscribers s) then live sent got (queue_of s i) else gone sent got (queue_of s i))"
  using assms
proof (induction rule: follows.induct)
  case (start ok s)
  have s: "s = fst (subscribe ok s0)" "snd (subscribe ok s0) = Some i" using start by simp_all
  show ?case
    using subscribe_effect [OF start.prems(1), where ok = ok] s start.prems live_start by auto
next
  case (join sent got s ok)
  then have ih: "chan_ok s" "i \<noteq> ch_next s" "i < ch_next s" by auto
  show ?case using subscribe_effect(1-4) [OF ih(1), where ok = ok] subscribe_effect(5) [OF ih(1,2), where ok = ok] ih join by auto
next
  case (leave sent got s j)
  then show ?case by (auto simp: leave_effect)
next
  case (leave_nowait sent got s j)
  then show ?case by (auto simp: leave_effect)
next
  case (send sent got s x)
  then have ih: "chan_ok s" "ch_overflow s = pol" "ch_maxsize s = maxsize" "i < ch_next s"
    "if i \<in> set (ch_subscribers s) then live sent got (queue_of s i) else gone sent got (queue_of s i)" by auto
  have d: "distinct (ch_subscribers s)" using ih(1) by (simp add: chan_ok_def)
  note e = broadcast_effect [OF d, of x]
  have r: "received x s i = deliver pol maxsize (queue_of s i) x" by (simp add: received_def ih)
  have "chan_ok (broadcast x s)" using ih(1) e by (auto simp: chan_ok_def)
  moreover have "if i \<in> set (ch_subscribers (broadcast x s)) then live (sent @ [x]) got (queue_of (broadcast x s) i)
      else gone (sent @ [x]) got (queue_of (broadcast x s) i)"
    using ih(5) r live_deliver live_refuse gone_later e(1) [of i] e(2) ih(2,3)
    by (cases "deliver pol maxsize (queue_of s i) x") (auto split: if_splits)
  ultimately show ?case using e ih by simp
next
  case (read sent got s s' y)
  then have ih: "chan_ok s" "ch_overflow s = pol" "ch_maxsize s = maxsize" "i < ch_next s"
    "if i \<in> set (ch_subscribers s) then live sent got (queue_of s i) else gone sent got (queue_of s i)" by auto
  have s': "s' = fst (iterate_step i s)" "y = snd (iterate_step i s)" using read.hyps(2) by simp_all
  have "chan_ok s'" using ih(1) by (simp add: s' chan_ok_def iterate_effect)
  moreover have "if i \<in> set (ch_subscribers s) then live sent (case y of Yield x \<Rightarrow> got @ [x] | _ \<Rightarrow> got) (tl (queue_of s i))
      else gone sent (case y of Yield x \<Rightarrow> got @ [x] | _ \<Rightarrow> got) (tl (queue_of s i))"
  proof (cases "queue_of s i")
    case Nil
    then show ?thesis using ih(5) by (simp add: s' iterate_effect split: if_splits)
  next
    case (Cons it q)
    then show ?thesis using ih(5) live_read gone_read gone_end live_open [of sent got "queue_of s i"]
      by (cases it) (auto simp: s' iterate_effect split: if_splits)
  qed
  ultimately show ?case using ih by (simp add: s'(1) iterate_effect(1-5))
next
  case (read_other sent got s j)
  then show ?case by (auto simp: iterate_effect chan_ok_def)
qed

end

subsection \<open>The session stream: evict, then end\<close>

definition session_live :: "('a item \<Rightarrow> bool) \<Rightarrow> int \<Rightarrow> 'a list \<Rightarrow> 'a list \<Rightarrow> 'a item list \<Rightarrow> bool" where
  "session_live crit m sent got q \<longleftrightarrow> EndOfStream \<notin> set q \<and> within_size m q \<and> subseq (got @ msgs q) sent
     \<and> filter (\<lambda>x. crit (Msg x)) (got @ msgs q) = filter (\<lambda>x. crit (Msg x)) sent"

definition session_gone :: "('a item \<Rightarrow> bool) \<Rightarrow> 'a list \<Rightarrow> 'a list \<Rightarrow> 'a item list \<Rightarrow> bool" where
  "session_gone crit sent got q \<longleftrightarrow> q \<in> {[EndOfStream], []} \<and> subseq got sent
     \<and> prefix (filter (\<lambda>x. crit (Msg x)) got) (filter (\<lambda>x. crit (Msg x)) sent)"

lemma subseq_snoc: "subseq xs ys \<Longrightarrow> subseq xs (ys @ [y])" "subseq xs ys \<Longrightarrow> subseq (xs @ [y]) (ys @ [y])"
  by (auto intro: subseq_rev_drop_many)

lemma subseq_append_left: "subseq (xs @ zs) ys \<Longrightarrow> subseq xs ys"
  using subseq_order.trans [of xs "xs @ zs" ys] by (simp add: prefix_imp_subseq)

interpretation session: overflow_policy "EvictNonCriticalAndSignal crit" m "session_live crit m" "session_gone crit"
proof
  show "session_live crit m [] [] []" by (simp add: session_live_def within_size_def)
next
  fix sent got :: "'a list" and q q' x
  assume l: "session_live crit m sent got q" and d: "deliver (EvictNonCriticalAndSignal crit) m q x = (q', True)"
  have size: "within_size m q" using l by (simp add: session_live_def)
  consider (room) "q' = q @ [Msg x]" "within_size m q'" | (lost) "q' = q" "\<not> crit (Msg x)"
    | (evict) "q' = drop_non_critical crit q @ [Msg x]" "within_size m q'"
    using d by (auto simp: deliver_def Let_def evict_one_eq [OF size] split: option.splits if_splits dest!: put_nowait_Some)
  then show "session_live crit m (sent @ [x]) got q'"
  proof cases
    case room
    then show ?thesis using l by (auto simp: session_live_def subseq_snoc simp flip: append_assoc)
  next
    case lost
    then show ?thesis using l by (auto simp: session_live_def subseq_snoc)
  next
    case evict
    have "subseq (got @ msgs (drop_non_critical crit q)) sent"
      using l drop_non_critical_msgs(1) [of crit q] by (auto simp: session_live_def intro: subseq_order.trans list_emb_append_mono)
    then show ?thesis using l evict drop_non_critical_msgs(2) [of crit q] drop_non_critical_set [of crit q]
      by (auto simp: session_live_def subseq_snoc simp flip: append_assoc)
  qed
next
  fix sent got :: "'a list" and q q' x
  assume l: "session_live crit m sent got q" and d: "deliver (EvictNonCriticalAndSignal crit) m q x = (q', False)"
  have "finalize_removal (EvictNonCriticalAndSignal crit) m q' = [EndOfStream]" by (simp add: finalize_removal_def put_nowait_def)
  moreover have "subseq got sent" using l subseq_append_left by (auto simp: session_live_def)
  moreover have "prefix (filter (\<lambda>x. crit (Msg x)) got) (filter (\<lambda>x. crit (Msg x)) sent)"
    using l by (auto simp: session_live_def simp flip: filter_append) (metis filter_append prefixI)
  ultimately show "session_gone crit (sent @ [x]) got (finalize_removal (EvictNonCriticalAndSignal crit) m q')"
    by (simp add: session_gone_def subseq_snoc)
next
  fix sent got :: "'a list" and q x
  assume "session_live crit m sent got (Msg x # q)"
  then show "session_live crit m sent (got @ [x]) q" by (auto simp: session_live_def within_size_def)
qed (auto simp: session_live_def session_gone_def subseq_snoc)

text \<open>
  (C16) The session stream under \<open>EvictNonCriticalAndSignal\<close>, with any interleaving of
  broadcasts, reads and other subscribers coming and going: a subscriber's queue never grows
  beyond its bound; what its consumer has read and still has queued is, in order, part of what
  was broadcast since it subscribed, and contains every critical message. A subscriber that is
  removed has only the end-of-stream signal queued, so its stream ends (the cue to reconnect)
  and never goes on past a lost critical message.
\<close>

theorem session_stream_keeps_critical:
  assumes "follows i s0 sent got s" "chan_ok s0" "ch_overflow s0 = EvictNonCriticalAndSignal crit"
  shows "subseq got sent
    \<and> (if i \<in> set (ch_subscribers s)
       then (0 < ch_maxsize s0 \<longrightarrow> int (length (queue_of s i)) \<le> ch_maxsize s0) \<and> subseq (got @ msgs (queue_of s i)) sent
         \<and> filter (\<lambda>x. crit (Msg x)) (got @ msgs (queue_of s i)) = filter (\<lambda>x. crit (Msg x)) sent
       else queue_of s i \<in> {[EndOfStream], []} \<and> prefix (filter (\<lambda>x. crit (Msg x)) got) (filter (\<lambda>x. crit (Msg x)) sent))"
  using session.follows_live [OF assms refl] subseq_append_left
  by (auto simp: session_live_def session_gone_def within_size_def)

definition sample_channel :: "string policy \<Rightarrow> string channel" where
  "sample_channel pol = \<lparr>ch_overflow = pol, ch_maxsize = 2, ch_queues = [], ch_subscribers = [], ch_next = 0, ch_hooks = []\<rparr>"

lemma sample_channel_follows:
  "follows 0 (sample_channel pol) [''d'', ''C1'', ''C2''] []
    (broadcast ''C2'' (broadcast ''C1'' (broadcast ''d'' (fst (subscribe True (sample_channel pol))))))"
proof -
  have "follows 0 (sample_channel pol) [] [] (fst (subscribe True (sample_channel pol)))"
    by (intro follows.start [of True]) (simp add: subscribe_def has_subscribers_def sample_channel_def Let_def)
  from follows.send [OF follows.send [OF follows.send [OF this, of "''d''"], of "''C1''"], of "''C2''"]
  show ?thesis by simp
qed

definition sample_crit :: "string item \<Rightarrow> bool" where
  "sample_crit it = (case it of Msg x \<Rightarrow> x \<noteq> ''d'' | EndOfStream \<Rightarrow> True)"

theorem session_stream_keeps_critical_witness:
  "subseq ([] @ msgs (queue_of (broadcast ''C2'' (broadcast ''C1'' (broadcast ''d''
    (fst (subscribe True (sample_channel (EvictNonCriticalAndSignal sample_crit))))))) 0)) [''d'', ''C1'', ''C2'']"
proof -
  let ?init = "sample_channel (EvictNonCriticalAndSignal sample_crit)"
  let ?s = "broadcast ''C2'' (broadcast ''C1'' (broadcast ''d'' (fst (subscribe True ?init))))"
  have "chan_ok ?init" "ch_overflow ?init = EvictNonCriticalAndSignal sample_crit" by (simp_all add: sample_channel_def chan_ok_def)
  moreover have "0 \<in> set (ch_subscribers ?s)" by code_simp
  ultimately show ?thesis using session_stream_keeps_critical [OF sample_channel_follows] by (metis (lifting))
qed

subsection \<open>The project event stream: drop the subscriber\<close>

definition project_live :: "int \<Rightarrow> 'a list \<Rightarrow> 'a list \<Rightarrow> 'a item list \<Rightarrow> bool" where
  "project_live m sent got q \<longleftrightarrow> EndOfStream \<notin> set q \<and> within_size m q \<and> sent = got @ msgs q"

definition project_gone :: "'a list \<Rightarrow> 'a list \<Rightarrow> 'a item list \<Rightarrow> bool" where
  "project_gone sent got q \<longleftrightarrow> EndOfStream \<notin> set q \<and> prefix (got @ msgs q) sent"

interpretation project: overflow_policy DropSubscriber m "project_live m" project_gone
proof
  fix sent got :: "'a list" and q q' x
  assume l: "project_live m sent got q"
  show "deliver DropSubscriber m q x = (q', True) \<Longrightarrow> project_live m (sent @ [x]) got q'"
    using l put_nowait_Some [of m q "Msg x"] by (auto simp: deliver_def project_live_def split: option.splits)
  show "deliver DropSubscriber m q x = (q', False) \<Longrightarrow> project_gone (sent @ [x]) got (finalize_removal DropSubscriber m q')"
    using l by (auto simp: deliver_def project_live_def project_gone_def finalize_removal_def split: option.splits)
qed (auto simp: project_live_def project_gone_def within_size_def)

text \<open>
  The project event stream under \<open>DropSubscriber\<close>: a subscriber has read or queued
  exactly what was broadcast since it subscribed, nothing lost, repeated or reordered, within
  the queue's bound; a removed subscriber keeps an exact prefix and gets no end-of-stream
  signal.
\<close>

theorem project_stream_is_prefix:
  assumes "follows i s0 sent got s" "chan_ok s0" "ch_overflow s0 = DropSubscriber"
  shows "EndOfStream \<notin> set (queue_of s i)
    \<and> (if i \<in> set (ch_subscribers s)
       then sent = got @ msgs (queue_of s i) \<and> (0 < ch_maxsize s0 \<longrightarrow> int (length (queue_of s i)) \<le> ch_maxsize s0)
       else prefix (got @ msgs (queue_of s i)) sent)"
  using project.follows_live [OF assms refl]
  by (auto simp: project_live_def project_gone_def within_size_def split: if_splits)

theorem project_stream_is_prefix_witness:
  "prefix ([] @ msgs (queue_of (broadcast ''C2'' (broadcast ''C1'' (broadcast ''d''
    (fst (subscribe True (sample_channel DropSubscriber)))))) 0)) [''d'', ''C1'', ''C2'']"
proof -
  let ?s = "broadcast ''C2'' (broadcast ''C1'' (broadcast ''d'' (fst (subscribe True (sample_channel DropSubscriber)))))"
  have "chan_ok (sample_channel DropSubscriber)" "ch_overflow (sample_channel DropSubscriber) = DropSubscriber"
    by (simp_all add: sample_channel_def chan_ok_def)
  moreover have "0 \<notin> set (ch_subscribers ?s)" by code_simp
  ultimately show ?thesis using project_stream_is_prefix [OF sample_channel_follows] by (metis (lifting))
qed

end
