(* ===== verification/Retry.thy ===== *)
theory Retry
  imports Complex_Main PyText
begin

text \<open>
  The retry decorator around provider calls (\<open>lib/retry.py\<close>). An exception is the names of
  the classes it is an instance of and its text. The wrapped coroutine is the sequence of its
  outcomes, one per call; \<open>jitter\<close> is the sequence of draws of \<open>random.uniform(0, 2)\<close>.
\<close>

record exn =
  exn_classes :: "string list"
  exn_text :: string

definition isinstance :: "exn \<Rightarrow> string list \<Rightarrow> bool" where
  "isinstance e classes \<longleftrightarrow> list_ex (\<lambda>c. c \<in> set (exn_classes e)) classes"

definition BASE_RETRYABLE_ERRORS :: "string list" where
  "BASE_RETRYABLE_ERRORS = [''ConnectionError'', ''TimeoutError'']"

definition NonRetryableError :: string where
  "NonRetryableError = ''NonRetryableError''"

definition RETRYABLE_STATUS_PATTERNS :: "string list" where
  "RETRYABLE_STATUS_PATTERNS =
     [''429'', ''resource_exhausted'', ''500'', ''502'', ''503'', ''504'', ''internalservererror'', ''internal server error'',
      ''serviceunavailable'', ''service unavailable'', ''bad gateway'', ''gateway timeout'', ''timed out'', ''timeout'']"

definition DEFAULT_MAX_ATTEMPTS :: int where "DEFAULT_MAX_ATTEMPTS = 3"
definition DEFAULT_BACKOFF_SECONDS :: "int list" where "DEFAULT_BACKOFF_SECONDS = [2, 4, 8]"
definition DOWNLOAD_MAX_ATTEMPTS :: int where "DOWNLOAD_MAX_ATTEMPTS = 5"
definition DOWNLOAD_BACKOFF_SECONDS :: "int list" where "DOWNLOAD_BACKOFF_SECONDS = [5, 10, 20, 40]"

definition should_retry :: "exn \<Rightarrow> string list \<Rightarrow> bool" where
  "should_retry e retryable =
     (if isinstance e [NonRetryableError] then False
      else if isinstance e retryable then True
      else (let error_lower = lower (exn_text e) in list_ex (\<lambda>p. is_infix p error_lower) RETRYABLE_STATUS_PATTERNS))"

text \<open>\<open>None\<close>: indexing an empty tuple raises \<open>IndexError\<close>.\<close>

definition compute_wait :: "(nat \<Rightarrow> rat) \<Rightarrow> nat \<Rightarrow> int list \<Rightarrow> rat option" where
  "compute_wait jitter attempt backoff =
     (if backoff = [] then None
      else Some (of_int (backoff ! min attempt (length backoff - 1)) + jitter attempt))"

datatype 'a retry_result = Returned 'a | Raised exn | IndexError | NoAttempt

text \<open>The loop: \<open>left\<close> attempts remain, \<open>attempt\<close> is the loop variable. The first component
  is the sequence of sleeps, the second the number of calls.\<close>

fun retry_loop ::
  "(nat \<Rightarrow> exn + 'a) \<Rightarrow> (exn \<Rightarrow> bool) \<Rightarrow> (nat \<Rightarrow> rat) \<Rightarrow> int list \<Rightarrow> int \<Rightarrow> nat \<Rightarrow> nat \<Rightarrow> rat list \<times> nat \<times> 'a retry_result" where
  "retry_loop call pred jitter backoff maxa 0 attempt = ([], 0, NoAttempt)"
| "retry_loop call pred jitter backoff maxa (Suc left) attempt =
     (case call attempt of
        Inr v \<Rightarrow> ([], 1, Returned v)
      | Inl e \<Rightarrow>
          if int attempt \<ge> maxa - 1 \<or> isinstance e [NonRetryableError] \<or> \<not> pred e then ([], 1, Raised e)
          else (case compute_wait jitter attempt backoff of None \<Rightarrow> ([], 1, IndexError)
            | Some t \<Rightarrow> (case retry_loop call pred jitter backoff maxa left (Suc attempt) of
                (ts, n, r) \<Rightarrow> (t # ts, Suc n, r))))"

definition with_retry_async ::
  "int \<Rightarrow> int list \<Rightarrow> string list \<Rightarrow> (exn \<Rightarrow> bool) option \<Rightarrow> (nat \<Rightarrow> rat) \<Rightarrow> (nat \<Rightarrow> exn + 'a) \<Rightarrow> rat list \<times> nat \<times> 'a retry_result" where
  "with_retry_async maxa backoff retryable retry_if jitter call =
     (let pred = (case retry_if of Some p \<Rightarrow> p | None \<Rightarrow> (\<lambda>e. should_retry e retryable))
      in retry_loop call pred jitter backoff maxa (nat maxa) 0)"

text \<open>Whether a failed call is followed by another, attempts permitting.\<close>

definition retried :: "string list \<Rightarrow> (exn \<Rightarrow> bool) option \<Rightarrow> exn + 'a \<Rightarrow> bool" where
  "retried retryable retry_if y =
     (case y of Inr v \<Rightarrow> False
      | Inl e \<Rightarrow> \<not> isinstance e [NonRetryableError]
          \<and> (case retry_if of Some p \<Rightarrow> p e | None \<Rightarrow> should_retry e retryable))"

lemma retry_loop_spec:
  assumes "backoff \<noteq> []" "int (attempt + Suc left) = maxa"
  shows "\<exists>n \<le> left. (\<forall>k < n. \<exists>e. call (attempt + k) = Inl e \<and> \<not> isinstance e [NonRetryableError] \<and> pred e)
    \<and> (n = left \<or> (case call (attempt + n) of Inr v \<Rightarrow> True | Inl e \<Rightarrow> isinstance e [NonRetryableError] \<or> \<not> pred e))
    \<and> retry_loop call pred jitter backoff maxa (Suc left) attempt =
       (map (\<lambda>k. of_int (backoff ! min k (length backoff - 1)) + jitter k) [attempt..<attempt + n], Suc n,
        case call (attempt + n) of Inr v \<Rightarrow> Returned v | Inl e \<Rightarrow> Raised e)"
  using assms
proof (induction left arbitrary: attempt)
  case 0
  then show ?case by (intro exI [of _ 0]) (auto split: sum.split)
next
  case (Suc left)
  consider (stop) "case call attempt of Inr v \<Rightarrow> True | Inl e \<Rightarrow> isinstance e [NonRetryableError] \<or> \<not> pred e"
    | (again) e where "call attempt = Inl e" "\<not> isinstance e [NonRetryableError]" "pred e"
    by (cases "call attempt") auto
  then show ?case
  proof cases
    case stop
    then show ?thesis by (intro exI [of _ 0]) (auto split: sum.splits)
  next
    case again
    have "int (Suc attempt + Suc left) = maxa" using Suc.prems(2) by simp
    from Suc.IH [OF Suc.prems(1) this] obtain n where n: "n \<le> left"
      "\<forall>k < n. \<exists>e. call (Suc attempt + k) = Inl e \<and> \<not> isinstance e [NonRetryableError] \<and> pred e"
      "n = left \<or> (case call (Suc attempt + n) of Inr v \<Rightarrow> True | Inl e \<Rightarrow> isinstance e [NonRetryableError] \<or> \<not> pred e)"
      "retry_loop call pred jitter backoff maxa (Suc left) (Suc attempt) =
       (map (\<lambda>k. of_int (backoff ! min k (length backoff - 1)) + jitter k) [Suc attempt..<Suc attempt + n], Suc n,
        case call (Suc attempt + n) of Inr v \<Rightarrow> Returned v | Inl e \<Rightarrow> Raised e)" by blast
    have "\<exists>e. call (attempt + k) = Inl e \<and> \<not> isinstance e [NonRetryableError] \<and> pred e" if "k < Suc n" for k
      using n(2) again that by (cases k) auto
    moreover have "\<not> int attempt \<ge> maxa - 1" using Suc.prems(2) by simp
    then have "retry_loop call pred jitter backoff maxa (Suc (Suc left)) attempt =
       (map (\<lambda>k. of_int (backoff ! min k (length backoff - 1)) + jitter k) [attempt..<attempt + Suc n], Suc (Suc n),
        case call (attempt + Suc n) of Inr v \<Rightarrow> Returned v | Inl e \<Rightarrow> Raised e)"
      unfolding retry_loop.simps(2) [of _ _ _ _ _ "Suc left"] n(4)
      using again Suc.prems(1) by (simp add: compute_wait_def upt_conv_Cons del: upt_Suc)
    ultimately show ?thesis using n(1,3) by (intro exI [of _ "Suc n"]) auto
  qed
qed

text \<open>
  (C17) The retry decorator. With at least one attempt and a non-empty backoff table, the
  coroutine is called \<open>n + 1\<close> times, at most \<open>max_attempts\<close>: every call before the last
  failed with an error that may be retried, the last one succeeded, failed for good or used
  up the attempts, and its outcome is what the decorator returns or raises. It sleeps between
  the calls, each time for the table's entry (the last one from then on) plus at most two
  seconds. An error marked \<open>NonRetryableError\<close> is never followed by another call.
\<close>

theorem with_retry_spec:
  assumes "0 < maxa" "backoff \<noteq> []" "\<And>k. 0 \<le> jitter k \<and> jitter k \<le> 2"
  shows "\<exists>n. int (Suc n) \<le> maxa
    \<and> (\<forall>k < n. retried retryable retry_if (call k))
    \<and> (int (Suc n) = maxa \<or> \<not> retried retryable retry_if (call n))
    \<and> (\<exists>sleeps. with_retry_async maxa backoff retryable retry_if jitter call =
          (sleeps, Suc n, case call n of Inr v \<Rightarrow> Returned v | Inl e \<Rightarrow> Raised e)
        \<and> length sleeps = n
        \<and> (\<forall>k < n. of_int (backoff ! min k (length backoff - 1)) \<le> sleeps ! k
            \<and> sleeps ! k \<le> of_int (backoff ! min k (length backoff - 1)) + 2))"
proof -
  let ?pred = "case retry_if of Some p \<Rightarrow> p | None \<Rightarrow> (\<lambda>e. should_retry e retryable)"
  obtain left where left: "nat maxa = Suc left" "int (0 + Suc left) = maxa"
    using assms(1) by (cases "nat maxa") auto
  from retry_loop_spec [OF assms(2) left(2), of call ?pred jitter] obtain n where n: "n \<le> left"
    "\<forall>k < n. \<exists>e. call k = Inl e \<and> \<not> isinstance e [NonRetryableError] \<and> ?pred e"
    "n = left \<or> (case call n of Inr v \<Rightarrow> True | Inl e \<Rightarrow> isinstance e [NonRetryableError] \<or> \<not> ?pred e)"
    "retry_loop call ?pred jitter backoff maxa (Suc left) 0 =
       (map (\<lambda>k. of_int (backoff ! min k (length backoff - 1)) + jitter k) [0..<n], Suc n,
        case call n of Inr v \<Rightarrow> Returned v | Inl e \<Rightarrow> Raised e)" by auto
  have r: "retried retryable retry_if (Inl e) \<longleftrightarrow> \<not> isinstance e [NonRetryableError] \<and> ?pred e" "\<not> retried retryable retry_if (Inr v)" for e and v :: 'a
    by (auto simp: retried_def split: option.split)
  have "\<forall>k < n. retried retryable retry_if (call k)" using n(2) r(1) by metis
  moreover have "int (Suc n) = maxa \<or> \<not> retried retryable retry_if (call n)"
    using n(3) left(2) r by (cases "call n") auto
  moreover have "int (Suc n) \<le> maxa" using n(1) left(2) by simp
  moreover have "with_retry_async maxa backoff retryable retry_if jitter call =
      (map (\<lambda>k. of_int (backoff ! min k (length backoff - 1)) + jitter k) [0..<n], Suc n,
        case call n of Inr v \<Rightarrow> Returned v | Inl e \<Rightarrow> Raised e)"
    by (simp only: with_retry_async_def Let_def left(1) n(4))
  ultimately show ?thesis using assms(3) by (intro exI [of _ n]) simp
qed

definition sample_flaky :: "nat \<Rightarrow> exn + string" where
  "sample_flaky k = (if k = 0 then Inl \<lparr>exn_classes = [''ServerError''], exn_text = ''HTTP 503''\<rparr> else Inr ''ok'')"

theorem with_retry_spec_witness:
  "\<exists>n. int (Suc n) \<le> 3 \<and> (int (Suc n) = 3 \<or> \<not> retried BASE_RETRYABLE_ERRORS None (sample_flaky n))
    \<and> fst (snd (with_retry_async 3 [2, 4, 8] BASE_RETRYABLE_ERRORS None (\<lambda>_. 1) sample_flaky)) = Suc n"
proof -
  have "(0::int) < 3" "[2, 4, 8::int] \<noteq> []" by simp_all
  from with_retry_spec [OF this, of "\<lambda>_. 1" BASE_RETRYABLE_ERRORS None sample_flaky] show ?thesis
    by (auto simp del: of_nat_Suc)
qed

end
