(* ===== verification/GridLayout.thy ===== *)
theory GridLayout
  imports Complex_Main PyText
begin

text \<open>
  Image geometry: the grid layouts of \<open>lib/grid/layout.py\<close> and the pixel sizes of
  \<open>lib/aspect_size.py\<close>. Quotients that the code rounds are exact here; the code's floating
  point quotient rounds to the same integer as long as the numbers stay below \<open>2^52\<close>.
\<close>

subsection \<open>Rounding and square roots\<close>

text \<open>Python's \<open>round\<close> of a quotient: half to even.\<close>

definition py_round :: "int \<Rightarrow> int \<Rightarrow> int" where
  "py_round a b =
     (let q = a div b; r = a mod b in
      if 2 * \<bar>r\<bar> < \<bar>b\<bar> then q else if 2 * \<bar>r\<bar> > \<bar>b\<bar> then q + 1 else if even q then q else q + 1)"

lemma py_round_close:
  assumes "0 < b"
  shows "2 * \<bar>a - b * py_round a b\<bar> \<le> b"
proof -
  define q r where "q = a div b" and "r = a mod b"
  have "a = b * q + r" "0 \<le> r" "r < b" using assms by (auto simp: q_def r_def)
  then show ?thesis using assms
    unfolding py_round_def Let_def q_def [symmetric] r_def [symmetric] by (auto simp: abs_if algebra_simps)
qed

function isqrt :: "nat \<Rightarrow> nat" where
  "isqrt n = (if n = 0 then 0 else let r = isqrt (n div 4) in if (2 * r + 1) ^ 2 \<le> n then 2 * r + 1 else 2 * r)"
  by auto

termination
  by (relation "measure id") auto

declare isqrt.simps [simp del]

lemma isqrt_spec: "isqrt n ^ 2 \<le> n \<and> n < Suc (isqrt n) ^ 2"
proof (induction n rule: isqrt.induct)
  case (1 n)
  show ?case
  proof (cases "n = 0")
    case False
    let ?r = "isqrt (n div 4)"
    have r: "?r ^ 2 \<le> n div 4" "n div 4 < Suc ?r ^ 2" using 1 False by simp_all
    have "4 * ?r ^ 2 \<le> n" using r(1) by linarith
    moreover have "n < 4 * Suc ?r ^ 2" using r(2) by linarith
    ultimately show ?thesis using False
      by (subst (1 2) isqrt.simps) (auto simp: Let_def power2_eq_square algebra_simps)
  qed (simp add: isqrt.simps)
qed

lemma isqrt_le: "k ^ 2 \<le> n \<longleftrightarrow> k \<le> isqrt n"
proof
  show "k ^ 2 \<le> n \<Longrightarrow> k \<le> isqrt n"
    using isqrt_spec [of n] power_less_imp_less_base [of k 2 "Suc (isqrt n)"] by (simp add: less_Suc_eq_le)
  show "k \<le> isqrt n \<Longrightarrow> k ^ 2 \<le> n"
    using isqrt_spec [of n] power_mono [of k "isqrt n" 2] by linarith
qed

subsection \<open>Grid layouts\<close>

datatype geometry_error = BadNumber | BadIndex | BadUnpack | ZeroDivision | NegativeRoot

record grid_layout =
  grid_size :: string
  grid_rows :: int
  grid_cols :: int
  grid_aspect_ratio :: string
  cell_count :: nat
  placeholder_count :: nat

definition BASE_WIDTH :: int where "BASE_WIDTH = 1920"

abbreviation colon :: "char \<Rightarrow> bool" where "colon c \<equiv> c = CHR '':''"

definition pixel_dimensions :: "string \<Rightarrow> geometry_error + int \<times> int" where
  "pixel_dimensions ratio =
     (case split_at colon ratio of
        [ws, hs] \<Rightarrow>
          (case (py_int ws, py_int hs) of
             (Some w, Some h) \<Rightarrow>
               if w \<ge> h then (if w = 0 then Inl ZeroDivision else Inr (BASE_WIDTH, py_round (BASE_WIDTH * h) w))
               else (if h = 0 then Inl ZeroDivision else Inr (py_round (BASE_WIDTH * w) h, BASE_WIDTH))
           | _ \<Rightarrow> Inl BadNumber)
      | _ \<Rightarrow> Inl BadUnpack)"

definition GRID_FALLBACK_RESOLUTION :: string where "GRID_FALLBACK_RESOLUTION = ''2K''"
definition LARGE_GRID_RESOLUTION :: string where "LARGE_GRID_RESOLUTION = ''4K''"

definition GRID_LADDER :: "(nat \<times> string \<times> int) list" where
  "GRID_LADDER = [(4, ''grid_4'', 2), (9, ''grid_9'', 3), (16, ''grid_16'', 4), (25, ''grid_25'', 5)]"

datatype orientation = Horizontal | Vertical

definition ORIENTATION_ASPECT :: "orientation \<Rightarrow> string" where
  "ORIENTATION_ASPECT ori = (case ori of Horizontal \<Rightarrow> ''16:9'' | Vertical \<Rightarrow> ''9:16'')"

definition LEGACY_NON_SQUARE_ASPECT :: "((int \<times> int) \<times> string) list" where
  "LEGACY_NON_SQUARE_ASPECT = [((3, 2), ''4:3''), ((2, 3), ''3:4'')]"

definition large_grid_allowed :: "string option \<Rightarrow> bool" where
  "large_grid_allowed resolution \<longleftrightarrow>
     map upper_char (strip (opt_or resolution GRID_FALLBACK_RESOLUTION)) = LARGE_GRID_RESOLUTION"

definition max_cell_count :: "bool \<Rightarrow> nat" where
  "max_cell_count allow_large = (if allow_large then 25 else 9)"

definition video_aspect_ratio_of :: "string option \<Rightarrow> string" where
  "video_aspect_ratio_of raw = coalesce raw (ORIENTATION_ASPECT Vertical)"

definition orientation_of :: "string \<Rightarrow> geometry_error + orientation" where
  "orientation_of ratio =
     (case split_at colon ratio of
        ws # hs # _ \<Rightarrow>
          (case (py_int ws, py_int hs) of (Some w, Some h) \<Rightarrow> Inr (if w > h then Horizontal else Vertical)
           | _ \<Rightarrow> Inl BadNumber)
      | [ws] \<Rightarrow> (case py_int ws of None \<Rightarrow> Inl BadNumber | Some _ \<Rightarrow> Inl BadIndex)
      | [] \<Rightarrow> Inl BadIndex)"

definition grid_aspect_ratio_for :: "int \<Rightarrow> int \<Rightarrow> string \<Rightarrow> geometry_error + string" where
  "grid_aspect_ratio_for rows cols ratio =
     (case orientation_of ratio of Inl e \<Rightarrow> Inl e
      | Inr ori \<Rightarrow> Inr (if rows = cols then ORIENTATION_ASPECT ori
          else dict_get_default LEGACY_NON_SQUARE_ASPECT (rows, cols) (ORIENTATION_ASPECT ori)))"

definition calculate_grid_layout :: "nat \<Rightarrow> string \<Rightarrow> bool \<Rightarrow> geometry_error + grid_layout option" where
  "calculate_grid_layout num_scenes ratio allow_large =
     (if num_scenes < 1 then Inr None
      else (let effective = min num_scenes (max_cell_count allow_large) in
        case find (\<lambda>cfg. effective \<le> fst cfg) GRID_LADDER of
          None \<Rightarrow> Inl BadIndex
        | Some (cells, nm, side) \<Rightarrow>
            (case orientation_of ratio of Inl e \<Rightarrow> Inl e
             | Inr ori \<Rightarrow> Inr (Some \<lparr>grid_size = nm, grid_rows = side, grid_cols = side,
                 grid_aspect_ratio = ORIENTATION_ASPECT ori, cell_count = cells,
                 placeholder_count = cells - effective\<rparr>))))"

text \<open>\<open>range(0, len(group), step)\<close> with the slices; the step is at least 4.\<close>

function chunks :: "nat \<Rightarrow> 'a list \<Rightarrow> 'a list list" where
  "chunks step xs = (if xs = [] \<or> step = 0 then [] else take step xs # chunks step (drop step xs))"
  by auto

termination
  by (relation "measure (\<lambda>(step, xs). length xs)") auto

declare chunks.simps [simp del]

fun layout_chunks :: "string \<Rightarrow> bool \<Rightarrow> 'a list list \<Rightarrow> geometry_error + ('a list \<times> grid_layout) list" where
  "layout_chunks ratio allow_large [] = Inr []"
| "layout_chunks ratio allow_large (c # cs) =
     (case calculate_grid_layout (length c) ratio allow_large of
        Inl e \<Rightarrow> Inl e
      | Inr None \<Rightarrow> layout_chunks ratio allow_large cs
      | Inr (Some l) \<Rightarrow>
          (case layout_chunks ratio allow_large cs of Inl e \<Rightarrow> Inl e | Inr ps \<Rightarrow> Inr ((c, l) # ps)))"

definition plan_grid_chunks :: "'a list \<Rightarrow> string \<Rightarrow> bool \<Rightarrow> geometry_error + ('a list \<times> grid_layout) list" where
  "plan_grid_chunks scenes ratio allow_large =
     (case calculate_grid_layout (length scenes) ratio allow_large of
        Inl e \<Rightarrow> Inl e
      | Inr None \<Rightarrow> Inr []
      | Inr (Some l) \<Rightarrow> layout_chunks ratio allow_large (chunks (cell_count l) scenes))"

subsection \<open>Pixel sizes\<close>

definition DEFAULT_SHORT_EDGE :: int where "DEFAULT_SHORT_EDGE = 720"

definition IMAGE_TIER_SHORT_EDGE :: "(string \<times> int) list" where
  "IMAGE_TIER_SHORT_EDGE = [(''512px'', 512), (''1K'', 1024), (''2K'', 1440), (''4K'', 2160)]"

definition VIDEO_TIER_SHORT_EDGE :: "(string \<times> int) list" where
  "VIDEO_TIER_SHORT_EDGE = [(''480p'', 480), (''720p'', 720), (''1080p'', 1080), (''4K'', 2160)]"

definition parse_aspect_ratio :: "string \<Rightarrow> int \<times> int" where
  "parse_aspect_ratio ratio =
     (case split_at colon (strip ratio) of
        [ws, hs] \<Rightarrow>
          (case (py_int ws, py_int hs) of
             (Some aw, Some ah) \<Rightarrow> if aw \<le> 0 \<or> ah \<le> 0 then (9, 16) else (aw div gcd aw ah, ah div gcd aw ah)
           | _ \<Rightarrow> (9, 16))
      | _ \<Rightarrow> (9, 16))"

definition aspect_size ::
  "string \<Rightarrow> int \<Rightarrow> int \<Rightarrow> int option \<Rightarrow> int option \<Rightarrow> geometry_error + int \<times> int" where
  "aspect_size ratio short_edge round_to max_long_edge max_total_pixels =
     (let (aw, ah) = parse_aspect_ratio ratio;
          short_unit = round_to * min aw ah;
          denom = aw * ah * round_to * round_to
      in if short_unit = 0 then Inl ZeroDivision
         else
           let t0 = max 1 (py_round short_edge short_unit);
               t1 = (case max_long_edge of None \<Rightarrow> t0
                 | Some l \<Rightarrow> min t0 (max 1 (l div (round_to * max aw ah))))
           in (case max_total_pixels of
                 None \<Rightarrow> Inr (aw * round_to * max 1 t1, ah * round_to * max 1 t1)
               | Some p \<Rightarrow>
                   if denom > 0 \<and> p div denom < 0 then Inl NegativeRoot
                   else let root = (if denom > 0 then int (isqrt (nat (p div denom))) else 0);
                            t2 = max 1 (min t1 (max 1 root))
                        in Inr (aw * round_to * t2, ah * round_to * t2)))"

definition times_sign :: "char \<Rightarrow> bool" where
  "times_sign c \<longleftrightarrow> c = CHR ''x'' \<or> c = CHR ''X'' \<or> c = CHR ''*'' \<or> c = CHR 0xD7"

text \<open>\<open>_WH_RE\<close>: digits, a times sign and digits, each with spaces around.\<close>

definition all_digits :: "string \<Rightarrow> bool" where
  "all_digits s \<longleftrightarrow> s \<noteq> [] \<and> list_all is_digit s"

definition match_wh :: "string \<Rightarrow> (string \<times> string) option" where
  "match_wh s =
     (case split_at times_sign s of
        [a, b] \<Rightarrow> if all_digits (strip a) \<and> all_digits (strip b)
          then Some (strip a, strip b) else None
      | _ \<Rightarrow> None)"

text \<open>\<open>str.isdigit\<close> also accepts the superscripts, which \<open>int\<close> refuses; \<open>int\<close> refuses more
  than 4300 digits too.\<close>

definition is_digit_like :: "char \<Rightarrow> bool" where
  "is_digit_like c \<longleftrightarrow> is_digit c \<or> (of_char c :: nat) \<in> {178, 179, 185}"

definition to_int :: "string \<Rightarrow> geometry_error + int" where
  "to_int s = (if all_digits s \<and> length s \<le> 4300 then Inr (int (read_nat s)) else Inl BadNumber)"

definition resolution_to_short_edge :: "string option \<Rightarrow> (string \<times> int) list \<Rightarrow> int \<Rightarrow> geometry_error + int" where
  "resolution_to_short_edge resolution tiers default_short =
     (case resolution of None \<Rightarrow> Inr default_short
      | Some raw \<Rightarrow>
          let s = strip raw; norm = fold (\<lambda>(k, v). dict_put (lower k) v) tiers [] in
          if s = [] then Inr default_short
          else (case dict_get norm (lower s) of
              Some v \<Rightarrow> Inr v
            | None \<Rightarrow>
                (case match_wh s of
                   Some (ws, hs) \<Rightarrow>
                     (case (to_int ws, to_int hs) of (Inr w, Inr h) \<Rightarrow> Inr (min w h) | _ \<Rightarrow> Inl BadNumber)
                 | None \<Rightarrow> if list_all is_digit_like s then to_int s else Inr default_short)))"

subsection \<open>Chunks\<close>

lemma chunks_Nil [simp]: "chunks k [] = []"
  by (subst chunks.simps) simp

lemma chunks_Cons: "0 < k \<Longrightarrow> xs \<noteq> [] \<Longrightarrow> chunks k xs = take k xs # chunks k (drop k xs)"
  by (subst chunks.simps) simp

lemma chunks_spec:
  assumes "0 < k"
  shows "concat (chunks k xs) = xs" "c \<in> set (chunks k xs) \<Longrightarrow> c \<noteq> [] \<and> length c \<le> k"
    "Suc i < length (chunks k xs) \<Longrightarrow> length (chunks k xs ! i) = k"
    "length (chunks k xs) = (length xs + k - 1) div k"
proof -
  have "concat (chunks k xs) = xs \<and> (\<forall>c \<in> set (chunks k xs). c \<noteq> [] \<and> length c \<le> k)
    \<and> (\<forall>i. Suc i < length (chunks k xs) \<longrightarrow> length (chunks k xs ! i) = k)
    \<and> length (chunks k xs) = (length xs + k - 1) div k"
    using assms
  proof (induction k xs rule: chunks.induct)
    case (1 k xs)
    show ?case
    proof (cases "xs = []")
      case True
      then show ?thesis using 1 by simp
    next
      case False
      note ih = 1(1) [OF _ 1(2)]
      have ih: "concat (chunks k (drop k xs)) = drop k xs" "\<forall>c \<in> set (chunks k (drop k xs)). c \<noteq> [] \<and> length c \<le> k"
        "\<forall>i. Suc i < length (chunks k (drop k xs)) \<longrightarrow> length (chunks k (drop k xs) ! i) = k"
        "length (chunks k (drop k xs)) = (length xs - k + k - 1) div k"
        using ih False 1(2) by auto
      have len: "Suc ((length xs - k + k - 1) div k) = (length xs + k - 1) div k"
      proof (cases "length xs \<le> k")
        case True
        have "length xs + k - 1 = (length xs - 1) + k" using False by (cases xs) auto
        moreover have "(length xs - 1) div k = 0" using True False 1(2) by (cases xs) auto
        ultimately have "(length xs + k - 1) div k = 1" using 1(2) by (simp only: div_add_self2)
        then show ?thesis using True 1(2) by (simp only: diff_is_0_eq' add_0 div_less diff_less zero_less_one One_nat_def)
      next
        case len: False
        then have "length xs + k - 1 = (length xs - k + k - 1) + k" using 1(2) by auto
        then show ?thesis using 1(2) by (metis div_add_self2 Suc_eq_plus1 not_less_zero)
      qed
      have full: "length (take k xs) = k" if "chunks k (drop k xs) \<noteq> []"
        using that by (cases "length xs \<le> k") auto
      let ?r = "chunks k (drop k xs)"
      have "concat (take k xs # ?r) = xs" using ih(1) by simp
      moreover have "\<forall>c \<in> set (take k xs # ?r). c \<noteq> [] \<and> length c \<le> k" using ih(2) False 1(2) by simp
      moreover have "length ((take k xs # ?r) ! i) = k" if "Suc i < length (take k xs # ?r)" for i
      proof (cases i)
        case 0
        then show ?thesis using full that by simp
      next
        case (Suc j)
        then show ?thesis using ih(3) that by simp
      qed
      moreover have "length (take k xs # ?r) = (length xs + k - 1) div k" using ih(4) len by simp
      ultimately show ?thesis unfolding chunks_Cons [OF 1(2) False] by blast
    qed
  qed
  then show "concat (chunks k xs) = xs" "c \<in> set (chunks k xs) \<Longrightarrow> c \<noteq> [] \<and> length c \<le> k"
    "Suc i < length (chunks k xs) \<Longrightarrow> length (chunks k xs ! i) = k" "length (chunks k xs) = (length xs + k - 1) div k" by blast+
qed

definition layout_ok :: "bool \<Rightarrow> nat \<Rightarrow> grid_layout \<Rightarrow> bool" where
  "layout_ok allow_large n l \<longleftrightarrow> grid_rows l = grid_cols l \<and> grid_rows l * grid_cols l = int (cell_count l)
     \<and> cell_count l \<le> max_cell_count allow_large
     \<and> min n (max_cell_count allow_large) + placeholder_count l = cell_count l
     \<and> grid_aspect_ratio l \<in> {''16:9'', ''9:16''}"

lemma calculate_grid_layout_cases:
  assumes "0 < n"
  shows "case orientation_of ratio of Inl e \<Rightarrow> calculate_grid_layout n ratio al = Inl e
    | Inr ori \<Rightarrow> \<exists>l. calculate_grid_layout n ratio al = Inr (Some l) \<and> layout_ok al n l"
proof -
  let ?e = "min n (max_cell_count al)"
  have e: "0 < ?e" "?e \<le> max_cell_count al" using assms by (auto simp: max_cell_count_def)
  have or: "ORIENTATION_ASPECT ori \<in> {''16:9'', ''9:16''}" for ori by (cases ori) (simp_all add: ORIENTATION_ASPECT_def)
  have "\<exists>cells nm side. find (\<lambda>cfg. ?e \<le> fst cfg) GRID_LADDER = Some (cells, nm, side) \<and> ?e \<le> cells
      \<and> cells \<le> max_cell_count al \<and> side * side = int cells"
    using e by (cases al) (auto simp: GRID_LADDER_def max_cell_count_def)
  then obtain cells nm side where f: "find (\<lambda>cfg. ?e \<le> fst cfg) GRID_LADDER = Some (cells, nm, side)"
    "?e \<le> cells" "cells \<le> max_cell_count al" "side * side = int cells" by blast
  have f': "find (\<lambda>cfg. ?e \<le> fst cfg) GRID_LADDER = Some (cells, nm, side)" using f(1) .
  show ?thesis using assms f or
    by (auto simp: calculate_grid_layout_def Let_def layout_ok_def f' split: sum.split)
qed

lemma layout_chunks_cases:
  assumes "\<forall>c \<in> set cs. c \<noteq> []"
  shows "case orientation_of ratio of Inl e \<Rightarrow> layout_chunks ratio al cs = (if cs = [] then Inr [] else Inl e)
    | Inr ori \<Rightarrow> \<exists>ps. layout_chunks ratio al cs = Inr ps \<and> map fst ps = cs \<and> (\<forall>(c, l) \<in> set ps. layout_ok al (length c) l)"
  using assms
proof (induction cs)
  case (Cons c cs)
  have c: "0 < length c" using Cons.prems by simp
  show ?case
  proof (cases "orientation_of ratio")
    case (Inl e)
    then show ?thesis using calculate_grid_layout_cases [OF c, of ratio al] by simp
  next
    case (Inr ori)
    then obtain l ps where "calculate_grid_layout (length c) ratio al = Inr (Some l)" "layout_ok al (length c) l"
      "layout_chunks ratio al cs = Inr ps" "map fst ps = cs" "\<forall>(c, l) \<in> set ps. layout_ok al (length c) l"
      using calculate_grid_layout_cases [OF c, of ratio al] Cons by auto
    then show ?thesis using Inr by auto
  qed
qed (simp split: sum.split)

text \<open>
  Planning the grids of a group of scenes. It fails only when the group is not empty
  and the aspect ratio cannot be read. Otherwise the chunks, in order, are the group: no
  scene is lost, doubled or moved; each chunk fills its square grid up to the placeholders,
  within the limit of cells; only the last grid has placeholders; and no more grids are used
  than the limit makes necessary.
\<close>

theorem plan_grid_chunks_partition:
  "case plan_grid_chunks scenes ratio al of
     Inl e \<Rightarrow> scenes \<noteq> [] \<and> orientation_of ratio = Inl e
   | Inr ps \<Rightarrow> concat (map fst ps) = scenes
       \<and> (\<forall>(c, l) \<in> set ps. c \<noteq> [] \<and> length c + placeholder_count l = cell_count l \<and> cell_count l \<le> max_cell_count al
           \<and> grid_rows l * grid_cols l = int (cell_count l))
       \<and> (\<forall>i. Suc i < length ps \<longrightarrow> placeholder_count (snd (ps ! i)) = 0)
       \<and> length ps = (length scenes + max_cell_count al - 1) div max_cell_count al"
proof (cases "scenes = []")
  case True
  then show ?thesis by (simp add: plan_grid_chunks_def calculate_grid_layout_def max_cell_count_def)
next
  case False
  then have n: "0 < length scenes" by simp
  show ?thesis
  proof (cases "orientation_of ratio")
    case (Inl e)
    then show ?thesis using calculate_grid_layout_cases [OF n, of ratio al] False by (simp add: plan_grid_chunks_def)
  next
    case (Inr ori)
    then obtain l where l: "calculate_grid_layout (length scenes) ratio al = Inr (Some l)" "layout_ok al (length scenes) l"
      using calculate_grid_layout_cases [OF n, of ratio al] by auto
    let ?k = "cell_count l" and ?cap = "max_cell_count al"
    have "min (length scenes) ?cap + placeholder_count l = ?k" "?k \<le> ?cap" "0 < ?cap"
      using l(2) by (simp_all add: layout_ok_def) (simp add: max_cell_count_def)
    then have k: "0 < ?k" "?k \<le> ?cap" "min (length scenes) ?cap \<le> ?k" using n by linarith+
    note ch = chunks_spec [OF k(1), where xs = scenes]
    have ne: "\<forall>c \<in> set (chunks ?k scenes). c \<noteq> []" using ch(2) by blast
    obtain ps where ps: "plan_grid_chunks scenes ratio al = Inr ps" "map fst ps = chunks ?k scenes"
      "\<forall>(c, l) \<in> set ps. layout_ok al (length c) l"
      using layout_chunks_cases [OF ne, of ratio al] Inr l(1) by (auto simp: plan_grid_chunks_def)
    have cells: "c \<noteq> [] \<and> length c + placeholder_count l' = cell_count l' \<and> cell_count l' \<le> ?cap
        \<and> grid_rows l' * grid_cols l' = int (cell_count l')" if "(c, l') \<in> set ps" for c l'
    proof -
      have "c \<in> set (map fst ps)" using that by force
      then have "c \<noteq> [] \<and> length c \<le> ?k" using ps(2) ch(2) by metis
      then show ?thesis using ps(3) that k(2) by (auto simp: layout_ok_def min_def split: if_splits)
    qed
    have len: "length ps = (length scenes + ?cap - 1) div ?cap"
    proof (cases "length scenes \<le> ?cap")
      case True
      then have "length scenes \<le> ?k" using k(3) by simp
      then have "chunks ?k scenes = [scenes]" using chunks_Cons [OF k(1) False] by simp
      then have "length ps = 1" using ps(2) by (metis length_map One_nat_def length_Cons list.size(3))
      moreover have "(length scenes + ?cap - 1) div ?cap = 1"
        using True k False by (intro div_nat_eqI) (cases scenes, auto)+
      ultimately show ?thesis by simp
    next
      case more: False
      then have "?k = ?cap" using k by simp
      then show ?thesis using ch(4) ps(2) by (metis length_map)
    qed
    have full: "placeholder_count (snd (ps ! i)) = 0" if i: "Suc i < length ps" for i
    proof -
      have "length ps = length (chunks ?k scenes)" using ps(2) by (metis length_map)
      then have "length (fst (ps ! i)) = ?k" using ch(3) [where i = i] i ps(2) by (metis Suc_lessD nth_map)
      moreover have "(fst (ps ! i), snd (ps ! i)) \<in> set ps" using i by simp
      moreover have "?k = ?cap"
      proof (rule ccontr)
        assume "?k \<noteq> ?cap"
        then have "length scenes \<le> ?k" using k by (simp add: min_def split: if_splits)
        then have "chunks ?k scenes = [scenes]" using chunks_Cons [OF k(1) False] by simp
        then show False using i ps(2) by (metis length_map length_Cons list.size(3) Suc_less_eq not_less_zero)
      qed
      ultimately show ?thesis using cells [of "fst (ps ! i)" "snd (ps ! i)"] by auto
    qed
    have "concat (map fst ps) = scenes" using ps(2) ch(1) by simp
    then show ?thesis using ps(1) cells full len by auto
  qed
qed

theorem plan_grid_chunks_partition_witness:
  "\<exists>ps. plan_grid_chunks [1..<12::nat] ''16:9'' False = Inr ps \<and> concat (map fst ps) = [1..<12] \<and> length ps = 2"
proof -
  have "orientation_of ''16:9'' = Inr Horizontal" by code_simp
  then show ?thesis
    using plan_grid_chunks_partition [of "[1..<12::nat]" "''16:9''" False]
    by (auto simp: max_cell_count_def split: sum.splits)
qed

subsection \<open>Sizes\<close>

lemma parse_aspect_ratio_pos:
  assumes "parse_aspect_ratio ratio = (aw, ah)"
  shows "0 < aw" "0 < ah" "coprime aw ah"
proof -
  have red: "0 < a div gcd a b" "0 < b div gcd a b" "coprime (a div gcd a b) (b div gcd a b)" if "0 < a" "0 < b" for a b :: int
    using that by (auto simp: div_gcd_coprime pos_imp_zdiv_pos_iff)
  have "coprime (9::int) 16" by code_simp
  then show "0 < aw" "0 < ah" "coprime aw ah"
    using assms red by (auto simp: parse_aspect_ratio_def split: list.splits option.splits if_splits)
qed

lemma half_bound:
  fixes a s u :: int
  assumes "a \<le> 0" "2 * (s - a) \<le> u" "0 < u"
  shows "s \<le> u"
  using assms by arith

lemma nearest_below:
  fixes a b s u :: int
  assumes "2 * \<bar>s - a\<bar> \<le> u" "b + u \<le> a"
  shows "\<bar>a - s\<bar> \<le> \<bar>b - s\<bar>"
  using assms by arith

lemma nearest_above:
  fixes a b s u :: int
  assumes "2 * \<bar>s - a\<bar> \<le> u" "a + u \<le> b"
  shows "\<bar>a - s\<bar> \<le> \<bar>b - s\<bar>"
  using assms by arith

lemma nearest_multiple:
  assumes "0 < u" "1 \<le> t'"
  shows "\<bar>u * max 1 (py_round s u) - s\<bar> \<le> \<bar>u * t' - s\<bar>"
proof -
  let ?r = "py_round s u"
  have c: "2 * \<bar>s - u * ?r\<bar> \<le> u" by (rule py_round_close [OF assms(1)])
  consider "?r \<le> 0" | "1 \<le> ?r" "t' = ?r" | "1 \<le> ?r" "t' < ?r" | "1 \<le> ?r" "?r < t'" by linarith
  then show ?thesis
  proof cases
    case 1
    then have "u * ?r \<le> 0" using assms(1) by (simp add: mult_le_0_iff)
    moreover have "u \<le> u * t'" using assms by (simp add: mult_le_cancel_left1)
    moreover have "2 * (s - u * ?r) \<le> u" by (intro order_trans [OF _ c] mult_left_mono abs_ge_self) simp
    ultimately have "s \<le> u" using half_bound assms(1) by blast
    then show ?thesis using 1 \<open>u \<le> u * t'\<close> by (simp add: max_def)
  next
    case 3
    then have "u * t' \<le> u * (?r - 1)" using assms(1) by (intro mult_left_mono) auto
    then have "u * t' + u \<le> u * ?r" by (simp add: right_diff_distrib)
    then show ?thesis using nearest_below [OF c] 3(1) by (simp add: max_def)
  next
    case 4
    then have "u * (?r + 1) \<le> u * t'" using assms(1) by (intro mult_left_mono) auto
    then have "u * ?r + u \<le> u * t'" by (simp add: distrib_left)
    then show ?thesis using nearest_above [OF c] 4(1) by (simp add: max_def)
  qed (simp add: max_def)
qed

lemma scale_within_edge:
  assumes "(0::int) < d" "d \<le> l" "t \<le> max 1 (l div d)"
  shows "d * t \<le> l"
proof -
  have "0 < l div d" using assms(1,2) by (simp add: pos_imp_zdiv_pos_iff)
  then have "t \<le> l div d" using assms(3) by simp
  then have "d * t \<le> d * (l div d)" using assms(1) by (intro mult_left_mono) auto
  also have "\<dots> \<le> l" using assms(1) by (simp add: mult.commute minus_mod_eq_mult_div [symmetric])
  finally show ?thesis .
qed

lemma scale_within_pixels:
  assumes "(0::int) < d" "d \<le> p" "1 \<le> t" "t \<le> max 1 (int (isqrt (nat (p div d))))"
  shows "d * (t * t) \<le> p"
proof -
  let ?n = "nat (p div d)"
  have "0 < p div d" using assms(1,2) by (simp add: pos_imp_zdiv_pos_iff)
  then have "1 \<le> isqrt ?n" using isqrt_le [of 1 ?n] by (simp add: Suc_le_eq)
  then have "nat t \<le> isqrt ?n" using assms(4) by linarith
  then have "nat t ^ 2 \<le> ?n" by (simp add: isqrt_le)
  then have "int (nat t ^ 2) \<le> int ?n" by (simp only: of_nat_le_iff)
  then have "t * t \<le> p div d" using assms(3) \<open>0 < p div d\<close> by (simp add: power2_eq_square)
  then have "d * (t * t) \<le> d * (p div d)" using assms(1) by (intro mult_left_mono) auto
  also have "\<dots> \<le> p" using assms(1) by (simp add: mult.commute minus_mod_eq_mult_div [symmetric])
  finally show ?thesis .
qed

text \<open>
  The size computed for an aspect ratio \<open>aw:ah\<close> (reduced) is exact: width and height
  are \<open>aw\<close> and \<open>ah\<close> times one positive multiple of \<open>round_to\<close>, so the ratio has no error
  and both edges are divisible by \<open>round_to\<close>. The long edge and the number of pixels stay
  within their limits whenever the smallest such size does; without limits no other such size
  has a short edge nearer to the one asked for.
\<close>

theorem aspect_size_exact:
  assumes "0 < round_to" "parse_aspect_ratio ratio = (aw, ah)" "\<And>p. max_total_pixels = Some p \<Longrightarrow> 0 \<le> p"
  shows "\<exists>t \<ge> 1. aspect_size ratio short_edge round_to max_long_edge max_total_pixels = Inr (aw * round_to * t, ah * round_to * t)
    \<and> coprime aw ah
    \<and> (\<forall>l. max_long_edge = Some l \<longrightarrow> round_to * max aw ah \<le> l \<longrightarrow> max (aw * round_to * t) (ah * round_to * t) \<le> l)
    \<and> (\<forall>p. max_total_pixels = Some p \<longrightarrow> aw * ah * round_to * round_to \<le> p \<longrightarrow> (aw * round_to * t) * (ah * round_to * t) \<le> p)
    \<and> (max_long_edge = None \<and> max_total_pixels = None \<longrightarrow>
        (\<forall>t' \<ge> 1. \<bar>min (aw * round_to * t) (ah * round_to * t) - short_edge\<bar> \<le> \<bar>round_to * min aw ah * t' - short_edge\<bar>))"
proof -
  note pos = parse_aspect_ratio_pos [OF assms(2)]
  let ?u = "round_to * min aw ah" and ?v = "round_to * max aw ah" and ?d = "aw * ah * round_to * round_to"
  have u: "0 < ?u" "0 < ?v" "0 < ?d" "round_to \<noteq> 0" "min aw ah \<noteq> 0" using pos assms(1) by auto
  define t0 where "t0 = max 1 (py_round short_edge ?u)"
  define t1 where "t1 = (case max_long_edge of None \<Rightarrow> t0 | Some l \<Rightarrow> min t0 (max 1 (l div ?v)))"
  define t where "t = (case max_total_pixels of None \<Rightarrow> t1 | Some p \<Rightarrow> min t1 (max 1 (int (isqrt (nat (p div ?d))))))"
  have t: "1 \<le> t" by (auto simp: t_def t1_def t0_def split: option.split)
  have "1 \<le> t1" by (auto simp: t1_def t0_def split: option.split)
  have dv: "0 \<le> p div ?d" if "max_total_pixels = Some p" for p using assms(3) [OF that] u(3) by (simp add: pos_imp_zdiv_nonneg_iff)
  have size: "aspect_size ratio short_edge round_to max_long_edge max_total_pixels = Inr (aw * round_to * t, ah * round_to * t)"
  proof (cases max_total_pixels)
    case None
    then show ?thesis using u \<open>1 \<le> t1\<close>
      by (simp add: aspect_size_def assms(2) Let_def t_def flip: t0_def t1_def)
  next
    case (Some p)
    let ?m = "min t1 (max 1 (int (isqrt (nat (p div ?d)))))"
    have m1: "t = ?m" by (simp add: t_def Some)
    have m2: "max 1 ?m = ?m" using t unfolding m1 by (rule max_absorb2)
    have c: "(?u = 0) = False" "(0 < ?d) = True" "(p div ?d < 0) = False" using u dv [OF Some] by simp_all
    show ?thesis
      unfolding aspect_size_def assms(2) Let_def prod.case Some option.case t0_def [symmetric] t1_def [symmetric]
      by (simp only: c simp_thms if_False if_True m1 m2)
  qed
  have edge: "max (aw * round_to * t) (ah * round_to * t) = ?v * t" "min (aw * round_to * t) (ah * round_to * t) = ?u * t"
    using mult_pos_pos [OF assms(1), of t] t
    by (auto simp: max_def min_def mult_le_cancel_right mult_less_cancel_right algebra_simps)
  have "max (aw * round_to * t) (ah * round_to * t) \<le> l" if "max_long_edge = Some l" "?v \<le> l" for l
    unfolding edge by (rule scale_within_edge [OF u(2) that(2)]) (use that(1) in \<open>auto simp: t_def t1_def min_le_iff_disj split: option.split\<close>)
  moreover have "(aw * round_to * t) * (ah * round_to * t) \<le> p" if "max_total_pixels = Some p" "?d \<le> p" for p
  proof -
    have "?d * (t * t) \<le> p" using u(3) that t by (intro scale_within_pixels) (auto simp: t_def)
    then show ?thesis by (simp add: algebra_simps)
  qed
  moreover have "\<bar>?u * t - short_edge\<bar> \<le> \<bar>?u * t' - short_edge\<bar>" if "max_long_edge = None" "max_total_pixels = None" "1 \<le> t'" for t'
    using nearest_multiple [OF u(1) that(3), of short_edge] that by (simp add: t_def t1_def t0_def)
  ultimately show ?thesis using t size pos(3) edge(2) by (intro exI [of _ t]) auto
qed

theorem aspect_size_exact_witness:
  "\<exists>t \<ge> 1. aspect_size ''16:9'' 1440 16 (Some 3840) (Some 16777216) = Inr (16 * 16 * t, 9 * 16 * t)
    \<and> max (16 * 16 * t) (9 * 16 * t) \<le> 3840"
proof -
  have "parse_aspect_ratio ''16:9'' = (16, 9)" by code_simp
  from aspect_size_exact [OF _ this, of 16 "Some 16777216" 1440 "Some 3840"] show ?thesis by auto
qed

end
