(* ===== verification/Codec.thy ===== *)
theory Codec
  imports Json PyText
begin

text \<open>
  Reversible encodings of the standard library: UTF-8, the URL-safe base64 alphabet, and how a
  pipeline of encoders is undone by the reversed pipeline of decoders.

  The locale \<open>codec\<close> is the contract of one encoder: its decoder gives back every value of the
  domain. \<open>codec_pipe\<close> composes two of them and is a \<open>codec\<close> again. Bytes are characters, one
  \<^typ>\<open>char\<close> per byte.
\<close>

subsection \<open>The contract of an encoder\<close>

locale codec =
  fixes enc :: "'a \<Rightarrow> 'b" and dec :: "'b \<Rightarrow> 'a option" and valid :: "'a \<Rightarrow> bool"
  assumes dec_enc: "valid x \<Longrightarrow> dec (enc x) = Some x"
begin

lemma enc_inject: "valid x \<Longrightarrow> valid y \<Longrightarrow> enc x = enc y \<longleftrightarrow> x = y"
  by (metis dec_enc option.inject)

lemma dec_enc_bind: "valid x \<Longrightarrow> Option.bind (dec (enc x)) f = f x"
  by (simp add: dec_enc)

end

locale codec_pipe = inner: codec enc1 dec1 valid1 + outer: codec enc2 dec2 valid2
  for enc1 :: "'a \<Rightarrow> 'b" and dec1 valid1 and enc2 :: "'b \<Rightarrow> 'c" and dec2 valid2 +
  assumes valid_enc: "valid1 x \<Longrightarrow> valid2 (enc1 x)"

sublocale codec_pipe \<subseteq> pipe: codec "enc2 \<circ> enc1" "\<lambda>z. Option.bind (dec2 z) dec1" valid1
  by unfold_locales (simp add: inner.dec_enc outer.dec_enc valid_enc)

subsection \<open>UTF-8\<close>

definition utf8_char :: "char \<Rightarrow> char list" where
  "utf8_char c = (let n = (of_char c :: nat) in
     if n < 128 then [c] else [char_of (192 + n div 64), char_of (128 + n mod 64)])"

definition utf8_encode :: "string \<Rightarrow> char list" where
  "utf8_encode s = concat (map utf8_char s)"

text \<open>Malformed bytes and the code points beyond the character range of the model are refused.\<close>

fun utf8_decode :: "char list \<Rightarrow> string option" where
  "utf8_decode [] = Some []"
| "utf8_decode (b # bs) =
     (let n = (of_char b :: nat) in
      if n < 128 then map_option ((#) b) (utf8_decode bs)
      else if 194 \<le> n \<and> n \<le> 195 then
        (case bs of [] \<Rightarrow> None
         | c # r \<Rightarrow> (let m = (of_char c :: nat) in
             if 128 \<le> m \<and> m < 192 then map_option ((#) (char_of ((n - 192) * 64 + (m - 128)))) (utf8_decode r)
             else None))
      else None)"

lemma utf8_decode_char: "utf8_decode (utf8_char c @ bs) = map_option ((#) c) (utf8_decode bs)"
proof (cases "(of_char c :: nat) < 128")
  case True
  then show ?thesis by (simp add: utf8_char_def Let_def)
next
  case False
  let ?n = "of_char c :: nat"
  have n: "?n < 256" by simp
  then have d: "?n div 64 = 2 \<or> ?n div 64 = 3" using False by linarith
  have "(?n div 64) * 64 + ?n mod 64 = ?n" by simp
  moreover have "192 + ?n div 64 < 256" "128 + ?n mod 64 < 256" using d by (auto intro: less_trans [of _ 64])
  ultimately show ?thesis using False d
    by (auto simp: utf8_char_def Let_def of_char_of)
qed

interpretation utf8: codec utf8_encode utf8_decode "\<lambda>_. True"
proof
  fix s :: string
  show "utf8_decode (utf8_encode s) = Some s"
    by (induction s) (auto simp: utf8_encode_def utf8_decode_char)
qed

subsection \<open>Base64\<close>

definition b64_char :: "nat \<Rightarrow> char" where
  "b64_char d = (if d < 26 then char_of (65 + d) else if d < 52 then char_of (71 + d)
     else if d < 62 then char_of (d - 4) else if d = 62 then CHR ''-'' else CHR ''_'')"

text \<open>The decoder maps \<open>-\<close> and \<open>_\<close> to the standard alphabet, whose own \<open>+\<close> and \<open>/\<close> it accepts too.\<close>

definition b64_val :: "char \<Rightarrow> nat option" where
  "b64_val c = (let n = (of_char c :: nat) in
     if 65 \<le> n \<and> n \<le> 90 then Some (n - 65) else if 97 \<le> n \<and> n \<le> 122 then Some (n - 71)
     else if 48 \<le> n \<and> n \<le> 57 then Some (n + 4)
     else if n \<in> {of_char CHR ''-'', of_char CHR ''+''} then Some 62
     else if n \<in> {of_char CHR ''_'', of_char CHR ''/''} then Some 63 else None)"

text \<open>\<open>urlsafe_b64encode(bs).rstrip("=")\<close>.\<close>

fun b64_encode :: "char list \<Rightarrow> string" where
  "b64_encode [] = []"
| "b64_encode [a] = (let x = (of_char a :: nat) in [b64_char (x div 4), b64_char (x mod 4 * 16)])"
| "b64_encode [a, b] = (let x = (of_char a :: nat); y = of_char b in
     [b64_char (x div 4), b64_char (x mod 4 * 16 + y div 16), b64_char (y mod 16 * 4)])"
| "b64_encode (a # b # c # r) = (let x = (of_char a :: nat); y = of_char b; z = of_char c in
     [b64_char (x div 4), b64_char (x mod 4 * 16 + y div 16), b64_char (y mod 16 * 4 + z div 64), b64_char (z mod 64)]
     @ b64_encode r)"

text \<open>\<open>b64decode(s, altchars=b"-_", validate=True)\<close>: groups of four, padding only at the end.\<close>

fun b64decode :: "string \<Rightarrow> char list option" where
  "b64decode [] = Some []"
| "b64decode (a # b # c # d # r) =
     (case (b64_val a, b64_val b) of
        (Some w, Some x) \<Rightarrow>
          if c = CHR ''='' then
            if d = CHR ''='' \<and> r = [] then Some [char_of (w * 4 + x div 16)] else None
          else (case b64_val c of None \<Rightarrow> None
            | Some y \<Rightarrow>
                if d = CHR ''='' then
                  if r = [] then Some [char_of (w * 4 + x div 16), char_of (x mod 16 * 16 + y div 4)] else None
                else (case b64_val d of None \<Rightarrow> None
                  | Some z \<Rightarrow> map_option (\<lambda>bs. char_of (w * 4 + x div 16) # char_of (x mod 16 * 16 + y div 4)
                      # char_of (y mod 4 * 64 + z) # bs) (b64decode r)))
      | _ \<Rightarrow> None)"
| "b64decode _ = None"

text \<open>\<open>token + "=" * (-len(token) % 4)\<close>.\<close>

definition b64_padded :: "string \<Rightarrow> string" where
  "b64_padded t = t @ replicate (nat (- int (length t) mod 4)) CHR ''=''"

definition b64_decode :: "string \<Rightarrow> char list option" where
  "b64_decode t = b64decode (b64_padded t)"

lemma b64_val_char [simp]: "d < 64 \<Longrightarrow> b64_val (b64_char d) = Some d"
proof -
  assume "d < 64"
  then consider "d < 26" | "26 \<le> d" "d < 52" | "52 \<le> d" "d < 62" | "d = 62" | "d = 63" by linarith
  then show ?thesis
  proof cases
    case 3
    then have "48 \<le> d - 4" "d - 4 \<le> 57" by arith+
    then show ?thesis using 3 by (simp add: b64_val_def b64_char_def Let_def)
  qed (simp_all add: b64_val_def b64_char_def Let_def)
qed

lemma b64_char_pad [simp]: "d < 64 \<Longrightarrow> b64_char d \<noteq> CHR ''=''"
proof
  assume "d < 64" "b64_char d = CHR ''=''"
  then have "b64_val CHR ''='' = Some d" using b64_val_char by metis
  then show False by (simp add: b64_val_def)
qed

text \<open>How the six-bit digits of three bytes reassemble.\<close>

lemma b64_digits:
  fixes x y z :: nat
  assumes "x < 256" "y < 256" "z < 256"
  shows "x div 4 < 64" "x mod 4 * 16 + y div 16 < 64" "y mod 16 * 4 + z div 64 < 64" "z mod 64 < 64" "x mod 4 * 16 < 64" "y mod 16 * 4 < 64"
    "x div 4 * 4 + (x mod 4 * 16 + y div 16) div 16 = x" "x div 4 * 4 + x mod 4 * 16 div 16 = x"
    "(x mod 4 * 16 + y div 16) mod 16 * 16 + (y mod 16 * 4 + z div 64) div 4 = y"
    "(x mod 4 * 16 + y div 16) mod 16 * 16 + y mod 16 * 4 div 4 = y"
    "(y mod 16 * 4 + z div 64) mod 4 * 64 + z mod 64 = z"
proof -
  have d: "y div 16 < 16" "z div 64 < 4" using assms by auto
  then have "(x mod 4 * 16 + y div 16) div 16 = x mod 4" "(x mod 4 * 16 + y div 16) mod 16 = y div 16"
    "(y mod 16 * 4 + z div 64) div 4 = y mod 16" "(y mod 16 * 4 + z div 64) mod 4 = z div 64" by auto
  then show "x div 4 * 4 + (x mod 4 * 16 + y div 16) div 16 = x"
    "(x mod 4 * 16 + y div 16) mod 16 * 16 + (y mod 16 * 4 + z div 64) div 4 = y"
    "(x mod 4 * 16 + y div 16) mod 16 * 16 + y mod 16 * 4 div 4 = y"
    "(y mod 16 * 4 + z div 64) mod 4 * 64 + z mod 64 = z" by auto
  show "x mod 4 * 16 + y div 16 < 64" "y mod 16 * 4 + z div 64 < 64" "x mod 4 * 16 < 64" "y mod 16 * 4 < 64"
    using d mod_less_divisor [of 4 x] mod_less_divisor [of 16 y] by linarith+
qed (use assms in auto)

lemma b64_padded_more: "length p = 4 \<Longrightarrow> b64_padded (p @ t) = p @ b64_padded t"
proof -
  assume "length p = 4"
  then have "- int (length (p @ t)) = - int (length t) + (- 1) * 4" by simp
  then have "- int (length (p @ t)) mod 4 = - int (length t) mod 4" by (simp only: mod_mult_self1)
  then show ?thesis by (simp add: b64_padded_def del: length_append)
qed

interpretation b64: codec b64_encode b64_decode "\<lambda>_. True"
proof
  fix bs :: "char list"
  show "b64_decode (b64_encode bs) = Some bs"
  proof (induction bs rule: b64_encode.induct)
    case 1
    show ?case by (simp add: b64_decode_def b64_padded_def)
  next
    case (2 a)
    show ?case using b64_digits [of "of_char a" 0 0]
      by (simp add: b64_decode_def b64_padded_def Let_def numeral_2_eq_2)
  next
    case (3 a b)
    show ?case using b64_digits [of "of_char a" "of_char b" 0]
      by (simp add: b64_decode_def b64_padded_def Let_def)
  next
    case (4 a b c r)
    have split: "b64_encode (a # b # c # r) = take 4 (b64_encode (a # b # c # r)) @ b64_encode r"
      by (simp add: Let_def)
    show ?case using 4 b64_digits [of "of_char a" "of_char b" "of_char c"]
      unfolding b64_decode_def by (subst split, subst b64_padded_more) (simp_all add: Let_def)
  qed
qed

text \<open>The three layers of a token: the JSON text of scalars, its UTF-8 bytes, their base64 form.\<close>

interpretation json_compact: codec json_dumps_compact
    "\<lambda>s. case json_loads s of Some (JList xs) \<Rightarrow> Some xs | _ \<Rightarrow> None" "\<lambda>xs. \<forall>x \<in> set xs. wf_json x"
  by unfold_locales (simp add: json_compact_round_trip)

interpretation text_token: codec_pipe utf8_encode utf8_decode "\<lambda>_. True" b64_encode b64_decode "\<lambda>_. True"
  by unfold_locales simp

end
