(* ===== verification/ArtifactKey.thy ===== *)
theory ArtifactKey
  imports Codec AssetTypes
begin

text \<open>
  The identity of an artifact and its wire form, from \<open>lib/artifact_manifest.py\<close>: the kinds, the
  validated key (\<open>ArtifactKey\<close> with its \<open>__post_init__\<close> and its constructors), \<open>encode\<close> and
  \<open>decode\<close>, and the rule for a recorded artifact path (\<open>normalize_artifact_path\<close>).

  A component is a JSON value, because \<open>decode\<close> hands over whatever the payload holds. The wire
  form is the compact JSON list of kind and components, in UTF-8, in URL-safe base64 without
  padding, after a version prefix.
\<close>

subsection \<open>Keys\<close>

datatype artifact_kind =
    ASSET_SHEET | EPISODE_STEP1 | EPISODE_SCRIPT | EPISODE_GRID | EPISODE_STORYBOARD
  | EPISODE_VIDEO | EPISODE_AUDIO | EPISODE_SUBTITLE | EPISODE_PRESENTATION

fun kind_value :: "artifact_kind \<Rightarrow> string" where
  "kind_value ASSET_SHEET = ''asset-sheet''"
| "kind_value EPISODE_STEP1 = ''episode-step1''"
| "kind_value EPISODE_SCRIPT = ''episode-script''"
| "kind_value EPISODE_GRID = ''episode-grid''"
| "kind_value EPISODE_STORYBOARD = ''episode-storyboard''"
| "kind_value EPISODE_VIDEO = ''episode-video''"
| "kind_value EPISODE_AUDIO = ''episode-audio''"
| "kind_value EPISODE_SUBTITLE = ''episode-subtitle''"
| "kind_value EPISODE_PRESENTATION = ''episode-presentation''"

definition all_kinds :: "artifact_kind list" where
  "all_kinds = [ASSET_SHEET, EPISODE_STEP1, EPISODE_SCRIPT, EPISODE_GRID, EPISODE_STORYBOARD,
     EPISODE_VIDEO, EPISODE_AUDIO, EPISODE_SUBTITLE, EPISODE_PRESENTATION]"

definition kind_of :: "string \<Rightarrow> artifact_kind option" where
  "kind_of v = find (\<lambda>k. kind_value k = v) all_kinds"

record artifact_key =
  ak_kind :: artifact_kind
  ak_components :: "json list"

definition episode_ok :: "json \<Rightarrow> bool" where
  "episode_ok j = (case j of JInt i \<Rightarrow> 0 < i | _ \<Rightarrow> False)"

definition text_ok :: "json \<Rightarrow> bool" where
  "text_ok j = (case j of JStr s \<Rightarrow> s \<noteq> [] | _ \<Rightarrow> False)"

definition bad_key :: "artifact_key res" where
  "bad_key = Inl (ValueError ''artifact key components do not match'')"

text \<open>\<open>__post_init__\<close>. The test \<open>variant in {...}\<close> hashes the variant, so a list or an object raises.\<close>

definition make_key :: "(string \<Rightarrow> string) \<Rightarrow> artifact_kind \<Rightarrow> json list \<Rightarrow> artifact_key res" where
  "make_key nfc kind parts =
     (if kind = ASSET_SHEET \<and> length parts = 2 then
        (case parts of [JStr asset_type, JStr asset_id] \<Rightarrow>
           (let canonical = asset_name_comparison_key nfc asset_id in
            if asset_type \<in> set ASSET_TYPES \<and> canonical \<noteq> []
            then Inr \<lparr>ak_kind = kind, ak_components = [JStr asset_type, JStr canonical]\<rparr> else bad_key)
         | _ \<Rightarrow> bad_key)
      else if kind \<in> {EPISODE_STEP1, EPISODE_SCRIPT} \<and> length parts = 1 then
        if episode_ok (parts ! 0) then Inr \<lparr>ak_kind = kind, ak_components = parts\<rparr> else bad_key
      else if kind \<in> {EPISODE_GRID, EPISODE_STORYBOARD, EPISODE_VIDEO, EPISODE_AUDIO} \<and> length parts = 2 then
        if episode_ok (parts ! 0) \<and> text_ok (parts ! 1) then Inr \<lparr>ak_kind = kind, ak_components = parts\<rparr> else bad_key
      else if kind \<in> {EPISODE_SUBTITLE, EPISODE_PRESENTATION} \<and> length parts = 3 then
        if episode_ok (parts ! 0) \<and> text_ok (parts ! 1) then
          (case parts ! 2 of
             JStr v \<Rightarrow> if v \<in> {''post_production'', ''use_tts''} then Inr \<lparr>ak_kind = kind, ak_components = parts\<rparr> else bad_key
           | JList _ \<Rightarrow> Inl (TypeError ''unhashable type: list'')
           | JObj _ \<Rightarrow> Inl (TypeError ''unhashable type: dict'')
           | _ \<Rightarrow> bad_key)
        else bad_key
      else bad_key)"

definition episode_number_arg :: "int \<Rightarrow> int res" where
  "episode_number_arg v = (if v < 1 then Inl (ValueError ''episode must be a positive integer'') else Inr v)"

definition non_empty :: "string \<Rightarrow> string res" where
  "non_empty v = (if v = [] then Inl (ValueError ''must be a non-empty string'') else Inr v)"

definition rendition_variant :: "string \<Rightarrow> string res" where
  "rendition_variant v = (if v \<in> {''post_production'', ''use_tts''} then Inr v else Inl (ValueError ''unknown variant''))"

definition asset_sheet :: "(string \<Rightarrow> string) \<Rightarrow> string \<Rightarrow> string \<Rightarrow> artifact_key res" where
  "asset_sheet nfc asset_type asset_id =
     (if asset_type \<notin> set ASSET_TYPES then Inl (ValueError ''unsupported asset type'')
      else bind_res (non_empty asset_id) (\<lambda>i. make_key nfc ASSET_SHEET [JStr asset_type, JStr i]))"

definition episode_document :: "(string \<Rightarrow> string) \<Rightarrow> artifact_kind \<Rightarrow> int \<Rightarrow> artifact_key res" where
  "episode_document nfc kind episode = bind_res (episode_number_arg episode) (\<lambda>e. make_key nfc kind [JInt e])"

definition episode_resource :: "(string \<Rightarrow> string) \<Rightarrow> artifact_kind \<Rightarrow> int \<Rightarrow> string \<Rightarrow> artifact_key res" where
  "episode_resource nfc kind episode resource_id =
     bind_res (episode_number_arg episode) (\<lambda>e. bind_res (non_empty resource_id) (\<lambda>r. make_key nfc kind [JInt e, JStr r]))"

definition episode_rendition :: "(string \<Rightarrow> string) \<Rightarrow> artifact_kind \<Rightarrow> int \<Rightarrow> string \<Rightarrow> string \<Rightarrow> artifact_key res" where
  "episode_rendition nfc kind episode resource_id variant =
     bind_res (episode_number_arg episode) (\<lambda>e. bind_res (non_empty resource_id) (\<lambda>r.
       bind_res (rendition_variant variant) (\<lambda>v. make_key nfc kind [JInt e, JStr r, JStr v])))"

text \<open>The first error wins, as in a tuple display.\<close>

fun sequence_res :: "'a res list \<Rightarrow> 'a list res" where
  "sequence_res [] = Inr []"
| "sequence_res (r # rs) = bind_res r (\<lambda>x. bind_res (sequence_res rs) (\<lambda>xs. Inr (x # xs)))"

definition episode_resource_artifacts :: "(string \<Rightarrow> string) \<Rightarrow> int \<Rightarrow> string \<Rightarrow> artifact_key list res" where
  "episode_resource_artifacts nfc episode resource_id = sequence_res
     [episode_resource nfc EPISODE_STORYBOARD episode resource_id,
      episode_resource nfc EPISODE_VIDEO episode resource_id,
      episode_resource nfc EPISODE_AUDIO episode resource_id,
      episode_rendition nfc EPISODE_SUBTITLE episode resource_id ''post_production'',
      episode_rendition nfc EPISODE_SUBTITLE episode resource_id ''use_tts'',
      episode_rendition nfc EPISODE_PRESENTATION episode resource_id ''post_production'',
      episode_rendition nfc EPISODE_PRESENTATION episode resource_id ''use_tts'']"

definition key_episode_number :: "artifact_key \<Rightarrow> int option" where
  "key_episode_number k =
     (if ak_kind k = ASSET_SHEET then None
      else case ak_components k of JInt i # _ \<Rightarrow> Some i | _ \<Rightarrow> None)"

subsection \<open>The wire form\<close>

definition KEY_PREFIX :: string where
  "KEY_PREFIX = ''artifact-key-v1:''"

definition key_encode :: "artifact_key \<Rightarrow> string" where
  "key_encode k = KEY_PREFIX @ b64_encode (utf8_encode (json_dumps_compact (JStr (kind_value (ak_kind k)) # ak_components k)))"

definition from_parts :: "(string \<Rightarrow> string) \<Rightarrow> string \<Rightarrow> json list \<Rightarrow> artifact_key res" where
  "from_parts nfc v parts =
     (case kind_of v of None \<Rightarrow> Inl (ValueError ''unsupported artifact kind'')
      | Some kind \<Rightarrow>
          (case make_key nfc kind parts of
             Inl (ValueError e) \<Rightarrow> Inl (ValueError ''artifact key payload does not match its kind'')
           | r \<Rightarrow> r))"

definition key_decode :: "(string \<Rightarrow> string) \<Rightarrow> string \<Rightarrow> artifact_key res" where
  "key_decode nfc v =
     (case strip_prefix KEY_PREFIX v of None \<Rightarrow> Inl (ValueError ''artifact key has an unsupported encoding'')
      | Some token \<Rightarrow>
          (case Option.bind (Option.bind (b64_decode token) utf8_decode) json_loads of
             None \<Rightarrow> Inl (ValueError ''artifact key is malformed'')
           | Some (JList (JStr kind # parts)) \<Rightarrow>
               bind_res (from_parts nfc kind parts) (\<lambda>key.
                 if key_encode key \<noteq> v then Inl (ValueError ''artifact key is not canonical'') else Inr key)
           | Some _ \<Rightarrow> Inl (ValueError ''artifact key payload is malformed'')))"

subsection \<open>Recorded paths\<close>

definition MANIFEST_FILENAME :: string where "MANIFEST_FILENAME = ''.arcreel_artifacts.json''"
definition LOCK_FILENAME :: string where "LOCK_FILENAME = ''.artifact_manifest.lock''"

definition rstrip_chars :: "char list \<Rightarrow> string \<Rightarrow> string" where
  "rstrip_chars cs s = rev (dropWhile (\<lambda>c. c \<in> set cs) (rev s))"

text \<open>\<open>PurePosixPath\<close> drops empty and single-dot parts. A drive is a letter and a colon or a UNC
  prefix; a UNC prefix needs the leading double slash, which already gives an empty part.\<close>

definition posix_parts :: "string \<Rightarrow> string list" where
  "posix_parts v = filter (\<lambda>q. q \<noteq> [] \<and> q \<noteq> ''.'') (split_at (\<lambda>c. c = CHR ''/'') v)"

definition is_absolute :: "string \<Rightarrow> bool" where
  "is_absolute v \<longleftrightarrow> v \<noteq> [] \<and> hd v = CHR ''/''"

definition has_drive :: "string \<Rightarrow> bool" where
  "has_drive v \<longleftrightarrow> 2 \<le> length v \<and> (v ! 1 = CHR '':'' \<or> take 2 v = ''//'')"

definition normalize_artifact_path :: "string \<Rightarrow> string res" where
  "normalize_artifact_path v =
     (if v = [] \<or> CHR 0x00 \<in> set v \<or> CHR 0x5C \<in> set v then Inl (ValueError ''artifact path must be a non-empty POSIX path'')
      else let raw = split_at (\<lambda>c. c = CHR ''/'') v in
        if is_absolute v \<or> has_drive v \<or> (\<exists>q \<in> set raw. q \<in> {[], ''.'', ''..''})
            \<or> (\<exists>q \<in> set raw. rstrip_chars '' .'' q \<noteq> q) \<or> (\<exists>q \<in> set raw. CHR '':'' \<in> set q)
        then Inl (ValueError ''artifact path must be canonical'')
        else let normalized = join ''/'' (posix_parts v) in
          if normalized = [] \<or> normalized = ''.'' then Inl (ValueError ''artifact path must name a file'')
          else if normalized \<in> {MANIFEST_FILENAME, LOCK_FILENAME}
              \<or> length (posix_parts v) = 1 \<and> casefold (rstrip_chars '' .'' normalized) \<in> {casefold MANIFEST_FILENAME, casefold LOCK_FILENAME}
            then Inl (ValueError ''runtime-owned path cannot be registered'')
          else Inr normalized)"

subsection \<open>Round trips\<close>

lemma kind_of_value [simp]: "kind_of (kind_value k) = Some k"
  by (cases k) (simp_all add: kind_of_def all_kinds_def)

definition scalar :: "json \<Rightarrow> bool" where
  "scalar j = (case j of JInt _ \<Rightarrow> True | JStr _ \<Rightarrow> True | _ \<Rightarrow> False)"

lemma scalar_simps [simp]: "scalar (JInt i)" "scalar (JStr s)"
  by (simp_all add: scalar_def)

lemma scalar_wf: "scalar j \<Longrightarrow> wf_json j"
  by (cases j) (simp_all add: scalar_def)

lemma ok_scalar: "episode_ok j \<Longrightarrow> scalar j" "text_ok j \<Longrightarrow> scalar j"
  by (cases j; simp add: episode_ok_def text_ok_def scalar_def)+

lemma make_key_sheet:
  "make_key nfc ASSET_SHEET parts = Inr k \<longleftrightarrow>
     (\<exists>t i. parts = [JStr t, JStr i] \<and> t \<in> set ASSET_TYPES \<and> asset_name_comparison_key nfc i \<noteq> []
        \<and> k = \<lparr>ak_kind = ASSET_SHEET, ak_components = [JStr t, JStr (asset_name_comparison_key nfc i)]\<rparr>)"
  by (auto simp: make_key_def bad_key_def Let_def split: list.splits json.splits if_splits)

lemma make_key_episode:
  assumes "kind \<noteq> ASSET_SHEET" "make_key nfc kind parts = Inr k"
  shows "k = \<lparr>ak_kind = kind, ak_components = parts\<rparr>" "\<forall>j \<in> set parts. scalar j"
proof -
  show "k = \<lparr>ak_kind = kind, ak_components = parts\<rparr>"
    using assms by (auto simp: make_key_def bad_key_def split: json.splits if_splits)
  consider a where "parts = [a]" | a b where "parts = [a, b]" | a b c where "parts = [a, b, c]"
    using assms by (auto simp: make_key_def bad_key_def length_Suc_conv numeral_eq_Suc split: if_splits)
  then show "\<forall>j \<in> set parts. scalar j"
    using assms by cases (auto simp: make_key_def bad_key_def ok_scalar split: json.splits if_splits)
qed

text \<open>What the program uses of Unicode normalisation: it is idempotent and leaves the ends of a
  stripped text alone.\<close>

definition nfc_ok :: "(string \<Rightarrow> string) \<Rightarrow> bool" where
  "nfc_ok nfc \<longleftrightarrow> (\<forall>s. nfc (nfc s) = nfc s) \<and> (\<forall>s. strip (nfc (strip s)) = nfc (strip s))"

lemma comparison_key_idem: "nfc_ok nfc \<Longrightarrow> asset_name_comparison_key nfc (asset_name_comparison_key nfc s) = asset_name_comparison_key nfc s"
  by (simp add: nfc_ok_def asset_name_comparison_key_def normalize_asset_name_def)

lemma make_key_canonical:
  assumes "nfc_ok nfc" "make_key nfc kind parts = Inr k"
  shows "make_key nfc (ak_kind k) (ak_components k) = Inr k" "\<forall>j \<in> set (ak_components k). scalar j"
proof -
  show "make_key nfc (ak_kind k) (ak_components k) = Inr k"
  proof (cases "kind = ASSET_SHEET")
    case True
    then show ?thesis using assms by (auto simp: make_key_sheet comparison_key_idem)
  next
    case False
    then show ?thesis using make_key_episode(1) [OF False assms(2)] assms(2) by simp
  qed
  show "\<forall>j \<in> set (ak_components k). scalar j"
  proof (cases "kind = ASSET_SHEET")
    case True
    then show ?thesis using assms(2) by (auto simp: make_key_sheet)
  next
    case False
    then show ?thesis using make_key_episode [OF False assms(2)] by simp
  qed
qed

text \<open>The token reads back as the payload it was made of.\<close>

lemma token_payload:
  assumes "\<forall>j \<in> set xs. wf_json j"
  shows "Option.bind (Option.bind (b64_decode (b64_encode (utf8_encode (json_dumps_compact xs)))) utf8_decode) json_loads = Some (JList xs)"
  using text_token.pipe.dec_enc_bind [of "json_dumps_compact xs" json_loads] json_compact_round_trip [of xs] assms by simp

lemma decode_encode:
  assumes "nfc_ok nfc" "make_key nfc kind parts = Inr k"
  shows "key_decode nfc (key_encode k) = Inr k"
proof -
  note k = make_key_canonical [OF assms]
  have "\<forall>j \<in> set (JStr (kind_value (ak_kind k)) # ak_components k). wf_json j" using k(2) scalar_wf by simp
  from token_payload [OF this] show ?thesis
    using k(1) by (simp add: key_decode_def key_encode_def from_parts_def split: sum.split py_error.split)
qed

lemma decode_canonical: "key_decode nfc s = Inr k \<Longrightarrow> s = key_encode k"
  by (auto simp: key_decode_def bind_res_Inr_iff split: option.splits json.splits list.splits if_splits)

text \<open>
  (C19) The wire form of an artifact key is reversible and canonical: a validated key decodes to
  itself, two validated keys with the same wire form are the same key, and a text that decodes at
  all is the wire form of the key it gives, so every other spelling of that key is refused.
\<close>

theorem artifact_key_codec:
  assumes "nfc_ok nfc" "make_key nfc kind parts = Inr k"
  shows "key_decode nfc (key_encode k) = Inr k
    \<and> (\<forall>kind' parts' k'. make_key nfc kind' parts' = Inr k' \<and> key_encode k' = key_encode k \<longrightarrow> k' = k)
    \<and> (\<forall>s. key_decode nfc s = Inr k \<longrightarrow> s = key_encode k)"
proof (intro conjI allI impI)
  show "key_decode nfc (key_encode k) = Inr k" by (rule decode_encode [OF assms])
  show "k' = k" if "make_key nfc kind' parts' = Inr k' \<and> key_encode k' = key_encode k" for kind' parts' k'
    using that decode_encode [OF assms] decode_encode [OF assms(1), of kind' parts' k'] by simp
  show "s = key_encode k" if "key_decode nfc s = Inr k" for s using that by (rule decode_canonical)
qed

lemma nfc_ok_id: "nfc_ok (\<lambda>s. s)"
  by (simp add: nfc_ok_def strip_idem)

theorem artifact_key_codec_witness:
  "\<exists>k. asset_sheet (\<lambda>s. s) ''character'' '' Li '' = Inr k \<and> key_encode k = ''artifact-key-v1:WyJhc3NldC1zaGVldCIsImNoYXJhY3RlciIsIkxpIl0''
     \<and> key_decode (\<lambda>s. s) (key_encode k) = Inr k"
proof -
  let ?k = "\<lparr>ak_kind = ASSET_SHEET, ak_components = [JStr ''character'', JStr ''Li'']\<rparr>"
  have "make_key (\<lambda>s. s) ASSET_SHEET [JStr ''character'', JStr '' Li ''] = Inr ?k" by code_simp
  moreover have "asset_sheet (\<lambda>s. s) ''character'' '' Li '' = Inr ?k" by code_simp
  moreover have "key_encode ?k = ''artifact-key-v1:WyJhc3NldC1zaGVldCIsImNoYXJhY3RlciIsIkxpIl0''" by code_simp
  ultimately show ?thesis using artifact_key_codec [OF nfc_ok_id] by blast
qed

text \<open>A payload whose variant is a list escapes \<open>decode\<close> as a \<open>TypeError\<close>, although every malformed
  key is meant to be a \<open>ValueError\<close>.\<close>

lemma decode_unhashable:
  "key_decode nfc (KEY_PREFIX @ b64_encode (utf8_encode (json_dumps_compact [JStr ''episode-subtitle'', JInt 1, JStr ''a'', JList []])))
     = Inl (TypeError ''unhashable type: list'')"
proof -
  let ?xs = "[JStr ''episode-subtitle'', JInt 1, JStr ''a'', JList []]"
  have "kind_of ''episode-subtitle'' = Some EPISODE_SUBTITLE" using kind_of_value [of EPISODE_SUBTITLE] by simp
  then show ?thesis using token_payload [of ?xs]
    by (simp add: key_decode_def from_parts_def make_key_def episode_ok_def text_ok_def)
qed

end
