(* ===== verification/GenResult.thy ===== *)
theory GenResult
  imports ArtifactKey TaskFailure
begin

text \<open>
  The result contract of every generation entry point, \<open>lib/generation_result.py\<close>: selecting the
  targets of a request, lifting a task failure into a problem with a closed next action, and the
  builder that accumulates one outcome per unit and emits the validated batch result.

  The comparison of an artifact with its current basis (\<open>ArtifactCurrencyResolver.compare\<close>) is the
  argument \<open>resolver\<close>: absent, or a function that gives a status or the text of the exception the
  code catches. Whether a recorded path is a file is the argument \<open>is_file\<close>. Rendering a result
  as text is not modelled.
\<close>

subsection \<open>Vocabulary\<close>

datatype selection_mode = EXPLICIT | MISSING_ONLY

datatype item_state = SUCCEEDED | FAILED | BLOCKED

datatype task_state = NOT_QUEUED | TASK_SUCCEEDED | TASK_FAILED | TASK_CANCELLED | TASK_INTERRUPTED

datatype artifact_status = CURRENT | STALE | MISSING | STATUS_BLOCKED

datatype generation_action =
    RETRY | RESUME | FIX_INPUT | GENERATE_DEPENDENCY | GENERATE_TTS | REGENERATE_TTS | WAIT_FOR_TASK
  | REPLAN_UNIT | CONFIRM_REQUEST_DURATION | CONFIGURE_PROVIDER | REPAIR_ARTIFACT_STATE | NO_ACTION

definition UNIT_NOT_FOUND :: string where "UNIT_NOT_FOUND = ''generation_unit_not_found''"
definition ARTIFACT_STATE_UNAVAILABLE :: string where "ARTIFACT_STATE_UNAVAILABLE = ''generation_artifact_state_unavailable''"
definition ENQUEUE_FAILED :: string where "ENQUEUE_FAILED = ''generation_enqueue_failed''"
definition BATCH_ADMISSION_WITHHELD :: string where "BATCH_ADMISSION_WITHHELD = ''generation_batch_admission_withheld''"
definition TASK_FAILED_CODE :: string where "TASK_FAILED_CODE = ''generation_task_failed''"
definition TASK_CANCELLED_CODE :: string where "TASK_CANCELLED_CODE = ''generation_task_cancelled''"
definition TASK_INTERRUPTED_CODE :: string where "TASK_INTERRUPTED_CODE = ''generation_task_interrupted''"

definition TASK_FAILURE_ACTIONS :: "(string \<times> generation_action) list" where
  "TASK_FAILURE_ACTIONS = [
    (''needs_replan'', REPLAN_UNIT), (''tts_missing'', GENERATE_TTS), (''tts_stale'', REGENERATE_TTS),
    (''tts_generating'', WAIT_FOR_TASK), (''tts_not_applicable'', FIX_INPUT),
    (''tts_not_configured'', CONFIGURE_PROVIDER), (''tts_state_unavailable'', REPAIR_ARTIFACT_STATE),
    (''tts_duration_unavailable'', REGENERATE_TTS),
    (''tts_conflicts_with_active_narrated_video'', WAIT_FOR_TASK),
    (''reference_duration_confirmation_required'', CONFIRM_REQUEST_DURATION),
    (''reference_asset_missing'', GENERATE_DEPENDENCY), (''reference_declaration_invalid'', FIX_INPUT),
    (''reference_capability_unavailable'', CONFIGURE_PROVIDER),
    (''reference_capability_changed'', CONFIGURE_PROVIDER),
    (''reference_supported_durations_missing'', CONFIGURE_PROVIDER),
    (''reference_supported_durations_invalid'', CONFIGURE_PROVIDER),
    (''reference_supported_durations_incompatible'', CONFIGURE_PROVIDER),
    (''video_audio_switch_not_supported'', CONFIGURE_PROVIDER),
    (''video_capability_missing_i2v'', CONFIGURE_PROVIDER),
    (''video_capability_missing_r2v'', CONFIGURE_PROVIDER),
    (''video_capability_missing_t2v'', CONFIGURE_PROVIDER),
    (''video_capability_reference_unavailable'', CONFIGURE_PROVIDER),
    (''image_capability_missing_i2i'', CONFIGURE_PROVIDER),
    (''image_capability_missing_t2i'', CONFIGURE_PROVIDER),
    (''image_endpoint_mismatch_no_i2i'', CONFIGURE_PROVIDER),
    (''image_endpoint_mismatch_no_t2i'', CONFIGURE_PROVIDER),
    (''provider_unsupported_media'', CONFIGURE_PROVIDER), (''execution_identity_unrecoverable'', RETRY),
    (''video_shorter_than_tts'', RETRY), (''script_edit_error'', FIX_INPUT),
    (''script_edit_items_not_list'', FIX_INPUT), (''script_edit_unit_lists_invalid'', FIX_INPUT),
    (''script_edit_generated_assets_invalid'', FIX_INPUT),
    (''image_dashscope_4k_t2i_only'', CONFIGURE_PROVIDER),
    (''video_duration_unavailable'', CONFIGURE_PROVIDER),
    (''video_supported_durations_missing'', CONFIGURE_PROVIDER),
    (''video_last_frame_requires_pro'', CONFIGURE_PROVIDER),
    (''video_last_frame_unsupported'', CONFIGURE_PROVIDER),
    (''video_reference_images_unsupported'', CONFIGURE_PROVIDER),
    (''video_reference_images_with_frames_unsupported'', CONFIGURE_PROVIDER),
    (''video_reference_audio_unsupported'', CONFIGURE_PROVIDER), (''ref_payload_floor_exceeded'', FIX_INPUT),
    (''video_duration_invalid'', FIX_INPUT), (''video_duration_not_supported'', FIX_INPUT),
    (''video_end_image_requires_start_image'', FIX_INPUT), (''video_prompt_too_long'', FIX_INPUT),
    (''video_resolution_duration_unsupported'', FIX_INPUT),
    (''video_reference_images_duration_unsupported'', FIX_INPUT),
    (''video_reference_images_exceeded'', FIX_INPUT),
    (''video_reference_audio_duration_exceeded'', FIX_INPUT),
    (''video_reference_audio_exceeded'', FIX_INPUT),
    (''video_reference_audio_format_unsupported'', FIX_INPUT),
    (''video_reference_audio_slots_insufficient'', FIX_INPUT),
    (''cascade_blocked_dependency'', GENERATE_DEPENDENCY),
    (''image_reference_images_unreadable'', GENERATE_DEPENDENCY),
    (''video_start_image_unreadable'', GENERATE_DEPENDENCY),
    (''video_end_image_unreadable'', GENERATE_DEPENDENCY),
    (''video_reference_images_required'', GENERATE_DEPENDENCY),
    (''video_reference_images_unreadable'', GENERATE_DEPENDENCY),
    (''video_reference_audio_unreadable'', GENERATE_DEPENDENCY),
    (''dispatch_provider_requeue_failed'', RETRY), (''restart_lost_image'', RETRY),
    (''restart_lost_audio'', RETRY), (''restart_lost_no_job_id'', RETRY),
    (''restart_lost_resume_no_job_id'', RETRY), (''restart_lost_checkpoint_no_job_id'', RETRY),
    (''resume_unsupported_provider'', RETRY), (''resume_unsupported_capacity_zero'', RETRY),
    (''resume_unsupported_detail'', RETRY), (''resume_expired_detail'', RETRY),
    (''resume_endpoint_changed_detail'', RETRY)]"

record problem =
  pr_code :: string
  pr_detail :: string
  pr_action :: generation_action
  pr_params :: params

record provider_checkpoint =
  pc_submitted :: bool
  pc_provider_id :: "string option"
  pc_provider_job_id :: "string option"

record item_result =
  it_unit_id :: string
  it_state :: item_state
  it_artifact_key :: "string option"
  it_artifact_path :: "string option"
  it_task_id :: "string option"
  it_task_state :: task_state
  it_artifact_status :: "artifact_status option"
  it_checkpoint :: "provider_checkpoint option"
  it_problem :: "problem option"

text \<open>The validator of an item: exactly the items that did not succeed carry a problem.\<close>

definition problem_matches_state :: "item_result \<Rightarrow> item_result res" where
  "problem_matches_state it =
     (if it_state it = SUCCEEDED then
        if it_problem it \<noteq> None then Inl (ValueError ''a succeeded item must not carry a problem'') else Inr it
      else if it_problem it = None then Inl (ValueError ''an item must carry a problem'') else Inr it)"

record skipped_item =
  sk_unit_id :: string
  sk_artifact_key :: "string option"
  sk_artifact_path :: "string option"
  sk_artifact_status :: "artifact_status option"

record batch_result =
  br_operation :: string
  br_selection :: selection_mode
  br_requested :: "string list"
  br_succeeded :: "string list"
  br_failed :: "string list"
  br_blocked :: "string list"
  br_skipped :: "skipped_item list"
  br_items :: "item_result list"

definition bucket_ids :: "batch_result \<Rightarrow> item_state \<Rightarrow> string list" where
  "bucket_ids r st = (case st of SUCCEEDED \<Rightarrow> br_succeeded r | FAILED \<Rightarrow> br_failed r | BLOCKED \<Rightarrow> br_blocked r)"

definition sets_are_exhaustive_and_exclusive :: "batch_result \<Rightarrow> batch_result res" where
  "sets_are_exhaustive_and_exclusive r =
     (let union = br_succeeded r @ br_failed r @ br_blocked r; item_ids = map it_unit_id (br_items r);
          skipped_ids = map sk_unit_id (br_skipped r) in
      if \<not> distinct (br_succeeded r) \<or> \<not> distinct (br_failed r) \<or> \<not> distinct (br_blocked r) then Inl (ValueError ''duplicate ids'')
      else if \<not> distinct union then Inl (ValueError ''must be mutually exclusive'')
      else if sort union \<noteq> sort (remdups (br_requested r)) \<or> \<not> distinct (br_requested r)
        then Inl (ValueError ''requested must equal the union'')
      else if sort item_ids \<noteq> sort (br_requested r) then Inl (ValueError ''items must cover exactly the requested ids'')
      else if \<exists>it \<in> set (br_items r). it_unit_id it \<notin> set (bucket_ids r (it_state it))
        then Inl (ValueError ''state does not match its bucket'')
      else if \<not> distinct skipped_ids then Inl (ValueError ''duplicate ids in skipped'')
      else if set skipped_ids \<inter> set (br_requested r) \<noteq> {} then Inl (ValueError ''skipped ids must not appear in requested'')
      else Inr r)"

definition result_ok :: "batch_result \<Rightarrow> bool" where
  "result_ok r \<longleftrightarrow> br_failed r = [] \<and> br_blocked r = []"

subsection \<open>Selection\<close>

record blocker =
  bl_code :: string
  bl_path :: string
  bl_detail :: string

record candidate =
  ca_unit_id :: string
  ca_artifact_key :: "artifact_key option"
  ca_artifact_path :: "string option"

record target_state =
  ts_candidate :: candidate
  ts_status :: "artifact_status option"
  ts_blocker :: "blocker option"

abbreviation ts_unit_id :: "target_state \<Rightarrow> string" where "ts_unit_id s \<equiv> ca_unit_id (ts_candidate s)"
abbreviation ts_artifact_key :: "target_state \<Rightarrow> artifact_key option" where "ts_artifact_key s \<equiv> ca_artifact_key (ts_candidate s)"
abbreviation ts_artifact_path :: "target_state \<Rightarrow> string option" where "ts_artifact_path s \<equiv> ca_artifact_path (ts_candidate s)"

record selection =
  se_mode :: selection_mode
  se_targets :: "target_state list"
  se_skipped :: "target_state list"
  se_unavailable :: "target_state list"
  se_unmatched_ids :: "string list"

type_synonym resolver = "(artifact_key \<Rightarrow> string \<Rightarrow> string + artifact_status \<times> blocker option) option"

definition observe_artifact_status ::
  "resolver \<Rightarrow> artifact_key option \<Rightarrow> string option \<Rightarrow> artifact_status option \<times> blocker option" where
  "observe_artifact_status resolver key path =
     (case path of
        None \<Rightarrow> (Some MISSING, None)
      | Some p \<Rightarrow>
          if p = [] then (Some MISSING, None)
          else (case resolver of
              None \<Rightarrow> (None, None)
            | Some compare \<Rightarrow>
                (case key of
                   None \<Rightarrow> (None, None)
                 | Some k \<Rightarrow>
                     (case compare k p of
                        Inl exc \<Rightarrow> (Some STATUS_BLOCKED, Some \<lparr>bl_code = ''artifact_currency_unavailable'', bl_path = p, bl_detail = exc\<rparr>)
                      | Inr (status, b) \<Rightarrow> (Some status, b)))))"

definition recorded_artifact_is_present :: "target_state \<Rightarrow> bool \<Rightarrow> (string \<Rightarrow> bool) \<Rightarrow> bool" where
  "recorded_artifact_is_present s manifest_active is_file =
     (if manifest_active then True
      else case ts_artifact_path s of
        None \<Rightarrow> False
      | Some p \<Rightarrow> if p = [] then False
          else (case normalize_artifact_path p of Inl e \<Rightarrow> False | Inr rel \<Rightarrow> is_file rel))"

definition artifact_is_reusable :: "target_state \<Rightarrow> bool \<Rightarrow> (string \<Rightarrow> bool) \<Rightarrow> bool" where
  "artifact_is_reusable s manifest_active is_file =
     (if \<not> manifest_active then recorded_artifact_is_present s manifest_active is_file
      else ts_status s \<in> {Some CURRENT, Some STALE})"

text \<open>\<open>list(dict.fromkeys(xs))\<close> keeps the first occurrence of each value.\<close>

definition dedup :: "'a list \<Rightarrow> 'a list" where
  "dedup xs = rev (remdups (rev xs))"

text \<open>\<open>py_str\<close> is Python's \<open>str\<close> on the values of the array.\<close>

definition normalize_requested_ids :: "(json \<Rightarrow> string) \<Rightarrow> json \<Rightarrow> string list option res" where
  "normalize_requested_ids py_str raw =
     (case raw of
        JNull \<Rightarrow> Inr None
      | JList vs \<Rightarrow> (let ids = dedup (map py_str vs) in
          if ids = [] then Inl (ValueError ''must not be an empty array'') else Inr (Some ids))
      | _ \<Rightarrow> Inl (ValueError ''must be an array of ids''))"

definition observed :: "resolver \<Rightarrow> candidate \<Rightarrow> target_state" where
  "observed resolver c = (let (status, b) = observe_artifact_status resolver (ca_artifact_key c) (ca_artifact_path c)
     in \<lparr>ts_candidate = c, ts_status = status, ts_blocker = b\<rparr>)"

definition reusable_now :: "bool \<Rightarrow> (string \<Rightarrow> bool) \<Rightarrow> (candidate \<Rightarrow> bool) option \<Rightarrow> target_state \<Rightarrow> bool" where
  "reusable_now manifest_active is_file override s =
     (let reusable = artifact_is_reusable s manifest_active is_file in
      if \<not> reusable \<and> (case override of None \<Rightarrow> False | Some f \<Rightarrow> f (ts_candidate s))
      then recorded_artifact_is_present s manifest_active is_file else reusable)"

fun missing_loop ::
  "bool \<Rightarrow> (string \<Rightarrow> bool) \<Rightarrow> (candidate \<Rightarrow> bool) option \<Rightarrow> target_state list \<Rightarrow> selection \<Rightarrow> selection" where
  "missing_loop active is_file override [] sel = sel"
| "missing_loop active is_file override (s # ss) sel =
     missing_loop active is_file override ss
       (if ts_unit_id s = [] then sel
        else if ts_status s = Some STATUS_BLOCKED then sel\<lparr>se_unavailable := se_unavailable sel @ [s]\<rparr>
        else if reusable_now active is_file override s then sel\<lparr>se_skipped := se_skipped sel @ [s]\<rparr>
        else sel\<lparr>se_targets := se_targets sel @ [s]\<rparr>)"

definition select_generation_targets ::
  "resolver \<Rightarrow> (string \<Rightarrow> bool) \<Rightarrow> (candidate \<Rightarrow> bool) option \<Rightarrow> candidate list \<Rightarrow> string list option \<Rightarrow> selection res" where
  "select_generation_targets resolver is_file override candidates requested_ids =
     (if requested_ids = Some [] then Inl (ValueError ''an explicit id set must not be empty'')
      else let states = map (observed resolver) candidates in
        case requested_ids of
          Some ids \<Rightarrow>
            (let wanted = dedup ids;
                 by_id = dict_of (map (\<lambda>s. (ts_unit_id s, s)) (filter (\<lambda>s. ts_unit_id s \<noteq> []) states)) in
             Inr \<lparr>se_mode = EXPLICIT, se_targets = List.map_filter (dict_get by_id) wanted, se_skipped = [], se_unavailable = [],
                  se_unmatched_ids = filter (\<lambda>u. dict_get by_id u = None) wanted\<rparr>)
        | None \<Rightarrow> Inr (missing_loop (resolver \<noteq> None) is_file override states
            \<lparr>se_mode = MISSING_ONLY, se_targets = [], se_skipped = [], se_unavailable = [], se_unmatched_ids = []\<rparr>))"

subsection \<open>Problems\<close>

definition problem_from_task_failure :: "string option \<Rightarrow> bool \<Rightarrow> bool \<Rightarrow> problem" where
  "problem_from_task_failure error_message cancelled interrupted =
     (if cancelled then
        \<lparr>pr_code = TASK_CANCELLED_CODE, pr_detail = opt_or error_message ''task cancelled'', pr_action = RETRY, pr_params = []\<rparr>
      else if interrupted then
        \<lparr>pr_code = TASK_INTERRUPTED_CODE,
         pr_detail = opt_or error_message ''wait for task was interrupted before it reached a terminal state'',
         pr_action = WAIT_FOR_TASK, pr_params = []\<rparr>
      else (case parse_failure error_message of
          None \<Rightarrow> \<lparr>pr_code = TASK_FAILED_CODE, pr_detail = opt_or error_message ''task failed'', pr_action = RETRY, pr_params = []\<rparr>
        | Some (code, ps) \<Rightarrow>
            \<lparr>pr_code = code, pr_detail = opt_or error_message code,
             pr_action = dict_get_default TASK_FAILURE_ACTIONS code RETRY, pr_params = ps\<rparr>))"

definition artifact_state_problem :: "target_state \<Rightarrow> problem" where
  "artifact_state_problem s =
     \<lparr>pr_code = ARTIFACT_STATE_UNAVAILABLE,
      pr_detail = (case ts_blocker s of Some b \<Rightarrow> bl_detail b | None \<Rightarrow> ''artifact state is unavailable''),
      pr_action = REPAIR_ARTIFACT_STATE,
      pr_params = (case ts_blocker s of Some b \<Rightarrow> [(''blocker_code'', JStr (bl_code b))] | None \<Rightarrow> [])\<rparr>"

definition as_text :: "json \<Rightarrow> string option" where
  "as_text v = (case v of JStr t \<Rightarrow> Some t | _ \<Rightarrow> None)"

definition provider_checkpoint_from_task :: "params option \<Rightarrow> provider_checkpoint option" where
  "provider_checkpoint_from_task task =
     (case task of None \<Rightarrow> None
      | Some t \<Rightarrow>
          (let job = dict_get_default t ''provider_job_id'' JNull; pid = dict_get_default t ''provider_id'' JNull in
           if \<not> truthy job \<and> pid = JNull \<and> \<not> truthy (dict_get_default t ''execution_checkpoint_json'' JNull) then None
           else Some \<lparr>pc_submitted = truthy job, pc_provider_id = as_text pid, pc_provider_job_id = as_text job\<rparr>))"

subsection \<open>The builder\<close>

record builder =
  bu_operation :: string
  bu_selection :: selection_mode
  bu_items :: "item_result list"
  bu_skipped :: "skipped_item list"
  bu_seen :: "string set"

definition new_builder :: "string \<Rightarrow> selection_mode \<Rightarrow> builder" where
  "new_builder operation sel = \<lparr>bu_operation = operation, bu_selection = sel, bu_items = [], bu_skipped = [], bu_seen = {}\<rparr>"

definition record_item :: "item_result \<Rightarrow> builder \<Rightarrow> builder res" where
  "record_item it b =
     (if it_unit_id it \<in> bu_seen b then Inl (ValueError ''unit already recorded'')
      else Inr (b\<lparr>bu_seen := insert (it_unit_id it) (bu_seen b), bu_items := bu_items b @ [it]\<rparr>))"

definition encode_key :: "artifact_key option \<Rightarrow> string option" where
  "encode_key k = map_option key_encode k"

definition skip_unit :: "string \<Rightarrow> artifact_key option \<Rightarrow> string option \<Rightarrow> artifact_status option \<Rightarrow> builder \<Rightarrow> builder res" where
  "skip_unit u key path status b =
     (if u \<in> bu_seen b then Inl (ValueError ''unit already recorded'')
      else Inr (b\<lparr>bu_seen := insert u (bu_seen b), bu_skipped := bu_skipped b @
        [\<lparr>sk_unit_id = u, sk_artifact_key = encode_key key, sk_artifact_path = path, sk_artifact_status = status\<rparr>]\<rparr>))"

definition skip :: "target_state \<Rightarrow> builder \<Rightarrow> builder res" where
  "skip s = skip_unit (ts_unit_id s) (ts_artifact_key s) (ts_artifact_path s) (ts_status s)"

definition succeed :: "string \<Rightarrow> artifact_key option \<Rightarrow> string option \<Rightarrow> string option \<Rightarrow> artifact_status option \<Rightarrow>
    provider_checkpoint option \<Rightarrow> builder \<Rightarrow> builder res" where
  "succeed u key path task_id status cp b =
     bind_res (problem_matches_state
       \<lparr>it_unit_id = u, it_state = SUCCEEDED, it_artifact_key = encode_key key, it_artifact_path = path, it_task_id = task_id,
        it_task_state = (if task_id \<noteq> None \<and> task_id \<noteq> Some [] then TASK_SUCCEEDED else NOT_QUEUED),
        it_artifact_status = status, it_checkpoint = cp, it_problem = None\<rparr>)
     (\<lambda>it. record_item it b)"

definition fail :: "string \<Rightarrow> problem \<Rightarrow> artifact_key option \<Rightarrow> string option \<Rightarrow> string option \<Rightarrow> task_state \<Rightarrow>
    artifact_status option \<Rightarrow> provider_checkpoint option \<Rightarrow> builder \<Rightarrow> builder res" where
  "fail u pb key path task_id ts status cp b =
     bind_res (problem_matches_state
       \<lparr>it_unit_id = u, it_state = FAILED, it_artifact_key = encode_key key, it_artifact_path = path, it_task_id = task_id,
        it_task_state = ts, it_artifact_status = status, it_checkpoint = cp, it_problem = Some pb\<rparr>)
     (\<lambda>it. record_item it b)"

definition block :: "string \<Rightarrow> problem \<Rightarrow> artifact_key option \<Rightarrow> string option \<Rightarrow> artifact_status option \<Rightarrow> builder \<Rightarrow> builder res" where
  "block u pb key path status b =
     bind_res (problem_matches_state
       \<lparr>it_unit_id = u, it_state = BLOCKED, it_artifact_key = encode_key key, it_artifact_path = path, it_task_id = None,
        it_task_state = NOT_QUEUED, it_artifact_status = status, it_checkpoint = None, it_problem = Some pb\<rparr>)
     (\<lambda>it. record_item it b)"

text \<open>A \<open>for\<close> loop of builder calls: the first exception ends it.\<close>

fun each :: "('a \<Rightarrow> 'b \<Rightarrow> 'b res) \<Rightarrow> 'a list \<Rightarrow> 'b \<Rightarrow> 'b res" where
  "each f [] b = Inr b"
| "each f (x # xs) b = bind_res (f x b) (each f xs)"

definition absorb :: "selection \<Rightarrow> builder \<Rightarrow> builder res" where
  "absorb sel b =
     bind_res (each skip (se_skipped sel) b) (\<lambda>b.
     bind_res (each (\<lambda>s. block (ts_unit_id s) (artifact_state_problem s) (ts_artifact_key s) (ts_artifact_path s) (ts_status s))
       (se_unavailable sel) b) (\<lambda>b.
     each (\<lambda>u. block u \<lparr>pr_code = UNIT_NOT_FOUND, pr_detail = ''unit '' @ u @ '' does not exist in the current project'',
         pr_action = FIX_INPUT, pr_params = []\<rparr> None None None)
       (se_unmatched_ids sel) b))"

definition from_selection :: "string \<Rightarrow> selection \<Rightarrow> builder res" where
  "from_selection operation sel = absorb sel (new_builder operation (se_mode sel))"

definition has_failures :: "builder \<Rightarrow> bool" where
  "has_failures b \<longleftrightarrow> (\<exists>it \<in> set (bu_items b). it_state it = FAILED)"

definition ids_in_state :: "item_state \<Rightarrow> item_result list \<Rightarrow> string list" where
  "ids_in_state st its = map it_unit_id (filter (\<lambda>it. it_state it = st) its)"

definition batch_of :: "builder \<Rightarrow> batch_result" where
  "batch_of b =
     \<lparr>br_operation = bu_operation b, br_selection = bu_selection b, br_requested = map it_unit_id (bu_items b),
      br_succeeded = ids_in_state SUCCEEDED (bu_items b), br_failed = ids_in_state FAILED (bu_items b),
      br_blocked = ids_in_state BLOCKED (bu_items b), br_skipped = bu_skipped b, br_items = bu_items b\<rparr>"

definition build :: "builder \<Rightarrow> batch_result res" where
  "build b = sets_are_exhaustive_and_exclusive (batch_of b)"

subsection \<open>Folding a queue batch\<close>

record batch_task_result =
  bt_resource_id :: string
  bt_task_id :: string
  bt_status :: string
  bt_result :: "params option"
  bt_error :: "string option"
  bt_task :: "params option"

definition state_of :: "(string \<times> target_state) list option \<Rightarrow> string \<Rightarrow> target_state" where
  "state_of states u = (case dict_get (case states of None \<Rightarrow> [] | Some d \<Rightarrow> d) u of Some s \<Rightarrow> s
     | None \<Rightarrow> \<lparr>ts_candidate = \<lparr>ca_unit_id = u, ca_artifact_key = None, ca_artifact_path = None\<rparr>, ts_status = None, ts_blocker = None\<rparr>)"

definition unit_of :: "(string \<Rightarrow> string) option \<Rightarrow> batch_task_result \<Rightarrow> string" where
  "unit_of unit_id_of br = (case unit_id_of of Some f \<Rightarrow> f (bt_resource_id br) | None \<Rightarrow> bt_resource_id br)"

text \<open>The result path: what the worker returned, else the conventional path. A path that is no text
  is refused by the item model.\<close>

definition result_path :: "(string \<Rightarrow> string) option \<Rightarrow> batch_task_result \<Rightarrow> string option res" where
  "result_path fallback br =
     (let v = dict_get_default (case bt_result br of None \<Rightarrow> [] | Some d \<Rightarrow> d) ''file_path'' JNull in
      if \<not> truthy v then Inr (map_option (\<lambda>f. f (bt_resource_id br)) fallback)
      else case v of JStr p \<Rightarrow> Inr (Some p) | _ \<Rightarrow> Inl (ValueError ''artifact_path must be a string''))"

definition record_success ::
  "(string \<times> target_state) list option \<Rightarrow> resolver \<Rightarrow> (string \<Rightarrow> string) option \<Rightarrow> (string \<Rightarrow> string) option \<Rightarrow> batch_task_result \<Rightarrow> builder \<Rightarrow> builder res" where
  "record_success states resolver unit_id_of fallback br b =
     (let u = unit_of unit_id_of br; st = state_of states u in
      bind_res (result_path fallback br) (\<lambda>rel.
        succeed u (ts_artifact_key st) rel (Some (bt_task_id br))
          (fst (observe_artifact_status resolver (ts_artifact_key st) rel)) (provider_checkpoint_from_task (bt_task br)) b))"

definition record_failure ::
  "(string \<times> target_state) list option \<Rightarrow> (string \<Rightarrow> string) option \<Rightarrow> batch_task_result \<Rightarrow> builder \<Rightarrow> builder res" where
  "record_failure states unit_id_of br b =
     (let u = unit_of unit_id_of br; st = state_of states u;
          (ts, pb) = (if bt_task_id br = [] then
              (NOT_QUEUED, \<lparr>pr_code = ENQUEUE_FAILED, pr_detail = opt_or (bt_error br) ''enqueue failed'', pr_action = RETRY, pr_params = []\<rparr>)
            else (if bt_status br = ''cancelled'' then TASK_CANCELLED
                  else if bt_status br = ''interrupted'' then TASK_INTERRUPTED else TASK_FAILED,
                  problem_from_task_failure (bt_error br) (bt_status br = ''cancelled'') (bt_status br = ''interrupted''))) in
      fail u pb (ts_artifact_key st) (ts_artifact_path st) (if bt_task_id br = [] then None else Some (bt_task_id br)) ts
        (ts_status st) (provider_checkpoint_from_task (bt_task br)) b)"

definition record_batch_outcomes ::
  "(string \<times> target_state) list option \<Rightarrow> resolver \<Rightarrow> (string \<Rightarrow> string) option \<Rightarrow> (string \<Rightarrow> string) option \<Rightarrow>
    batch_task_result list \<Rightarrow> batch_task_result list \<Rightarrow> builder \<Rightarrow> builder res" where
  "record_batch_outcomes states resolver unit_id_of fallback successes failures b =
     bind_res (each (record_success states resolver unit_id_of fallback) successes b)
       (each (record_failure states unit_id_of) failures)"

subsection \<open>The contract of a recording operation\<close>

definition builder_ok :: "builder \<Rightarrow> bool" where
  "builder_ok b \<longleftrightarrow> bu_seen b = set (map it_unit_id (bu_items b)) \<union> set (map sk_unit_id (bu_skipped b))
     \<and> distinct (map it_unit_id (bu_items b) @ map sk_unit_id (bu_skipped b))
     \<and> (\<forall>it \<in> set (bu_items b). problem_matches_state it = Inr it)"

text \<open>
  An operation on the builder keeps the invariant and only appends. A loop over such operations is
  one again, which carries the fold of a selection and of a queue batch.
\<close>

locale builder_op =
  fixes run :: "'x \<Rightarrow> builder \<Rightarrow> builder res"
  assumes keeps: "builder_ok b \<Longrightarrow> run x b = Inr b' \<Longrightarrow> builder_ok b'"
    and appends: "run x b = Inr b' \<Longrightarrow> \<exists>its sks. bu_items b' = bu_items b @ its \<and> bu_skipped b' = bu_skipped b @ sks"
begin

lemma each_keeps: "builder_ok b \<Longrightarrow> each run xs b = Inr b' \<Longrightarrow> builder_ok b'"
  by (induction xs arbitrary: b) (auto simp: bind_res_Inr_iff dest: keeps)

lemma each_appends: "each run xs b = Inr b' \<Longrightarrow> \<exists>its sks. bu_items b' = bu_items b @ its \<and> bu_skipped b' = bu_skipped b @ sks"
proof (induction xs arbitrary: b)
  case (Cons x xs)
  then obtain c where "run x b = Inr c" "each run xs c = Inr b'" by (auto simp: bind_res_Inr_iff)
  then show ?case using appends [of x b c] Cons.IH [of c] by auto
qed simp

end

text \<open>An operation that records one unit raises only when that unit was recorded before.\<close>

locale unit_op = builder_op run for run :: "'x \<Rightarrow> builder \<Rightarrow> builder res" +
  fixes uid :: "'x \<Rightarrow> string"
  assumes fresh: "uid x \<notin> bu_seen b \<Longrightarrow> \<exists>b'. run x b = Inr b' \<and> bu_seen b' = insert (uid x) (bu_seen b)"
    and seen: "uid x \<in> bu_seen b \<Longrightarrow> \<exists>e. run x b = Inl e"
begin

lemma each_fresh:
  "distinct (map uid xs) \<Longrightarrow> uid ` set xs \<inter> bu_seen b = {} \<Longrightarrow> \<exists>b'. each run xs b = Inr b' \<and> bu_seen b' = bu_seen b \<union> uid ` set xs"
proof (induction xs arbitrary: b)
  case (Cons x xs)
  then have "uid x \<notin> bu_seen b" by auto
  from fresh [OF this] obtain c where c: "run x b = Inr c" "bu_seen c = insert (uid x) (bu_seen b)" by blast
  then have "uid ` set xs \<inter> bu_seen c = {}" using Cons.prems by auto
  then obtain b' where "each run xs c = Inr b'" "bu_seen b' = bu_seen c \<union> uid ` set xs" using Cons.IH [of c] Cons.prems(1) by auto
  then show ?case using c by auto
qed simp

end

lemma distinct_mid:
  "distinct (xs @ u # ys) \<longleftrightarrow> distinct (xs @ ys) \<and> u \<notin> set xs \<union> set ys"
  "distinct (xs @ ys @ [u]) \<longleftrightarrow> distinct (xs @ ys) \<and> u \<notin> set xs \<union> set ys"
  by auto

lemma record_item_keeps:
  assumes "builder_ok b" "problem_matches_state it = Inr it" "record_item it b = Inr b'"
  shows "builder_ok b'"
  using assms by (auto simp: builder_ok_def record_item_def distinct_mid simp del: distinct_append split: if_splits)

lemma record_item_Inr: "record_item it b = Inr b' \<Longrightarrow> bu_items b' = bu_items b @ [it] \<and> bu_skipped b' = bu_skipped b \<and> it_unit_id it \<notin> bu_seen b"
  by (auto simp: record_item_def split: if_splits)

lemma problem_matches_Inr: "problem_matches_state it = Inr it' \<Longrightarrow> it' = it"
  by (auto simp: problem_matches_state_def split: if_splits)

interpretation recording: builder_op "\<lambda>it b. bind_res (problem_matches_state it) (\<lambda>it. record_item it b)"
proof
  fix b b' it
  assume run: "bind_res (problem_matches_state it) (\<lambda>it. record_item it b) = Inr b'"
  then have it: "problem_matches_state it = Inr it" "record_item it b = Inr b'"
    by (auto simp: bind_res_Inr_iff dest: problem_matches_Inr)
  show "builder_ok b \<Longrightarrow> builder_ok b'" using record_item_keeps it by blast
  show "\<exists>its sks. bu_items b' = bu_items b @ its \<and> bu_skipped b' = bu_skipped b @ sks"
    using record_item_Inr [OF it(2)] by auto
qed

lemma skip_unit_keeps: "builder_ok b \<Longrightarrow> skip_unit u key path status b = Inr b' \<Longrightarrow> builder_ok b'"
  by (auto simp: skip_unit_def builder_ok_def distinct_mid simp del: distinct_append split: if_splits)

interpretation skipping: unit_op skip "\<lambda>s. ts_unit_id s"
proof
  fix b b' s
  assume run: "skip s b = Inr b'"
  show "builder_ok b \<Longrightarrow> builder_ok b'" using run unfolding skip_def by (rule skip_unit_keeps [rotated])
  show "\<exists>its sks. bu_items b' = bu_items b @ its \<and> bu_skipped b' = bu_skipped b @ sks"
    using run by (auto simp: skip_def skip_unit_def split: if_splits)
qed (auto simp: skip_def skip_unit_def)

lemma succeed_keeps: "builder_ok b \<Longrightarrow> succeed u key path task_id status cp b = Inr b' \<Longrightarrow> builder_ok b'"
  unfolding succeed_def by (rule recording.keeps)

lemma fail_keeps: "builder_ok b \<Longrightarrow> fail u pb key path task_id ts status cp b = Inr b' \<Longrightarrow> builder_ok b'"
  unfolding fail_def by (rule recording.keeps)

lemma block_keeps: "builder_ok b \<Longrightarrow> block u pb key path status b = Inr b' \<Longrightarrow> builder_ok b'"
  unfolding block_def by (rule recording.keeps)

lemma record_appends:
  "succeed u key path task_id status cp b = Inr b' \<Longrightarrow> \<exists>its sks. bu_items b' = bu_items b @ its \<and> bu_skipped b' = bu_skipped b @ sks"
  "fail u pb key path task_id ts status cp b = Inr b' \<Longrightarrow> \<exists>its sks. bu_items b' = bu_items b @ its \<and> bu_skipped b' = bu_skipped b @ sks"
  "block u pb key path status b = Inr b' \<Longrightarrow> \<exists>its sks. bu_items b' = bu_items b @ its \<and> bu_skipped b' = bu_skipped b @ sks"
  unfolding succeed_def fail_def block_def by (rule recording.appends, assumption)+

text \<open>Blocking a unit, whatever it is blocked for.\<close>

lemma block_unit_op: "unit_op (\<lambda>x. block (u x) (pb x) (key x) (path x) (status x)) u"
proof
  fix b b' x
  assume run: "block (u x) (pb x) (key x) (path x) (status x) b = Inr b'"
  show "builder_ok b \<Longrightarrow> builder_ok b'" by (rule block_keeps [OF _ run])
  show "\<exists>its sks. bu_items b' = bu_items b @ its \<and> bu_skipped b' = bu_skipped b @ sks" by (rule record_appends(3) [OF run])
qed (simp_all add: block_def problem_matches_state_def record_item_def)

interpretation unavailable: unit_op "\<lambda>s. block (ts_unit_id s) (artifact_state_problem s) (ts_artifact_key s) (ts_artifact_path s) (ts_status s)" "\<lambda>s. ts_unit_id s"
  by (rule block_unit_op)

interpretation unmatched: unit_op "\<lambda>u. block u \<lparr>pr_code = UNIT_NOT_FOUND, pr_detail = ''unit '' @ u @ '' does not exist in the current project'',
    pr_action = FIX_INPUT, pr_params = []\<rparr> None None None" "\<lambda>u. u"
  by (rule block_unit_op)

interpretation successes: builder_op "record_success states resolver unit_id_of fallback"
  by unfold_locales
    (auto simp: record_success_def Let_def bind_res_Inr_iff dest: succeed_keeps record_appends)

interpretation failures: builder_op "record_failure states unit_id_of"
  by unfold_locales
    (auto simp: record_failure_def Let_def split: prod.splits dest: fail_keeps record_appends)

lemma absorb_keeps: "builder_ok b \<Longrightarrow> absorb sel b = Inr b' \<Longrightarrow> builder_ok b'"
  unfolding absorb_def bind_res_Inr_iff
  by (elim exE conjE) (rule unmatched.each_keeps [OF unavailable.each_keeps [OF skipping.each_keeps]])

lemma outcomes_keep:
  "builder_ok b \<Longrightarrow> record_batch_outcomes states resolver unit_id_of fallback successes failures b = Inr b' \<Longrightarrow> builder_ok b'"
  unfolding record_batch_outcomes_def bind_res_Inr_iff
  by (elim exE conjE) (rule failures.each_keeps [OF successes.each_keeps])

subsection \<open>Building never fails\<close>

text \<open>The builders an entry point can hold.\<close>

inductive builder_reachable :: "builder \<Rightarrow> bool" where
  start: "builder_reachable (new_builder operation sel)"
| skip_unit: "builder_reachable b \<Longrightarrow> skip_unit u key path status b = Inr b' \<Longrightarrow> builder_reachable b'"
| succeed: "builder_reachable b \<Longrightarrow> succeed u key path task_id status cp b = Inr b' \<Longrightarrow> builder_reachable b'"
| fail: "builder_reachable b \<Longrightarrow> fail u pb key path task_id ts status cp b = Inr b' \<Longrightarrow> builder_reachable b'"
| block: "builder_reachable b \<Longrightarrow> block u pb key path status b = Inr b' \<Longrightarrow> builder_reachable b'"
| absorb: "builder_reachable b \<Longrightarrow> absorb sel b = Inr b' \<Longrightarrow> builder_reachable b'"
| outcomes: "builder_reachable b \<Longrightarrow>
    record_batch_outcomes states resolver unit_id_of fallback successes failures b = Inr b' \<Longrightarrow> builder_reachable b'"

lemma builder_reachable_ok: "builder_reachable b \<Longrightarrow> builder_ok b"
proof (induction rule: builder_reachable.induct)
  case (start operation sel)
  show ?case by (simp add: new_builder_def builder_ok_def)
qed (erule (1) skip_unit_keeps succeed_keeps fail_keeps block_keeps absorb_keeps outcomes_keep)+

lemma ids_in_state_mset: "mset (ids_in_state SUCCEEDED its) + mset (ids_in_state FAILED its) + mset (ids_in_state BLOCKED its) = mset (map it_unit_id its)"
proof (induction its)
  case (Cons it its)
  then show ?case by (cases "it_state it") (auto simp: ids_in_state_def ac_simps)
qed (simp add: ids_in_state_def)

lemma ids_in_state_mem: "it \<in> set its \<Longrightarrow> it_unit_id it \<in> set (ids_in_state (it_state it) its)"
  by (auto simp: ids_in_state_def)

lemma batch_of_simps [simp]:
  "br_requested (batch_of b) = map it_unit_id (bu_items b)" "br_items (batch_of b) = bu_items b" "br_skipped (batch_of b) = bu_skipped b"
  "br_succeeded (batch_of b) = ids_in_state SUCCEEDED (bu_items b)" "br_failed (batch_of b) = ids_in_state FAILED (bu_items b)"
  "br_blocked (batch_of b) = ids_in_state BLOCKED (bu_items b)"
  by (simp_all add: batch_of_def)

lemma bucket_ids_batch [simp]: "bucket_ids (batch_of b) st = ids_in_state st (bu_items b)"
  by (cases st) (simp_all add: bucket_ids_def)

lemma build_ok:
  assumes "builder_ok b"
  shows "build b = Inr (batch_of b)"
proof -
  let ?its = "bu_items b"
  let ?union = "ids_in_state SUCCEEDED ?its @ ids_in_state FAILED ?its @ ids_in_state BLOCKED ?its"
  have d: "distinct (map it_unit_id ?its)" "distinct (map sk_unit_id (bu_skipped b))"
    "set (map sk_unit_id (bu_skipped b)) \<inter> set (map it_unit_id ?its) = {}"
    using assms by (auto simp: builder_ok_def)
  have m: "mset ?union = mset (map it_unit_id ?its)" using ids_in_state_mset [of ?its] by (simp add: ac_simps)
  then have u: "distinct ?union" using d(1) by (metis mset_eq_imp_distinct_iff)
  have "sort ?union = sort (remdups (map it_unit_id ?its))"
    using m d(1) by (intro properties_for_sort) (simp_all add: distinct_remdups_id)
  then show ?thesis using d u
    by (simp add: build_def sets_are_exhaustive_and_exclusive_def Let_def ids_in_state_mem)
qed

text \<open>
  (C20) Whatever an entry point records through the builder, building the result never trips the
  validator, and the result reports each requested unit exactly once: \<open>requested\<close> is the disjoint
  union of \<open>succeeded\<close>, \<open>failed\<close> and \<open>blocked\<close>, each of these lists the units of that outcome, a
  unit that failed or was blocked carries a problem and one that succeeded does not, and no
  skipped unit is among the requested ones.
\<close>

theorem batch_result_partition:
  assumes "builder_reachable b"
  shows "\<exists>r. build b = Inr r \<and> distinct (br_requested r)
    \<and> mset (br_requested r) = mset (br_succeeded r) + mset (br_failed r) + mset (br_blocked r)
    \<and> (\<forall>it \<in> set (br_items r). it_unit_id it \<in> set (bucket_ids r (it_state it)) \<and> (it_problem it = None \<longleftrightarrow> it_state it = SUCCEEDED))
    \<and> map it_unit_id (br_items r) = br_requested r
    \<and> set (map sk_unit_id (br_skipped r)) \<inter> set (br_requested r) = {}"
proof -
  have ok: "builder_ok b" using assms by (rule builder_reachable_ok)
  have "it_problem it = None \<longleftrightarrow> it_state it = SUCCEEDED" if "it \<in> set (bu_items b)" for it
    using ok that by (auto simp: builder_ok_def problem_matches_state_def split: if_splits)
  then show ?thesis using ok ids_in_state_mset [of "bu_items b"]
    by (intro exI [of _ "batch_of b"] conjI build_ok) (auto simp: builder_ok_def ids_in_state_mem)
qed

definition sample_builder :: builder where
  "sample_builder = new_builder ''videos'' EXPLICIT"

theorem batch_result_partition_witness:
  "\<exists>b r. succeed ''u1'' None (Some ''videos/u1.mp4'') (Some ''t1'') (Some CURRENT) None sample_builder = Inr b
     \<and> build b = Inr r \<and> br_succeeded r = [''u1'']
     \<and> mset (br_requested r) = mset (br_succeeded r) + mset (br_failed r) + mset (br_blocked r)"
proof -
  let ?op = "succeed ''u1'' None (Some ''videos/u1.mp4'') (Some ''t1'') (Some CURRENT) None"
  obtain b where b: "?op sample_builder = Inr b" "ids_in_state SUCCEEDED (bu_items b) = [''u1'']"
    by (simp add: sample_builder_def new_builder_def succeed_def problem_matches_state_def record_item_def ids_in_state_def)
  have "builder_reachable b"
    using builder_reachable.succeed [OF builder_reachable.start b(1) [unfolded sample_builder_def]] .
  from batch_result_partition [OF this] obtain r where r: "build b = Inr r"
    "mset (br_requested r) = mset (br_succeeded r) + mset (br_failed r) + mset (br_blocked r)" by blast
  have "br_succeeded r = [''u1'']" using r(1) b(2) by (auto simp: build_def sets_are_exhaustive_and_exclusive_def Let_def split: if_splits)
  then show ?thesis using b(1) r by blast
qed

subsection \<open>Selection accounts for every unit\<close>

lemma missing_loop_filters:
  "missing_loop active is_file override ss sel = sel\<lparr>
     se_unavailable := se_unavailable sel @ filter (\<lambda>s. ts_unit_id s \<noteq> [] \<and> ts_status s = Some STATUS_BLOCKED) ss,
     se_skipped := se_skipped sel @ filter (\<lambda>s. ts_unit_id s \<noteq> [] \<and> ts_status s \<noteq> Some STATUS_BLOCKED \<and> reusable_now active is_file override s) ss,
     se_targets := se_targets sel @ filter (\<lambda>s. ts_unit_id s \<noteq> [] \<and> ts_status s \<noteq> Some STATUS_BLOCKED \<and> \<not> reusable_now active is_file override s) ss\<rparr>"
  by (induction active is_file override ss sel rule: missing_loop.induct) auto

lemma observed_candidate [simp]: "ts_candidate (observed resolver c) = c"
  by (simp add: observed_def split: prod.split)

lemma dedup_facts: "distinct (dedup xs)" "set (dedup xs) = set xs"
  by (simp_all add: dedup_def)

lemma filter3_mset:
  "mset (map f (filter (\<lambda>x. P x \<and> \<not> Q x \<and> \<not> R x) xs)) + mset (map f (filter (\<lambda>x. P x \<and> \<not> Q x \<and> R x) xs)) + mset (map f (filter (\<lambda>x. P x \<and> Q x) xs))
     = mset (map f (filter P xs))"
  by (induction xs) auto

lemma map_filter_unit_ids:
  "(\<And>u s. g u = Some s \<Longrightarrow> h s = u) \<Longrightarrow> map h (List.map_filter g us) = filter (\<lambda>u. g u \<noteq> None) us"
  by (induction us) (auto simp: List.map_filter_def)

lemma by_id_facts:
  fixes ss :: "target_state list"
  defines "d \<equiv> dict_of (map (\<lambda>s. (ts_unit_id s, s)) (filter (\<lambda>s. ts_unit_id s \<noteq> []) ss))"
  shows "dict_get d u = Some s \<Longrightarrow> ts_unit_id s = u" "dict_get d u = None \<longleftrightarrow> u = [] \<or> u \<notin> (\<lambda>s. ts_unit_id s) ` set ss"
proof -
  show "ts_unit_id s = u" if "dict_get d u = Some s"
    using map_of_SomeD [OF that] dict_of_wf(2) unfolding d_def by fastforce
  show "dict_get d u = None \<longleftrightarrow> u = [] \<or> u \<notin> (\<lambda>s. ts_unit_id s) ` set ss"
    unfolding map_of_eq_None_iff d_def dict_of_keys by (auto simp: image_image image_iff)
qed

lemma select_explicit:
  assumes "select_generation_targets resolver is_file override candidates (Some ids) = Inr sel"
  shows "map (\<lambda>s. ts_unit_id s) (se_targets sel) = filter (\<lambda>u. u \<noteq> [] \<and> u \<in> ca_unit_id ` set candidates) (dedup ids)"
    "se_unmatched_ids sel = filter (\<lambda>u. \<not> (u \<noteq> [] \<and> u \<in> ca_unit_id ` set candidates)) (dedup ids)"
    "se_skipped sel = []" "se_unavailable sel = []" "se_mode sel = EXPLICIT"
proof -
  let ?ss = "map (observed resolver) candidates"
  have "(\<lambda>s. ts_unit_id s) ` set ?ss = ca_unit_id ` set candidates" by (auto simp: image_iff)
  note by_id = by_id_facts [of ?ss, unfolded this]
  let ?d = "dict_of (map (\<lambda>s. (ts_unit_id s, s)) (filter (\<lambda>s. ts_unit_id s \<noteq> []) ?ss))"
  have sel: "se_targets sel = List.map_filter (dict_get ?d) (dedup ids)" "se_unmatched_ids sel = filter (\<lambda>u. dict_get ?d u = None) (dedup ids)"
    using assms by (auto simp: select_generation_targets_def Let_def split: if_splits)
  show "map (\<lambda>s. ts_unit_id s) (se_targets sel) = filter (\<lambda>u. u \<noteq> [] \<and> u \<in> ca_unit_id ` set candidates) (dedup ids)"
  proof -
    have "map (\<lambda>s. ts_unit_id s) (List.map_filter (dict_get ?d) (dedup ids)) = filter (\<lambda>u. dict_get ?d u \<noteq> None) (dedup ids)"
      by (rule map_filter_unit_ids) (rule by_id(1))
    then show ?thesis unfolding sel(1) by_id(2) by simp
  qed
  show "se_unmatched_ids sel = filter (\<lambda>u. \<not> (u \<noteq> [] \<and> u \<in> ca_unit_id ` set candidates)) (dedup ids)"
    unfolding sel(2) by_id(2) by simp
qed (use assms in \<open>auto simp: select_generation_targets_def Let_def split: if_splits\<close>)

lemma recorded_when_active [simp]: "recorded_artifact_is_present s True is_file"
  by (simp add: recorded_artifact_is_present_def)

lemma reusable_now_covers:
  "\<not> reusable_now active is_file override s \<Longrightarrow>
     (active \<longrightarrow> ts_status s \<notin> {Some CURRENT, Some STALE}) \<and> (\<not> active \<longrightarrow> \<not> recorded_artifact_is_present s False is_file)"
  by (cases active) (auto simp: reusable_now_def Let_def artifact_is_reusable_def split: if_splits)

lemma select_missing:
  assumes "select_generation_targets resolver is_file override candidates None = Inr sel"
  shows "mset (map (\<lambda>s. ts_unit_id s) (se_targets sel)) + mset (map (\<lambda>s. ts_unit_id s) (se_skipped sel)) + mset (map (\<lambda>s. ts_unit_id s) (se_unavailable sel))
      = mset (filter (\<lambda>u. u \<noteq> []) (map ca_unit_id candidates))"
    "se_unmatched_ids sel = []"
    "s \<in> set (se_targets sel) \<Longrightarrow> ts_status s \<noteq> Some STATUS_BLOCKED \<and> (resolver \<noteq> None \<longrightarrow> ts_status s \<notin> {Some CURRENT, Some STALE})
       \<and> (resolver = None \<longrightarrow> \<not> recorded_artifact_is_present s False is_file)"
proof -
  let ?ss = "map (observed resolver) candidates"
  have sel: "sel = missing_loop (resolver \<noteq> None) is_file override ?ss
      \<lparr>se_mode = MISSING_ONLY, se_targets = [], se_skipped = [], se_unavailable = [], se_unmatched_ids = []\<rparr>"
    using assms by (simp add: select_generation_targets_def Let_def)
  have "map (\<lambda>s. ts_unit_id s) (filter (\<lambda>s. ts_unit_id s \<noteq> []) ?ss) = filter (\<lambda>u. u \<noteq> []) (map ca_unit_id candidates)"
    by (simp add: filter_map comp_def)
  then show "mset (map (\<lambda>s. ts_unit_id s) (se_targets sel)) + mset (map (\<lambda>s. ts_unit_id s) (se_skipped sel)) + mset (map (\<lambda>s. ts_unit_id s) (se_unavailable sel))
      = mset (filter (\<lambda>u. u \<noteq> []) (map ca_unit_id candidates))"
    unfolding sel missing_loop_filters
    using filter3_mset [of "\<lambda>s. ts_unit_id s" "\<lambda>s. ts_unit_id s \<noteq> []" "\<lambda>s. ts_status s = Some STATUS_BLOCKED" "reusable_now (resolver \<noteq> None) is_file override" ?ss]
    by simp
  show "se_unmatched_ids sel = []" unfolding sel missing_loop_filters by simp
  show "s \<in> set (se_targets sel) \<Longrightarrow> ts_status s \<noteq> Some STATUS_BLOCKED \<and> (resolver \<noteq> None \<longrightarrow> ts_status s \<notin> {Some CURRENT, Some STALE})
       \<and> (resolver = None \<longrightarrow> \<not> recorded_artifact_is_present s False is_file)"
    using reusable_now_covers [of "resolver \<noteq> None" is_file override s] unfolding sel missing_loop_filters by auto
qed

text \<open>Seeding the builder with a selection whose reported units are distinct records exactly them.\<close>

lemma from_selection_seen:
  assumes "distinct (map (\<lambda>s. ts_unit_id s) (se_skipped sel) @ map (\<lambda>s. ts_unit_id s) (se_unavailable sel) @ se_unmatched_ids sel)"
  shows "\<exists>b. from_selection operation sel = Inr b \<and> builder_reachable b \<and>
    bu_seen b = set (map (\<lambda>s. ts_unit_id s) (se_skipped sel) @ map (\<lambda>s. ts_unit_id s) (se_unavailable sel) @ se_unmatched_ids sel)"
proof -
  let ?b0 = "new_builder operation (se_mode sel)"
  have "bu_seen ?b0 = {}" by (simp add: new_builder_def)
  then obtain b1 where b1: "each skip (se_skipped sel) ?b0 = Inr b1" "bu_seen b1 = (\<lambda>s. ts_unit_id s) ` set (se_skipped sel)"
    using skipping.each_fresh [of "se_skipped sel" ?b0] assms by auto
  then have "(\<lambda>s. ts_unit_id s) ` set (se_unavailable sel) \<inter> bu_seen b1 = {}" using assms by auto
  then obtain b2 where b2: "each (\<lambda>s. block (ts_unit_id s) (artifact_state_problem s) (ts_artifact_key s) (ts_artifact_path s) (ts_status s)) (se_unavailable sel) b1 = Inr b2"
    "bu_seen b2 = bu_seen b1 \<union> (\<lambda>s. ts_unit_id s) ` set (se_unavailable sel)"
    using unavailable.each_fresh [of "se_unavailable sel" b1] assms by auto
  then have "(\<lambda>u. u) ` set (se_unmatched_ids sel) \<inter> bu_seen b2 = {}" using assms b1(2) by auto
  then obtain b where b: "absorb sel ?b0 = Inr b" "bu_seen b = bu_seen b2 \<union> (\<lambda>u. u) ` set (se_unmatched_ids sel)"
    using unmatched.each_fresh [of "se_unmatched_ids sel" b2] assms b1(1) b2(1) by (auto simp: absorb_def)
  then have "builder_reachable b" using builder_reachable.absorb [OF builder_reachable.start] by blast
  then show ?thesis using b b1(2) b2(2) by (auto simp: from_selection_def)
qed

text \<open>
  A selection accounts for every unit exactly once. A missing-only request splits the
  candidates into targets, reused units and units reported as blocked; a target never has a
  blocked artifact, never a current or stale one while the manifest is active, and without a
  manifest never a recorded file that is still there, so nothing usable is paid for again. An
  explicit request splits the distinct ids asked for into targets that exist and unmatched ids.
  In both modes a builder seeded with the selection holds exactly the units that are not targets.
\<close>

theorem selection_accounts:
  assumes "select_generation_targets resolver is_file override candidates requested = Inr sel"
    and "distinct (filter (\<lambda>u. u \<noteq> []) (map ca_unit_id candidates))"
  shows "(case requested of
      None \<Rightarrow> mset (map (\<lambda>s. ts_unit_id s) (se_targets sel)) + mset (map (\<lambda>s. ts_unit_id s) (se_skipped sel))
            + mset (map (\<lambda>s. ts_unit_id s) (se_unavailable sel)) = mset (filter (\<lambda>u. u \<noteq> []) (map ca_unit_id candidates))
          \<and> (\<forall>s \<in> set (se_targets sel). ts_status s \<noteq> Some STATUS_BLOCKED \<and> (resolver \<noteq> None \<longrightarrow> ts_status s \<notin> {Some CURRENT, Some STALE})
               \<and> (resolver = None \<longrightarrow> \<not> recorded_artifact_is_present s False is_file))
    | Some ids \<Rightarrow> map (\<lambda>s. ts_unit_id s) (se_targets sel) = filter (\<lambda>u. u \<noteq> [] \<and> u \<in> ca_unit_id ` set candidates) (dedup ids)
          \<and> mset (map (\<lambda>s. ts_unit_id s) (se_targets sel)) + mset (se_unmatched_ids sel) = mset (dedup ids))
    \<and> (\<exists>b. from_selection operation sel = Inr b \<and> builder_reachable b
         \<and> bu_seen b = set (map (\<lambda>s. ts_unit_id s) (se_skipped sel) @ map (\<lambda>s. ts_unit_id s) (se_unavailable sel) @ se_unmatched_ids sel)
         \<and> bu_seen b \<inter> set (map (\<lambda>s. ts_unit_id s) (se_targets sel)) = {})"
proof (cases requested)
  case None
  note m = select_missing [OF assms(1) [unfolded None]]
  let ?id = "\<lambda>s. ts_unit_id s"
  have "mset (map ?id (se_targets sel) @ map ?id (se_skipped sel) @ map ?id (se_unavailable sel)) = mset (filter (\<lambda>u. u \<noteq> []) (map ca_unit_id candidates))"
    using m(1) by (simp add: ac_simps)
  then have d: "distinct (map ?id (se_targets sel) @ map ?id (se_skipped sel) @ map ?id (se_unavailable sel))"
    using assms(2) by (metis mset_eq_imp_distinct_iff)
  then have "distinct (map ?id (se_skipped sel) @ map ?id (se_unavailable sel) @ se_unmatched_ids sel)" using m(2) by auto
  from from_selection_seen [OF this, of operation] obtain b where b: "from_selection operation sel = Inr b" "builder_reachable b"
    "bu_seen b = set (map ?id (se_skipped sel) @ map ?id (se_unavailable sel) @ se_unmatched_ids sel)" by blast
  have "set (map ?id (se_targets sel)) \<inter> set (map ?id (se_skipped sel) @ map ?id (se_unavailable sel) @ se_unmatched_ids sel) = {}"
    using d m(2) by simp
  then have "bu_seen b \<inter> set (map ?id (se_targets sel)) = {}" unfolding b(3) by (simp only: Int_commute)
  then show ?thesis unfolding None option.case using m(1,3) b by blast
next
  case (Some ids)
  note e = select_explicit [OF assms(1) [unfolded Some]]
  have "distinct (map (\<lambda>s. ts_unit_id s) (se_skipped sel) @ map (\<lambda>s. ts_unit_id s) (se_unavailable sel) @ se_unmatched_ids sel)"
    using e(2-4) dedup_facts(1) [of ids] by simp
  from from_selection_seen [OF this, of operation]
  obtain b where b: "from_selection operation sel = Inr b" "builder_reachable b"
    "bu_seen b = set (map (\<lambda>s. ts_unit_id s) (se_skipped sel) @ map (\<lambda>s. ts_unit_id s) (se_unavailable sel) @ se_unmatched_ids sel)" by blast
  moreover have "set (map (\<lambda>s. ts_unit_id s) (se_skipped sel) @ map (\<lambda>s. ts_unit_id s) (se_unavailable sel) @ se_unmatched_ids sel)
      \<inter> set (map (\<lambda>s. ts_unit_id s) (se_targets sel)) = {}"
    unfolding e by auto
  moreover have "mset (map (\<lambda>s. ts_unit_id s) (se_targets sel)) + mset (se_unmatched_ids sel) = mset (dedup ids)"
    unfolding e by (simp only: mset_filter multiset_partition [symmetric])
  ultimately show ?thesis unfolding Some option.case using e(1) by blast
qed

definition sample_candidates :: "candidate list" where
  "sample_candidates =
     [\<lparr>ca_unit_id = ''u1'', ca_artifact_key = Some \<lparr>ak_kind = EPISODE_VIDEO, ak_components = [JInt 1, JStr ''u1'']\<rparr>, ca_artifact_path = Some ''videos/u1.mp4''\<rparr>,
      \<lparr>ca_unit_id = ''u2'', ca_artifact_key = None, ca_artifact_path = None\<rparr>]"

theorem selection_accounts_witness:
  "\<exists>sel b. select_generation_targets (Some (\<lambda>k p. Inr (STALE, None))) (\<lambda>p. False) None sample_candidates None = Inr sel
     \<and> map (\<lambda>s. ts_unit_id s) (se_targets sel) = [''u2''] \<and> from_selection ''videos'' sel = Inr b \<and> bu_seen b = {''u1''}"
proof -
  let ?res = "Some (\<lambda>k p. Inr (STALE, None)) :: resolver"
  obtain sel where sel: "select_generation_targets ?res (\<lambda>p. False) None sample_candidates None = Inr sel"
    by (simp add: select_generation_targets_def Let_def)
  have "map (\<lambda>s. ts_unit_id s) (se_targets sel) = [''u2''] \<and> map (\<lambda>s. ts_unit_id s) (se_skipped sel) = [''u1''] \<and> se_unavailable sel = [] \<and> se_unmatched_ids sel = []"
    using sel by (auto simp: select_generation_targets_def Let_def sample_candidates_def observed_def observe_artifact_status_def
        reusable_now_def artifact_is_reusable_def)
  moreover have "distinct (filter (\<lambda>u. u \<noteq> []) (map ca_unit_id sample_candidates))" by (simp add: sample_candidates_def)
  from selection_accounts [OF sel this, of "''videos''"] obtain b where "from_selection ''videos'' sel = Inr b"
    "bu_seen b = set (map (\<lambda>s. ts_unit_id s) (se_skipped sel) @ map (\<lambda>s. ts_unit_id s) (se_unavailable sel) @ se_unmatched_ids sel)" by blast
  ultimately show ?thesis using sel by auto
qed

subsection \<open>Next actions\<close>

text \<open>Every registered failure code has its own next action, so the default never applies to one.\<close>

lemma failure_actions_cover: "\<forall>c \<in> set FAILURE_CODE_KEYS. dict_get TASK_FAILURE_ACTIONS (fst c) \<noteq> None"
  by code_simp

lemma registered_failure_problem:
  assumes "failure_code c" "params_ok ps"
  shows "\<exists>a. dict_get TASK_FAILURE_ACTIONS c = Some a
    \<and> problem_from_task_failure (Some (encoded_text c ps)) False False
      = \<lparr>pr_code = c, pr_detail = encoded_text c ps, pr_action = a, pr_params = sorted_params ps\<rparr>"
proof -
  obtain a where a: "dict_get TASK_FAILURE_ACTIONS c = Some a" using assms(1) failure_actions_cover by (auto simp: failure_code_def)
  have "encoded_text c ps \<noteq> []" using parse_encoded [OF assms] by (auto simp: parse_failure_def)
  then show ?thesis using a parse_encoded [OF assms] by (simp add: problem_from_task_failure_def dict_get_default_def)
qed

end
