(* ===== verification/Admission.thy ===== *)
theory Admission
  imports GenResult
begin

text \<open>
  The all-or-nothing admission of a batch video request, \<open>lib/batch_admission.py\<close>: the verdict per
  unit, the folding rule, the tiers a user is asked to confirm, and how a refusal is written into
  the result contract.

  Adding up the quoted costs of a tier is the argument \<open>fsum\<close>, Python's sum of floats. The text of
  the withheld reason is given in English, with the same unit ids in it.
\<close>

subsection \<open>Tickets\<close>

definition DURATION_CONFIRMATION_CODE :: string where
  "DURATION_CONFIRMATION_CODE = ''reference_duration_confirmation_required''"

datatype admission_decision = ADMITTED | CONFIRMATION_REQUIRED | DECISION_BLOCKED

fun decision_value :: "admission_decision \<Rightarrow> string" where
  "decision_value ADMITTED = ''admitted''"
| "decision_value CONFIRMATION_REQUIRED = ''confirmation_required''"
| "decision_value DECISION_BLOCKED = ''blocked''"

fun action_value :: "generation_action \<Rightarrow> string" where
  "action_value RETRY = ''retry''"
| "action_value RESUME = ''resume''"
| "action_value FIX_INPUT = ''fix_input''"
| "action_value GENERATE_DEPENDENCY = ''generate_dependency''"
| "action_value GENERATE_TTS = ''generate_tts''"
| "action_value REGENERATE_TTS = ''regenerate_tts''"
| "action_value WAIT_FOR_TASK = ''wait_for_task''"
| "action_value REPLAN_UNIT = ''replan_unit''"
| "action_value CONFIRM_REQUEST_DURATION = ''confirm_request_duration''"
| "action_value CONFIGURE_PROVIDER = ''configure_provider''"
| "action_value REPAIR_ARTIFACT_STATE = ''repair_artifact_state''"
| "action_value NO_ACTION = ''none''"

fun mode_value :: "selection_mode \<Rightarrow> string" where
  "mode_value EXPLICIT = ''explicit''"
| "mode_value MISSING_ONLY = ''missing_only''"

text \<open>\<open>problem.model_dump(mode="json")\<close>.\<close>

definition problem_dump :: "problem \<Rightarrow> json" where
  "problem_dump p = JObj [(''code'', JStr (pr_code p)), (''detail'', JStr (pr_detail p)),
     (''action'', JStr (action_value (pr_action p))), (''params'', JObj (pr_params p))]"

record ticket =
  tk_unit_id :: string
  tk_problems :: "problem list"
  tk_request_duration :: "int option"
  tk_current_duration :: "int option"
  tk_request_cost :: "params option"
  tk_projection :: "params option"

definition ticket_admitted :: "ticket \<Rightarrow> bool" where
  "ticket_admitted t \<longleftrightarrow> tk_problems t = []"

definition confirmation_only :: "ticket \<Rightarrow> bool" where
  "confirmation_only t \<longleftrightarrow> tk_problems t \<noteq> [] \<and> (\<forall>p \<in> set (tk_problems t). pr_code p = DURATION_CONFIRMATION_CODE)"

definition json_opt :: "('a \<Rightarrow> json) \<Rightarrow> 'a option \<Rightarrow> json" where
  "json_opt f x = (case x of None \<Rightarrow> JNull | Some v \<Rightarrow> f v)"

definition ticket_payload :: "ticket \<Rightarrow> params" where
  "ticket_payload t =
     [(''unit_id'', JStr (tk_unit_id t)), (''admitted'', JBool (ticket_admitted t)),
      (''request_duration_seconds'', json_opt JInt (tk_request_duration t)),
      (''current_duration_seconds'', json_opt JInt (tk_current_duration t)),
      (''request_cost'', json_opt JObj (tk_request_cost t)),
      (''problems'', JList (map problem_dump (tk_problems t))),
      (''projection'', json_opt JObj (tk_projection t))]"

record tier =
  ti_request_duration :: "int option"
  ti_unit_ids :: "string list"
  ti_cost_amount :: "json option"
  ti_cost_currency :: "string option"

definition tier_payload :: "tier \<Rightarrow> json" where
  "tier_payload t = JObj [(''request_duration_seconds'', json_opt JInt (ti_request_duration t)),
     (''unit_count'', JInt (int (length (ti_unit_ids t)))), (''unit_ids'', JList (map JStr (ti_unit_ids t))),
     (''cost_amount'', json_opt (\<lambda>v. v) (ti_cost_amount t)), (''cost_currency'', json_opt JStr (ti_cost_currency t))]"

definition cost_amount :: "params option \<Rightarrow> json option" where
  "cost_amount cost = (case cost of None \<Rightarrow> None
     | Some c \<Rightarrow> (case dict_get c ''amount'' of Some (JInt i) \<Rightarrow> Some (JInt i) | Some (JFloat l) \<Rightarrow> Some (JFloat l) | _ \<Rightarrow> None))"

definition cost_currency :: "params option \<Rightarrow> string option" where
  "cost_currency cost = (case cost of None \<Rightarrow> None
     | Some c \<Rightarrow> (case dict_get c ''currency'' of Some (JStr u) \<Rightarrow> if u = [] then None else Some u | _ \<Rightarrow> None))"

definition refused_ticket :: "string \<Rightarrow> string \<Rightarrow> string \<Rightarrow> generation_action \<Rightarrow> params option \<Rightarrow> ticket" where
  "refused_ticket u code detail action ps =
     \<lparr>tk_unit_id = u, tk_problems = [\<lparr>pr_code = code, pr_detail = detail, pr_action = action, pr_params = (case ps of None \<Rightarrow> [] | Some d \<Rightarrow> d)\<rparr>],
      tk_request_duration = None, tk_current_duration = None, tk_request_cost = None, tk_projection = None\<rparr>"

subsection \<open>The verdict on a batch\<close>

record admission =
  ad_operation :: string
  ad_selection :: selection_mode
  ad_narration_delivery :: string
  ad_tickets :: "ticket list"

definition refused_tickets :: "admission \<Rightarrow> ticket list" where
  "refused_tickets a = filter (\<lambda>t. \<not> ticket_admitted t) (ad_tickets a)"

definition decision :: "admission \<Rightarrow> admission_decision" where
  "decision a =
     (if refused_tickets a = [] then ADMITTED
      else if list_all confirmation_only (refused_tickets a) then CONFIRMATION_REQUIRED
      else DECISION_BLOCKED)"

definition unit_ids :: "admission \<Rightarrow> string list" where
  "unit_ids a = map tk_unit_id (ad_tickets a)"

definition holding_unit_ids :: "admission \<Rightarrow> string list" where
  "holding_unit_ids a = map tk_unit_id (refused_tickets a)"

definition withheld_problem :: "string list \<Rightarrow> problem" where
  "withheld_problem ids =
     \<lparr>pr_code = BATCH_ADMISSION_WITHHELD, pr_detail = ''no task was created: not admitted: '' @ join '', '' ids,
      pr_action = RETRY, pr_params = [(''blocked_unit_ids'', JList (map JStr ids))]\<rparr>"

definition withheld_problem_for :: "admission \<Rightarrow> ticket \<Rightarrow> problem option" where
  "withheld_problem_for a t =
     (if holding_unit_ids a = [] \<or> \<not> ticket_admitted t then None else Some (withheld_problem (holding_unit_ids a)))"

definition tier_of :: "(json list \<Rightarrow> json) \<Rightarrow> int option \<times> ticket list \<Rightarrow> tier" where
  "tier_of fsum g =
     (let amounts = map (\<lambda>t. cost_amount (tk_request_cost t)) (snd g);
          currencies = remdups (List.map_filter (\<lambda>t. cost_currency (tk_request_cost t)) (snd g)) in
      \<lparr>ti_request_duration = fst g, ti_unit_ids = map tk_unit_id (snd g),
       ti_cost_amount = (if (\<forall>a \<in> set amounts. a \<noteq> None) \<and> length currencies = 1 then Some (fsum (List.map_filter (\<lambda>a. a) amounts)) else None),
       ti_cost_currency = (case currencies of [c] \<Rightarrow> Some c | _ \<Rightarrow> None)\<rparr>)"

definition tier_key :: "int option \<Rightarrow> bool \<times> int" where
  "tier_key k = (case k of None \<Rightarrow> (True, 0) | Some s \<Rightarrow> (False, s))"

definition confirmation_tiers :: "(json list \<Rightarrow> json) \<Rightarrow> admission \<Rightarrow> tier list" where
  "confirmation_tiers fsum a =
     map (tier_of fsum) (sort_key (\<lambda>g. tier_key (fst g)) (group_by tk_request_duration (filter confirmation_only (ad_tickets a))))"

definition projections :: "admission \<Rightarrow> params list" where
  "projections a = List.map_filter tk_projection (ad_tickets a)"

definition refusal_problem :: "admission \<Rightarrow> ticket \<Rightarrow> problem res" where
  "refusal_problem a t =
     (case (case tk_problems t of p # _ \<Rightarrow> Some p | [] \<Rightarrow> withheld_problem_for a t) of
        None \<Rightarrow> Inl (RuntimeError ''a refused batch leaves no ticket without a reason'')
      | Some p \<Rightarrow>
          Inr (if 1 < length (tk_problems t)
               then p\<lparr>pr_params := dict_put ''problems'' (JList (map problem_dump (tk_problems t))) (pr_params p)\<rparr> else p))"

definition refuse_one :: "admission \<Rightarrow> (string \<times> target_state) list option \<Rightarrow> ticket \<Rightarrow> builder \<Rightarrow> builder res" where
  "refuse_one a states t b =
     bind_res (refusal_problem a t) (\<lambda>p.
       (let st = (case states of None \<Rightarrow> None | Some d \<Rightarrow> dict_get d (tk_unit_id t)) in
        block (tk_unit_id t) p (Option.bind st (\<lambda>s. ts_artifact_key s)) (Option.bind st (\<lambda>s. ts_artifact_path s)) (Option.bind st ts_status) b))"

definition record_refusal :: "admission \<Rightarrow> (string \<times> target_state) list option \<Rightarrow> builder \<Rightarrow> builder res" where
  "record_refusal a states b =
     (if decision a = ADMITTED then Inl (ValueError ''record_refusal requires a refused admission'')
      else each (refuse_one a states) (ad_tickets a) b)"

definition admission_payload :: "(json list \<Rightarrow> json) \<Rightarrow> admission \<Rightarrow> json" where
  "admission_payload fsum a =
     (let units = map (\<lambda>t.
            let p = dict_put ''withheld'' (JBool (withheld_problem_for a t \<noteq> None)) (ticket_payload t) in
            JObj (case withheld_problem_for a t of None \<Rightarrow> p
                  | Some w \<Rightarrow> dict_put ''problems'' (JList [problem_dump w]) p)) (ad_tickets a) in
      JObj [(''decision'', JStr (decision_value (decision a))), (''operation'', JStr (ad_operation a)),
        (''selection'', JStr (mode_value (ad_selection a))), (''narration_delivery'', JStr (ad_narration_delivery a)),
        (''units'', JList units),
        (''confirmation'', if decision a = CONFIRMATION_REQUIRED
           then JObj [(''tiers'', JList (map tier_payload (confirmation_tiers fsum a)))] else JNull)])"

subsection \<open>All or nothing\<close>

lemma decision_iff:
  "decision a = ADMITTED \<longleftrightarrow> (\<forall>t \<in> set (ad_tickets a). tk_problems t = [])"
  by (auto simp: decision_def refused_tickets_def ticket_admitted_def filter_empty_conv)

text \<open>On a refused batch every ticket has a reason: its own first problem, or the withheld one.\<close>

lemma refusal_problem_total:
  assumes "decision a \<noteq> ADMITTED"
  shows "\<exists>p. refusal_problem a t = Inr p \<and>
    (tk_problems t \<noteq> [] \<longrightarrow> pr_code p = pr_code (hd (tk_problems t)) \<and> pr_action p = pr_action (hd (tk_problems t)))
    \<and> (tk_problems t = [] \<longrightarrow> p = withheld_problem (holding_unit_ids a))"
proof -
  have "holding_unit_ids a \<noteq> []" using assms by (auto simp: decision_def holding_unit_ids_def split: if_splits)
  then show ?thesis
    by (cases "tk_problems t") (auto simp: refusal_problem_def withheld_problem_for_def ticket_admitted_def)
qed

definition reason :: "admission \<Rightarrow> ticket \<Rightarrow> problem" where
  "reason a t = (case refusal_problem a t of Inr p \<Rightarrow> p | Inl e \<Rightarrow> withheld_problem [])"

lemma refuse_one_block:
  assumes "decision a \<noteq> ADMITTED"
  shows "refuse_one a states t = block (tk_unit_id t) (reason a t)
    (Option.bind (case states of None \<Rightarrow> None | Some d \<Rightarrow> dict_get d (tk_unit_id t)) (\<lambda>s. ts_artifact_key s))
    (Option.bind (case states of None \<Rightarrow> None | Some d \<Rightarrow> dict_get d (tk_unit_id t)) (\<lambda>s. ts_artifact_path s))
    (Option.bind (case states of None \<Rightarrow> None | Some d \<Rightarrow> dict_get d (tk_unit_id t)) ts_status)"
  using refusal_problem_total [OF assms, of t] by (auto simp: refuse_one_def reason_def Let_def intro!: ext)

lemma each_block_items:
  assumes "each (\<lambda>x. block (u x) (pb x) (key x) (path x) (status x)) xs b = Inr b'"
  shows "\<exists>its. bu_items b' = bu_items b @ its \<and> bu_skipped b' = bu_skipped b \<and> map it_unit_id its = map u xs
    \<and> map it_problem its = map (\<lambda>x. Some (pb x)) xs \<and> (\<forall>it \<in> set its. it_state it = BLOCKED \<and> it_task_state it = NOT_QUEUED)"
  using assms
proof (induction xs arbitrary: b)
  case (Cons x xs)
  then obtain c where c: "block (u x) (pb x) (key x) (path x) (status x) b = Inr c"
    "each (\<lambda>x. block (u x) (pb x) (key x) (path x) (status x)) xs c = Inr b'" by (auto simp: bind_res_Inr_iff)
  from c(1) obtain it where it: "bu_items c = bu_items b @ [it]" "bu_skipped c = bu_skipped b" "it_unit_id it = u x"
    "it_problem it = Some (pb x)" "it_state it = BLOCKED" "it_task_state it = NOT_QUEUED"
    by (auto simp: block_def bind_res_Inr_iff problem_matches_state_def record_item_def split: if_splits)
  from Cons.IH [OF c(2)] obtain its where "bu_items b' = bu_items c @ its" "bu_skipped b' = bu_skipped c" "map it_unit_id its = map u xs"
    "map it_problem its = map (\<lambda>x. Some (pb x)) xs" "\<forall>it \<in> set its. it_state it = BLOCKED \<and> it_task_state it = NOT_QUEUED" by blast
  then show ?case using it by (intro exI [of _ "it # its"]) simp
qed simp

lemma each_block_fresh:
  assumes "distinct (map u xs)" "u ` set xs \<inter> bu_seen b = {}"
  shows "\<exists>b'. each (\<lambda>x. block (u x) (pb x) (key x) (path x) (status x)) xs b = Inr b'"
  using unit_op.each_fresh [OF block_unit_op assms] by blast

lemma each_block_keeps:
  "builder_ok b \<Longrightarrow> each (\<lambda>x. block (u x) (pb x) (key x) (path x) (status x)) xs b = Inr b' \<Longrightarrow> builder_ok b'"
  by (rule builder_op.each_keeps [OF unit_op.axioms(1) [OF block_unit_op]])

lemma ids_in_state_append: "ids_in_state st (xs @ ys) = ids_in_state st xs @ ids_in_state st ys"
  by (simp add: ids_in_state_def)

lemma ids_in_state_blocked:
  assumes "\<forall>it \<in> set its. it_state it = BLOCKED"
  shows "ids_in_state BLOCKED its = map it_unit_id its" "st \<noteq> BLOCKED \<Longrightarrow> ids_in_state st its = []"
  using assms by (auto simp: ids_in_state_def filter_empty_conv)


definition sample_admission :: admission where
  "sample_admission = \<lparr>ad_operation = ''videos'', ad_selection = EXPLICIT, ad_narration_delivery = ''post_production'',
     ad_tickets = [refused_ticket ''u1'' ''reference_asset_missing'' ''no sheet'' GENERATE_DEPENDENCY None,
       \<lparr>tk_unit_id = ''u2'', tk_problems = [], tk_request_duration = Some 5, tk_current_duration = None, tk_request_cost = None, tk_projection = None\<rparr>]\<rparr>"


subsection \<open>Confirmation tiers\<close>

text \<open>The units awaiting consent appear in the tier of their duration and in no other, and every
  such duration has one tier.\<close>

lemma confirmation_tiers_spec:
  "t \<in> set (confirmation_tiers fsum a) \<Longrightarrow>
     ti_unit_ids t = map tk_unit_id (filter (\<lambda>x. confirmation_only x \<and> tk_request_duration x = ti_request_duration t) (ad_tickets a))"
  "ti_request_duration ` set (confirmation_tiers fsum a) = tk_request_duration ` {x \<in> set (ad_tickets a). confirmation_only x}"
  "distinct (map ti_request_duration (confirmation_tiers fsum a))"
proof -
  let ?g = "group_by tk_request_duration (filter confirmation_only (ad_tickets a))"
  have tier: "ti_request_duration (tier_of fsum g) = fst g" "ti_unit_ids (tier_of fsum g) = map tk_unit_id (snd g)" for g
    by (simp_all add: tier_of_def Let_def)
  show "t \<in> set (confirmation_tiers fsum a) \<Longrightarrow>
      ti_unit_ids t = map tk_unit_id (filter (\<lambda>x. confirmation_only x \<and> tk_request_duration x = ti_request_duration t) (ad_tickets a))"
    by (auto simp: confirmation_tiers_def tier conj_commute dest!: group_by_member)
  show "ti_request_duration ` set (confirmation_tiers fsum a) = tk_request_duration ` {x \<in> set (ad_tickets a). confirmation_only x}"
    using group_by_keys [of tk_request_duration "filter confirmation_only (ad_tickets a)"]
    by (simp add: confirmation_tiers_def image_image tier)
  have "distinct (map fst ?g)" using group_by_ok by (simp add: dict_ok_def)
  then have "distinct (map fst (sort_key (\<lambda>g. tier_key (fst g)) ?g))"
    by (metis (no_types, lifting) mset_eq_imp_distinct_iff mset_map mset_sort)
  then show "distinct (map ti_request_duration (confirmation_tiers fsum a))"
    by (simp add: confirmation_tiers_def comp_def tier)
qed

end
