(* ===== verification/SessionStore.thy ===== *)
theory SessionStore
  imports Json PyText
begin

text \<open>
  The transcript store of the agent sessions, \<open>DbSessionStore\<close> of
  \<open>lib/agent_session_store/store.py\<close>: appending entries with their sequence numbers and the
  unique index on uuids, loading, listing and deleting, and the retry after a race for a sequence
  number.

  A table is a list of rows in insertion order. An entry is a dictionary. Folding a session
  summary is the SDK's function, the argument \<open>fold_summary\<close>; whether an attempt to append loses
  the race for its sequence numbers is the argument \<open>race\<close>.
\<close>

subsection \<open>Rows and keys\<close>

type_synonym entry = "(string \<times> json) list"

text \<open>Project key, session id and the optional subpath of a subagent transcript.\<close>

type_synonym skey = "string \<times> string \<times> string option"

definition normalize_key :: "skey \<Rightarrow> string \<times> string \<times> string" where
  "normalize_key k = (case k of (p, s, sub) \<Rightarrow> (p, s, opt_or sub []))"

definition entry_type :: "entry \<Rightarrow> string" where
  "entry_type e = (case dict_get e ''type'' of Some (JStr t) \<Rightarrow> t | _ \<Rightarrow> [])"

definition entry_uuid :: "entry \<Rightarrow> string option" where
  "entry_uuid e = (case dict_get e ''uuid'' of Some (JStr u) \<Rightarrow> if u = [] then None else Some u | _ \<Rightarrow> None)"

record entry_row =
  er_key :: "string \<times> string \<times> string"
  er_seq :: nat
  er_uuid :: "string option"
  er_type :: string
  er_payload :: entry
  er_mtime :: nat
  er_user :: string

record summary_row =
  sm_key :: "string \<times> string"
  sm_mtime :: nat
  sm_data :: json

record sstore =
  st_entries :: "entry_row list"
  st_summaries :: "summary_row list"

definition rows_of :: "string \<times> string \<times> string \<Rightarrow> entry_row list \<Rightarrow> entry_row list" where
  "rows_of k rows = filter (\<lambda>r. er_key r = k) rows"

subsection \<open>Appending\<close>

definition MAX_APPEND_RETRY :: nat where "MAX_APPEND_RETRY = 16"

text \<open>\<open>INSERT ... ON CONFLICT (project_key, session_id, subpath, uuid) WHERE uuid IS NOT NULL DO NOTHING\<close>.\<close>

definition uuid_conflict :: "entry_row \<Rightarrow> entry_row list \<Rightarrow> bool" where
  "uuid_conflict r rows \<longleftrightarrow> er_uuid r \<noteq> None \<and> (\<exists>q \<in> set rows. er_key q = er_key r \<and> er_uuid q = er_uuid r)"

fun insert_entries :: "entry_row list \<Rightarrow> entry_row list \<Rightarrow> entry_row list" where
  "insert_entries [] rows = rows"
| "insert_entries (r # rs) rows = insert_entries rs (if uuid_conflict r rows then rows else rows @ [r])"

definition seq_start :: "string \<times> string \<times> string \<Rightarrow> entry_row list \<Rightarrow> nat" where
  "seq_start k rows = fold (\<lambda>r m. max (er_seq r + 1) m) (rows_of k rows) 0"

definition new_rows :: "string \<Rightarrow> nat \<Rightarrow> string \<times> string \<times> string \<Rightarrow> nat \<Rightarrow> entry list \<Rightarrow> entry_row list" where
  "new_rows user now k start es = map (\<lambda>(i, e). \<lparr>er_key = k, er_seq = start + i, er_uuid = entry_uuid e, er_type = entry_type e,
     er_payload = e, er_mtime = now, er_user = user\<rparr>) (enumerate 0 es)"

definition fold_summary_locked ::
  "(summary_row option \<Rightarrow> string \<times> string \<Rightarrow> entry list \<Rightarrow> json) \<Rightarrow> nat \<Rightarrow> string \<times> string \<Rightarrow> entry list \<Rightarrow> summary_row list \<Rightarrow> summary_row list" where
  "fold_summary_locked fold_summary now k es rows =
     (case find (\<lambda>r. sm_key r = k) rows of
        None \<Rightarrow> rows @ [\<lparr>sm_key = k, sm_mtime = now, sm_data = fold_summary None k es\<rparr>]
      | Some prev \<Rightarrow> update_where (\<lambda>r. sm_key r = k) (\<lambda>r. r\<lparr>sm_mtime := now, sm_data := fold_summary (Some prev) k es\<rparr>) rows)"

definition append_once ::
  "(summary_row option \<Rightarrow> string \<times> string \<Rightarrow> entry list \<Rightarrow> json) \<Rightarrow> string \<Rightarrow> nat \<Rightarrow> string \<times> string \<times> string \<Rightarrow> entry list \<Rightarrow> sstore \<Rightarrow> sstore" where
  "append_once fold_summary user now k es s =
     (let start = seq_start k (st_entries s); s1 = s\<lparr>st_entries := insert_entries (new_rows user now k start es) (st_entries s)\<rparr> in
      case k of (p, sid, sub) \<Rightarrow>
        if sub = [] then s1\<lparr>st_summaries := fold_summary_locked fold_summary now (p, sid) es (st_summaries s1)\<rparr> else s1)"

text \<open>\<open>race n\<close>: attempt \<open>n\<close> loses its sequence number to a concurrent writer and is rolled back.\<close>

fun append_attempts ::
  "(nat \<Rightarrow> bool) \<Rightarrow> (sstore \<Rightarrow> sstore) \<Rightarrow> nat \<Rightarrow> nat \<Rightarrow> sstore \<Rightarrow> sstore res" where
  "append_attempts race once 0 n s = Inr s"
| "append_attempts race once (Suc left) n s =
     (if race n then if n = MAX_APPEND_RETRY - 1 then Inl IntegrityError else append_attempts race once left (Suc n) s
      else Inr (once s))"

definition sappend ::
  "(summary_row option \<Rightarrow> string \<times> string \<Rightarrow> entry list \<Rightarrow> json) \<Rightarrow> string \<Rightarrow> (nat \<Rightarrow> bool) \<Rightarrow> nat \<Rightarrow> skey \<Rightarrow> entry list \<Rightarrow> sstore \<Rightarrow> sstore res" where
  "sappend fold_summary user race now key es s =
     (if es = [] then Inr s
      else append_attempts race (append_once fold_summary user now (normalize_key key) es) MAX_APPEND_RETRY 0 s)"

subsection \<open>Reading and deleting\<close>

definition sload :: "skey \<Rightarrow> sstore \<Rightarrow> entry list option" where
  "sload key s =
     (let payloads = map er_payload (sort_key er_seq (rows_of (normalize_key key) (st_entries s)))
      in if payloads = [] then None else Some payloads)"

definition row_in_session :: "string \<Rightarrow> string \<Rightarrow> entry_row \<Rightarrow> bool" where
  "row_in_session p sid r \<longleftrightarrow> fst (er_key r) = p \<and> fst (snd (er_key r)) = sid"

abbreviation er_subpath :: "entry_row \<Rightarrow> string" where "er_subpath r \<equiv> snd (snd (er_key r))"

definition list_subkeys :: "skey \<Rightarrow> sstore \<Rightarrow> string list" where
  "list_subkeys key s = (case normalize_key key of (p, sid, _) \<Rightarrow>
     remdups (map er_subpath (filter (\<lambda>r. row_in_session p sid r \<and> er_subpath r \<noteq> []) (st_entries s))))"

definition list_sessions :: "string \<Rightarrow> sstore \<Rightarrow> (string \<times> nat) list" where
  "list_sessions p s = map (\<lambda>(sid, rows). (sid, fold (\<lambda>r m. max (er_mtime r) m) rows 0))
     (group_by (\<lambda>r. fst (snd (er_key r))) (filter (\<lambda>r. fst (er_key r) = p \<and> er_subpath r = []) (st_entries s)))"

definition list_session_summaries :: "string \<Rightarrow> sstore \<Rightarrow> summary_row list" where
  "list_session_summaries p s = filter (\<lambda>r. fst (sm_key r) = p) (st_summaries s)"

definition sdelete :: "skey \<Rightarrow> sstore \<Rightarrow> sstore" where
  "sdelete key s = (case key of (p, sid, sub) \<Rightarrow>
     s\<lparr>st_entries := filter (\<lambda>r. \<not> (row_in_session p sid r \<and> (sub = None \<or> sub = Some [] \<or> Some (er_subpath r) = sub))) (st_entries s),
       st_summaries := (if sub = None then filter (\<lambda>r. sm_key r \<noteq> (p, sid)) (st_summaries s) else st_summaries s)\<rparr>)"

subsection \<open>The invariant of the table\<close>

definition rows_ok :: "entry_row list \<Rightarrow> bool" where
  "rows_ok rows \<longleftrightarrow> (\<forall>k. sorted_wrt (<) (map er_seq (rows_of k rows))) \<and> (\<forall>k. distinct (List.map_filter er_uuid (rows_of k rows)))
     \<and> (\<forall>r \<in> set rows. er_uuid r = entry_uuid (er_payload r))"

definition store_ok :: "sstore \<Rightarrow> bool" where
  "store_ok s \<longleftrightarrow> rows_ok (st_entries s)"

text \<open>What an append adds: the entries whose uuid is new, the first of several with the same uuid.\<close>

fun fresh_entries :: "string set \<Rightarrow> entry list \<Rightarrow> entry list" where
  "fresh_entries seen [] = []"
| "fresh_entries seen (e # es) =
     (case entry_uuid e of
        None \<Rightarrow> e # fresh_entries seen es
      | Some u \<Rightarrow> if u \<in> seen then fresh_entries seen es else e # fresh_entries (insert u seen) es)"

definition uuids_of :: "entry list \<Rightarrow> string set" where
  "uuids_of es = {u. \<exists>e \<in> set es. entry_uuid e = Some u}"

text \<open>\<open>load(key) or []\<close>.\<close>

definition loaded :: "entry list option \<Rightarrow> entry list" where
  "loaded x = (case x of None \<Rightarrow> [] | Some es \<Rightarrow> es)"

definition contents :: "skey \<Rightarrow> sstore \<Rightarrow> entry list" where
  "contents key s = loaded (sload key s)"

lemma rows_of_simps [simp]:
  "rows_of k [] = []" "rows_of k (xs @ ys) = rows_of k xs @ rows_of k ys"
  "rows_of k (r # rs) = (if er_key r = k then r # rows_of k rs else rows_of k rs)"
  by (simp_all add: rows_of_def)

lemma contents_rows:
  assumes "store_ok s"
  shows "contents key s = map er_payload (rows_of (normalize_key key) (st_entries s))"
proof -
  have "sorted_wrt (<) (map er_seq (rows_of (normalize_key key) (st_entries s)))"
    using assms unfolding store_ok_def rows_ok_def by blast
  then have "sorted (map er_seq (rows_of (normalize_key key) (st_entries s)))" by (rule strict_sorted_imp_sorted)
  then have "sort_key er_seq (rows_of (normalize_key key) (st_entries s)) = rows_of (normalize_key key) (st_entries s)" by (rule sort_key_id_if_sorted)
  then show ?thesis by (simp add: contents_def loaded_def sload_def)
qed

subsection \<open>What an append does\<close>

definition row_for :: "string \<Rightarrow> nat \<Rightarrow> string \<times> string \<times> string \<Rightarrow> nat \<Rightarrow> entry \<Rightarrow> entry_row" where
  "row_for user now k n e = \<lparr>er_key = k, er_seq = n, er_uuid = entry_uuid e, er_type = entry_type e,
     er_payload = e, er_mtime = now, er_user = user\<rparr>"

lemma row_for_simps [simp]:
  "er_key (row_for user now k n e) = k" "er_seq (row_for user now k n e) = n"
  "er_uuid (row_for user now k n e) = entry_uuid e" "er_payload (row_for user now k n e) = e"
  by (simp_all add: row_for_def)

lemma enumerate_shift: "map (\<lambda>(i, e). f (n + i) e) (enumerate (Suc m) es) = map (\<lambda>(i, e). f (Suc n + i) e) (enumerate m es)"
  by (induction es arbitrary: m) auto

lemma new_rows_simps:
  "new_rows user now k n [] = []"
  "new_rows user now k n (e # es) = row_for user now k n e # new_rows user now k (Suc n) es"
  using enumerate_shift [of "row_for user now k" n 0 es] by (simp_all add: new_rows_def row_for_def)

lemma uuid_conflict_iff:
  assumes "rows_ok rows" "entry_uuid e = Some u"
  shows "uuid_conflict (row_for user now k n e) rows \<longleftrightarrow> u \<in> uuids_of (map er_payload (rows_of k rows))"
  using assms by (auto simp: uuid_conflict_def uuids_of_def rows_of_def rows_ok_def)

lemma rows_ok_snoc:
  assumes "rows_ok rows" "\<forall>r \<in> set (rows_of k rows). er_seq r < n" "\<not> uuid_conflict (row_for user now k n e) rows"
  shows "rows_ok (rows @ [row_for user now k n e])"
proof -
  have mf: "List.map_filter er_uuid (xs @ [row_for user now k n e]) = List.map_filter er_uuid xs @ (case entry_uuid e of None \<Rightarrow> [] | Some u \<Rightarrow> [u])" for xs
    by (simp add: List.map_filter_def split: option.split)
  have "u \<notin> set (List.map_filter er_uuid (rows_of k rows))" if "entry_uuid e = Some u" for u
    using assms(3) that by (auto simp: uuid_conflict_def rows_of_def List.map_filter_def)
  then show ?thesis using assms(1,2) mf by (auto simp: rows_ok_def sorted_wrt_append split: option.split)
qed

lemma insert_entries_spec:
  assumes "rows_ok rows" "\<forall>r \<in> set (rows_of k rows). er_seq r < n"
  shows "rows_ok (insert_entries (new_rows user now k n es) rows)
    \<and> map er_payload (rows_of k (insert_entries (new_rows user now k n es) rows))
        = map er_payload (rows_of k rows) @ fresh_entries (uuids_of (map er_payload (rows_of k rows))) es
    \<and> (\<forall>k'. k' \<noteq> k \<longrightarrow> rows_of k' (insert_entries (new_rows user now k n es) rows) = rows_of k' rows)"
  using assms
proof (induction es arbitrary: rows n)
  case (Cons e es)
  let ?r = "row_for user now k n e"
  show ?case
  proof (cases "uuid_conflict ?r rows")
    case True
    then obtain u where "entry_uuid e = Some u" by (auto simp: uuid_conflict_def)
    then show ?thesis using True Cons.IH [of rows "Suc n"] Cons.prems uuid_conflict_iff [OF Cons.prems(1)]
      by (auto simp: new_rows_simps less_Suc_eq)
  next
    case False
    let ?rows = "rows @ [?r]"
    have ok: "rows_ok ?rows" by (rule rows_ok_snoc [OF Cons.prems False])
    have "\<forall>r \<in> set (rows_of k ?rows). er_seq r < Suc n" using Cons.prems(2) by (auto simp: less_Suc_eq)
    note IH = Cons.IH [OF ok this]
    have "uuids_of (map er_payload (rows_of k ?rows)) = (case entry_uuid e of None \<Rightarrow> {} | Some u \<Rightarrow> {u}) \<union> uuids_of (map er_payload (rows_of k rows))"
      by (auto simp: uuids_of_def split: option.split)
    moreover have "u \<notin> uuids_of (map er_payload (rows_of k rows))" if "entry_uuid e = Some u" for u
      using False uuid_conflict_iff [OF Cons.prems(1) that] by blast
    ultimately show ?thesis using IH False by (auto simp: new_rows_simps split: option.splits)
  qed
qed (simp add: new_rows_simps)

lemma seq_start_above: "r \<in> set (rows_of k rows) \<Longrightarrow> er_seq r < seq_start k rows"
proof -
  have "m \<le> fold (\<lambda>r m. max (er_seq r + 1) m) rs m \<and> (\<forall>r \<in> set rs. er_seq r < fold (\<lambda>r m. max (er_seq r + 1) m) rs m)" for rs :: "entry_row list" and m
  proof (induction rs arbitrary: m)
    case (Cons r rs)
    from Cons [of "max (er_seq r + 1) m"] show ?case by auto
  qed simp
  then show "r \<in> set (rows_of k rows) \<Longrightarrow> er_seq r < seq_start k rows" by (simp add: seq_start_def)
qed

lemma append_once_entries: "st_entries (append_once fs user now k es s) = insert_entries (new_rows user now k (seq_start k (st_entries s)) es) (st_entries s)"
  by (simp add: append_once_def Let_def split: prod.split)

lemma append_once_spec:
  assumes "store_ok s"
  shows "store_ok (append_once fs user now (normalize_key key) es s)"
    "contents key (append_once fs user now (normalize_key key) es s) = contents key s @ fresh_entries (uuids_of (contents key s)) es"
    "normalize_key key' \<noteq> normalize_key key \<Longrightarrow> contents key' (append_once fs user now (normalize_key key) es s) = contents key' s"
proof -
  let ?s = "append_once fs user now (normalize_key key) es s"
  have "\<forall>r \<in> set (rows_of (normalize_key key) (st_entries s)). er_seq r < seq_start (normalize_key key) (st_entries s)"
    by (simp add: seq_start_above)
  note sp = insert_entries_spec [OF assms [unfolded store_ok_def] this, of user now es, folded append_once_entries [of fs]]
  show ok: "store_ok ?s" using sp by (simp add: store_ok_def)
  show "contents key ?s = contents key s @ fresh_entries (uuids_of (contents key s)) es"
    using sp unfolding contents_rows [OF ok] contents_rows [OF assms] by blast
  show "contents key' ?s = contents key' s" if "normalize_key key' \<noteq> normalize_key key"
    using sp that unfolding contents_rows [OF ok] contents_rows [OF assms] by metis
qed

lemma append_attempts_Inr:
  "append_attempts race once left n s = Inr s' \<Longrightarrow> left + n = MAX_APPEND_RETRY \<Longrightarrow> 0 < left \<Longrightarrow> s' = once s"
  by (induction race once left n s rule: append_attempts.induct) (auto simp: MAX_APPEND_RETRY_def split: if_splits)

lemma append_attempts_total:
  "\<not> race m \<Longrightarrow> n \<le> m \<Longrightarrow> m < MAX_APPEND_RETRY \<Longrightarrow> left + n = MAX_APPEND_RETRY \<Longrightarrow> append_attempts race once left n s = Inr (once s)"
proof (induction race once left n s rule: append_attempts.induct)
  case (2 race once left n s)
  then show ?case by (cases "n = m") (auto simp: MAX_APPEND_RETRY_def)
qed simp

text \<open>An append either stores everything new or raises; it raises only when all sixteen attempts
  lose the race.\<close>

lemma sappend_cases:
  shows "sappend fs user race now key es s = Inr s' \<Longrightarrow> s' = (if es = [] then s else append_once fs user now (normalize_key key) es s)"
    and "\<not> race m \<Longrightarrow> m < 16 \<Longrightarrow> \<exists>s'. sappend fs user race now key es s = Inr s'"
proof -
  show "sappend fs user race now key es s = Inr s' \<Longrightarrow> s' = (if es = [] then s else append_once fs user now (normalize_key key) es s)"
    by (auto simp: sappend_def MAX_APPEND_RETRY_def split: if_splits dest: append_attempts_Inr [where left = 16 and n = 0])
  show "\<not> race m \<Longrightarrow> m < 16 \<Longrightarrow> \<exists>s'. sappend fs user race now key es s = Inr s'"
    using append_attempts_total [of race m 0 16] by (auto simp: sappend_def MAX_APPEND_RETRY_def)
qed

lemma sappend_spec:
  assumes "store_ok s" "sappend fs user race now key es s = Inr s'"
  shows "store_ok s'" "contents key s' = contents key s @ fresh_entries (uuids_of (contents key s)) es"
    "normalize_key key' \<noteq> normalize_key key \<Longrightarrow> contents key' s' = contents key' s"
  using sappend_cases(1) [OF assms(2)] append_once_spec [OF assms(1)] assms(1) by (simp_all split: if_splits)

lemma rows_ok_filter: "rows_ok rows \<Longrightarrow> rows_ok (filter P rows)"
proof -
  assume ok: "rows_ok rows"
  have comm: "rows_of k (filter P rows) = filter P (rows_of k rows)" for k
    by (simp add: rows_of_def conj_commute)
  have "sorted_wrt (<) (map er_seq (filter P (rows_of k rows)))" for k
    using ok unfolding rows_ok_def by (metis sorted_wrt_filter sorted_wrt_map)
  moreover have "distinct (List.map_filter er_uuid (filter P (rows_of k rows)))" for k
  proof -
    have "distinct (List.map_filter er_uuid (rows_of k rows))" using ok unfolding rows_ok_def by blast
    moreover have "List.map_filter er_uuid (filter P (rows_of k rows)) = map (the \<circ> er_uuid) (filter P (filter (\<lambda>r. er_uuid r \<noteq> None) (rows_of k rows)))"
      by (simp add: List.map_filter_def conj_commute)
    ultimately show ?thesis by (simp only: List.map_filter_def distinct_map_filter)
  qed
  ultimately show ?thesis using ok by (auto simp: rows_ok_def comm)
qed

lemma sdelete_spec:
  assumes "store_ok s"
  shows "store_ok (sdelete (p, sid, sub) s)"
    "contents (p, sid, sub) (sdelete (p, sid, sub) s) = []"
    "(p', sid') \<noteq> (p, sid) \<Longrightarrow> contents (p', sid', sub') (sdelete (p, sid, sub) s) = contents (p', sid', sub') s"
proof -
  let ?P = "\<lambda>r. \<not> (row_in_session p sid r \<and> (sub = None \<or> sub = Some [] \<or> Some (er_subpath r) = sub))"
  have ent: "st_entries (sdelete (p, sid, sub) s) = filter ?P (st_entries s)" by (simp add: sdelete_def)
  show ok: "store_ok (sdelete (p, sid, sub) s)"
    using assms unfolding store_ok_def ent by (rule rows_ok_filter)
  show "contents (p, sid, sub) (sdelete (p, sid, sub) s) = []"
    unfolding contents_rows [OF ok] ent
    by (auto simp: rows_of_def filter_empty_conv normalize_key_def row_in_session_def opt_or_def split: option.splits)
  show "contents (p', sid', sub') (sdelete (p, sid, sub) s) = contents (p', sid', sub') s" if "(p', sid') \<noteq> (p, sid)"
    unfolding contents_rows [OF ok] contents_rows [OF assms] ent using that
    by (auto simp: rows_of_def normalize_key_def row_in_session_def intro!: arg_cong [where f = "map er_payload"] filter_cong)
qed

subsection \<open>The protocol as an interface\<close>

text \<open>
  What the SDK's session protocol promises its clients, and all that the prefix fork relies on:
  an append adds the entries with new uuids behind the old ones and leaves the other transcripts
  alone, and the listed subpaths are the ones that hold entries.
\<close>

locale session_protocol =
  fixes load :: "skey \<Rightarrow> 's \<Rightarrow> entry list option" and append_to :: "skey \<Rightarrow> entry list \<Rightarrow> 's \<Rightarrow> 's res"
    and subkeys :: "skey \<Rightarrow> 's \<Rightarrow> string list" and ok :: "'s \<Rightarrow> bool"
  assumes append_ok: "ok s \<Longrightarrow> append_to k es s = Inr s' \<Longrightarrow> ok s'"
    and append_same: "ok s \<Longrightarrow> append_to k es s = Inr s' \<Longrightarrow> loaded (load k s') = loaded (load k s) @ fresh_entries (uuids_of (loaded (load k s))) es"
    and append_other: "ok s \<Longrightarrow> append_to k es s = Inr s' \<Longrightarrow> normalize_key k' \<noteq> normalize_key k \<Longrightarrow> loaded (load k' s') = loaded (load k' s)"
    and uuids_unique: "ok s \<Longrightarrow> distinct (List.map_filter entry_uuid (loaded (load k s)))"
    and subkeys_iff: "ok s \<Longrightarrow> sub \<in> set (subkeys (p, sid, None) s) \<longleftrightarrow> sub \<noteq> [] \<and> loaded (load (p, sid, Some sub) s) \<noteq> []"
    and subkeys_distinct: "distinct (subkeys (p, sid, None) s)"

lemma sload_None: "sload key s = None \<longleftrightarrow> rows_of (normalize_key key) (st_entries s) = []"
proof -
  have "sort_key er_seq rs = [] \<longleftrightarrow> rs = []" for rs :: "entry_row list" by (metis length_0_conv length_sort)
  then show ?thesis by (simp add: sload_def)
qed

lemma list_subkeys_iff: "sub \<in> set (list_subkeys (p, sid, None) s) \<longleftrightarrow> sub \<noteq> [] \<and> sload (p, sid, Some sub) s \<noteq> None"
  unfolding sload_None
  by (auto simp: list_subkeys_def normalize_key_def row_in_session_def rows_of_def filter_empty_conv image_iff prod_eq_iff)

lemma contents_uuids: "store_ok s \<Longrightarrow> distinct (List.map_filter entry_uuid (contents key s))"
proof -
  assume ok: "store_ok s"
  let ?rows = "rows_of (normalize_key key) (st_entries s)"
  have "\<forall>r \<in> set ?rows. er_uuid r = entry_uuid (er_payload r)" using ok by (auto simp: store_ok_def rows_ok_def rows_of_def)
  then have "List.map_filter entry_uuid (map er_payload rs) = List.map_filter er_uuid rs" if "set rs \<subseteq> set ?rows" for rs
    using that by (induction rs) (auto simp: List.map_filter_def)
  then show ?thesis using ok contents_rows [OF ok] unfolding store_ok_def rows_ok_def by (metis order_refl)
qed

lemma sload_loaded: "loaded (sload key s) \<noteq> [] \<longleftrightarrow> sload key s \<noteq> None"
  by (auto simp: loaded_def sload_def Let_def)

interpretation db_store: session_protocol sload "sappend fs user race now" list_subkeys store_ok
proof
  fix s s' :: sstore and k k' :: skey and es p sid sub
  assume ok: "store_ok s"
  show "distinct (List.map_filter entry_uuid (loaded (sload k s)))"
    using contents_uuids [OF ok, of k] unfolding contents_def .
  show "sub \<in> set (list_subkeys (p, sid, None) s) \<longleftrightarrow> sub \<noteq> [] \<and> loaded (sload (p, sid, Some sub) s) \<noteq> []"
    unfolding sload_loaded by (rule list_subkeys_iff)
  assume app: "sappend fs user race now k es s = Inr s'"
  note spec = sappend_spec [OF ok app, unfolded contents_def]
  show "store_ok s'" by (rule spec)
  show "loaded (sload k s') = loaded (sload k s) @ fresh_entries (uuids_of (loaded (sload k s))) es" by (rule spec)
  show "normalize_key k' \<noteq> normalize_key k \<Longrightarrow> loaded (sload k' s') = loaded (sload k' s)" by (rule spec)
qed (simp add: list_subkeys_def split: prod.split)

end
