(* ===== verification/PrefixFork.thy ===== *)
theory PrefixFork
  imports SessionStore
begin

text \<open>
  Forking a conversation, \<open>lib/agent_session_store/prefix_fork.py\<close>: the entries before an anchored
  user message are copied under a new session id, with the subagent transcripts they refer to.

  The definitions take the store's \<open>load\<close>, \<open>append\<close> and \<open>list_subkeys\<close> as arguments, as the code takes
  any \<open>SessionStoreLike\<close>. Their lemmas are proved in the locale of the protocol and hold for the
  database store through its interpretation.
\<close>

subsection \<open>The code\<close>

definition SUBAGENT_SUBPATH_ROOT :: string where "SUBAGENT_SUBPATH_ROOT = ''subagents/''"
definition SUBAGENT_LEAF_PREFIX :: string where "SUBAGENT_LEAF_PREFIX = ''agent-''"
definition CONVERSATION_ENTRY_TYPES :: "string list" where "CONVERSATION_ENTRY_TYPES = [''user'', ''assistant'']"

record prefix_copy_result =
  entries_copied :: nat
  subagent_subpaths :: "string list"

definition carries_tool_result :: "entry \<Rightarrow> bool" where
  "carries_tool_result e =
     (case dict_get e ''message'' of Some (JObj m) \<Rightarrow>
        (case dict_get m ''content'' of Some (JList blocks) \<Rightarrow>
           list_ex (\<lambda>b. case b of JObj kvs \<Rightarrow> dict_get kvs ''type'' = Some (JStr ''tool_result'') | _ \<Rightarrow> False) blocks
         | _ \<Rightarrow> False)
      | _ \<Rightarrow> False)"

fun prefix_loop :: "string \<Rightarrow> entry list \<Rightarrow> entry list \<Rightarrow> entry list res" where
  "prefix_loop anchor before [] = Inl (ValueError ''anchor is not on the main timeline of session'')"
| "prefix_loop anchor before (e # es) =
     (if dict_get e ''uuid'' \<noteq> Some (JStr anchor) then prefix_loop anchor (before @ [e]) es
      else if entry_type e \<noteq> ''user'' then Inl (ValueError ''anchor is not a user message'')
      else if carries_tool_result e then Inl (ValueError ''anchor carries tool results, not a plain user message'')
      else Inr before)"

definition prefix_before_anchor :: "entry list \<Rightarrow> string \<Rightarrow> entry list res" where
  "prefix_before_anchor es anchor = prefix_loop anchor [] es"

definition leaf :: "string \<Rightarrow> string" where
  "leaf s = last (split_at (\<lambda>c. c = CHR ''/'') s)"

definition matches_subagent :: "string \<Rightarrow> string list \<Rightarrow> bool" where
  "matches_subagent subpath wanted \<longleftrightarrow> take (length SUBAGENT_SUBPATH_ROOT) subpath = SUBAGENT_SUBPATH_ROOT \<and> leaf subpath \<in> set wanted"

definition agent_id_of :: "entry \<Rightarrow> string option" where
  "agent_id_of e =
     (case dict_get e ''toolUseResult'' of Some (JObj t) \<Rightarrow>
        (case dict_get t ''agentId'' of Some (JStr i) \<Rightarrow> if i = [] then None else Some i | _ \<Rightarrow> None)
      | _ \<Rightarrow> None)"

definition prefix_agent_ids :: "entry list \<Rightarrow> string list" where
  "prefix_agent_ids prefix = remdups (List.map_filter agent_id_of prefix)"

definition rebind :: "string \<Rightarrow> json \<Rightarrow> entry \<Rightarrow> entry" where
  "rebind new_session_id origin e =
     (let r = (if dict_get e ''sessionId'' \<noteq> None then dict_put ''sessionId'' (JStr new_session_id) e else e) in
      if entry_uuid e \<noteq> None then dict_put ''forkedFrom'' origin r else r)"

text \<open>\<open>rebound[-1] = {**rebound[-1], "timestamp": now}\<close>.\<close>

definition restamp :: "string \<Rightarrow> entry list \<Rightarrow> entry list" where
  "restamp now es = butlast es @ [dict_put ''timestamp'' (JStr now) (last es)]"

definition fork_origin :: "string \<Rightarrow> string \<Rightarrow> json" where
  "fork_origin session_id anchor = JObj [(''sessionId'', JStr session_id), (''messageUuid'', JStr anchor)]"

type_synonym 's loader = "skey \<Rightarrow> 's \<Rightarrow> entry list option"
type_synonym 's appender = "skey \<Rightarrow> entry list \<Rightarrow> 's \<Rightarrow> 's res"

fun copy_subagents ::
  "'s loader \<Rightarrow> 's appender \<Rightarrow> string \<Rightarrow> string \<Rightarrow> string \<Rightarrow> (entry \<Rightarrow> entry) \<Rightarrow> string list \<Rightarrow> string list \<Rightarrow> 's \<Rightarrow> string list \<Rightarrow> nat
    \<Rightarrow> ('s \<times> prefix_copy_result) res" where
  "copy_subagents load app p sid new f wanted [] s carried copied =
     Inr (s, \<lparr>entries_copied = copied, subagent_subpaths = carried\<rparr>)"
| "copy_subagents load app p sid new f wanted (sub # subs) s carried copied =
     (if \<not> matches_subagent sub wanted then copy_subagents load app p sid new f wanted subs s carried copied
      else let es = loaded (load (p, sid, Some sub) s) in
        if es = [] then copy_subagents load app p sid new f wanted subs s carried copied
        else bind_res (app (p, new, Some sub) (map f es) s) (\<lambda>s'.
          copy_subagents load app p sid new f wanted subs s' (carried @ [sub]) (copied + length es)))"

definition copy_session_prefix ::
  "'s loader \<Rightarrow> 's appender \<Rightarrow> (skey \<Rightarrow> 's \<Rightarrow> string list) \<Rightarrow> string \<Rightarrow> string \<Rightarrow> string \<Rightarrow> string \<Rightarrow> string \<Rightarrow> 's \<Rightarrow> ('s \<times> prefix_copy_result) res" where
  "copy_session_prefix load app subkeys now p sid anchor new s =
     bind_res (prefix_before_anchor (loaded (load (p, sid, None) s)) anchor) (\<lambda>prefix.
       if \<not> list_ex (\<lambda>e. entry_type e \<in> set CONVERSATION_ENTRY_TYPES) prefix
       then Inr (s, \<lparr>entries_copied = 0, subagent_subpaths = []\<rparr>)
       else let f = rebind new (fork_origin sid anchor); rebound = restamp now (map f prefix);
                wanted = map (\<lambda>i. SUBAGENT_LEAF_PREFIX @ i) (prefix_agent_ids prefix) in
         bind_res (app (p, new, None) rebound s) (\<lambda>s1.
           if wanted = [] then Inr (s1, \<lparr>entries_copied = length rebound, subagent_subpaths = []\<rparr>)
           else copy_subagents load app p sid new f wanted (subkeys (p, sid, None) s1) s1 [] (length rebound)))"

subsection \<open>The prefix\<close>

lemma prefix_loop_Inr:
  assumes "prefix_loop anchor before es = Inr prefix"
  shows "\<exists>xs e rest. es = xs @ e # rest \<and> prefix = before @ xs \<and> dict_get e ''uuid'' = Some (JStr anchor) \<and> entry_type e = ''user''
    \<and> \<not> carries_tool_result e \<and> (\<forall>x \<in> set xs. dict_get x ''uuid'' \<noteq> Some (JStr anchor))"
  using assms
proof (induction anchor before es rule: prefix_loop.induct)
  case (2 anchor before e es)
  show ?case
  proof (cases "dict_get e ''uuid'' = Some (JStr anchor)")
    case True
    then show ?thesis using "2.prems" by (auto split: if_splits intro!: exI [of _ "[]"])
  next
    case False
    then have "prefix_loop anchor (before @ [e]) es = Inr prefix" using "2.prems" by simp
    from "2.IH" [OF False this] obtain xs y rest where "es = xs @ y # rest" "prefix = (before @ [e]) @ xs" "dict_get y ''uuid'' = Some (JStr anchor)" "entry_type y = ''user''"
      "\<not> carries_tool_result y" "\<forall>x \<in> set xs. dict_get x ''uuid'' \<noteq> Some (JStr anchor)" by blast
    then show ?thesis using False by (intro exI [of _ "e # xs"] exI [of _ y] exI [of _ rest]) auto
  qed
qed simp

lemma rebind_uuid [simp]: "entry_uuid (rebind new o' e) = entry_uuid e"
  by (simp add: rebind_def entry_uuid_def Let_def update_conv')

lemma restamp_uuids: "es \<noteq> [] \<Longrightarrow> map entry_uuid (restamp now es) = map entry_uuid es"
proof -
  assume "es \<noteq> []"
  have "entry_uuid (dict_put ''timestamp'' (JStr now) e) = entry_uuid e" for e by (simp add: entry_uuid_def update_conv')
  then have "map entry_uuid (restamp now es) = map entry_uuid (butlast es @ [last es])" by (simp add: restamp_def)
  then show ?thesis using \<open>es \<noteq> []\<close> by simp
qed

lemma fresh_entries_all:
  "distinct (List.map_filter entry_uuid es) \<Longrightarrow> set (List.map_filter entry_uuid es) \<inter> seen = {} \<Longrightarrow> fresh_entries seen es = es"
  by (induction seen es rule: fresh_entries.induct) (auto simp: List.map_filter_def split: option.splits)

lemma map_filter_uuid_cong: "map entry_uuid xs = map entry_uuid ys \<Longrightarrow> List.map_filter entry_uuid xs = List.map_filter entry_uuid ys"
proof -
  assume "map entry_uuid xs = map entry_uuid ys"
  moreover have "List.map_filter entry_uuid zs = List.map_filter id (map entry_uuid zs)" for zs
    by (induction zs) (auto simp: List.map_filter_def)
  ultimately show ?thesis by simp
qed

lemma copy_subagents_none: "copy_subagents load app p sid new f [] subs s carried n = Inr (s, \<lparr>entries_copied = n, subagent_subpaths = carried\<rparr>)"
  by (induction subs) (simp_all add: matches_subagent_def)

subsection \<open>Copying through the protocol\<close>

context session_protocol
begin

text \<open>Rebound copies of one transcript, appended to an empty one, arrive complete and in order.\<close>

lemma append_copies:
  assumes "ok s" "append_to k xs s = Inr s'" "loaded (load k s) = []" "map entry_uuid xs = map entry_uuid es" "distinct (List.map_filter entry_uuid es)"
  shows "loaded (load k s') = xs"
proof -
  have "distinct (List.map_filter entry_uuid xs)" using map_filter_uuid_cong [OF assms(4)] assms(5) by simp
  then have "fresh_entries {} xs = xs" by (intro fresh_entries_all) auto
  then show ?thesis using append_same [OF assms(1,2)] assms(3) by (simp add: uuids_of_def)
qed

lemma copy_subagents_spec:
  assumes "copy_subagents load append_to p sid new (rebind new org) wanted subs s carried n = Inr (s', r)" "ok s" "distinct subs" "new \<noteq> sid"
    "\<forall>sub \<in> set subs. sub \<noteq> [] \<and> loaded (load (p, new, Some sub) s) = []"
  shows "ok s' \<and> (\<forall>k. normalize_key k \<notin> (\<lambda>sub. (p, new, sub)) ` set subs \<longrightarrow> loaded (load k s') = loaded (load k s))
    \<and> (\<forall>sub \<in> set subs. loaded (load (p, new, Some sub) s') =
         (if matches_subagent sub wanted then map (rebind new org) (loaded (load (p, sid, Some sub) s)) else []))
    \<and> subagent_subpaths r = carried @ filter (\<lambda>sub. matches_subagent sub wanted \<and> loaded (load (p, sid, Some sub) s) \<noteq> []) subs
    \<and> entries_copied r = n + sum_list (map (\<lambda>sub. length (loaded (load (p, new, Some sub) s'))) subs)"
  using assms
proof (induction subs arbitrary: s carried n)
  case (Cons sub subs)
  have sub: "sub \<noteq> []" "sub \<notin> set subs" "distinct subs" and rest: "\<forall>sub \<in> set subs. sub \<noteq> [] \<and> loaded (load (p, new, Some sub) s) = []"
    using Cons.prems by auto
  have nk: "normalize_key (p, new, Some sub) = (p, new, sub)" using sub(1) by (simp add: normalize_key_def)
  have new_out: "normalize_key (p, new, Some sub) \<notin> (\<lambda>x. (p, new, x)) ` set subs" using sub by (auto simp: nk)
  have old_out: "normalize_key (p, sid, Some x) \<notin> (\<lambda>x. (p, new, x)) ` set xs" for x xs using Cons.prems(4) by (auto simp: normalize_key_def)
  have empty: "loaded (load (p, new, Some sub) s) = []" using Cons.prems(5) by simp
  show ?case
  proof (cases "matches_subagent sub wanted \<and> loaded (load (p, sid, Some sub) s) \<noteq> []")
    case False
    then have "copy_subagents load append_to p sid new (rebind new org) wanted subs s carried n = Inr (s', r)"
      using Cons.prems(1) by (auto simp: Let_def split: if_splits)
    note IH = Cons.IH [OF this Cons.prems(2) sub(3) Cons.prems(4) rest]
    then have "loaded (load (p, new, Some sub) s') = []" using new_out empty by metis
    then show ?thesis using IH False by auto
  next
    case True
    let ?es = "loaded (load (p, sid, Some sub) s)"
    obtain s1 where s1: "append_to (p, new, Some sub) (map (rebind new org) ?es) s = Inr s1"
      "copy_subagents load append_to p sid new (rebind new org) wanted subs s1 (carried @ [sub]) (n + length ?es) = Inr (s', r)"
      using Cons.prems(1) True by (auto simp: Let_def bind_res_Inr_iff)
    have ok1: "ok s1" by (rule append_ok [OF Cons.prems(2) s1(1)])
    have same: "loaded (load k s1) = loaded (load k s)" if "normalize_key k \<noteq> (p, new, sub)" for k
      using append_other [OF Cons.prems(2) s1(1)] that nk by simp
    have cp: "loaded (load (p, new, Some sub) s1) = map (rebind new org) ?es"
      by (rule append_copies [OF Cons.prems(2) s1(1) empty _ uuids_unique [OF Cons.prems(2), of "(p, sid, Some sub)"]]) simp
    have "\<forall>x \<in> set subs. x \<noteq> [] \<and> loaded (load (p, new, Some x) s1) = []"
    proof
      fix x assume x: "x \<in> set subs"
      then have "normalize_key (p, new, Some x) \<noteq> (p, new, sub)" using rest sub(2) by (auto simp: normalize_key_def)
      then show "x \<noteq> [] \<and> loaded (load (p, new, Some x) s1) = []" using same rest x by simp
    qed
    note IH = Cons.IH [OF s1(2) ok1 sub(3) Cons.prems(4) this]
    have old: "loaded (load (p, sid, Some x) s1) = loaded (load (p, sid, Some x) s)" for x
      using Cons.prems(4) by (intro same) (simp add: normalize_key_def)
    have "loaded (load (p, new, Some sub) s') = map (rebind new org) ?es" using IH new_out cp by metis
    then show ?thesis using IH True old same by auto
  qed
qed auto

lemma copy_subagents_total:
  assumes "\<And>k es s. ok s \<Longrightarrow> \<exists>s'. append_to k es s = Inr s'" "ok s"
  shows "\<exists>s' r. copy_subagents load append_to p sid new f wanted subs s carried n = Inr (s', r)"
  using assms(2)
proof (induction subs arbitrary: s carried n)
  case (Cons sub subs)
  obtain s1 where s1: "append_to (p, new, Some sub) (map f (loaded (load (p, sid, Some sub) s))) s = Inr s1" using assms(1) [OF Cons.prems] by blast
  show ?case using Cons.IH [OF Cons.prems] Cons.IH [OF append_ok [OF Cons.prems s1]] s1 by (simp add: Let_def)
qed simp

text \<open>What the new session holds after a fork, and what the result reports.\<close>

lemma copy_session_prefix_spec:
  assumes total: "\<And>k es s. ok s \<Longrightarrow> \<exists>s'. append_to k es s = Inr s'" and ok: "ok s" and new: "new \<noteq> sid"
    and empty: "\<forall>sub. loaded (load (p, new, sub) s) = []" and prefix: "prefix_before_anchor (loaded (load (p, sid, None) s)) anchor = Inr xs"
    and conv: "list_ex (\<lambda>e. entry_type e \<in> set CONVERSATION_ENTRY_TYPES) xs"
  defines "f \<equiv> rebind new (fork_origin sid anchor)" and "wanted \<equiv> map (\<lambda>i. SUBAGENT_LEAF_PREFIX @ i) (prefix_agent_ids xs)"
  shows "\<exists>s' r. copy_session_prefix load append_to subkeys now p sid anchor new s = Inr (s', r) \<and> ok s'
    \<and> loaded (load (p, new, None) s') = restamp now (map f xs)
    \<and> (\<forall>sub. sub \<noteq> [] \<longrightarrow> loaded (load (p, new, Some sub) s') = (if matches_subagent sub wanted then map f (loaded (load (p, sid, Some sub) s)) else []))
    \<and> (\<forall>k. (fst k, fst (snd k)) \<noteq> (p, new) \<longrightarrow> loaded (load k s') = loaded (load k s))
    \<and> distinct (subagent_subpaths r) \<and> set (subagent_subpaths r) = {sub. sub \<noteq> [] \<and> loaded (load (p, new, Some sub) s') \<noteq> []}
    \<and> entries_copied r = length xs + sum_list (map (\<lambda>sub. length (loaded (load (p, new, Some sub) s'))) (subagent_subpaths r))"
proof -
  have xs: "xs \<noteq> []" using conv by auto
  have "\<exists>ys. loaded (load (p, sid, None) s) = xs @ ys" using prefix_loop_Inr [OF prefix [unfolded prefix_before_anchor_def]] by auto
  then have uniq: "distinct (List.map_filter entry_uuid xs)" using uuids_unique [OF ok, of "(p, sid, None)"] by (auto simp: List.map_filter_def)
  let ?rb = "restamp now (map f xs)"
  obtain s1 where s1: "append_to (p, new, None) ?rb s = Inr s1" using total [OF ok] by blast
  have ok1: "ok s1" by (rule append_ok [OF ok s1])
  have "map entry_uuid ?rb = map entry_uuid xs" using xs by (simp add: restamp_uuids f_def)
  then have main: "loaded (load (p, new, None) s1) = ?rb" using empty by (intro append_copies [OF ok s1 _ _ uniq]) simp_all
  have len: "length ?rb = length xs" using xs by (simp add: restamp_def)
  have same: "loaded (load k s1) = loaded (load k s)" if "normalize_key k \<noteq> (p, new, [])" for k
    using append_other [OF ok s1] that by (simp add: normalize_key_def opt_or_def)
  have sub1: "loaded (load (p, q, Some sub) s1) = loaded (load (p, q, Some sub) s)" if "sub \<noteq> [] \<or> q \<noteq> new" for sub q
    using that by (intro same) (auto simp: normalize_key_def opt_or_def)
  have out1: "loaded (load k s1) = loaded (load k s)" if "(fst k, fst (snd k)) \<noteq> (p, new)" for k
    using that by (intro same) (auto simp: normalize_key_def split: prod.splits)
  let ?subs = "subkeys (p, sid, None) s1"
  have run: "copy_session_prefix load append_to subkeys now p sid anchor new s = copy_subagents load append_to p sid new f wanted ?subs s1 [] (length xs)"
    using prefix conv s1 len by (simp add: copy_subagents_none copy_session_prefix_def Let_def f_def wanted_def)
  obtain s' r where cp: "copy_subagents load append_to p sid new f wanted ?subs s1 [] (length xs) = Inr (s', r)"
    using copy_subagents_total [OF total ok1] by blast
  have subs: "sub \<in> set ?subs \<longleftrightarrow> sub \<noteq> [] \<and> loaded (load (p, sid, Some sub) s) \<noteq> []" for sub
    using subkeys_iff [OF ok1] sub1 new by metis
  have "\<forall>sub \<in> set ?subs. sub \<noteq> [] \<and> loaded (load (p, new, Some sub) s1) = []" using subs sub1 empty by metis
  note sp = copy_subagents_spec [OF cp [unfolded f_def] ok1 subkeys_distinct new this, folded f_def]
  have kept: "loaded (load k s') = loaded (load k s1)" if "normalize_key k \<notin> (\<lambda>x. (p, new, x)) ` set ?subs" for k
    using sp that by blast
  have "normalize_key (p, new, None) \<notin> (\<lambda>x. (p, new, x)) ` set ?subs" using subs by (auto simp: normalize_key_def opt_or_def)
  then have main': "loaded (load (p, new, None) s') = ?rb" using kept main by simp
  have each: "loaded (load (p, new, Some sub) s') = (if matches_subagent sub wanted then map f (loaded (load (p, sid, Some sub) s)) else [])" if "sub \<noteq> []" for sub
  proof (cases "sub \<in> set ?subs")
    case True
    then have "loaded (load (p, new, Some sub) s') = (if matches_subagent sub wanted then map f (loaded (load (p, sid, Some sub) s1)) else [])" using sp by blast
    then show ?thesis using sub1 [of sub sid] new by simp
  next
    case False
    then have "normalize_key (p, new, Some sub) \<notin> (\<lambda>x. (p, new, x)) ` set ?subs" using that by (auto simp: normalize_key_def opt_or_def)
    then have "loaded (load (p, new, Some sub) s') = []" using kept sub1 [of sub new] that empty by simp
    then show ?thesis using False subs that by auto
  qed
  have other: "loaded (load k s') = loaded (load k s)" if "(fst k, fst (snd k)) \<noteq> (p, new)" for k
  proof -
    have "normalize_key k \<notin> (\<lambda>x. (p, new, x)) ` set ?subs" using that by (auto simp: normalize_key_def split: prod.splits)
    then show ?thesis using kept out1 [OF that] by simp
  qed
  let ?P = "\<lambda>sub. matches_subagent sub wanted \<and> loaded (load (p, sid, Some sub) s1) \<noteq> []"
  have paths: "subagent_subpaths r = filter ?P ?subs" using sp by simp
  have "set (subagent_subpaths r) = {sub. sub \<noteq> [] \<and> loaded (load (p, new, Some sub) s') \<noteq> []}"
    unfolding paths using subs each sub1 new by (auto split: if_splits)
  moreover have "sum_list (map (\<lambda>sub. length (loaded (load (p, new, Some sub) s'))) (filter ?P ?subs)) = sum_list (map (\<lambda>sub. length (loaded (load (p, new, Some sub) s'))) ?subs)"
    by (rule sum_list_map_filter) (use sp in auto)
  ultimately show ?thesis using run cp sp main' each other paths subkeys_distinct by (intro exI [of _ s'] exI [of _ r]) auto
qed

end

subsection \<open>The fork on the database store\<close>

lemma prefix_loop_found:
  assumes "\<forall>x \<in> set xs. dict_get x ''uuid'' \<noteq> Some (JStr anchor)" "dict_get e ''uuid'' = Some (JStr anchor)"
    "entry_type e = ''user''" "\<not> carries_tool_result e"
  shows "prefix_loop anchor before (xs @ e # rest) = Inr (before @ xs)"
  using assms by (induction xs arbitrary: before) auto

lemma sappend_total: "\<not> race m \<Longrightarrow> m < 16 \<Longrightarrow> store_ok s \<Longrightarrow> \<exists>s'. sappend fs user race now k es s = Inr s'"
  by (rule sappend_cases(2))

text \<open>
  (C22) Forking a session at a plain user message, under an unused session id, while one of the
  sixteen append attempts gets through, returns. The new main transcript is the rebound prefix
  before that message, re-stamped at its end; every subagent transcript the prefix refers to is
  copied whole and no other; the result lists and counts exactly what was written; and no
  transcript of any other session changes. When the prefix holds no conversation entry nothing is
  written at all.
\<close>

theorem fork_copies_prefix:
  assumes ok: "store_ok s" and new: "new \<noteq> sid" and empty: "\<forall>sub. contents (p, new, sub) s = []"
    and race: "\<not> race m" "m < 16"
    and main: "contents (p, sid, None) s = xs @ e # rest" and before: "\<forall>x \<in> set xs. dict_get x ''uuid'' \<noteq> Some (JStr anchor)"
    and anchor: "dict_get e ''uuid'' = Some (JStr anchor)" "entry_type e = ''user''" "\<not> carries_tool_result e"
  shows "\<exists>s' r. copy_session_prefix sload (sappend fs user race t) list_subkeys now p sid anchor new s = Inr (s', r)
    \<and> (if list_ex (\<lambda>e. entry_type e \<in> {''user'', ''assistant''}) xs then
         store_ok s'
         \<and> contents (p, new, None) s' = restamp now (map (rebind new (fork_origin sid anchor)) xs)
         \<and> (\<forall>sub. sub \<noteq> [] \<longrightarrow> contents (p, new, Some sub) s' =
              (if matches_subagent sub (map (\<lambda>i. SUBAGENT_LEAF_PREFIX @ i) (prefix_agent_ids xs))
               then map (rebind new (fork_origin sid anchor)) (contents (p, sid, Some sub) s) else []))
         \<and> (\<forall>k. (fst k, fst (snd k)) \<noteq> (p, new) \<longrightarrow> contents k s' = contents k s)
         \<and> distinct (subagent_subpaths r) \<and> set (subagent_subpaths r) = {sub. sub \<noteq> [] \<and> contents (p, new, Some sub) s' \<noteq> []}
         \<and> entries_copied r = length xs + sum_list (map (\<lambda>sub. length (contents (p, new, Some sub) s')) (subagent_subpaths r))
       else s' = s \<and> r = \<lparr>entries_copied = 0, subagent_subpaths = []\<rparr>)"
proof -
  have prefix: "prefix_before_anchor (loaded (sload (p, sid, None) s)) anchor = Inr xs"
    using prefix_loop_found [OF before anchor, of "[]"] main by (simp add: prefix_before_anchor_def contents_def)
  show ?thesis
  proof (cases "list_ex (\<lambda>e. entry_type e \<in> set CONVERSATION_ENTRY_TYPES) xs")
    case True
    have conv: "list_ex (\<lambda>e. entry_type e \<in> {''user'', ''assistant''}) xs" using True by (simp add: CONVERSATION_ENTRY_TYPES_def)
    show ?thesis unfolding if_P [OF conv] contents_def
      by (rule db_store.copy_session_prefix_spec [OF sappend_total [where race = race and m = m, OF race] ok new empty [unfolded contents_def] prefix True])
  next
    case False
    then show ?thesis using prefix by (simp add: copy_session_prefix_def CONVERSATION_ENTRY_TYPES_def)
  qed
qed

text \<open>A session of a question whose answer used subagent \<open>a1\<close>, forked at its second question.\<close>

definition demo_entry :: "string \<Rightarrow> string \<Rightarrow> (string \<times> json) list \<Rightarrow> entry" where
  "demo_entry t u kvs = [(''type'', JStr t), (''uuid'', JStr u), (''sessionId'', JStr ''old'')] @ kvs"

definition demo_store :: sstore where
  "demo_store = \<lparr>st_entries =
     new_rows ''u'' 0 (''p'', ''old'', []) 0
       [demo_entry ''user'' ''m1'' [], demo_entry ''assistant'' ''m2'' [(''toolUseResult'', JObj [(''agentId'', JStr ''a1'')])], demo_entry ''user'' ''m3'' []]
     @ new_rows ''u'' 0 (''p'', ''old'', ''subagents/agent-a1'') 0 [demo_entry ''user'' ''n1'' []]
     @ new_rows ''u'' 0 (''p'', ''old'', ''subagents/agent-a2'') 0 [demo_entry ''user'' ''n2'' []],
     st_summaries = []\<rparr>"

lemmas demo_simps = demo_store_def demo_entry_def new_rows_simps row_for_def entry_uuid_def entry_type_def

lemma demo_store_ok: "store_ok demo_store"
  by (simp add: store_ok_def rows_ok_def demo_simps List.map_filter_def)

lemma demo_contents:
  "contents (''p'', ''old'', None) demo_store =
     [demo_entry ''user'' ''m1'' [], demo_entry ''assistant'' ''m2'' [(''toolUseResult'', JObj [(''agentId'', JStr ''a1'')])]] @ demo_entry ''user'' ''m3'' [] # []"
  "\<forall>sub. contents (''p'', ''new'', sub) demo_store = []"
  unfolding contents_rows [OF demo_store_ok] by (simp_all add: normalize_key_def opt_or_def demo_simps)

theorem fork_copies_prefix_witness:
  "\<exists>s' r. copy_session_prefix sload (sappend (\<lambda>_ _ _. JNull) ''u'' (\<lambda>n. n < 3) 5) list_subkeys ''now'' ''p'' ''old'' ''m3'' ''new'' demo_store = Inr (s', r)
     \<and> length (contents (''p'', ''new'', None) s') = 2"
  using fork_copies_prefix [OF demo_store_ok _ demo_contents(2), of "''old''" "\<lambda>n. n < 3" 3, OF _ _ _ demo_contents(1), of "''m3''" "\<lambda>_ _ _. JNull" "''u''" 5 "''now''"]
  by (auto simp: demo_entry_def entry_type_def carries_tool_result_def restamp_def)

end
