(* ===== verification/Pricing.thy ===== *)
theory Pricing
  imports Complex_Main Json PyText
begin

text \<open>
  What a call costs: the pricing declarations of \<open>lib/pricing/types.py\<close>, one strategy per
  declaration (\<open>lib/pricing/strategies.py\<close>), the estimate of \<open>lib/vidu_shared.py\<close>, the choice of the
  declaration (\<open>lib/pricing/lookup.py\<close>) and the entry points of \<open>lib/cost_calculator.py\<close>.

  Amounts are rationals where the code has floats. The provider registry
  (\<open>PROVIDER_REGISTRY\<close> of \<open>lib/config/registry.py\<close>, configuration data) is an argument; a model of
  it has the fields the look-up reads. Subscripting a dictionary with a missing key raises
  \<open>KeyError\<close>, also where Python evaluates a default that is then not used.
\<close>

subsection \<open>Declarations\<close>

type_synonym 'k rates = "('k \<times> rat) list"
type_synonym 'k by_model = "(string \<times> 'k) list"

datatype dimensions = ResolutionAudio | ResolutionOnly | Flat

datatype pricing =
    PerToken "string rates by_model" string string
  | PerImageFlat "string rates" string string
  | PerImageByResolution "string rates by_model" string string
  | PerImageOpenAIToken "string rates by_model" "(string \<times> string) rates by_model" string string
  | PerSecondMatrix "(string \<times> bool option) rates by_model" string dimensions string string
  | PerVideoBucket "(string \<times> int) rates by_model" string string
  | PerSecondTiered "(string \<times> bool) rates by_model" string string
  | PerTokenVideo "(string \<times> bool) rates by_model" string string
  | PerCharacter "string rates" string string
  | ViduDelegate string

fun currency_of :: "pricing \<Rightarrow> string" where
  "currency_of (PerToken _ _ cur) = cur"
| "currency_of (PerImageFlat _ _ cur) = cur"
| "currency_of (PerImageByResolution _ _ cur) = cur"
| "currency_of (PerImageOpenAIToken _ _ _ cur) = cur"
| "currency_of (PerSecondMatrix _ _ _ cur _) = cur"
| "currency_of (PerVideoBucket _ _ cur) = cur"
| "currency_of (PerSecondTiered _ _ cur) = cur"
| "currency_of (PerTokenVideo _ _ cur) = cur"
| "currency_of (PerCharacter _ _ cur) = cur"
| "currency_of (ViduDelegate cur) = cur"

definition CHARACTERS_PER_PRICING_UNIT :: rat where "CHARACTERS_PER_PRICING_UNIT = 10000"

record pricing_params =
  pp_call_type :: string
  pp_model :: "string option"
  pp_resolution :: "string option"
  pp_aspect_ratio :: "string option"
  pp_duration_seconds :: "int option"
  pp_generate_audio :: bool
  pp_usage_tokens :: "int option"
  pp_service_tier :: string
  pp_input_tokens :: "int option"
  pp_output_tokens :: "int option"
  pp_quality :: "string option"
  pp_size :: "string option"
  pp_image_input_tokens :: "int option"
  pp_image_output_tokens :: "int option"
  pp_text_input_tokens :: "int option"
  pp_text_output_tokens :: "int option"
  pp_n :: int

subsection \<open>Strategies\<close>

text \<open>\<open>d[k]\<close>, \<open>x or 0\<close>, \<open>x or d\<close> on an optional integer, and \<open>str.upper\<close> on the characters of the model.\<close>

definition subscript :: "('k \<times> 'v) list \<Rightarrow> 'k \<Rightarrow> 'v res" where
  "subscript d k = (case dict_get d k of Some v \<Rightarrow> Inr v | None \<Rightarrow> Inl (KeyError ''rates''))"

definition or_zero :: "int option \<Rightarrow> rat" where
  "or_zero x = (case x of None \<Rightarrow> 0 | Some v \<Rightarrow> of_int v)"

definition or_int :: "int option \<Rightarrow> int \<Rightarrow> int" where
  "or_int x d = (case x of None \<Rightarrow> d | Some v \<Rightarrow> if v = 0 then d else v)"

definition upper :: "string \<Rightarrow> string" where
  "upper s = concat (map (\<lambda>c. let n = (of_char c :: nat) in
     if n = 223 then ''SS'' else if 224 \<le> n \<and> n \<le> 254 \<and> n \<noteq> 247 then [char_of (n - 32)] else [upper_char c]) s)"

definition per_token :: "string rates by_model \<Rightarrow> string \<Rightarrow> pricing_params \<Rightarrow> rat res" where
  "per_token rates default_model p =
     (let model = opt_or (pp_model p) default_model;
          row = dict_get_default rates model (dict_get_default rates default_model [(''input'', 0), (''output'', 0)]) in
      bind_res (subscript row ''input'') (\<lambda>i. bind_res (subscript row ''output'') (\<lambda>out.
        Inr ((or_zero (pp_input_tokens p) * i + or_zero (pp_output_tokens p) * out) / 1000000))))"

definition per_image_flat :: "string rates \<Rightarrow> string \<Rightarrow> pricing_params \<Rightarrow> rat res" where
  "per_image_flat rates default_model p =
     bind_res (subscript rates default_model) (\<lambda>d.
       Inr (dict_get_default rates (opt_or (pp_model p) default_model) d * of_int (pp_n p)))"

definition per_image_by_resolution :: "string rates by_model \<Rightarrow> string \<Rightarrow> pricing_params \<Rightarrow> rat res" where
  "per_image_by_resolution rates default_model p =
     bind_res (subscript rates default_model) (\<lambda>default_row.
       let row = dict_get_default rates (opt_or (pp_model p) default_model) default_row;
           default_cost = dict_get_default row ''1K'' (dict_get_default default_row ''1K'' 0);
           resolution = opt_or (pp_resolution p) ''1K'' in
       Inr (dict_get_default row (upper resolution) default_cost * of_int (pp_n p)))"

definition has_usage :: "pricing_params \<Rightarrow> bool" where
  "has_usage p \<longleftrightarrow> pp_image_input_tokens p \<noteq> None \<or> pp_image_output_tokens p \<noteq> None
     \<or> pp_text_input_tokens p \<noteq> None \<or> pp_text_output_tokens p \<noteq> None"

definition per_image_openai_token ::
  "string rates by_model \<Rightarrow> (string \<times> string) rates by_model \<Rightarrow> string \<Rightarrow> pricing_params \<Rightarrow> rat res" where
  "per_image_openai_token token_rates fallback_rates default_model p =
     (let model = opt_or (pp_model p) default_model in
      if has_usage p then
        bind_res (subscript token_rates default_model) (\<lambda>default_row.
          let row = dict_get_default token_rates model default_row in
          bind_res (subscript row ''image_in'') (\<lambda>ii. bind_res (subscript row ''image_out'') (\<lambda>io'.
          bind_res (subscript row ''text_in'') (\<lambda>ti. bind_res (subscript row ''text_out'') (\<lambda>to'.
            Inr ((or_zero (pp_image_input_tokens p) * ii + or_zero (pp_image_output_tokens p) * io'
              + or_zero (pp_text_input_tokens p) * ti + or_zero (pp_text_output_tokens p) * to') / 1000000))))))
      else
        (let quality = opt_or (pp_quality p) ''medium''; size = opt_or (pp_size p) ''1024x1024'' in
         bind_res (subscript fallback_rates default_model) (\<lambda>default_row.
           let row = dict_get_default fallback_rates model default_row in
           Inr (dict_get_default row (quality, size) (dict_get_default row (quality, ''1024x1024'')
             (dict_get_default row (''medium'', ''1024x1024'') (34 / 1000))) * of_int (pp_n p)))))"

definition duration_or_8 :: "pricing_params \<Rightarrow> int" where
  "duration_or_8 p = (case pp_duration_seconds p of None \<Rightarrow> 8 | Some d \<Rightarrow> d)"

definition per_second_matrix ::
  "(string \<times> bool option) rates by_model \<Rightarrow> string \<Rightarrow> dimensions \<Rightarrow> string \<Rightarrow> pricing_params \<Rightarrow> rat res" where
  "per_second_matrix rates default_model dims default_resolution p =
     bind_res (subscript rates default_model) (\<lambda>default_row.
       let row = dict_get_default rates (opt_or (pp_model p) default_model) default_row;
           per_second = (case dims of
             ResolutionAudio \<Rightarrow>
               (let fallback = dict_get_default row (''1080p'', Some True) (dict_get_default default_row (''1080p'', Some True) 0) in
                dict_get_default row (lower (opt_or (pp_resolution p) ''1080p''), Some (pp_generate_audio p)) fallback)
           | ResolutionOnly \<Rightarrow>
               (let default_res = lower default_resolution in
                dict_get_default row (lower (opt_or (pp_resolution p) default_res), None)
                  (dict_get_default row (default_res, None) 0))
           | Flat \<Rightarrow> dict_get_default row ([], None) 0) in
       Inr (of_int (duration_or_8 p) * per_second))"

definition tier_name :: "pricing_params \<Rightarrow> string" where
  "tier_name p =
     (if lower (opt_or (pp_resolution p) []) = ''4k'' then ''4k''
      else let t = lower (pp_service_tier p) in if t \<noteq> [] \<and> t \<noteq> ''default'' then t else ''std'')"

definition per_second_tiered :: "(string \<times> bool) rates by_model \<Rightarrow> string \<Rightarrow> pricing_params \<Rightarrow> rat res" where
  "per_second_tiered rates default_model p =
     bind_res (subscript rates default_model) (\<lambda>default_row.
       let row = dict_get_default rates (opt_or (pp_model p) default_model) default_row;
           audio = pp_generate_audio p;
           per_second = dict_get_default row (tier_name p, audio)
             (dict_get_default row (''std'', audio) (dict_get_default row (''std'', False) 0)) in
       Inr (of_int (duration_or_8 p) * per_second))"

text \<open>\<open>min(candidates, key=...)\<close> keeps the first of the least candidates; an empty table raises.\<close>

definition DEFAULT_BUCKET_DURATION :: int where "DEFAULT_BUCKET_DURATION = 6"

definition bucket_rank :: "int \<Rightarrow> (string \<times> int) \<times> rat \<Rightarrow> int \<times> int \<times> rat \<times> string \<times> int" where
  "bucket_rank duration b = (\<bar>snd (fst b) - duration\<bar>, snd (fst b), snd b, fst b)"

definition nearest_bucket :: "(string \<times> int) rates \<Rightarrow> string \<Rightarrow> int \<Rightarrow> rat res" where
  "nearest_bucket buckets resolution duration =
     (let same = filter (\<lambda>b. fst (fst b) = resolution) buckets;
          candidates = (if same \<noteq> [] then same else buckets) in
      if candidates = [] then Inl (ValueError ''min() arg is an empty sequence'')
      else Inr (snd (arg_min_list (bucket_rank duration) candidates)))"

definition per_video_bucket :: "(string \<times> int) rates by_model \<Rightarrow> string \<Rightarrow> pricing_params \<Rightarrow> rat res" where
  "per_video_bucket rates default_model p =
     bind_res (subscript rates default_model) (\<lambda>default_row.
       let buckets = dict_get_default rates (opt_or (pp_model p) default_model) default_row;
           resolution = lower (opt_or (pp_resolution p) ''768p'');
           duration = (case pp_duration_seconds p of None \<Rightarrow> DEFAULT_BUCKET_DURATION | Some d \<Rightarrow> d) in
       case dict_get buckets (resolution, duration) of Some c \<Rightarrow> Inr c
       | None \<Rightarrow> nearest_bucket buckets resolution duration)"

definition per_token_video :: "(string \<times> bool) rates by_model \<Rightarrow> string \<Rightarrow> pricing_params \<Rightarrow> rat res" where
  "per_token_video rates default_model p =
     bind_res (subscript rates default_model) (\<lambda>default_row.
       let row = dict_get_default rates (opt_or (pp_model p) default_model) default_row;
           price = dict_get_default row (pp_service_tier p, pp_generate_audio p) (dict_get_default row (''default'', True) 16) in
       Inr (or_zero (pp_usage_tokens p) / 1000000 * price))"

definition per_character :: "string rates \<Rightarrow> string \<Rightarrow> pricing_params \<Rightarrow> rat res" where
  "per_character rates default_model p =
     Inr (or_zero (pp_usage_tokens p) / CHARACTERS_PER_PRICING_UNIT
       * dict_get_default rates (opt_or (pp_model p) default_model) (dict_get_default rates default_model 0))"

subsection \<open>Vidu\<close>

definition VIDU_CREDIT_TO_CNY :: rat where "VIDU_CREDIT_TO_CNY = 3125 / 100000"

definition VIDU_VIDEO_CREDITS_PER_SECOND :: "(string \<times> (string \<times> int) list) list" where
  "VIDU_VIDEO_CREDITS_PER_SECOND =
     [(''viduq3-pro'', [(''540p'', 10), (''720p'', 25), (''1080p'', 30)]),
      (''viduq3-turbo'', [(''540p'', 8), (''720p'', 12), (''1080p'', 14)]),
      (''viduq3-pro-fast'', [(''540p'', 8), (''720p'', 12), (''1080p'', 14)]),
      (''viduq3'', [(''540p'', 10), (''720p'', 25), (''1080p'', 30)]),
      (''viduq3-mix'', [(''540p'', 10), (''720p'', 25), (''1080p'', 30)]),
      (''vidu2.0'', [(''360p'', 5), (''720p'', 10), (''1080p'', 25)])]"

definition VIDU_IMAGE_CREDITS :: "(string \<times> (string \<times> int) list) list" where
  "VIDU_IMAGE_CREDITS = [(''viduq2'', [(''1080p'', 8), (''2k'', 12), (''4k'', 20)]), (''viduq1'', [(''1080p'', 20)])]"

definition DEFAULT_VIDU_VIDEO_MODEL :: string where "DEFAULT_VIDU_VIDEO_MODEL = ''viduq3-turbo''"
definition DEFAULT_VIDU_IMAGE_MODEL :: string where "DEFAULT_VIDU_IMAGE_MODEL = ''viduq2''"

definition calculate_vidu_cost :: "string \<Rightarrow> int option \<Rightarrow> string option \<Rightarrow> string option \<Rightarrow> int option \<Rightarrow> (rat \<times> string) res" where
  "calculate_vidu_cost call_type usage_tokens model resolution duration_seconds =
     (let res_key = lower (opt_or resolution []) in
      if usage_tokens \<noteq> None \<and> 0 \<le> the usage_tokens then Inr (of_int (the usage_tokens) * VIDU_CREDIT_TO_CNY, ''CNY'')
      else if call_type = ''image'' then
        bind_res (subscript VIDU_IMAGE_CREDITS DEFAULT_VIDU_IMAGE_MODEL) (\<lambda>default_row.
          let row = dict_get_default VIDU_IMAGE_CREDITS (opt_or model DEFAULT_VIDU_IMAGE_MODEL) default_row in
          Inr (of_int (dict_get_default row (if res_key = [] then ''1080p'' else res_key) (snd (hd row))) * VIDU_CREDIT_TO_CNY, ''CNY''))
      else if call_type = ''video'' then
        bind_res (subscript VIDU_VIDEO_CREDITS_PER_SECOND DEFAULT_VIDU_VIDEO_MODEL) (\<lambda>default_row.
          let row = dict_get_default VIDU_VIDEO_CREDITS_PER_SECOND (opt_or model DEFAULT_VIDU_VIDEO_MODEL) default_row;
              per_sec = dict_get_default row (if res_key = [] then ''720p'' else res_key) (dict_get_default row ''720p'' 25) in
          Inr (of_int (or_int duration_seconds 5) * of_int per_sec * VIDU_CREDIT_TO_CNY, ''CNY''))
      else Inr (0, ''CNY''))"

definition with_currency :: "rat res \<Rightarrow> string \<Rightarrow> (rat \<times> string) res" where
  "with_currency r cur = bind_res r (\<lambda>a. Inr (a, cur))"

fun calculate_pricing :: "pricing \<Rightarrow> pricing_params \<Rightarrow> (rat \<times> string) res" where
  "calculate_pricing (PerToken rates d cur) p = with_currency (per_token rates d p) cur"
| "calculate_pricing (PerImageFlat rates d cur) p = with_currency (per_image_flat rates d p) cur"
| "calculate_pricing (PerImageByResolution rates d cur) p = with_currency (per_image_by_resolution rates d p) cur"
| "calculate_pricing (PerImageOpenAIToken trates frates d cur) p = with_currency (per_image_openai_token trates frates d p) cur"
| "calculate_pricing (PerSecondMatrix rates d dims cur res) p = with_currency (per_second_matrix rates d dims res p) cur"
| "calculate_pricing (PerSecondTiered rates d cur) p = with_currency (per_second_tiered rates d p) cur"
| "calculate_pricing (PerVideoBucket rates d cur) p = with_currency (per_video_bucket rates d p) cur"
| "calculate_pricing (PerTokenVideo rates d cur) p = with_currency (per_token_video rates d p) cur"
| "calculate_pricing (PerCharacter rates d cur) p = with_currency (per_character rates d p) cur"
| "calculate_pricing (ViduDelegate cur) p =
     calculate_vidu_cost (pp_call_type p) (pp_usage_tokens p) (pp_model p) (pp_resolution p) (pp_duration_seconds p)"

subsection \<open>Which declaration applies\<close>

record model_info =
  mi_media_type :: string
  mi_default :: bool
  mi_pricing :: "pricing option"

type_synonym registry = "(string \<times> (string \<times> model_info) list) list"

definition OWN_TABLE_PROVIDERS :: "string list" where
  "OWN_TABLE_PROVIDERS = [''ark'', ''grok'', ''openai'', ''dashscope'', ''minimax'', ''kling'', ''agnes'']"

definition ANTHROPIC_PRICING :: pricing where
  "ANTHROPIC_PRICING = PerToken
     (map (\<lambda>m. (m, [(''input'', 3), (''output'', 15)]))
        [''claude-sonnet-4'', ''claude-sonnet-4-20250514'', ''claude-sonnet-4.5'', ''claude-sonnet-4-5'', ''claude-sonnet-4-6'']
      @ map (\<lambda>m. (m, [(''input'', 1), (''output'', 5)])) [''claude-haiku-4-5'', ''claude-haiku-4-5-20251001'', ''claude-haiku-4-20250514'']
      @ map (\<lambda>m. (m, [(''input'', 15), (''output'', 75)])) [''claude-opus-4'', ''claude-opus-4-6'', ''claude-opus-4-7''])
     ''claude-sonnet-4'' ''USD''"

definition default_model_for_provider :: "registry \<Rightarrow> string \<Rightarrow> string \<Rightarrow> string option" where
  "default_model_for_provider reg provider media =
     (case dict_get reg provider of None \<Rightarrow> None
      | Some models \<Rightarrow> map_option fst (find (\<lambda>(i, m). mi_media_type m = media \<and> mi_default m) models))"

definition priced_for :: "model_info option \<Rightarrow> string \<Rightarrow> pricing option" where
  "priced_for info media = (case info of Some m \<Rightarrow> if mi_media_type m = media then mi_pricing m else None | None \<Rightarrow> None)"

text \<open>The loop over the two Gemini providers; a provider missing from the registry raises.\<close>

fun gemini_model_loop :: "registry \<Rightarrow> string list \<Rightarrow> string \<Rightarrow> string \<Rightarrow> pricing option res" where
  "gemini_model_loop reg [] model media = Inr None"
| "gemini_model_loop reg (pid # pids) model media =
     bind_res (subscript reg pid) (\<lambda>models.
       case priced_for (dict_get models model) media of Some pr \<Rightarrow> Inr (Some pr)
       | None \<Rightarrow> gemini_model_loop reg pids model media)"

fun gemini_default_loop :: "registry \<Rightarrow> (string \<times> model_info) list \<Rightarrow> string list \<Rightarrow> pricing res" where
  "gemini_default_loop reg models [] = Inl (RuntimeError ''no default pricing'')"
| "gemini_default_loop reg models (media # medias) =
     (case default_model_for_provider reg ''gemini-aistudio'' media of
        None \<Rightarrow> gemini_default_loop reg models medias
      | Some mid \<Rightarrow>
          (case Option.bind (dict_get models mid) mi_pricing of Some pr \<Rightarrow> Inr pr
           | None \<Rightarrow> gemini_default_loop reg models medias))"

definition gemini_default_pricing_for :: "registry \<Rightarrow> string \<Rightarrow> string option \<Rightarrow> pricing res" where
  "gemini_default_pricing_for reg media model =
     bind_res (case model of None \<Rightarrow> Inr None
        | Some m \<Rightarrow> gemini_model_loop reg [''gemini-aistudio'', ''gemini-vertex''] m media) (\<lambda>hit.
       case hit of Some pr \<Rightarrow> Inr pr
       | None \<Rightarrow> bind_res (subscript reg ''gemini-aistudio'') (\<lambda>models. gemini_default_loop reg models [media, ''text'']))"

definition own_table_pricing :: "registry \<Rightarrow> string \<Rightarrow> (string \<times> model_info) list \<Rightarrow> string \<Rightarrow> pricing option" where
  "own_table_pricing reg provider models media =
     (if provider \<in> set OWN_TABLE_PROVIDERS
      then Option.bind (default_model_for_provider reg provider media) (\<lambda>d. Option.bind (dict_get models d) mi_pricing)
      else None)"

definition lookup_pricing :: "registry \<Rightarrow> string \<Rightarrow> string option \<Rightarrow> string \<Rightarrow> pricing res" where
  "lookup_pricing reg provider model media =
     (if provider = ''anthropic'' then Inr ANTHROPIC_PRICING
      else if provider = ''vidu'' then Inr (ViduDelegate ''CNY'')
      else case dict_get reg provider of
        None \<Rightarrow> gemini_default_pricing_for reg media model
      | Some models \<Rightarrow>
          (case priced_for (Option.bind model (dict_get models)) media of Some pr \<Rightarrow> Inr pr
           | None \<Rightarrow>
               (case own_table_pricing reg provider models media of Some pr \<Rightarrow> Inr pr
                | None \<Rightarrow> gemini_default_pricing_for reg media model)))"

subsection \<open>The calculator\<close>

definition CUSTOM_PROVIDER_PREFIX :: string where "CUSTOM_PROVIDER_PREFIX = ''custom-''"

definition make_provider_id :: "int \<Rightarrow> string" where
  "make_provider_id i = CUSTOM_PROVIDER_PREFIX @ show_int i"

definition parse_provider_id :: "string \<Rightarrow> int res" where
  "parse_provider_id s =
     (case py_int (case strip_prefix CUSTOM_PROVIDER_PREFIX s of Some r \<Rightarrow> r | None \<Rightarrow> s) of
        Some i \<Rightarrow> Inr i | None \<Rightarrow> Inl (ValueError ''invalid literal for int''))"

definition is_custom_provider :: "string \<Rightarrow> bool" where
  "is_custom_provider s \<longleftrightarrow> strip_prefix CUSTOM_PROVIDER_PREFIX s \<noteq> None"

definition ARK_TOKENS_PER_SECOND_ESTIMATE :: int where "ARK_TOKENS_PER_SECOND_ESTIMATE = 60000"

record custom_price =
  cp_price_input :: "rat option"
  cp_price_output :: "rat option"
  cp_currency :: "string option"

definition calculate_custom_cost :: "custom_price \<Rightarrow> pricing_params \<Rightarrow> rat \<times> string" where
  "calculate_custom_cost cp p =
     (case cp_price_input cp of None \<Rightarrow> (0, ''USD'')
      | Some price \<Rightarrow>
          (let cur = opt_or (cp_currency cp) ''USD''; call_type = pp_call_type p in
           if call_type = ''text'' then
             ((or_zero (pp_input_tokens p) * price + or_zero (pp_output_tokens p) * coalesce (cp_price_output cp) 0) / 1000000, cur)
           else if call_type = ''image'' then (price, cur)
           else if call_type = ''video'' then (of_int (or_int (pp_duration_seconds p) 8) * price, cur)
           else if call_type = ''audio'' then (or_zero (pp_usage_tokens p) / CHARACTERS_PER_PRICING_UNIT * price, cur)
           else (0, cur)))"

definition per_second :: "pricing \<Rightarrow> bool" where
  "per_second pr = (case pr of PerSecondMatrix _ _ _ _ _ \<Rightarrow> True | PerSecondTiered _ _ _ \<Rightarrow> True | _ \<Rightarrow> False)"

definition per_video_token :: "pricing \<Rightarrow> bool" where
  "per_video_token pr = (case pr of PerTokenVideo _ _ _ \<Rightarrow> True | _ \<Rightarrow> False)"

definition calculate_cost :: "registry \<Rightarrow> string \<Rightarrow> pricing_params \<Rightarrow> custom_price \<Rightarrow> bool \<Rightarrow> (rat \<times> string) res" where
  "calculate_cost reg provider p cp estimate_only =
     (if is_custom_provider provider then Inr (calculate_custom_cost cp p)
      else if pp_call_type p = ''text'' \<and> pp_input_tokens p = None then Inr (0, ''USD'')
      else bind_res (lookup_pricing reg provider (pp_model p) (pp_call_type p)) (\<lambda>pr.
        let no_duration = (pp_duration_seconds p = None \<or> pp_duration_seconds p = Some 0);
            p1 = (if per_second pr \<and> no_duration then p\<lparr>pp_duration_seconds := Some 8\<rparr> else p);
            p2 = (if estimate_only \<and> per_video_token pr \<and> pp_usage_tokens p1 = None \<and> \<not> no_duration
                  then p1\<lparr>pp_usage_tokens := Some (the (pp_duration_seconds p1) * ARK_TOKENS_PER_SECOND_ESTIMATE)\<rparr> else p1) in
        calculate_pricing pr p2))"

definition estimate_reference_video_cost ::
  "registry \<Rightarrow> int list \<Rightarrow> string \<Rightarrow> string option \<Rightarrow> string option \<Rightarrow> bool \<Rightarrow> string \<Rightarrow> (rat \<times> string) res" where
  "estimate_reference_video_cost reg durations provider model resolution audio service_tier =
     bind_res (lookup_pricing reg provider model ''video'') (\<lambda>pr.
       if durations = [] then Inr (0, currency_of pr)
       else let total = sum_list (map (max 0) durations) in
         calculate_pricing pr
           \<lparr>pp_call_type = ''video'', pp_model = model, pp_resolution = resolution, pp_aspect_ratio = None,
            pp_duration_seconds = Some total, pp_generate_audio = audio,
            pp_usage_tokens = (if per_video_token pr then Some (total * ARK_TOKENS_PER_SECOND_ESTIMATE) else None),
            pp_service_tier = service_tier, pp_input_tokens = None, pp_output_tokens = None, pp_quality = None, pp_size = None,
            pp_image_input_tokens = None, pp_image_output_tokens = None, pp_text_input_tokens = None, pp_text_output_tokens = None,
            pp_n = 1\<rparr>)"

subsection \<open>Well-formed declarations bill\<close>

definition nonneg :: "'k rates \<Rightarrow> bool" where
  "nonneg row = list_all (\<lambda>kv. 0 \<le> snd kv) row"

definition keys_present :: "string list \<Rightarrow> string rates \<Rightarrow> bool" where
  "keys_present ks row = list_all (\<lambda>k. k \<in> fst ` set row) ks"

fun pricing_ok :: "pricing \<Rightarrow> bool" where
  "pricing_ok (PerToken rates d _) = list_all (\<lambda>(_, row). nonneg row \<and> keys_present [''input'', ''output''] row) rates"
| "pricing_ok (PerImageFlat rates d _) = (nonneg rates \<and> d \<in> fst ` set rates)"
| "pricing_ok (PerImageByResolution rates d _) = (list_all (nonneg \<circ> snd) rates \<and> d \<in> fst ` set rates)"
| "pricing_ok (PerImageOpenAIToken trates frates d _) =
     (list_all (\<lambda>(_, row). nonneg row \<and> keys_present [''image_in'', ''image_out'', ''text_in'', ''text_out''] row) trates
      \<and> list_all (nonneg \<circ> snd) frates \<and> d \<in> fst ` set trates \<and> d \<in> fst ` set frates)"
| "pricing_ok (PerSecondMatrix rates d _ _ _) = (list_all (nonneg \<circ> snd) rates \<and> d \<in> fst ` set rates)"
| "pricing_ok (PerVideoBucket rates d _) = (list_all (\<lambda>(_, row). nonneg row \<and> row \<noteq> []) rates \<and> d \<in> fst ` set rates)"
| "pricing_ok (PerSecondTiered rates d _) = (list_all (nonneg \<circ> snd) rates \<and> d \<in> fst ` set rates)"
| "pricing_ok (PerTokenVideo rates d _) = (list_all (nonneg \<circ> snd) rates \<and> d \<in> fst ` set rates)"
| "pricing_ok (PerCharacter rates d _) = nonneg rates"
| "pricing_ok (ViduDelegate _) = True"

text \<open>The counts a caller reports are not negative.\<close>

definition count_ok :: "int option \<Rightarrow> bool" where
  "count_ok x = (case x of None \<Rightarrow> True | Some v \<Rightarrow> 0 \<le> v)"

definition params_ok :: "pricing_params \<Rightarrow> bool" where
  "params_ok p \<longleftrightarrow> list_all count_ok [pp_duration_seconds p, pp_usage_tokens p, pp_input_tokens p, pp_output_tokens p,
     pp_image_input_tokens p, pp_image_output_tokens p, pp_text_input_tokens p, pp_text_output_tokens p] \<and> 0 \<le> pp_n p"

definition bills :: "rat res \<Rightarrow> bool" where
  "bills r = (case r of Inr a \<Rightarrow> 0 \<le> a | Inl _ \<Rightarrow> False)"

lemma bills_Inr [simp]: "bills (Inr a) \<longleftrightarrow> 0 \<le> a"
  by (simp add: bills_def)

lemma bills_bind: "r = Inr x \<Longrightarrow> bills (f x) \<Longrightarrow> bills (bind_res r f)"
  by simp

lemma default_nonneg: "nonneg row \<Longrightarrow> 0 \<le> d \<Longrightarrow> 0 \<le> dict_get_default row k d"
  by (auto simp: nonneg_def dict_get_default_def list_all_iff split: option.splits dest!: map_of_SomeD)

lemma subscript_key: "k \<in> fst ` set d \<Longrightarrow> \<exists>v. subscript d k = Inr v \<and> (k, v) \<in> set d"
  by (cases "dict_get d k") (auto simp: subscript_def map_of_eq_None_iff dest: map_of_SomeD)

lemma or_zero_nonneg: "count_ok x \<Longrightarrow> 0 \<le> or_zero x"
  by (auto simp: or_zero_def count_ok_def split: option.splits)

lemma default_mem: "(k', d) \<in> set rates \<Longrightarrow> \<exists>m. (m, dict_get_default rates k d) \<in> set rates"
  by (auto simp: dict_get_default_def split: option.splits dest: map_of_SomeD)

text \<open>Most strategies first look up the row of the default model.\<close>

lemma row_bills:
  assumes "d \<in> fst ` set rates" "\<And>default_row. (d, default_row) \<in> set rates \<Longrightarrow> bills (f default_row)"
  shows "bills (bind_res (subscript rates d) f)"
  using subscript_key [OF assms(1)] assms(2) by auto

lemma chosen_nonneg:
  "list_all (nonneg \<circ> snd) rates \<Longrightarrow> (d, default_row) \<in> set rates \<Longrightarrow> nonneg (dict_get_default rates k default_row) \<and> nonneg default_row"
  using default_mem [of d default_row rates k] by (auto simp: list_all_iff)

lemma key_value: "nonneg row \<Longrightarrow> keys_present ks row \<Longrightarrow> k \<in> set ks \<Longrightarrow> \<exists>v. subscript row k = Inr v \<and> 0 \<le> v"
  using subscript_key [of k row] by (fastforce simp: nonneg_def keys_present_def list_all_iff)

lemma per_token_bills:
  assumes "pricing_ok (PerToken rates d cur)" "params_ok p"
  shows "bills (per_token rates d p)"
proof -
  let ?row = "dict_get_default rates (opt_or (pp_model p) d) (dict_get_default rates d [(''input'', 0), (''output'', 0)])"
  have "nonneg r \<and> keys_present [''input'', ''output''] r" if "(m, r) \<in> set rates" for m r
    using assms(1) that by (auto simp: list_all_iff)
  then have "nonneg ?row \<and> keys_present [''input'', ''output''] ?row"
    by (auto simp: dict_get_default_def nonneg_def keys_present_def split: option.splits dest!: map_of_SomeD)
  note row = this [THEN conjunct1] this [THEN conjunct2]
  obtain i out where "subscript ?row ''input'' = Inr i" "0 \<le> i" "subscript ?row ''output'' = Inr out" "0 \<le> out"
    using key_value [OF row, of "''input''"] key_value [OF row, of "''output''"] by (meson list.set_intros)
  then show ?thesis using assms(2) by (simp add: per_token_def Let_def params_ok_def or_zero_nonneg)
qed

lemma per_image_flat_bills:
  assumes "pricing_ok (PerImageFlat rates d cur)" "params_ok p"
  shows "bills (per_image_flat rates d p)"
proof -
  obtain v where v: "subscript rates d = Inr v" "(d, v) \<in> set rates" using subscript_key [of d rates] assms(1) by auto
  then have "0 \<le> v" using assms(1) by (auto simp: nonneg_def list_all_iff)
  then show ?thesis using v assms by (simp add: per_image_flat_def default_nonneg params_ok_def)
qed

lemma per_image_by_resolution_bills:
  "pricing_ok (PerImageByResolution rates d cur) \<Longrightarrow> params_ok p \<Longrightarrow> bills (per_image_by_resolution rates d p)"
  unfolding per_image_by_resolution_def
  by (rule row_bills) (auto simp: Let_def params_ok_def chosen_nonneg default_nonneg)

lemma duration_nonneg: "params_ok p \<Longrightarrow> 0 \<le> duration_or_8 p"
  by (auto simp: params_ok_def duration_or_8_def count_ok_def split: option.splits)

lemma per_second_matrix_bills:
  "pricing_ok (PerSecondMatrix rates d dims cur res) \<Longrightarrow> params_ok p \<Longrightarrow> bills (per_second_matrix rates d dims res p)"
  unfolding per_second_matrix_def
  by (rule row_bills) (auto simp: Let_def chosen_nonneg default_nonneg duration_nonneg split: dimensions.split)

lemma per_second_tiered_bills:
  "pricing_ok (PerSecondTiered rates d cur) \<Longrightarrow> params_ok p \<Longrightarrow> bills (per_second_tiered rates d p)"
  unfolding per_second_tiered_def
  by (rule row_bills) (auto simp: Let_def chosen_nonneg default_nonneg duration_nonneg)

lemma per_token_video_bills:
  "pricing_ok (PerTokenVideo rates d cur) \<Longrightarrow> params_ok p \<Longrightarrow> bills (per_token_video rates d p)"
  unfolding per_token_video_def
  by (rule row_bills) (auto simp: Let_def params_ok_def chosen_nonneg default_nonneg or_zero_nonneg)

lemma per_character_bills:
  "pricing_ok (PerCharacter rates d cur) \<Longrightarrow> params_ok p \<Longrightarrow> bills (per_character rates d p)"
  by (simp add: per_character_def params_ok_def default_nonneg or_zero_nonneg CHARACTERS_PER_PRICING_UNIT_def)

lemma per_image_openai_token_bills:
  assumes "pricing_ok (PerImageOpenAIToken trates frates d cur)" "params_ok p"
  shows "bills (per_image_openai_token trates frates d p)"
proof (cases "has_usage p")
  case True
  let ?ks = "[''image_in'', ''image_out'', ''text_in'', ''text_out'']"
  obtain dr where dr: "subscript trates d = Inr dr" "(d, dr) \<in> set trates" using subscript_key [of d trates] assms(1) by auto
  let ?row = "dict_get_default trates (opt_or (pp_model p) d) dr"
  have "\<exists>m. (m, ?row) \<in> set trates" by (rule default_mem [OF dr(2)])
  then have row: "nonneg ?row" "keys_present ?ks ?row" using assms(1) by (auto simp: list_all_iff)
  obtain a b c e where "subscript ?row ''image_in'' = Inr a" "0 \<le> a" "subscript ?row ''image_out'' = Inr b" "0 \<le> b"
    "subscript ?row ''text_in'' = Inr c" "0 \<le> c" "subscript ?row ''text_out'' = Inr e" "0 \<le> e"
    using key_value [OF row, of "''image_in''"] key_value [OF row, of "''image_out''"] key_value [OF row, of "''text_in''"] key_value [OF row, of "''text_out''"] by (meson list.set_intros)
  then show ?thesis using True dr assms(2) by (simp add: per_image_openai_token_def Let_def params_ok_def or_zero_nonneg)
next
  case False
  show ?thesis unfolding per_image_openai_token_def Let_def if_not_P [OF False]
    by (rule row_bills) (use assms in \<open>auto simp: params_ok_def chosen_nonneg default_nonneg\<close>)
qed

subsection \<open>The nearest price point\<close>

lemma bucket_rank_inj: "bucket_rank t a = bucket_rank t b \<Longrightarrow> a = b"
  by (cases a; cases b) (auto simp: bucket_rank_def)

text \<open>The candidates as a set, and the point chosen from it.\<close>

definition candidates :: "(string \<times> int) rates \<Rightarrow> string \<Rightarrow> ((string \<times> int) \<times> rat) set" where
  "candidates buckets res = (let same = {b \<in> set buckets. fst (fst b) = res} in if same \<noteq> {} then same else set buckets)"

lemma nearest_bucket_least:
  assumes "buckets \<noteq> []"
  shows "\<exists>b \<in> candidates buckets res. nearest_bucket buckets res t = Inr (snd b)
    \<and> (\<forall>c \<in> candidates buckets res. bucket_rank t b \<le> bucket_rank t c)"
proof -
  let ?same = "filter (\<lambda>b. fst (fst b) = res) buckets"
  let ?cs = "if ?same \<noteq> [] then ?same else buckets"
  have cs: "set ?cs = candidates buckets res" by (auto simp: candidates_def Let_def filter_empty_conv)
  have ne: "?cs \<noteq> []" using assms by auto
  have "bucket_rank t (arg_min_list (bucket_rank t) ?cs) = Min (bucket_rank t ` set ?cs)" by (rule f_arg_min_list_f [OF ne])
  then have "\<forall>c \<in> set ?cs. bucket_rank t (arg_min_list (bucket_rank t) ?cs) \<le> bucket_rank t c" by simp
  moreover have "arg_min_list (bucket_rank t) ?cs \<in> set ?cs" by (rule arg_min_list_in [OF ne])
  moreover have "nearest_bucket buckets res t = Inr (snd (arg_min_list (bucket_rank t) ?cs))"
    unfolding nearest_bucket_def Let_def using ne by auto
  ultimately show ?thesis unfolding cs by blast
qed

lemma nearest_bucket_order:
  assumes "set buckets = set buckets'"
  shows "nearest_bucket buckets res t = nearest_bucket buckets' res t"
proof (cases "buckets = []")
  case True
  then show ?thesis using assms by simp
next
  case False
  then have "buckets' \<noteq> []" using assms by auto
  have same: "candidates buckets res = candidates buckets' res" using assms by (simp add: candidates_def)
  obtain b where b: "b \<in> candidates buckets res" "nearest_bucket buckets res t = Inr (snd b)"
    "\<forall>c \<in> candidates buckets res. bucket_rank t b \<le> bucket_rank t c" using nearest_bucket_least [OF False] by blast
  obtain b' where b': "b' \<in> candidates buckets res" "nearest_bucket buckets' res t = Inr (snd b')"
    "\<forall>c \<in> candidates buckets res. bucket_rank t b' \<le> bucket_rank t c"
    using nearest_bucket_least [OF \<open>buckets' \<noteq> []\<close>] unfolding same by blast
  have "b = b'" using b b' by (intro bucket_rank_inj [of t] order.antisym) auto
  then show ?thesis using b b' by simp
qed

lemma per_video_bucket_bills:
  assumes "pricing_ok (PerVideoBucket rates d cur)"
  shows "bills (per_video_bucket rates d p)"
  unfolding per_video_bucket_def
proof (rule row_bills)
  fix dr assume "(d, dr) \<in> set rates"
  from default_mem [OF this] obtain m where "(m, dict_get_default rates (opt_or (pp_model p) d) dr) \<in> set rates" by blast
  then have row: "nonneg (dict_get_default rates (opt_or (pp_model p) d) dr)" "dict_get_default rates (opt_or (pp_model p) d) dr \<noteq> []"
    using assms by (auto simp: list_all_iff)
  have "bills (nearest_bucket row res t)" if "nonneg row" "row \<noteq> []" for row res t
    using nearest_bucket_least [OF that(2), of res t] that(1) by (auto simp: candidates_def nonneg_def list_all_iff Let_def split: if_splits)
  moreover have "0 \<le> c" if "nonneg row" "dict_get row k = Some c" for row :: "(string \<times> int) rates" and k c
    using that map_of_SomeD [of row k c] by (auto simp: nonneg_def list_all_iff)
  ultimately show "bills (let buckets = dict_get_default rates (opt_or (pp_model p) d) dr; resolution = lower (opt_or (pp_resolution p) ''768p'');
      duration = case pp_duration_seconds p of None \<Rightarrow> DEFAULT_BUCKET_DURATION | Some d \<Rightarrow> d in
      case dict_get buckets (resolution, duration) of None \<Rightarrow> nearest_bucket buckets resolution duration | Some c \<Rightarrow> Inr c)"
    using row by (auto simp: Let_def split: option.split)
qed (use assms in auto)

definition billed :: "(rat \<times> string) res \<Rightarrow> bool" where
  "billed r = (case r of Inr x \<Rightarrow> 0 \<le> fst x | Inl _ \<Rightarrow> False)"

lemma billed_iff: "billed r \<longleftrightarrow> (\<exists>a cur. r = Inr (a, cur) \<and> 0 \<le> a)"
  by (cases r) (auto simp: billed_def)

lemma billed_with_currency [simp]: "billed (with_currency r cur) = bills r"
  by (cases r) (simp_all add: with_currency_def bills_def billed_def)

definition credits_ok :: "(string \<times> (string \<times> int) list) list \<Rightarrow> bool" where
  "credits_ok tbl = list_all (\<lambda>(_, row). row \<noteq> [] \<and> list_all (\<lambda>kv. 0 \<le> snd kv) row) tbl"

lemma credits_row:
  assumes "credits_ok tbl" "subscript tbl d = Inr r" "row = dict_get_default tbl m r"
  shows "0 \<le> snd (hd row)" "0 \<le> e \<Longrightarrow> 0 \<le> dict_get_default row k e"
proof -
  have "(d, r) \<in> set tbl" using assms(2) by (auto simp: subscript_def split: option.splits dest: map_of_SomeD)
  from default_mem [OF this, of m] have row: "row \<noteq> []" "list_all (\<lambda>kv. 0 \<le> snd kv) row"
    using assms(1,3) by (auto simp: credits_ok_def list_all_iff)
  show "0 \<le> snd (hd row)" using row by (cases row) auto
  show "0 \<le> dict_get_default row k e" if "0 \<le> e"
    using row(2) that by (auto simp: dict_get_default_def list_all_iff split: option.splits dest!: map_of_SomeD)
qed

lemma vidu_tables:
  "credits_ok VIDU_IMAGE_CREDITS" "credits_ok VIDU_VIDEO_CREDITS_PER_SECOND"
  "\<exists>r. subscript VIDU_IMAGE_CREDITS DEFAULT_VIDU_IMAGE_MODEL = Inr r"
  "\<exists>r. subscript VIDU_VIDEO_CREDITS_PER_SECOND DEFAULT_VIDU_VIDEO_MODEL = Inr r"
  by (simp_all add: credits_ok_def VIDU_IMAGE_CREDITS_def VIDU_VIDEO_CREDITS_PER_SECOND_def subscript_def
      DEFAULT_VIDU_IMAGE_MODEL_def DEFAULT_VIDU_VIDEO_MODEL_def)

lemma vidu_cost_bills:
  assumes "count_ok duration"
  shows "billed (calculate_vidu_cost call_type usage model res duration)"
proof -
  obtain r where r: "subscript VIDU_IMAGE_CREDITS DEFAULT_VIDU_IMAGE_MODEL = Inr r" using vidu_tables(3) by blast
  obtain v where v: "subscript VIDU_VIDEO_CREDITS_PER_SECOND DEFAULT_VIDU_VIDEO_MODEL = Inr v" using vidu_tables(4) by blast
  have "0 \<le> VIDU_CREDIT_TO_CNY" by (simp add: VIDU_CREDIT_TO_CNY_def)
  moreover have "0 \<le> or_int duration 5" using assms by (auto simp: or_int_def count_ok_def split: option.splits)
  ultimately show ?thesis
    using r v credits_row [OF vidu_tables(1) r refl] credits_row [OF vidu_tables(2) v refl]
    by (simp add: calculate_vidu_cost_def Let_def billed_def)
qed

lemma calculate_pricing_bills:
  assumes "pricing_ok pr" "params_ok p"
  shows "billed (calculate_pricing pr p)"
proof (cases pr)
  case (ViduDelegate cur)
  have "count_ok (pp_duration_seconds p)" using assms(2) by (simp add: params_ok_def)
  then show ?thesis using ViduDelegate vidu_cost_bills by simp
qed (use assms per_token_bills per_image_flat_bills per_image_by_resolution_bills per_image_openai_token_bills per_second_matrix_bills
       per_video_bucket_bills per_second_tiered_bills per_token_video_bills per_character_bills in \<open>force simp del: pricing_ok.simps\<close>)+

subsection \<open>The look-up\<close>

definition default_pricing :: "registry \<Rightarrow> string \<Rightarrow> string \<Rightarrow> pricing option" where
  "default_pricing reg provider media = Option.bind (dict_get reg provider) (\<lambda>models.
     Option.bind (default_model_for_provider reg provider media) (\<lambda>d. Option.bind (dict_get models d) mi_pricing))"

definition registry_ok :: "registry \<Rightarrow> bool" where
  "registry_ok reg \<longleftrightarrow> list_all (\<lambda>(_, models). dict_ok models \<and> list_all (\<lambda>(_, m). case mi_pricing m of None \<Rightarrow> True | Some pr \<Rightarrow> pricing_ok pr) models) reg
     \<and> ''gemini-aistudio'' \<in> fst ` set reg \<and> ''gemini-vertex'' \<in> fst ` set reg \<and> default_pricing reg ''gemini-aistudio'' ''text'' \<noteq> None"

text \<open>The registry declares \<open>pr\<close> for a model of the media type.\<close>

definition declared :: "registry \<Rightarrow> string \<Rightarrow> pricing \<Rightarrow> bool" where
  "declared reg media pr \<longleftrightarrow> (\<exists>(pid, models) \<in> set reg. \<exists>(mid, m) \<in> set models. mi_media_type m = media \<and> mi_pricing m = Some pr)"

lemma declaredI: "dict_get reg pid = Some models \<Longrightarrow> dict_get models mid = Some m \<Longrightarrow> mi_media_type m = media \<Longrightarrow> mi_pricing m = Some pr \<Longrightarrow> declared reg media pr"
  unfolding declared_def by (blast dest: map_of_SomeD)

lemma registry_models:
  assumes "registry_ok reg" "dict_get reg pid = Some models"
  shows "dict_ok models" "dict_get models mid = Some m \<Longrightarrow> mi_pricing m = Some pr \<Longrightarrow> pricing_ok pr"
proof -
  have "(pid, models) \<in> set reg" using assms(2) by (rule map_of_SomeD)
  then have m: "dict_ok models \<and> list_all (\<lambda>(_, m). case mi_pricing m of None \<Rightarrow> True | Some pr \<Rightarrow> pricing_ok pr) models"
    using assms(1) unfolding registry_ok_def list_all_iff by blast
  then show "dict_ok models" by blast
  show "pricing_ok pr" if "dict_get models mid = Some m" "mi_pricing m = Some pr"
    using m map_of_SomeD [OF that(1)] that(2) by (auto simp: list_all_iff)
qed

lemma default_model_media:
  assumes "dict_get reg pid = Some models" "dict_ok models" "default_model_for_provider reg pid media = Some d" "dict_get models d = Some m"
  shows "mi_media_type m = media"
proof -
  obtain m' where "find (\<lambda>(i, m). mi_media_type m = media \<and> mi_default m) models = Some (d, m')"
    using assms(1,3) by (auto simp: default_model_for_provider_def)
  from find_SomeD [OF this] have "(d, m') \<in> set models" "mi_media_type m' = media" by auto
  then show ?thesis using assms(2,4) by (simp add: dict_ok_def)
qed

lemma default_pricing_facts:
  assumes "registry_ok reg" "default_pricing reg pid media = Some pr"
  shows "pricing_ok pr" "declared reg media pr"
  using assms registry_models [OF assms(1)] default_model_media
  by (auto simp: default_pricing_def bind_eq_Some_conv intro: declaredI)

lemma priced_for_facts:
  assumes "registry_ok reg" "dict_get reg pid = Some models" "priced_for (Option.bind model (dict_get models)) media = Some pr"
  shows "pricing_ok pr" "declared reg media pr"
  using assms registry_models [OF assms(1,2)]
  by (auto simp: priced_for_def bind_eq_Some_conv intro: declaredI split: option.splits if_splits)

lemma gemini_model_loop_facts:
  assumes "registry_ok reg" "set pids \<subseteq> fst ` set reg"
  shows "\<exists>hit. gemini_model_loop reg pids model media = Inr hit \<and> (\<forall>pr. hit = Some pr \<longrightarrow> pricing_ok pr \<and> declared reg media pr)"
  using assms(2)
proof (induction pids)
  case (Cons pid pids)
  then obtain models where "dict_get reg pid = Some models" by (metis insert_subset list.simps(15) map_of_eq_None_iff not_None_eq)
  then show ?case using Cons priced_for_facts [OF assms(1), of pid models "Some model" media]
    by (auto simp: subscript_def split: option.split)
qed simp

lemma gemini_default_facts:
  assumes "registry_ok reg"
  shows "\<exists>pr. gemini_default_pricing_for reg media model = Inr pr \<and> pricing_ok pr
    \<and> (default_pricing reg ''gemini-aistudio'' media \<noteq> None \<longrightarrow> declared reg media pr)"
proof -
  let ?hit = "case model of None \<Rightarrow> Inr None | Some m \<Rightarrow> gemini_model_loop reg [''gemini-aistudio'', ''gemini-vertex''] m media"
  obtain hit where hit: "?hit = Inr hit" "\<forall>pr. hit = Some pr \<longrightarrow> pricing_ok pr \<and> declared reg media pr"
  proof (cases model)
    case (Some m)
    have "set [''gemini-aistudio'', ''gemini-vertex''] \<subseteq> fst ` set reg" using assms by (auto simp: registry_ok_def)
    from gemini_model_loop_facts [OF assms this, of m media] Some that show ?thesis by auto
  qed simp
  obtain tp where tp: "default_pricing reg ''gemini-aistudio'' ''text'' = Some tp" using assms by (auto simp: registry_ok_def)
  then obtain models where models: "dict_get reg ''gemini-aistudio'' = Some models" by (auto simp: default_pricing_def bind_eq_Some_conv)
  have step: "gemini_default_loop reg models (md # mds) = (case default_pricing reg ''gemini-aistudio'' md of Some pr \<Rightarrow> Inr pr | None \<Rightarrow> gemini_default_loop reg models mds)" for md mds
    using models by (auto simp: default_pricing_def split: option.split)
  show ?thesis
  proof (cases hit)
    case None
    have "gemini_default_pricing_for reg media model = (case default_pricing reg ''gemini-aistudio'' media of Some pr \<Rightarrow> Inr pr | None \<Rightarrow> Inr tp)"
      using hit None models tp step [of media "[''text'']"] step [of "''text''" "[]"]
      unfolding gemini_default_pricing_for_def by (simp add: subscript_def del: gemini_default_loop.simps(2) split: option.split)
    then show ?thesis using default_pricing_facts [OF assms] tp by (auto split: option.split)
  next
    case (Some pr)
    then show ?thesis using hit unfolding gemini_default_pricing_for_def by simp
  qed
qed

lemma lookup_pricing_facts:
  assumes "registry_ok reg"
  shows "\<exists>pr. lookup_pricing reg provider model media = Inr pr \<and> pricing_ok pr
    \<and> (provider \<notin> {''anthropic'', ''vidu''} \<and> default_pricing reg ''gemini-aistudio'' media \<noteq> None \<longrightarrow> declared reg media pr)"
proof (cases "dict_get reg provider")
  case None
  have "pricing_ok ANTHROPIC_PRICING" by (simp add: ANTHROPIC_PRICING_def nonneg_def keys_present_def)
  then show ?thesis using None gemini_default_facts [OF assms, of media model] by (auto simp: lookup_pricing_def)
next
  case (Some models)
  have an: "pricing_ok ANTHROPIC_PRICING" by (simp add: ANTHROPIC_PRICING_def nonneg_def keys_present_def)
  have own: "own_table_pricing reg provider models media = Some pr \<Longrightarrow> default_pricing reg provider media = Some pr" for pr
    using Some by (auto simp: own_table_pricing_def default_pricing_def split: if_splits)
  show ?thesis
    using an priced_for_facts [OF assms Some, of model media] default_pricing_facts [OF assms own]
      gemini_default_facts [OF assms, of media model] Some
    by (auto simp: lookup_pricing_def split: option.split)
qed

subsection \<open>What a call costs\<close>

lemma custom_cost_nonneg:
  assumes "params_ok p" "\<forall>x. cp_price_input cp = Some x \<longrightarrow> 0 \<le> x" "\<forall>x. cp_price_output cp = Some x \<longrightarrow> 0 \<le> x"
  shows "0 \<le> fst (calculate_custom_cost cp p)"
proof (cases "cp_price_input cp")
  case (Some x)
  have "0 \<le> x" "0 \<le> coalesce (cp_price_output cp) 0" using Some assms(2,3) by (auto simp: coalesce_def split: option.split)
  moreover have "0 \<le> or_zero (pp_input_tokens p)" "0 \<le> or_zero (pp_output_tokens p)" "0 \<le> or_zero (pp_usage_tokens p)"
    "0 \<le> or_int (pp_duration_seconds p) 8"
    using assms(1) or_zero_nonneg by (auto simp: params_ok_def or_int_def count_ok_def split: option.splits)
  ultimately show ?thesis using Some by (simp add: calculate_custom_cost_def Let_def CHARACTERS_PER_PRICING_UNIT_def)
qed (simp add: calculate_custom_cost_def)

lemma calculate_cost_facts:
  assumes "registry_ok reg" "params_ok p" "\<forall>x. cp_price_input cp = Some x \<longrightarrow> 0 \<le> x" "\<forall>x. cp_price_output cp = Some x \<longrightarrow> 0 \<le> x"
  shows "\<exists>amount cur. calculate_cost reg provider p cp estimate_only = Inr (amount, cur) \<and> 0 \<le> amount
    \<and> (\<not> is_custom_provider provider \<and> provider \<notin> {''anthropic'', ''vidu''} \<and> \<not> (pp_call_type p = ''text'' \<and> pp_input_tokens p = None)
        \<and> default_pricing reg ''gemini-aistudio'' (pp_call_type p) \<noteq> None
       \<longrightarrow> (\<exists>pr p'. declared reg (pp_call_type p) pr \<and> pp_model p' = pp_model p \<and> calculate_pricing pr p' = Inr (amount, cur)))"
proof (cases "is_custom_provider provider \<or> pp_call_type p = ''text'' \<and> pp_input_tokens p = None")
  case True
  have "0 \<le> fst (calculate_custom_cost cp p)" by (rule custom_cost_nonneg [OF assms(2-4)])
  moreover obtain a c where "calculate_custom_cost cp p = (a, c)" by (cases "calculate_custom_cost cp p")
  ultimately show ?thesis using True by (cases "is_custom_provider provider") (simp_all add: calculate_cost_def)
next
  case False
  obtain pr where pr: "lookup_pricing reg provider (pp_model p) (pp_call_type p) = Inr pr" "pricing_ok pr"
    "provider \<notin> {''anthropic'', ''vidu''} \<and> default_pricing reg ''gemini-aistudio'' (pp_call_type p) \<noteq> None \<longrightarrow> declared reg (pp_call_type p) pr"
    using lookup_pricing_facts [OF assms(1), of provider "pp_model p" "pp_call_type p"] by (elim exE conjE)
  define q where "q = (let none = (pp_duration_seconds p = None \<or> pp_duration_seconds p = Some 0);
      p1 = (if per_second pr \<and> none then p\<lparr>pp_duration_seconds := Some 8\<rparr> else p) in
      if estimate_only \<and> per_video_token pr \<and> pp_usage_tokens p1 = None \<and> \<not> none
      then p1\<lparr>pp_usage_tokens := Some (the (pp_duration_seconds p1) * ARK_TOKENS_PER_SECOND_ESTIMATE)\<rparr> else p1)"
  have run: "calculate_cost reg provider p cp estimate_only = calculate_pricing pr q"
    using False pr(1) by (auto simp: calculate_cost_def q_def Let_def)
  have "params_ok q" "pp_model q = pp_model p"
    using assms(2) by (auto simp: q_def Let_def params_ok_def count_ok_def ARK_TOKENS_PER_SECOND_ESTIMATE_def split: option.splits)
  then show ?thesis using run pr(3) calculate_pricing_bills [OF pr(2) \<open>params_ok q\<close>] unfolding billed_iff by auto
qed


definition sample_registry :: registry where
  "sample_registry =
     [(''gemini-aistudio'', [(''flash'', \<lparr>mi_media_type = ''text'', mi_default = True, mi_pricing = Some (PerToken [(''flash'', [(''input'', 1), (''output'', 2)])] ''flash'' ''USD'')\<rparr>),
         (''veo'', \<lparr>mi_media_type = ''video'', mi_default = True, mi_pricing = Some (PerSecondMatrix [(''veo'', [((''1080p'', Some True), 1/2)])] ''veo'' ResolutionAudio ''USD'' ''720p'')\<rparr>)]),
      (''gemini-vertex'', []),
      (''minimax'', [(''hailuo'', \<lparr>mi_media_type = ''video'', mi_default = True, mi_pricing = Some (PerVideoBucket [(''hailuo'', [((''768p'', 6), 2), ((''1080p'', 6), 4)])] ''hailuo'' ''CNY'')\<rparr>)])]"

definition sample_params :: pricing_params where
  "sample_params = \<lparr>pp_call_type = ''video'', pp_model = Some ''nonesuch'', pp_resolution = None, pp_aspect_ratio = None,
     pp_duration_seconds = None, pp_generate_audio = True, pp_usage_tokens = None, pp_service_tier = ''default'', pp_input_tokens = None,
     pp_output_tokens = None, pp_quality = None, pp_size = None, pp_image_input_tokens = None, pp_image_output_tokens = None,
     pp_text_input_tokens = None, pp_text_output_tokens = None, pp_n = 1\<rparr>"

lemma sample_registry_ok: "registry_ok sample_registry"
  by (simp add: registry_ok_def sample_registry_def default_pricing_def default_model_for_provider_def dict_ok_def nonneg_def keys_present_def)


text \<open>
  Price points. A video model billed by price points costs what its table says for the exact
  resolution and duration. Otherwise it costs what the nearest point costs, taken among the points
  of the same resolution when there are any: nearest in duration, then the shorter one, then the
  cheaper one. The order in which the table lists its points never matters.
\<close>

theorem per_video_bucket_nearest:
  assumes "dict_get rates d = Some drow" "dict_get_default rates (opt_or (pp_model p) d) drow = row" "row \<noteq> []"
    "res = lower (opt_or (pp_resolution p) ''768p'')" "t = (case pp_duration_seconds p of None \<Rightarrow> 6 | Some s \<Rightarrow> s)"
    "dict_ok row" "mset row' = mset row" "dict_get rates' d = Some drow'" "dict_get_default rates' (opt_or (pp_model p) d) drow' = row'"
  shows "per_video_bucket rates' d p = per_video_bucket rates d p
    \<and> (\<exists>b \<in> set row. per_video_bucket rates d p = Inr (snd b)
        \<and> (if \<exists>price. ((res, t), price) \<in> set row then fst b = (res, t)
           else (\<forall>c \<in> set row. (fst (fst c) = res \<longrightarrow> fst (fst b) = res)
             \<and> (fst (fst c) = res \<or> fst (fst b) \<noteq> res \<longrightarrow>
                 (\<bar>snd (fst b) - t\<bar>, snd (fst b), snd b) \<le> (\<bar>snd (fst c) - t\<bar>, snd (fst c), snd c)))))"
proof -
  have run: "per_video_bucket rts d p = (case dict_get rw (res, t) of Some c \<Rightarrow> Inr c | None \<Rightarrow> nearest_bucket rw res t)"
    if "dict_get rts d = Some dr" "dict_get_default rts (opt_or (pp_model p) d) dr = rw" for rts dr rw
    using that(1) unfolding per_video_bucket_def DEFAULT_BUCKET_DURATION_def assms(4,5) that(2) [symmetric] by (simp add: subscript_def Let_def)
  have sets: "set row' = set row" using assms(7) by (metis set_mset_mset)
  have "distinct (map fst row')" using assms(6,7) by (metis dict_ok_def mset_eq_imp_distinct_iff mset_map)
  then have get: "dict_get row' (res, t) = dict_get row (res, t)"
    using assms(6) sets map_of_inject_set [of row' row] by (simp add: dict_ok_def)
  have eq: "per_video_bucket rates' d p = per_video_bucket rates d p"
    unfolding run [OF assms(8,9)] run [OF assms(1,2)] get using nearest_bucket_order [OF sets] by (simp split: option.split)
  show ?thesis
  proof (cases "dict_get row (res, t)")
    case (Some c)
    then have hit: "\<exists>price. ((res, t), price) \<in> set row" using map_of_SomeD [OF Some] by blast
    show ?thesis unfolding if_P [OF hit] using Some eq run [OF assms(1,2)] map_of_SomeD [OF Some] by (intro conjI bexI [of _ "((res, t), c)"]) simp_all
  next
    case None
    then have no: "\<not> (\<exists>price. ((res, t), price) \<in> set row)" by (auto simp: map_of_eq_None_iff image_iff)
    obtain b where b: "b \<in> candidates row res" "nearest_bucket row res t = Inr (snd b)"
      "\<forall>c \<in> candidates row res. bucket_rank t b \<le> bucket_rank t c" using nearest_bucket_least [OF assms(3)] by blast
    have "(\<bar>snd (fst b) - t\<bar>, snd (fst b), snd b) \<le> (\<bar>snd (fst c) - t\<bar>, snd (fst c), snd c)" if "c \<in> candidates row res" for c
      using b(3) that by (fastforce simp: bucket_rank_def less_eq_prod_def)
    then show ?thesis unfolding if_not_P [OF no] using eq run [OF assms(1,2)] None b
      by (intro conjI bexI [of _ b]) (auto simp: candidates_def Let_def split: if_splits)
  qed
qed

theorem per_video_bucket_nearest_witness:
  "per_video_bucket [(''h'', [((''1080p'', 6), 4), ((''768p'', 10), 3), ((''768p'', 6), 2)])] ''h'' sample_params
     = per_video_bucket [(''h'', [((''768p'', 6), 2), ((''768p'', 10), 3), ((''1080p'', 6), 4)])] ''h'' sample_params"
  using per_video_bucket_nearest [of "[(''h'', [((''768p'', 6), 2), ((''768p'', 10), 3), ((''1080p'', 6), 4)])]" "''h''"
      "[((''768p'', 6), 2), ((''768p'', 10), 3), ((''1080p'', 6), 4)]" sample_params "[((''768p'', 6), 2), ((''768p'', 10), 3), ((''1080p'', 6), 4)]"
      "lower ''768p''" 6 "[((''1080p'', 6), 4), ((''768p'', 10), 3), ((''768p'', 6), 2)]"
      "[(''h'', [((''1080p'', 6), 4), ((''768p'', 10), 3), ((''768p'', 6), 2)])]" "[((''1080p'', 6), 4), ((''768p'', 10), 3), ((''768p'', 6), 2)]"]
  by (simp add: sample_params_def dict_get_default_def dict_ok_def)

end
