(* ===== verification/Usage.thy ===== *)
theory Usage
  imports Pricing
begin

text \<open>
  Bookkeeping of paid calls: the table of \<open>lib/db/models/api_call.py\<close>, every method of
  \<open>UsageRepository\<close> (\<open>lib/db/repositories/usage_repo.py\<close>), the price of a custom provider
  (\<open>CustomProviderRepository.resolve_price\<close>) and the three channels of \<open>lib/ledger.py\<close>.

  A time stamp is a whole number of seconds since the epoch. The elapsed milliseconds the code
  derives from two time stamps with floats are the argument \<open>elapsed\<close>. Amounts are rationals.
  A call identifier is the autoincrement key. Where the bracket of the ledger leaves the database
  to other sessions between its two transactions, the argument \<open>others\<close> is what they commit;
  whether a write of the bracket gets through is an argument as well. The query scoped to a user is the
  identity in the repository's base class; the period echoed back by the provider report is left out.
\<close>

subsection \<open>Rows\<close>

record api_call =
  ac_id :: nat
  ac_project_name :: string
  ac_call_type :: string
  ac_model :: string
  ac_prompt :: "string option"
  ac_resolution :: "string option"
  ac_duration_seconds :: "int option"
  ac_aspect_ratio :: "string option"
  ac_generate_audio :: "bool option"
  ac_status :: string
  ac_error_message :: "string option"
  ac_output_path :: "string option"
  ac_segment_id :: "string option"
  ac_started_at :: int
  ac_finished_at :: "int option"
  ac_duration_ms :: "int option"
  ac_retry_count :: nat
  ac_cost_amount :: rat
  ac_currency :: string
  ac_provider :: string
  ac_usage_tokens :: "int option"
  ac_input_tokens :: "int option"
  ac_output_tokens :: "int option"
  ac_image_input_tokens :: "int option"
  ac_image_output_tokens :: "int option"
  ac_text_input_tokens :: "int option"
  ac_text_output_tokens :: "int option"
  ac_user_id :: string

record usage_db =
  calls :: "api_call list"
  next_id :: nat

definition get_call :: "nat \<Rightarrow> usage_db \<Rightarrow> api_call option" where
  "get_call cid db = find (\<lambda>r. ac_id r = cid) (calls db)"

definition MAX_BILLED_DURATION_SECONDS :: int where "MAX_BILLED_DURATION_SECONDS = 86400"
definition PROJECT_LEVEL_SEGMENT_KEY :: string where "PROJECT_LEVEL_SEGMENT_KEY = CHR 0x00 # ''__project__''"

record settlement_input =
  si_cost_amount :: "rat option"
  si_currency :: "string option"
  si_service_tier :: string
  si_generate_audio :: "bool option"
  si_billed_duration_seconds :: "int option"
  si_usage_tokens :: "int option"
  si_input_tokens :: "int option"
  si_output_tokens :: "int option"
  si_quality :: "string option"
  si_image_input_tokens :: "int option"
  si_image_output_tokens :: "int option"
  si_text_input_tokens :: "int option"
  si_text_output_tokens :: "int option"

definition no_settlement :: settlement_input where
  "no_settlement = \<lparr>si_cost_amount = None, si_currency = None, si_service_tier = ''default'', si_generate_audio = None,
     si_billed_duration_seconds = None, si_usage_tokens = None, si_input_tokens = None, si_output_tokens = None, si_quality = None,
     si_image_input_tokens = None, si_image_output_tokens = None, si_text_input_tokens = None, si_text_output_tokens = None\<rparr>"

record settled_call =
  sc_duration_ms :: int
  sc_duration_seconds :: "int option"
  sc_generate_audio :: "bool option"
  sc_input_tokens :: "int option"
  sc_output_tokens :: "int option"
  sc_cost_amount :: rat
  sc_currency :: string

subsection \<open>Prices of custom providers\<close>

record custom_model =
  cm_provider_id :: int
  cm_model_id :: string
  cm_price_input :: "rat option"
  cm_price_output :: "rat option"
  cm_currency :: "string option"

definition NO_PRICE :: custom_price where
  "NO_PRICE = \<lparr>cp_price_input = None, cp_price_output = None, cp_currency = None\<rparr>"

definition resolve_price :: "custom_model list \<Rightarrow> string \<Rightarrow> string \<Rightarrow> custom_price" where
  "resolve_price models provider model =
     (if \<not> is_custom_provider provider then NO_PRICE
      else case parse_provider_id provider of Inl _ \<Rightarrow> NO_PRICE
        | Inr i \<Rightarrow> (case filter (\<lambda>m. cm_provider_id m = i \<and> cm_model_id m = model) models of
            [m] \<Rightarrow> \<lparr>cp_price_input = cm_price_input m, cp_price_output = cm_price_output m, cp_currency = cm_currency m\<rparr>
          | _ \<Rightarrow> NO_PRICE))"

subsection \<open>Writing\<close>

text \<open>What a caller says about a call when it starts.\<close>

record call_request =
  cq_project_name :: string
  cq_call_type :: string
  cq_model :: string
  cq_prompt :: "string option"
  cq_resolution :: "string option"
  cq_duration_seconds :: "int option"
  cq_aspect_ratio :: "string option"
  cq_generate_audio :: bool
  cq_provider :: string
  cq_user_id :: string
  cq_segment_id :: "string option"

definition truncated :: "string option \<Rightarrow> string option" where
  "truncated x = (case x of None \<Rightarrow> None | Some s \<Rightarrow> if s = [] then None else Some (take 500 s))"

definition new_call :: "int \<Rightarrow> nat \<Rightarrow> call_request \<Rightarrow> api_call" where
  "new_call now cid q = \<lparr>ac_id = cid, ac_project_name = cq_project_name q, ac_call_type = cq_call_type q, ac_model = cq_model q,
     ac_prompt = truncated (cq_prompt q), ac_resolution = cq_resolution q, ac_duration_seconds = cq_duration_seconds q,
     ac_aspect_ratio = cq_aspect_ratio q, ac_generate_audio = Some (cq_generate_audio q), ac_status = ''pending'', ac_error_message = None,
     ac_output_path = None, ac_segment_id = cq_segment_id q, ac_started_at = now, ac_finished_at = None, ac_duration_ms = None,
     ac_retry_count = 0, ac_cost_amount = 0, ac_currency = ''USD'', ac_provider = cq_provider q, ac_usage_tokens = None,
     ac_input_tokens = None, ac_output_tokens = None, ac_image_input_tokens = None, ac_image_output_tokens = None,
     ac_text_input_tokens = None, ac_text_output_tokens = None, ac_user_id = cq_user_id q\<rparr>"

definition start_call :: "int \<Rightarrow> call_request \<Rightarrow> usage_db \<Rightarrow> usage_db \<times> nat" where
  "start_call now q db = (db\<lparr>calls := calls db @ [new_call now (next_id db) q], next_id := Suc (next_id db)\<rparr>, next_id db)"

definition has_image_tokens :: "settlement_input \<Rightarrow> bool" where
  "has_image_tokens si \<longleftrightarrow> si_image_input_tokens si \<noteq> None \<or> si_image_output_tokens si \<noteq> None
     \<or> si_text_input_tokens si \<noteq> None \<or> si_text_output_tokens si \<noteq> None"

definition effective_duration :: "api_call \<Rightarrow> settlement_input \<Rightarrow> int option" where
  "effective_duration row si =
     (case si_billed_duration_seconds si of None \<Rightarrow> ac_duration_seconds row
      | Some b \<Rightarrow> if 0 < b \<and> b \<le> MAX_BILLED_DURATION_SECONDS then Some b else ac_duration_seconds row)"

definition effective_audio :: "api_call \<Rightarrow> settlement_input \<Rightarrow> bool option" where
  "effective_audio row si = (case si_generate_audio si of None \<Rightarrow> ac_generate_audio row | Some b \<Rightarrow> Some b)"

definition total_tokens :: "int option \<Rightarrow> int option \<Rightarrow> int option" where
  "total_tokens a b = Some (or_int a 0 + or_int b 0)"

definition settled_input_tokens :: "settlement_input \<Rightarrow> int option" where
  "settled_input_tokens si = (if has_image_tokens si then total_tokens (si_image_input_tokens si) (si_text_input_tokens si) else si_input_tokens si)"

definition settled_output_tokens :: "settlement_input \<Rightarrow> int option" where
  "settled_output_tokens si = (if has_image_tokens si then total_tokens (si_image_output_tokens si) (si_text_output_tokens si) else si_output_tokens si)"

definition settlement_params :: "api_call \<Rightarrow> settlement_input \<Rightarrow> pricing_params" where
  "settlement_params row si = \<lparr>pp_call_type = ac_call_type row, pp_model = Some (ac_model row), pp_resolution = ac_resolution row,
     pp_aspect_ratio = ac_aspect_ratio row, pp_duration_seconds = effective_duration row si,
     pp_generate_audio = (effective_audio row si = Some True), pp_usage_tokens = si_usage_tokens si, pp_service_tier = si_service_tier si,
     pp_input_tokens = settled_input_tokens si, pp_output_tokens = settled_output_tokens si, pp_quality = si_quality si, pp_size = None,
     pp_image_input_tokens = si_image_input_tokens si, pp_image_output_tokens = si_image_output_tokens si,
     pp_text_input_tokens = si_text_input_tokens si, pp_text_output_tokens = si_text_output_tokens si, pp_n = 1\<rparr>"

definition settled_cost ::
  "registry \<Rightarrow> custom_model list \<Rightarrow> api_call \<Rightarrow> settlement_input \<Rightarrow> bool \<Rightarrow> string \<Rightarrow> (rat \<times> string) res" where
  "settled_cost reg models row si auto_calc base_currency =
     (case si_cost_amount si of
        Some c \<Rightarrow> Inr (c, opt_or (si_currency si) base_currency)
      | None \<Rightarrow>
          if auto_calc
          then let provider = opt_or (Some (ac_provider row)) ''gemini'' in
            calculate_cost reg provider (settlement_params row si) (resolve_price models provider (ac_model row)) False
          else Inr (0, base_currency))"

definition settle ::
  "registry \<Rightarrow> custom_model list \<Rightarrow> (int \<Rightarrow> int \<Rightarrow> int) \<Rightarrow> api_call \<Rightarrow> int \<Rightarrow> settlement_input \<Rightarrow> bool \<Rightarrow> string \<Rightarrow> settled_call res" where
  "settle reg models elapsed row finished si auto_calc base_currency =
     bind_res (settled_cost reg models row si auto_calc base_currency) (\<lambda>(cost, cur).
       Inr \<lparr>sc_duration_ms = elapsed (ac_started_at row) finished, sc_duration_seconds = effective_duration row si,
         sc_generate_audio = effective_audio row si, sc_input_tokens = settled_input_tokens si, sc_output_tokens = settled_output_tokens si,
         sc_cost_amount = cost, sc_currency = cur\<rparr>)"

definition finalized_row :: "string \<Rightarrow> int \<Rightarrow> settlement_input \<Rightarrow> settled_call \<Rightarrow> api_call \<Rightarrow> api_call" where
  "finalized_row status now si sc r = r\<lparr>ac_status := status, ac_finished_at := Some now, ac_duration_ms := Some (sc_duration_ms sc),
     ac_duration_seconds := sc_duration_seconds sc, ac_cost_amount := sc_cost_amount sc, ac_currency := sc_currency sc,
     ac_usage_tokens := si_usage_tokens si, ac_generate_audio := sc_generate_audio sc\<rparr>"

definition finalize_pending_by_call_id ::
  "registry \<Rightarrow> custom_model list \<Rightarrow> (int \<Rightarrow> int \<Rightarrow> int) \<Rightarrow> int \<Rightarrow> nat \<Rightarrow> settlement_input \<Rightarrow> string \<Rightarrow> usage_db \<Rightarrow> (usage_db \<times> nat) res" where
  "finalize_pending_by_call_id reg models elapsed now cid si status db =
     (case get_call cid db of None \<Rightarrow> Inr (db, 0)
      | Some row \<Rightarrow>
          bind_res (settle reg models elapsed row now si (status = ''success'' \<and> ac_status row = ''pending'') (opt_or (si_currency si) ''USD'')) (\<lambda>sc.
            let P = (\<lambda>r. ac_id r = cid \<and> ac_status r = ''pending'') in
            Inr (db\<lparr>calls := update_where P (finalized_row status now si sc) (calls db)\<rparr>, count_where P (calls db))))"

definition finished_row ::
  "string \<Rightarrow> int \<Rightarrow> settlement_input \<Rightarrow> string option \<Rightarrow> string option \<Rightarrow> settled_call \<Rightarrow> api_call \<Rightarrow> api_call" where
  "finished_row status now si output_path error_message sc r = (finalized_row status now si sc r)\<lparr>ac_input_tokens := sc_input_tokens sc,
     ac_output_tokens := sc_output_tokens sc, ac_image_input_tokens := si_image_input_tokens si,
     ac_image_output_tokens := si_image_output_tokens si, ac_text_input_tokens := si_text_input_tokens si,
     ac_text_output_tokens := si_text_output_tokens si, ac_output_path := output_path, ac_error_message := truncated error_message\<rparr>"

definition finish_call ::
  "registry \<Rightarrow> custom_model list \<Rightarrow> (int \<Rightarrow> int \<Rightarrow> int) \<Rightarrow> int \<Rightarrow> nat \<Rightarrow> string \<Rightarrow> settlement_input \<Rightarrow> string option \<Rightarrow> string option \<Rightarrow> usage_db \<Rightarrow> usage_db res" where
  "finish_call reg models elapsed now cid status si output_path error_message db =
     (case get_call cid db of None \<Rightarrow> Inr db
      | Some row \<Rightarrow>
          bind_res (settle reg models elapsed row now si (status = ''success'') (opt_or (Some (ac_currency row)) ''USD'')) (\<lambda>sc.
            Inr (db\<lparr>calls := update_where (\<lambda>r. ac_id r = cid) (finished_row status now si output_path error_message sc) (calls db)\<rparr>)))"

subsection \<open>The ledger\<close>

datatype backend_result =
    ImageResult "int option" "string option" "int option" "int option" "int option" "int option"
  | AudioResult int
  | VideoResult "int option" "bool option" int
  | TextResult "int option" "int option"

text \<open>Reading a field the result object does not have raises \<open>AttributeError\<close>.\<close>

definition settlement_from_result :: "string \<Rightarrow> backend_result \<Rightarrow> string \<Rightarrow> settlement_input res" where
  "settlement_from_result call_type result service_tier =
     (let missing = Inl (AttributeError call_type) in
      if call_type = ''image'' then
        (case result of ImageResult usage quality ii io' ti to' \<Rightarrow>
           Inr (no_settlement\<lparr>si_usage_tokens := usage, si_quality := quality, si_image_input_tokens := ii, si_image_output_tokens := io',
             si_text_input_tokens := ti, si_text_output_tokens := to'\<rparr>) | _ \<Rightarrow> missing)
      else if call_type = ''audio'' then
        (case result of AudioResult characters \<Rightarrow> Inr (no_settlement\<lparr>si_usage_tokens := Some characters\<rparr>) | _ \<Rightarrow> missing)
      else if call_type = ''video'' then
        (case result of VideoResult usage audio duration \<Rightarrow>
           Inr (no_settlement\<lparr>si_usage_tokens := usage, si_generate_audio := audio, si_billed_duration_seconds := Some duration,
             si_service_tier := service_tier\<rparr>) | _ \<Rightarrow> missing)
      else if call_type = ''text'' then
        (case result of TextResult i out \<Rightarrow> Inr (no_settlement\<lparr>si_input_tokens := i, si_output_tokens := out\<rparr>) | _ \<Rightarrow> missing)
      else Inl (ValueError ''unknown ledger channel''))"

text \<open>
  The block inside the bracket: the results it submits through \<open>call.success\<close>, in order, and how it
  is left. A submission that raises leaves the block.
\<close>

datatype body_exit = Body_ends | Body_raises py_error | Body_cancelled

fun run_body :: "string \<Rightarrow> string \<Rightarrow> backend_result list \<Rightarrow> body_exit \<Rightarrow> settlement_input option \<Rightarrow> body_exit \<times> settlement_input option" where
  "run_body call_type tier [] ex si = (ex, si)"
| "run_body call_type tier (r # rs) ex si =
     (case settlement_from_result call_type r tier of Inl e \<Rightarrow> (Body_raises e, si)
      | Inr s \<Rightarrow> run_body call_type tier rs ex (Some s))"

datatype bracket_exit = Left_normally | Reraised py_error | Cancel_passed | Unclaimed

definition finish_failed ::
  "registry \<Rightarrow> custom_model list \<Rightarrow> (int \<Rightarrow> int \<Rightarrow> int) \<Rightarrow> (py_error \<Rightarrow> string) \<Rightarrow> int \<Rightarrow> bool \<Rightarrow> nat \<Rightarrow> py_error \<Rightarrow> usage_db \<Rightarrow> usage_db" where
  "finish_failed reg models elapsed str_exc now up cid e db =
     (case (if up then finish_call reg models elapsed now cid ''failed'' no_settlement None (Some (str_exc e)) db else Inl OperationalError) of
        Inr db' \<Rightarrow> db' | Inl _ \<Rightarrow> db)"

definition record_call ::
  "registry \<Rightarrow> custom_model list \<Rightarrow> (int \<Rightarrow> int \<Rightarrow> int) \<Rightarrow> (py_error \<Rightarrow> string) \<Rightarrow> int \<Rightarrow> int \<Rightarrow> (usage_db \<Rightarrow> usage_db) \<Rightarrow> bool \<Rightarrow> bool
    \<Rightarrow> call_request \<Rightarrow> string \<Rightarrow> string option \<Rightarrow> backend_result list \<Rightarrow> body_exit \<Rightarrow> usage_db \<Rightarrow> usage_db \<times> nat \<times> bracket_exit" where
  "record_call reg models elapsed str_exc start now others up up_failed q tier output_path submitted ex db =
     (case start_call start q db of (db0, cid) \<Rightarrow>
       (let db1 = others db0 in
        case run_body (cq_call_type q) tier submitted ex None of
          (Body_cancelled, _) \<Rightarrow> (db1, cid, Cancel_passed)
        | (Body_raises e, _) \<Rightarrow> (finish_failed reg models elapsed str_exc now up_failed cid e db1, cid, Reraised e)
        | (Body_ends, None) \<Rightarrow> (db1, cid, Unclaimed)
        | (Body_ends, Some si) \<Rightarrow>
            (case (if up then finish_call reg models elapsed now cid ''success'' si output_path None db1 else Inl OperationalError) of
               Inr db2 \<Rightarrow> (db2, cid, Left_normally)
             | Inl e \<Rightarrow> (finish_failed reg models elapsed str_exc now up_failed cid e db1, cid, Reraised e))))"

definition resume_success ::
  "registry \<Rightarrow> custom_model list \<Rightarrow> (int \<Rightarrow> int \<Rightarrow> int) \<Rightarrow> int \<Rightarrow> nat \<Rightarrow> backend_result \<Rightarrow> string \<Rightarrow> usage_db \<Rightarrow> (usage_db \<times> nat) res" where
  "resume_success reg models elapsed now cid result tier db =
     bind_res (settlement_from_result ''video'' result tier) (\<lambda>si. finalize_pending_by_call_id reg models elapsed now cid si ''success'' db)"

definition resume_failed ::
  "registry \<Rightarrow> custom_model list \<Rightarrow> (int \<Rightarrow> int \<Rightarrow> int) \<Rightarrow> int \<Rightarrow> nat \<Rightarrow> usage_db \<Rightarrow> (usage_db \<times> nat) res" where
  "resume_failed reg models elapsed now cid db =
     finalize_pending_by_call_id reg models elapsed now cid (no_settlement\<lparr>si_cost_amount := Some 0\<rparr>) ''failed'' db"

definition backfill_request :: "string \<Rightarrow> string \<Rightarrow> string \<Rightarrow> string \<Rightarrow> string option \<Rightarrow> string \<Rightarrow> call_request" where
  "backfill_request project call_type model provider prompt user =
     \<lparr>cq_project_name = project, cq_call_type = call_type, cq_model = model, cq_prompt = prompt, cq_resolution = None,
      cq_duration_seconds = None, cq_aspect_ratio = None, cq_generate_audio = True, cq_provider = provider, cq_user_id = user,
      cq_segment_id = None\<rparr>"

definition backfill ::
  "registry \<Rightarrow> custom_model list \<Rightarrow> (int \<Rightarrow> int \<Rightarrow> int) \<Rightarrow> int \<Rightarrow> int \<Rightarrow> string \<Rightarrow> string \<Rightarrow> string \<Rightarrow> string \<Rightarrow> string option \<Rightarrow> string
    \<Rightarrow> string \<Rightarrow> int option \<Rightarrow> int option \<Rightarrow> int option \<Rightarrow> rat option \<Rightarrow> string option \<Rightarrow> usage_db \<Rightarrow> usage_db res" where
  "backfill reg models elapsed start now project call_type model provider prompt user status input_tokens output_tokens usage_tokens
     cost_amount currency db =
     (case start_call start (backfill_request project call_type model provider prompt user) db of (db0, cid) \<Rightarrow>
        finish_call reg models elapsed now cid status
          (no_settlement\<lparr>si_input_tokens := input_tokens, si_output_tokens := output_tokens, si_usage_tokens := usage_tokens,
             si_cost_amount := cost_amount, si_currency := currency\<rparr>) None None db0)"

subsection \<open>Reports\<close>

text \<open>\<open>round(x, n)\<close>: half to even at the n-th decimal.\<close>

definition round_half_even :: "rat \<Rightarrow> int" where
  "round_half_even x = (let q = \<lfloor>x\<rfloor>; r = x - of_int q in if 2 * r < 1 then q else if 2 * r > 1 then q + 1 else if even q then q else q + 1)"

definition round_to :: "nat \<Rightarrow> rat \<Rightarrow> rat" where
  "round_to n x = of_int (round_half_even (x * 10 ^ n)) / 10 ^ n"

record call_filter =
  cf_project_name :: "string option"
  cf_provider :: "string option"
  cf_call_type :: "string option"
  cf_status :: "string option"
  cf_start_day :: "int option"
  cf_end_day :: "int option"

text \<open>An empty filter string is no filter; the dates are whole days in UTC.\<close>

definition passes :: "string option \<Rightarrow> string \<Rightarrow> bool" where
  "passes f v \<longleftrightarrow> f = None \<or> f = Some [] \<or> f = Some v"

definition build_filters :: "call_filter \<Rightarrow> api_call \<Rightarrow> bool" where
  "build_filters f r \<longleftrightarrow> passes (cf_project_name f) (ac_project_name r) \<and> passes (cf_provider f) (ac_provider r)
     \<and> passes (cf_call_type f) (ac_call_type r) \<and> passes (cf_status f) (ac_status r)
     \<and> (case cf_start_day f of None \<Rightarrow> True | Some d \<Rightarrow> d * 86400 \<le> ac_started_at r)
     \<and> (case cf_end_day f of None \<Rightarrow> True | Some d \<Rightarrow> ac_started_at r < (d + 1) * 86400)"

definition paid :: "api_call \<Rightarrow> bool" where
  "paid r \<longleftrightarrow> ac_status r = ''success'' \<and> 0 < ac_cost_amount r"

definition sum_cost :: "api_call list \<Rightarrow> rat" where
  "sum_cost rs = sum_list (map ac_cost_amount rs)"

record usage_stats =
  us_total_cost :: rat
  us_cost_by_currency :: "(string \<times> rat) list"
  us_image_count :: nat
  us_video_count :: nat
  us_text_count :: nat
  us_audio_count :: nat
  us_failed_count :: nat
  us_total_count :: nat

text \<open>The summaries take no filter on the type or status of a call, the listing none on its provider.\<close>

definition get_usage_stats :: "call_filter \<Rightarrow> usage_db \<Rightarrow> usage_stats" where
  "get_usage_stats f db =
     (let rows = filter (build_filters (f\<lparr>cf_call_type := None, cf_status := None\<rparr>)) (calls db) in
      \<lparr>us_total_cost = round_to 4 (sum_cost (filter (\<lambda>r. paid r \<and> ac_currency r = ''USD'') rows)),
       us_cost_by_currency = map (\<lambda>(cur, rs). (cur, round_to 4 (sum_cost rs))) (group_by ac_currency (filter paid rows)),
       us_image_count = count_where (\<lambda>r. ac_call_type r = ''image'') rows, us_video_count = count_where (\<lambda>r. ac_call_type r = ''video'') rows,
       us_text_count = count_where (\<lambda>r. ac_call_type r = ''text'') rows, us_audio_count = count_where (\<lambda>r. ac_call_type r = ''audio'') rows,
       us_failed_count = count_where (\<lambda>r. ac_status r = ''failed'') rows, us_total_count = length rows\<rparr>)"

record provider_stat =
  ps_provider :: string
  ps_call_type :: string
  ps_total_calls :: nat
  ps_success_calls :: nat
  ps_total_cost_usd :: rat
  ps_cost_by_currency :: "(string \<times> rat) list"
  ps_total_duration_seconds :: rat
  ps_display_name :: string

definition LEGACY_PROVIDER_DISPLAY_NAMES :: "(string \<times> string) list" where
  "LEGACY_PROVIDER_DISPLAY_NAMES = [(''gemini'', ''Gemini'')]"

definition display_name_of :: "(string \<times> string) list \<Rightarrow> (int \<times> string) list \<Rightarrow> string \<Rightarrow> string" where
  "display_name_of registry_names custom_names provider =
     (if provider \<noteq> [] \<and> is_custom_provider provider
      then (case parse_provider_id provider of Inr i \<Rightarrow> dict_get_default custom_names i provider | Inl _ \<Rightarrow> provider)
      else dict_get_default registry_names provider (dict_get_default LEGACY_PROVIDER_DISPLAY_NAMES provider provider))"

definition get_stats_grouped_by_provider ::
  "(string \<times> string) list \<Rightarrow> (int \<times> string) list \<Rightarrow> call_filter \<Rightarrow> usage_db \<Rightarrow> provider_stat list" where
  "get_stats_grouped_by_provider registry_names custom_names f db =
     (let rows = filter (build_filters (f\<lparr>cf_call_type := None, cf_status := None\<rparr>)) (calls db) in
      map (\<lambda>((provider, call_type), rs).
        let ms = sum_list (map (\<lambda>r. coalesce (ac_duration_ms r) 0) rs) in
        \<lparr>ps_provider = provider, ps_call_type = call_type, ps_total_calls = length rs,
         ps_success_calls = count_where (\<lambda>r. ac_status r = ''success'') rs,
         ps_total_cost_usd = round_to 4 (sum_cost (filter (\<lambda>r. paid r \<and> ac_currency r = ''USD'') rs)),
         ps_cost_by_currency = map (\<lambda>(cur, qs). (cur, round_to 4 (sum_cost qs))) (group_by ac_currency (filter paid rs)),
         ps_total_duration_seconds = (if ms = 0 then 0 else round_to 1 (of_int ms / 1000)),
         ps_display_name = display_name_of registry_names custom_names provider\<rparr>)
        (sort_key fst (group_by (\<lambda>r. (ac_provider r, ac_call_type r)) rows)))"

definition get_calls :: "call_filter \<Rightarrow> nat \<Rightarrow> nat \<Rightarrow> usage_db \<Rightarrow> api_call list \<times> nat" where
  "get_calls f page page_size db =
     (let rows = filter (build_filters (f\<lparr>cf_provider := None\<rparr>)) (calls db) in
      (take page_size (drop ((page - 1) * page_size) (sort_key (\<lambda>r. - ac_started_at r) rows)), length rows))"

type_synonym segment_costs = "(string \<times> (string \<times> (string \<times> rat) list) list) list"

definition put_cost :: "string \<Rightarrow> string \<Rightarrow> string \<Rightarrow> rat \<Rightarrow> segment_costs \<Rightarrow> segment_costs" where
  "put_cost seg ct cur amount d =
     (let by_type = dict_get_default d seg []; by_cur = dict_get_default by_type ct [] in
      dict_put seg (dict_put ct (dict_put cur (round_to 6 amount) by_cur) by_type) d)"

definition get_actual_costs_by_segment :: "string \<Rightarrow> usage_db \<Rightarrow> segment_costs" where
  "get_actual_costs_by_segment project db =
     fold (\<lambda>((seg, ct, cur), rs) d. put_cost (case seg of Some s \<Rightarrow> s | None \<Rightarrow> PROJECT_LEVEL_SEGMENT_KEY) ct cur (sum_cost rs) d)
       (group_by (\<lambda>r. (ac_segment_id r, ac_call_type r, ac_currency r)) (filter (\<lambda>r. ac_project_name r = project \<and> paid r) (calls db))) []"

definition classify_asset_output_path :: "string option \<Rightarrow> string" where
  "classify_asset_output_path output_path =
     (case output_path of None \<Rightarrow> ''other'' | Some p \<Rightarrow>
        if p = [] then ''other''
        else let n = lower (map (\<lambda>c. if c = CHR 0x5C then CHR ''/'' else c) p);
                 under = (\<lambda>d. is_infix (''/'' @ d @ ''/'') n \<or> take (length d + 1) n = d @ ''/'') in
          (case find under [''characters'', ''scenes'', ''props'', ''products''] of Some d \<Rightarrow> d
           | None \<Rightarrow> if under ''clues'' then ''props'' else ''other''))"

definition get_project_image_costs_by_asset_type :: "string \<Rightarrow> usage_db \<Rightarrow> (string \<times> (string \<times> rat) list) list" where
  "get_project_image_costs_by_asset_type project db =
     fold (\<lambda>((path, cur), rs) d.
        let t = classify_asset_output_path path; b = dict_get_default d t [] in
        dict_put t (dict_put cur (round_to 6 (dict_get_default b cur 0 + sum_cost rs)) b) d)
       (group_by (\<lambda>r. (ac_output_path r, ac_currency r))
         (filter (\<lambda>r. ac_project_name r = project \<and> paid r \<and> ac_call_type r = ''image'' \<and> ac_segment_id r = None) (calls db))) []"

definition get_projects_list :: "usage_db \<Rightarrow> string list" where
  "get_projects_list db = sort (remdups (map ac_project_name (calls db)))"

subsection \<open>The table\<close>

definition ids_ok :: "usage_db \<Rightarrow> bool" where
  "ids_ok db \<longleftrightarrow> distinct (map ac_id (calls db)) \<and> (\<forall>r \<in> set (calls db). ac_id r < next_id db)"

definition models_ok :: "custom_model list \<Rightarrow> bool" where
  "models_ok models \<longleftrightarrow> (\<forall>m \<in> set models. (\<forall>x. cm_price_input m = Some x \<longrightarrow> 0 \<le> x) \<and> (\<forall>x. cm_price_output m = Some x \<longrightarrow> 0 \<le> x))"

definition settlement_ok :: "settlement_input \<Rightarrow> bool" where
  "settlement_ok si \<longleftrightarrow> list_all count_ok [si_usage_tokens si, si_input_tokens si, si_output_tokens si, si_image_input_tokens si,
     si_image_output_tokens si, si_text_input_tokens si, si_text_output_tokens si] \<and> (\<forall>c. si_cost_amount si = Some c \<longrightarrow> 0 \<le> c)"

fun counts_ok :: "backend_result \<Rightarrow> bool" where
  "counts_ok (ImageResult u q a b c d) = list_all count_ok [u, a, b, c, d]"
| "counts_ok (AudioResult n) = (0 \<le> n)"
| "counts_ok (VideoResult u a d) = count_ok u"
| "counts_ok (TextResult a b) = list_all count_ok [a, b]"

lemma get_call_SomeD: "get_call cid db = Some r \<Longrightarrow> r \<in> set (calls db) \<and> ac_id r = cid"
  by (auto simp: get_call_def dest: find_SomeD)

lemma get_call_update:
  assumes "\<And>r. ac_id (f r) = ac_id r"
  shows "get_call i (db\<lparr>calls := update_where P f (calls db)\<rparr>) = map_option (\<lambda>r. if P r then f r else r) (get_call i db)"
proof -
  have "find (\<lambda>r. ac_id r = i) (update_where P f xs) = map_option (\<lambda>r. if P r then f r else r) (find (\<lambda>r. ac_id r = i) xs)" for xs
    using assms by (induction xs) auto
  then show ?thesis by (simp add: get_call_def)
qed

lemma ids_ok_update:
  "(\<And>r. ac_id (f r) = ac_id r) \<Longrightarrow> ids_ok db \<Longrightarrow> ids_ok (db\<lparr>calls := update_where P f (calls db)\<rparr>)"
  by (auto simp: ids_ok_def map_update_where_eq set_update_where)

lemma count_pending:
  assumes "ids_ok db" "get_call cid db = Some row"
  shows "count_where (\<lambda>r. ac_id r = cid \<and> ac_status r = ''pending'') (calls db) = (if ac_status row = ''pending'' then 1 else 0)"
proof -
  have row: "row \<in> set (calls db)" "ac_id row = cid" using get_call_SomeD [OF assms(2)] by simp_all
  then have "filter (\<lambda>r. ac_id r = cid) (calls db) = [row]"
    using assms(1) filter_key_distinct [of ac_id "calls db" row] by (simp add: ids_ok_def)
  then have "filter (\<lambda>r. ac_status r = ''pending'') (filter (\<lambda>r. ac_id r = cid) (calls db)) = filter (\<lambda>r. ac_status r = ''pending'') [row]"
    by simp
  then show ?thesis by (simp add: count_where_def conj_commute)
qed

lemma start_call_facts:
  assumes "ids_ok db" "start_call now q db = (db0, cid)"
  shows "cid = next_id db" "ids_ok db0" "get_call cid db0 = Some (new_call now cid q)"
    "\<And>i. i \<noteq> cid \<Longrightarrow> get_call i db0 = get_call i db" "get_call cid db = None"
proof -
  have no: "find (\<lambda>r. ac_id r = next_id db) (calls db) = None"
    using assms(1) by (auto simp: find_None_iff ids_ok_def)
  have app: "find P (xs @ ys) = (case find P xs of None \<Rightarrow> find P ys | Some x \<Rightarrow> Some x)" for P and xs ys :: "api_call list"
    by (induction xs) auto
  have db0: "db0 = db\<lparr>calls := calls db @ [new_call now (next_id db) q], next_id := Suc (next_id db)\<rparr>" and cid: "cid = next_id db"
    using assms(2) by (auto simp: start_call_def)
  show "cid = next_id db" by (rule cid)
  show "ids_ok db0" using assms(1) by (auto simp: db0 ids_ok_def new_call_def less_Suc_eq)
  show "get_call cid db0 = Some (new_call now cid q)" using no by (simp add: db0 cid get_call_def app new_call_def)
  show "get_call i db0 = get_call i db" if "i \<noteq> cid" for i
    using that by (simp add: db0 cid get_call_def app new_call_def split: option.split)
  show "get_call cid db = None" using no by (simp add: cid get_call_def)
qed

subsection \<open>Settlement\<close>

lemma effective_duration_ok: "count_ok (ac_duration_seconds row) \<Longrightarrow> count_ok (effective_duration row si)"
  by (auto simp: effective_duration_def count_ok_def split: option.splits)

lemma total_tokens_ok: "count_ok a \<Longrightarrow> count_ok b \<Longrightarrow> count_ok (total_tokens a b)"
  by (auto simp: total_tokens_def count_ok_def or_int_def split: option.splits)

lemma settlement_params_ok:
  assumes "count_ok (ac_duration_seconds row)" "settlement_ok si"
  shows "params_ok (settlement_params row si)"
  using assms effective_duration_ok [OF assms(1)]
  by (simp add: params_ok_def settlement_params_def settlement_ok_def settled_input_tokens_def settled_output_tokens_def total_tokens_ok)

lemma resolve_price_nonneg:
  assumes "models_ok models"
  shows "\<forall>x. cp_price_input (resolve_price models p m) = Some x \<longrightarrow> 0 \<le> x"
    "\<forall>x. cp_price_output (resolve_price models p m) = Some x \<longrightarrow> 0 \<le> x"
proof -
  have "x \<in> set models" if "filter Q models = [x]" for Q x using arg_cong [OF that, of set] by auto
  then show "\<forall>x. cp_price_input (resolve_price models p m) = Some x \<longrightarrow> 0 \<le> x"
    "\<forall>x. cp_price_output (resolve_price models p m) = Some x \<longrightarrow> 0 \<le> x"
    using assms unfolding resolve_price_def NO_PRICE_def models_ok_def by (auto split: sum.split list.split)
qed

lemma settled_cost_ok:
  assumes "registry_ok reg" "models_ok models" "count_ok (ac_duration_seconds row)" "settlement_ok si"
  shows "\<exists>c cur. settled_cost reg models row si auto_calc base = Inr (c, cur) \<and> 0 \<le> c"
proof (cases "si_cost_amount si")
  case None
  define p where "p = opt_or (Some (ac_provider row)) ''gemini''"
  have "\<exists>c cur. calculate_cost reg p (settlement_params row si) (resolve_price models p (ac_model row)) False = Inr (c, cur) \<and> 0 \<le> c"
    using calculate_cost_facts [OF assms(1) settlement_params_ok [OF assms(3,4)] resolve_price_nonneg [OF assms(2)],
        of p p "ac_model row" False]
    by (elim exE conjE) (intro exI conjI)
  then show ?thesis using None by (simp add: settled_cost_def p_def Let_def)
next
  case (Some c)
  then show ?thesis using assms(4) by (simp add: settled_cost_def settlement_ok_def)
qed

lemma settle_cases:
  "settle reg models elapsed row now si auto_calc base = Inr sc \<Longrightarrow>
     settled_cost reg models row si auto_calc base = Inr (sc_cost_amount sc, sc_currency sc)"
  by (auto simp: settle_def bind_res_def split: sum.splits)

lemma settle_ok:
  assumes "registry_ok reg" "models_ok models" "count_ok (ac_duration_seconds row)" "settlement_ok si"
  shows "\<exists>sc. settle reg models elapsed row now si auto_calc base = Inr sc \<and> 0 \<le> sc_cost_amount sc
    \<and> settled_cost reg models row si auto_calc base = Inr (sc_cost_amount sc, sc_currency sc)"
proof -
  obtain c cur where "settled_cost reg models row si auto_calc base = Inr (c, cur)" "0 \<le> c"
    using settled_cost_ok [OF assms, of auto_calc base] by (elim exE conjE)
  then show ?thesis by (simp add: settle_def bind_res_def)
qed

lemma settle_failed:
  "settle reg models elapsed row now no_settlement False base =
     Inr \<lparr>sc_duration_ms = elapsed (ac_started_at row) now, sc_duration_seconds = ac_duration_seconds row, sc_generate_audio = ac_generate_audio row,
       sc_input_tokens = None, sc_output_tokens = None, sc_cost_amount = 0, sc_currency = base\<rparr>"
  by (simp add: settle_def bind_res_def settled_cost_def no_settlement_def effective_duration_def effective_audio_def
      settled_input_tokens_def settled_output_tokens_def has_image_tokens_def)

lemma settlement_from_result_ok:
  "counts_ok r \<Longrightarrow> settlement_from_result call_type r tier = Inr s \<Longrightarrow> settlement_ok s"
  by (cases r) (auto simp: settlement_from_result_def Let_def settlement_ok_def no_settlement_def count_ok_def split: if_splits)

lemma finalized_row_id [simp]: "ac_id (finalized_row st now si sc r) = ac_id r"
  by (simp add: finalized_row_def)

lemma finished_row_id [simp]: "ac_id (finished_row st now si out err sc r) = ac_id r"
  by (simp add: finished_row_def)

lemma finish_call_effect:
  assumes "get_call cid db = Some row"
    "settle reg models elapsed row now si (status = ''success'') (opt_or (Some (ac_currency row)) ''USD'') = Inr sc"
  shows "\<exists>db'. finish_call reg models elapsed now cid status si out err db = Inr db'
    \<and> (\<forall>i. get_call i db' = (if i = cid then Some (finished_row status now si out err sc row) else get_call i db))
    \<and> (ids_ok db \<longrightarrow> ids_ok db') \<and> next_id db' = next_id db"
proof -
  have "get_call i (db\<lparr>calls := update_where (\<lambda>r. ac_id r = cid) (finished_row status now si out err sc) (calls db)\<rparr>) =
      (if i = cid then Some (finished_row status now si out err sc row) else get_call i db)" for i
  proof (cases "get_call i db")
    case None
    then show ?thesis using assms(1) by (auto simp: get_call_update)
  next
    case (Some r)
    then have "ac_id r = i" using get_call_SomeD by blast
    then show ?thesis using Some assms(1) by (auto simp: get_call_update)
  qed
  then show ?thesis using assms by (simp add: finish_call_def bind_res_def ids_ok_update)
qed

subsection \<open>The bracket\<close>

lemma run_body_ends:
  "run_body call_type tier subs ex si = (Body_ends, out) \<Longrightarrow> list_all counts_ok subs \<Longrightarrow>
     (if subs = [] then out = si
      else \<exists>s. out = Some s \<and> settlement_ok s \<and> settlement_from_result call_type (last subs) tier = Inr s)"
proof (induction subs arbitrary: si)
  case (Cons r rs)
  obtain s where s: "settlement_from_result call_type r tier = Inr s"
    using Cons.prems(1) by (auto split: sum.splits)
  then have "settlement_ok s" using Cons.prems(2) settlement_from_result_ok by auto
  then show ?case using Cons.IH [of "Some s"] Cons.prems s by (cases "rs = []") auto
qed simp

text \<open>What a bracket leaves in its row, and how it is left.\<close>

definition failed_row :: "(int \<Rightarrow> int \<Rightarrow> int) \<Rightarrow> int \<Rightarrow> string \<Rightarrow> api_call \<Rightarrow> api_call" where
  "failed_row elapsed now msg r = r\<lparr>ac_status := ''failed'', ac_finished_at := Some now,
     ac_duration_ms := Some (elapsed (ac_started_at r) now), ac_error_message := truncated (Some msg)\<rparr>"

lemma finish_failed_effect:
  assumes "get_call cid db = Some (new_call start cid q)"
  shows "get_call i (finish_failed reg models elapsed str_exc now up cid e db) =
    (if i = cid then Some (if up then failed_row elapsed now (str_exc e) (new_call start cid q) else new_call start cid q) else get_call i db)"
proof (cases up)
  case True
  define sc where "sc = \<lparr>sc_duration_ms = elapsed start now, sc_duration_seconds = cq_duration_seconds q,
    sc_generate_audio = Some (cq_generate_audio q), sc_input_tokens = None, sc_output_tokens = None, sc_cost_amount = (0::rat), sc_currency = ''USD''\<rparr>"
  have "settle reg models elapsed (new_call start cid q) now no_settlement False ''USD'' = Inr sc"
    by (simp add: settle_failed sc_def new_call_def)
  then have "settle reg models elapsed (new_call start cid q) now no_settlement (''failed'' = ''success'')
      (opt_or (Some (ac_currency (new_call start cid q))) ''USD'') = Inr sc"
    by (simp add: new_call_def)
  from finish_call_effect [OF assms this, of None "Some (str_exc e)"]
  obtain db' where "finish_call reg models elapsed now cid ''failed'' no_settlement None (Some (str_exc e)) db = Inr db'"
    and "\<forall>i. get_call i db' = (if i = cid then Some (finished_row ''failed'' now no_settlement None (Some (str_exc e)) sc (new_call start cid q)) else get_call i db)"
    by (elim exE conjE)
  moreover have "finished_row ''failed'' now no_settlement None (Some m) sc (new_call start cid q) = failed_row elapsed now m (new_call start cid q)" for m
    by (simp add: finished_row_def finalized_row_def failed_row_def new_call_def sc_def no_settlement_def)
  ultimately show ?thesis using True by (simp add: finish_failed_def)
qed (simp add: finish_failed_def assms)

lemma bracket_success:
  assumes "registry_ok reg" "models_ok models" "count_ok (cq_duration_seconds q)" "settlement_ok si"
    "get_call cid db = Some (new_call start cid q)"
  shows "\<exists>db' sc. finish_call reg models elapsed now cid ''success'' si out None db = Inr db'
    \<and> settle reg models elapsed (new_call start cid q) now si True ''USD'' = Inr sc \<and> 0 \<le> sc_cost_amount sc
    \<and> (\<forall>i. get_call i db' = (if i = cid then Some (finished_row ''success'' now si out None sc (new_call start cid q)) else get_call i db))"
proof -
  have "count_ok (ac_duration_seconds (new_call start cid q))" using assms(3) by (simp add: new_call_def)
  from settle_ok [OF assms(1,2) this assms(4), of elapsed now True "''USD''"]
  obtain sc where sc: "settle reg models elapsed (new_call start cid q) now si True ''USD'' = Inr sc" "0 \<le> sc_cost_amount sc"
    by (elim exE conjE)
  then have "settle reg models elapsed (new_call start cid q) now si (''success'' = ''success'')
      (opt_or (Some (ac_currency (new_call start cid q))) ''USD'') = Inr sc"
    by (simp add: new_call_def)
  from finish_call_effect [OF assms(5) this, of out None] sc show ?thesis by (elim exE conjE) (intro exI conjI)
qed


definition sample_request :: call_request where
  "sample_request = \<lparr>cq_project_name = ''p'', cq_call_type = ''text'', cq_model = ''flash'', cq_prompt = None, cq_resolution = None,
     cq_duration_seconds = None, cq_aspect_ratio = None, cq_generate_audio = True, cq_provider = ''gemini-aistudio'', cq_user_id = ''u'',
     cq_segment_id = None\<rparr>"

definition sample_settlement :: settlement_input where
  "sample_settlement = no_settlement\<lparr>si_input_tokens := Some 5, si_output_tokens := Some 7\<rparr>"


subsection \<open>Resumed calls\<close>

lemma finalize_cases:
  assumes "finalize_pending_by_call_id reg models elapsed now cid si st db = Inr (db', n)"
  shows "(get_call cid db = None \<and> db' = db \<and> n = 0)
    \<or> (\<exists>row sc. get_call cid db = Some row
        \<and> settle reg models elapsed row now si (st = ''success'' \<and> ac_status row = ''pending'') (opt_or (si_currency si) ''USD'') = Inr sc
        \<and> db' = db\<lparr>calls := update_where (\<lambda>r. ac_id r = cid \<and> ac_status r = ''pending'') (finalized_row st now si sc) (calls db)\<rparr>
        \<and> n = count_where (\<lambda>r. ac_id r = cid \<and> ac_status r = ''pending'') (calls db))"
  using assms by (auto simp: finalize_pending_by_call_id_def bind_res_def Let_def split: option.splits sum.splits)

lemma finalize_facts:
  assumes "finalize_pending_by_call_id reg models elapsed now cid si st db = Inr (db', n)"
  shows "ids_ok db \<Longrightarrow> ids_ok db'" and "i \<noteq> cid \<Longrightarrow> get_call i db' = get_call i db"
    and "get_call cid db = Some row \<Longrightarrow> ac_status row \<noteq> ''pending'' \<Longrightarrow> get_call cid db' = Some row \<and> (ids_ok db \<longrightarrow> n = 0)"
proof -
  note cases = finalize_cases [OF assms]
  show "ids_ok db \<Longrightarrow> ids_ok db'" using cases by (auto intro: ids_ok_update)
  show "get_call i db' = get_call i db" if "i \<noteq> cid"
  proof (cases "get_call i db")
    case None
    then show ?thesis using cases by (auto simp: get_call_update)
  next
    case (Some r)
    then have "ac_id r = i" using get_call_SomeD by blast
    then show ?thesis using cases that Some by (auto simp: get_call_update)
  qed
  show "get_call cid db' = Some row \<and> (ids_ok db \<longrightarrow> n = 0)" if "get_call cid db = Some row" "ac_status row \<noteq> ''pending''"
    using cases that count_pending [of db cid row] by (auto simp: get_call_update)
qed

lemma finish_call_other:
  assumes "finish_call reg models elapsed now c st si out err db = Inr db'"
  shows "ids_ok db \<Longrightarrow> ids_ok db'" and "i \<noteq> c \<Longrightarrow> get_call i db' = get_call i db"
proof -
  have cases: "db' = db \<or> (\<exists>sc. db' = db\<lparr>calls := update_where (\<lambda>r. ac_id r = c) (finished_row st now si out err sc) (calls db)\<rparr>)"
    using assms by (auto simp: finish_call_def bind_res_def split: option.splits sum.splits)
  then show "ids_ok db \<Longrightarrow> ids_ok db'" by (auto intro: ids_ok_update)
  show "get_call i db' = get_call i db" if "i \<noteq> c"
  proof (cases "get_call i db")
    case None
    then show ?thesis using cases by (auto simp: get_call_update)
  next
    case (Some r)
    then have "ac_id r = i" using get_call_SomeD by blast
    then show ?thesis using cases that Some by (auto simp: get_call_update)
  qed
qed

text \<open>
  What sessions commit to the table beside the resumed call \<open>cid\<close>: new rows, the closing of
  the brackets of other calls (a backfill is an opening and a closing), and any finalization,
  of \<open>cid\<close> too.
\<close>

inductive ledger_step :: "registry \<Rightarrow> custom_model list \<Rightarrow> (int \<Rightarrow> int \<Rightarrow> int) \<Rightarrow> nat \<Rightarrow> usage_db \<Rightarrow> usage_db \<Rightarrow> bool"
  for reg models elapsed cid where
  opened: "start_call now q db = (db', c) \<Longrightarrow> ledger_step reg models elapsed cid db db'"
| closed: "c \<noteq> cid \<Longrightarrow> finish_call reg models elapsed now c st si out err db = Inr db' \<Longrightarrow> ledger_step reg models elapsed cid db db'"
| resumed: "finalize_pending_by_call_id reg models elapsed now c si st db = Inr (db', n) \<Longrightarrow> ledger_step reg models elapsed cid db db'"

lemma ledger_step_keeps:
  assumes "ledger_step reg models elapsed cid db db'" "ids_ok db" "get_call cid db = Some row" "ac_status row \<noteq> ''pending''"
  shows "ids_ok db' \<and> get_call cid db' = Some row"
  using assms
proof (cases rule: ledger_step.cases)
  case (opened now q c)
  then show ?thesis using start_call_facts [OF assms(2) opened(1)] assms(3) by (cases "c = cid") auto
next
  case (closed c now st si out err)
  then show ?thesis using finish_call_other [OF closed(2)] assms(2,3) by auto
next
  case (resumed now c si st n)
  then show ?thesis using finalize_facts [OF resumed] assms(2-4) by (cases "c = cid") auto
qed

lemma ledger_steps_keep:
  assumes "(ledger_step reg models elapsed cid)\<^sup>*\<^sup>* db db'" "ids_ok db" "get_call cid db = Some row" "ac_status row \<noteq> ''pending''"
  shows "ids_ok db' \<and> get_call cid db' = Some row"
  using assms(1)
proof (induction rule: rtranclp_induct)
  case (step db1 db2)
  then show ?case using ledger_step_keeps assms(4) by blast
qed (simp add: assms)

lemma finalize_pending_row:
  assumes "registry_ok reg" "models_ok models" "settlement_ok si" "ids_ok db" "get_call cid db = Some row"
    "count_ok (ac_duration_seconds row)" "ac_status row = ''pending''"
  shows "\<exists>db' sc. finalize_pending_by_call_id reg models elapsed now cid si st db = Inr (db', 1) \<and> ids_ok db'
    \<and> get_call cid db' = Some (finalized_row st now si sc row) \<and> 0 \<le> sc_cost_amount sc
    \<and> settled_cost reg models row si (st = ''success'') (opt_or (si_currency si) ''USD'') = Inr (sc_cost_amount sc, sc_currency sc)"
proof -
  obtain sc where sc: "settle reg models elapsed row now si (st = ''success'') (opt_or (si_currency si) ''USD'') = Inr sc"
    "0 \<le> sc_cost_amount sc"
    "settled_cost reg models row si (st = ''success'') (opt_or (si_currency si) ''USD'') = Inr (sc_cost_amount sc, sc_currency sc)"
    using settle_ok [OF assms(1,2,6,3), of elapsed now "st = ''success''" "opt_or (si_currency si) ''USD''"] by (elim exE conjE)
  define db' where "db' = db\<lparr>calls := update_where (\<lambda>r. ac_id r = cid \<and> ac_status r = ''pending'') (finalized_row st now si sc) (calls db)\<rparr>"
  have fin: "finalize_pending_by_call_id reg models elapsed now cid si st db = Inr (db', 1)"
    using assms(5,7) sc(1) count_pending [OF assms(4,5)] by (simp add: finalize_pending_by_call_id_def bind_res_def db'_def)
  have "get_call cid db' = Some (finalized_row st now si sc row)"
    using assms(5,7) get_call_SomeD [OF assms(5)] by (simp add: db'_def get_call_update)
  then show ?thesis using fin sc(2,3) finalize_facts(1) [OF fin assms(4)] by (intro exI conjI)
qed



text \<open>
  Closing a bracket carries no such guard: it rewrites the row of its call in any status.
\<close>

lemma finish_call_overwrites:
  assumes "get_call cid db = Some row" "ac_status row = ''success''"
  shows "\<exists>db' row'. finish_call reg models elapsed now cid ''failed'' no_settlement None (Some e) db = Inr db'
    \<and> get_call cid db' = Some row' \<and> ac_status row' = ''failed'' \<and> ac_cost_amount row' = 0"
proof -
  have "\<exists>sc. settle reg models elapsed row now no_settlement (''failed'' = ''success'') (opt_or (Some (ac_currency row)) ''USD'') = Inr sc
      \<and> sc_cost_amount sc = 0" by (simp add: settle_failed)
  then obtain sc where sc: "settle reg models elapsed row now no_settlement (''failed'' = ''success'') (opt_or (Some (ac_currency row)) ''USD'') = Inr sc"
    "sc_cost_amount sc = 0" by (elim exE conjE)
  from finish_call_effect [OF assms(1) sc(1), of None "Some e"]
  obtain db' where "finish_call reg models elapsed now cid ''failed'' no_settlement None (Some e) db = Inr db'"
    "\<forall>i. get_call i db' = (if i = cid then Some (finished_row ''failed'' now no_settlement None (Some e) sc row) else get_call i db)"
    by (elim exE conjE)
  then show ?thesis using sc(2) by (simp add: finished_row_def finalized_row_def)
qed

subsection \<open>Cost reports\<close>

definition cost_at :: "segment_costs \<Rightarrow> string \<Rightarrow> string \<Rightarrow> string \<Rightarrow> rat" where
  "cost_at d seg ct cur = dict_get_default (dict_get_default (dict_get_default d seg []) ct []) cur 0"

definition segment_key :: "string option \<Rightarrow> string" where
  "segment_key seg = (case seg of Some s \<Rightarrow> s | None \<Rightarrow> PROJECT_LEVEL_SEGMENT_KEY)"

lemma cost_at_put:
  "cost_at (put_cost seg ct cur x d) s t c = (if s = seg \<and> t = ct \<and> c = cur then round_to 6 x else cost_at d s t c)"
  by (auto simp: cost_at_def put_cost_def Let_def dict_get_default_def dict_get_put)

lemma cost_at_fold:
  assumes "distinct (map (\<lambda>((seg, ct, cur), rs). (segment_key seg, ct, cur)) gs)"
  shows "cost_at (fold (\<lambda>((seg, ct, cur), rs) d. put_cost (segment_key seg) ct cur (sum_cost rs) d) gs d) s t c =
    (case find (\<lambda>((seg, ct, cur), rs). (segment_key seg, ct, cur) = (s, t, c)) gs of
       Some (_, rs) \<Rightarrow> round_to 6 (sum_cost rs) | None \<Rightarrow> cost_at d s t c)"
  using assms
proof (induction gs arbitrary: d)
  case (Cons g gs)
  obtain seg ct cur rs where g: "g = ((seg, ct, cur), rs)" by (metis prod.exhaust)
  have "find (\<lambda>((seg, ct, cur), rs). (segment_key seg, ct, cur) = (s, t, c)) gs = None" if "(segment_key seg, ct, cur) = (s, t, c)"
    using Cons.prems that by (auto simp: g find_None_iff image_iff split: prod.splits)
  then show ?case using Cons by (auto simp: g cost_at_put split: option.split)
qed simp

lemma round_half_even_close: "\<bar>of_int (round_half_even x) - x\<bar> \<le> 1 / 2"
proof -
  have "of_int \<lfloor>x\<rfloor> \<le> x" "x < of_int \<lfloor>x\<rfloor> + 1" by linarith+
  then show ?thesis by (auto simp: round_half_even_def Let_def abs_le_iff)
qed

lemma round_to_close: "\<bar>round_to n x - x\<bar> \<le> 1 / (2 * 10 ^ n)"
proof -
  have "round_to n x - x = (of_int (round_half_even (x * 10 ^ n)) - x * 10 ^ n) / 10 ^ n" by (simp add: round_to_def field_simps)
  then have "\<bar>round_to n x - x\<bar> = \<bar>of_int (round_half_even (x * 10 ^ n)) - x * 10 ^ n\<bar> / 10 ^ n" by simp
  also have "\<dots> \<le> (1 / 2) / 10 ^ n" by (rule divide_right_mono [OF round_half_even_close]) simp
  finally show ?thesis by simp
qed

lemma segment_key_inj: "seg \<noteq> Some PROJECT_LEVEL_SEGMENT_KEY \<Longrightarrow> seg' \<noteq> Some PROJECT_LEVEL_SEGMENT_KEY \<Longrightarrow>
    segment_key seg = segment_key seg' \<longleftrightarrow> seg = seg'"
  by (auto simp: segment_key_def split: option.splits)

lemma segment_groups_distinct:
  assumes "dict_ok gs" "\<And>g. g \<in> set gs \<Longrightarrow> fst (fst g) \<noteq> Some PROJECT_LEVEL_SEGMENT_KEY"
  shows "distinct (map (\<lambda>((seg, ct, cur), rs). (segment_key seg, ct, cur)) gs)"
proof -
  have f: "(\<lambda>((seg, ct, cur), rs). (segment_key seg, ct, cur)) = (\<lambda>g. (segment_key (fst (fst g)), snd (fst g)))"
    by (simp add: fun_eq_iff)
  have "inj_on (\<lambda>g. (segment_key (fst (fst g)), snd (fst g))) (set gs)"
  proof (rule inj_onI)
    fix g h assume gh: "g \<in> set gs" "h \<in> set gs" "(segment_key (fst (fst g)), snd (fst g)) = (segment_key (fst (fst h)), snd (fst h))"
    then have "fst g = fst h" using segment_key_inj [OF assms(2) [OF gh(1)] assms(2) [OF gh(2)]] by (simp add: prod_eq_iff)
    then show "g = h" using gh(1,2) assms(1) by (simp add: dict_ok_def distinct_map inj_on_def)
  qed
  moreover have "distinct gs" using assms(1) by (simp add: dict_ok_def distinct_map)
  ultimately show ?thesis unfolding f by (simp add: distinct_map)
qed

text \<open>
  The cost report of a project. As long as no segment carries the reserved key, the entry for
  a segment (or for the project as a whole, for the rows without segment), a call type and a currency
  is the sum over exactly the successful rows of that project with that segment, type and currency
  and a cost above zero, rounded to six decimals: within half a millionth of the sum, and 0 when
  there is no such row.
\<close>

theorem actual_costs_by_segment_exact:
  fixes db seg project ct cur
  assumes "\<forall>r \<in> set (calls db). ac_segment_id r \<noteq> Some PROJECT_LEVEL_SEGMENT_KEY" "seg \<noteq> Some PROJECT_LEVEL_SEGMENT_KEY"
  defines "rows \<equiv> filter (\<lambda>r. ac_project_name r = project \<and> ac_status r = ''success'' \<and> 0 < ac_cost_amount r
      \<and> ac_segment_id r = seg \<and> ac_call_type r = ct \<and> ac_currency r = cur) (calls db)"
  shows "cost_at (get_actual_costs_by_segment project db) (segment_key seg) ct cur = round_to 6 (\<Sum>r\<leftarrow>rows. ac_cost_amount r)
    \<and> \<bar>cost_at (get_actual_costs_by_segment project db) (segment_key seg) ct cur - (\<Sum>r\<leftarrow>rows. ac_cost_amount r)\<bar> \<le> 1 / 2000000"
proof -
  define k where "k = (\<lambda>r :: api_call. (ac_segment_id r, ac_call_type r, ac_currency r))"
  define xs where "xs = filter (\<lambda>r. ac_project_name r = project \<and> paid r) (calls db)"
  define gs where "gs = group_by k xs"
  have key: "fst (fst g) \<noteq> Some PROJECT_LEVEL_SEGMENT_KEY" if "g \<in> set gs" for g
  proof -
    have "fst g \<in> k ` set xs" using that unfolding group_by_keys [of k xs, symmetric] gs_def [symmetric] by (rule imageI)
    then obtain r where "fst g = k r" "r \<in> set (calls db)" by (auto simp: xs_def)
    then show ?thesis using assms(1) by (simp add: k_def)
  qed
  have rows: "rows = filter (\<lambda>r. k r = (seg, ct, cur)) xs" by (auto simp: rows_def xs_def k_def paid_def intro: filter_cong)
  have dist: "distinct (map (\<lambda>((seg, ct, cur), rs). (segment_key seg, ct, cur)) gs)"
    by (rule segment_groups_distinct [OF _ key]) (simp_all add: gs_def group_by_ok)
  have run: "get_actual_costs_by_segment project db = fold (\<lambda>((seg, ct, cur), rs) d. put_cost (segment_key seg) ct cur (sum_cost rs) d) gs []"
    by (simp add: get_actual_costs_by_segment_def gs_def xs_def k_def segment_key_def)
  have "cost_at (get_actual_costs_by_segment project db) (segment_key seg) ct cur = round_to 6 (sum_cost rows)"
  proof (cases "find (\<lambda>((sg, t, c), rs). (segment_key sg, t, c) = (segment_key seg, ct, cur)) gs")
    case None
    then have "(seg, ct, cur) \<notin> k ` set xs" 
      unfolding group_by_keys [of k xs, symmetric] gs_def [symmetric] find_None_iff by fastforce
    then have "rows = []" unfolding rows filter_empty_conv by (metis imageI)
    then show ?thesis using None cost_at_fold [OF dist] by (simp add: run sum_cost_def round_to_def round_half_even_def cost_at_def dict_get_default_def)
  next
    case (Some g)
    then have g: "g \<in> set gs" "segment_key (fst (fst g)) = segment_key seg" "snd (fst g) = (ct, cur)" using find_SomeD [OF Some] by auto
    then have "fst g = (seg, ct, cur)" using segment_key_inj [OF key [OF g(1)] assms(2)] by (metis prod.collapse)
    then have "snd g = rows" using g(1) group_by_member [of "(seg, ct, cur)" "snd g" k xs] by (metis gs_def prod.collapse rows)
    then show ?thesis using Some cost_at_fold [OF dist, of "[]" "segment_key seg" ct cur] by (simp add: run split: prod.splits)
  qed
  then show ?thesis using round_to_close [of 6 "sum_cost rows"] by (simp add: sum_cost_def)
qed

theorem actual_costs_by_segment_exact_witness:
  "cost_at (get_actual_costs_by_segment ''p'' \<lparr>calls = [(new_call 0 1 sample_request)\<lparr>ac_status := ''success'', ac_cost_amount := 2\<rparr>,
      (new_call 0 2 sample_request)\<lparr>ac_status := ''failed'', ac_cost_amount := 7\<rparr>,
      (new_call 0 3 sample_request)\<lparr>ac_status := ''success'', ac_cost_amount := 3\<rparr>], next_id = 4\<rparr>) (segment_key None) ''text'' ''USD'' = 5"
proof -
  define db where "db = \<lparr>calls = [(new_call 0 1 sample_request)\<lparr>ac_status := ''success'', ac_cost_amount := 2\<rparr>,
      (new_call 0 2 sample_request)\<lparr>ac_status := ''failed'', ac_cost_amount := 7\<rparr>,
      (new_call 0 3 sample_request)\<lparr>ac_status := ''success'', ac_cost_amount := 3\<rparr>], next_id = 4\<rparr>"
  have "\<forall>r \<in> set (calls db). ac_segment_id r \<noteq> Some PROJECT_LEVEL_SEGMENT_KEY" by (simp add: db_def new_call_def sample_request_def)
  from actual_costs_by_segment_exact [OF this, of None "''p''" "''text''" "''USD''"]
  show ?thesis unfolding db_def by (simp add: new_call_def sample_request_def round_to_def round_half_even_def)
qed

end
