(* ===== verification/QueueClient.thy ===== *)
theory QueueClient
  imports Worker GenResult
begin

text \<open>
  The client side of the queue: \<open>lib/generation_queue_client.py\<close>, and the storyboard plan it is fed
  with (\<open>build_storyboard_dependency_plan\<close> and \<open>group_scenes_by_segment_break\<close> in
  \<open>lib/storyboard_sequence.py\<close>).

  Between two calls of the client other sessions commit to the same queue. Every call of the loop
  over a batch is a \<open>turn\<close>: what the others do first, the clock, the identifier the new row would
  get, and whether the call is cancelled or fails before it reaches the database. Waiting for a task
  reads a sequence of polls. \<open>str_exc\<close> and \<open>py_str\<close> are Python's \<open>str\<close> on an exception and on a JSON
  value that is not text; \<open>dump\<close> renders a finished row as the dictionary kept in its result. The
  wrappers that run a coroutine in a fresh event loop are not modelled.
\<close>

subsection \<open>The storyboard plan\<close>

record storyboard_plan =
  pl_resource_id :: string
  pl_script_file :: "string option"
  pl_dependency_resource_id :: "string option"
  pl_dependency_group :: string
  pl_dependency_index :: nat

text \<open>\<open>str(item.get(id_field) or "").strip()\<close>\<close>

definition item_id :: "(json \<Rightarrow> string) \<Rightarrow> string \<Rightarrow> params \<Rightarrow> string" where
  "item_id py_str id_field item =
     (let v = dict_get_default item id_field JNull in
      strip (if \<not> truthy v then [] else case v of JStr s \<Rightarrow> s | _ \<Rightarrow> py_str v))"

definition segment_break :: "params \<Rightarrow> bool" where
  "segment_break item = truthy (dict_get_default item ''segment_break'' JNull)"

fun scene_groups :: "params list \<Rightarrow> params list list \<Rightarrow> params list \<Rightarrow> params list list" where
  "scene_groups [] groups current = (if current \<noteq> [] then groups @ [current] else groups)"
| "scene_groups (item # items) groups current =
     (if segment_break item \<and> current \<noteq> [] then scene_groups items (groups @ [current]) [item]
      else scene_groups items groups (current @ [item]))"

definition group_scenes_by_segment_break :: "params list \<Rightarrow> params list list" where
  "group_scenes_by_segment_break items = scene_groups items [] []"

definition group_label :: "string option \<Rightarrow> nat \<Rightarrow> string" where
  "group_label script n = opt_or script ''storyboard'' @ '':group:'' @ show_nat n"

text \<open>The loop: the identifier of the previous item, the group counter and the index in the group.\<close>

fun plan_loop ::
  "(json \<Rightarrow> string) \<Rightarrow> string \<Rightarrow> string set \<Rightarrow> string option \<Rightarrow> params list \<Rightarrow> string \<Rightarrow> nat \<Rightarrow> nat \<Rightarrow> storyboard_plan list" where
  "plan_loop py_str id_field sel script [] prev n k = []"
| "plan_loop py_str id_field sel script (item # items) prev n k =
     (let rid = item_id py_str id_field item in
      if rid = [] \<or> rid \<notin> sel then plan_loop py_str id_field sel script items rid n k
      else if segment_break item \<or> prev = [] \<or> prev \<notin> sel
      then \<lparr>pl_resource_id = rid, pl_script_file = script, pl_dependency_resource_id = None,
             pl_dependency_group = group_label script (Suc n), pl_dependency_index = 0\<rparr>
           # plan_loop py_str id_field sel script items rid (Suc n) 0
      else \<lparr>pl_resource_id = rid, pl_script_file = script, pl_dependency_resource_id = Some prev,
             pl_dependency_group = group_label script n, pl_dependency_index = Suc k\<rparr>
           # plan_loop py_str id_field sel script items rid n (Suc k))"

definition build_storyboard_dependency_plan ::
  "(json \<Rightarrow> string) \<Rightarrow> params list \<Rightarrow> string \<Rightarrow> string list \<Rightarrow> string option \<Rightarrow> storyboard_plan list" where
  "build_storyboard_dependency_plan py_str items id_field selected script =
     (if selected = [] then [] else plan_loop py_str id_field (set selected) script items [] 0 0)"

subsection \<open>Requests\<close>

record task_spec =
  sp_task_type :: string
  sp_media_type :: string
  sp_resource_id :: string
  sp_payload :: "params option"
  sp_script_file :: "string option"
  sp_source :: string
  sp_dependency_resource_id :: "string option"
  sp_dependency_group :: "string option"
  sp_dependency_index :: "int option"

datatype spec_error = TaskSpecValidationError string | ReservedKeys "string list"

definition blank :: "json \<Rightarrow> bool" where
  "blank v \<longleftrightarrow> \<not> truthy v \<or> (case v of JStr s \<Rightarrow> strip s = [] | _ \<Rightarrow> False)"

definition is_dict :: "json \<Rightarrow> bool" where
  "is_dict p = (case p of JObj _ \<Rightarrow> True | _ \<Rightarrow> False)"

definition is_structured_image_prompt :: "json \<Rightarrow> bool" where
  "is_structured_image_prompt p = (case p of JObj d \<Rightarrow> dict_get d ''scene'' \<noteq> None | _ \<Rightarrow> False)"

definition is_structured_video_prompt :: "json \<Rightarrow> bool" where
  "is_structured_video_prompt p = (case p of JObj d \<Rightarrow> dict_get d ''action'' \<noteq> None | _ \<Rightarrow> False)"

text \<open>The code of the first rule the prompt breaks.\<close>

definition validate_text :: "string \<Rightarrow> string option" where
  "validate_text s = (if strip s = [] then Some ''prompt_text_empty'' else None)"

definition validate_prompt :: "string \<Rightarrow> json \<Rightarrow> string option" where
  "validate_prompt ttype prompt =
     (if ttype = ''video'' then
        (case prompt of
           JObj d \<Rightarrow>
             if \<not> is_structured_video_prompt prompt then Some ''video_prompt_must_be_string_or_action_object''
             else if blank (dict_get_default d ''action'' JNull) then Some ''video_prompt_action_empty''
             else (case dict_get_default d ''dialogue'' JNull of JNull \<Rightarrow> None | JList _ \<Rightarrow> None | _ \<Rightarrow> Some ''video_prompt_dialogue_array'')
         | JStr s \<Rightarrow> validate_text s
         | _ \<Rightarrow> Some ''prompt_must_be_string_or_object'')
      else if ttype = ''tts'' then
        (case prompt of JNull \<Rightarrow> None | JStr s \<Rightarrow> validate_text s | _ \<Rightarrow> Some ''tts_prompt_must_be_string_or_null'')
      else if ttype = ''storyboard'' \<and> is_dict prompt then
        (if \<not> is_structured_image_prompt prompt then Some ''prompt_must_be_string_or_scene_object''
         else if blank (case prompt of JObj d \<Rightarrow> dict_get_default d ''scene'' JNull | _ \<Rightarrow> JNull) then Some ''prompt_scene_empty''
         else None)
      else (case prompt of JStr s \<Rightarrow> validate_text s | _ \<Rightarrow> Some ''prompt_must_be_string_or_object''))"

definition reserved_keys :: "string \<Rightarrow> string list" where
  "reserved_keys ttype = (if ttype = ''tts'' then [''prompt'', ''script_file'', ''text''] else [''prompt'', ''script_file''])"

definition bad_resource_id :: "string \<Rightarrow> bool" where
  "bad_resource_id rid \<longleftrightarrow> (\<exists>c \<in> set rid. c = CHR ''/'' \<or> c = CHR 0x5C \<or> c = CHR 0x00) \<or> (\<forall>c \<in> set rid. c = CHR ''.'')"

definition from_request ::
  "string \<Rightarrow> string \<Rightarrow> string \<Rightarrow> json \<Rightarrow> string option \<Rightarrow> string \<Rightarrow> params option \<Rightarrow> string option \<Rightarrow> string option \<Rightarrow> int option
    \<Rightarrow> spec_error + task_spec" where
  "from_request ttype media rid prompt script src extra dep_resource dep_group dep_index =
     (if strip rid = [] then Inl (TaskSpecValidationError ''resource_id_required'')
      else if bad_resource_id rid then Inl (TaskSpecValidationError ''invalid_resource_id'')
      else case validate_prompt ttype prompt of Some code \<Rightarrow> Inl (TaskSpecValidationError code)
        | None \<Rightarrow>
            (let conflict = filter (\<lambda>k. dict_get (coalesce extra []) k \<noteq> None) (reserved_keys ttype);
                 p0 = coalesce extra [];
                 p1 = (if ttype \<noteq> ''reference_video'' then dict_put ''prompt'' prompt p0 else p0);
                 p2 = (case script of None \<Rightarrow> p1 | Some f \<Rightarrow> dict_put ''script_file'' (JStr f) p1) in
             if conflict \<noteq> [] then Inl (ReservedKeys (sort conflict))
             else Inr \<lparr>sp_task_type = ttype, sp_media_type = media, sp_resource_id = rid, sp_payload = Some p2,
               sp_script_file = script, sp_source = src, sp_dependency_resource_id = dep_resource,
               sp_dependency_group = dep_group, sp_dependency_index = dep_index\<rparr>))"

text \<open>The requests of the storyboard tool (\<open>server/agent_runtime/sdk_tools/enqueue_storyboards.py\<close>); \<open>prompt_of\<close> is
  the image prompt of an item.\<close>

definition storyboard_spec :: "(string \<Rightarrow> json) \<Rightarrow> string option \<Rightarrow> storyboard_plan \<Rightarrow> spec_error + task_spec" where
  "storyboard_spec prompt_of script p =
     from_request ''storyboard'' ''image'' (pl_resource_id p) (prompt_of (pl_resource_id p)) script ''skill'' None
       (pl_dependency_resource_id p) (Some (pl_dependency_group p)) (Some (int (pl_dependency_index p)))"

fun storyboard_specs :: "(string \<Rightarrow> json) \<Rightarrow> string option \<Rightarrow> storyboard_plan list \<Rightarrow> spec_error + task_spec list" where
  "storyboard_specs prompt_of script [] = Inr []"
| "storyboard_specs prompt_of script (p # ps) =
     (case storyboard_spec prompt_of script p of Inl e \<Rightarrow> Inl e
      | Inr sp \<Rightarrow> (case storyboard_specs prompt_of script ps of Inl e \<Rightarrow> Inl e | Inr sps \<Rightarrow> Inr (sp # sps)))"

subsection \<open>One call\<close>

datatype client_error = WorkerOffline | Queue_raised queue_error | Other py_error

definition spec_request :: "string \<Rightarrow> string \<Rightarrow> task_spec \<Rightarrow> string option \<Rightarrow> enqueue_request" where
  "spec_request project user sp dep =
     \<lparr>rq_project_name = project, rq_task_type = sp_task_type sp, rq_media_type = sp_media_type sp, rq_resource_id = sp_resource_id sp,
      rq_payload = Some (coalesce (sp_payload sp) []), rq_script_file = sp_script_file sp,
      rq_resource_type = (case dict_get (coalesce (sp_payload sp) []) ''resource_type'' of Some (JStr s) \<Rightarrow> if s = [] then None else Some s | _ \<Rightarrow> None),
      rq_source = sp_source sp, rq_dependency_task_id = dep, rq_dependency_group = sp_dependency_group sp,
      rq_dependency_index = sp_dependency_index sp, rq_user_id = user, rq_provider_id = None\<rparr>"

definition enqueue_task_only ::
  "(enqueue_request \<Rightarrow> string option) \<Rightarrow> rat \<Rightarrow> nat \<Rightarrow> string \<Rightarrow> string \<Rightarrow> string \<Rightarrow> task_spec \<Rightarrow> string option \<Rightarrow> gqueue
    \<Rightarrow> gqueue \<times> (client_error + enqueue_result)" where
  "enqueue_task_only derive epoch now tid project user sp dep g =
     (if \<not> is_worker_online epoch ''default'' (gq_repo g) then (g, Inl WorkerOffline)
      else case enqueue_task derive now tid (spec_request project user sp dep) g of
          (g', Inl e) \<Rightarrow> (g', Inl (Queue_raised e))
        | (g', Inr r) \<Rightarrow> (g', Inr r))"

subsection \<open>Waiting\<close>

definition DEFAULT_TASK_WAIT_TIMEOUT_SEC :: "rat option" where "DEFAULT_TASK_WAIT_TIMEOUT_SEC = Some 3600"

definition read_task_wait_timeout :: "rat option" where
  "read_task_wait_timeout = (case DEFAULT_TASK_WAIT_TIMEOUT_SEC of None \<Rightarrow> None | Some v \<Rightarrow> if v \<le> 0 then None else Some v)"

definition wait_timeout :: "rat option \<Rightarrow> rat option" where
  "wait_timeout timeout_seconds =
     map_option (max (1/10)) (case timeout_seconds of None \<Rightarrow> read_task_wait_timeout | Some t \<Rightarrow> Some t)"

definition DEFAULT_WORKER_OFFLINE_GRACE_SEC :: "rat \<Rightarrow> rat" where
  "DEFAULT_WORKER_OFFLINE_GRACE_SEC lease_ttl = max 20 (lease_ttl * 2)"

definition offline_grace :: "rat \<Rightarrow> rat option \<Rightarrow> rat" where
  "offline_grace lease_ttl grace_seconds =
     (case grace_seconds of None \<Rightarrow> max 1 (DEFAULT_WORKER_OFFLINE_GRACE_SEC lease_ttl) | Some x \<Rightarrow> max (1/10) x)"

text \<open>One poll: the row, the clock after reading it, and whether the worker is online then.\<close>

record poll =
  po_row :: "task_dict option"
  po_clock :: rat
  po_online :: bool

datatype wait_error = TaskNotFound | TaskWaitTimeout | WorkerOfflineWhileWaiting

definition finished :: "task_dict \<Rightarrow> bool" where
  "finished d \<longleftrightarrow> status (td_row d) \<in> {Succeeded, Failed, Cancelled}"

fun wait_loop :: "nat \<Rightarrow> rat option \<Rightarrow> rat \<Rightarrow> rat \<Rightarrow> (nat \<Rightarrow> poll) \<Rightarrow> nat \<Rightarrow> rat option \<Rightarrow> (wait_error + task_dict) option" where
  "wait_loop 0 timeout grace start polls k offline_since = None"
| "wait_loop (Suc fuel) timeout grace start polls k offline_since =
     (case po_row (polls k) of None \<Rightarrow> Some (Inl TaskNotFound)
      | Some d \<Rightarrow>
          if finished d then Some (Inr d)
          else let now = po_clock (polls k) in
            if (case timeout of None \<Rightarrow> False | Some t \<Rightarrow> t \<le> now - start) then Some (Inl TaskWaitTimeout)
            else if po_online (polls k) then wait_loop fuel timeout grace start polls (Suc k) None
            else (case offline_since of
                None \<Rightarrow> wait_loop fuel timeout grace start polls (Suc k) (Some now)
              | Some since \<Rightarrow> if grace \<le> now - since then Some (Inl WorkerOfflineWhileWaiting)
                  else wait_loop fuel timeout grace start polls (Suc k) (Some since)))"

definition wait_for_task ::
  "nat \<Rightarrow> rat \<Rightarrow> rat option \<Rightarrow> rat option \<Rightarrow> rat \<Rightarrow> (nat \<Rightarrow> poll) \<Rightarrow> (wait_error + task_dict) option" where
  "wait_for_task fuel lease_ttl timeout_seconds grace_seconds start polls =
     wait_loop fuel (wait_timeout timeout_seconds) (offline_grace lease_ttl grace_seconds) start polls 0 None"

definition is_interrupted_wait_error :: "wait_error \<Rightarrow> bool" where
  "is_interrupted_wait_error e \<longleftrightarrow> e \<in> {TaskWaitTimeout, WorkerOfflineWhileWaiting}"

datatype wait_failure = TaskFailedError string | TaskCancelledError string | Wait_raised wait_error | Enqueue_raised client_error

text \<open>The tail of \<open>enqueue_and_wait\<close>, after the call that enqueues.\<close>

definition enqueue_and_wait ::
  "(client_error + enqueue_result) \<Rightarrow> (string \<Rightarrow> (wait_error + task_dict) option) \<Rightarrow> (wait_failure + enqueue_result \<times> task_dict) option" where
  "enqueue_and_wait enqueued wait =
     (case enqueued of Inl e \<Rightarrow> Some (Inl (Enqueue_raised e))
      | Inr r \<Rightarrow> (case wait (er_task_id r) of None \<Rightarrow> None
          | Some (Inl e) \<Rightarrow> Some (Inl (Wait_raised e))
          | Some (Inr d) \<Rightarrow>
              if status (td_row d) = Failed then Some (Inl (TaskFailedError (opt_or (error_message (td_row d)) ''task failed'')))
              else if status (td_row d) = Cancelled then Some (Inl (TaskCancelledError (er_task_id r)))
              else Some (Inr (r, d))))"

subsection \<open>A batch\<close>

record enqueued_task =
  et_resource_id :: string
  et_task_id :: string
  et_deduped :: bool

datatype fault = Cancelled_here | Fails_with py_error

record turn =
  tn_others :: "gqueue \<Rightarrow> gqueue"
  tn_epoch :: rat
  tn_now :: nat
  tn_tid :: string
  tn_fault :: "fault option"

definition cancel_took_effect :: "cancel_lists \<Rightarrow> string \<Rightarrow> bool" where
  "cancel_took_effect cl tid \<longleftrightarrow> tid \<in> set (map (\<lambda>d. task_id (td_row d)) (cl_cancelled cl))"

text \<open>A cancellation of the rollback that does not reach the database is the \<open>down\<close> of its identifier.\<close>

fun rollback_enqueued ::
  "(string \<Rightarrow> gqueue \<Rightarrow> gqueue) \<Rightarrow> (string \<Rightarrow> bool) \<Rightarrow> nat \<Rightarrow> string list \<Rightarrow> gqueue \<Rightarrow> gqueue \<times> string list \<times> string list" where
  "rollback_enqueued others down now [] g = (g, [], [])"
| "rollback_enqueued others down now (tid # tids) g =
     (let g1 = others tid g in
      case (if down tid then (g1, Inl OperationalError) else queue_cancel_task now tid g1) of (g2, res) \<Rightarrow>
        (case rollback_enqueued others down now tids g2 of (g3, rolled, orphaned) \<Rightarrow>
           if (case res of Inr cl \<Rightarrow> cancel_took_effect cl tid | Inl _ \<Rightarrow> False)
           then (g3, tid # rolled, orphaned) else (g3, rolled, tid # orphaned)))"

record bstate =
  bs_queue :: gqueue
  bs_enqueued :: "enqueued_task list"
  bs_task_ids :: "(string \<times> string) list"
  bs_created :: "(string \<times> string) list"
  bs_failures :: "batch_task_result list"
  bs_failed :: "string set"

datatype batch_exit =
    Batch_done bstate
  | Batch_cancelled gqueue
  | Batch_aborted string string "string list" "string list" gqueue

definition failed_result :: "string \<Rightarrow> string \<Rightarrow> batch_task_result" where
  "failed_result rid err = \<lparr>bt_resource_id = rid, bt_task_id = [], bt_status = ''failed'', bt_result = None, bt_error = Some err, bt_task = None\<rparr>"

definition record_failure_of :: "string \<Rightarrow> string \<Rightarrow> bstate \<Rightarrow> bstate" where
  "record_failure_of rid err b = b\<lparr>bs_failures := bs_failures b @ [failed_result rid err], bs_failed := insert rid (bs_failed b)\<rparr>"

definition record_enqueued :: "string \<Rightarrow> enqueue_result \<Rightarrow> bstate \<Rightarrow> bstate" where
  "record_enqueued rid r b =
     b\<lparr>bs_task_ids := dict_put rid (er_task_id r) (bs_task_ids b),
       bs_created := (if er_deduped r then bs_created b else dict_put rid (er_task_id r) (bs_created b)),
       bs_enqueued := bs_enqueued b @ [\<lparr>et_resource_id = rid, et_task_id = er_task_id r, et_deduped = er_deduped r\<rparr>]\<rparr>"

definition blocked_by_failure :: "task_spec \<Rightarrow> bstate \<Rightarrow> bool" where
  "blocked_by_failure sp b \<longleftrightarrow> (case sp_dependency_resource_id sp of None \<Rightarrow> False | Some d \<Rightarrow> d \<noteq> [] \<and> d \<in> bs_failed b)"

definition resolved_dependency :: "task_spec \<Rightarrow> bstate \<Rightarrow> string option" where
  "resolved_dependency sp b = (case sp_dependency_resource_id sp of None \<Rightarrow> None | Some d \<Rightarrow> if d = [] then None else dict_get (bs_task_ids b) d)"

definition attempt ::
  "(enqueue_request \<Rightarrow> string option) \<Rightarrow> string \<Rightarrow> string \<Rightarrow> task_spec \<Rightarrow> turn \<Rightarrow> bstate \<Rightarrow> gqueue \<times> (client_error + enqueue_result) option" where
  "attempt derive project user sp tn b =
     (let g = tn_others tn (bs_queue b) in
      case tn_fault tn of
        Some Cancelled_here \<Rightarrow> (g, None)
      | Some (Fails_with e) \<Rightarrow> (g, Some (Inl (Other e)))
      | None \<Rightarrow> (case enqueue_task_only derive (tn_epoch tn) (tn_now tn) (tn_tid tn) project user sp (resolved_dependency sp b) g of
          (g', r) \<Rightarrow> (g', Some r)))"

text \<open>\<open>rb\<close> is the rollback of a list of identifiers.\<close>

fun enqueue_loop ::
  "(enqueue_request \<Rightarrow> string option) \<Rightarrow> (client_error \<Rightarrow> string) \<Rightarrow> (string list \<Rightarrow> gqueue \<Rightarrow> gqueue \<times> string list \<times> string list)
    \<Rightarrow> string \<Rightarrow> string \<Rightarrow> bool \<Rightarrow> (task_spec \<times> turn) list \<Rightarrow> bstate \<Rightarrow> batch_exit" where
  "enqueue_loop derive str_exc rb project user atomic [] b = Batch_done b"
| "enqueue_loop derive str_exc rb project user atomic ((sp, tn) # rest) b =
     (if blocked_by_failure sp b
      then enqueue_loop derive str_exc rb project user atomic rest
        (record_failure_of (sp_resource_id sp) (''dependency '' @ the (sp_dependency_resource_id sp) @ '' failed to enqueue'') b)
      else case attempt derive project user sp tn b of
          (g, None) \<Rightarrow>
            Batch_cancelled (if atomic \<and> bs_created b \<noteq> [] then fst (rb (map snd (bs_created b)) g) else g)
        | (g, Some (Inl e)) \<Rightarrow>
            if atomic
            then (case rb (map snd (bs_created b)) g of (g', rolled, orphaned) \<Rightarrow>
              Batch_aborted (sp_resource_id sp) (str_exc e) rolled orphaned g')
            else enqueue_loop derive str_exc rb project user atomic rest
              (record_failure_of (sp_resource_id sp) (str_exc e) (b\<lparr>bs_queue := g\<rparr>))
        | (g, Some (Inr r)) \<Rightarrow>
            enqueue_loop derive str_exc rb project user atomic rest (record_enqueued (sp_resource_id sp) r (b\<lparr>bs_queue := g\<rparr>)))"

definition fresh_batch :: "gqueue \<Rightarrow> bstate" where
  "fresh_batch g = \<lparr>bs_queue = g, bs_enqueued = [], bs_task_ids = [], bs_created = [], bs_failures = [], bs_failed = {}\<rparr>"

definition enqueue_sequentially ::
  "(enqueue_request \<Rightarrow> string option) \<Rightarrow> (client_error \<Rightarrow> string) \<Rightarrow> (string list \<Rightarrow> gqueue \<Rightarrow> gqueue \<times> string list \<times> string list)
    \<Rightarrow> string \<Rightarrow> string \<Rightarrow> bool \<Rightarrow> (task_spec \<times> turn) list \<Rightarrow> gqueue \<Rightarrow> batch_exit" where
  "enqueue_sequentially derive str_exc rb project user atomic specs g = enqueue_loop derive str_exc rb project user atomic specs (fresh_batch g)"

definition enqueue_batch_atomically ::
  "(enqueue_request \<Rightarrow> string option) \<Rightarrow> (client_error \<Rightarrow> string) \<Rightarrow> (string list \<Rightarrow> gqueue \<Rightarrow> gqueue \<times> string list \<times> string list)
    \<Rightarrow> string \<Rightarrow> string \<Rightarrow> (task_spec \<times> turn) list \<Rightarrow> gqueue \<Rightarrow> batch_exit + enqueued_task list" where
  "enqueue_batch_atomically derive str_exc rb project user specs g =
     (case enqueue_sequentially derive str_exc rb project user True specs g of Batch_done b \<Rightarrow> Inr (bs_enqueued b) | x \<Rightarrow> Inl x)"

definition task_result_from_finished :: "(task_dict \<Rightarrow> params) \<Rightarrow> task_dict \<Rightarrow> string \<Rightarrow> string \<Rightarrow> batch_task_result" where
  "task_result_from_finished dump d rid tid =
     (if status (td_row d) = Failed
      then \<lparr>bt_resource_id = rid, bt_task_id = tid, bt_status = ''failed'', bt_result = None,
        bt_error = Some (opt_or (error_message (td_row d)) ''task failed''), bt_task = Some (dump d)\<rparr>
      else if status (td_row d) = Cancelled
      then \<lparr>bt_resource_id = rid, bt_task_id = tid, bt_status = ''cancelled'', bt_result = None, bt_error = Some ''task cancelled'', bt_task = Some (dump d)\<rparr>
      else \<lparr>bt_resource_id = rid, bt_task_id = tid, bt_status = ''succeeded'',
        bt_result = Some (case td_result d of JObj r \<Rightarrow> r | _ \<Rightarrow> []), bt_error = None, bt_task = Some (dump d)\<rparr>)"

definition wait_one ::
  "(task_dict \<Rightarrow> params) \<Rightarrow> (wait_error \<Rightarrow> string) \<Rightarrow> (string \<Rightarrow> wait_error + task_dict) \<Rightarrow> (string \<times> string) list \<Rightarrow> task_spec \<Rightarrow> batch_task_result" where
  "wait_one dump str_wait wait task_ids sp =
     (let tid = the (dict_get task_ids (sp_resource_id sp)) in
      case wait tid of
        Inr d \<Rightarrow> task_result_from_finished dump d (sp_resource_id sp) tid
      | Inl e \<Rightarrow> \<lparr>bt_resource_id = sp_resource_id sp, bt_task_id = tid,
          bt_status = (if is_interrupted_wait_error e then ''interrupted'' else ''failed''), bt_result = None,
          bt_error = Some (str_wait e), bt_task = None\<rparr>)"

text \<open>The second phase; what \<open>wait_for_task\<close> returns or raises for a task is \<open>wait\<close>. The lists are also what
  the callbacks see, in this order.\<close>

definition gather_results ::
  "(task_dict \<Rightarrow> params) \<Rightarrow> (wait_error \<Rightarrow> string) \<Rightarrow> (string \<Rightarrow> wait_error + task_dict) \<Rightarrow> task_spec list \<Rightarrow> bstate
    \<Rightarrow> batch_task_result list \<times> batch_task_result list" where
  "gather_results dump str_wait wait specs b =
     (let task_ids = fold (\<lambda>e d. dict_put (et_resource_id e) (et_task_id e) d) (bs_enqueued b) [];
          results = map (wait_one dump str_wait wait task_ids) (filter (\<lambda>sp. dict_get task_ids (sp_resource_id sp) \<noteq> None) specs) in
      (filter (\<lambda>r. bt_status r = ''succeeded'') results, filter (\<lambda>r. bt_status r \<noteq> ''succeeded'') results @ bs_failures b))"

definition batch_enqueue_and_wait ::
  "(enqueue_request \<Rightarrow> string option) \<Rightarrow> (client_error \<Rightarrow> string) \<Rightarrow> (string list \<Rightarrow> gqueue \<Rightarrow> gqueue \<times> string list \<times> string list)
    \<Rightarrow> (task_dict \<Rightarrow> params) \<Rightarrow> (wait_error \<Rightarrow> string) \<Rightarrow> (string \<Rightarrow> wait_error + task_dict)
    \<Rightarrow> string \<Rightarrow> string \<Rightarrow> bool \<Rightarrow> (task_spec \<times> turn) list \<Rightarrow> gqueue \<Rightarrow> batch_exit + batch_task_result list \<times> batch_task_result list" where
  "batch_enqueue_and_wait derive str_exc rb dump str_wait wait project user atomic specs g =
     (if specs = [] then Inr ([], [])
      else case enqueue_sequentially derive str_exc rb project user atomic specs g of
          Batch_done b \<Rightarrow> Inr (gather_results dump str_wait wait (map fst specs) b)
        | x \<Rightarrow> Inl x)"

subsection \<open>The plan\<close>

lemma plan_loop_ids:
  "map pl_resource_id (plan_loop py_str id_field sel script items prev n k) =
     filter (\<lambda>rid. rid \<noteq> [] \<and> rid \<in> sel) (map (item_id py_str id_field) items)"
  by (induction items arbitrary: prev n k) (auto simp: Let_def)

lemma plan_loop_chain:
  "i < length (plan_loop py_str id_field sel script items prev n k) \<Longrightarrow>
     (case pl_dependency_resource_id (plan_loop py_str id_field sel script items prev n k ! i) of
        None \<Rightarrow> pl_dependency_index (plan_loop py_str id_field sel script items prev n k ! i) = 0
      | Some d \<Rightarrow> let p = plan_loop py_str id_field sel script items prev n k ! i in
          (case i of 0 \<Rightarrow> d = prev \<and> d \<noteq> [] \<and> d \<in> sel \<and> pl_dependency_group p = group_label script n \<and> pl_dependency_index p = Suc k
          | Suc j \<Rightarrow> let o' = plan_loop py_str id_field sel script items prev n k ! j in
              pl_resource_id o' = d \<and> pl_dependency_group p = pl_dependency_group o' \<and> pl_dependency_index p = Suc (pl_dependency_index o')))"
proof (induction items arbitrary: prev n k i)
  case (Cons item items)
  define rid where "rid = item_id py_str id_field item"
  consider (skip) "rid = [] \<or> rid \<notin> sel" | (start) "rid \<noteq> []" "rid \<in> sel" "segment_break item \<or> prev = [] \<or> prev \<notin> sel"
    | (link) "rid \<noteq> []" "rid \<in> sel" "\<not> segment_break item" "prev \<noteq> []" "prev \<in> sel" by blast
  then show ?case
  proof cases
    case skip
    then have eq: "plan_loop py_str id_field sel script (item # items) prev n k = plan_loop py_str id_field sel script items rid n k"
      by (simp add: rid_def Let_def)
    show ?thesis using Cons.IH [of i rid n k] Cons.prems skip unfolding eq
      by (cases i) (auto simp: Let_def split: option.splits)
  next
    case start
    then have eq: "plan_loop py_str id_field sel script (item # items) prev n k =
        \<lparr>pl_resource_id = rid, pl_script_file = script, pl_dependency_resource_id = None,
          pl_dependency_group = group_label script (Suc n), pl_dependency_index = 0\<rparr>
        # plan_loop py_str id_field sel script items rid (Suc n) 0"
      by (auto simp: rid_def Let_def)
    show ?thesis using Cons.IH [of "i - 1" rid "Suc n" 0] Cons.prems unfolding eq
      by (cases i; cases "i - 1") (auto simp: Let_def split: option.splits)
  next
    case link
    then have eq: "plan_loop py_str id_field sel script (item # items) prev n k =
        \<lparr>pl_resource_id = rid, pl_script_file = script, pl_dependency_resource_id = Some prev,
          pl_dependency_group = group_label script n, pl_dependency_index = Suc k\<rparr>
        # plan_loop py_str id_field sel script items rid n (Suc k)"
      by (auto simp: rid_def Let_def)
    show ?thesis using Cons.IH [of "i - 1" rid n "Suc k"] Cons.prems link unfolding eq
      by (cases i; cases "i - 1") (auto simp: Let_def split: option.splits)
  qed
qed simp

lemma show_nat_inj: "show_nat m = show_nat n \<Longrightarrow> m = n"
  by (metis read_show_nat)

lemma plan_loop_groups:
  "\<exists>m. map pl_dependency_group (filter (\<lambda>p. pl_dependency_resource_id p = None) (plan_loop py_str id_field sel script items prev n k)) =
     map (group_label script) [Suc n..<Suc n + m]"
proof (induction items arbitrary: prev n k)
  case Nil
  show ?case by (rule exI [of _ 0]) simp
next
  case (Cons item items)
  define rid where "rid = item_id py_str id_field item"
  have up: "[Suc n..<Suc n + Suc m] = Suc n # [Suc (Suc n)..<Suc (Suc n) + m]" for m by (simp add: upt_rec del: upt_Suc)
  have "\<exists>m. map pl_dependency_group (filter (\<lambda>p. pl_dependency_resource_id p = None) (plan_loop py_str id_field sel script items rid (Suc n) 0)) =
      map (group_label script) [Suc (Suc n)..<Suc (Suc n) + m]" by (rule Cons.IH)
  then have start: "\<exists>m. group_label script (Suc n) #
      map pl_dependency_group (filter (\<lambda>p. pl_dependency_resource_id p = None) (plan_loop py_str id_field sel script items rid (Suc n) 0)) =
      map (group_label script) [Suc n..<Suc n + m]" by (metis list.map(2) up)
  show ?case using start Cons.IH [of rid n k] Cons.IH [of rid n "Suc k"] by (simp add: Let_def rid_def del: upt_Suc)
qed

text \<open>
  The storyboard plan. The planned storyboards are the selected ones, in script order. One that
  depends on another follows it at once in the plan, in the same group and with the next index; one that
  depends on none starts a group of its own at index 0, and no two groups carry the same label. So the
  dependencies of a plan always point backwards and every group is one chain.
\<close>

theorem storyboard_plan_chains:
  assumes "ps = build_storyboard_dependency_plan py_str items id_field selected script"
  shows "map pl_resource_id ps = filter (\<lambda>rid. rid \<noteq> [] \<and> rid \<in> set selected) (map (item_id py_str id_field) items)
    \<and> (\<forall>i < length ps. case pl_dependency_resource_id (ps ! i) of
          None \<Rightarrow> pl_dependency_index (ps ! i) = 0
        | Some d \<Rightarrow> 0 < i \<and> pl_resource_id (ps ! (i - 1)) = d \<and> pl_dependency_group (ps ! i) = pl_dependency_group (ps ! (i - 1))
            \<and> pl_dependency_index (ps ! i) = Suc (pl_dependency_index (ps ! (i - 1))))
    \<and> distinct (map pl_dependency_group (filter (\<lambda>p. pl_dependency_resource_id p = None) ps))"
proof (cases "selected = []")
  case False
  then have ps: "ps = plan_loop py_str id_field (set selected) script items [] 0 0"
    using assms by (simp add: build_storyboard_dependency_plan_def)
  have inj: "inj (group_label script)" by (rule injI) (simp add: group_label_def show_nat_inj)
  obtain m where "map pl_dependency_group (filter (\<lambda>p. pl_dependency_resource_id p = None) ps) = map (group_label script) [Suc 0..<Suc 0 + m]"
    unfolding ps using plan_loop_groups by blast
  then have "distinct (map pl_dependency_group (filter (\<lambda>p. pl_dependency_resource_id p = None) ps))"
    using inj_on_subset [OF inj subset_UNIV] by (simp add: distinct_map del: upt_Suc)
  moreover have "case pl_dependency_resource_id (ps ! i) of None \<Rightarrow> pl_dependency_index (ps ! i) = 0
      | Some d \<Rightarrow> 0 < i \<and> pl_resource_id (ps ! (i - 1)) = d \<and> pl_dependency_group (ps ! i) = pl_dependency_group (ps ! (i - 1))
          \<and> pl_dependency_index (ps ! i) = Suc (pl_dependency_index (ps ! (i - 1)))" if "i < length ps" for i
    using plan_loop_chain [of i py_str id_field "set selected" script items "[]" 0 0] that unfolding ps
    by (cases i) (auto simp: Let_def split: option.splits)
  ultimately show ?thesis using plan_loop_ids ps by blast
qed (simp add: assms build_storyboard_dependency_plan_def)

theorem storyboard_plan_chains_witness:
  "pl_resource_id (build_storyboard_dependency_plan (\<lambda>_. []) [[(''id'', JStr ''a'')], [(''id'', JStr ''b'')]] ''id'' [''b'', ''a''] None ! 0) = ''a''
   \<and> pl_dependency_resource_id (build_storyboard_dependency_plan (\<lambda>_. []) [[(''id'', JStr ''a'')], [(''id'', JStr ''b'')]] ''id'' [''b'', ''a''] None ! 1) = Some ''a''"
proof -
  define ps where "ps = build_storyboard_dependency_plan (\<lambda>_. []) [[(''id'', JStr ''a'')], [(''id'', JStr ''b'')]] ''id'' [''b'', ''a''] None"
  have dep: "pl_dependency_resource_id (ps ! 1) = Some ''a''" "length ps = 2" unfolding ps_def by code_simp+
  then show ?thesis using storyboard_plan_chains [OF ps_def] unfolding ps_def [symmetric] by (auto dest: spec [of _ 1])
qed

subsection \<open>Waiting ends\<close>

lemma wait_loop_returns:
  assumes "0 < interval" "\<And>j. start + of_nat j * interval \<le> po_clock (polls j)" "t \<le> of_nat (k + fuel) * interval"
  shows "\<exists>r. wait_loop (Suc fuel) (Some t) grace start polls k off = Some r"
  using assms(3)
proof (induction fuel arbitrary: k off)
  case 0
  then have "t \<le> po_clock (polls k) - start" using assms(2) [of k] by (simp add: algebra_simps)
  then show ?case by (auto simp: Let_def split: option.split)
next
  case (Suc fuel)
  then have "t \<le> of_nat (Suc k + fuel) * interval" by simp
  then have "\<exists>r. wait_loop (Suc fuel) (Some t) grace start polls (Suc k) o' = Some r" for o' by (rule Suc.IH)
  then show ?case by (subst wait_loop.simps) (auto simp: Let_def simp del: wait_loop.simps split: option.split)
qed

definition waiting_at :: "(nat \<Rightarrow> poll) \<Rightarrow> nat \<Rightarrow> bool" where
  "waiting_at polls k \<longleftrightarrow> (case po_row (polls k) of None \<Rightarrow> False | Some d \<Rightarrow> \<not> finished d)"

text \<open>What an outcome of the wait says about the polls.\<close>

fun wait_means :: "rat option \<Rightarrow> rat \<Rightarrow> rat \<Rightarrow> (nat \<Rightarrow> poll) \<Rightarrow> nat \<Rightarrow> wait_error + task_dict \<Rightarrow> bool" where
  "wait_means timeout grace start polls k (Inr d) = (po_row (polls k) = Some d \<and> finished d)"
| "wait_means timeout grace start polls k (Inl TaskNotFound) = (po_row (polls k) = None)"
| "wait_means timeout grace start polls k (Inl TaskWaitTimeout) =
     (waiting_at polls k \<and> (\<exists>t. timeout = Some t \<and> t \<le> po_clock (polls k) - start))"
| "wait_means timeout grace start polls k (Inl WorkerOfflineWhileWaiting) =
     (waiting_at polls k \<and> (\<exists>j < k. grace \<le> po_clock (polls k) - po_clock (polls j) \<and> (\<forall>i. j \<le> i \<and> i \<le> k \<longrightarrow> \<not> po_online (polls i))))"

lemma wait_loop_means:
  assumes "wait_loop fuel timeout grace start polls k off = Some r" "\<forall>j < k. waiting_at polls j"
    "\<And>since. off = Some since \<Longrightarrow> \<exists>j < k. since = po_clock (polls j) \<and> (\<forall>i. j \<le> i \<and> i < k \<longrightarrow> \<not> po_online (polls i))"
  shows "\<exists>m. (\<forall>j < m. waiting_at polls j) \<and> wait_means timeout grace start polls m r"
  using assms
proof (induction fuel arbitrary: k off)
  case (Suc fuel)
  show ?case
  proof (cases "waiting_at polls k \<and> \<not> (\<exists>t. timeout = Some t \<and> t \<le> po_clock (polls k) - start)")
    case False
    then have "wait_means timeout grace start polls k r"
      using Suc.prems(1) by (auto simp: waiting_at_def Let_def split: option.splits if_splits)
    then show ?thesis using Suc.prems(2) by blast
  next
    case True
    then obtain d where d: "po_row (polls k) = Some d" "\<not> finished d" by (auto simp: waiting_at_def split: option.splits)
    have prev: "\<forall>j < Suc k. waiting_at polls j" using Suc.prems(2) True by (auto simp: less_Suc_eq)
    have out: "\<not> (case timeout of None \<Rightarrow> False | Some t \<Rightarrow> t \<le> po_clock (polls k) - start)" using True by (auto split: option.splits)
    note run = Suc.prems(1) [simplified wait_loop.simps d option.case Let_def, simplified d out, simplified]
    show ?thesis
    proof (cases "po_online (polls k)")
      case True
      then have "wait_loop fuel timeout grace start polls (Suc k) None = Some r" using run by simp
      then show ?thesis using Suc.IH [OF _ prev] by blast
    next
      case off: False
      show ?thesis
      proof (cases "off")
        case None
        then have "wait_loop fuel timeout grace start polls (Suc k) (Some (po_clock (polls k))) = Some r" using run off by simp
        then show ?thesis by (rule Suc.IH [OF _ prev]) (use off in \<open>auto simp: less_Suc_eq intro: exI [of _ k]\<close>)
      next
        case (Some since)
        then obtain j where j: "j < k" "since = po_clock (polls j)" "\<forall>i. j \<le> i \<and> i < k \<longrightarrow> \<not> po_online (polls i)"
          using Suc.prems(3) by blast
        then have all: "\<forall>i. j \<le> i \<and> i < Suc k \<longrightarrow> \<not> po_online (polls i)" using off by (auto simp: less_Suc_eq)
        show ?thesis
        proof (cases "grace \<le> po_clock (polls k) - since")
          case True
          then have "r = Inl WorkerOfflineWhileWaiting" using run off Some by simp
          then have "wait_means timeout grace start polls k r" using True j all prev by (auto simp: less_Suc_eq_le)
          then show ?thesis using Suc.prems(2) by blast
        next
          case False
          then have "wait_loop fuel timeout grace start polls (Suc k) (Some since) = Some r" using run off Some by simp
          then show ?thesis by (rule Suc.IH [OF _ prev]) (use j all in \<open>auto intro: exI [of _ j]\<close>)
        qed
      qed
    qed
  qed
qed simp

text \<open>
  Waiting for a task ends, and says the truth. When the clock advances by at least the poll
  interval between polls, the wait is over after at most the timeout divided by the interval polls,
  whatever the task, the worker and the timeout argument (the default is one hour). It returns
  the row of the first poll that finds the task finished; it raises a timeout only for a task still
  unfinished after the timeout, reports the worker offline only after every poll over at least the
  grace period found it so and the task unfinished, and reports the task missing only when it is.
\<close>

theorem wait_for_task_ends:
  assumes "0 < interval" "\<And>j. start + of_nat j * interval \<le> po_clock (polls j)"
    "the (wait_timeout timeout_seconds) \<le> of_nat fuel * interval"
  shows "\<exists>r m. wait_for_task (Suc fuel) lease_ttl timeout_seconds grace_seconds start polls = Some r
    \<and> (\<forall>j < m. waiting_at polls j)
    \<and> wait_means (wait_timeout timeout_seconds) (offline_grace lease_ttl grace_seconds) start polls m r"
proof -
  obtain t where t: "wait_timeout timeout_seconds = Some t"
    by (cases timeout_seconds) (auto simp: wait_timeout_def read_task_wait_timeout_def DEFAULT_TASK_WAIT_TIMEOUT_SEC_def)
  then have "t \<le> of_nat (0 + fuel) * interval" using assms(3) by simp
  from wait_loop_returns [OF assms(1,2) this] t
  obtain r where "wait_for_task (Suc fuel) lease_ttl timeout_seconds grace_seconds start polls = Some r"
    unfolding wait_for_task_def by metis
  then show ?thesis using wait_loop_means [of "Suc fuel" "wait_timeout timeout_seconds" "offline_grace lease_ttl grace_seconds" start polls 0 None r]
    by (simp add: wait_for_task_def del: wait_loop.simps)
qed

theorem wait_for_task_ends_witness:
  "\<exists>r m. wait_for_task 3 10 (Some 2) None 0 (\<lambda>k. \<lparr>po_row = None, po_clock = of_nat k, po_online = True\<rparr>) = Some r
    \<and> wait_means (Some 2) 20 0 (\<lambda>k. \<lparr>po_row = None, po_clock = of_nat k, po_online = True\<rparr>) m r"
proof -
  have "wait_timeout (Some 2) = Some 2" "offline_grace 10 None = 20"
    by (simp_all add: wait_timeout_def offline_grace_def DEFAULT_WORKER_OFFLINE_GRACE_SEC_def)
  then show ?thesis
    using wait_for_task_ends [of 1 0 "\<lambda>k. \<lparr>po_row = None, po_clock = of_nat k, po_online = True\<rparr>" "Some 2" 2 10 None]
    by (auto simp: numeral_eq_Suc)
qed

subsection \<open>Rows of the batch\<close>

definition row_ids :: "gqueue \<Rightarrow> string set" where
  "row_ids g = task_id ` set (tasks (gq_repo g))"

lemma ids_iff: "i \<in> row_ids g \<longleftrightarrow> get_row i (gq_repo g) \<noteq> None"
  using get_row_None_iff [of i "gq_repo g"] by (auto simp: row_ids_def)

lemma enqueue_ids:
  "(set (map task_id (tasks (fst (enqueue now tid q r)))) = set (map task_id (tasks r)) \<and> (\<forall>x. snd (enqueue now tid q r) = Inr x \<longrightarrow> er_deduped x))
   \<or> (set (map task_id (tasks (fst (enqueue now tid q r)))) = insert tid (set (map task_id (tasks r)))
      \<and> (\<exists>x. snd (enqueue now tid q r) = Inr x \<and> \<not> er_deduped x \<and> er_task_id x = tid))"
  by (auto simp: enqueue_def Let_def new_task_def split: list.split)

lemma session_ids: "row_ids (fst (in_session oper g)) = set (map task_id (tasks (fst (oper ((gq_repo g)\<lparr>terminal_events := []\<rparr>)))))"
  by (simp add: row_ids_def in_session_def split_def)

lemma enqueue_task_ids:
  "(row_ids (fst (enqueue_task derive now tid q g)) = row_ids g \<and> (\<forall>x. snd (enqueue_task derive now tid q g) = Inr x \<longrightarrow> er_deduped x))
   \<or> (row_ids (fst (enqueue_task derive now tid q g)) = insert tid (row_ids g)
      \<and> (\<exists>x. snd (enqueue_task derive now tid q g) = Inr x \<and> \<not> er_deduped x \<and> er_task_id x = tid))"
proof -
  define q2 where "q2 = (let q1 = q\<lparr>rq_payload := requested_payload q\<rparr> in
    case rq_provider_id q of Some p \<Rightarrow> q1 | None \<Rightarrow> q1\<lparr>rq_provider_id := derive q1\<rparr>)"
  obtain g' res where s: "in_session (enqueue now tid q2) g = (g', res)" by (cases "in_session (enqueue now tid q2) g")
  have "row_ids g' = set (map task_id (tasks (fst (enqueue now tid q2 ((gq_repo g)\<lparr>terminal_events := []\<rparr>)))))"
    "res = snd (enqueue now tid q2 ((gq_repo g)\<lparr>terminal_events := []\<rparr>))"
    using session_ids [of "enqueue now tid q2" g] in_session_snd [of "enqueue now tid q2" g] s by simp_all
  then have "(row_ids g' = row_ids g \<and> (\<forall>x. res = Inr x \<longrightarrow> er_deduped x))
      \<or> (row_ids g' = insert tid (row_ids g) \<and> (\<exists>x. res = Inr x \<and> \<not> er_deduped x \<and> er_task_id x = tid))"
    using enqueue_ids [of now tid q2 "(gq_repo g)\<lparr>terminal_events := []\<rparr>"] by (simp add: row_ids_def)
  moreover have "fst (enqueue_task derive now tid q g) = g'"
    "\<And>x. snd (enqueue_task derive now tid q g) = Inr x \<Longrightarrow> \<exists>y. res = Inr y \<and> er_deduped x = er_deduped y"
    "\<And>y. res = Inr y \<Longrightarrow> \<not> er_deduped y \<Longrightarrow> \<exists>x. snd (enqueue_task derive now tid q g) = Inr x \<and> \<not> er_deduped x \<and> er_task_id x = er_task_id y"
    using s by (auto simp: enqueue_task_def q2_def Let_def split: sum.splits if_splits)
  ultimately show ?thesis by blast
qed

lemma enqueue_only_ids:
  assumes "enqueue_task_only derive epoch now tid project user sp dep g = (g', res)"
  shows "queue_step\<^sup>*\<^sup>* g g'"
    and "(row_ids g' = row_ids g \<and> (\<forall>x. res = Inr x \<longrightarrow> er_deduped x))
      \<or> (row_ids g' = insert tid (row_ids g) \<and> (\<exists>x. res = Inr x \<and> \<not> er_deduped x \<and> er_task_id x = tid))"
proof -
  define q where "q = spec_request project user sp dep"
  have "queue_step g (fst (enqueue_task derive now tid q g))" by (rule queue_step.enqueue)
  then show "queue_step\<^sup>*\<^sup>* g g'"
    using assms unfolding q_def [symmetric] enqueue_task_only_def by (auto split: if_splits prod.splits sum.splits)
  show "(row_ids g' = row_ids g \<and> (\<forall>x. res = Inr x \<longrightarrow> er_deduped x))
      \<or> (row_ids g' = insert tid (row_ids g) \<and> (\<exists>x. res = Inr x \<and> \<not> er_deduped x \<and> er_task_id x = tid))"
    using assms enqueue_task_ids [of derive now tid q g] unfolding q_def [symmetric] enqueue_task_only_def
    by (auto split: if_splits prod.splits sum.splits)
qed

text \<open>What the others may do: any step of the queue, but they do not use the identifiers \<open>T\<close> drawn for this batch.\<close>

definition decent :: "string set \<Rightarrow> (gqueue \<Rightarrow> gqueue) \<Rightarrow> bool" where
  "decent T f \<longleftrightarrow> (\<forall>g. queue_step\<^sup>*\<^sup>* g (f g) \<and> row_ids (f g) \<inter> T \<subseteq> row_ids g)"

lemma cancel_ids: "row_ids (fst (queue_cancel_task now tid g)) = row_ids g"
proof -
  obtain tids where "fst (queue_cancel_task now tid g) = signal tids (fst (in_session (cancel_task now tid) g))"
    using queue_cancel_state by blast
  then have "row_ids (fst (queue_cancel_task now tid g)) = row_ids (fst (in_session (cancel_task now tid) g))" by (simp add: row_ids_def)
  moreover have "set (map task_id (tasks (fst (cancel_task now tid r)))) = set (map task_id (tasks r))" for r
    using rows_evolve_ids [OF evo.cancel_task_rel] by metis
  ultimately show ?thesis using session_ids [of "cancel_task now tid" g] by (simp add: row_ids_def)
qed

lemma took_effect_cancelled:
  assumes "table_ok (gq_repo g)" "queue_cancel_task now tid g = (g', Inr cl)" "cancel_took_effect cl tid"
  shows "\<exists>t. alive g' tid t \<and> status t = Cancelled"
proof -
  define r where "r = (gq_repo g)\<lparr>terminal_events := []\<rparr>"
  have ok: "table_ok r" using assms(1) by (simp add: r_def table_ok_def)
  have sn: "snd (cancel_task now tid r) = Inr cl"
    using assms(2) in_session_snd [of "cancel_task now tid" g] by (auto simp: queue_cancel_task_def r_def split: prod.splits sum.splits)
  have st: "gq_repo g' = gq_repo (fst (in_session (cancel_task now tid) g))"
    using assms(2) by (auto simp: queue_cancel_task_def split: prod.splits sum.splits)
  have ok': "table_ok (gq_repo g')"
    using queue_step_row [OF queue_step.cancel [of g now tid] assms(1)] assms(2) by simp
  obtain t where t: "get_row tid r = Some t" using sn by (auto simp: cancel_task_def split: option.splits)
  have "status t = Queued"
  proof (rule ccontr)
    assume no: "status t \<noteq> Queued"
    have "cl_cancelled cl = []" using sn t no
      by (cases "status t") (auto simp: cancel_task_def dispatch_cancel_def dispatch_cancel_with_def no_lists_def split: prod.splits if_splits option.splits)
    then show False using assms(3) by (simp add: cancel_took_effect_def)
  qed
  then have "get_row tid (fst (cancel_task now tid r)) = Some (cancel_row now ''user'' t)"
    using cancel_task_table [OF ok t, of tid now] t by simp
  then have "get_row tid (gq_repo g') = Some (cancel_row now ''user'' t)"
    using st in_session_row [of tid "cancel_task now tid" g] by (simp add: r_def)
  then show ?thesis using ok' by (simp add: alive_def cancel_row_def)
qed

definition withdrawn :: "string \<Rightarrow> gqueue \<Rightarrow> bool" where
  "withdrawn tid g \<longleftrightarrow> (\<exists>t. alive g tid t \<and> status t = Cancelled)"

lemma withdrawn_steps: "queue_step\<^sup>*\<^sup>* g g' \<Longrightarrow> withdrawn tid g \<Longrightarrow> withdrawn tid g'"
  unfolding withdrawn_def using alive_steps [of g g' tid] by (fastforce simp: row_evolves_def dest: terminal_final)

lemma rollback_effect:
  assumes "rollback_enqueued others down now tids g = (g', rolled, orphaned)" "table_ok (gq_repo g)" "\<And>tid. decent T (others tid)"
  shows "queue_step\<^sup>*\<^sup>* g g' \<and> row_ids g' \<inter> T \<subseteq> row_ids g \<and> mset tids = mset rolled + mset orphaned \<and> (\<forall>tid \<in> set rolled. withdrawn tid g')"
  using assms(1,2)
proof (induction tids arbitrary: g g' rolled orphaned)
  case (Cons tid tids)
  define g1 where "g1 = others tid g"
  obtain g2 res where c: "(if down tid then (g1, Inl OperationalError) else queue_cancel_task now tid g1) = (g2, res)"
    by (cases "if down tid then (g1, Inl OperationalError) else queue_cancel_task now tid g1")
  obtain g3 ro orp where rb: "rollback_enqueued others down now tids g2 = (g3, ro, orp)" by (cases "rollback_enqueued others down now tids g2")
  have s1: "queue_step\<^sup>*\<^sup>* g g1" "row_ids g1 \<inter> T \<subseteq> row_ids g" using assms(3) by (simp_all add: decent_def g1_def)
  have s2: "queue_step\<^sup>*\<^sup>* g1 g2" "row_ids g2 = row_ids g1"
    using c queue_step.cancel [of g1 now tid] cancel_ids [of now tid g1] by (auto split: if_splits)
  have ok: "table_ok (gq_repo g1)" "table_ok (gq_repo g2)"
    using queue_steps_row [OF s1(1) Cons.prems(2)] queue_steps_row [OF s2(1)] by simp_all
  note ih = Cons.IH [OF rb ok(2)]
  have hit: "withdrawn tid g3" if hit: "(case res of Inr cl \<Rightarrow> cancel_took_effect cl tid | Inl _ \<Rightarrow> False)"
  proof -
    obtain cl where "res = Inr cl" "cancel_took_effect cl tid" using hit by (cases res) auto
    then have "withdrawn tid g2" using c took_effect_cancelled [OF ok(1), of now tid g2 cl] by (auto simp: withdrawn_def split: if_splits)
    then show ?thesis using withdrawn_steps ih by blast
  qed
  have "queue_step\<^sup>*\<^sup>* g g3" "row_ids g3 \<inter> T \<subseteq> row_ids g" using s1 s2 ih by (auto intro: rtranclp_trans)
  moreover have "g' = g3" "(rolled, orphaned) = (if (case res of Inr cl \<Rightarrow> cancel_took_effect cl tid | Inl _ \<Rightarrow> False) then (tid # ro, orp) else (ro, tid # orp))"
    using Cons.prems(1) c rb unfolding g1_def by (simp_all add: Let_def split: if_splits)
  ultimately show ?case using ih hit by (auto split: if_splits)
qed simp

lemma attempt_effect:
  assumes "attempt derive project user sp tn b = (g, res)" "decent T (tn_others tn)"
  shows "queue_step\<^sup>*\<^sup>* (bs_queue b) g"
    and "(\<exists>x. res = Some (Inr x) \<and> \<not> er_deduped x \<and> er_task_id x = tn_tid tn \<and> row_ids g \<inter> T \<subseteq> insert (tn_tid tn) (row_ids (bs_queue b)))
      \<or> ((\<forall>x. res = Some (Inr x) \<longrightarrow> er_deduped x) \<and> row_ids g \<inter> T \<subseteq> row_ids (bs_queue b))"
proof -
  define g0 where "g0 = tn_others tn (bs_queue b)"
  have o: "queue_step\<^sup>*\<^sup>* (bs_queue b) g0" "row_ids g0 \<inter> T \<subseteq> row_ids (bs_queue b)" using assms(2) by (simp_all add: decent_def g0_def)
  have "(queue_step\<^sup>*\<^sup>* (bs_queue b) g) \<and> ((\<exists>x. res = Some (Inr x) \<and> \<not> er_deduped x \<and> er_task_id x = tn_tid tn \<and> row_ids g = insert (tn_tid tn) (row_ids g0))
      \<or> ((\<forall>x. res = Some (Inr x) \<longrightarrow> er_deduped x) \<and> row_ids g = row_ids g0))"
  proof (cases "tn_fault tn")
    case None
    obtain r where e: "enqueue_task_only derive (tn_epoch tn) (tn_now tn) (tn_tid tn) project user sp (resolved_dependency sp b) g0 = (g, r)" "res = Some r"
      using assms(1) None by (auto simp: attempt_def g0_def Let_def split: prod.splits)
    show ?thesis using enqueue_only_ids [OF e(1)] o(1) e(2) by (auto intro: rtranclp_trans)
  next
    case (Some f)
    then show ?thesis using assms(1) o by (cases f) (auto simp: attempt_def g0_def)
  qed
  then show "queue_step\<^sup>*\<^sup>* (bs_queue b) g"
    and "(\<exists>x. res = Some (Inr x) \<and> \<not> er_deduped x \<and> er_task_id x = tn_tid tn \<and> row_ids g \<inter> T \<subseteq> insert (tn_tid tn) (row_ids (bs_queue b)))
      \<or> ((\<forall>x. res = Some (Inr x) \<longrightarrow> er_deduped x) \<and> row_ids g \<inter> T \<subseteq> row_ids (bs_queue b))"
    using o(2) by auto
qed

subsection \<open>All or nothing\<close>

text \<open>During an atomic batch: nothing failed yet, and the rows with identifiers of the batch are the ones on record.\<close>

definition atomic_inv :: "string set \<Rightarrow> string set \<Rightarrow> bstate \<Rightarrow> bool" where
  "atomic_inv T R b \<longleftrightarrow> table_ok (gq_repo (bs_queue b)) \<and> bs_failed b = {} \<and> bs_failures b = []
     \<and> row_ids (bs_queue b) \<inter> T \<subseteq> snd ` set (bs_created b) \<and> snd ` set (bs_created b) \<subseteq> T \<and> fst ` set (bs_created b) \<inter> R = {}
     \<and> (\<forall>e \<in> set (bs_enqueued b). \<not> et_deduped e \<longrightarrow> et_task_id e \<in> T)"

text \<open>Every row with an identifier of the batch is accounted for, as withdrawn or as left over.\<close>

definition accounted :: "string set \<Rightarrow> string list \<Rightarrow> string list \<Rightarrow> gqueue \<Rightarrow> bool" where
  "accounted T rolled orphaned g \<longleftrightarrow> row_ids g \<inter> T \<subseteq> set rolled \<union> set orphaned \<and> set rolled \<union> set orphaned \<subseteq> T \<and> (\<forall>tid \<in> set rolled. withdrawn tid g)"

lemma dict_put_new_values:
  assumes "k \<notin> fst ` set d"
  shows "snd ` set (dict_put k v d) = insert v (snd ` set d)" "fst ` set (dict_put k v d) = insert k (fst ` set d)"
  using assms by (induction d) auto

lemma atomic_rollback:
  assumes "atomic_inv T R b" "attempt derive project user sp tn b = (g, res)" "\<forall>x. res \<noteq> Some (Inr x)" "decent T (tn_others tn)"
    "rollback_enqueued others down now (map snd (bs_created b)) g = (g', rolled, orphaned)" "\<And>tid. decent T (others tid)"
  shows "accounted T rolled orphaned g'"
proof -
  have st: "queue_step\<^sup>*\<^sup>* (bs_queue b) g" "row_ids g \<inter> T \<subseteq> row_ids (bs_queue b)" using attempt_effect [OF assms(2,4)] assms(3) by auto
  then have "table_ok (gq_repo g)" using queue_steps_row assms(1) by (auto simp: atomic_inv_def)
  from rollback_effect [OF assms(5) this assms(6)] have rb: "row_ids g' \<inter> T \<subseteq> row_ids g" "mset (map snd (bs_created b)) = mset rolled + mset orphaned"
    "\<forall>tid \<in> set rolled. withdrawn tid g'" by auto
  have "set rolled \<union> set orphaned = snd ` set (bs_created b)" using rb(2) by (metis list.set_map set_mset_mset set_mset_union)
  then show ?thesis using rb(1,3) st(2) assms(1) by (auto simp: accounted_def atomic_inv_def)
qed

lemma atomic_record:
  assumes "atomic_inv T (insert rid R) b" "attempt derive project user sp tn b = (g, Some (Inr x))" "decent T (tn_others tn)"
    "tn_tid tn \<in> T" "rid \<notin> R"
  shows "atomic_inv T R (record_enqueued rid x (b\<lparr>bs_queue := g\<rparr>))"
proof -
  have ok: "table_ok (gq_repo g)" using queue_steps_row attempt_effect(1) [OF assms(2,3)] assms(1) by (auto simp: atomic_inv_def)
  have fresh: "rid \<notin> fst ` set (bs_created b)" using assms(1) by (auto simp: atomic_inv_def)
  show ?thesis
  proof (cases "er_deduped x")
    case True
    then have "row_ids g \<inter> T \<subseteq> row_ids (bs_queue b)" using attempt_effect(2) [OF assms(2,3)] by auto
    then show ?thesis using True ok assms(1) by (auto simp: atomic_inv_def record_enqueued_def)
  next
    case False
    then have "er_task_id x = tn_tid tn" "row_ids g \<inter> T \<subseteq> insert (tn_tid tn) (row_ids (bs_queue b))" using attempt_effect(2) [OF assms(2,3)] by auto
    then show ?thesis using False ok assms(1,4,5) dict_put_new_values [OF fresh, of "tn_tid tn"]
      by (auto simp: atomic_inv_def record_enqueued_def)
  qed
qed

abbreviation rid_of :: "task_spec \<times> turn \<Rightarrow> string" where
  "rid_of st \<equiv> sp_resource_id (fst st)"

lemma enqueue_loop_atomic:
  assumes "atomic_inv T (set (map rid_of specs)) b" "distinct (map rid_of specs)"
    "\<forall>st \<in> set specs. decent T (tn_others (snd st)) \<and> tn_tid (snd st) \<in> T" "\<And>tid. decent T (others tid)"
  shows "case enqueue_loop derive str_exc (rollback_enqueued others down now) project user True specs b of
      Batch_done b' \<Rightarrow> atomic_inv T {} b' \<and> map et_resource_id (bs_enqueued b') = map et_resource_id (bs_enqueued b) @ map rid_of specs
    | Batch_cancelled g' \<Rightarrow> \<exists>rolled orphaned. accounted T rolled orphaned g'
    | Batch_aborted rid err rolled orphaned g' \<Rightarrow> accounted T rolled orphaned g'"
  using assms(1-3)
proof (induction specs arbitrary: b)
  case (Cons st specs)
  obtain sp tn where st: "st = (sp, tn)" by (cases st)
  have free: "\<not> blocked_by_failure sp b" using Cons.prems(1) by (auto simp: blocked_by_failure_def atomic_inv_def split: option.split)
  have d: "decent T (tn_others tn)" "tn_tid tn \<in> T" using Cons.prems(3) by (auto simp: st)
  obtain g res where a: "attempt derive project user sp tn b = (g, res)" by (cases "attempt derive project user sp tn b")
  have rb: "accounted T ro orp g'" if "rollback_enqueued others down now (map snd (bs_created b)) g = (g', ro, orp)" "\<forall>x. res \<noteq> Some (Inr x)" for g' ro orp
    by (rule atomic_rollback [OF Cons.prems(1) a that(2) d(1) that(1) assms(4)])
  consider (cancelled) "res = None" | (failed) e where "res = Some (Inl e)" | (ok) x where "res = Some (Inr x)"
    by (metis option.exhaust sum.exhaust)
  then show ?case
  proof cases
    case cancelled
    show ?thesis
    proof (cases "bs_created b = []")
      case True
      then have "accounted T [] [] g"
        using atomic_rollback [OF Cons.prems(1) a _ d(1), of "\<lambda>_. id" down now g "[]" "[]"] cancelled by (simp add: decent_def)
      then show ?thesis using True st free a cancelled by auto
    next
      case False
      then show ?thesis using st free a cancelled rb
        by (cases "rollback_enqueued others down now (map snd (bs_created b)) g") auto
    qed
  next
    case (failed e)
    then show ?thesis using st free a rb
      by (cases "rollback_enqueued others down now (map snd (bs_created b)) g") auto
  next
    case (ok x)
    have "atomic_inv T (set (map rid_of specs)) (record_enqueued (sp_resource_id sp) x (b\<lparr>bs_queue := g\<rparr>))"
      by (rule atomic_record [OF _ a [unfolded ok] d]) (use Cons.prems(1,2) st in auto)
    note ih = Cons.IH [OF this]
    have "map et_resource_id (bs_enqueued (record_enqueued (sp_resource_id sp) x (b\<lparr>bs_queue := g\<rparr>))) = map et_resource_id (bs_enqueued b) @ [rid_of st]"
      by (simp add: record_enqueued_def st)
    then show ?thesis using ih Cons.prems(2,3) st free a ok by (simp split: batch_exit.splits)
  qed
qed (simp add: atomic_inv_def)


definition demo_spec :: "string \<Rightarrow> string option \<Rightarrow> task_spec" where
  "demo_spec rid dep = \<lparr>sp_task_type = ''storyboard'', sp_media_type = ''image'', sp_resource_id = rid, sp_payload = None, sp_script_file = None,
     sp_source = ''skill'', sp_dependency_resource_id = dep, sp_dependency_group = None, sp_dependency_index = None\<rparr>"

definition demo_turn :: "string \<Rightarrow> fault option \<Rightarrow> turn" where
  "demo_turn tid f = \<lparr>tn_others = id, tn_epoch = 0, tn_now = 1, tn_tid = tid, tn_fault = f\<rparr>"

definition demo_online :: gqueue where
  "demo_online = fresh_queue\<lparr>gq_repo := \<lparr>tasks = [], worker_leases = [\<lparr>lease_name = ''default'', lease_owner = ''w'', lease_until = 9,
     lease_updated_at = 0\<rparr>], terminal_events = []\<rparr>\<rparr>"


subsection \<open>Every request is answered\<close>

lemma enqueue_loop_accounts:
  assumes "enqueue_loop derive str_exc rb project user atomic specs b = Batch_done b'" "\<forall>r \<in> set (bs_failures b). bt_status r = ''failed'' \<and> bt_task_id r = []"
  shows "mset (map et_resource_id (bs_enqueued b')) + mset (map bt_resource_id (bs_failures b')) =
      mset (map et_resource_id (bs_enqueued b)) + mset (map bt_resource_id (bs_failures b)) + mset (map rid_of specs)
    \<and> (\<forall>r \<in> set (bs_failures b'). bt_status r = ''failed'' \<and> bt_task_id r = [])"
  using assms
proof (induction specs arbitrary: b)
  case (Cons st specs)
  obtain sp tn where st: "st = (sp, tn)" by (cases st)
  obtain g res where a: "attempt derive project user sp tn b = (g, res)" by (cases "attempt derive project user sp tn b")
  note rec_defs = record_failure_of_def record_enqueued_def failed_result_def
  have step: "\<exists>b1. enqueue_loop derive str_exc rb project user atomic specs b1 = Batch_done b'
      \<and> (\<forall>r \<in> set (bs_failures b1). bt_status r = ''failed'' \<and> bt_task_id r = [])
      \<and> mset (map et_resource_id (bs_enqueued b1)) + mset (map bt_resource_id (bs_failures b1)) =
        mset (map et_resource_id (bs_enqueued b)) + mset (map bt_resource_id (bs_failures b)) + {#sp_resource_id sp#}"
  proof (cases "blocked_by_failure sp b")
    case True
    then show ?thesis using Cons.prems st
      by (intro exI [of _ "record_failure_of (sp_resource_id sp) (''dependency '' @ the (sp_dependency_resource_id sp) @ '' failed to enqueue'') b"])
        (auto simp: rec_defs)
  next
    case False
    consider (bad) e where "res = Some (Inl e)" "\<not> atomic" | (ok) x where "res = Some (Inr x)"
      using Cons.prems(1) st False a by (auto split: option.splits sum.splits if_splits prod.splits)
    then show ?thesis
    proof cases
      case (bad e)
      then show ?thesis using Cons.prems st False a
        by (intro exI [of _ "record_failure_of (sp_resource_id sp) (str_exc e) (b\<lparr>bs_queue := g\<rparr>)"]) (auto simp: rec_defs)
    next
      case (ok x)
      then show ?thesis using Cons.prems st False a
        by (intro exI [of _ "record_enqueued (sp_resource_id sp) x (b\<lparr>bs_queue := g\<rparr>)"]) (auto simp: rec_defs)
    qed
  qed
  then obtain b1 where b1: "enqueue_loop derive str_exc rb project user atomic specs b1 = Batch_done b'"
    "\<forall>r \<in> set (bs_failures b1). bt_status r = ''failed'' \<and> bt_task_id r = []"
    "mset (map et_resource_id (bs_enqueued b1)) + mset (map bt_resource_id (bs_failures b1)) =
        mset (map et_resource_id (bs_enqueued b)) + mset (map bt_resource_id (bs_failures b)) + {#sp_resource_id sp#}" by (elim exE conjE)
  show ?case using Cons.IH [OF b1(1,2)] b1(3) by (simp add: st)
qed simp

lemma enqueued_keys: "fst ` set (fold (\<lambda>e d. dict_put (et_resource_id e) (et_task_id e) d) es d) = fst ` set d \<union> et_resource_id ` set es"
  by (induction es arbitrary: d) (auto simp: dom_update)

lemma wait_one_facts:
  "bt_resource_id (wait_one dump str_wait wait tids sp) = sp_resource_id sp"
  "bt_task_id (wait_one dump str_wait wait tids sp) = the (dict_get tids (sp_resource_id sp))"
  by (auto simp: wait_one_def task_result_from_finished_def Let_def split: sum.split)

text \<open>What a result says about the task it was read from.\<close>

definition result_true :: "(string \<Rightarrow> wait_error + task_dict) \<Rightarrow> batch_task_result \<Rightarrow> bool" where
  "result_true wait r \<longleftrightarrow>
     (case wait (bt_task_id r) of
        Inr d \<Rightarrow> bt_status r = (if status (td_row d) = Failed then ''failed'' else if status (td_row d) = Cancelled then ''cancelled'' else ''succeeded'')
      | Inl e \<Rightarrow> bt_status r = (if e = TaskNotFound then ''failed'' else ''interrupted''))"

lemma wait_one_true: "result_true wait (wait_one dump str_wait wait tids sp)"
proof -
  have "e = TaskNotFound \<or> is_interrupted_wait_error e" for e by (cases e) (simp_all add: is_interrupted_wait_error_def)
  then show ?thesis
    by (auto simp: result_true_def wait_one_def task_result_from_finished_def Let_def is_interrupted_wait_error_def split: sum.split)
qed

lemma mset_split_status: "image_mset f (mset (filter P xs)) + image_mset f (mset (filter (\<lambda>x. \<not> P x) xs)) = image_mset f (mset xs)"
  by (induction xs) auto

text \<open>
  Every request of a batch is answered exactly once. When the batch returns, the successes and failures
  together name each requested resource once. A success is a task that was waited for and did not
  fail; a request that never reached the queue is a failure without task; for every other answer
  the status is that of the row the wait returned, and a wait that was cut short is reported as
  interrupted and never as failed.
\<close>

theorem batch_answers_every_request:
  assumes "batch_enqueue_and_wait derive str_exc rb dump str_wait wait project user atomic specs g = Inr (successes, failures)"
    "distinct (map rid_of specs)"
  shows "mset (map bt_resource_id (successes @ failures)) = mset (map rid_of specs)
    \<and> (\<forall>r \<in> set successes. bt_status r = ''succeeded'' \<and> result_true wait r)
    \<and> (\<forall>r \<in> set failures. bt_status r \<noteq> ''succeeded'' \<and> (result_true wait r \<or> bt_status r = ''failed'' \<and> bt_task_id r = []))"
proof (cases "specs = []")
  case False
  then obtain b where b: "enqueue_loop derive str_exc rb project user atomic specs (fresh_batch g) = Batch_done b"
    "gather_results dump str_wait wait (map fst specs) b = (successes, failures)"
    using assms(1) by (auto simp: batch_enqueue_and_wait_def enqueue_sequentially_def split: batch_exit.splits)
  have acc: "mset (map et_resource_id (bs_enqueued b)) + mset (map bt_resource_id (bs_failures b)) = mset (map rid_of specs)"
    and failed: "\<forall>r \<in> set (bs_failures b). bt_status r = ''failed'' \<and> bt_task_id r = []"
    using enqueue_loop_accounts [OF b(1)] by (simp_all add: fresh_batch_def)
  define tids where "tids = fold (\<lambda>e d. dict_put (et_resource_id e) (et_task_id e) d) (bs_enqueued b) []"
  define rs where "rs = map (wait_one dump str_wait wait tids) (filter (\<lambda>sp. dict_get tids (sp_resource_id sp) \<noteq> None) (map fst specs))"
  have sf: "successes = filter (\<lambda>r. bt_status r = ''succeeded'') rs" "failures = filter (\<lambda>r. bt_status r \<noteq> ''succeeded'') rs @ bs_failures b"
    using b(2) by (simp_all add: gather_results_def tids_def rs_def Let_def)
  have key: "dict_get tids k \<noteq> None \<longleftrightarrow> k \<in> set (map et_resource_id (bs_enqueued b))" for k
    using enqueued_keys [of "bs_enqueued b" "[]"] by (simp add: tids_def map_of_eq_None_iff)
  have "map bt_resource_id rs = filter (\<lambda>k. k \<in> set (map et_resource_id (bs_enqueued b))) (map rid_of specs)"
    unfolding rs_def key by (simp add: wait_one_facts filter_map comp_def del: set_map)
  then have "mset (map bt_resource_id rs) = filter_mset (\<lambda>k. k \<in> set (map et_resource_id (bs_enqueued b)))
      (mset (map et_resource_id (bs_enqueued b)) + mset (map bt_resource_id (bs_failures b)))"
    unfolding acc by (simp only: mset_filter)
  moreover have "distinct (map et_resource_id (bs_enqueued b) @ map bt_resource_id (bs_failures b))"
    using assms(2) acc by (metis mset_append mset_eq_imp_distinct_iff)
  then have "filter_mset (\<lambda>k. k \<in> set (map et_resource_id (bs_enqueued b))) (mset (map bt_resource_id (bs_failures b))) = {#}"
    by (intro multiset_eqI) (auto simp: disjoint_iff count_eq_zero_iff)
  moreover have "filter_mset (\<lambda>k. k \<in> set (map et_resource_id (bs_enqueued b))) (mset (map et_resource_id (bs_enqueued b))) = mset (map et_resource_id (bs_enqueued b))"
    by (simp add: filter_mset_eq_conv)
  ultimately have "mset (map bt_resource_id rs) = mset (map et_resource_id (bs_enqueued b))" by (simp only: filter_union_mset add_0_right)
  then have "mset (map bt_resource_id (successes @ failures)) = mset (map rid_of specs)"
    using acc mset_split_status [of bt_resource_id "\<lambda>r. bt_status r = ''succeeded''" rs] by (simp add: sf add.assoc [symmetric])
  then show ?thesis using failed wait_one_true [of wait dump str_wait tids] by (auto simp: sf rs_def)
qed (use assms in \<open>simp add: batch_enqueue_and_wait_def\<close>)

theorem batch_answers_every_request_witness:
  "case batch_enqueue_and_wait (\<lambda>_. None) (\<lambda>_. ''down'') (rollback_enqueued (\<lambda>_. id) (\<lambda>_. False) 2) (\<lambda>_. []) (\<lambda>_. ''lost'') (\<lambda>_. Inl TaskWaitTimeout)
      ''p'' ''u'' False [(demo_spec ''a'' None, demo_turn ''t1'' (Some (Fails_with OperationalError)))] demo_online of
      Inl _ \<Rightarrow> False
    | Inr (successes, failures) \<Rightarrow> mset (map bt_resource_id (successes @ failures)) = {#''a''#}"
proof -
  define out where "out = batch_enqueue_and_wait (\<lambda>_. None) (\<lambda>_. ''down'') (rollback_enqueued (\<lambda>_. id) (\<lambda>_. False) 2) (\<lambda>_. []) (\<lambda>_. ''lost'')
    (\<lambda>_. Inl TaskWaitTimeout) ''p'' ''u'' False [(demo_spec ''a'' None, demo_turn ''t1'' (Some (Fails_with OperationalError)))] demo_online"
  have "\<exists>p. out = Inr p"
    by (simp add: out_def batch_enqueue_and_wait_def enqueue_sequentially_def attempt_def demo_spec_def demo_turn_def blocked_by_failure_def)
  then obtain su fa where out: "out = Inr (su, fa)" by (metis prod.collapse)
  then have "mset (map bt_resource_id (su @ fa)) = mset (map rid_of [(demo_spec ''a'' None, demo_turn ''t1'' (Some (Fails_with OperationalError)))])"
    using batch_answers_every_request [OF out [unfolded out_def]] by simp
  then show ?thesis unfolding out_def [symmetric] out by (simp add: demo_spec_def)
qed

subsection \<open>Dependencies\<close>

lemma enqueue_dependency:
  assumes "snd (enqueue now tid q r) = Inr x" "\<not> er_deduped x"
  shows "get_row tid (fst (enqueue now tid q r)) = Some (new_task now tid q) \<and> er_task_id x = tid"
proof -
  have new: "\<not> insert_violates (new_task now tid q) r"
    using assms by (auto simp: enqueue_def Let_def split: if_splits list.splits)
  then have "get_row tid r = None" by (auto simp: insert_violates_def get_row_def find_None_iff list_ex_iff new_task_def)
  moreover have "find P (xs @ ys) = (case find P xs of None \<Rightarrow> find P ys | Some v \<Rightarrow> Some v)" for P and xs ys :: "task list"
    by (induction xs) auto
  ultimately show ?thesis using assms new by (auto simp: enqueue_def Let_def get_row_def new_task_def split: if_splits)
qed

lemma enqueue_task_dependency:
  assumes "enqueue_task derive now tid q g = (g', Inr x)" "\<not> er_deduped x"
  shows "\<exists>t. get_row (er_task_id x) (gq_repo g') = Some t \<and> dependency_task_id t = rq_dependency_task_id q"
proof -
  define q2 where "q2 = (let q1 = q\<lparr>rq_payload := requested_payload q\<rparr> in
    case rq_provider_id q of Some p \<Rightarrow> q1 | None \<Rightarrow> q1\<lparr>rq_provider_id := derive q1\<rparr>)"
  obtain y where y: "snd (in_session (enqueue now tid q2) g) = Inr y" "\<not> er_deduped y" "er_task_id x = er_task_id y" "fst (in_session (enqueue now tid q2) g) = g'"
    using assms by (auto simp: enqueue_task_def q2_def Let_def split: sum.splits if_splits prod.splits)
  then have "get_row (er_task_id x) (gq_repo g') = Some (new_task now tid q2)"
    using enqueue_dependency [of now tid q2 "(gq_repo g)\<lparr>terminal_events := []\<rparr>" y] in_session_snd [of "enqueue now tid q2" g]
      in_session_row [of "er_task_id x" "enqueue now tid q2" g] by simp
  then show ?thesis by (simp add: new_task_def q2_def Let_def split: option.split)
qed

lemma attempt_dependency:
  assumes "attempt derive project user sp tn b = (g, Some (Inr x))" "\<not> er_deduped x" "decent T (tn_others tn)" "table_ok (gq_repo (bs_queue b))"
  shows "\<exists>t. alive g (er_task_id x) t \<and> dependency_task_id t = resolved_dependency sp b"
proof -
  define g0 where "g0 = tn_others tn (bs_queue b)"
  have "enqueue_task_only derive (tn_epoch tn) (tn_now tn) (tn_tid tn) project user sp (resolved_dependency sp b) g0 = (g, Inr x)"
    using assms(1) by (auto simp: attempt_def g0_def Let_def split: option.splits fault.splits prod.splits)
  then have "enqueue_task derive (tn_now tn) (tn_tid tn) (spec_request project user sp (resolved_dependency sp b)) g0 = (g, Inr x)"
    by (auto simp: enqueue_task_only_def split: if_splits prod.splits sum.splits)
  from enqueue_task_dependency [OF this assms(2)] show ?thesis
    using queue_steps_row [OF attempt_effect(1) [OF assms(1,3)] assms(4)] by (auto simp: alive_def spec_request_def)
qed

text \<open>The requests already handled: each failed, or is on record; if its row was created here it waits for the
  task on record for its dependency.\<close>

definition linked :: "bstate \<Rightarrow> task_spec \<Rightarrow> bool" where
  "linked b sp \<longleftrightarrow> sp_resource_id sp \<in> bs_failed b
     \<or> (\<exists>tid. dict_get (bs_task_ids b) (sp_resource_id sp) = Some tid
          \<and> \<not> blocked_by_failure sp b
          \<and> (dict_get (bs_created b) (sp_resource_id sp) \<noteq> None \<longrightarrow>
               (\<exists>t. alive (bs_queue b) tid t \<and> dependency_task_id t = resolved_dependency sp b)))"

definition backwards :: "task_spec list \<Rightarrow> bool" where
  "backwards specs \<longleftrightarrow> (\<forall>i < length specs. \<forall>d. sp_dependency_resource_id (specs ! i) = Some d \<and> d \<noteq> []
     \<longrightarrow> d \<in> sp_resource_id ` set (take i specs))"

lemma backwards_prefix:
  assumes "backwards (xs @ ys)"
  shows "backwards xs"
  unfolding backwards_def
proof (intro allI impI)
  fix i d assume i: "i < length xs" and d: "sp_dependency_resource_id (xs ! i) = Some d \<and> d \<noteq> []"
  have "i < length (xs @ ys)" "(xs @ ys) ! i = xs ! i" "take i (xs @ ys) = take i xs" using i by (simp_all add: nth_append)
  then show "d \<in> sp_resource_id ` set (take i xs)" using assms d unfolding backwards_def by metis
qed

lemma blocked_enqueued [simp]: "blocked_by_failure sp (record_enqueued rid x (b\<lparr>bs_queue := g\<rparr>)) = blocked_by_failure sp b"
  by (simp add: blocked_by_failure_def record_enqueued_def split: option.split)

lemma linked_frame:
  assumes "linked b sp" "queue_step\<^sup>*\<^sup>* (bs_queue b) g" "rid \<noteq> sp_resource_id sp" "sp_dependency_resource_id sp = Some rid \<longrightarrow> rid = []"
  shows "linked (record_enqueued rid x (b\<lparr>bs_queue := g\<rparr>)) sp" "linked (record_failure_of rid err (b\<lparr>bs_queue := g\<rparr>)) sp"
proof -
  have dep: "dependency_task_id t' = dependency_task_id t" if "row_evolves t t'" for t t'
    using that by (simp add: row_evolves_def row_identity_def)
  have "resolved_dependency sp (record_enqueued rid x (b\<lparr>bs_queue := g\<rparr>)) = resolved_dependency sp b"
    "resolved_dependency sp (record_failure_of rid err (b\<lparr>bs_queue := g\<rparr>)) = resolved_dependency sp b"
    using assms(4) by (auto simp: resolved_dependency_def record_enqueued_def record_failure_of_def dict_get_put split: option.split)
  moreover have "blocked_by_failure sp (record_failure_of rid err (b\<lparr>bs_queue := g\<rparr>)) = blocked_by_failure sp b"
    using assms(4) by (auto simp: blocked_by_failure_def record_failure_of_def split: option.split)
  moreover have "\<exists>t. alive g tid t \<and> dependency_task_id t = v" if "\<exists>t. alive (bs_queue b) tid t \<and> dependency_task_id t = v" for tid v
    using that alive_steps [OF assms(2)] dep by metis
  ultimately show "linked (record_enqueued rid x (b\<lparr>bs_queue := g\<rparr>)) sp" "linked (record_failure_of rid err (b\<lparr>bs_queue := g\<rparr>)) sp"
    using assms(1,3) unfolding linked_def blocked_enqueued by (auto simp: record_enqueued_def record_failure_of_def dict_get_put)
qed

lemma linked_self:
  assumes "attempt derive project user sp tn b = (g, Some (Inr x))" "decent T (tn_others tn)" "table_ok (gq_repo (bs_queue b))"
    "sp_dependency_resource_id sp = Some (sp_resource_id sp) \<longrightarrow> sp_resource_id sp = []" "dict_get (bs_created b) (sp_resource_id sp) = None"
    "\<not> blocked_by_failure sp b"
  shows "linked (record_enqueued (sp_resource_id sp) x (b\<lparr>bs_queue := g\<rparr>)) sp"
proof -
  have "resolved_dependency sp (record_enqueued (sp_resource_id sp) x (b\<lparr>bs_queue := g\<rparr>)) = resolved_dependency sp b"
    using assms(4) by (auto simp: resolved_dependency_def record_enqueued_def dict_get_put split: option.split)
  then show ?thesis using attempt_dependency [OF assms(1) _ assms(2,3)] assms(5,6) unfolding linked_def blocked_enqueued
    by (auto simp: record_enqueued_def dict_get_put)
qed

text \<open>The state of the loop after the requests \<open>ds\<close>.\<close>

definition chain_inv :: "task_spec list \<Rightarrow> bstate \<Rightarrow> bool" where
  "chain_inv ds b \<longleftrightarrow> table_ok (gq_repo (bs_queue b)) \<and> (\<forall>sp \<in> set ds. linked b sp) \<and> fst ` set (bs_created b) \<subseteq> sp_resource_id ` set ds"

lemma created_keys:
  "fst ` set (bs_created (record_enqueued rid x b)) \<subseteq> insert rid (fst ` set (bs_created b))"
  "bs_created (record_failure_of rid err b) = bs_created b"
  "bs_queue (record_enqueued rid x b) = bs_queue b" "bs_queue (record_failure_of rid err b) = bs_queue b"
  by (auto simp: record_enqueued_def record_failure_of_def dom_update)

lemma chain_step:
  assumes "chain_inv ds b" "distinct (map sp_resource_id (ds @ [sp]))" "backwards (ds @ [sp])" "queue_step\<^sup>*\<^sup>* (bs_queue b) g"
  shows "chain_inv (ds @ [sp]) (record_failure_of (sp_resource_id sp) err (b\<lparr>bs_queue := g\<rparr>))"
    and "attempt derive project user sp tn b = (g, Some (Inr x)) \<Longrightarrow> decent T (tn_others tn) \<Longrightarrow> \<not> blocked_by_failure sp b \<Longrightarrow>
      chain_inv (ds @ [sp]) (record_enqueued (sp_resource_id sp) x (b\<lparr>bs_queue := g\<rparr>))"
proof -
  let ?rid = "sp_resource_id sp"
  have ok: "table_ok (gq_repo g)" using queue_steps_row [OF assms(4)] assms(1) by (simp add: chain_inv_def)
  have new: "?rid \<notin> sp_resource_id ` set ds" using assms(2) by auto
  have deps: "d \<in> sp_resource_id ` set ds" if at: "sp' \<in> set (ds @ [sp])" and d: "sp_dependency_resource_id sp' = Some d" "d \<noteq> []" for sp' d
  proof -
    obtain i where i: "i < length (ds @ [sp])" "(ds @ [sp]) ! i = sp'" using at by (metis in_set_conv_nth)
    then have "d \<in> sp_resource_id ` set (take i (ds @ [sp]))" using assms(3) d unfolding backwards_def by metis
    moreover have "set (take i (ds @ [sp])) \<subseteq> set ds" using i(1) by (auto dest: in_set_takeD)
    ultimately show ?thesis by blast
  qed
  have other: "sp_dependency_resource_id sp' = Some ?rid \<longrightarrow> ?rid = []" if "sp' \<in> set (ds @ [sp])" for sp' using deps [OF that] new by blast
  have keep: "linked (record_enqueued ?rid y (b\<lparr>bs_queue := g\<rparr>)) sp'" "linked (record_failure_of ?rid er (b\<lparr>bs_queue := g\<rparr>)) sp'" if "sp' \<in> set ds" for sp' y er
  proof -
    have "linked b sp'" "?rid \<noteq> sp_resource_id sp'" using that assms(1) new by (auto simp: chain_inv_def)
    from linked_frame [OF this(1) assms(4) this(2)] other [of sp'] that
    show "linked (record_enqueued ?rid y (b\<lparr>bs_queue := g\<rparr>)) sp'" "linked (record_failure_of ?rid er (b\<lparr>bs_queue := g\<rparr>)) sp'" by simp_all
  qed
  have sub: "fst ` set (bs_created b) \<subseteq> sp_resource_id ` set ds" using assms(1) by (simp add: chain_inv_def)
  have "linked (record_failure_of ?rid err (b\<lparr>bs_queue := g\<rparr>)) sp" by (simp add: linked_def record_failure_of_def)
  then show "chain_inv (ds @ [sp]) (record_failure_of ?rid err (b\<lparr>bs_queue := g\<rparr>))"
    unfolding chain_inv_def using ok keep(2) sub by (simp add: created_keys subset_insertI2)
  show "chain_inv (ds @ [sp]) (record_enqueued ?rid x (b\<lparr>bs_queue := g\<rparr>))" if "attempt derive project user sp tn b = (g, Some (Inr x))" "decent T (tn_others tn)" "\<not> blocked_by_failure sp b"
  proof -
    have "dict_get (bs_created b) ?rid = None" using sub new by (auto simp: map_of_eq_None_iff)
    then have "linked (record_enqueued ?rid x (b\<lparr>bs_queue := g\<rparr>)) sp"
      using linked_self [OF that(1,2)] that(3) assms(1) other [of sp] by (simp add: chain_inv_def)
    moreover have "fst ` set (bs_created (record_enqueued ?rid x (b\<lparr>bs_queue := g\<rparr>))) \<subseteq> sp_resource_id ` set (ds @ [sp])"
      using created_keys(1) [of ?rid x "b\<lparr>bs_queue := g\<rparr>"] sub by auto
    ultimately show ?thesis unfolding chain_inv_def using ok keep(1) by (simp add: created_keys)
  qed
qed

lemma enqueue_loop_linked:
  assumes "enqueue_loop derive str_exc rb project user atomic specs b = Batch_done b'" "chain_inv ds b"
    "distinct (map sp_resource_id (ds @ map fst specs))" "backwards (ds @ map fst specs)" "\<forall>st \<in> set specs. decent T (tn_others (snd st))"
  shows "chain_inv (ds @ map fst specs) b'"
  using assms
proof (induction specs arbitrary: b ds)
  case (Cons st specs)
  obtain sp tn where st: "st = (sp, tn)" by (cases st)
  obtain g res where a: "attempt derive project user sp tn b = (g, res)" by (cases "attempt derive project user sp tn b")
  have pre: "distinct (map sp_resource_id (ds @ [sp]))" "backwards (ds @ [sp])" "decent T (tn_others tn)"
    using Cons.prems(3,5) backwards_prefix [of "ds @ [sp]" "map fst specs"] Cons.prems(4) by (auto simp: st)
  have "\<exists>b1. chain_inv (ds @ [sp]) b1 \<and> enqueue_loop derive str_exc rb project user atomic specs b1 = Batch_done b'"
  proof (cases "blocked_by_failure sp b")
    case True
    then show ?thesis using chain_step(1) [OF Cons.prems(2) pre(1,2) rtranclp.rtrancl_refl] Cons.prems(1) by (auto simp: st)
  next
    case False
    note st1 = attempt_effect(1) [OF a pre(3)]
    consider (bad) e where "res = Some (Inl e)" "\<not> atomic" | (good) x where "res = Some (Inr x)"
      using Cons.prems(1) False a by (auto simp: st split: option.splits sum.splits if_splits prod.splits)
    then show ?thesis
    proof cases
      case (bad e)
      then show ?thesis using chain_step(1) [OF Cons.prems(2) pre(1,2) st1] Cons.prems(1) False a by (auto simp: st)
    next
      case (good x)
      then show ?thesis using chain_step(2) [OF Cons.prems(2) pre(1,2) st1 a [unfolded good] pre(3) False] Cons.prems(1) False a by (auto simp: st)
    qed
  qed
  then obtain b1 where b1: "chain_inv (ds @ [sp]) b1" "enqueue_loop derive str_exc rb project user atomic specs b1 = Batch_done b'" by blast
  from Cons.IH [OF b1(2,1)] Cons.prems(3-5) show ?case by (simp add: st)
qed simp

lemma from_request_fields:
  "from_request ttype media rid prompt script src extra dep grp idx = Inr sp \<Longrightarrow> sp_resource_id sp = rid \<and> sp_dependency_resource_id sp = dep"
  by (auto simp: from_request_def Let_def split: if_splits option.splits)

lemma storyboard_specs_fields:
  "storyboard_specs prompt_of script ps = Inr sps \<Longrightarrow>
     map sp_resource_id sps = map pl_resource_id ps \<and> map sp_dependency_resource_id sps = map pl_dependency_resource_id ps"
proof (induction ps arbitrary: sps)
  case (Cons p ps)
  then show ?case by (auto simp: storyboard_spec_def split: sum.splits dest!: from_request_fields)
qed simp

lemma plan_dependency:
  assumes "ps = build_storyboard_dependency_plan py_str items id_field selected script" "i < length ps" "pl_dependency_resource_id (ps ! i) = Some d"
  shows "0 < i \<and> pl_resource_id (ps ! (i - 1)) = d" "\<exists>q \<in> set ps. pl_resource_id q = d \<and> d \<noteq> []"
proof -
  have ps: "ps = plan_loop py_str id_field (set selected) script items [] 0 0"
    using assms(1,2) by (auto simp: build_storyboard_dependency_plan_def split: if_splits)
  show prev: "0 < i \<and> pl_resource_id (ps ! (i - 1)) = d"
    using plan_loop_chain [of i py_str id_field "set selected" script items "[]" 0 0] assms(2,3) unfolding ps [symmetric]
    by (cases i) (auto simp: Let_def)
  then have "ps ! (i - 1) \<in> set ps" using assms(2) by simp
  moreover have "pl_resource_id q \<noteq> []" if "q \<in> set ps" for q
    using that plan_loop_ids [of py_str id_field "set selected" script items "[]" 0 0] unfolding ps [symmetric]
    by (metis (mono_tags, lifting) filter_set image_eqI list.set_map mem_Collect_eq set_filter)
  ultimately show "\<exists>q \<in> set ps. pl_resource_id q = d \<and> d \<noteq> []" using prev by blast
qed

lemma plan_backwards:
  assumes "ps = build_storyboard_dependency_plan py_str items id_field selected script"
    "map sp_resource_id sps = map pl_resource_id ps" "map sp_dependency_resource_id sps = map pl_dependency_resource_id ps"
  shows "backwards sps"
  unfolding backwards_def
proof (intro allI impI)
  fix i d assume i: "i < length sps" and d: "sp_dependency_resource_id (sps ! i) = Some d \<and> d \<noteq> []"
  have len: "length sps = length ps" using assms(2) by (metis length_map)
  have "pl_dependency_resource_id (ps ! i) = Some d" using d i assms(3) len by (metis nth_map)
  then have prev: "0 < i" "pl_resource_id (ps ! (i - 1)) = d" using plan_dependency(1) [OF assms(1)] i len by simp_all
  then have "sp_resource_id (sps ! (i - 1)) = d" using assms(2) i len by (metis less_imp_diff_less nth_map)
  moreover have "sps ! (i - 1) \<in> set (take i sps)" using i prev(1) by (auto simp: in_set_conv_nth intro!: exI [of _ "i - 1"])
  ultimately show "d \<in> sp_resource_id ` set (take i sps)" by (metis image_eqI)
qed



text \<open>
  The tasks to withdraw are kept by resource: of two created tasks with the same resource only the later
  one is withdrawn when the batch is abandoned, and the other stays queued.
\<close>

lemma rollback_misses_shared_resource:
  "case enqueue_sequentially (\<lambda>_. None) (\<lambda>_. ''down'') (rollback_enqueued (\<lambda>_. id) (\<lambda>_. False) 2) ''p'' ''u'' True
      [(demo_spec ''a'' None, demo_turn ''t1'' None), ((demo_spec ''a'' None)\<lparr>sp_task_type := ''video''\<rparr>, demo_turn ''t2'' None),
       (demo_spec ''b'' None, demo_turn ''t3'' (Some (Fails_with OperationalError)))] demo_online of
      Batch_aborted rid err rolled orphaned g \<Rightarrow> rolled = [''t2''] \<and> orphaned = [] \<and> map_option status (get_row ''t1'' (gq_repo g)) = Some Queued
    | _ \<Rightarrow> False"
  by code_simp

end
