(* ===== verification/Spec2Isabelle.thy ===== *)
theory Spec2Isabelle
  imports AccessPolicy ScriptBatch EpisodeReset Worker Credentials SseChannel Retry GridLayout Admission PrefixFork Usage QueueClient
begin

text \<open>
  ArcReel turns a novel, a script or product material into short videos. Its server is written in
  Python: projects and their assets are JSON documents, every image, video or narration is
  produced by a task in a database queue, a background worker runs the tasks against providers,
  and an agent drives the whole from recorded conversations. This development models the core of
  that server, \<open>lib/\<close> and \<open>server/\<close>, and proves it correct.

  \<^bold>\<open>The parts and their theories.\<close>

  \<^item> Shared layer. \<open>Prelude\<close> (results of fallible code as \<open>py_error + 'a\<close>, dictionaries as
    association lists, the SQL fragment), \<open>PyText\<close> (the operations on \<open>str\<close>), \<open>Json\<close>
    (\<open>json.dumps\<close> and \<open>json.loads\<close> with their round trip), \<open>Codec\<close> (UTF-8 and base64 as
    interpretations of one contract).
  \<^item> The task queue. \<open>TaskFailure\<close> is \<open>lib/task_failure.py\<close>. \<open>TaskTable\<close> holds the rows of
    \<open>lib/db/models/task.py\<close>, \<open>TaskRepo\<close> one definition per method of \<open>TaskRepository\<close>
    (\<open>lib/db/repositories/task_repo.py\<close>). \<open>TaskSteps\<close>, \<open>TaskEvents\<close>, \<open>Cascade\<close> and \<open>TaskCascade\<close>
    say what every operation does to the rows, which terminal events it records and how far a
    cascade reaches; \<open>QueueOps\<close> specifies the single operations; \<open>QueueRuns\<close> interleaves
    transactions from an empty database and proves the invariants of every reachable state.
  \<^item> The queue front end. \<open>GenQueue\<close> is \<open>lib/generation_queue.py\<close> over a repository session, with
    the events of \<open>lib/task_terminal_events.py\<close> and the narration options it compares.
  \<^item> The worker. \<open>Slots\<close> holds the capacity and slot tables of \<open>lib/generation_worker.py\<close>, \<open>Worker\<close>
    the claiming cycle, the run of one task, the resume of a checkpointed one and the recovery at
    start.
  \<^item> What a request reports. \<open>ArtifactKey\<close> is the identity of an artifact and its wire form
    (\<open>lib/artifact_manifest.py\<close>), \<open>GenResult\<close> the selection of targets and the batch result
    (\<open>lib/generation_result.py\<close>), \<open>Admission\<close> the all-or-nothing admission of a batch
    (\<open>lib/batch_admission.py\<close>).
  \<^item> The queue client. \<open>QueueClient\<close> is \<open>lib/generation_queue_client.py\<close>: requests and their checks, waiting
    for a task, batches and their rollback, over the queue of \<open>GenQueue\<close>; with the dependency plan of
    \<open>lib/storyboard_sequence.py\<close> and the requests that \<open>enqueue_storyboards.py\<close> builds from it.
  \<^item> Costs. \<open>Pricing\<close> is \<open>lib/cost_calculator.py\<close> with \<open>lib/pricing/\<close>, \<open>Usage\<close> the call table of
    \<open>lib/db/repositories/usage_repo.py\<close> and the ledger that brackets a call.
  \<^item> Projects. \<open>AssetTypes\<close> is \<open>lib/asset_types.py\<close> with the asset operations of
    \<open>lib/project_manager.py\<close>; \<open>GridLayout\<close> is \<open>lib/grid/layout.py\<close> and \<open>lib/aspect_size.py\<close>.
  \<^item> Scripts. \<open>ScriptEdit\<close> is \<open>lib/script_skeleton.py\<close> and \<open>lib/script_editor.py\<close>: the kinds of script and the
    four edits of a list of units; \<open>ScriptBatch\<close> is \<open>lib/script_batch_edit.py\<close>: the operations of a batch,
    the checks of its candidate and the commit.
  \<^item> Episodes. \<open>EpisodeLedger\<close> is \<open>lib/episode_ledger.py\<close>: entries, sources, episode files; \<open>EpisodeAnchors\<close>
    resolves the boundaries of a draft (with \<open>lib/text_metrics.py\<close>); \<open>EpisodePlan\<close> is the planner of
    \<open>lib/episode_planner.py\<close>, from the gates to the commit and the derived files, and \<open>EpisodeCommit\<close> proves
    what it does to the ledger; \<open>EpisodeReset\<close> is \<open>lib/episode_reset.py\<close> and the histories of both.
  \<^item> Agent sessions. \<open>SessionStore\<close> is \<open>lib/agent_session_store/store.py\<close>, \<open>PrefixFork\<close> the fork of
    a conversation; \<open>SseChannel\<close> is \<open>server/sse_channel.py\<close>; \<open>AccessPolicy\<close> is
    \<open>server/agent_runtime/agent_access_policy.py\<close>, the rules for files and commands, with the hook and
    the callback that apply them.
  \<^item> Services. \<open>Credentials\<close> covers both credential tables and the handlers that guard them,
    \<open>Retry\<close> is \<open>lib/retry.py\<close>.

  \<^bold>\<open>How state and effects are modelled.\<close> A table is a list of rows in insertion order; a
  repository method is a function from the state to the new state and its result, one transaction.
  An exception is \<open>Inl\<close> of an error and leaves the state of the caller alone. Clocks, random
  draws, uuids and everything outside the repository (providers, the SDK, the file system,
  \<open>unicodedata\<close>) are arguments: the price registry, the polls of a wait, the resolving of links. Where
  the code awaits between two transactions, the argument \<open>env\<close> of the worker's definitions, and
  \<open>others\<close> of the client's, is what other transactions commit in between; the planner and the reset take the
  disk and the document twice, before and under the lock. A directory is an association list of names.

  \<^bold>\<open>Interfaces.\<close> Each contract between components is a locale, interpreted on the model's own
  definitions: \<open>row_op\<close> and \<open>repo_relation\<close> (what every repository method keeps),
  \<open>dependency_cascade\<close> (both cascades), \<open>lease_book\<close>, \<open>slot_ledger\<close>, \<open>exclusive_rows\<close> (both
  credential tables), \<open>overflow_policy\<close> (both stream policies), \<open>codec\<close> and \<open>codec_pipe\<close>,
  \<open>namespace_keeper\<close> (every mutation of the asset tables), \<open>builder_op\<close> and \<open>unit_op\<close> (every
  operation of the result builder), \<open>session_protocol\<close> (the store as the fork sees it),
  \<open>protected_rules\<close> (the table both layers of the access policy project), \<open>ledger_keeper\<close> (what planning and
  resetting keep of the ledger).

  \<^bold>\<open>What is proved.\<close> Queue: the exact effect of failing, cancelling and finalising a task with its
  dependents; no two unfinished tasks for the same work; terminal events are exactly the finished
  tasks, each announced once; outcomes are final; a claim hands out the oldest eligible task, never
  twice; the lease excludes; a checkpoint is written once; the preview of a cancellation is the
  cancellation. Worker: a task that was started settles whatever the executor does and whatever
  commits in between; the claiming cycle ends and never exceeds a limit; recovery never submits a
  task again. Failure messages: encoding and parsing are inverse, a bounded message still parses,
  collapsing reaches the root cause. Results: a batch result partitions its units, a selection
  accounts for every candidate, a refused batch blocks every unit with a reason. Projects: every
  asset operation keeps names unique across the four tables; grid plans partition the scenes;
  sizes have the exact ratio. Sessions: a fork copies exactly the prefix and the transcripts it
  refers to; streams lose no critical message, or are prefixes. Services: exactly one active
  credential, and the retry loop calls as often as its policy says and no more. Client: a batch enqueues
  all its requests or withdraws those it made, every request gets one answer, a wait ends, and the
  storyboards of a group are chained to their predecessors. Costs: a computed cost is what the price
  table says of the units, a bracketed call is settled once however it ends, a resume bills once, and the
  costs of a segment add up exactly. Access: a write stays in the project and off the protected files, a
  read never reaches another project or a secret, a whitelisted command is one of the allowed programs,
  and the hook refuses nothing that the sandbox leaves open. Scripts: an edit does to the identifiers and
  assets exactly what its specification says, a batch keeps units apart and stores all of its operations or
  nothing. Episodes: an accepted draft cuts its window without losing a character; a batch goes on exactly
  where the ledger ends and the next one where it ended; the ledger stays well typed and the episode files
  mirror it; after any history of plans and resets a partial reset is never refused because of the ledger, and
  a full reset reopens planning from any damaged state, also from that of an interrupted commit, which
  blocks planning.

  \<^bold>\<open>Fuel and bounds.\<close> The JSON parser runs on fuel linear in the text (\<open>parse_value_enough\<close>), the
  cascades on the number of queued rows (\<open>queued_fuel\<close>), the claiming loop on the number of waiting
  tasks (\<open>claim_lane_returns\<close>); each is proved to be enough, so a result is that of the code's
  unbounded loop. Python integers are \<open>int\<close>; a column width (\<open>MAX_ERROR_MESSAGE_LEN\<close>) is an explicit
  bound. Characters are the code points below 256, and all code points (integers) in the text of a novel; the
  Chinese wording of messages is not kept.

  \<^bold>\<open>Not modelled.\<close> The providers' HTTP clients, prompt building and media processing (their
  behaviour is that of other services); the routers beyond the credential handlers (glue between
  HTTP and the services); file locking and atomic writes; artifact activation, versions, archives,
  migrations, the script generator and the life cycle of agent sessions; the front end. The manifest lists
  them.
\<close>

end
